(* ===== verification/CPrelude.thy ===== *)
theory CPrelude
  imports Main "HOL-Library.Word" "HOL-Library.Multiset" "HOL-Library.Monad_Syntax"
begin

text \<open>
  Shared vocabulary of the development: the fixed-width integers of the C sources, the C
  buffers behind a \<^verbatim>\<open>T *data\<close> field, and the libc block operations on them.

  A buffer is a list of slots, one per allocated element; a slot that was never written holds
  \<open>None\<close>, as \<^verbatim>\<open>malloc\<close> leaves it indeterminate.  Every access returns an \<open>option\<close>: \<open>None\<close>
  is an execution with no defined result (an access outside the allocation, a read of an
  indeterminate slot, a dereference of a handle that is not live).  A theorem that an
  operation returns \<open>Some r\<close> therefore includes memory safety.
\<close>

unbundle bit_operations_syntax

type_synonym u8 = "8 word"
type_synonym u32 = "32 word"
type_synonym u64 = "64 word"
type_synonym u128 = "128 word"

type_synonym 'e buf = "'e option list"

text \<open>The two collections of facts the component proofs pass to the simplifier.\<close>

named_theorems buf_simps \<open>reading and writing buffers within their bounds\<close>
named_theorems word_nat \<open>word operations read as natural numbers\<close>

section \<open>Buffers and the libc block operations\<close>

definition new_buf :: "nat \<Rightarrow> u64 \<Rightarrow> 'e buf" where
  "new_buf w bytes = replicate (unat bytes div w) None"

definition rd :: "'e buf \<Rightarrow> u64 \<Rightarrow> 'e option" where
  "rd b i = (if unat i < length b then b ! unat i else None)"

definition wr :: "'e buf \<Rightarrow> u64 \<Rightarrow> 'e \<Rightarrow> 'e buf option" where
  "wr b i v = (if unat i < length b then Some (b[unat i := Some v]) else None)"

text \<open>\<^verbatim>\<open>memmove(&b[dst], &b[src], bytes)\<close> on elements of \<open>w\<close> bytes.\<close>

definition memmove :: "nat \<Rightarrow> 'e buf \<Rightarrow> u64 \<Rightarrow> u64 \<Rightarrow> u64 \<Rightarrow> 'e buf option" where
  "memmove w b dst src bytes =
     (let n = unat bytes div w; d = unat dst; s = unat src
      in if d + n \<le> length b \<and> s + n \<le> length b
         then Some (take d b @ take n (drop s b) @ drop (d + n) b) else None)"

text \<open>\<^verbatim>\<open>memcpy(d + di, s + si, bytes)\<close> between two distinct buffers.\<close>

definition memcpy :: "nat \<Rightarrow> 'e buf \<Rightarrow> u64 \<Rightarrow> 'e buf \<Rightarrow> u64 \<Rightarrow> u64 \<Rightarrow> 'e buf option" where
  "memcpy w d di s si bytes =
     (let n = unat bytes div w; i = unat di; j = unat si
      in if i + n \<le> length d \<and> j + n \<le> length s
         then Some (take i d @ take n (drop j s) @ drop (i + n) d) else None)"

text \<open>The contents of a block after \<^verbatim>\<open>realloc\<close>: the old elements, then indeterminate ones.\<close>

definition realloc_buf :: "nat \<Rightarrow> 'e buf \<Rightarrow> u64 \<Rightarrow> 'e buf" where
  "realloc_buf w b bytes =
     (let n = unat bytes div w in take n b @ replicate (n - length b) None)"

text \<open>
  \<^verbatim>\<open>qsort\<close> of the first \<open>n\<close> elements with a C comparator: the elements in an order in which no
  comparator call on a later and an earlier one is negative.  The comparators of the sources
  are total orders on the value, so the result is determined.
\<close>

fun qs_insert :: "('e \<Rightarrow> 'e \<Rightarrow> int) \<Rightarrow> 'e \<Rightarrow> 'e list \<Rightarrow> 'e list" where
  "qs_insert cmp x [] = [x]"
| "qs_insert cmp x (y # ys) = (if cmp x y \<le> 0 then x # y # ys else y # qs_insert cmp x ys)"

fun qs_list :: "('e \<Rightarrow> 'e \<Rightarrow> int) \<Rightarrow> 'e list \<Rightarrow> 'e list" where
  "qs_list cmp [] = []"
| "qs_list cmp (x # xs) = qs_insert cmp x (qs_list cmp xs)"

definition qsort :: "'e buf \<Rightarrow> u64 \<Rightarrow> ('e \<Rightarrow> 'e \<Rightarrow> int) \<Rightarrow> 'e buf option" where
  "qsort b n cmp =
     (if unat n \<le> length b
      then do { xs \<leftarrow> those (take (unat n) b); Some (map Some (qs_list cmp xs) @ drop (unat n) b) }
      else None)"

text \<open>A C truth value in an arithmetic expression.\<close>

definition c_bool :: "bool \<Rightarrow> int" where
  "c_bool b = (if b then 1 else 0)"

section \<open>Word arithmetic read as natural numbers\<close>

lemma unat_lt64 [simp]: "unat (x :: u64) < 18446744073709551616"
  using unsigned_less [of x, where ?'a = nat] by simp

lemma power_numeral_64: "(2 :: nat) ^ 64 = 18446744073709551616"
  by simp

lemma unat_add1 [word_nat]: "unat (x :: u64) + 1 < 2 ^ 64 \<Longrightarrow> unat (x + 1) = Suc (unat x)"
  by (simp add: unat_word_ariths)

lemma unat_inc_less: "(i :: u64) < n \<Longrightarrow> unat (i + 1) = Suc (unat i)"
proof -
  assume "i < n"
  then have "unat i < unat n" by (simp add: word_less_nat_alt)
  then show ?thesis using unat_lt64 [of n] by (intro unat_add1, unfold power_numeral_64) linarith
qed

lemma unat_add_small [word_nat]:
  "unat (x :: u64) + unat y < 2 ^ 64 \<Longrightarrow> unat (x + y) = unat x + unat y"
  by (simp add: unat_word_ariths)

lemma unat_mult_small [word_nat]:
  "unat (x :: u64) * unat y < 2 ^ 64 \<Longrightarrow> unat (x * y) = unat x * unat y"
  by (simp add: unat_word_ariths)

lemma unat_sub_small [word_nat]:
  "unat y \<le> unat (x :: u64) \<Longrightarrow> unat (x - y) = unat x - unat y"
  by (rule unat_sub) (simp add: word_le_nat_alt)

lemma unat_of_nat64 [word_nat]: "n < 2 ^ 64 \<Longrightarrow> unat (of_nat n :: u64) = n"
  by (simp add: unat_of_nat)

lemma of_nat_Suc_unat: "of_nat (Suc (unat (x :: u64))) = x + 1"
  by simp

lemma unat_eq_iff64: "(x :: u64) = y \<longleftrightarrow> unat x = unat y"
  by (simp add: word_unat_eq_iff)

section \<open>Lists\<close>

lemma list_update_take_Suc:
  "i < length b \<Longrightarrow> (take (Suc i) b @ ys)[i := v] = take i b @ v # ys"
  by (simp add: take_Suc_conv_app_nth list_update_append)

lemma take_map_snocD:
  assumes "take (length (xs @ [v])) b = map f (xs @ [v])"
  shows "take (length xs) b = map f xs"
proof -
  have "take (length xs) b = take (length xs) (take (length (xs @ [v])) b)" by simp
  also have "\<dots> = map f xs" unfolding assms by simp
  finally show ?thesis .
qed

lemma those_map_Some [simp]: "those (map Some xs) = Some xs"
  by (induction xs) auto

lemma length_qs_insert [simp]: "length (qs_insert cmp x xs) = Suc (length xs)"
  by (induction xs) auto

lemma length_qs_list [simp]: "length (qs_list cmp xs) = length xs"
  by (induction xs) auto

lemma mset_qs_insert [simp]: "mset (qs_insert cmp x xs) = add_mset x (mset xs)"
  by (induction xs) auto

lemma mset_qs_list [simp]: "mset (qs_list cmp xs) = mset xs"
  by (induction xs) auto

lemma set_qs_insert [simp]: "set (qs_insert cmp x xs) = insert x (set xs)"
  by (induction xs) auto

lemma qs_list_sorted_wrt:
  assumes total: "\<And>x y. cmp x y \<le> 0 \<or> cmp y x \<le> 0"
    and trans: "\<And>x y z. cmp x y \<le> 0 \<Longrightarrow> cmp y z \<le> 0 \<Longrightarrow> cmp x z \<le> 0"
  shows "sorted_wrt (\<lambda>x y. cmp x y \<le> 0) (qs_list cmp xs)"
proof -
  have "sorted_wrt (\<lambda>x y. cmp x y \<le> 0) (qs_insert cmp x ys)"
    if "sorted_wrt (\<lambda>x y. cmp x y \<le> 0) ys" for x ys
    using that by (induction ys) (auto dest: total [THEN disjE] trans intro: trans, (metis total trans)?)
  then show ?thesis by (induction xs) auto
qed

text \<open>A comparator that orders by a total order sorts by it.\<close>

lemma qs_insert_insort:
  "(\<And>x y. cmp x y \<le> 0 \<longleftrightarrow> x \<le> y) \<Longrightarrow> qs_insert cmp x xs = insort (x :: 'a :: linorder) xs"
  by (induction xs) auto

lemma qs_list_sort: "(\<And>x y. cmp x y \<le> 0 \<longleftrightarrow> x \<le> y) \<Longrightarrow> qs_list cmp xs = sort (xs :: 'a :: linorder list)"
  by (induction xs) (auto simp: qs_insert_insort)

lemma mod_add_inj:
  assumes "i < C" and "k < (C :: nat)"
  shows "(h + i) mod C = (h + k) mod C \<longleftrightarrow> i = k"
proof -
  have "i = k" if "(h + i) mod C = (h + k) mod C" "i \<le> k" "k < C" for i k
  proof -
    have "C dvd (h + k) - (h + i)" using that mod_eq_dvd_iff_nat [of "h + i" "h + k" C] by simp
    then have "C dvd k - i" by simp
    then show ?thesis using that by (auto dest: dvd_imp_le)
  qed
  then show ?thesis using assms by (metis nat_le_linear)
qed

text \<open>\<^verbatim>\<open>x & (x - 1)\<close> clears the lowest bit.\<close>

lemma clear_lowest:
  fixes x :: "'a::len word"
  assumes "bit x b" and "\<forall>j < b. \<not> bit x j"
  shows "bit (x AND (x - 1)) j \<longleftrightarrow> bit x j \<and> j \<noteq> b"
proof -
  define y where "y = x AND NOT (push_bit b 1)"
  have y: "bit y j \<longleftrightarrow> bit x j \<and> j \<noteq> b" for j
    using bit_imp_le_length [of x j] by (auto simp: y_def bit_simps)
  have "x = y OR push_bit b 1"
    using assms(1) bit_imp_le_length [OF assms(1)] by (intro bit_eqI) (auto simp: y bit_simps)
  also have "\<dots> = y + push_bit b 1"
    by (rule disjunctive_add [symmetric]) (auto simp: y bit_simps)
  finally have x: "x = y + push_bit b 1" .
  have "x - 1 = y + mask b" unfolding x by (simp add: mask_eq_exp_minus_1 push_bit_eq_mult)
  also have "\<dots> = y OR mask b"
    using assms(2) by (intro disjunctive_add) (auto simp: y bit_simps)
  finally have "x - 1 = y OR mask b" .
  then show ?thesis using assms(2) by (auto simp: bit_simps y)
qed

end
