(* ===== verification/Vcol_Store.thy ===== *)
theory Vcol_Store
  imports CPrelude
begin

text \<open>
  The host heap the collections plugin works on (\<^verbatim>\<open>stdlib/native/collections\<close>): the structs
  behind the opaque 64-bit handles, the live objects by address, the allocator, and the
  external reference counts the VM's collector keeps for the plugin.

  The allocator's decisions are part of the state: the \<open>n\<close>-th call of \<^verbatim>\<open>malloc\<close> answers with
  the address \<open>grant s n bytes\<close>, unless that address is null or in use or the request exceeds
  \<^verbatim>\<open>PTRDIFF_MAX\<close>, in which case it fails.  Every theorem holds for every choice of \<open>grant\<close>, so for every
  sequence of successes and failures.  An element buffer has one owner, its struct, and is kept
  inside it; a tree node is an object of its own, reached through pointers.
\<close>

section \<open>Sentinels of the public header\<close>

definition VCOL_NOT_FOUND :: u64 where
  "VCOL_NOT_FOUND = 0xFFFFFFFFFFFFFFFF"

definition VCOL_NULL :: u64 where
  "VCOL_NULL = 0"

section \<open>The structs\<close>

text \<open>\<^verbatim>\<open>VestaList\<close> and \<^verbatim>\<open>VestaArrayList\<close> have one layout and differ in the element width.\<close>

record 'e darr =
  da_data :: "'e buf"
  da_size :: u64
  da_cap :: u64

type_synonym VestaList = "u32 darr"
type_synonym VestaArrayList = "u64 darr"

text \<open>A group of sixteen slots of the hash map, and the map.\<close>

record VMapGroup =
  g_ctrl :: "u8 list"
  g_keys :: "u64 list"
  g_vals :: "u64 list"

record VestaHashMap =
  m_groups :: "VMapGroup list"
  m_group_cnt :: u64
  m_size :: u64
  m_threshold :: u64

text \<open>The ring buffer; \<^verbatim>\<open>VestaDeque\<close> is the same struct.\<close>

record VestaQueue =
  q_data :: "u64 buf"
  q_cap :: u64
  q_mask :: u64
  q_head :: u64
  q_tail :: u64
  q_size :: u64

type_synonym VestaDeque = VestaQueue

text \<open>The red-black tree: nodes with parent pointers and one sentinel per tree.\<close>

datatype VTreeColor = VTREE_BLACK | VTREE_RED

record VTreeNode =
  n_key :: u64
  n_value :: u64
  n_color :: VTreeColor
  n_left :: u64
  n_right :: u64
  n_parent :: u64

record VestaTreeMap =
  t_root :: u64
  t_nil :: u64
  t_size :: u64

datatype vobj =
    OList VestaList
  | OArrayList VestaArrayList
  | OHashMap VestaHashMap
  | OQueue VestaQueue
  | OTreeMap VestaTreeMap

section \<open>The host state\<close>

record store =
  objs :: "u64 \<rightharpoonup> vobj"
  nodes :: "u64 \<rightharpoonup> VTreeNode"
  tick :: nat
  grant :: "nat \<Rightarrow> u64 \<Rightarrow> u64"
  g_api :: bool
  extrefs :: "u64 \<Rightarrow> u32 \<rightharpoonup> u32"

definition PTRDIFF_MAX :: nat where
  "PTRDIFF_MAX = 2 ^ 63 - 1"

definition malloc :: "store \<Rightarrow> u64 \<Rightarrow> u64 \<times> store" where
  "malloc s n =
     (let a = grant s (tick s) n; s' = s\<lparr>tick := Suc (tick s)\<rparr>
      in if objs s a \<noteq> None \<or> nodes s a \<noteq> None \<or> PTRDIFF_MAX < unat n then (0, s')
         else (a, s'))"

text \<open>\<^verbatim>\<open>free\<close> of a handle's struct; freeing an address that is not live is undefined.\<close>

definition free_obj :: "store \<Rightarrow> u64 \<Rightarrow> store option" where
  "free_obj s h = (if objs s h = None then None else Some (s\<lparr>objs := (objs s)(h := None)\<rparr>))"

section \<open>Handles\<close>

text \<open>
  A handle is the address of a struct cast to \<^verbatim>\<open>uint64_t\<close>.  Reading it through the wrong type,
  or after it was freed, has no defined result.
\<close>

definition deref :: "(vobj \<Rightarrow> 'o option) \<Rightarrow> store \<Rightarrow> u64 \<Rightarrow> 'o option" where
  "deref prj s h = Option.bind (objs s h) prj"

definition put :: "('o \<Rightarrow> vobj) \<Rightarrow> store \<Rightarrow> u64 \<Rightarrow> 'o \<Rightarrow> store" where
  "put mk s h x = s\<lparr>objs := (objs s)(h \<mapsto> mk x)\<rparr>"

fun as_list :: "vobj \<Rightarrow> VestaList option" where
  "as_list (OList l) = Some l"
| "as_list _ = None"

fun as_alist :: "vobj \<Rightarrow> VestaArrayList option" where
  "as_alist (OArrayList l) = Some l"
| "as_alist _ = None"

fun as_map :: "vobj \<Rightarrow> VestaHashMap option" where
  "as_map (OHashMap m) = Some m"
| "as_map _ = None"

fun as_queue :: "vobj \<Rightarrow> VestaQueue option" where
  "as_queue (OQueue q) = Some q"
| "as_queue _ = None"

fun as_tmap :: "vobj \<Rightarrow> VestaTreeMap option" where
  "as_tmap (OTreeMap t) = Some t"
| "as_tmap _ = None"

text \<open>Everything but the object at \<open>h\<close> and the allocator's call counter is as before.\<close>

definition only_changes :: "u64 \<Rightarrow> store \<Rightarrow> store \<Rightarrow> bool" where
  "only_changes h s s' \<longleftrightarrow>
     (\<forall>k. k \<noteq> h \<longrightarrow> objs s' k = objs s k) \<and> nodes s' = nodes s \<and> grant s' = grant s
     \<and> g_api s' = g_api s \<and> extrefs s' = extrefs s"

lemma only_changesI [intro]:
  assumes "\<And>k. k \<noteq> h \<Longrightarrow> objs s' k = objs s k" and "nodes s' = nodes s"
    and "grant s' = grant s" and "g_api s' = g_api s" and "extrefs s' = extrefs s"
  shows "only_changes h s s'"
  using assms by (simp add: only_changes_def)

lemma only_changes_refl [simp, intro]: "only_changes h s s"
  by (simp add: only_changes_def)

lemma only_changes_trans [trans]:
  "only_changes h s s' \<Longrightarrow> only_changes h s' s'' \<Longrightarrow> only_changes h s s''"
  by (simp add: only_changes_def)

lemma only_changes_put [intro]: "only_changes h s s' \<Longrightarrow> only_changes h s (put mk s' h x)"
  by (simp add: only_changes_def put_def)

lemma only_changes_put_same [simp]: "only_changes h s (put mk s h x)"
  by (simp add: only_changes_def put_def)

lemma only_changes_other:
  "only_changes h s s' \<Longrightarrow> k \<noteq> h \<Longrightarrow> deref prj s' k = deref prj s k"
  by (simp add: only_changes_def deref_def)

lemma objs_put [simp]: "objs (put mk s h x) = (objs s)(h \<mapsto> mk x)"
  by (simp add: put_def)

lemma put_other [simp]:
  "nodes (put mk s h x) = nodes s" "tick (put mk s h x) = tick s"
  "grant (put mk s h x) = grant s" "g_api (put mk s h x) = g_api s"
  "extrefs (put mk s h x) = extrefs s"
  by (simp_all add: put_def)

lemma deref_put_other [simp]: "k \<noteq> h \<Longrightarrow> deref prj (put mk s h x) k = deref prj s k"
  by (simp add: deref_def)

lemma put_put [simp]: "put mk (put mk' s h x) h y = put mk s h y"
  by (simp add: put_def)

section \<open>The allocator\<close>

definition after_malloc :: "store \<Rightarrow> store" where
  "after_malloc s = s\<lparr>tick := Suc (tick s)\<rparr>"

lemma snd_malloc [simp]: "snd (malloc s n) = after_malloc s"
  by (simp add: malloc_def Let_def after_malloc_def)

lemma malloc_eq: "malloc s n = (fst (malloc s n), after_malloc s)"
  by (metis prod.collapse snd_malloc)

lemma after_malloc_simps [simp]:
  "objs (after_malloc s) = objs s" "nodes (after_malloc s) = nodes s"
  "grant (after_malloc s) = grant s" "g_api (after_malloc s) = g_api s"
  "extrefs (after_malloc s) = extrefs s" "tick (after_malloc s) = Suc (tick s)"
  by (simp_all add: after_malloc_def)

lemma deref_after_malloc [simp]: "deref prj (after_malloc s) h = deref prj s h"
  by (simp add: deref_def)

lemma only_changes_after_malloc [simp, intro]: "only_changes h s (after_malloc s)"
  by (auto simp: only_changes_def)

lemma malloc_fresh: "fst (malloc s n) \<noteq> 0 \<Longrightarrow> objs s (fst (malloc s n)) = None"
  by (auto simp: malloc_def Let_def split: if_splits)

lemma malloc_bound: "fst (malloc s n) \<noteq> 0 \<Longrightarrow> unat n < 2 ^ 63"
  by (auto simp: malloc_def Let_def PTRDIFF_MAX_def split: if_splits)

section \<open>The interface between a struct type and its handles\<close>

text \<open>
  A client reads and writes one struct through its handle.  The laws are those of one
  constructor of \<open>vobj\<close>: what is stored is read back, and nothing else is read as that struct.
\<close>

locale handle_kind =
  fixes mk :: "'o \<Rightarrow> vobj" and prj :: "vobj \<Rightarrow> 'o option"
  assumes prj_mk: "prj (mk x) = Some x"
    and prj_SomeD: "prj v = Some x \<Longrightarrow> v = mk x"
begin

lemma deref_put_same: "deref prj (put mk s h x) h = Some x"
  by (simp add: deref_def prj_mk)

lemma deref_SomeD: "deref prj s h = Some x \<Longrightarrow> objs s h = Some (mk x)"
  by (auto simp: deref_def bind_eq_Some_conv dest: prj_SomeD)

lemma put_deref_id: "deref prj s h = Some x \<Longrightarrow> put mk s h x = s"
  by (auto dest!: deref_SomeD simp: put_def fun_upd_idem)

lemma deref_free: "objs s h = Some (mk x) \<Longrightarrow>
    free_obj s h = Some (s\<lparr>objs := (objs s)(h := None)\<rparr>)"
  by (simp add: free_obj_def)

lemma deref_freed: "free_obj s h = Some s' \<Longrightarrow> deref prj s' h = None"
  by (auto simp: free_obj_def deref_def split: if_splits)

end

interpretation list_kind: handle_kind OList as_list
proof unfold_locales
  show "as_list v = Some x \<Longrightarrow> v = OList x" for v x by (cases v) auto
qed simp

interpretation alist_kind: handle_kind OArrayList as_alist
proof unfold_locales
  show "as_alist v = Some x \<Longrightarrow> v = OArrayList x" for v x by (cases v) auto
qed simp

interpretation map_kind: handle_kind OHashMap as_map
proof unfold_locales
  show "as_map v = Some x \<Longrightarrow> v = OHashMap x" for v x by (cases v) auto
qed simp

interpretation queue_kind: handle_kind OQueue as_queue
proof unfold_locales
  show "as_queue v = Some x \<Longrightarrow> v = OQueue x" for v x by (cases v) auto
qed simp

interpretation tmap_kind: handle_kind OTreeMap as_tmap
proof unfold_locales
  show "as_tmap v = Some x \<Longrightarrow> v = OTreeMap x" for v x by (cases v) auto
qed simp

lemmas deref_put_same [simp] =
  list_kind.deref_put_same alist_kind.deref_put_same map_kind.deref_put_same
  queue_kind.deref_put_same tmap_kind.deref_put_same

section \<open>A concrete host\<close>

text \<open>An empty host whose allocator hands out a fresh page per call: the state the examples start from.\<close>

definition demo_store :: store where
  "demo_store = \<lparr>objs = Map.empty, nodes = Map.empty, tick = 0,
     grant = (\<lambda>n _. of_nat (4096 * Suc n)), g_api = True, extrefs = (\<lambda>_. Map.empty)\<rparr>"

lemma demo_store_simps [simp]:
  "objs demo_store = Map.empty" "nodes demo_store = Map.empty" "tick demo_store = 0"
  "grant demo_store n b = of_nat (4096 * Suc n)" "g_api demo_store" "extrefs demo_store p = Map.empty"
  by (simp_all add: demo_store_def)

end
