(* ===== verification/Vcol_Api.thy ===== *)
theory Vcol_Api
  imports Vcol_Store
begin

text \<open>
  What a collection promises to its callers, independently of the collection: calls on one
  handle, one after the other, behave as the abstract operation on the denoted value, except
  that a call that needs memory may be refused, in which case it reports
  \<^verbatim>\<open>VCOL_NOT_FOUND\<close> and changes nothing.
\<close>

fun run_calls :: "(store \<Rightarrow> u64 \<Rightarrow> 'c \<Rightarrow> (u64 \<times> store) option) \<Rightarrow> store \<Rightarrow> u64 \<Rightarrow> 'c list
    \<Rightarrow> (u64 list \<times> store) option" where
  "run_calls exec s h [] = Some ([], s)"
| "run_calls exec s h (c # cs) =
     do { (r, s) \<leftarrow> exec s h c; (rs, s) \<leftarrow> run_calls exec s h cs; Some (r # rs, s) }"

inductive spec_run :: "('a \<Rightarrow> 'c \<Rightarrow> u64 \<times> 'a) \<Rightarrow> ('c \<Rightarrow> bool) \<Rightarrow> 'a \<Rightarrow> 'c list \<Rightarrow> u64 list \<Rightarrow> 'a \<Rightarrow> bool"
  for spec :: "'a \<Rightarrow> 'c \<Rightarrow> u64 \<times> 'a" and grows :: "'c \<Rightarrow> bool" where
  spec_done: "spec_run spec grows a [] [] a"
| spec_call: "spec a c = (r, a') \<Longrightarrow> spec_run spec grows a' cs rs a'' \<Longrightarrow>
    spec_run spec grows a (c # cs) (r # rs) a''"
| spec_refuse: "grows c \<Longrightarrow> spec_run spec grows a cs rs a'' \<Longrightarrow>
    spec_run spec grows a (c # cs) (VCOL_NOT_FOUND # rs) a''"

inductive_cases spec_run_NilE: "spec_run spec grows a [] rs a'"
inductive_cases spec_run_ConsE: "spec_run spec grows a (c # cs) rs a'"

lemma spec_run_length: "spec_run spec grows a cs rs a' \<Longrightarrow> length rs = length cs"
  by (induction rule: spec_run.induct) auto

text \<open>Calls that never need memory are never refused: the run is the abstract one.\<close>

lemma spec_run_fold:
  assumes "spec_run spec grows a cs rs a'" and "\<forall>c \<in> set cs. \<not> grows c"
  shows "a' = fold (\<lambda>c a. snd (spec a c)) cs a"
  using assms by (induction rule: spec_run.induct) auto

locale collection_api =
  fixes exec :: "store \<Rightarrow> u64 \<Rightarrow> 'c \<Rightarrow> (u64 \<times> store) option"
    and spec :: "'a \<Rightarrow> 'c \<Rightarrow> u64 \<times> 'a"
    and has :: "store \<Rightarrow> u64 \<Rightarrow> 'a \<Rightarrow> bool"
    and grows :: "'c \<Rightarrow> bool"
    and refused :: "store \<Rightarrow> u64 \<Rightarrow> 'c \<Rightarrow> bool"
  assumes call_ok: "has s h a \<Longrightarrow> \<not> refused s h c \<Longrightarrow>
      \<exists>s'. exec s h c = Some (fst (spec a c), s') \<and> has s' h (snd (spec a c)) \<and> only_changes h s s'"
    and call_refused: "has s h a \<Longrightarrow> refused s h c \<Longrightarrow>
      grows c \<and> (\<exists>s'. exec s h c = Some (VCOL_NOT_FOUND, s') \<and> has s' h a \<and> only_changes h s s')"
begin

lemma call_step:
  assumes "has s h a"
  shows "\<exists>r s' a'. exec s h c = Some (r, s') \<and> has s' h a' \<and> only_changes h s s'
    \<and> (spec a c = (r, a') \<or> grows c \<and> r = VCOL_NOT_FOUND \<and> a' = a)"
proof (cases "refused s h c")
  case True
  then show ?thesis using call_refused [OF assms] by blast
next
  case False
  then show ?thesis using call_ok [OF assms] by (metis prod.collapse)
qed

lemma run_refines:
  assumes "has s h a"
  shows "\<exists>rs s' a'. run_calls exec s h cs = Some (rs, s') \<and> has s' h a'
    \<and> spec_run spec grows a cs rs a' \<and> only_changes h s s'"
  using assms
proof (induction cs arbitrary: s a)
  case Nil
  then show ?case by (auto intro: spec_run.spec_done)
next
  case (Cons c cs)
  obtain r s1 a1 where 1: "exec s h c = Some (r, s1)" "has s1 h a1" "only_changes h s s1"
      "spec a c = (r, a1) \<or> grows c \<and> r = VCOL_NOT_FOUND \<and> a1 = a"
    using call_step [OF Cons.prems] by blast
  obtain rs s2 a2 where "run_calls exec s1 h cs = Some (rs, s2)" "has s2 h a2"
      "spec_run spec grows a1 cs rs a2" "only_changes h s1 s2"
    using Cons.IH [OF 1(2)] by blast
  then show ?case
    using 1 by (auto intro: only_changes_trans spec_run.spec_call spec_run.spec_refuse)
qed

end

end
