(* ===== verification/Vcol_DArr.thy ===== *)
theory Vcol_DArr
  imports Vcol_Api
begin

text \<open>
  The struct shared by \<^verbatim>\<open>VestaList\<close> and \<^verbatim>\<open>VestaArrayList\<close>: a buffer, a size and a capacity.
  \<open>da_rep w a xs\<close> is the invariant and the abstraction in one: the struct's buffer has the
  announced capacity, its elements take \<open>w\<close> bytes each, and its first slots are the elements
  \<open>xs\<close>.  The lemmas give the effect of every buffer operation of the two components on it.
\<close>

definition da_rep :: "nat \<Rightarrow> 'e darr \<Rightarrow> 'e list \<Rightarrow> bool" where
  "da_rep w a xs \<longleftrightarrow>
     unat (da_size a) = length xs \<and> length (da_data a) = unat (da_cap a)
     \<and> take (length xs) (da_data a) = map Some xs
     \<and> 0 < unat (da_cap a) \<and> unat (da_cap a) * w < 2 ^ 63 \<and> 0 < w"

text \<open>The linear search loop \<^verbatim>\<open>for (i = 0; i < n; i++) if (b[i] == t) return i;\<close>\<close>

function scan_eq :: "'e buf \<Rightarrow> u64 \<Rightarrow> 'e \<Rightarrow> u64 \<Rightarrow> u64 option" where
  "scan_eq b n t i =
     (if i < n then do { x \<leftarrow> rd b i; if x = t then Some i else scan_eq b n t (i + 1) }
      else Some VCOL_NOT_FOUND)"
  by pat_completeness auto
termination
proof (relation "measure (\<lambda>(b, n, t, i). unat n - unat i)")
  fix b :: "'e buf" and n :: u64 and t x :: 'e and i :: u64
  assume "i < n"
  then have "unat (i + 1) = Suc (unat i)" and "unat i < unat n"
    by (simp_all add: unat_inc_less word_less_nat_alt)
  then show "((b, n, t, i + 1), b, n, t, i) \<in> measure (\<lambda>(b, n, t, i). unat n - unat i)"
    by simp
qed simp

declare scan_eq.simps [simp del]

section \<open>Facts of the representation\<close>

lemma da_rep_sizeD: "da_rep w a xs \<Longrightarrow> unat (da_size a) = length xs"
  by (simp add: da_rep_def)

lemma da_rep_size: "da_rep w a xs \<Longrightarrow> da_size a = of_nat (length xs)"
  by (simp add: da_rep_def unat_eq_iff64 unat_of_nat) (metis unat_lt64 mod_less)

lemma da_rep_le_cap: "da_rep w a xs \<Longrightarrow> length xs \<le> unat (da_cap a)"
  unfolding da_rep_def by (metis length_map length_take min.cobounded2 min.commute)

lemma da_rep_cap63: "da_rep w a xs \<Longrightarrow> unat (da_cap a) < 2 ^ 63"
proof -
  assume "da_rep w a xs"
  then have "unat (da_cap a) * w < 2 ^ 63" and "0 < w" by (auto simp: da_rep_def)
  then show ?thesis by (metis One_nat_def Suc_leI mult.right_neutral mult_le_mono2 order_le_less_trans)
qed

lemma da_rep_length63: "da_rep w a xs \<Longrightarrow> length xs < 2 ^ 63"
  using da_rep_le_cap da_rep_cap63 order_le_less_trans by blast

lemma da_rep_nth: "da_rep w a xs \<Longrightarrow> i < length xs \<Longrightarrow> da_data a ! i = Some (xs ! i)"
  unfolding da_rep_def by (metis nth_map nth_take)

lemma da_rep_rd [buf_simps]:
  assumes "da_rep w a xs" and "unat i < length xs"
  shows "rd (da_data a) i = Some (xs ! unat i)"
  using assms da_rep_le_cap [OF assms(1)] da_rep_nth [OF assms(1)]
  by (simp add: rd_def da_rep_def)

lemma da_rep_full: "da_rep w a xs \<Longrightarrow> da_size a = da_cap a \<longleftrightarrow> length xs = unat (da_cap a)"
  by (simp add: da_rep_def unat_eq_iff64)

lemma da_rep_index: "da_rep w a xs \<Longrightarrow> da_size a \<le> i \<longleftrightarrow> length xs \<le> unat i"
  by (simp add: da_rep_def word_le_nat_alt)

lemma da_rep_empty: "da_rep w a xs \<Longrightarrow> da_size a = 0 \<longleftrightarrow> xs = []"
  by (simp add: da_rep_def unat_eq_iff64)

lemma da_rep_unique: "da_rep w a xs \<Longrightarrow> da_rep w a ys \<Longrightarrow> xs = ys"
  unfolding da_rep_def by (metis inj_Some inj_map_eq_map)

section \<open>Byte counts\<close>

lemma unat_bytes:
  assumes "unat n * w < 2 ^ 64" and "0 < w"
  shows "unat ((n :: u64) * of_nat w) div w = unat n"
proof (cases "n = 0")
  case True
  then show ?thesis by simp
next
  case False
  then have "1 \<le> unat n" by (simp add: Suc_le_eq unat_gt_0)
  then have "w < 2 ^ 64" using assms(1) by (metis mult_1 mult_le_mono1 order_le_less_trans)
  then have "unat (of_nat w :: u64) = w" by (rule unat_of_nat64)
  then show ?thesis using assms by (simp add: unat_mult_small)
qed

lemma da_rep_bytes [buf_simps]:
  assumes "da_rep w a xs" and "unat (k :: u64) \<le> unat (da_cap a)"
  shows "unat (k * of_nat w) div w = unat k"
proof -
  have "unat k * w \<le> unat (da_cap a) * w" using assms(2) by simp
  also have "\<dots> < 2 ^ 63" using assms(1) by (simp add: da_rep_def)
  finally have "unat k * w < 2 ^ 64" by simp
  then show ?thesis by (rule unat_bytes) (use assms(1) in \<open>simp add: da_rep_def\<close>)
qed

section \<open>The operations on the representation\<close>

lemma da_rep_new:
  assumes "unat cap * w < 2 ^ 63" and "0 < unat cap" and "0 < w"
  shows "da_rep w \<lparr>da_data = new_buf w (cap * of_nat w), da_size = 0, da_cap = cap\<rparr> []"
  using assms unat_bytes [of cap w] by (simp add: da_rep_def new_buf_def)

lemma da_rep_regrow:
  assumes rep: "da_rep w a xs" and "unat new_cap = 2 * unat (da_cap a)"
    and "2 * unat (da_cap a) * w < 2 ^ 63"
  shows "da_rep w (a\<lparr>da_data := realloc_buf w (da_data a) (new_cap * of_nat w),
                     da_cap := new_cap\<rparr>) xs"
proof -
  have "unat (new_cap * of_nat w) div w = 2 * unat (da_cap a)"
    using unat_bytes [of new_cap w] assms by (simp add: da_rep_def)
  then show ?thesis
    using assms da_rep_le_cap [OF rep] by (simp add: da_rep_def realloc_buf_def)
qed

lemma da_rep_push:
  assumes rep: "da_rep w a xs" and "length xs < unat (da_cap a)"
  shows "\<exists>d. wr (da_data a) (da_size a) v = Some d
    \<and> da_rep w (a\<lparr>da_data := d, da_size := da_size a + 1\<rparr>) (xs @ [v])
    \<and> unat (da_size a + 1) = Suc (length xs)"
proof -
  have "unat (da_size a + 1) = Suc (length xs)"
    using da_rep_length63 [OF rep] rep by (simp add: da_rep_def unat_add1)
  then show ?thesis
    using assms by (simp add: wr_def da_rep_def take_Suc_conv_app_nth)
qed

lemma da_rep_pop:
  assumes rep: "da_rep w a (xs @ [v])"
  shows "rd (da_data a) (da_size a - 1) = Some v"
    and "da_rep w (a\<lparr>da_size := da_size a - 1\<rparr>) xs"
proof -
  have n: "unat (da_size a - 1) = length xs"
    using rep by (simp add: da_rep_def unat_sub_small)
  then show "rd (da_data a) (da_size a - 1) = Some v"
    using da_rep_rd [OF rep, of "da_size a - 1"] by simp
  have "take (length xs) (da_data a) = map Some xs"
    by (rule take_map_snocD) (use rep in \<open>simp add: da_rep_def\<close>)
  then show "da_rep w (a\<lparr>da_size := da_size a - 1\<rparr>) xs"
    using rep n by (simp add: da_rep_def)
qed

lemma da_rep_set:
  assumes rep: "da_rep w a xs" and "unat i < length xs"
  shows "\<exists>d. wr (da_data a) i v = Some d \<and> da_rep w (a\<lparr>da_data := d\<rparr>) (xs[unat i := v])"
  using assms da_rep_le_cap [OF rep]
  by (simp add: wr_def da_rep_def take_update_swap map_update)

lemma da_rep_clear: "da_rep w a xs \<Longrightarrow> da_rep w (a\<lparr>da_size := 0\<rparr>) []"
  by (simp add: da_rep_def)

lemma da_rep_splitE:
  assumes "da_rep w a xs"
  obtains r where "da_data a = map Some xs @ r" and "length xs + length r = unat (da_cap a)"
proof
  show "da_data a = map Some xs @ drop (length xs) (da_data a)"
    using assms unfolding da_rep_def by (metis append_take_drop_id)
  show "length xs + length (drop (length xs) (da_data a)) = unat (da_cap a)"
    using assms da_rep_le_cap [OF assms] by (simp add: da_rep_def)
qed

lemma memmove_Some:
  assumes "unat bytes div w = n" and "unat dst + n \<le> length b" and "unat src + n \<le> length b"
  shows "memmove w b dst src bytes =
    Some (take (unat dst) b @ take n (drop (unat src) b) @ drop (unat dst + n) b)"
  using assms by (simp add: memmove_def Let_def)

lemma da_rep_width: "da_rep w a xs \<Longrightarrow> w < 2 ^ 64"
proof -
  assume rep: "da_rep w a xs"
  then have "w \<le> unat (da_cap a) * w" by (cases "unat (da_cap a)") (auto simp: da_rep_def)
  also have "\<dots> < 2 ^ 63" using rep by (simp add: da_rep_def)
  finally show ?thesis by simp
qed

text \<open>
  Doubling: neither the new capacity nor its byte count wraps, because a live buffer never
  exceeds \<^verbatim>\<open>PTRDIFF_MAX\<close> bytes.
\<close>

lemma da_rep_grow:
  assumes rep: "da_rep w a xs" and ok: "fst (malloc s (da_cap a * 2 * of_nat w)) \<noteq> 0"
  shows "unat (da_cap a * 2) = 2 * unat (da_cap a)"
    and "da_rep w (a\<lparr>da_data := realloc_buf w (da_data a) (da_cap a * 2 * of_nat w),
                      da_cap := da_cap a * 2\<rparr>) xs"
proof -
  have c: "unat (da_cap a) * w < 2 ^ 63" "0 < w" using rep by (simp_all add: da_rep_def)
  show n: "unat (da_cap a * 2) = 2 * unat (da_cap a)"
    using da_rep_cap63 [OF rep] by (subst unat_mult_small) simp_all
  have w: "unat (of_nat w :: u64) = w"
    using da_rep_width [OF rep] by (rule unat_of_nat64)
  have "unat (da_cap a * 2 * of_nat w) = 2 * unat (da_cap a) * w"
    using c n w by (subst unat_mult_small) (simp_all add: mult.commute)
  then have "2 * unat (da_cap a) * w < 2 ^ 63" using malloc_bound [OF ok] by simp
  then show "da_rep w (a\<lparr>da_data := realloc_buf w (da_data a) (da_cap a * 2 * of_nat w),
                      da_cap := da_cap a * 2\<rparr>) xs"
    using da_rep_regrow [OF rep n] by simp
qed

text \<open>A slot is free, or the allocator grants the doubled buffer.\<close>

definition has_room :: "store \<Rightarrow> nat \<Rightarrow> 'e darr \<Rightarrow> bool" where
  "has_room s w a \<longleftrightarrow> da_size a \<noteq> da_cap a \<or> fst (malloc s (da_cap a * 2 * of_nat w)) \<noteq> 0"

lemma da_rep_room: "da_rep w a xs \<Longrightarrow> length xs < unat (da_cap a) \<Longrightarrow> has_room s w a"
  by (auto simp: has_room_def da_rep_full)

text \<open>\<^verbatim>\<open>memmove\<close> one slot to the left closes the gap a removal leaves.\<close>

lemma da_rep_remove:
  assumes rep: "da_rep w a xs" and i: "unat i < length xs"
  shows "\<exists>d. memmove w (da_data a) i (i + 1) ((da_size a - i - 1) * of_nat w) = Some d
    \<and> da_rep w (a\<lparr>da_data := d, da_size := da_size a - 1\<rparr>)
        (take (unat i) xs @ drop (Suc (unat i)) xs)"
proof -
  have si: "unat (i + 1) = Suc (unat i)"
    using i da_rep_length63 [OF rep] by (intro unat_add1) simp
  have n: "unat (da_size a - i - 1) = length xs - Suc (unat i)"
    using i rep by (simp add: da_rep_def unat_sub_small)
  have "unat ((da_size a - i - 1) * of_nat w) div w = length xs - Suc (unat i)"
    using da_rep_bytes [OF rep, of "da_size a - i - 1"] da_rep_le_cap [OF rep] n by simp
  note mv = memmove_Some [OF this, of i "da_data a" "i + 1"]
  obtain r where r: "da_data a = map Some xs @ r" "length xs + length r = unat (da_cap a)"
    using rep by (rule da_rep_splitE)
  define d where "d = take (unat i) (da_data a)
    @ take (length xs - Suc (unat i)) (drop (Suc (unat i)) (da_data a))
    @ drop (unat i + (length xs - Suc (unat i))) (da_data a)"
  have "memmove w (da_data a) i (i + 1) ((da_size a - i - 1) * of_nat w) = Some d"
    using mv i r by (simp add: si d_def)
  moreover have "da_rep w (a\<lparr>da_data := d, da_size := da_size a - 1\<rparr>)
        (take (unat i) xs @ drop (Suc (unat i)) xs)"
    using rep i r by (simp add: da_rep_def d_def unat_sub_small take_map drop_map)
  ultimately show ?thesis by blast
qed

text \<open>\<^verbatim>\<open>memmove\<close> one slot to the right opens the gap an insertion fills.\<close>

lemma da_rep_insert:
  assumes rep: "da_rep w a xs" and i: "unat i \<le> length xs"
    and room: "length xs < unat (da_cap a)"
  shows "\<exists>d d'. memmove w (da_data a) (i + 1) i ((da_size a - i) * of_nat w) = Some d
    \<and> wr d i v = Some d'
    \<and> da_rep w (a\<lparr>da_data := d', da_size := da_size a + 1\<rparr>)
        (take (unat i) xs @ v # drop (unat i) xs)
    \<and> unat (da_size a + 1) = Suc (length xs)"
proof -
  have si: "unat (i + 1) = Suc (unat i)"
    using i da_rep_length63 [OF rep] by (intro unat_add1) simp
  have n: "unat (da_size a - i) = length xs - unat i"
    using i rep by (simp add: da_rep_def unat_sub_small)
  have b: "unat ((da_size a - i) * of_nat w) div w = length xs - unat i"
    using da_rep_bytes [OF rep, of "da_size a - i"] room n by simp
  have s1: "unat (da_size a + 1) = Suc (length xs)"
    using da_rep_length63 [OF rep] rep by (simp add: da_rep_def unat_add1)
  note mv = memmove_Some [OF b, of "i + 1" "da_data a" i]
  obtain r where r: "da_data a = map Some xs @ r" "length xs + length r = unat (da_cap a)"
    using rep by (rule da_rep_splitE)
  define d where "d = take (Suc (unat i)) (da_data a)
    @ take (length xs - unat i) (drop (unat i) (da_data a))
    @ drop (Suc (unat i) + (length xs - unat i)) (da_data a)"
  have mv': "memmove w (da_data a) (i + 1) i ((da_size a - i) * of_nat w) = Some d"
    using mv i r room by (simp add: si d_def)
  have "d[unat i := Some v] = take (unat i) (da_data a) @ Some v # map Some (drop (unat i) xs)
    @ drop (Suc (length xs)) (da_data a)"
    using i r room unfolding d_def
    by (subst list_update_take_Suc) (simp_all add: drop_map)
  moreover have "wr d i v = Some (d[unat i := Some v])"
    using i r room by (simp add: wr_def d_def)
  moreover have "da_rep w (a\<lparr>da_data := take (unat i) (da_data a) @ Some v # map Some (drop (unat i) xs)
    @ drop (Suc (length xs)) (da_data a), da_size := da_size a + 1\<rparr>)
    (take (unat i) xs @ v # drop (unat i) xs)"
    using rep i r room s1 by (simp add: da_rep_def take_map Suc_diff_le)
  ultimately show ?thesis using mv' s1 by simp
qed

text \<open>\<^verbatim>\<open>memcpy\<close> of the live prefix into a buffer of at least its size.\<close>

lemma da_rep_copy:
  assumes src: "da_rep w a xs" and dst: "da_rep w c []" and cap: "unat (da_cap a) \<le> unat (da_cap c)"
  shows "\<exists>d. memcpy w (da_data c) 0 (da_data a) 0 (da_size a * of_nat w) = Some d
    \<and> da_rep w (c\<lparr>da_data := d, da_size := da_size a\<rparr>) xs"
proof -
  have "unat (da_size a * of_nat w) div w = length xs"
    using da_rep_bytes [OF src, of "da_size a"] da_rep_le_cap [OF src] src
    by (simp add: da_rep_def)
  then show ?thesis
    using src dst cap da_rep_le_cap [OF src] by (simp add: memcpy_def da_rep_def)
qed

lemma da_rep_qsort:
  assumes rep: "da_rep w a xs"
  shows "\<exists>d. qsort (da_data a) (da_size a) cmp = Some d \<and> da_rep w (a\<lparr>da_data := d\<rparr>) (qs_list cmp xs)"
proof -
  obtain r where "da_data a = map Some xs @ r" "length xs + length r = unat (da_cap a)"
    using rep by (rule da_rep_splitE)
  then show ?thesis using rep by (simp add: qsort_def da_rep_def)
qed

section \<open>Linear search\<close>

text \<open>The loop returns the least index from \<open>i\<close> on, or the sentinel.\<close>

lemma scan_eq_found:
  assumes "\<forall>k < unat n. k < length b \<and> b ! k \<noteq> None" and "unat j < unat n"
    and "b ! unat j = Some t" and "\<forall>k. unat i \<le> k \<and> k < unat j \<longrightarrow> b ! k \<noteq> Some t"
    and "unat i \<le> unat j"
  shows "scan_eq b n t i = Some j"
  using assms
proof (induction b n t i rule: scan_eq.induct)
  case (1 b n t i)
  note prems = "1.prems"
  have "i < n" using prems(2,5) by (simp add: word_less_nat_alt)
  then have si: "unat (i + 1) = Suc (unat i)" by (rule unat_inc_less)
  have "unat i < unat n" using \<open>i < n\<close> by (simp add: word_less_nat_alt)
  then obtain x where x: "rd b i = Some x" "b ! unat i = Some x"
    using prems(1) by (auto simp: rd_def)
  show ?case
  proof (cases "i = j")
    case True
    then show ?thesis using x prems(3) \<open>i < n\<close> by (subst scan_eq.simps) simp
  next
    case False
    then have ij: "unat i < unat j" using prems(5) by (simp add: unat_eq_iff64)
    then have "x \<noteq> t" using prems(4) x(2) by auto
    then have "scan_eq b n t (i + 1) = Some j"
      using "1.IH" [OF \<open>i < n\<close>, of x] prems(1-4) ij x(1) by (simp add: si Suc_le_eq)
    then show ?thesis using x(1) \<open>x \<noteq> t\<close> \<open>i < n\<close> by (subst scan_eq.simps) simp
  qed
qed

lemma scan_eq_absent:
  assumes "\<forall>k < unat n. k < length b \<and> b ! k \<noteq> None \<and> b ! k \<noteq> Some t"
  shows "scan_eq b n t i = Some VCOL_NOT_FOUND"
  using assms
proof (induction b n t i rule: scan_eq.induct)
  case (1 b n t i)
  show ?case
  proof (cases "i < n")
    case True
    then obtain x where x: "rd b i = Some x" "x \<noteq> t"
      using "1.prems" by (fastforce simp: rd_def word_less_nat_alt)
    then have "scan_eq b n t (i + 1) = Some VCOL_NOT_FOUND"
      using "1.IH" [OF True, of x] "1.prems" by simp
    then show ?thesis using x True by (subst scan_eq.simps) simp
  next
    case False
    then show ?thesis by (subst scan_eq.simps) simp
  qed
qed

text \<open>The abstract search: the index of the first occurrence, or the sentinel.\<close>

fun index_of :: "'e \<Rightarrow> 'e list \<Rightarrow> nat option" where
  "index_of t [] = None"
| "index_of t (x # xs) = (if x = t then Some 0 else map_option Suc (index_of t xs))"

lemma index_of_None: "index_of t xs = None \<longleftrightarrow> t \<notin> set xs"
  by (induction xs) auto

lemma index_of_Some:
  "index_of t xs = Some j \<longleftrightarrow> j < length xs \<and> xs ! j = t \<and> (\<forall>k < j. xs ! k \<noteq> t)"
proof (induction xs arbitrary: j)
  case (Cons x xs)
  then show ?case by (cases j) (auto simp: less_Suc_eq_0_disj)
qed simp

definition found_at :: "nat option \<Rightarrow> u64" where
  "found_at r = (case r of None \<Rightarrow> VCOL_NOT_FOUND | Some j \<Rightarrow> of_nat j)"

lemma scan_eq_index_of:
  assumes "length xs \<le> length b" and "take (length xs) b = map Some xs"
    and "unat n = length xs"
  shows "scan_eq b n t 0 = Some (found_at (index_of t xs))"
proof -
  have nth: "b ! k = Some (xs ! k)" if "k < length xs" for k
    using that assms(2) by (metis nth_map nth_take)
  show ?thesis
  proof (cases "index_of t xs")
    case None
    then have "t \<notin> set xs" by (simp add: index_of_None)
    then show ?thesis
      using None assms nth by (auto simp: found_at_def intro!: scan_eq_absent)
  next
    case (Some j)
    then have j: "j < length xs" "xs ! j = t" "\<forall>k < j. xs ! k \<noteq> t"
      by (simp_all add: index_of_Some)
    have "j < 2 ^ 64" using j(1) assms(3) unat_lt64 [of n] by simp
    then have "unat (of_nat j :: u64) = j" by (rule unat_of_nat64)
    then show ?thesis
      using Some assms nth j by (auto simp: found_at_def intro!: scan_eq_found)
  qed
qed

lemma da_rep_scan [buf_simps]:
  assumes "da_rep w a xs"
  shows "scan_eq (da_data a) (da_size a) t 0 = Some (found_at (index_of t xs))"
  using assms da_rep_le_cap [OF assms]
  by (intro scan_eq_index_of) (simp_all add: da_rep_def)

section \<open>The interface the other components rely on\<close>

text \<open>
  The callers that build a result list (\<^verbatim>\<open>vcol_map_keys\<close>, \<^verbatim>\<open>vstr_split_offsets\<close>, \<dots>) create it with
  a capacity and push without looking at the result.  What they rely on: below the capacity a
  push appends and keeps the capacity, and a pop undoes the last push.
\<close>

primrec push_all ::
  "(store \<Rightarrow> u64 \<Rightarrow> u64 \<Rightarrow> (u64 \<times> store) option) \<Rightarrow> store \<Rightarrow> u64 \<Rightarrow> u64 list \<Rightarrow> store option" where
  "push_all push s h [] = Some s"
| "push_all push s h (v # vs) = do { (_, s) \<leftarrow> push s h v; push_all push s h vs }"

locale growable =
  fixes push :: "store \<Rightarrow> u64 \<Rightarrow> u64 \<Rightarrow> (u64 \<times> store) option"
    and pop :: "store \<Rightarrow> u64 \<Rightarrow> (u64 \<times> store) option"
    and has :: "store \<Rightarrow> u64 \<Rightarrow> nat \<Rightarrow> 'v list \<Rightarrow> bool"
    and enc :: "u64 \<Rightarrow> 'v" and dec :: "'v \<Rightarrow> u64"
  assumes push_below: "has s h c xs \<Longrightarrow> length xs < c \<Longrightarrow>
      \<exists>s'. push s h e = Some (of_nat (Suc (length xs)), s') \<and> has s' h c (xs @ [enc e])
        \<and> only_changes h s s'"
    and pop_last: "has s h c (xs @ [v]) \<Longrightarrow>
      \<exists>s'. pop s h = Some (dec v, s') \<and> has s' h c xs \<and> only_changes h s s'"
begin

lemma push_all_appends:
  assumes "has s h c xs" and "length xs + length vs \<le> c"
  shows "\<exists>s'. push_all push s h vs = Some s' \<and> has s' h c (xs @ map enc vs) \<and> only_changes h s s'"
  using assms
proof (induction vs arbitrary: s xs)
  case (Cons v vs)
  then obtain s1 where s1: "push s h v = Some (of_nat (Suc (length xs)), s1)"
      "has s1 h c (xs @ [enc v])" "only_changes h s s1"
    using push_below [of s h c xs v] by auto
  then obtain s2 where "push_all push s1 h vs = Some s2" "has s2 h c (xs @ enc v # map enc vs)"
      "only_changes h s1 s2"
    using Cons.IH [of s1 "xs @ [enc v]"] Cons.prems by auto
  then show ?case using s1 by (auto intro: only_changes_trans)
qed auto

lemma pop_push:
  assumes "has s h c xs" and "length xs < c"
  shows "\<exists>r s1 s2. push s h e = Some (r, s1) \<and> pop s1 h = Some (dec (enc e), s2)
    \<and> has s2 h c xs \<and> only_changes h s s2"
proof -
  obtain s1 where s1: "push s h e = Some (of_nat (Suc (length xs)), s1)"
      "has s1 h c (xs @ [enc e])" "only_changes h s s1"
    using push_below [OF assms] by blast
  then obtain s2 where "pop s1 h = Some (dec (enc e), s2)" "has s2 h c xs" "only_changes h s1 s2"
    using pop_last by blast
  then show ?thesis using s1 by (blast intro: only_changes_trans)
qed

end

end
