(* ===== verification/Vcol_List.thy ===== *)
theory Vcol_List
  imports Vcol_DArr
begin

text \<open>
  \<^verbatim>\<open>VestaList\<close> of \<^verbatim>\<open>vesta_collections.c\<close>: a growable array of 32-bit GC handles behind an opaque
  handle, one definition per exported function.  The lemmas show that every operation on a live
  handle refines the list operation its name announces, and returns (no undefined access).
\<close>

section \<open>The operations\<close>

definition VLIST_MIN_CAP :: u64 where
  "VLIST_MIN_CAP = 8"

definition vlist_grow :: "store \<Rightarrow> VestaList \<Rightarrow> bool \<times> VestaList \<times> store" where
  "vlist_grow s l =
     (let new_cap = da_cap l * 2; (a, s) = malloc s (new_cap * 4)
      in if a = 0 then (False, l, s)
         else (True, l\<lparr>da_data := realloc_buf 4 (da_data l) (new_cap * 4), da_cap := new_cap\<rparr>, s))"

definition vcol_list_new :: "store \<Rightarrow> u64 \<Rightarrow> u64 \<times> store" where
  "vcol_list_new s initial_capacity =
     (let cap = (if initial_capacity < VLIST_MIN_CAP then VLIST_MIN_CAP else initial_capacity);
          (l, s) = malloc s 24
      in if l = 0 then (VCOL_NULL, s)
         else let (d, s) = malloc s (cap * 4)
              in if d = 0 then (VCOL_NULL, s)
                 else (l, put OList s l
                            \<lparr>da_data = new_buf 4 (cap * 4), da_size = 0, da_cap = cap\<rparr>))"

definition vcol_list_free :: "store \<Rightarrow> u64 \<Rightarrow> store option" where
  "vcol_list_free s handle =
     (if handle = 0 then Some s
      else do { _ \<leftarrow> deref as_list s handle; free_obj s handle })"

definition vcol_list_push :: "store \<Rightarrow> u64 \<Rightarrow> u64 \<Rightarrow> (u64 \<times> store) option" where
  "vcol_list_push s handle element =
     (if handle = 0 then Some (VCOL_NOT_FOUND, s)
      else do {
        l \<leftarrow> deref as_list s handle;
        let (ok, l, s) = (if da_size l = da_cap l then vlist_grow s l else (True, l, s));
        if \<not> ok then Some (VCOL_NOT_FOUND, s)
        else do {
          d \<leftarrow> wr (da_data l) (da_size l) (ucast (element AND 0xFFFFFFFF));
          let l = l\<lparr>da_data := d, da_size := da_size l + 1\<rparr>;
          Some (da_size l, put OList s handle l)
        }
      })"

definition vcol_list_pop :: "store \<Rightarrow> u64 \<Rightarrow> (u64 \<times> store) option" where
  "vcol_list_pop s handle =
     (if handle = 0 then Some (VCOL_NOT_FOUND, s)
      else do {
        l \<leftarrow> deref as_list s handle;
        if da_size l = 0 then Some (VCOL_NOT_FOUND, s)
        else do {
          x \<leftarrow> rd (da_data l) (da_size l - 1);
          Some (ucast x, put OList s handle (l\<lparr>da_size := da_size l - 1\<rparr>))
        }
      })"

definition vcol_list_get :: "store \<Rightarrow> u64 \<Rightarrow> u64 \<Rightarrow> u64 option" where
  "vcol_list_get s handle index =
     (if handle = 0 then Some VCOL_NOT_FOUND
      else do {
        l \<leftarrow> deref as_list s handle;
        if index \<ge> da_size l then Some VCOL_NOT_FOUND
        else map_option ucast (rd (da_data l) index)
      })"

definition vcol_list_set :: "store \<Rightarrow> u64 \<Rightarrow> u64 \<Rightarrow> u64 \<Rightarrow> (u64 \<times> store) option" where
  "vcol_list_set s handle index element =
     (if handle = 0 then Some (VCOL_NOT_FOUND, s)
      else do {
        l \<leftarrow> deref as_list s handle;
        if index \<ge> da_size l then Some (VCOL_NOT_FOUND, s)
        else do {
          old \<leftarrow> rd (da_data l) index;
          d \<leftarrow> wr (da_data l) index (ucast (element AND 0xFFFFFFFF));
          Some (ucast old, put OList s handle (l\<lparr>da_data := d\<rparr>))
        }
      })"

definition vcol_list_size :: "store \<Rightarrow> u64 \<Rightarrow> u64 option" where
  "vcol_list_size s handle =
     (if handle = 0 then Some 0 else map_option da_size (deref as_list s handle))"

definition vcol_list_cap :: "store \<Rightarrow> u64 \<Rightarrow> u64 option" where
  "vcol_list_cap s handle =
     (if handle = 0 then Some 0 else map_option da_cap (deref as_list s handle))"

definition vcol_list_clear :: "store \<Rightarrow> u64 \<Rightarrow> store option" where
  "vcol_list_clear s handle =
     (if handle = 0 then Some s
      else do { l \<leftarrow> deref as_list s handle; Some (put OList s handle (l\<lparr>da_size := 0\<rparr>)) })"

definition vcol_list_remove_at :: "store \<Rightarrow> u64 \<Rightarrow> u64 \<Rightarrow> (u64 \<times> store) option" where
  "vcol_list_remove_at s handle index =
     (if handle = 0 then Some (VCOL_NOT_FOUND, s)
      else do {
        l \<leftarrow> deref as_list s handle;
        if index \<ge> da_size l then Some (VCOL_NOT_FOUND, s)
        else do {
          old \<leftarrow> rd (da_data l) index;
          d \<leftarrow> memmove 4 (da_data l) index (index + 1) ((da_size l - index - 1) * 4);
          Some (ucast old, put OList s handle (l\<lparr>da_data := d, da_size := da_size l - 1\<rparr>))
        }
      })"

definition vcol_list_insert :: "store \<Rightarrow> u64 \<Rightarrow> u64 \<Rightarrow> u64 \<Rightarrow> (u64 \<times> store) option" where
  "vcol_list_insert s handle index element =
     (if handle = 0 then Some (VCOL_NOT_FOUND, s)
      else do {
        l \<leftarrow> deref as_list s handle;
        let index = (if index > da_size l then da_size l else index);
        let (ok, l, s) = (if da_size l = da_cap l then vlist_grow s l else (True, l, s));
        if \<not> ok then Some (VCOL_NOT_FOUND, s)
        else do {
          d \<leftarrow> memmove 4 (da_data l) (index + 1) index ((da_size l - index) * 4);
          d \<leftarrow> wr d index (ucast (element AND 0xFFFFFFFF));
          let l = l\<lparr>da_data := d, da_size := da_size l + 1\<rparr>;
          Some (da_size l, put OList s handle l)
        }
      })"

definition vcol_list_indexof :: "store \<Rightarrow> u64 \<Rightarrow> u64 \<Rightarrow> u64 option" where
  "vcol_list_indexof s handle element =
     (if handle = 0 then Some VCOL_NOT_FOUND
      else do {
        l \<leftarrow> deref as_list s handle;
        scan_eq (da_data l) (da_size l) (ucast (element AND 0xFFFFFFFF)) 0
      })"

definition vcol_list_clone :: "store \<Rightarrow> u64 \<Rightarrow> (u64 \<times> store) option" where
  "vcol_list_clone s handle =
     (if handle = 0 then Some (VCOL_NULL, s)
      else do {
        src \<leftarrow> deref as_list s handle;
        let (h, s) = vcol_list_new s (da_cap src);
        if h = 0 then Some (VCOL_NULL, s)
        else do {
          dst \<leftarrow> deref as_list s h;
          d \<leftarrow> memcpy 4 (da_data dst) 0 (da_data src) 0 (da_size src * 4);
          Some (h, put OList s h (dst\<lparr>da_data := d, da_size := da_size src\<rparr>))
        }
      })"

section \<open>The abstraction\<close>

text \<open>The handle \<open>h\<close> is live and denotes the list \<open>xs\<close> of 32-bit elements.\<close>

definition list_has :: "store \<Rightarrow> u64 \<Rightarrow> u32 list \<Rightarrow> bool" where
  "list_has s h xs \<longleftrightarrow> h \<noteq> 0 \<and> (\<exists>l. deref as_list s h = Some l \<and> da_rep 4 l xs)"

definition low32 :: "u64 \<Rightarrow> u32" where
  "low32 x = ucast (x AND 0xFFFFFFFF)"

lemma list_hasI: "h \<noteq> 0 \<Longrightarrow> deref as_list s h = Some l \<Longrightarrow> da_rep 4 l xs \<Longrightarrow> list_has s h xs"
  by (auto simp: list_has_def)

lemma list_has_put [simp, intro]: "h \<noteq> 0 \<Longrightarrow> da_rep 4 l xs \<Longrightarrow> list_has (put OList s h l) h xs"
  by (auto simp: list_has_def)

lemma list_has_unique: "list_has s h xs \<Longrightarrow> list_has s h ys \<Longrightarrow> xs = ys"
  by (auto simp: list_has_def dest: da_rep_unique)

lemma list_has_other: "only_changes k s s' \<Longrightarrow> k \<noteq> h \<Longrightarrow> list_has s h xs \<Longrightarrow> list_has s' h xs"
  by (auto simp: list_has_def only_changes_other)

section \<open>The growth step\<close>

lemma vlist_grow_eq:
  "vlist_grow s l =
     (if fst (malloc s (da_cap l * 2 * 4)) = 0 then (False, l, after_malloc s)
      else (True, l\<lparr>da_data := realloc_buf 4 (da_data l) (da_cap l * 2 * 4),
                    da_cap := da_cap l * 2\<rparr>, after_malloc s))"
  by (subst vlist_grow_def, subst malloc_eq) simp

text \<open>What the guard \<^verbatim>\<open>if (size == cap && !vlist_grow(l))\<close> leaves behind when it lets the call on.\<close>

lemma vlist_guard:
  fixes s :: store
  assumes rep: "da_rep 4 l xs"
  defines "g \<equiv> (if da_size l = da_cap l then vlist_grow s l else (True, l, s))"
  shows "fst g = has_room s 4 l"
    and "has_room s 4 l \<Longrightarrow> \<exists>l' s'. g = (True, l', s') \<and> da_rep 4 l' xs
           \<and> length xs < unat (da_cap l') \<and> da_size l' = da_size l \<and> only_changes h s s'"
    and "\<not> has_room s 4 l \<Longrightarrow> g = (False, l, after_malloc s)"
proof -
  show "fst g = has_room s 4 l" by (auto simp: g_def has_room_def vlist_grow_eq)
  show "\<not> has_room s 4 l \<Longrightarrow> g = (False, l, after_malloc s)"
    by (simp add: g_def has_room_def vlist_grow_eq)
  show "\<exists>l' s'. g = (True, l', s') \<and> da_rep 4 l' xs
      \<and> length xs < unat (da_cap l') \<and> da_size l' = da_size l \<and> only_changes h s s'"
    if "has_room s 4 l"
  proof (cases "da_size l = da_cap l")
    case True
    then show ?thesis
      using that rep da_rep_grow [OF rep, of s] da_rep_full [OF rep]
      by (auto simp: g_def has_room_def vlist_grow_eq da_rep_def)
  next
    case False
    then show ?thesis
      using rep da_rep_full [OF rep] da_rep_le_cap [OF rep] by (auto simp: g_def)
  qed
qed

section \<open>Every operation refines its list operation\<close>

lemma list_push_ok:
  assumes h: "h \<noteq> 0" and l: "deref as_list s h = Some l" and rep: "da_rep 4 l xs"
    and room: "has_room s 4 l"
  shows "\<exists>s'. vcol_list_push s h e = Some (of_nat (Suc (length xs)), s')
    \<and> list_has s' h (xs @ [low32 e]) \<and> only_changes h s s'"
proof -
  obtain l' s' where g: "(if da_size l = da_cap l then vlist_grow s l else (True, l, s)) = (True, l', s')"
      "da_rep 4 l' xs" "length xs < unat (da_cap l')" "only_changes h s s'"
    using vlist_guard(2) [OF rep room] by blast
  obtain d where "wr (da_data l') (da_size l') (low32 e) = Some d"
      "da_rep 4 (l'\<lparr>da_data := d, da_size := da_size l' + 1\<rparr>) (xs @ [low32 e])"
    using da_rep_push [OF g(2,3)] by blast
  then show ?thesis
    using h l g da_rep_size by (fastforce simp: vcol_list_push_def low32_def)
qed

lemma list_push_full:
  assumes "h \<noteq> 0" and "deref as_list s h = Some l" and rep: "da_rep 4 l xs" and "\<not> has_room s 4 l"
  shows "vcol_list_push s h e = Some (VCOL_NOT_FOUND, after_malloc s)"
  using assms vlist_guard(3) [OF rep] by (simp add: vcol_list_push_def)

lemma list_pop_ok:
  assumes "list_has s h (xs @ [v])"
  shows "\<exists>s'. vcol_list_pop s h = Some (ucast v, s') \<and> list_has s' h xs \<and> only_changes h s s'"
proof -
  obtain l where l: "h \<noteq> 0" "deref as_list s h = Some l" "da_rep 4 l (xs @ [v])"
    using assms by (auto simp: list_has_def)
  then show ?thesis
    using da_rep_pop [OF l(3)] da_rep_empty [OF l(3)] by (auto simp: vcol_list_pop_def)
qed

lemma list_pop_empty: "list_has s h [] \<Longrightarrow> vcol_list_pop s h = Some (VCOL_NOT_FOUND, s)"
  by (auto simp: list_has_def vcol_list_pop_def da_rep_empty)

lemma list_get_eq:
  assumes "list_has s h xs"
  shows "vcol_list_get s h i = Some (if unat i < length xs then ucast (xs ! unat i) else VCOL_NOT_FOUND)"
  using assms by (auto simp: list_has_def vcol_list_get_def da_rep_index da_rep_rd)

lemma list_set_ok:
  assumes "list_has s h xs" and "unat i < length xs"
  shows "\<exists>s'. vcol_list_set s h i e = Some (ucast (xs ! unat i), s')
    \<and> list_has s' h (xs[unat i := low32 e]) \<and> only_changes h s s'"
proof -
  obtain l where l: "h \<noteq> 0" "deref as_list s h = Some l" "da_rep 4 l xs"
    using assms by (auto simp: list_has_def)
  then show ?thesis
    using assms(2) da_rep_set [OF l(3) assms(2), of "low32 e"]
    by (auto simp: vcol_list_set_def da_rep_index da_rep_rd low32_def)
qed

lemma list_set_out:
  "list_has s h xs \<Longrightarrow> length xs \<le> unat i \<Longrightarrow> vcol_list_set s h i e = Some (VCOL_NOT_FOUND, s)"
  by (auto simp: list_has_def vcol_list_set_def da_rep_index)

lemma list_size_eq: "list_has s h xs \<Longrightarrow> vcol_list_size s h = Some (of_nat (length xs))"
  by (auto simp: list_has_def vcol_list_size_def da_rep_size)

lemma list_clear_ok:
  "list_has s h xs \<Longrightarrow> \<exists>s'. vcol_list_clear s h = Some s' \<and> list_has s' h [] \<and> only_changes h s s'"
  by (auto simp: list_has_def vcol_list_clear_def intro!: da_rep_clear)

lemma list_remove_ok:
  assumes "list_has s h xs" and "unat i < length xs"
  shows "\<exists>s'. vcol_list_remove_at s h i = Some (ucast (xs ! unat i), s')
    \<and> list_has s' h (take (unat i) xs @ drop (Suc (unat i)) xs) \<and> only_changes h s s'"
proof -
  obtain l where l: "h \<noteq> 0" "deref as_list s h = Some l" "da_rep 4 l xs"
    using assms by (auto simp: list_has_def)
  then show ?thesis
    using assms(2) da_rep_remove [OF l(3) assms(2)]
    by (auto simp: vcol_list_remove_at_def da_rep_index da_rep_rd)
qed

lemma list_remove_out:
  "list_has s h xs \<Longrightarrow> length xs \<le> unat i \<Longrightarrow> vcol_list_remove_at s h i = Some (VCOL_NOT_FOUND, s)"
  by (auto simp: list_has_def vcol_list_remove_at_def da_rep_index)

lemma list_insert_ok:
  fixes idx :: u64
  assumes h: "h \<noteq> 0" and l: "deref as_list s h = Some l" and rep: "da_rep 4 l xs"
    and room: "has_room s 4 l"
  defines "i \<equiv> min (unat idx) (length xs)"
  shows "\<exists>s'. vcol_list_insert s h idx e = Some (of_nat (Suc (length xs)), s')
    \<and> list_has s' h (take i xs @ low32 e # drop i xs) \<and> only_changes h s s'"
proof -
  obtain l' s' where g: "(if da_size l = da_cap l then vlist_grow s l else (True, l, s)) = (True, l', s')"
      "da_rep 4 l' xs" "length xs < unat (da_cap l')" "only_changes h s s'" "da_size l' = da_size l"
    using vlist_guard(2) [OF rep room] by blast
  let ?idx = "if idx > da_size l then da_size l else idx"
  have i: "unat ?idx = i"
    using rep by (auto simp: i_def word_less_nat_alt da_rep_def)
  then have "unat ?idx \<le> length xs" by (simp add: i_def)
  from da_rep_insert [OF g(2) this g(3), of "low32 e"] obtain d d' where
      "memmove 4 (da_data l') (?idx + 1) ?idx ((da_size l' - ?idx) * 4) = Some d"
      "wr d ?idx (low32 e) = Some d'"
      "da_rep 4 (l'\<lparr>da_data := d', da_size := da_size l' + 1\<rparr>) (take i xs @ low32 e # drop i xs)"
    by (auto simp: i)
  then show ?thesis
    using h l g da_rep_size [of 4 l' xs]
    by (auto simp: vcol_list_insert_def low32_def Let_def)
qed

lemma list_insert_full:
  assumes "h \<noteq> 0" and "deref as_list s h = Some l" and rep: "da_rep 4 l xs" and "\<not> has_room s 4 l"
  shows "vcol_list_insert s h idx e = Some (VCOL_NOT_FOUND, after_malloc s)"
  using assms vlist_guard(3) [OF rep] by (simp add: vcol_list_insert_def)

lemma list_indexof_eq:
  "list_has s h xs \<Longrightarrow> vcol_list_indexof s h e = Some (found_at (index_of (low32 e) xs))"
  by (auto simp: list_has_def vcol_list_indexof_def low32_def da_rep_scan)

lemma list_free_ok:
  "list_has s h xs \<Longrightarrow> vcol_list_free s h = Some (s\<lparr>objs := (objs s)(h := None)\<rparr>)"
  by (auto simp: list_has_def vcol_list_free_def free_obj_def dest: list_kind.deref_SomeD)

section \<open>Creation and cloning\<close>

lemma list_new_eq:
  "vcol_list_new s c =
     (let cap = (if c < VLIST_MIN_CAP then VLIST_MIN_CAP else c); l = fst (malloc s 24);
          s1 = after_malloc s; s2 = after_malloc s1
      in if l = 0 then (VCOL_NULL, s1)
         else if fst (malloc s1 (cap * 4)) = 0 then (VCOL_NULL, s2)
         else (l, put OList s2 l \<lparr>da_data = new_buf 4 (cap * 4), da_size = 0, da_cap = cap\<rparr>))"
  by (simp add: vcol_list_new_def case_prod_beta Let_def)

lemma list_new_cases:
  assumes c: "unat c < 2 ^ 62" and new: "vcol_list_new s c = (h, s')"
  shows "h = VCOL_NULL \<and> objs s' = objs s \<or>
    h \<noteq> 0 \<and> objs s h = None \<and> list_has s' h []
      \<and> vcol_list_cap s' h = Some (if c < VLIST_MIN_CAP then VLIST_MIN_CAP else c)"
    and "only_changes h s s'"
proof -
  define cap where "cap = (if c < VLIST_MIN_CAP then VLIST_MIN_CAP else c)"
  have cap: "unat cap < 2 ^ 62" "0 < unat cap"
    using c by (auto simp: cap_def VLIST_MIN_CAP_def word_less_nat_alt)
  have rep: "da_rep 4 \<lparr>da_data = new_buf 4 (cap * 4), da_size = 0, da_cap = cap\<rparr> []"
    if "fst (malloc s0 (cap * 4)) \<noteq> 0" for s0
  proof -
    have "unat (cap * 4) = unat cap * 4" using cap by (subst unat_mult_small) simp_all
    then show ?thesis
      using malloc_bound [OF that] cap da_rep_new [of cap 4] by simp
  qed
  show "h = VCOL_NULL \<and> objs s' = objs s \<or>
    h \<noteq> 0 \<and> objs s h = None \<and> list_has s' h []
      \<and> vcol_list_cap s' h = Some (if c < VLIST_MIN_CAP then VLIST_MIN_CAP else c)"
    using new rep malloc_fresh [of s 24]
    by (auto simp: list_new_eq Let_def cap_def [symmetric] vcol_list_cap_def VCOL_NULL_def
        split: if_splits)
  show "only_changes h s s'"
    using new by (auto simp: list_new_eq Let_def only_changes_def split: if_splits)
qed

lemma list_clone_cases:
  assumes has: "list_has s h xs"
  shows "\<exists>k s'. vcol_list_clone s h = Some (k, s') \<and> only_changes k s s'
    \<and> (k = VCOL_NULL \<and> objs s' = objs s
       \<or> k \<noteq> 0 \<and> k \<noteq> h \<and> list_has s' k xs \<and> list_has s' h xs)"
proof -
  obtain l where l: "h \<noteq> 0" "deref as_list s h = Some l" "da_rep 4 l xs"
    using has by (auto simp: list_has_def)
  obtain k s1 where new: "vcol_list_new s (da_cap l) = (k, s1)" by fastforce
  have c: "unat (da_cap l) < 2 ^ 62" using l(3) by (simp add: da_rep_def)
  note cs = list_new_cases [OF c new]
  show ?thesis
  proof (cases "k = 0")
    case True
    then show ?thesis
      using cs l new by (auto simp: vcol_list_clone_def VCOL_NULL_def)
  next
    case False
    then have k: "objs s k = None" "list_has s1 k []"
        "vcol_list_cap s1 k = Some (if da_cap l < VLIST_MIN_CAP then VLIST_MIN_CAP else da_cap l)"
      using cs(1) by (auto simp: VCOL_NULL_def)
    then obtain c where c: "deref as_list s1 k = Some c" "da_rep 4 c []"
        "da_cap c = (if da_cap l < VLIST_MIN_CAP then VLIST_MIN_CAP else da_cap l)"
      using False by (auto simp: list_has_def vcol_list_cap_def)
    then have le: "unat (da_cap l) \<le> unat (da_cap c)" by (auto simp: word_less_nat_alt)
    obtain d where "memcpy 4 (da_data c) 0 (da_data l) 0 (da_size l * 4) = Some d"
        "da_rep 4 (c\<lparr>da_data := d, da_size := da_size l\<rparr>) xs"
      using da_rep_copy [OF l(3) c(2) le] by auto
    moreover have "k \<noteq> h" using k(1) l(2) by (auto simp: deref_def)
    ultimately show ?thesis
      using l c(1) new False cs(2) has list_has_other [OF cs(2)]
      by (auto simp: vcol_list_clone_def list_has_def)
  qed
qed

section \<open>The component as a whole\<close>

text \<open>A call on one handle, and the list operation it stands for.\<close>

datatype list_cmd =
    LPush u64 | LPop | LGet u64 | LSet u64 u64 | LSize | LClear
  | LRemoveAt u64 | LInsert u64 u64 | LIndexOf u64

fun list_exec :: "store \<Rightarrow> u64 \<Rightarrow> list_cmd \<Rightarrow> (u64 \<times> store) option" where
  "list_exec s h (LPush e) = vcol_list_push s h e"
| "list_exec s h LPop = vcol_list_pop s h"
| "list_exec s h (LGet i) = map_option (\<lambda>r. (r, s)) (vcol_list_get s h i)"
| "list_exec s h (LSet i e) = vcol_list_set s h i e"
| "list_exec s h LSize = map_option (\<lambda>r. (r, s)) (vcol_list_size s h)"
| "list_exec s h LClear = map_option (\<lambda>s. (0, s)) (vcol_list_clear s h)"
| "list_exec s h (LRemoveAt i) = vcol_list_remove_at s h i"
| "list_exec s h (LInsert i e) = vcol_list_insert s h i e"
| "list_exec s h (LIndexOf e) = map_option (\<lambda>r. (r, s)) (vcol_list_indexof s h e)"

fun list_spec :: "u32 list \<Rightarrow> list_cmd \<Rightarrow> u64 \<times> u32 list" where
  "list_spec xs (LPush e) = (of_nat (Suc (length xs)), xs @ [low32 e])"
| "list_spec xs LPop = (if xs = [] then (VCOL_NOT_FOUND, []) else (ucast (last xs), butlast xs))"
| "list_spec xs (LGet i) = (if unat i < length xs then ucast (xs ! unat i) else VCOL_NOT_FOUND, xs)"
| "list_spec xs (LSet i e) =
     (if unat i < length xs then (ucast (xs ! unat i), xs[unat i := low32 e])
      else (VCOL_NOT_FOUND, xs))"
| "list_spec xs LSize = (of_nat (length xs), xs)"
| "list_spec xs LClear = (0, [])"
| "list_spec xs (LRemoveAt i) =
     (if unat i < length xs then (ucast (xs ! unat i), take (unat i) xs @ drop (Suc (unat i)) xs)
      else (VCOL_NOT_FOUND, xs))"
| "list_spec xs (LInsert i e) =
     (let j = min (unat i) (length xs)
      in (of_nat (Suc (length xs)), take j xs @ low32 e # drop j xs))"
| "list_spec xs (LIndexOf e) = (found_at (index_of (low32 e) xs), xs)"

fun list_grows :: "list_cmd \<Rightarrow> bool" where
  "list_grows (LPush e) = True"
| "list_grows (LInsert i e) = True"
| "list_grows _ = False"

text \<open>The only way a call departs from the list operation: no room and the allocator refuses.\<close>

definition list_refused :: "store \<Rightarrow> u64 \<Rightarrow> list_cmd \<Rightarrow> bool" where
  "list_refused s h c \<longleftrightarrow>
     list_grows c \<and> (\<exists>l. deref as_list s h = Some l \<and> \<not> has_room s 4 l)"

lemma list_exec_ok:
  assumes has: "list_has s h xs" and ok: "\<not> list_refused s h c"
  shows "\<exists>s'. list_exec s h c = Some (fst (list_spec xs c), s')
    \<and> list_has s' h (snd (list_spec xs c)) \<and> only_changes h s s'"
proof -
  obtain l where l: "h \<noteq> 0" "deref as_list s h = Some l" "da_rep 4 l xs"
    using has by (auto simp: list_has_def)
  have room: "has_room s 4 l" if "list_grows c" using ok l that by (auto simp: list_refused_def)
  show ?thesis
  proof (cases c)
    case (LPush e)
    then show ?thesis using list_push_ok [OF l] room by simp
  next
    case LPop
    then show ?thesis
      using has list_pop_empty [of s h] list_pop_ok [of s h "butlast xs" "last xs"] by auto
  next
    case (LInsert i e)
    then show ?thesis using list_insert_ok [OF l] room by (simp add: Let_def)
  next
    case (LSet i e)
    then show ?thesis
      using has list_set_ok [OF has, of i e] list_set_out [OF has, of i e] by (auto simp: not_less)
  next
    case (LRemoveAt i)
    then show ?thesis
      using has list_remove_ok [OF has, of i] list_remove_out [OF has, of i] by (auto simp: not_less)
  next
    case LClear
    then show ?thesis using list_clear_ok [OF has] by auto
  qed (use has in \<open>simp_all add: list_get_eq list_size_eq list_indexof_eq\<close>)
qed

lemma list_exec_refused:
  assumes has: "list_has s h xs" and no: "list_refused s h c"
  shows "list_exec s h c = Some (VCOL_NOT_FOUND, after_malloc s)"
  using assms by (cases c) (auto simp: list_refused_def list_has_def list_push_full list_insert_full)

interpretation list_api: collection_api list_exec list_spec list_has list_grows list_refused
proof unfold_locales
  show "list_has s h xs \<Longrightarrow> \<not> list_refused s h c \<Longrightarrow>
      \<exists>s'. list_exec s h c = Some (fst (list_spec xs c), s')
        \<and> list_has s' h (snd (list_spec xs c)) \<and> only_changes h s s'" for s h xs c
    by (rule list_exec_ok)
  show "list_has s h xs \<Longrightarrow> list_refused s h c \<Longrightarrow> list_grows c \<and>
      (\<exists>s'. list_exec s h c = Some (VCOL_NOT_FOUND, s') \<and> list_has s' h xs \<and> only_changes h s s')"
    for s h xs c
    using list_exec_refused by (auto simp: list_refused_def list_has_def)
qed

section \<open>The interface for result lists\<close>

definition list_cap_has :: "store \<Rightarrow> u64 \<Rightarrow> nat \<Rightarrow> u32 list \<Rightarrow> bool" where
  "list_cap_has s h c xs \<longleftrightarrow>
     h \<noteq> 0 \<and> (\<exists>l. deref as_list s h = Some l \<and> da_rep 4 l xs \<and> unat (da_cap l) = c)"

lemma list_cap_hasD: "list_cap_has s h c xs \<Longrightarrow> list_has s h xs"
  by (auto simp: list_cap_has_def list_has_def)

lemma list_push_below:
  assumes "list_cap_has s h c xs" and "length xs < c"
  shows "\<exists>s'. vcol_list_push s h e = Some (of_nat (Suc (length xs)), s')
    \<and> list_cap_has s' h c (xs @ [low32 e]) \<and> only_changes h s s'"
proof -
  obtain l where l: "h \<noteq> 0" "deref as_list s h = Some l" "da_rep 4 l xs" "unat (da_cap l) = c"
    using assms(1) by (auto simp: list_cap_has_def)
  obtain d where d: "wr (da_data l) (da_size l) (low32 e) = Some d"
      "da_rep 4 (l\<lparr>da_data := d, da_size := da_size l + 1\<rparr>) (xs @ [low32 e])"
    using da_rep_push [OF l(3)] assms(2) l(4) by blast
  have "da_size l \<noteq> da_cap l" using l assms(2) da_rep_full [OF l(3)] by simp
  then show ?thesis
    using l d da_rep_size [OF l(3)]
    by (auto simp: vcol_list_push_def list_cap_has_def low32_def)
qed

interpretation list_growable: growable vcol_list_push vcol_list_pop list_cap_has low32 ucast
proof unfold_locales
  show "list_cap_has s h c xs \<Longrightarrow> length xs < c \<Longrightarrow>
      \<exists>s'. vcol_list_push s h e = Some (of_nat (Suc (length xs)), s')
        \<and> list_cap_has s' h c (xs @ [low32 e]) \<and> only_changes h s s'" for s h c xs e
    using list_push_below by blast
  fix s h c and xs :: "u32 list" and v
  assume has: "list_cap_has s h c (xs @ [v])"
  then obtain l where l: "h \<noteq> 0" "deref as_list s h = Some l" "da_rep 4 l (xs @ [v])" "unat (da_cap l) = c"
    by (auto simp: list_cap_has_def)
  then show "\<exists>s'. vcol_list_pop s h = Some (ucast v, s') \<and> list_cap_has s' h c xs \<and> only_changes h s s'"
    using da_rep_pop [OF l(3)] da_rep_empty [OF l(3)] by (auto simp: vcol_list_pop_def list_cap_has_def)
qed

lemma list_free_cases:
  assumes "list_has s h xs"
  shows "\<exists>s'. vcol_list_free s h = Some s' \<and> only_changes h s s' \<and> objs s' h = None
    \<and> vcol_list_free s' h = None"
  using assms list_kind.deref_SomeD [of s h]
  by (auto simp: list_has_def vcol_list_free_def free_obj_def deref_def only_changes_def)

section \<open>Properties\<close>

text \<open>An example: a list of two elements on the concrete host.\<close>

definition list_demo :: store where
  "list_demo = put OList demo_store 4096
     \<lparr>da_data = [Some 7, Some 9, None, None, None, None, None, None], da_size = 2, da_cap = 8\<rparr>"

lemma list_demo_deref: "deref as_list list_demo 4096 =
    Some \<lparr>da_data = [Some 7, Some 9, None, None, None, None, None, None], da_size = 2, da_cap = 8\<rparr>"
  by (simp add: list_demo_def)

lemma list_demo_has: "list_has list_demo 4096 [7, 9]"
  by (auto simp: list_has_def list_demo_deref da_rep_def)

lemma list_demo_room: "\<not> list_refused list_demo 4096 c"
  by (simp add: list_refused_def list_demo_deref has_room_def)

text \<open>Every call on a live list handle returns, changes no other object, and does exactly what the
  list operation does, with its result; the one exception is a call that must grow the buffer when the
  allocator refuses, which reports \<^verbatim>\<open>VCOL_NOT_FOUND\<close> and leaves the list as it was.\<close>

theorem list_call_refines:
  assumes "list_has s h xs"
  shows "\<exists>s'. only_changes h s s' \<and>
    (if list_refused s h c
     then list_exec s h c = Some (VCOL_NOT_FOUND, s') \<and> list_has s' h xs
     else list_exec s h c = Some (fst (list_spec xs c), s') \<and> list_has s' h (snd (list_spec xs c)))"
  using list_api.call_ok [OF assms] list_api.call_refused [OF assms] by (cases "list_refused s h c") auto

theorem list_call_refines_witness:
  "\<exists>s'. list_exec list_demo 4096 (LInsert 1 5) = Some (3, s') \<and> list_has s' 4096 [7, 5, 9]"
  using list_call_refines [OF list_demo_has, of "LInsert 1 5"] list_demo_room [of "LInsert 1 5"]
  by (auto simp: low32_def)

text \<open>A whole sequence of calls on a live handle returns, with the results and the final contents of a
  run of the list operations in which only growing calls may have been refused.\<close>

theorem list_run_refines:
  assumes "list_has s h xs"
  shows "\<exists>rs s' xs'. run_calls list_exec s h cs = Some (rs, s') \<and> list_has s' h xs'
    \<and> spec_run list_spec list_grows xs cs rs xs' \<and> only_changes h s s'"
  using assms by (rule list_api.run_refines)

theorem list_run_refines_witness:
  "\<exists>s'. run_calls list_exec list_demo 4096 [LPop, LRemoveAt 0, LSize] = Some ([9, 7, 0], s') \<and> list_has s' 4096 []"
  using list_run_refines [OF list_demo_has, of "[LPop, LRemoveAt 0, LSize]"]
  by (auto elim!: spec_run_ConsE spec_run_NilE)

text \<open>Creating a list whose byte count fits 64 bits either fails with the null handle, changing no
  object, or returns a fresh handle that denotes the empty list with the requested capacity
  (at least the minimum one).\<close>

theorem list_new_fresh:
  assumes "unat c < 2 ^ 62"
  shows "\<exists>h s'. vcol_list_new s c = (h, s') \<and> only_changes h s s'
    \<and> (h = VCOL_NULL \<and> objs s' = objs s
       \<or> h \<noteq> 0 \<and> objs s h = None \<and> list_has s' h [] \<and> vcol_list_cap s' h = Some (max VLIST_MIN_CAP c))"
proof -
  obtain h s' where new: "vcol_list_new s c = (h, s')" by fastforce
  have "(if c < VLIST_MIN_CAP then VLIST_MIN_CAP else c) = max VLIST_MIN_CAP c"
    by (auto simp: max_def)
  then show ?thesis using new list_new_cases [OF assms new] by auto
qed

theorem list_new_fresh_witness:
  "\<exists>h s'. vcol_list_new demo_store 100 = (h, s') \<and> h \<noteq> 0 \<and> list_has s' h [] \<and> vcol_list_cap s' h = Some 100"
proof -
  have "fst (vcol_list_new demo_store 100) \<noteq> VCOL_NULL" and cap: "max VLIST_MIN_CAP 100 = 100"
    by (simp_all add: vcol_list_new_def malloc_def PTRDIFF_MAX_def VLIST_MIN_CAP_def VCOL_NULL_def max_def)
  then show ?thesis using list_new_fresh [of 100 demo_store] by (auto simp: cap)
qed

text \<open>Cloning a live list either fails with the null handle or returns a second handle, distinct from the
  first, with the same elements; freeing it makes the handle dead and touches nothing else, and a second
  free has no defined result.\<close>

theorem list_clone_free:
  assumes "list_has s h xs"
  shows "(\<exists>k s'. vcol_list_clone s h = Some (k, s') \<and> only_changes k s s'
      \<and> (k = VCOL_NULL \<and> objs s' = objs s \<or> k \<noteq> 0 \<and> k \<noteq> h \<and> list_has s' k xs \<and> list_has s' h xs))
    \<and> (\<exists>s'. vcol_list_free s h = Some s' \<and> only_changes h s s' \<and> objs s' h = None
      \<and> vcol_list_free s' h = None)"
  using list_clone_cases [OF assms] list_free_cases [OF assms] by blast

theorem list_clone_free_witness:
  "(\<exists>k s'. vcol_list_clone list_demo 4096 = Some (k, s') \<and> (k = VCOL_NULL \<or> list_has s' k [7, 9]))
   \<and> (\<exists>s'. vcol_list_free list_demo 4096 = Some s' \<and> vcol_list_free s' 4096 = None)"
  using list_clone_free [OF list_demo_has] by blast

text \<open>A capacity whose byte count overflows is not rejected: \<^verbatim>\<open>vcol_list_new\<close> of \<open>2 ^ 62\<close> asks the allocator
  for zero bytes, and when it obtains the block the first push writes outside it.\<close>

theorem list_new_overflow:
  assumes "vcol_list_new s (2 ^ 62) = (h, s')" and "h \<noteq> 0"
  shows "vcol_list_cap s' h = Some (2 ^ 62) \<and> vcol_list_push s' h e = None"
  using assms
  by (auto simp: vcol_list_new_def Let_def VLIST_MIN_CAP_def VCOL_NULL_def vcol_list_push_def vcol_list_cap_def
      wr_def new_buf_def split: if_splits prod.splits)

theorem list_new_overflow_witness:
  "\<exists>h s'. vcol_list_new demo_store (2 ^ 62) = (h, s') \<and> h \<noteq> 0 \<and> vcol_list_push s' h 1 = None"
proof -
  obtain h s' where new: "vcol_list_new demo_store (2 ^ 62) = (h, s')" by fastforce
  moreover have "fst (vcol_list_new demo_store (2 ^ 62)) \<noteq> 0"
    by (simp add: vcol_list_new_def malloc_def PTRDIFF_MAX_def VLIST_MIN_CAP_def VCOL_NULL_def)
  ultimately show ?thesis using list_new_overflow [OF new] by auto
qed

end
