(* ===== verification/Vcol_Bits.thy ===== *)
theory Vcol_Bits
  imports CPrelude
begin

text \<open>
  Powers of two and bit masks: \<^verbatim>\<open>next_pow2\<close> of \<^verbatim>\<open>vesta_collections.c\<close>, and the wrap-around
  \<^verbatim>\<open>x & (cap - 1)\<close> of the ring buffers and the hash map read as a remainder.
\<close>

definition next_pow2 :: "u64 \<Rightarrow> u64" where
  "next_pow2 n =
     (if n \<le> 1 then 1
      else let n = n - 1;
               n = n OR drop_bit 1 n;
               n = n OR drop_bit 2 n;
               n = n OR drop_bit 4 n;
               n = n OR drop_bit 8 n;
               n = n OR drop_bit 16 n;
               n = n OR drop_bit 32 n
           in n + 1)"

section \<open>Masks\<close>

text \<open>A capacity that is a power of two.\<close>

definition pow2 :: "u64 \<Rightarrow> bool" where
  "pow2 c \<longleftrightarrow> (\<exists>k < 64. unat c = 2 ^ k)"

lemma pow2_pos: "pow2 c \<Longrightarrow> 0 < unat c"
  by (auto simp: pow2_def)

lemma pow2_mask: "pow2 c \<Longrightarrow> \<exists>k < 64. unat c = 2 ^ k \<and> c - 1 = mask k"
proof -
  assume "pow2 c"
  then obtain k where k: "k < 64" "unat c = 2 ^ k" by (auto simp: pow2_def)
  have "c = of_nat (unat c)" by simp
  also have "\<dots> = 2 ^ k" by (subst k(2)) simp
  finally have "c = 2 ^ k" .
  then show ?thesis using k by (auto simp: mask_eq_exp_minus_1)
qed

lemma unat_and_mask [word_nat]: "pow2 c \<Longrightarrow> unat (x AND (c - 1)) = unat x mod unat c"
proof -
  assume "pow2 c"
  then obtain k where k: "k < 64" "unat c = 2 ^ k" "c - 1 = mask k" using pow2_mask by blast
  have "unat (x AND mask k) = take_bit k (unat x)"
    by (simp add: take_bit_eq_mask [symmetric] unsigned_take_bit_eq)
  then show ?thesis using k by (simp add: take_bit_eq_mod)
qed

text \<open>Wrap-around at the width of the word does not disturb a remainder by a power of two.\<close>

lemma pow2_dvd: "pow2 c \<Longrightarrow> unat c dvd 2 ^ 64"
  unfolding pow2_def by (metis le_imp_power_dvd less_imp_le_nat)

lemma unat_add_mod [word_nat]: "pow2 c \<Longrightarrow> unat (x + y :: u64) mod unat c = (unat x + unat y) mod unat c"
  using pow2_dvd [of c] by (simp add: unat_word_ariths mod_mod_cancel)

lemma unat_dec_mod [word_nat]:
  assumes "pow2 c"
  shows "unat (x - 1 :: u64) mod unat c = (unat x + (unat c - 1)) mod unat c"
proof (cases "x = 0")
  case True
  have "2 ^ 64 - 1 = (2 ^ 64 div unat c - 1) * unat c + (unat c - 1)"
    using pow2_dvd [OF assms] pow2_pos [OF assms] less_imp_le [OF unat_lt64 [of c]]
    by (auto elim!: dvdE simp: diff_mult_distrib le_add_diff_inverse2)
  then have "((2 :: nat) ^ 64 - 1) mod unat c = (unat c - 1) mod unat c"
    by (metis mod_mult_self3)
  moreover have "unat (- 1 :: u64) = 2 ^ 64 - 1"
    by (simp add: unsigned_minus_1_eq_mask mask_eq_exp_minus_1)
  ultimately show ?thesis using True by simp
next
  case False
  then have "unat (x - 1) = unat x - 1" and "0 < unat x"
    by (simp_all add: unat_minus_one unat_gt_0)
  then show ?thesis
    using pow2_pos [OF assms] by (metis (no_types, lifting) Nat.add_diff_assoc Nat.add_diff_assoc2 One_nat_def Suc_leI mod_add_self2)
qed

section \<open>The smearing loop of next\_pow2\<close>

text \<open>
  Each step ORs in a copy shifted by the number of bits already smeared, so a bit of the result
  is set when one of the next \<open>m\<close> higher bits of the argument is.
\<close>

definition smeared :: "nat \<Rightarrow> u64 \<Rightarrow> u64 \<Rightarrow> bool" where
  "smeared m x y \<longleftrightarrow> (\<forall>i. bit y i \<longleftrightarrow> (\<exists>j. i \<le> j \<and> j < i + m \<and> bit x j))"

lemma smeared_0: "smeared 1 x x"
  by (auto simp: smeared_def less_Suc_eq_le)

lemma ex_interval_split:
  "(\<exists>j. i \<le> j \<and> j < i + (m + m) \<and> P j) \<longleftrightarrow>
   (\<exists>j. i \<le> j \<and> j < i + m \<and> P j) \<or> (\<exists>j. m + i \<le> j \<and> j < m + i + m \<and> P j)" for i m :: nat
proof
  assume "\<exists>j. i \<le> j \<and> j < i + (m + m) \<and> P j"
  then obtain j where "i \<le> j" "j < i + (m + m)" "P j" by blast
  then show "(\<exists>j. i \<le> j \<and> j < i + m \<and> P j) \<or> (\<exists>j. m + i \<le> j \<and> j < m + i + m \<and> P j)"
    by (cases "j < i + m") (fastforce intro: exI [of _ j])+
next
  assume "(\<exists>j. i \<le> j \<and> j < i + m \<and> P j) \<or> (\<exists>j. m + i \<le> j \<and> j < m + i + m \<and> P j)"
  then obtain j where "P j" "i \<le> j" "j < i + (m + m)" by fastforce
  then show "\<exists>j. i \<le> j \<and> j < i + (m + m) \<and> P j" by blast
qed

lemma smeared_step: "smeared m x y \<Longrightarrow> smeared (m + m) x (y OR drop_bit m y)"
  by (simp add: smeared_def bit_or_iff bit_drop_bit_eq ex_interval_split)

text \<open>Smeared over the whole width, a nonzero word is the mask of its bit length.\<close>

lemma smeared_mask:
  assumes "smeared 64 x y" and "bit x k" and "\<forall>j > k. \<not> bit x j"
  shows "y = mask (Suc k)"
proof (rule bit_word_eqI)
  fix i :: nat
  assume i: "i < LENGTH(64)"
  have "k < 64" using assms(2) bit_imp_le_length [of x k] by simp
  have "bit y i \<longleftrightarrow> i \<le> k"
  proof
    assume "bit y i"
    then obtain j where "i \<le> j" "bit x j" using assms(1) by (auto simp: smeared_def)
    then show "i \<le> k" using assms(3) by (meson leI le_trans less_imp_le_nat)
  next
    assume "i \<le> k"
    then show "bit y i"
      using assms(1,2) \<open>k < 64\<close> by (auto simp: smeared_def intro!: exI [of _ k])
  qed
  then show "bit y i \<longleftrightarrow> bit (mask (Suc k) :: u64) i"
    using i by (auto simp: bit_mask_iff less_Suc_eq_le)
qed

lemma top_bit:
  assumes "x \<noteq> (0 :: u64)"
  obtains k where "k < 64" "bit x k" "\<forall>j > k. \<not> bit x j" "2 ^ k \<le> unat x" "unat x < 2 ^ Suc k"
proof -
  have "1 \<le> unat x" using assms by (simp add: Suc_le_eq unat_gt_0)
  then obtain k where k: "2 ^ k \<le> unat x" "unat x < 2 ^ Suc k"
    using ex_power_ivl1 [of 2 "unat x"] by auto
  have "(2 :: nat) ^ k < 2 ^ 64" using k(1) by (metis order_le_less_trans power_numeral_64 unat_lt64)
  then have "k < 64" by (rule power_less_imp_less_exp [rotated]) simp
  have "unat x div 2 ^ k = 1" using k by (simp add: div_nat_eqI)
  then have "bit (unat x) k" by (simp add: bit_iff_odd)
  then have "bit x k" by (simp add: bit_unsigned_iff)
  moreover have "\<not> bit x j" if "j > k" for j
  proof -
    have "(2 :: nat) ^ Suc k \<le> 2 ^ j" using that by (intro power_increasing) simp_all
    then have "unat x div 2 ^ j = 0" using k(2) by simp
    then have "\<not> bit (unat x) j" by (simp add: bit_iff_odd)
    then show ?thesis by (simp add: bit_unsigned_iff)
  qed
  ultimately show ?thesis using that k \<open>k < 64\<close> by blast
qed

text \<open>
  The result is the least power of two that is at least \<open>n\<close>, up to \<open>2\<^sup>6\<^sup>3\<close>; above it the final
  increment wraps to zero.
\<close>

lemma next_pow2_cases:
  assumes "1 < n"
  obtains k where "k < 64" "2 ^ k < unat n" "unat n \<le> 2 ^ Suc k" "next_pow2 n = mask (Suc k) + 1"
proof -
  have n: "unat (n - 1) = unat n - 1" "1 < unat n"
    using assms by (auto simp: word_less_nat_alt unat_sub_small)
  then have "n - 1 \<noteq> 0" by (auto simp: unat_eq_iff64)
  then obtain k where k: "k < 64" "bit (n - 1) k" "\<forall>j > k. \<not> bit (n - 1) j"
      "2 ^ k \<le> unat (n - 1)" "unat (n - 1) < 2 ^ Suc k"
    by (rule top_bit)
  define y1 where "y1 = (n - 1) OR drop_bit 1 (n - 1)"
  define y2 where "y2 = y1 OR drop_bit 2 y1"
  define y3 where "y3 = y2 OR drop_bit 4 y2"
  define y4 where "y4 = y3 OR drop_bit 8 y3"
  define y5 where "y5 = y4 OR drop_bit 16 y4"
  define y6 where "y6 = y5 OR drop_bit 32 y5"
  have "smeared 2 (n - 1) y1" using smeared_step [OF smeared_0] by (simp add: y1_def numeral_2_eq_2)
  then have "smeared 4 (n - 1) y2" using smeared_step by (fastforce simp: y2_def)
  then have "smeared 8 (n - 1) y3" using smeared_step by (fastforce simp: y3_def)
  then have "smeared 16 (n - 1) y4" using smeared_step by (fastforce simp: y4_def)
  then have "smeared 32 (n - 1) y5" using smeared_step by (fastforce simp: y5_def)
  then have "smeared 64 (n - 1) y6" using smeared_step by (fastforce simp: y6_def)
  then have "y6 = mask (Suc k)" using k by (intro smeared_mask)
  moreover have "\<not> n \<le> 1" using assms by (simp add: not_le)
  then have "next_pow2 n = y6 + 1"
    by (simp add: next_pow2_def Let_def y1_def y2_def y3_def y4_def y5_def y6_def)
  ultimately show ?thesis using k n by (intro that [of k]) auto
qed

lemma next_pow2_ok:
  assumes "unat n \<le> 2 ^ 63"
  shows "pow2 (next_pow2 n)" and "unat n \<le> unat (next_pow2 n)" and "unat (next_pow2 n) < 2 * max 1 (unat n)"
proof -
  have "pow2 (next_pow2 n) \<and> unat n \<le> unat (next_pow2 n) \<and> unat (next_pow2 n) < 2 * max 1 (unat n)"
  proof (cases "1 < n")
    case True
    then obtain k where k: "k < 64" "2 ^ k < unat n" "unat n \<le> 2 ^ Suc k" "next_pow2 n = mask (Suc k) + 1"
      by (rule next_pow2_cases)
    have "(2 :: nat) ^ k < 2 ^ 63" using k(2) assms by simp
    then have "k < 63" by (rule power_less_imp_less_exp [rotated]) simp
    have "next_pow2 n = 2 ^ Suc k" using k(4) by (simp add: mask_eq_exp_minus_1)
    moreover have "unat (2 ^ Suc k :: u64) = 2 ^ Suc k"
    proof -
      have "(2 :: nat) ^ Suc k < 2 ^ 64" using \<open>k < 63\<close> by (intro power_strict_increasing) simp_all
      then show ?thesis by (metis of_nat_numeral of_nat_power unat_of_nat64)
    qed
    ultimately have "unat (next_pow2 n) = 2 ^ Suc k" by simp
    then show ?thesis using k \<open>k < 63\<close> by (auto simp: pow2_def intro!: exI [of _ "Suc k"])
  next
    case False
    then have "unat n \<le> 1" by (simp add: word_less_nat_alt)
    moreover have "next_pow2 n = 1" using False by (simp add: next_pow2_def not_less)
    ultimately show ?thesis by (auto simp: pow2_def intro!: exI [of _ 0])
  qed
  then show "pow2 (next_pow2 n)" and "unat n \<le> unat (next_pow2 n)"
    and "unat (next_pow2 n) < 2 * max 1 (unat n)" by blast+
qed

lemma next_pow2_wraps: "2 ^ 63 < unat n \<Longrightarrow> next_pow2 n = 0"
proof -
  assume n: "2 ^ 63 < unat n"
  then have "1 < n" by (simp add: word_less_nat_alt)
  then obtain k where k: "k < 64" "unat n \<le> 2 ^ Suc k" "next_pow2 n = mask (Suc k) + 1"
    by (rule next_pow2_cases)
  have "(2 :: nat) ^ 63 < 2 ^ Suc k" using n k(2) by linarith
  then have "63 < Suc k" by (rule power_less_imp_less_exp [rotated]) simp
  then have "k = 63" using k(1) by simp
  then show ?thesis using k(3) by (simp add: mask_eq_exp_minus_1)
qed

end
