(* ===== verification/Vcol_Queue.thy ===== *)
theory Vcol_Queue
  imports Vcol_Store Vcol_Bits Vcol_DArr
begin

text \<open>
  \<^verbatim>\<open>VestaQueue\<close> and \<^verbatim>\<open>VestaDeque\<close> of \<^verbatim>\<open>vesta_collections.c\<close>: one ring buffer struct of power-of-two
  capacity, used as a FIFO queue and, with two more operations at the front and the back, as a
  double-ended queue.  The abstraction reads the ring from its head as a list.
\<close>

section \<open>The operations\<close>

definition VQUEUE_MIN_CAP :: u64 where
  "VQUEUE_MIN_CAP = 16"

definition vcol_queue_new :: "store \<Rightarrow> u64 \<Rightarrow> u64 \<times> store" where
  "vcol_queue_new s initial_capacity =
     (let cap = next_pow2 (if initial_capacity < VQUEUE_MIN_CAP then VQUEUE_MIN_CAP
                           else initial_capacity);
          (q, s) = malloc s 48
      in if q = 0 then (VCOL_NULL, s)
         else let (d, s) = malloc s (cap * 8)
              in if d = 0 then (VCOL_NULL, s)
                 else (q, put OQueue s q
                            \<lparr>q_data = new_buf 8 (cap * 8), q_cap = cap, q_mask = cap - 1,
                             q_head = 0, q_tail = 0, q_size = 0\<rparr>))"

definition vcol_queue_free :: "store \<Rightarrow> u64 \<Rightarrow> store option" where
  "vcol_queue_free s handle =
     (if handle = 0 then Some s
      else do { _ \<leftarrow> deref as_queue s handle; free_obj s handle })"

definition vqueue_grow :: "store \<Rightarrow> VestaQueue \<Rightarrow> (bool \<times> VestaQueue \<times> store) option" where
  "vqueue_grow s q =
     (let new_cap = q_cap q * 2; (a, s) = malloc s (new_cap * 8)
      in if a = 0 then Some (False, q, s)
         else do {
           let new_data = new_buf 8 (new_cap * 8);
           new_data \<leftarrow>
             (if q_head q < q_tail q
              then memcpy 8 new_data 0 (q_data q) (q_head q) ((q_tail q - q_head q) * 8)
              else let first = q_cap q - q_head q in do {
                new_data \<leftarrow> memcpy 8 new_data 0 (q_data q) (q_head q) (first * 8);
                if q_tail q > 0 then memcpy 8 new_data first (q_data q) 0 (q_tail q * 8)
                else Some new_data
              });
           Some (True, q\<lparr>q_data := new_data, q_cap := new_cap, q_mask := new_cap - 1,
                         q_head := 0, q_tail := q_size q\<rparr>, s)
         })"

definition vcol_queue_push :: "store \<Rightarrow> u64 \<Rightarrow> u64 \<Rightarrow> (u64 \<times> store) option" where
  "vcol_queue_push s handle v =
     (if handle = 0 then Some (VCOL_NOT_FOUND, s)
      else do {
        q \<leftarrow> deref as_queue s handle;
        (ok, q, s) \<leftarrow> (if q_size q = q_cap q then vqueue_grow s q else Some (True, q, s));
        if \<not> ok then Some (VCOL_NOT_FOUND, s)
        else do {
          d \<leftarrow> wr (q_data q) (q_tail q) v;
          let q = q\<lparr>q_data := d, q_tail := (q_tail q + 1) AND q_mask q, q_size := q_size q + 1\<rparr>;
          Some (q_size q, put OQueue s handle q)
        }
      })"

definition vcol_queue_pop :: "store \<Rightarrow> u64 \<Rightarrow> (u64 \<times> store) option" where
  "vcol_queue_pop s handle =
     (if handle = 0 then Some (VCOL_NOT_FOUND, s)
      else do {
        q \<leftarrow> deref as_queue s handle;
        if q_size q = 0 then Some (VCOL_NOT_FOUND, s)
        else do {
          v \<leftarrow> rd (q_data q) (q_head q);
          Some (v, put OQueue s handle
                     (q\<lparr>q_head := (q_head q + 1) AND q_mask q, q_size := q_size q - 1\<rparr>))
        }
      })"

definition vcol_queue_peek :: "store \<Rightarrow> u64 \<Rightarrow> u64 option" where
  "vcol_queue_peek s handle =
     (if handle = 0 then Some VCOL_NOT_FOUND
      else do {
        q \<leftarrow> deref as_queue s handle;
        if q_size q = 0 then Some VCOL_NOT_FOUND else rd (q_data q) (q_head q)
      })"

definition vcol_queue_size :: "store \<Rightarrow> u64 \<Rightarrow> u64 option" where
  "vcol_queue_size s handle =
     (if handle = 0 then Some 0 else map_option q_size (deref as_queue s handle))"

text \<open>The inner loop of \<^verbatim>\<open>vcol_queue_remove_value\<close>: shift left from \<open>cur\<close> while \<open>j < size\<close>.\<close>

function vqueue_shift :: "u64 buf \<Rightarrow> u64 \<Rightarrow> u64 \<Rightarrow> u64 \<Rightarrow> u64 \<Rightarrow> u64 \<Rightarrow> u64 buf option" where
  "vqueue_shift d msk n cur nxt j =
     (if j < n
      then do {
        x \<leftarrow> rd d nxt;
        d \<leftarrow> wr d cur x;
        vqueue_shift d msk n nxt ((nxt + 1) AND msk) (j + 1)
      }
      else Some d)"
  by pat_completeness auto
termination
  by (relation "measure (\<lambda>(d, msk, n, cur, nxt, j). unat n - unat j)")
    (auto simp: unat_inc_less word_less_nat_alt)

text \<open>Its outer loop: scan from the head for the value.\<close>

function vqueue_remove :: "VestaQueue \<Rightarrow> u64 \<Rightarrow> u64 \<Rightarrow> u64 \<Rightarrow> (u64 \<times> VestaQueue) option" where
  "vqueue_remove q v idx i =
     (if i < q_size q
      then do {
        x \<leftarrow> rd (q_data q) idx;
        if x = v
        then do {
          d \<leftarrow> vqueue_shift (q_data q) (q_mask q) (q_size q) idx ((idx + 1) AND q_mask q) (i + 1);
          Some (1, q\<lparr>q_data := d, q_tail := (q_tail q + q_mask q) AND q_mask q,
                     q_size := q_size q - 1\<rparr>)
        }
        else vqueue_remove q v ((idx + 1) AND q_mask q) (i + 1)
      }
      else Some (0, q))"
  by pat_completeness auto
termination
  by (relation "measure (\<lambda>(q, v, idx, i). unat (q_size q) - unat i)")
    (auto simp: unat_inc_less word_less_nat_alt)

definition vcol_queue_remove_value :: "store \<Rightarrow> u64 \<Rightarrow> u64 \<Rightarrow> (u64 \<times> store) option" where
  "vcol_queue_remove_value s handle v =
     (if handle = 0 then Some (0, s)
      else do {
        q \<leftarrow> deref as_queue s handle;
        if q_size q = 0 then Some (0, s)
        else do {
          (r, q) \<leftarrow> vqueue_remove q v (q_head q) 0;
          Some (r, put OQueue s handle q)
        }
      })"

definition vcol_queue_clear :: "store \<Rightarrow> u64 \<Rightarrow> store option" where
  "vcol_queue_clear s handle =
     (if handle = 0 then Some s
      else do {
        q \<leftarrow> deref as_queue s handle;
        Some (put OQueue s handle (q\<lparr>q_head := 0, q_tail := 0, q_size := 0\<rparr>))
      })"

subsection \<open>The double-ended operations\<close>

definition vcol_deque_new :: "store \<Rightarrow> u64 \<Rightarrow> u64 \<times> store" where
  "vcol_deque_new s initial_capacity = vcol_queue_new s initial_capacity"

definition vcol_deque_free :: "store \<Rightarrow> u64 \<Rightarrow> store option" where
  "vcol_deque_free s handle = vcol_queue_free s handle"

definition vcol_deque_push_back :: "store \<Rightarrow> u64 \<Rightarrow> u64 \<Rightarrow> (u64 \<times> store) option" where
  "vcol_deque_push_back s handle v = vcol_queue_push s handle v"

definition vcol_deque_push_front :: "store \<Rightarrow> u64 \<Rightarrow> u64 \<Rightarrow> (u64 \<times> store) option" where
  "vcol_deque_push_front s handle v =
     (if handle = 0 then Some (VCOL_NOT_FOUND, s)
      else do {
        d \<leftarrow> deref as_queue s handle;
        (ok, d, s) \<leftarrow> (if q_size d = q_cap d then vqueue_grow s d else Some (True, d, s));
        if \<not> ok then Some (VCOL_NOT_FOUND, s)
        else do {
          let d = d\<lparr>q_head := (q_head d - 1) AND q_mask d\<rparr>;
          b \<leftarrow> wr (q_data d) (q_head d) v;
          let d = d\<lparr>q_data := b, q_size := q_size d + 1\<rparr>;
          Some (q_size d, put OQueue s handle d)
        }
      })"

definition vcol_deque_pop_front :: "store \<Rightarrow> u64 \<Rightarrow> (u64 \<times> store) option" where
  "vcol_deque_pop_front s handle = vcol_queue_pop s handle"

definition vcol_deque_pop_back :: "store \<Rightarrow> u64 \<Rightarrow> (u64 \<times> store) option" where
  "vcol_deque_pop_back s handle =
     (if handle = 0 then Some (VCOL_NOT_FOUND, s)
      else do {
        d \<leftarrow> deref as_queue s handle;
        if q_size d = 0 then Some (VCOL_NOT_FOUND, s)
        else do {
          let d = d\<lparr>q_tail := (q_tail d - 1) AND q_mask d\<rparr>;
          v \<leftarrow> rd (q_data d) (q_tail d);
          Some (v, put OQueue s handle (d\<lparr>q_size := q_size d - 1\<rparr>))
        }
      })"

definition vcol_deque_peek_front :: "store \<Rightarrow> u64 \<Rightarrow> u64 option" where
  "vcol_deque_peek_front s handle = vcol_queue_peek s handle"

definition vcol_deque_peek_back :: "store \<Rightarrow> u64 \<Rightarrow> u64 option" where
  "vcol_deque_peek_back s handle =
     (if handle = 0 then Some VCOL_NOT_FOUND
      else do {
        d \<leftarrow> deref as_queue s handle;
        if q_size d = 0 then Some VCOL_NOT_FOUND
        else rd (q_data d) ((q_tail d - 1) AND q_mask d)
      })"

definition vcol_deque_size :: "store \<Rightarrow> u64 \<Rightarrow> u64 option" where
  "vcol_deque_size s handle = vcol_queue_size s handle"

definition vcol_deque_clear :: "store \<Rightarrow> u64 \<Rightarrow> store option" where
  "vcol_deque_clear s handle = vcol_queue_clear s handle"

declare vqueue_shift.simps [simp del] vqueue_remove.simps [simp del]

section \<open>The ring read as a list\<close>

definition q_rep :: "VestaQueue \<Rightarrow> u64 list \<Rightarrow> bool" where
  "q_rep q xs \<longleftrightarrow>
     pow2 (q_cap q) \<and> q_mask q = q_cap q - 1 \<and> unat (q_cap q) * 8 < 2 ^ 63
     \<and> length (q_data q) = unat (q_cap q) \<and> unat (q_head q) < unat (q_cap q)
     \<and> unat (q_size q) = length xs \<and> length xs \<le> unat (q_cap q)
     \<and> unat (q_tail q) = (unat (q_head q) + length xs) mod unat (q_cap q)
     \<and> take (length xs) (rotate (unat (q_head q)) (q_data q)) = map Some xs"

text \<open>The handle \<open>h\<close> is live and denotes the queue \<open>xs\<close>, oldest element first.\<close>

definition queue_has :: "store \<Rightarrow> u64 \<Rightarrow> u64 list \<Rightarrow> bool" where
  "queue_has s h xs \<longleftrightarrow> h \<noteq> 0 \<and> (\<exists>q. deref as_queue s h = Some q \<and> q_rep q xs)"

subsection \<open>Positions in the ring\<close>

lemma rotate_update:
  assumes "i < length d"
  shows "rotate h (d[(h + i) mod length d := x]) = (rotate h d)[i := x]"
proof (rule nth_equalityI)
  fix k assume "k < length (rotate h (d[(h + i) mod length d := x]))"
  then have k: "k < length d" by simp
  have "(h + i) mod length d = (h + k) mod length d \<longleftrightarrow> i = k"
    using assms k by (rule mod_add_inj)
  then show "rotate h (d[(h + i) mod length d := x]) ! k = (rotate h d)[i := x] ! k"
    using k assms mod_less_divisor [of "length d"]
    by (cases "d = []") (auto simp: nth_rotate nth_list_update)
qed simp

lemma q_repD:
  assumes "q_rep q xs"
  shows "pow2 (q_cap q)" "q_mask q = q_cap q - 1" "length (q_data q) = unat (q_cap q)"
    "unat (q_head q) < unat (q_cap q)" "unat (q_size q) = length xs" "length xs \<le> unat (q_cap q)"
    "unat (q_tail q) = (unat (q_head q) + length xs) mod unat (q_cap q)"
    "unat (q_cap q) * 8 < 2 ^ 63"
    "take (length xs) (rotate (unat (q_head q)) (q_data q)) = map Some xs"
  using assms by (simp_all add: q_rep_def)

lemma q_rep_nth:
  assumes "q_rep q xs" and "i < length xs"
  shows "q_data q ! ((unat (q_head q) + i) mod unat (q_cap q)) = Some (xs ! i)"
proof -
  have "rotate (unat (q_head q)) (q_data q) ! i = Some (xs ! i)"
    using q_repD(9) [OF assms(1)] assms(2) by (metis nth_map nth_take)
  then show ?thesis using q_repD(3,6) [OF assms(1)] assms(2) by (simp add: nth_rotate)
qed

lemma q_rep_rd:
  assumes rep: "q_rep q xs" and "i < length xs" and "unat p = (unat (q_head q) + i) mod unat (q_cap q)"
  shows "rd (q_data q) p = Some (xs ! i)"
  using assms q_repD(3,4) [OF rep] q_rep_nth [OF rep] by (simp add: rd_def)

lemma q_rep_empty: "q_rep q xs \<Longrightarrow> q_size q = 0 \<longleftrightarrow> xs = []"
  by (simp add: q_rep_def unat_eq_iff64)

lemma q_rep_full: "q_rep q xs \<Longrightarrow> q_size q = q_cap q \<longleftrightarrow> length xs = unat (q_cap q)"
  by (simp add: q_rep_def unat_eq_iff64)

lemma q_rep_size: "q_rep q xs \<Longrightarrow> q_size q = of_nat (length xs)"
  by (metis q_repD(5) of_nat_unat ucast_id)

lemma q_rep_unique: "q_rep q xs \<Longrightarrow> q_rep q ys \<Longrightarrow> xs = ys"
  unfolding q_rep_def by (metis inj_Some inj_map_eq_map)

lemma q_rep_size1: "q_rep q xs \<Longrightarrow> unat (q_size q + 1) = Suc (length xs)"
  using q_repD(5,6,8) [of q xs] by (simp add: unat_add1)

lemma rotate_Suc: "rotate (Suc n) xs = rotate1 (rotate n xs)"
  by simp

lemma rotate_mod: "rotate (n mod length xs) xs = rotate n xs"
  by (metis rotate_conv_mod)

subsection \<open>The effect of each buffer operation\<close>

lemma q_rep_push:
  assumes rep: "q_rep q xs" and room: "length xs < unat (q_cap q)"
  shows "\<exists>d. wr (q_data q) (q_tail q) v = Some d
    \<and> q_rep (q\<lparr>q_data := d, q_tail := (q_tail q + 1) AND q_mask q, q_size := q_size q + 1\<rparr>) (xs @ [v])"
proof -
  note r = q_repD [OF rep]
  have t: "unat ((q_tail q + 1) AND (q_cap q - 1)) = (unat (q_head q) + Suc (length xs)) mod unat (q_cap q)"
    using r(1,7) by (simp add: unat_and_mask unat_add_mod mod_simps)
  have "rotate (unat (q_head q)) ((q_data q)[unat (q_tail q) := Some v]) =
      (rotate (unat (q_head q)) (q_data q))[length xs := Some v]"
    using rotate_update [of "length xs" "q_data q" "unat (q_head q)" "Some v"] r(3,7) room by simp
  then have "take (Suc (length xs)) (rotate (unat (q_head q)) ((q_data q)[unat (q_tail q) := Some v]))
      = map Some (xs @ [v])"
    using r(3,9) room by (simp add: take_Suc_conv_app_nth)
  then show ?thesis
    using r room t q_rep_size1 [OF rep] by (simp add: wr_def q_rep_def)
qed

lemma q_rep_pop:
  assumes rep: "q_rep q (x # xs)"
  shows "rd (q_data q) (q_head q) = Some x"
    and "q_rep (q\<lparr>q_head := (q_head q + 1) AND q_mask q, q_size := q_size q - 1\<rparr>) xs"
proof -
  note r = q_repD [OF rep]
  show "rd (q_data q) (q_head q) = Some x"
    using q_rep_rd [OF rep, of 0 "q_head q"] r(4) by simp
  have h: "unat ((q_head q + 1) AND (q_cap q - 1)) = Suc (unat (q_head q)) mod unat (q_cap q)"
    using r(1) by (simp add: unat_and_mask unat_add_mod)
  have "take (length xs) (rotate (Suc (unat (q_head q))) (q_data q)) = map Some xs"
  proof -
    have "rotate (unat (q_head q)) (q_data q) \<noteq> []" using r(3,4) by auto
    then obtain y ys where y: "rotate (unat (q_head q)) (q_data q) = y # ys"
      by (meson neq_Nil_conv)
    then have "length ys \<ge> length xs" using r(3,6) by (metis Suc_le_mono length_Cons length_rotate)
    then show ?thesis using r(9) y by simp
  qed
  then have "take (length xs) (rotate (Suc (unat (q_head q)) mod unat (q_cap q)) (q_data q)) = map Some xs"
    using r(3) rotate_mod [of "Suc (unat (q_head q))" "q_data q"] by simp
  moreover have "(Suc (unat (q_head q)) mod unat (q_cap q) + length xs) mod unat (q_cap q)
      = (unat (q_head q) + Suc (length xs)) mod unat (q_cap q)"
    by (simp add: mod_simps)
  ultimately show "q_rep (q\<lparr>q_head := (q_head q + 1) AND q_mask q, q_size := q_size q - 1\<rparr>) xs"
    using r h pow2_pos [OF r(1)] by (simp add: q_rep_def unat_sub_small)
qed

lemma q_rep_push_front:
  assumes rep: "q_rep q xs" and room: "length xs < unat (q_cap q)"
  shows "\<exists>d. wr (q_data q) ((q_head q - 1) AND q_mask q) v = Some d
    \<and> q_rep (q\<lparr>q_head := (q_head q - 1) AND q_mask q, q_data := d, q_size := q_size q + 1\<rparr>) (v # xs)"
proof -
  note r = q_repD [OF rep]
  define C where "C = unat (q_cap q)"
  define p where "p = (unat (q_head q) + (C - 1)) mod C"
  have "0 < C" using pow2_pos [OF r(1)] by (simp add: C_def)
  have h: "unat ((q_head q - 1) AND (q_cap q - 1)) = p"
    using r(1) by (simp add: unat_and_mask unat_dec_mod p_def C_def)
  have bk: "(p + Suc k) mod C = (unat (q_head q) + k) mod C" for k
  proof -
    have "(p + Suc k) mod C = (unat (q_head q) + (C - 1) + Suc k) mod C"
      by (simp only: p_def mod_add_left_eq)
    also have "unat (q_head q) + (C - 1) + Suc k = unat (q_head q) + k + C" using \<open>0 < C\<close> by simp
    finally show ?thesis by simp
  qed
  have C: "length (q_data q) = C" "length xs < C" using r(3) room by (simp_all add: C_def)
  define R where "R = rotate p ((q_data q)[p := Some v])"
  have "p < C" using \<open>0 < C\<close> by (simp add: p_def)
  have "take (Suc (length xs)) R = map Some (v # xs)"
  proof (rule nth_equalityI)
    show "length (take (Suc (length xs)) R) = length (map Some (v # xs))"
      using C by (simp add: R_def)
    fix i assume "i < length (take (Suc (length xs)) R)"
    then have i: "i < Suc (length xs)" using C by (simp add: R_def)
    show "take (Suc (length xs)) R ! i = map Some (v # xs) ! i"
    proof (cases i)
      case 0
      then show ?thesis using C \<open>p < C\<close> by (simp add: R_def nth_rotate)
    next
      case (Suc k)
      have "(p + Suc k) mod C \<noteq> p"
        using mod_add_inj [of "Suc k" C 0 p] i Suc C \<open>p < C\<close> by simp
      then show ?thesis
        using i Suc C q_rep_nth [OF rep, of k] bk [of k]
        by (simp add: R_def nth_rotate C_def [symmetric])
    qed
  qed
  moreover have "unat (q_tail q) = (p + Suc (length xs)) mod C"
    using r(7) bk [of "length xs"] by (simp add: C_def)
  ultimately show ?thesis
    using r h room q_rep_size1 [OF rep] \<open>p < C\<close> C
    by (simp add: wr_def q_rep_def R_def C_def [symmetric])
qed

lemma q_rep_back:
  assumes rep: "q_rep q (xs @ [v])"
  shows "unat ((q_tail q - 1) AND q_mask q) = (unat (q_head q) + length xs) mod unat (q_cap q)"
    and "rd (q_data q) ((q_tail q - 1) AND q_mask q) = Some v"
    and "q_rep (q\<lparr>q_tail := (q_tail q - 1) AND q_mask q, q_size := q_size q - 1\<rparr>) xs"
proof -
  note r = q_repD [OF rep]
  have "0 < unat (q_cap q)" using pow2_pos [OF r(1)] .
  then have *: "unat (q_head q) + length (xs @ [v]) + (unat (q_cap q) - 1)
      = unat (q_head q) + length xs + unat (q_cap q)" by simp
  have "unat ((q_tail q - 1) AND q_mask q) = (unat (q_tail q) + (unat (q_cap q) - 1)) mod unat (q_cap q)"
    using r(1,2) by (simp add: unat_and_mask unat_dec_mod)
  also have "\<dots> = (unat (q_head q) + length (xs @ [v]) + (unat (q_cap q) - 1)) mod unat (q_cap q)"
    using r(7) by (simp only: mod_simps)
  also have "\<dots> = (unat (q_head q) + length xs) mod unat (q_cap q)"
    unfolding * by simp
  finally show t: "unat ((q_tail q - 1) AND q_mask q) = (unat (q_head q) + length xs) mod unat (q_cap q)" .
  then show "rd (q_data q) ((q_tail q - 1) AND q_mask q) = Some v"
    using q_rep_rd [OF rep, of "length xs"] by simp
  have "take (length xs) (rotate (unat (q_head q)) (q_data q)) = map Some xs"
    using r(9) by (rule take_map_snocD)
  then show "q_rep (q\<lparr>q_tail := (q_tail q - 1) AND q_mask q, q_size := q_size q - 1\<rparr>) xs"
    using r t by (simp add: q_rep_def unat_sub_small)
qed

lemma q_rep_clear: "q_rep q xs \<Longrightarrow> q_rep (q\<lparr>q_head := 0, q_tail := 0, q_size := 0\<rparr>) []"
  by (auto simp: q_rep_def pow2_pos)

subsection \<open>Growth\<close>

text \<open>
  The ring is grown when it is full, so head and tail meet and the copy is the linearised ring:
  the part from the head to the end of the buffer, then the part before the head.
\<close>

lemma memcpy_Some:
  assumes "unat bytes div w = n" and "unat di + n \<le> length d" and "unat si + n \<le> length b"
  shows "memcpy w d di b si bytes =
    Some (take (unat di) d @ take n (drop (unat si) b) @ drop (unat di + n) d)"
  using assms by (simp add: memcpy_def Let_def)

lemma vqueue_grow_copy:
  assumes rep: "q_rep q xs" and full: "length xs = unat (q_cap q)"
    and nb: "length nb = 2 * unat (q_cap q)" "drop (unat (q_cap q)) nb = pad"
  shows "(if q_head q < q_tail q
     then memcpy 8 nb 0 (q_data q) (q_head q) ((q_tail q - q_head q) * 8)
     else let first = q_cap q - q_head q in do {
       nb \<leftarrow> memcpy 8 nb 0 (q_data q) (q_head q) (first * 8);
       if q_tail q > 0 then memcpy 8 nb first (q_data q) 0 (q_tail q * 8) else Some nb
     }) = Some (map Some xs @ pad)"
proof -
  note r = q_repD [OF rep]
  define C where "C = unat (q_cap q)"
  define h where "h = unat (q_head q)"
  have tail: "q_tail q = q_head q"
    using r(4,7) full by (simp add: unat_eq_iff64)
  have hC: "h < C" "C * 8 < 2 ^ 63" "length (q_data q) = C"
    using r(3,4,8) by (simp_all add: h_def C_def)
  have first: "unat (q_cap q - q_head q) = C - h"
    using r(4) by (simp add: unat_sub_small C_def h_def)
  have n1: "unat ((q_cap q - q_head q) * 8) div 8 = C - h"
    using unat_bytes [of "q_cap q - q_head q" 8] first hC by simp
  have n2: "unat (q_head q * 8) div 8 = h"
    using unat_bytes [of "q_head q" 8] hC by (simp add: h_def)
  have ring: "drop h (q_data q) @ take h (q_data q) = map Some xs"
    using r(9) full hC by (simp add: rotate_drop_take C_def h_def)
  have m1: "memcpy 8 nb 0 (q_data q) (q_head q) ((q_cap q - q_head q) * 8)
      = Some (drop h (q_data q) @ drop (C - h) nb)"
    using memcpy_Some [OF n1, of 0 nb "q_head q" "q_data q"] hC nb
    by (simp add: h_def [symmetric] C_def [symmetric])
  have m2: "memcpy 8 (drop h (q_data q) @ drop (C - h) nb) (q_cap q - q_head q) (q_data q) 0 (q_head q * 8)
      = Some (drop h (q_data q) @ take h (q_data q) @ drop C nb)"
    using memcpy_Some [OF n2, of "q_cap q - q_head q" "drop h (q_data q) @ drop (C - h) nb" 0 "q_data q"]
      hC nb first by (simp add: C_def [symmetric])
  have "q_tail q > 0 \<longleftrightarrow> h \<noteq> 0" by (simp add: tail h_def word_less_nat_alt)
  then show ?thesis
    using m1 m2 ring nb(2) hC tail
    by (auto simp: Let_def C_def [symmetric] append_assoc [symmetric] simp del: append_assoc)
qed

lemma vqueue_grow_ok:
  assumes rep: "q_rep q xs" and full: "length xs = unat (q_cap q)"
    and ok: "fst (malloc s (q_cap q * 2 * 8)) \<noteq> 0"
  shows "\<exists>q'. vqueue_grow s q = Some (True, q', after_malloc s) \<and> q_rep q' xs
    \<and> length xs < unat (q_cap q') \<and> q_size q' = q_size q"
proof -
  note r = q_repD [OF rep]
  have c2: "unat (q_cap q * 2) = 2 * unat (q_cap q)"
    using r(8) by (subst unat_mult_small) simp_all
  then have "unat (q_cap q * 2 * 8) = 16 * unat (q_cap q)"
    using r(8) by (subst unat_mult_small) simp_all
  then have b: "2 * unat (q_cap q) * 8 < 2 ^ 63" using malloc_bound [OF ok] by simp
  have len: "unat (q_cap q * 2 * 8) div 8 = 2 * unat (q_cap q)"
    using unat_bytes [of "q_cap q * 2" 8] c2 b by simp
  define nb where "nb = (new_buf 8 (q_cap q * 2 * 8) :: u64 buf)"
  have nb: "length nb = 2 * unat (q_cap q)" "drop (unat (q_cap q)) nb = replicate (unat (q_cap q)) None"
    using len by (simp_all add: nb_def new_buf_def)
  define q' where "q' = q\<lparr>q_data := map Some xs @ replicate (unat (q_cap q)) None,
      q_cap := q_cap q * 2, q_mask := q_cap q * 2 - 1, q_head := 0, q_tail := q_size q\<rparr>"
  have "vqueue_grow s q = Some (True, q', after_malloc s)"
    using ok vqueue_grow_copy [OF rep full nb]
    unfolding vqueue_grow_def q'_def nb_def Let_def by (subst malloc_eq) (simp add: Let_def)
  moreover have "pow2 (q_cap q * 2)"
  proof -
    obtain k where k: "unat (q_cap q) = 2 ^ k" using r(1) by (auto simp: pow2_def)
    have "(2 :: nat) ^ Suc k < 2 ^ 64" using b k by simp
    then have "Suc k < 64" by (rule power_less_imp_less_exp [rotated]) simp
    then show ?thesis using c2 k by (auto simp: pow2_def intro!: exI [of _ "Suc k"])
  qed
  then have "q_rep q' xs"
    using r c2 b full pow2_pos [OF r(1)] by (simp add: q_rep_def q'_def)
  moreover have "length xs < unat (q_cap q')" using full c2 pow2_pos [OF r(1)] by (simp add: q'_def)
  moreover have "q_size q' = q_size q" by (simp add: q'_def)
  ultimately show ?thesis by blast
qed

lemma vqueue_grow_fail:
  "fst (malloc s (q_cap q * 2 * 8)) = 0 \<Longrightarrow> vqueue_grow s q = Some (False, q, after_malloc s)"
  unfolding vqueue_grow_def Let_def by (subst malloc_eq) simp

text \<open>A slot is free, or the allocator grants the doubled ring.\<close>

definition q_room :: "store \<Rightarrow> VestaQueue \<Rightarrow> bool" where
  "q_room s q \<longleftrightarrow> q_size q \<noteq> q_cap q \<or> fst (malloc s (q_cap q * 2 * 8)) \<noteq> 0"

lemma queue_guard:
  assumes rep: "q_rep q xs"
  shows "q_room s q \<Longrightarrow> \<exists>q' s'. (if q_size q = q_cap q then vqueue_grow s q else Some (True, q, s))
      = Some (True, q', s') \<and> q_rep q' xs \<and> length xs < unat (q_cap q') \<and> only_changes h s s'"
    and "\<not> q_room s q \<Longrightarrow> (if q_size q = q_cap q then vqueue_grow s q else Some (True, q, s))
      = Some (False, q, after_malloc s)"
proof -
  show "\<not> q_room s q \<Longrightarrow> (if q_size q = q_cap q then vqueue_grow s q else Some (True, q, s))
      = Some (False, q, after_malloc s)"
    by (simp add: q_room_def vqueue_grow_fail)
  assume room: "q_room s q"
  show "\<exists>q' s'. (if q_size q = q_cap q then vqueue_grow s q else Some (True, q, s))
      = Some (True, q', s') \<and> q_rep q' xs \<and> length xs < unat (q_cap q') \<and> only_changes h s s'"
  proof (cases "q_size q = q_cap q")
    case True
    then show ?thesis
      using room vqueue_grow_ok [OF rep, of s] q_rep_full [OF rep] by (auto simp: q_room_def)
  next
    case False
    then show ?thesis using rep q_rep_full [OF rep] q_repD(6) [OF rep] by auto
  qed
qed

subsection \<open>Removing a value\<close>

text \<open>
  The ring seen from its head is \<open>rotate h d\<close>; in that view the inner loop copies each slot
  from its right neighbour, from position \<open>j - 1\<close> on.
\<close>

lemma vqueue_shift_view:
  assumes "pow2 cap" and "msk = cap - 1" and "length d = unat cap" and "unat n \<le> unat cap"
    and "1 \<le> unat j" and "unat j \<le> unat n"
    and "unat cur = (h + (unat j - 1)) mod unat cap" and "unat nxt = (h + unat j) mod unat cap"
    and "\<forall>i < unat n. rotate h d ! i \<noteq> None"
  shows "\<exists>d'. vqueue_shift d msk n cur nxt j = Some d' \<and> length d' = unat cap
    \<and> (\<forall>i < unat cap. rotate h d' ! i =
         (if unat j - 1 \<le> i \<and> Suc i < unat n then rotate h d ! Suc i else rotate h d ! i))"
  using assms
proof (induction d msk n cur nxt j rule: vqueue_shift.induct)
  case (1 d msk n cur nxt j)
  note prems = "1.prems"
  show ?case
  proof (cases "j < n")
    case False
    then have "unat j = unat n" using prems(6) by (simp add: word_less_nat_alt)
    then show ?thesis using False prems(3) by (subst vqueue_shift.simps) auto
  next
    case True
    then have jn: "unat j < unat n" by (simp add: word_less_nat_alt)
    have sj: "unat (j + 1) = Suc (unat j)" using True by (rule unat_inc_less)
    have Cp: "0 < unat cap" using prems(1) by (rule pow2_pos)
    obtain x where x: "rotate h d ! unat j = Some x" using prems(9) jn by auto
    have rdx: "rd d nxt = Some x"
      using x prems(3,4,8) jn Cp by (simp add: rd_def nth_rotate)
    define d1 where "d1 = d[unat cur := Some x]"
    have wrx: "wr d cur x = Some d1"
      using prems(3,7) Cp by (simp add: wr_def d1_def)
    have view: "rotate h d1 = (rotate h d)[unat j - 1 := Some x]"
      using rotate_update [of "unat j - 1" d h "Some x"] prems(3,4,7) jn
      by (simp add: d1_def)
    have nxt: "unat ((nxt + 1) AND msk) = (h + unat (j + 1)) mod unat cap"
      using prems(1,2,8) by (simp add: unat_and_mask unat_add_mod sj mod_simps)
    have "\<exists>d'. vqueue_shift d1 msk n nxt ((nxt + 1) AND msk) (j + 1) = Some d' \<and> length d' = unat cap
      \<and> (\<forall>i < unat cap. rotate h d' ! i = (if unat (j + 1) - 1 \<le> i \<and> Suc i < unat n
            then rotate h d1 ! Suc i else rotate h d1 ! i))"
    proof (rule "1.IH" [OF True rdx wrx prems(1,2)])
      show "\<forall>i < unat n. rotate h d1 ! i \<noteq> None"
      proof (intro allI impI)
        fix i assume "i < unat n"
        then show "rotate h d1 ! i \<noteq> None"
          using prems(3,4,9) by (cases "i = unat j - 1") (simp_all add: view)
      qed
    qed (use prems jn sj nxt in \<open>simp_all add: d1_def\<close>)
    then obtain d' where d': "vqueue_shift d1 msk n nxt ((nxt + 1) AND msk) (j + 1) = Some d'"
        "length d' = unat cap" "\<forall>i < unat cap. rotate h d' ! i = (if unat j \<le> i \<and> Suc i < unat n
            then rotate h d1 ! Suc i else rotate h d1 ! i)"
      by (auto simp: sj)
    have "rotate h d' ! i = (if unat j - 1 \<le> i \<and> Suc i < unat n then rotate h d ! Suc i else rotate h d ! i)"
      if "i < unat cap" for i
      using d'(3) that x jn prems(3-5) by (auto simp: view nth_list_update)
    then show ?thesis
      using d'(1,2) True rdx wrx by (subst vqueue_shift.simps) simp
  qed
qed

lemma vqueue_shift_rep:
  assumes rep: "q_rep q xs" and k: "k < length xs" "unat i = k"
    and idx: "unat idx = (unat (q_head q) + k) mod unat (q_cap q)"
  shows "\<exists>d. vqueue_shift (q_data q) (q_mask q) (q_size q) idx ((idx + 1) AND q_mask q) (i + 1) = Some d
    \<and> q_rep (q\<lparr>q_data := d, q_tail := (q_tail q + q_mask q) AND q_mask q, q_size := q_size q - 1\<rparr>)
        (take k xs @ drop (Suc k) xs)"
proof -
  note r = q_repD [OF rep]
  let ?h = "unat (q_head q)" and ?C = "unat (q_cap q)"
  have si: "unat (i + 1) = Suc k"
    using k r(5) by (simp add: unat_inc_less [of i "q_size q"] word_less_nat_alt)
  have nxt: "unat ((idx + 1) AND q_mask q) = (?h + unat (i + 1)) mod ?C"
    using r(1,2) idx by (simp add: unat_and_mask unat_add_mod si mod_simps)
  have view: "rotate ?h (q_data q) ! j = Some (xs ! j)" if "j < length xs" for j
    using r(9) that by (metis nth_map nth_take)
  have "\<exists>d. vqueue_shift (q_data q) (q_mask q) (q_size q) idx ((idx + 1) AND q_mask q) (i + 1) = Some d
    \<and> length d = ?C \<and> (\<forall>j < ?C. rotate ?h d ! j = (if unat (i + 1) - 1 \<le> j \<and> Suc j < unat (q_size q)
         then rotate ?h (q_data q) ! Suc j else rotate ?h (q_data q) ! j))"
    using r k idx nxt si view by (intro vqueue_shift_view) simp_all
  then obtain d where d: "vqueue_shift (q_data q) (q_mask q) (q_size q) idx ((idx + 1) AND q_mask q) (i + 1) = Some d"
      "length d = ?C" "\<forall>j < ?C. rotate ?h d ! j = (if k \<le> j \<and> Suc j < length xs
         then rotate ?h (q_data q) ! Suc j else rotate ?h (q_data q) ! j)"
    using si r(5) by auto
  have tk: "take (length xs - 1) (rotate ?h d) = map Some (take k xs @ drop (Suc k) xs)"
  proof (rule nth_equalityI)
    show len: "length (take (length xs - 1) (rotate ?h d)) = length (map Some (take k xs @ drop (Suc k) xs))"
      using d(2) r(6) k by simp
    fix j assume "j < length (take (length xs - 1) (rotate ?h d))"
    then have j: "Suc j < length xs" using k by (simp add: less_diff_conv)
    then show "take (length xs - 1) (rotate ?h d) ! j = map Some (take k xs @ drop (Suc k) xs) ! j"
      using d(3) r(6) k view [of j] view [of "Suc j"] by (auto simp: nth_append)
  qed
  have "(unat (q_tail q) + (?C - 1)) mod ?C = (?h + (length xs - 1)) mod ?C"
  proof -
    have "(unat (q_tail q) + (?C - 1)) mod ?C = (?h + length xs + (?C - 1)) mod ?C"
      using r(7) by (simp only: mod_add_left_eq)
    also have "?h + length xs + (?C - 1) = ?h + (length xs - 1) + ?C"
      using k pow2_pos [OF r(1)] by simp
    finally show ?thesis by simp
  qed
  then have "unat ((q_tail q + q_mask q) AND q_mask q) = (?h + (length xs - 1)) mod ?C"
    using r(1,2) pow2_pos [OF r(1)] by (simp add: unat_and_mask unat_add_mod unat_sub_small)
  then have "q_rep (q\<lparr>q_data := d, q_tail := (q_tail q + q_mask q) AND q_mask q, q_size := q_size q - 1\<rparr>)
        (take k xs @ drop (Suc k) xs)"
    using r d(2) tk k by (simp add: q_rep_def unat_sub_small)
  then show ?thesis using d(1) by blast
qed

lemma vqueue_remove_rep:
  assumes rep: "q_rep q xs" and "unat i \<le> length xs"
    and "unat idx = (unat (q_head q) + unat i) mod unat (q_cap q)"
    and "v \<notin> set (take (unat i) xs)"
  shows "\<exists>q'. vqueue_remove q v idx i = Some (if v \<in> set xs then 1 else 0, q') \<and> q_rep q' (remove1 v xs)"
  using assms
proof (induction q v idx i rule: vqueue_remove.induct)
  case (1 q v idx i)
  note prems = "1.prems"
  note r = q_repD [OF prems(1)]
  show ?case
  proof (cases "i < q_size q")
    case False
    then have "unat i = length xs" using prems(2) r(5) by (simp add: word_less_nat_alt)
    then show ?thesis
      using False prems(1,4) by (subst vqueue_remove.simps) (simp add: remove1_idem)
  next
    case True
    then have i: "unat i < length xs" using r(5) by (simp add: word_less_nat_alt)
    have x: "rd (q_data q) idx = Some (xs ! unat i)"
      using q_rep_rd [OF prems(1) i prems(3)] .
    show ?thesis
    proof (cases "xs ! unat i = v")
      case hit: True
      have "xs = take (unat i) xs @ v # drop (Suc (unat i)) xs"
        using i hit by (metis id_take_nth_drop)
      then have "remove1 v xs = take (unat i) xs @ drop (Suc (unat i)) xs"
        using prems(4) by (metis remove1_append remove1.simps(2))
      moreover have "v \<in> set xs" using hit i nth_mem by blast
      ultimately show ?thesis
        using True x hit vqueue_shift_rep [OF prems(1) i refl prems(3)]
        by (subst vqueue_remove.simps) auto
    next
      case miss: False
      have si: "unat (i + 1) = Suc (unat i)" using True by (rule unat_inc_less)
      have nxt: "unat ((idx + 1) AND q_mask q) = (unat (q_head q) + unat (i + 1)) mod unat (q_cap q)"
        using r(1,2) prems(3) by (simp add: unat_and_mask unat_add_mod si mod_simps)
      have "v \<notin> set (take (unat (i + 1)) xs)"
        using prems(4) i miss by (simp add: si take_Suc_conv_app_nth)
      then have "\<exists>q'. vqueue_remove q v ((idx + 1) AND q_mask q) (i + 1)
          = Some (if v \<in> set xs then 1 else 0, q') \<and> q_rep q' (remove1 v xs)"
        using "1.IH" [OF True x miss prems(1)] i nxt si by simp
      then show ?thesis using True x miss by (subst vqueue_remove.simps) simp
    qed
  qed
qed

section \<open>Every operation refines its list operation\<close>

lemma queue_has_put [simp, intro]: "h \<noteq> 0 \<Longrightarrow> q_rep q xs \<Longrightarrow> queue_has (put OQueue s h q) h xs"
  by (auto simp: queue_has_def)

lemma queue_has_unique: "queue_has s h xs \<Longrightarrow> queue_has s h ys \<Longrightarrow> xs = ys"
  by (auto simp: queue_has_def dest: q_rep_unique)

lemma queue_push_ok:
  assumes h: "h \<noteq> 0" and q: "deref as_queue s h = Some q" and rep: "q_rep q xs" and room: "q_room s q"
  shows "\<exists>s'. vcol_queue_push s h v = Some (of_nat (Suc (length xs)), s')
    \<and> queue_has s' h (xs @ [v]) \<and> only_changes h s s'"
proof -
  obtain q' s' where g: "(if q_size q = q_cap q then vqueue_grow s q else Some (True, q, s)) = Some (True, q', s')"
      "q_rep q' xs" "length xs < unat (q_cap q')" "only_changes h s s'"
    using queue_guard(1) [OF rep room] by blast
  obtain d where "wr (q_data q') (q_tail q') v = Some d"
      "q_rep (q'\<lparr>q_data := d, q_tail := (q_tail q' + 1) AND q_mask q', q_size := q_size q' + 1\<rparr>) (xs @ [v])"
    using q_rep_push [OF g(2,3)] by blast
  then show ?thesis
    using h q g q_rep_size [OF g(2)] by (auto simp: vcol_queue_push_def)
qed

lemma deque_push_front_ok:
  assumes h: "h \<noteq> 0" and q: "deref as_queue s h = Some q" and rep: "q_rep q xs" and room: "q_room s q"
  shows "\<exists>s'. vcol_deque_push_front s h v = Some (of_nat (Suc (length xs)), s')
    \<and> queue_has s' h (v # xs) \<and> only_changes h s s'"
proof -
  obtain q' s' where g: "(if q_size q = q_cap q then vqueue_grow s q else Some (True, q, s)) = Some (True, q', s')"
      "q_rep q' xs" "length xs < unat (q_cap q')" "only_changes h s s'"
    using queue_guard(1) [OF rep room] by blast
  obtain d where "wr (q_data q') ((q_head q' - 1) AND q_mask q') v = Some d"
      "q_rep (q'\<lparr>q_head := (q_head q' - 1) AND q_mask q', q_data := d, q_size := q_size q' + 1\<rparr>) (v # xs)"
    using q_rep_push_front [OF g(2,3)] by blast
  then show ?thesis
    using h q g q_rep_size [OF g(2)] by (auto simp: vcol_deque_push_front_def)
qed

lemma queue_push_full:
  assumes "h \<noteq> 0" and "deref as_queue s h = Some q" and rep: "q_rep q xs" and "\<not> q_room s q"
  shows "vcol_queue_push s h v = Some (VCOL_NOT_FOUND, after_malloc s)"
    and "vcol_deque_push_front s h v = Some (VCOL_NOT_FOUND, after_malloc s)"
  using assms queue_guard(2) [OF rep]
  by (simp_all add: vcol_queue_push_def vcol_deque_push_front_def)

lemma queue_pop_ok:
  assumes "queue_has s h (x # xs)"
  shows "\<exists>s'. vcol_queue_pop s h = Some (x, s') \<and> queue_has s' h xs \<and> only_changes h s s'"
proof -
  obtain q where q: "h \<noteq> 0" "deref as_queue s h = Some q" "q_rep q (x # xs)"
    using assms by (auto simp: queue_has_def)
  then show ?thesis
    using q_rep_pop [OF q(3)] q_rep_empty [OF q(3)] by (auto simp: vcol_queue_pop_def)
qed

lemma deque_pop_back_ok:
  assumes "queue_has s h (xs @ [x])"
  shows "\<exists>s'. vcol_deque_pop_back s h = Some (x, s') \<and> queue_has s' h xs \<and> only_changes h s s'"
proof -
  obtain q where q: "h \<noteq> 0" "deref as_queue s h = Some q" "q_rep q (xs @ [x])"
    using assms by (auto simp: queue_has_def)
  then show ?thesis
    using q_rep_back [OF q(3)] q_rep_empty [OF q(3)] by (auto simp: vcol_deque_pop_back_def)
qed

lemma queue_pop_empty:
  "queue_has s h [] \<Longrightarrow> vcol_queue_pop s h = Some (VCOL_NOT_FOUND, s)"
  "queue_has s h [] \<Longrightarrow> vcol_deque_pop_back s h = Some (VCOL_NOT_FOUND, s)"
  by (auto simp: queue_has_def vcol_queue_pop_def vcol_deque_pop_back_def q_rep_empty)

lemma queue_peek_eq:
  assumes "queue_has s h xs"
  shows "vcol_queue_peek s h = Some (if xs = [] then VCOL_NOT_FOUND else hd xs)"
  using assms q_rep_pop(1) by (cases xs) (auto simp: queue_has_def vcol_queue_peek_def q_rep_empty)

lemma deque_peek_back_eq:
  assumes "queue_has s h xs"
  shows "vcol_deque_peek_back s h = Some (if xs = [] then VCOL_NOT_FOUND else last xs)"
  using assms q_rep_back(2)
  by (cases xs rule: rev_cases) (auto simp: queue_has_def vcol_deque_peek_back_def q_rep_empty)

lemma queue_size_eq: "queue_has s h xs \<Longrightarrow> vcol_queue_size s h = Some (of_nat (length xs))"
  by (auto simp: queue_has_def vcol_queue_size_def q_rep_size)

lemma queue_clear_ok:
  "queue_has s h xs \<Longrightarrow> \<exists>s'. vcol_queue_clear s h = Some s' \<and> queue_has s' h [] \<and> only_changes h s s'"
  by (auto simp: queue_has_def vcol_queue_clear_def intro!: q_rep_clear)

lemma queue_remove_ok:
  assumes "queue_has s h xs"
  shows "\<exists>s'. vcol_queue_remove_value s h v = Some (if v \<in> set xs then 1 else 0, s')
    \<and> queue_has s' h (remove1 v xs) \<and> only_changes h s s'"
proof -
  obtain q where q: "h \<noteq> 0" "deref as_queue s h = Some q" "q_rep q xs"
    using assms by (auto simp: queue_has_def)
  show ?thesis
  proof (cases "xs = []")
    case True
    then show ?thesis
      using assms q q_rep_empty [OF q(3)] by (auto simp: vcol_queue_remove_value_def)
  next
    case False
    obtain q' where "vqueue_remove q v (q_head q) 0 = Some (if v \<in> set xs then 1 else 0, q')"
        "q_rep q' (remove1 v xs)"
      using vqueue_remove_rep [OF q(3), of 0 "q_head q" v] q_repD(4) [OF q(3)] by auto
    then show ?thesis
      using False q q_rep_empty [OF q(3)] by (auto simp: vcol_queue_remove_value_def)
  qed
qed

lemma queue_free_ok:
  "queue_has s h xs \<Longrightarrow> vcol_queue_free s h = Some (s\<lparr>objs := (objs s)(h := None)\<rparr>)"
  by (auto simp: queue_has_def vcol_queue_free_def free_obj_def dest: queue_kind.deref_SomeD)

section \<open>Creation\<close>

lemma queue_new_eq:
  "vcol_queue_new s c =
     (let cap = next_pow2 (if c < VQUEUE_MIN_CAP then VQUEUE_MIN_CAP else c); q = fst (malloc s 48);
          s1 = after_malloc s; s2 = after_malloc s1
      in if q = 0 then (VCOL_NULL, s1)
         else if fst (malloc s1 (cap * 8)) = 0 then (VCOL_NULL, s2)
         else (q, put OQueue s2 q \<lparr>q_data = new_buf 8 (cap * 8), q_cap = cap, q_mask = cap - 1,
                                   q_head = 0, q_tail = 0, q_size = 0\<rparr>))"
  by (simp add: vcol_queue_new_def case_prod_beta Let_def)

lemma queue_new_cases:
  assumes c: "unat c \<le> 2 ^ 60" and new: "vcol_queue_new s c = (h, s')"
  shows "h = VCOL_NULL \<and> objs s' = objs s \<or> h \<noteq> 0 \<and> objs s h = None \<and> queue_has s' h []"
    and "only_changes h s s'"
proof -
  define n where "n = (if c < VQUEUE_MIN_CAP then VQUEUE_MIN_CAP else c)"
  have n: "16 \<le> unat n" "unat n \<le> 2 ^ 60"
    using c by (auto simp: n_def VQUEUE_MIN_CAP_def word_less_nat_alt)
  then have np: "pow2 (next_pow2 n)" "unat (next_pow2 n) < 2 ^ 61" using next_pow2_ok [of n] by auto
  have rep: "q_rep \<lparr>q_data = new_buf 8 (next_pow2 n * 8), q_cap = next_pow2 n, q_mask = next_pow2 n - 1,
      q_head = 0, q_tail = 0, q_size = 0\<rparr> []" if ok: "fst (malloc s0 (next_pow2 n * 8)) \<noteq> 0" for s0
  proof -
    have "unat (next_pow2 n * 8) = unat (next_pow2 n) * 8" using np by (subst unat_mult_small) simp_all
    then show ?thesis
      using np malloc_bound [OF ok] pow2_pos [OF np(1)] by (simp add: q_rep_def new_buf_def)
  qed
  show "h = VCOL_NULL \<and> objs s' = objs s \<or> h \<noteq> 0 \<and> objs s h = None \<and> queue_has s' h []"
    using new rep malloc_fresh [of s 48]
    by (auto simp: queue_new_eq Let_def n_def [symmetric] split: if_splits)
  show "only_changes h s s'"
    using new by (auto simp: queue_new_eq Let_def only_changes_def split: if_splits)
qed

section \<open>The component as a whole\<close>

datatype queue_cmd =
    QPush u64 | QPop | QPeek | QSize | QRemoveValue u64 | QClear
  | DPushBack u64 | DPushFront u64 | DPopFront | DPopBack | DPeekFront | DPeekBack | DSize | DClear

fun queue_exec :: "store \<Rightarrow> u64 \<Rightarrow> queue_cmd \<Rightarrow> (u64 \<times> store) option" where
  "queue_exec s h (QPush v) = vcol_queue_push s h v"
| "queue_exec s h QPop = vcol_queue_pop s h"
| "queue_exec s h QPeek = map_option (\<lambda>r. (r, s)) (vcol_queue_peek s h)"
| "queue_exec s h QSize = map_option (\<lambda>r. (r, s)) (vcol_queue_size s h)"
| "queue_exec s h (QRemoveValue v) = vcol_queue_remove_value s h v"
| "queue_exec s h QClear = map_option (\<lambda>s. (0, s)) (vcol_queue_clear s h)"
| "queue_exec s h (DPushBack v) = vcol_deque_push_back s h v"
| "queue_exec s h (DPushFront v) = vcol_deque_push_front s h v"
| "queue_exec s h DPopFront = vcol_deque_pop_front s h"
| "queue_exec s h DPopBack = vcol_deque_pop_back s h"
| "queue_exec s h DPeekFront = map_option (\<lambda>r. (r, s)) (vcol_deque_peek_front s h)"
| "queue_exec s h DPeekBack = map_option (\<lambda>r. (r, s)) (vcol_deque_peek_back s h)"
| "queue_exec s h DSize = map_option (\<lambda>r. (r, s)) (vcol_deque_size s h)"
| "queue_exec s h DClear = map_option (\<lambda>s. (0, s)) (vcol_deque_clear s h)"

definition spec_front :: "u64 list \<Rightarrow> u64" where
  "spec_front xs = (if xs = [] then VCOL_NOT_FOUND else hd xs)"

definition spec_back :: "u64 list \<Rightarrow> u64" where
  "spec_back xs = (if xs = [] then VCOL_NOT_FOUND else last xs)"

fun queue_spec :: "u64 list \<Rightarrow> queue_cmd \<Rightarrow> u64 \<times> u64 list" where
  "queue_spec xs (QPush v) = (of_nat (Suc (length xs)), xs @ [v])"
| "queue_spec xs QPop = (spec_front xs, tl xs)"
| "queue_spec xs QPeek = (spec_front xs, xs)"
| "queue_spec xs QSize = (of_nat (length xs), xs)"
| "queue_spec xs (QRemoveValue v) = (if v \<in> set xs then 1 else 0, remove1 v xs)"
| "queue_spec xs QClear = (0, [])"
| "queue_spec xs (DPushBack v) = (of_nat (Suc (length xs)), xs @ [v])"
| "queue_spec xs (DPushFront v) = (of_nat (Suc (length xs)), v # xs)"
| "queue_spec xs DPopFront = (spec_front xs, tl xs)"
| "queue_spec xs DPopBack = (spec_back xs, butlast xs)"
| "queue_spec xs DPeekFront = (spec_front xs, xs)"
| "queue_spec xs DPeekBack = (spec_back xs, xs)"
| "queue_spec xs DSize = (of_nat (length xs), xs)"
| "queue_spec xs DClear = (0, [])"

fun queue_grows :: "queue_cmd \<Rightarrow> bool" where
  "queue_grows (QPush v) = True"
| "queue_grows (DPushBack v) = True"
| "queue_grows (DPushFront v) = True"
| "queue_grows _ = False"

definition queue_refused :: "store \<Rightarrow> u64 \<Rightarrow> queue_cmd \<Rightarrow> bool" where
  "queue_refused s h c \<longleftrightarrow> queue_grows c \<and> (\<exists>q. deref as_queue s h = Some q \<and> \<not> q_room s q)"

lemmas deque_wrappers =
  vcol_deque_push_back_def vcol_deque_pop_front_def vcol_deque_peek_front_def
  vcol_deque_size_def vcol_deque_clear_def

lemma queue_pop_front_spec:
  assumes "queue_has s h xs"
  shows "\<exists>s'. vcol_queue_pop s h = Some (spec_front xs, s') \<and> queue_has s' h (tl xs) \<and> only_changes h s s'"
  using assms queue_pop_ok queue_pop_empty(1) by (cases xs) (fastforce simp: spec_front_def)+

lemma queue_pop_back_spec:
  assumes "queue_has s h xs"
  shows "\<exists>s'. vcol_deque_pop_back s h = Some (spec_back xs, s') \<and> queue_has s' h (butlast xs)
    \<and> only_changes h s s'"
  using assms deque_pop_back_ok queue_pop_empty(2)
  by (cases xs rule: rev_cases) (fastforce simp: spec_back_def)+

lemma queue_exec_ok:
  assumes has: "queue_has s h xs" and ok: "\<not> queue_refused s h c"
  shows "\<exists>s'. queue_exec s h c = Some (fst (queue_spec xs c), s')
    \<and> queue_has s' h (snd (queue_spec xs c)) \<and> only_changes h s s'"
proof -
  obtain q where q: "h \<noteq> 0" "deref as_queue s h = Some q" "q_rep q xs"
    using has by (auto simp: queue_has_def)
  have room: "q_room s q" if "queue_grows c" using ok q that by (auto simp: queue_refused_def)
  note reads = queue_peek_eq [OF has] deque_peek_back_eq [OF has] queue_size_eq [OF has]
  show ?thesis
    using room has queue_push_ok [OF q] deque_push_front_ok [OF q] queue_pop_front_spec [OF has]
      queue_pop_back_spec [OF has] queue_remove_ok [OF has] queue_clear_ok [OF has] reads
    by (cases c) (auto simp: deque_wrappers spec_front_def spec_back_def)
qed

lemma queue_exec_refused:
  assumes has: "queue_has s h xs" and no: "queue_refused s h c"
  shows "queue_exec s h c = Some (VCOL_NOT_FOUND, after_malloc s)"
  using assms by (cases c) (auto simp: queue_refused_def queue_has_def queue_push_full deque_wrappers)

interpretation queue_api: collection_api queue_exec queue_spec queue_has queue_grows queue_refused
proof unfold_locales
  show "queue_has s h xs \<Longrightarrow> \<not> queue_refused s h c \<Longrightarrow>
      \<exists>s'. queue_exec s h c = Some (fst (queue_spec xs c), s')
        \<and> queue_has s' h (snd (queue_spec xs c)) \<and> only_changes h s s'" for s h xs c
    by (rule queue_exec_ok)
  show "queue_has s h xs \<Longrightarrow> queue_refused s h c \<Longrightarrow> queue_grows c \<and>
      (\<exists>s'. queue_exec s h c = Some (VCOL_NOT_FOUND, s') \<and> queue_has s' h xs \<and> only_changes h s s')"
    for s h xs c
    using queue_exec_refused by (auto simp: queue_refused_def queue_has_def)
qed

section \<open>Properties\<close>

text \<open>An example: a ring of sixteen slots whose two elements wrap around its end.\<close>

definition queue_demo :: store where
  "queue_demo = put OQueue demo_store 4096
     \<lparr>q_data = Some 9 # replicate 14 None @ [Some 7], q_cap = 16, q_mask = 15,
      q_head = 15, q_tail = 1, q_size = 2\<rparr>"

lemma queue_demo_has: "queue_has queue_demo 4096 [7, 9]"
proof -
  have "pow2 16" unfolding pow2_def by (rule exI [of _ 4]) simp
  moreover have "rotate 15 (Some (9 :: u64) # replicate 14 None @ [Some 7]) = [Some 7, Some 9] @ replicate 14 None"
    by (simp add: rotate_drop_take)
  ultimately show ?thesis by (simp add: queue_has_def queue_demo_def q_rep_def)
qed

lemma queue_demo_room: "\<not> queue_refused queue_demo 4096 c"
  by (simp add: queue_refused_def queue_demo_def q_room_def)

text \<open>C35. Every queue and deque call on a live handle returns, changes no other object, and does exactly
  what the operation on the list of elements does, wherever the ring wraps; the one exception is a push on a
  full ring that the allocator refuses to double, which reports \<^verbatim>\<open>VCOL_NOT_FOUND\<close> and changes nothing.\<close>

theorem queue_call_refines:
  assumes "queue_has s h xs"
  shows "\<exists>s'. only_changes h s s' \<and>
    (if queue_refused s h c
     then queue_exec s h c = Some (VCOL_NOT_FOUND, s') \<and> queue_has s' h xs
     else queue_exec s h c = Some (fst (queue_spec xs c), s') \<and> queue_has s' h (snd (queue_spec xs c)))"
  using queue_api.call_ok [OF assms] queue_api.call_refused [OF assms] by (cases "queue_refused s h c") auto

theorem queue_call_refines_witness:
  "\<exists>s'. queue_exec queue_demo 4096 (DPushFront 5) = Some (3, s') \<and> queue_has s' 4096 [5, 7, 9]"
  using queue_call_refines [OF queue_demo_has, of "DPushFront 5"] queue_demo_room [of "DPushFront 5"]
  by auto

text \<open>A whole sequence of queue and deque calls on one handle returns, with the results and the final
  contents of a run of the list operations in which only pushes may have been refused.\<close>

theorem queue_run_refines:
  assumes "queue_has s h xs"
  shows "\<exists>rs s' xs'. run_calls queue_exec s h cs = Some (rs, s') \<and> queue_has s' h xs'
    \<and> spec_run queue_spec queue_grows xs cs rs xs' \<and> only_changes h s s'"
  using assms by (rule queue_api.run_refines)

theorem queue_run_refines_witness:
  "\<exists>s'. run_calls queue_exec queue_demo 4096 [QRemoveValue 9, QPop, QPop]
     = Some ([1, 7, VCOL_NOT_FOUND], s') \<and> queue_has s' 4096 []"
  using queue_run_refines [OF queue_demo_has, of "[QRemoveValue 9, QPop, QPop]"]
  by (auto elim!: spec_run_ConsE spec_run_NilE simp: spec_front_def)

text \<open>Creating a queue either fails with the null handle, changing no object, or returns a fresh handle
  that denotes the empty queue; its capacity is a power of two, at least the requested one and less than
  twice the larger of it and the minimum.\<close>

theorem queue_new_fresh:
  assumes "unat c \<le> 2 ^ 60"
  shows "\<exists>h s'. vcol_queue_new s c = (h, s') \<and> only_changes h s s'
    \<and> (h = VCOL_NULL \<and> objs s' = objs s
       \<or> h \<noteq> 0 \<and> objs s h = None \<and> queue_has s' h []
         \<and> (\<exists>q. deref as_queue s' h = Some q \<and> pow2 (q_cap q) \<and> unat c \<le> unat (q_cap q)
              \<and> unat (q_cap q) < 2 * max 16 (unat c)))"
proof -
  obtain h s' where new: "vcol_queue_new s c = (h, s')" by fastforce
  define n where "n = (if c < VQUEUE_MIN_CAP then VQUEUE_MIN_CAP else c)"
  have n: "unat n = max 16 (unat c)"
    by (auto simp: n_def VQUEUE_MIN_CAP_def word_less_nat_alt max_def)
  then have "unat n \<le> 2 ^ 63" using assms by simp
  note np = next_pow2_ok [OF this]
  have "\<exists>q. deref as_queue s' h = Some q \<and> q_cap q = next_pow2 n" if "h \<noteq> 0"
    using new that
    by (auto simp: queue_new_eq Let_def n_def [symmetric] VCOL_NULL_def split: if_splits)
  then have "h \<noteq> 0 \<Longrightarrow> \<exists>q. deref as_queue s' h = Some q \<and> pow2 (q_cap q) \<and> unat c \<le> unat (q_cap q)
              \<and> unat (q_cap q) < 2 * max 16 (unat c)"
    using np n by fastforce
  then show ?thesis using new queue_new_cases [OF assms new] by blast
qed

theorem queue_new_fresh_witness:
  "\<exists>h s'. vcol_queue_new demo_store 3 = (h, s') \<and> (h = VCOL_NULL \<or> queue_has s' h [])"
proof -
  have "unat (3 :: u64) \<le> 2 ^ 60" by simp
  then show ?thesis using queue_new_fresh [of 3 demo_store] by blast
qed

text \<open>A requested capacity above \<open>2 ^ 63\<close> is not rejected: \<^verbatim>\<open>next_pow2\<close> wraps to zero, the ring gets no
  slot and the mask of all ones, and the first push, finding size and capacity equal, doubles zero
  and writes outside the block, unless the allocator refuses the empty block.\<close>

theorem queue_new_wraps:
  assumes "2 ^ 63 < unat c" and "vcol_queue_new s c = (h, s')" and "h \<noteq> 0"
  shows "next_pow2 c = 0 \<and> (vcol_queue_push s' h v = None \<or> vcol_queue_push s' h v = Some (VCOL_NOT_FOUND, after_malloc s'))"
proof -
  have "\<not> c < VQUEUE_MIN_CAP" using assms(1) by (simp add: VQUEUE_MIN_CAP_def word_less_nat_alt)
  moreover have w: "next_pow2 c = 0" using assms(1) by (rule next_pow2_wraps)
  ultimately have s': "deref as_queue s' h
      = Some \<lparr>q_data = [], q_cap = 0, q_mask = - 1, q_head = 0, q_tail = 0, q_size = 0\<rparr>"
    using assms(2,3) by (auto simp: queue_new_eq Let_def VCOL_NULL_def new_buf_def split: if_splits)
  show ?thesis
    using assms(3) w s' malloc_eq [of s' 0]
    by (auto simp: vcol_queue_push_def vqueue_grow_def new_buf_def wr_def memcpy_def Let_def
        split: prod.splits if_splits)
qed

theorem queue_new_wraps_witness:
  "\<exists>h s'. vcol_queue_new demo_store (2 ^ 63 + 1) = (h, s') \<and> h \<noteq> 0
     \<and> (vcol_queue_push s' h 1 = None \<or> vcol_queue_push s' h 1 = Some (VCOL_NOT_FOUND, after_malloc s'))"
proof -
  obtain h s' where new: "vcol_queue_new demo_store (2 ^ 63 + 1) = (h, s')" by fastforce
  have c: "2 ^ 63 < unat (2 ^ 63 + 1 :: u64)" by simp
  have "next_pow2 (2 ^ 63 + 1) = 0" using c by (rule next_pow2_wraps)
  then have "fst (vcol_queue_new demo_store (2 ^ 63 + 1)) \<noteq> 0"
    by (simp add: vcol_queue_new_def malloc_def PTRDIFF_MAX_def VQUEUE_MIN_CAP_def VCOL_NULL_def)
  then show ?thesis using queue_new_wraps [OF c new] new by auto
qed

end
