(* ===== verification/Vcol_Arr.thy ===== *)
theory Vcol_Arr
  imports Vcol_DArr
begin

text \<open>
  The array operations \<^verbatim>\<open>varr_*\<close> of \<^verbatim>\<open>vesta_collections.c\<close>.  They work in place on \<open>n\<close> elements
  behind a raw host pointer: \<open>None\<close> is the null pointer, \<open>Some b\<close> the block it points to.
\<close>

section \<open>The operations\<close>

definition varr_cmp_u64_asc :: "u64 \<Rightarrow> u64 \<Rightarrow> int" where
  "varr_cmp_u64_asc va vb = c_bool (va > vb) - c_bool (va < vb)"

definition varr_cmp_u64_desc :: "u64 \<Rightarrow> u64 \<Rightarrow> int" where
  "varr_cmp_u64_desc va vb = c_bool (va < vb) - c_bool (va > vb)"

definition varr_sort_u64 :: "u64 buf option \<Rightarrow> u64 \<Rightarrow> u64 buf option option" where
  "varr_sort_u64 p n =
     (case p of None \<Rightarrow> Some None
      | Some b \<Rightarrow> if n < 2 then Some p else map_option Some (qsort b n varr_cmp_u64_asc))"

definition varr_sort_u64_desc :: "u64 buf option \<Rightarrow> u64 \<Rightarrow> u64 buf option option" where
  "varr_sort_u64_desc p n =
     (case p of None \<Rightarrow> Some None
      | Some b \<Rightarrow> if n < 2 then Some p else map_option Some (qsort b n varr_cmp_u64_desc))"

lemma unat_half: "unat (drop_bit (Suc 0) (len :: u64)) = unat len div 2"
  unfolding unsigned_drop_bit_eq by (simp add: drop_bit_Suc take_bit_nat_eq_self)

text \<open>The loop of the branchless binary search: \<open>[lo, lo + len)\<close> is what is left to search.\<close>

function varr_bsearch_loop :: "u64 buf \<Rightarrow> u64 \<Rightarrow> u64 \<Rightarrow> u64 \<Rightarrow> u64 option" where
  "varr_bsearch_loop p key lo len =
     (if len > 0
      then do {
        let half = drop_bit 1 len;
        let mid = lo + half;
        x \<leftarrow> rd p mid;
        varr_bsearch_loop p key (if x < key then mid + 1 else lo)
          (if x < key then len - half - 1 else half)
      }
      else Some lo)"
  by pat_completeness auto
termination
proof (relation "measure (\<lambda>(p, key, lo, len). unat len)")
  fix p :: "u64 buf" and key lo len half mid x :: u64
  assume "len > 0" and h: "half = drop_bit 1 len"
  then have "unat half < unat len" by (simp add: unat_half word_less_nat_alt)
  then have "unat (len - half - 1) < unat len" by (simp add: unat_sub_small)
  with \<open>unat half < unat len\<close>
  show "((p, key, if x < key then mid + 1 else lo, if x < key then len - half - 1 else half),
      p, key, lo, len) \<in> measure (\<lambda>(p, key, lo, len). unat len)"
    by simp
qed simp

definition varr_bsearch_u64 :: "u64 buf option \<Rightarrow> u64 \<Rightarrow> u64 \<Rightarrow> u64 option" where
  "varr_bsearch_u64 p n key =
     (case p of None \<Rightarrow> Some VCOL_NOT_FOUND
      | Some b \<Rightarrow>
          if n = 0 then Some VCOL_NOT_FOUND
          else do {
            lo \<leftarrow> varr_bsearch_loop b key 0 n;
            if lo < n then do { x \<leftarrow> rd b lo; Some (if x = key then lo else VCOL_NOT_FOUND) }
            else Some VCOL_NOT_FOUND
          })"

definition varr_indexof_u64 :: "u64 buf option \<Rightarrow> u64 \<Rightarrow> u64 \<Rightarrow> u64 option" where
  "varr_indexof_u64 p n key =
     (case p of None \<Rightarrow> Some VCOL_NOT_FOUND | Some b \<Rightarrow> scan_eq b n key 0)"

function varr_reverse_loop :: "u64 buf \<Rightarrow> u64 \<Rightarrow> u64 \<Rightarrow> u64 buf option" where
  "varr_reverse_loop p i j =
     (if i < j
      then do {
        tmp \<leftarrow> rd p i;
        y \<leftarrow> rd p j;
        p \<leftarrow> wr p i y;
        p \<leftarrow> wr p j tmp;
        varr_reverse_loop p (i + 1) (j - 1)
      }
      else Some p)"
  by pat_completeness auto
termination
proof (relation "measure (\<lambda>(p, i, j). unat j - unat i)")
  fix p p1 p2 :: "u64 buf" and i j x y :: u64
  assume "i < j"
  then have "unat (i + 1) = Suc (unat i)" "unat i < unat j"
    by (simp_all add: unat_inc_less word_less_nat_alt)
  then show "((p2, i + 1, j - 1), p, i, j) \<in> measure (\<lambda>(p, i, j). unat j - unat i)"
    by (simp add: unat_sub_small)
qed simp

definition varr_reverse_u64 :: "u64 buf option \<Rightarrow> u64 \<Rightarrow> u64 buf option option" where
  "varr_reverse_u64 p n =
     (case p of None \<Rightarrow> Some None
      | Some b \<Rightarrow> if n < 2 then Some p else map_option Some (varr_reverse_loop b 0 (n - 1)))"

declare varr_bsearch_loop.simps [simp del] varr_reverse_loop.simps [simp del]

section \<open>Sorting\<close>

lemma varr_cmp_asc_le: "varr_cmp_u64_asc x y \<le> 0 \<longleftrightarrow> x \<le> y"
  by (auto simp: varr_cmp_u64_asc_def c_bool_def)

lemma varr_cmp_desc_le: "varr_cmp_u64_desc x y \<le> 0 \<longleftrightarrow> y \<le> x"
  by (auto simp: varr_cmp_u64_desc_def c_bool_def)

lemma qs_list_desc: "qs_list varr_cmp_u64_desc xs = rev (sort xs)"
proof -
  have "sorted_wrt (\<lambda>x y. varr_cmp_u64_desc x y \<le> 0) (qs_list varr_cmp_u64_desc xs)"
    by (rule qs_list_sorted_wrt) (auto simp: varr_cmp_desc_le)
  then have "sorted (rev (qs_list varr_cmp_u64_desc xs))"
    by (simp add: varr_cmp_desc_le sorted_wrt_rev)
  then have "sort xs = rev (qs_list varr_cmp_u64_desc xs)"
    by (intro properties_for_sort) simp_all
  then show ?thesis by simp
qed

text \<open>The block \<open>b\<close> holds \<open>xs\<close> in its first \<open>n\<close> elements.\<close>

definition arr_has :: "u64 buf \<Rightarrow> u64 \<Rightarrow> u64 list \<Rightarrow> bool" where
  "arr_has b n xs \<longleftrightarrow> unat n = length xs \<and> length xs \<le> length b \<and> take (length xs) b = map Some xs"

lemma arr_has_nth: "arr_has b n xs \<Longrightarrow> i < length xs \<Longrightarrow> b ! i = Some (xs ! i)"
  unfolding arr_has_def by (metis nth_map nth_take)

lemma arr_has_rd: "arr_has b n xs \<Longrightarrow> unat i < length xs \<Longrightarrow> rd b i = Some (xs ! unat i)"
  using arr_has_nth [of b n xs "unat i"] by (simp add: rd_def arr_has_def)

lemma arr_has_qsort:
  assumes "arr_has b n xs"
  shows "\<exists>b'. qsort b n cmp = Some b' \<and> arr_has b' n (qs_list cmp xs) \<and> drop (length xs) b' = drop (length xs) b"
  using assms by (simp add: qsort_def arr_has_def)

lemma small_arr: "arr_has b n xs \<Longrightarrow> n < 2 \<longleftrightarrow> length xs < 2"
  by (simp add: arr_has_def word_less_nat_alt)

lemma short_list_sort: "length xs < 2 \<Longrightarrow> sort xs = xs" "length xs < 2 \<Longrightarrow> rev xs = xs"
  by (cases xs rule: remdups_adj.cases; simp)+

lemma varr_sort_ok:
  assumes "arr_has b n xs"
  shows "\<exists>b'. varr_sort_u64 (Some b) n = Some (Some b') \<and> arr_has b' n (sort xs)"
    and "\<exists>b'. varr_sort_u64_desc (Some b) n = Some (Some b') \<and> arr_has b' n (rev (sort xs))"
  using assms arr_has_qsort [OF assms, of varr_cmp_u64_asc] arr_has_qsort [OF assms, of varr_cmp_u64_desc]
    small_arr [OF assms] qs_list_sort [OF varr_cmp_asc_le, of xs] qs_list_desc [of xs] short_list_sort [of xs]
  by (auto simp: varr_sort_u64_def varr_sort_u64_desc_def)

section \<open>Binary search\<close>

text \<open>The loop returns the lower bound of the key: what is before it is smaller, the rest is not.\<close>

definition lower_bound :: "u64 list \<Rightarrow> u64 \<Rightarrow> nat \<Rightarrow> bool" where
  "lower_bound xs key r \<longleftrightarrow> r \<le> length xs \<and> (\<forall>i < r. xs ! i < key) \<and> (\<forall>i < length xs. r \<le> i \<longrightarrow> key \<le> xs ! i)"

definition searching :: "u64 list \<Rightarrow> u64 \<Rightarrow> nat \<Rightarrow> nat \<Rightarrow> bool" where
  "searching xs key lo len \<longleftrightarrow> lo + len \<le> length xs
     \<and> (\<forall>i < lo. xs ! i < key) \<and> (\<forall>i < length xs. lo + len \<le> i \<longrightarrow> key \<le> xs ! i)"

lemma searching_done: "searching xs key lo 0 \<Longrightarrow> lower_bound xs key lo"
  by (simp add: searching_def lower_bound_def)

lemma searching_right:
  assumes "sorted xs" and "searching xs key lo len" and "h < len" and "xs ! (lo + h) < key"
  shows "searching xs key (Suc (lo + h)) (len - Suc h)"
proof -
  have "xs ! i < key" if "i < Suc (lo + h)" for i
    using assms sorted_nth_mono [of xs i "lo + h"] that by (force simp: searching_def)
  then show ?thesis using assms by (auto simp: searching_def)
qed

lemma searching_left:
  assumes "sorted xs" and "searching xs key lo len" and "h < len" and "\<not> xs ! (lo + h) < key"
  shows "searching xs key lo h"
proof -
  have "key \<le> xs ! i" if "i < length xs" "lo + h \<le> i" for i
    using assms sorted_nth_mono [of xs "lo + h" i] that by (force simp: not_less)
  then show ?thesis using assms by (auto simp: searching_def)
qed

lemma bsearch_loop_lower_bound:
  assumes "arr_has p n xs" and "sorted xs" and "searching xs key (unat lo) (unat len)"
  shows "\<exists>r. varr_bsearch_loop p key lo len = Some r \<and> lower_bound xs key (unat r)"
  using assms
proof (induction p key lo len rule: varr_bsearch_loop.induct)
  case (1 p key lo len)
  show ?case
  proof (cases "len > 0")
    case False
    then have "len = 0" by (simp add: word_less_nat_alt unat_eq_iff64)
    then show ?thesis using 1(4) by (subst varr_bsearch_loop.simps) (simp add: searching_done)
  next
    case True
    define half where "half = drop_bit 1 len"
    have half: "unat half = unat len div 2" by (simp add: half_def unat_half)
    have lt: "unat half < unat len" using True half by (simp add: word_less_nat_alt)
    have bound: "unat lo + unat len \<le> length xs" "length xs = unat n"
      using 1(2,4) by (simp_all add: searching_def arr_has_def)
    then have mid: "unat (lo + half) = unat lo + unat half"
      using lt unat_lt64 [of n] by (intro unat_add_small, unfold power_numeral_64) linarith
    then have "unat (lo + half) < unat n" using lt bound by simp
    then have next_mid: "unat (lo + half + 1) = Suc (unat lo + unat half)"
      using mid by (simp add: unat_inc_less [of _ n] word_less_nat_alt)
    have x: "rd p (lo + half) = Some (xs ! (unat lo + unat half))"
      using arr_has_rd [OF 1(2), of "lo + half"] lt bound mid by simp
    have rest: "unat (len - half - 1) = unat len - Suc (unat half)"
      using lt by (simp add: unat_sub_small)
    note IH = 1(1) [OF True half_def refl x 1(2,3)]
    note step = searching_left [OF 1(3,4) lt] searching_right [OF 1(3,4) lt]
    have unroll: "varr_bsearch_loop p key lo len = varr_bsearch_loop p key
        (if xs ! (unat lo + unat half) < key then lo + half + 1 else lo)
        (if xs ! (unat lo + unat half) < key then len - half - 1 else half)"
      using True x by (subst varr_bsearch_loop.simps) (simp add: half_def Let_def)
    show ?thesis unfolding unroll by (rule IH) (use step next_mid rest in simp)
  qed
qed

lemma lower_bound_index_of:
  assumes "sorted xs" and "lower_bound xs key r"
  shows "index_of key xs = (if r < length xs \<and> xs ! r = key then Some r else None)"
proof (cases "r < length xs \<and> xs ! r = key")
  case True
  then show ?thesis using assms by (auto simp: lower_bound_def index_of_Some)
next
  case False
  have "index_of key xs \<noteq> Some j" for j
  proof
    assume "index_of key xs = Some j"
    then have j: "j < length xs" "xs ! j = key" "\<forall>k < j. xs ! k \<noteq> key" by (simp_all add: index_of_Some)
    have "r \<le> j" using assms(2) j unfolding lower_bound_def by (metis less_irrefl not_le)
    then have "key \<le> xs ! r" "xs ! r \<le> key"
      using assms(2) j sorted_nth_mono [OF assms(1), of r j] by (simp_all add: lower_bound_def)
    then show False using False \<open>r \<le> j\<close> j by simp
  qed
  then show ?thesis using False by auto
qed

lemma varr_indexof_ok:
  assumes "arr_has b n xs"
  shows "varr_indexof_u64 (Some b) n key = Some (found_at (index_of key xs))"
  using assms unfolding varr_indexof_u64_def
  by (simp add: scan_eq_index_of arr_has_def)

lemma varr_bsearch_ok:
  assumes arr: "arr_has b n xs" and "sorted xs"
  shows "varr_bsearch_u64 (Some b) n key = Some (found_at (index_of key xs))"
proof (cases "n = 0")
  case True
  then show ?thesis using arr by (simp add: varr_bsearch_u64_def arr_has_def found_at_def)
next
  case False
  have n: "unat n = length xs" using arr by (simp add: arr_has_def)
  have "searching xs key (unat (0 :: u64)) (unat n)" using n by (simp add: searching_def)
  then obtain r where r: "varr_bsearch_loop b key 0 n = Some r" "lower_bound xs key (unat r)"
    using bsearch_loop_lower_bound [OF assms] by blast
  have "r < n \<longleftrightarrow> unat r < length xs" by (simp add: word_less_nat_alt n)
  then show ?thesis
    using False r lower_bound_index_of [OF assms(2) r(2)] arr_has_rd [OF arr, of r]
    by (simp add: varr_bsearch_u64_def found_at_def)
qed

section \<open>Reversal\<close>

text \<open>Swapping the ends of the window \<open>i..j\<close> leaves a smaller window to mirror.\<close>

definition mirrored :: "u64 buf \<Rightarrow> nat \<Rightarrow> nat \<Rightarrow> u64 buf \<Rightarrow> bool" where
  "mirrored b i j b' \<longleftrightarrow> length b' = length b
     \<and> (\<forall>k < length b. b' ! k = (if i \<le> k \<and> k \<le> j then b ! (i + j - k) else b ! k))"

lemma mirrored_step:
  assumes "i < j" and "j < length b"
    and "mirrored (b[i := b ! j, j := b ! i]) (Suc i) (j - 1) b'"
  shows "mirrored b i j b'"
  using assms unfolding mirrored_def
  by (auto simp: nth_list_update)

lemma reverse_loop_ok:
  assumes "unat j < length b" and "\<forall>k. unat i \<le> k \<and> k \<le> unat j \<longrightarrow> b ! k \<noteq> None"
  shows "\<exists>b'. varr_reverse_loop b i j = Some b' \<and> mirrored b (unat i) (unat j) b'"
  using assms
proof (induction b i j rule: varr_reverse_loop.induct)
  case (1 b i j)
  show ?case
  proof (cases "i < j")
    case False
    then have "unat j \<le> unat i" by (simp add: word_le_nat_alt not_less)
    then have "unat i \<le> k \<and> k \<le> unat j \<Longrightarrow> unat i + unat j - k = k" for k by linarith
    then have "mirrored b (unat i) (unat j) b" by (simp add: mirrored_def)
    then show ?thesis using False by (subst varr_reverse_loop.simps) simp
  next
    case True
    then have ij: "unat i < unat j" by (simp add: word_less_nat_alt)
    then obtain x y where xy: "b ! unat i = Some x" "b ! unat j = Some y"
      using 1(3) by (metis less_imp_le_nat option.exhaust order_refl)
    have io: "rd b i = Some x" "rd b j = Some y" "wr b i y = Some (b[unat i := Some y])"
      "wr (b[unat i := Some y]) j x = Some (b[unat i := Some y, unat j := Some x])"
      using xy ij 1(2) by (simp_all add: rd_def wr_def)
    have steps: "unat (i + 1) = Suc (unat i)" "unat (j - 1) = unat j - 1"
      using True ij by (simp_all add: unat_inc_less unat_sub_small)
    have "\<forall>k. unat (i + 1) \<le> k \<and> k \<le> unat (j - 1) \<longrightarrow> b[unat i := Some y, unat j := Some x] ! k \<noteq> None"
      using 1(3) steps ij by auto
    moreover have "unat (j - 1) < length (b[unat i := Some y, unat j := Some x])" using 1(2) steps by simp
    ultimately obtain b' where "varr_reverse_loop (b[unat i := Some y, unat j := Some x]) (i + 1) (j - 1) = Some b'"
      and "mirrored (b[unat i := Some y, unat j := Some x]) (unat (i + 1)) (unat (j - 1)) b'"
      using 1(1) [OF True io] by blast
    then show ?thesis
      using True io xy steps mirrored_step [OF ij 1(2), of b']
      by (subst varr_reverse_loop.simps) simp
  qed
qed

lemma varr_reverse_ok:
  assumes arr: "arr_has b n xs"
  shows "\<exists>b'. varr_reverse_u64 (Some b) n = Some (Some b') \<and> arr_has b' n (rev xs)
    \<and> drop (length xs) b' = drop (length xs) b"
proof (cases "n < 2")
  case True
  then show ?thesis using arr small_arr [OF arr] short_list_sort(2) [of xs] by (simp add: varr_reverse_u64_def)
next
  case False
  then have n: "unat n = length xs" "2 \<le> length xs" "length xs \<le> length b"
    using arr small_arr [OF arr] by (auto simp: arr_has_def)
  have j: "unat (n - 1) = length xs - 1" using n by (simp add: unat_sub_small)
  obtain b' where b': "varr_reverse_loop b 0 (n - 1) = Some b'" "mirrored b 0 (length xs - 1) b'"
    using reverse_loop_ok [of "n - 1" b 0] j n arr_has_nth [OF arr] by fastforce
  then have "take (length xs) b' = map Some (rev xs)" "drop (length xs) b' = drop (length xs) b"
    using n arr_has_nth [OF arr] by (auto simp: mirrored_def rev_nth intro!: nth_equalityI)
  then show ?thesis using False b' n by (simp add: varr_reverse_u64_def arr_has_def mirrored_def)
qed

section \<open>Properties\<close>

lemma arr_demo: "arr_has [Some 2, Some 5, Some 5, Some 9, None] 4 [2, 5, 5, 9]"
  by (simp add: arr_has_def)

text \<open>On a sorted array the branchless binary search returns and agrees with the linear search: the first
  index of the key, or \<^verbatim>\<open>VCOL_NOT_FOUND\<close> when the key does not occur.\<close>

theorem bsearch_is_first_index:
  assumes "arr_has b n xs" and "sorted xs"
  shows "varr_bsearch_u64 (Some b) n key = Some (found_at (index_of key xs))
    \<and> varr_bsearch_u64 (Some b) n key = varr_indexof_u64 (Some b) n key"
  using varr_bsearch_ok [OF assms] varr_indexof_ok [OF assms(1)] by simp

theorem bsearch_is_first_index_witness:
  "varr_bsearch_u64 (Some [Some 2, Some 5, Some 5, Some 9, None]) 4 5 = Some 1"
  using bsearch_is_first_index [OF arr_demo, of 5] by (simp add: found_at_def)

text \<open>Sorting an array in place returns and leaves the ascending (or, for the second entry point, the
  descending) permutation of its elements.\<close>

theorem arr_sorts:
  assumes "arr_has b n xs"
  shows "(\<exists>b'. varr_sort_u64 (Some b) n = Some (Some b') \<and> arr_has b' n (sort xs))
    \<and> (\<exists>b'. varr_sort_u64_desc (Some b) n = Some (Some b') \<and> arr_has b' n (rev (sort xs)))"
  using varr_sort_ok [OF assms] by blast

theorem arr_sorts_witness:
  "\<exists>b'. varr_sort_u64_desc (Some [Some 2, Some 5, Some 5, Some 9, None]) 4 = Some (Some b') \<and> arr_has b' 4 [9, 5, 5, 2]"
  using arr_sorts [OF arr_demo] by (simp add: insort_key_def)

text \<open>Reversing an array in place returns, reverses its \<open>n\<close> elements and leaves what follows them alone.\<close>

theorem arr_reverses:
  assumes "arr_has b n xs"
  shows "\<exists>b'. varr_reverse_u64 (Some b) n = Some (Some b') \<and> arr_has b' n (rev xs)
    \<and> drop (length xs) b' = drop (length xs) b"
  using assms by (rule varr_reverse_ok)

theorem arr_reverses_witness:
  "\<exists>b'. varr_reverse_u64 (Some [Some 2, Some 5, Some 5, Some 9, None]) 4 = Some (Some b') \<and> arr_has b' 4 [9, 5, 5, 2]"
  using arr_reverses [OF arr_demo] by auto

end
