(* ===== verification/Vcol_ArrayList.thy ===== *)
theory Vcol_ArrayList
  imports Vcol_DArr
begin

text \<open>
  \<^verbatim>\<open>VestaArrayList\<close> of \<^verbatim>\<open>vesta_collections.c\<close>: a growable array of 64-bit values behind an opaque
  handle, one definition per exported function.  The lemmas show that every operation on a live
  handle refines the list operation its name announces, and returns (no undefined access).
\<close>

section \<open>The operations\<close>

definition VALIST_MIN_CAP :: u64 where
  "VALIST_MIN_CAP = 8"

definition valist_grow :: "store \<Rightarrow> VestaArrayList \<Rightarrow> bool \<times> VestaArrayList \<times> store" where
  "valist_grow s l =
     (let new_cap = da_cap l * 2; (a, s) = malloc s (new_cap * 8)
      in if a = 0 then (False, l, s)
         else (True, l\<lparr>da_data := realloc_buf 8 (da_data l) (new_cap * 8), da_cap := new_cap\<rparr>, s))"

definition vcol_alist_new :: "store \<Rightarrow> u64 \<Rightarrow> u64 \<times> store" where
  "vcol_alist_new s initial_capacity =
     (let cap = (if initial_capacity < VALIST_MIN_CAP then VALIST_MIN_CAP else initial_capacity);
          (l, s) = malloc s 24
      in if l = 0 then (VCOL_NULL, s)
         else let (d, s) = malloc s (cap * 8)
              in if d = 0 then (VCOL_NULL, s)
                 else (l, put OArrayList s l
                            \<lparr>da_data = new_buf 8 (cap * 8), da_size = 0, da_cap = cap\<rparr>))"

definition vcol_alist_free :: "store \<Rightarrow> u64 \<Rightarrow> store option" where
  "vcol_alist_free s handle =
     (if handle = 0 then Some s
      else do { _ \<leftarrow> deref as_alist s handle; free_obj s handle })"

definition vcol_alist_push :: "store \<Rightarrow> u64 \<Rightarrow> u64 \<Rightarrow> (u64 \<times> store) option" where
  "vcol_alist_push s handle value =
     (if handle = 0 then Some (VCOL_NOT_FOUND, s)
      else do {
        l \<leftarrow> deref as_alist s handle;
        let (ok, l, s) = (if da_size l = da_cap l then valist_grow s l else (True, l, s));
        if \<not> ok then Some (VCOL_NOT_FOUND, s)
        else do {
          d \<leftarrow> wr (da_data l) (da_size l) value;
          let l = l\<lparr>da_data := d, da_size := da_size l + 1\<rparr>;
          Some (da_size l, put OArrayList s handle l)
        }
      })"

definition vcol_alist_pop :: "store \<Rightarrow> u64 \<Rightarrow> (u64 \<times> store) option" where
  "vcol_alist_pop s handle =
     (if handle = 0 then Some (VCOL_NOT_FOUND, s)
      else do {
        l \<leftarrow> deref as_alist s handle;
        if da_size l = 0 then Some (VCOL_NOT_FOUND, s)
        else do {
          x \<leftarrow> rd (da_data l) (da_size l - 1);
          Some (x, put OArrayList s handle (l\<lparr>da_size := da_size l - 1\<rparr>))
        }
      })"

definition vcol_alist_get :: "store \<Rightarrow> u64 \<Rightarrow> u64 \<Rightarrow> u64 option" where
  "vcol_alist_get s handle index =
     (if handle = 0 then Some VCOL_NOT_FOUND
      else do {
        l \<leftarrow> deref as_alist s handle;
        if index \<ge> da_size l then Some VCOL_NOT_FOUND
        else rd (da_data l) index
      })"

definition vcol_alist_set :: "store \<Rightarrow> u64 \<Rightarrow> u64 \<Rightarrow> u64 \<Rightarrow> (u64 \<times> store) option" where
  "vcol_alist_set s handle index value =
     (if handle = 0 then Some (VCOL_NOT_FOUND, s)
      else do {
        l \<leftarrow> deref as_alist s handle;
        if index \<ge> da_size l then Some (VCOL_NOT_FOUND, s)
        else do {
          old \<leftarrow> rd (da_data l) index;
          d \<leftarrow> wr (da_data l) index value;
          Some (old, put OArrayList s handle (l\<lparr>da_data := d\<rparr>))
        }
      })"

definition vcol_alist_size :: "store \<Rightarrow> u64 \<Rightarrow> u64 option" where
  "vcol_alist_size s handle =
     (if handle = 0 then Some 0 else map_option da_size (deref as_alist s handle))"

definition vcol_alist_cap :: "store \<Rightarrow> u64 \<Rightarrow> u64 option" where
  "vcol_alist_cap s handle =
     (if handle = 0 then Some 0 else map_option da_cap (deref as_alist s handle))"

definition vcol_alist_clear :: "store \<Rightarrow> u64 \<Rightarrow> store option" where
  "vcol_alist_clear s handle =
     (if handle = 0 then Some s
      else do { l \<leftarrow> deref as_alist s handle; Some (put OArrayList s handle (l\<lparr>da_size := 0\<rparr>)) })"

definition vcol_alist_remove_at :: "store \<Rightarrow> u64 \<Rightarrow> u64 \<Rightarrow> (u64 \<times> store) option" where
  "vcol_alist_remove_at s handle index =
     (if handle = 0 then Some (VCOL_NOT_FOUND, s)
      else do {
        l \<leftarrow> deref as_alist s handle;
        if index \<ge> da_size l then Some (VCOL_NOT_FOUND, s)
        else do {
          old \<leftarrow> rd (da_data l) index;
          d \<leftarrow> memmove 8 (da_data l) index (index + 1) ((da_size l - index - 1) * 8);
          Some (old, put OArrayList s handle (l\<lparr>da_data := d, da_size := da_size l - 1\<rparr>))
        }
      })"

definition vcol_alist_insert :: "store \<Rightarrow> u64 \<Rightarrow> u64 \<Rightarrow> u64 \<Rightarrow> (u64 \<times> store) option" where
  "vcol_alist_insert s handle index value =
     (if handle = 0 then Some (VCOL_NOT_FOUND, s)
      else do {
        l \<leftarrow> deref as_alist s handle;
        let index = (if index > da_size l then da_size l else index);
        let (ok, l, s) = (if da_size l = da_cap l then valist_grow s l else (True, l, s));
        if \<not> ok then Some (VCOL_NOT_FOUND, s)
        else do {
          d \<leftarrow> memmove 8 (da_data l) (index + 1) index ((da_size l - index) * 8);
          d \<leftarrow> wr d index value;
          let l = l\<lparr>da_data := d, da_size := da_size l + 1\<rparr>;
          Some (da_size l, put OArrayList s handle l)
        }
      })"

definition vcol_alist_indexof :: "store \<Rightarrow> u64 \<Rightarrow> u64 \<Rightarrow> u64 option" where
  "vcol_alist_indexof s handle value =
     (if handle = 0 then Some VCOL_NOT_FOUND
      else do {
        l \<leftarrow> deref as_alist s handle;
        scan_eq (da_data l) (da_size l) value 0
      })"

definition vcol_alist_clone :: "store \<Rightarrow> u64 \<Rightarrow> (u64 \<times> store) option" where
  "vcol_alist_clone s handle =
     (if handle = 0 then Some (VCOL_NULL, s)
      else do {
        src \<leftarrow> deref as_alist s handle;
        let (h, s) = vcol_alist_new s (da_cap src);
        if h = 0 then Some (VCOL_NULL, s)
        else do {
          dst \<leftarrow> deref as_alist s h;
          d \<leftarrow> memcpy 8 (da_data dst) 0 (da_data src) 0 (da_size src * 8);
          Some (h, put OArrayList s h (dst\<lparr>da_data := d, da_size := da_size src\<rparr>))
        }
      })"

definition cmp_u64 :: "u64 \<Rightarrow> u64 \<Rightarrow> int" where
  "cmp_u64 ua ub = c_bool (ua > ub) - c_bool (ua < ub)"

definition vcol_alist_sort :: "store \<Rightarrow> u64 \<Rightarrow> store option" where
  "vcol_alist_sort s handle =
     (if handle = 0 then Some s
      else do {
        al \<leftarrow> deref as_alist s handle;
        if da_size al < 2 then Some s
        else do {
          d \<leftarrow> qsort (da_data al) (da_size al) cmp_u64;
          Some (put OArrayList s handle (al\<lparr>da_data := d\<rparr>))
        }
      })"

section \<open>The abstraction\<close>

text \<open>The handle \<open>h\<close> is live and denotes the list \<open>xs\<close> of 64-bit values.\<close>

definition alist_has :: "store \<Rightarrow> u64 \<Rightarrow> u64 list \<Rightarrow> bool" where
  "alist_has s h xs \<longleftrightarrow> h \<noteq> 0 \<and> (\<exists>l. deref as_alist s h = Some l \<and> da_rep 8 l xs)"

lemma alist_hasI: "h \<noteq> 0 \<Longrightarrow> deref as_alist s h = Some l \<Longrightarrow> da_rep 8 l xs \<Longrightarrow> alist_has s h xs"
  by (auto simp: alist_has_def)

lemma alist_has_put [simp, intro]: "h \<noteq> 0 \<Longrightarrow> da_rep 8 l xs \<Longrightarrow> alist_has (put OArrayList s h l) h xs"
  by (auto simp: alist_has_def)

lemma alist_has_unique: "alist_has s h xs \<Longrightarrow> alist_has s h ys \<Longrightarrow> xs = ys"
  by (auto simp: alist_has_def dest: da_rep_unique)

lemma alist_has_other: "only_changes k s s' \<Longrightarrow> k \<noteq> h \<Longrightarrow> alist_has s h xs \<Longrightarrow> alist_has s' h xs"
  by (auto simp: alist_has_def only_changes_other)

section \<open>The growth step\<close>

lemma valist_grow_eq:
  "valist_grow s l =
     (if fst (malloc s (da_cap l * 2 * 8)) = 0 then (False, l, after_malloc s)
      else (True, l\<lparr>da_data := realloc_buf 8 (da_data l) (da_cap l * 2 * 8),
                    da_cap := da_cap l * 2\<rparr>, after_malloc s))"
  by (subst valist_grow_def, subst malloc_eq) simp

text \<open>What the guard \<^verbatim>\<open>if (size == cap && !valist_grow(l))\<close> leaves behind when it lets the call on.\<close>

lemma valist_guard:
  fixes s :: store
  assumes rep: "da_rep 8 l xs"
  defines "g \<equiv> (if da_size l = da_cap l then valist_grow s l else (True, l, s))"
  shows "fst g = has_room s 8 l"
    and "has_room s 8 l \<Longrightarrow> \<exists>l' s'. g = (True, l', s') \<and> da_rep 8 l' xs
           \<and> length xs < unat (da_cap l') \<and> da_size l' = da_size l \<and> only_changes h s s'"
    and "\<not> has_room s 8 l \<Longrightarrow> g = (False, l, after_malloc s)"
proof -
  show "fst g = has_room s 8 l" by (auto simp: g_def has_room_def valist_grow_eq)
  show "\<not> has_room s 8 l \<Longrightarrow> g = (False, l, after_malloc s)"
    by (simp add: g_def has_room_def valist_grow_eq)
  show "\<exists>l' s'. g = (True, l', s') \<and> da_rep 8 l' xs
      \<and> length xs < unat (da_cap l') \<and> da_size l' = da_size l \<and> only_changes h s s'"
    if "has_room s 8 l"
  proof (cases "da_size l = da_cap l")
    case True
    then show ?thesis
      using that rep da_rep_grow [OF rep, of s] da_rep_full [OF rep]
      by (auto simp: g_def has_room_def valist_grow_eq da_rep_def)
  next
    case False
    then show ?thesis
      using rep da_rep_full [OF rep] da_rep_le_cap [OF rep] by (auto simp: g_def)
  qed
qed

section \<open>Every operation refines its list operation\<close>

lemma alist_push_ok:
  assumes h: "h \<noteq> 0" and l: "deref as_alist s h = Some l" and rep: "da_rep 8 l xs"
    and room: "has_room s 8 l"
  shows "\<exists>s'. vcol_alist_push s h e = Some (of_nat (Suc (length xs)), s')
    \<and> alist_has s' h (xs @ [e]) \<and> only_changes h s s'"
proof -
  obtain l' s' where g: "(if da_size l = da_cap l then valist_grow s l else (True, l, s)) = (True, l', s')"
      "da_rep 8 l' xs" "length xs < unat (da_cap l')" "only_changes h s s'"
    using valist_guard(2) [OF rep room] by blast
  obtain d where "wr (da_data l') (da_size l') e = Some d"
      "da_rep 8 (l'\<lparr>da_data := d, da_size := da_size l' + 1\<rparr>) (xs @ [e])"
    using da_rep_push [OF g(2,3)] by blast
  then show ?thesis
    using h l g da_rep_size by (fastforce simp: vcol_alist_push_def)
qed

lemma alist_push_full:
  assumes "h \<noteq> 0" and "deref as_alist s h = Some l" and rep: "da_rep 8 l xs" and "\<not> has_room s 8 l"
  shows "vcol_alist_push s h e = Some (VCOL_NOT_FOUND, after_malloc s)"
  using assms valist_guard(3) [OF rep] by (simp add: vcol_alist_push_def)

lemma alist_pop_ok:
  assumes "alist_has s h (xs @ [v])"
  shows "\<exists>s'. vcol_alist_pop s h = Some (v, s') \<and> alist_has s' h xs \<and> only_changes h s s'"
proof -
  obtain l where l: "h \<noteq> 0" "deref as_alist s h = Some l" "da_rep 8 l (xs @ [v])"
    using assms by (auto simp: alist_has_def)
  then show ?thesis
    using da_rep_pop [OF l(3)] da_rep_empty [OF l(3)] by (auto simp: vcol_alist_pop_def)
qed

lemma alist_pop_empty: "alist_has s h [] \<Longrightarrow> vcol_alist_pop s h = Some (VCOL_NOT_FOUND, s)"
  by (auto simp: alist_has_def vcol_alist_pop_def da_rep_empty)

lemma alist_get_eq:
  assumes "alist_has s h xs"
  shows "vcol_alist_get s h i = Some (if unat i < length xs then xs ! unat i else VCOL_NOT_FOUND)"
  using assms by (auto simp: alist_has_def vcol_alist_get_def da_rep_index da_rep_rd)

lemma alist_set_ok:
  assumes "alist_has s h xs" and "unat i < length xs"
  shows "\<exists>s'. vcol_alist_set s h i e = Some (xs ! unat i, s')
    \<and> alist_has s' h (xs[unat i := e]) \<and> only_changes h s s'"
proof -
  obtain l where l: "h \<noteq> 0" "deref as_alist s h = Some l" "da_rep 8 l xs"
    using assms by (auto simp: alist_has_def)
  then show ?thesis
    using assms(2) da_rep_set [OF l(3) assms(2), of "e"]
    by (auto simp: vcol_alist_set_def da_rep_index da_rep_rd)
qed

lemma alist_set_out:
  "alist_has s h xs \<Longrightarrow> length xs \<le> unat i \<Longrightarrow> vcol_alist_set s h i e = Some (VCOL_NOT_FOUND, s)"
  by (auto simp: alist_has_def vcol_alist_set_def da_rep_index)

lemma alist_size_eq: "alist_has s h xs \<Longrightarrow> vcol_alist_size s h = Some (of_nat (length xs))"
  by (auto simp: alist_has_def vcol_alist_size_def da_rep_size)

lemma alist_clear_ok:
  "alist_has s h xs \<Longrightarrow> \<exists>s'. vcol_alist_clear s h = Some s' \<and> alist_has s' h [] \<and> only_changes h s s'"
  by (auto simp: alist_has_def vcol_alist_clear_def intro!: da_rep_clear)

lemma alist_remove_ok:
  assumes "alist_has s h xs" and "unat i < length xs"
  shows "\<exists>s'. vcol_alist_remove_at s h i = Some (xs ! unat i, s')
    \<and> alist_has s' h (take (unat i) xs @ drop (Suc (unat i)) xs) \<and> only_changes h s s'"
proof -
  obtain l where l: "h \<noteq> 0" "deref as_alist s h = Some l" "da_rep 8 l xs"
    using assms by (auto simp: alist_has_def)
  then show ?thesis
    using assms(2) da_rep_remove [OF l(3) assms(2)]
    by (auto simp: vcol_alist_remove_at_def da_rep_index da_rep_rd)
qed

lemma alist_remove_out:
  "alist_has s h xs \<Longrightarrow> length xs \<le> unat i \<Longrightarrow> vcol_alist_remove_at s h i = Some (VCOL_NOT_FOUND, s)"
  by (auto simp: alist_has_def vcol_alist_remove_at_def da_rep_index)

lemma alist_insert_ok:
  fixes idx :: u64
  assumes h: "h \<noteq> 0" and l: "deref as_alist s h = Some l" and rep: "da_rep 8 l xs"
    and room: "has_room s 8 l"
  defines "i \<equiv> min (unat idx) (length xs)"
  shows "\<exists>s'. vcol_alist_insert s h idx e = Some (of_nat (Suc (length xs)), s')
    \<and> alist_has s' h (take i xs @ e # drop i xs) \<and> only_changes h s s'"
proof -
  obtain l' s' where g: "(if da_size l = da_cap l then valist_grow s l else (True, l, s)) = (True, l', s')"
      "da_rep 8 l' xs" "length xs < unat (da_cap l')" "only_changes h s s'" "da_size l' = da_size l"
    using valist_guard(2) [OF rep room] by blast
  let ?idx = "if idx > da_size l then da_size l else idx"
  have i: "unat ?idx = i"
    using rep by (auto simp: i_def word_less_nat_alt da_rep_def)
  then have "unat ?idx \<le> length xs" by (simp add: i_def)
  from da_rep_insert [OF g(2) this g(3), of "e"] obtain d d' where
      "memmove 8 (da_data l') (?idx + 1) ?idx ((da_size l' - ?idx) * 8) = Some d"
      "wr d ?idx e = Some d'"
      "da_rep 8 (l'\<lparr>da_data := d', da_size := da_size l' + 1\<rparr>) (take i xs @ e # drop i xs)"
    by (auto simp: i)
  then show ?thesis
    using h l g da_rep_size [of 8 l' xs]
    by (auto simp: vcol_alist_insert_def Let_def)
qed

lemma alist_insert_full:
  assumes "h \<noteq> 0" and "deref as_alist s h = Some l" and rep: "da_rep 8 l xs" and "\<not> has_room s 8 l"
  shows "vcol_alist_insert s h idx e = Some (VCOL_NOT_FOUND, after_malloc s)"
  using assms valist_guard(3) [OF rep] by (simp add: vcol_alist_insert_def)

lemma alist_indexof_eq:
  "alist_has s h xs \<Longrightarrow> vcol_alist_indexof s h e = Some (found_at (index_of e xs))"
  by (auto simp: alist_has_def vcol_alist_indexof_def da_rep_scan)

lemma alist_free_ok:
  "alist_has s h xs \<Longrightarrow> vcol_alist_free s h = Some (s\<lparr>objs := (objs s)(h := None)\<rparr>)"
  by (auto simp: alist_has_def vcol_alist_free_def free_obj_def dest: alist_kind.deref_SomeD)

lemma cmp_u64_le: "cmp_u64 x y \<le> 0 \<longleftrightarrow> x \<le> y"
  by (auto simp: cmp_u64_def c_bool_def)

lemma alist_sort_ok:
  assumes "alist_has s h xs"
  shows "\<exists>s'. vcol_alist_sort s h = Some s' \<and> alist_has s' h (sort xs) \<and> only_changes h s s'"
proof -
  obtain l where l: "h \<noteq> 0" "deref as_alist s h = Some l" "da_rep 8 l xs"
    using assms by (auto simp: alist_has_def)
  have small: "da_size l < 2 \<longleftrightarrow> length xs < 2" using l(3) by (simp add: da_rep_def word_less_nat_alt)
  have eq: "sort xs = xs" if "length xs < 2"
    using that by (cases xs rule: remdups_adj.cases) auto
  show ?thesis
    using l small eq da_rep_qsort [OF l(3), of cmp_u64] assms qs_list_sort [OF cmp_u64_le, of xs]
    by (cases "length xs < 2") (auto simp: vcol_alist_sort_def)
qed

section \<open>Creation and cloning\<close>

lemma alist_new_eq:
  "vcol_alist_new s c =
     (let cap = (if c < VALIST_MIN_CAP then VALIST_MIN_CAP else c); l = fst (malloc s 24);
          s1 = after_malloc s; s2 = after_malloc s1
      in if l = 0 then (VCOL_NULL, s1)
         else if fst (malloc s1 (cap * 8)) = 0 then (VCOL_NULL, s2)
         else (l, put OArrayList s2 l \<lparr>da_data = new_buf 8 (cap * 8), da_size = 0, da_cap = cap\<rparr>))"
  by (simp add: vcol_alist_new_def case_prod_beta Let_def)

lemma alist_new_cases:
  assumes c: "unat c < 2 ^ 61" and new: "vcol_alist_new s c = (h, s')"
  shows "h = VCOL_NULL \<and> objs s' = objs s \<or>
    h \<noteq> 0 \<and> objs s h = None \<and> alist_has s' h []
      \<and> vcol_alist_cap s' h = Some (if c < VALIST_MIN_CAP then VALIST_MIN_CAP else c)"
    and "only_changes h s s'"
proof -
  define cap where "cap = (if c < VALIST_MIN_CAP then VALIST_MIN_CAP else c)"
  have cap: "unat cap < 2 ^ 61" "0 < unat cap"
    using c by (auto simp: cap_def VALIST_MIN_CAP_def word_less_nat_alt)
  have rep: "da_rep 8 \<lparr>da_data = new_buf 8 (cap * 8), da_size = 0, da_cap = cap\<rparr> []"
    if "fst (malloc s0 (cap * 8)) \<noteq> 0" for s0
  proof -
    have "unat (cap * 8) = unat cap * 8" using cap by (subst unat_mult_small) simp_all
    then show ?thesis
      using malloc_bound [OF that] cap da_rep_new [of cap 8] by simp
  qed
  show "h = VCOL_NULL \<and> objs s' = objs s \<or>
    h \<noteq> 0 \<and> objs s h = None \<and> alist_has s' h []
      \<and> vcol_alist_cap s' h = Some (if c < VALIST_MIN_CAP then VALIST_MIN_CAP else c)"
    using new rep malloc_fresh [of s 24]
    by (auto simp: alist_new_eq Let_def cap_def [symmetric] vcol_alist_cap_def VCOL_NULL_def
        split: if_splits)
  show "only_changes h s s'"
    using new by (auto simp: alist_new_eq Let_def only_changes_def split: if_splits)
qed

lemma alist_clone_cases:
  assumes has: "alist_has s h xs"
  shows "\<exists>k s'. vcol_alist_clone s h = Some (k, s') \<and> only_changes k s s'
    \<and> (k = VCOL_NULL \<and> objs s' = objs s
       \<or> k \<noteq> 0 \<and> k \<noteq> h \<and> alist_has s' k xs \<and> alist_has s' h xs)"
proof -
  obtain l where l: "h \<noteq> 0" "deref as_alist s h = Some l" "da_rep 8 l xs"
    using has by (auto simp: alist_has_def)
  obtain k s1 where new: "vcol_alist_new s (da_cap l) = (k, s1)" by fastforce
  have c: "unat (da_cap l) < 2 ^ 61" using l(3) by (simp add: da_rep_def)
  note cs = alist_new_cases [OF c new]
  show ?thesis
  proof (cases "k = 0")
    case True
    then show ?thesis
      using cs l new by (auto simp: vcol_alist_clone_def VCOL_NULL_def)
  next
    case False
    then have k: "objs s k = None" "alist_has s1 k []"
        "vcol_alist_cap s1 k = Some (if da_cap l < VALIST_MIN_CAP then VALIST_MIN_CAP else da_cap l)"
      using cs(1) by (auto simp: VCOL_NULL_def)
    then obtain c where c: "deref as_alist s1 k = Some c" "da_rep 8 c []"
        "da_cap c = (if da_cap l < VALIST_MIN_CAP then VALIST_MIN_CAP else da_cap l)"
      using False by (auto simp: alist_has_def vcol_alist_cap_def)
    then have le: "unat (da_cap l) \<le> unat (da_cap c)" by (auto simp: word_less_nat_alt)
    obtain d where "memcpy 8 (da_data c) 0 (da_data l) 0 (da_size l * 8) = Some d"
        "da_rep 8 (c\<lparr>da_data := d, da_size := da_size l\<rparr>) xs"
      using da_rep_copy [OF l(3) c(2) le] by auto
    moreover have "k \<noteq> h" using k(1) l(2) by (auto simp: deref_def)
    ultimately show ?thesis
      using l c(1) new False cs(2) has alist_has_other [OF cs(2)]
      by (auto simp: vcol_alist_clone_def alist_has_def)
  qed
qed

section \<open>The component as a whole\<close>

text \<open>A call on one handle, and the list operation it stands for.\<close>

datatype alist_cmd =
    ALPush u64 | ALPop | ALGet u64 | ALSet u64 u64 | ALSize | ALClear
  | ALRemoveAt u64 | ALInsert u64 u64 | ALIndexOf u64

fun alist_exec :: "store \<Rightarrow> u64 \<Rightarrow> alist_cmd \<Rightarrow> (u64 \<times> store) option" where
  "alist_exec s h (ALPush e) = vcol_alist_push s h e"
| "alist_exec s h ALPop = vcol_alist_pop s h"
| "alist_exec s h (ALGet i) = map_option (\<lambda>r. (r, s)) (vcol_alist_get s h i)"
| "alist_exec s h (ALSet i e) = vcol_alist_set s h i e"
| "alist_exec s h ALSize = map_option (\<lambda>r. (r, s)) (vcol_alist_size s h)"
| "alist_exec s h ALClear = map_option (\<lambda>s. (0, s)) (vcol_alist_clear s h)"
| "alist_exec s h (ALRemoveAt i) = vcol_alist_remove_at s h i"
| "alist_exec s h (ALInsert i e) = vcol_alist_insert s h i e"
| "alist_exec s h (ALIndexOf e) = map_option (\<lambda>r. (r, s)) (vcol_alist_indexof s h e)"

fun alist_spec :: "u64 list \<Rightarrow> alist_cmd \<Rightarrow> u64 \<times> u64 list" where
  "alist_spec xs (ALPush e) = (of_nat (Suc (length xs)), xs @ [e])"
| "alist_spec xs ALPop = (if xs = [] then (VCOL_NOT_FOUND, []) else (last xs, butlast xs))"
| "alist_spec xs (ALGet i) = (if unat i < length xs then xs ! unat i else VCOL_NOT_FOUND, xs)"
| "alist_spec xs (ALSet i e) =
     (if unat i < length xs then (xs ! unat i, xs[unat i := e])
      else (VCOL_NOT_FOUND, xs))"
| "alist_spec xs ALSize = (of_nat (length xs), xs)"
| "alist_spec xs ALClear = (0, [])"
| "alist_spec xs (ALRemoveAt i) =
     (if unat i < length xs then (xs ! unat i, take (unat i) xs @ drop (Suc (unat i)) xs)
      else (VCOL_NOT_FOUND, xs))"
| "alist_spec xs (ALInsert i e) =
     (let j = min (unat i) (length xs)
      in (of_nat (Suc (length xs)), take j xs @ e # drop j xs))"
| "alist_spec xs (ALIndexOf e) = (found_at (index_of e xs), xs)"

fun alist_grows :: "alist_cmd \<Rightarrow> bool" where
  "alist_grows (ALPush e) = True"
| "alist_grows (ALInsert i e) = True"
| "alist_grows _ = False"

text \<open>The only way a call departs from the list operation: no room and the allocator refuses.\<close>

definition alist_refused :: "store \<Rightarrow> u64 \<Rightarrow> alist_cmd \<Rightarrow> bool" where
  "alist_refused s h c \<longleftrightarrow>
     alist_grows c \<and> (\<exists>l. deref as_alist s h = Some l \<and> \<not> has_room s 8 l)"

lemma alist_exec_ok:
  assumes has: "alist_has s h xs" and ok: "\<not> alist_refused s h c"
  shows "\<exists>s'. alist_exec s h c = Some (fst (alist_spec xs c), s')
    \<and> alist_has s' h (snd (alist_spec xs c)) \<and> only_changes h s s'"
proof -
  obtain l where l: "h \<noteq> 0" "deref as_alist s h = Some l" "da_rep 8 l xs"
    using has by (auto simp: alist_has_def)
  have room: "has_room s 8 l" if "alist_grows c" using ok l that by (auto simp: alist_refused_def)
  show ?thesis
  proof (cases c)
    case (ALPush e)
    then show ?thesis using alist_push_ok [OF l] room by simp
  next
    case ALPop
    then show ?thesis
      using has alist_pop_empty [of s h] alist_pop_ok [of s h "butlast xs" "last xs"] by auto
  next
    case (ALInsert i e)
    then show ?thesis using alist_insert_ok [OF l] room by (simp add: Let_def)
  next
    case (ALSet i e)
    then show ?thesis
      using has alist_set_ok [OF has, of i e] alist_set_out [OF has, of i e] by (auto simp: not_less)
  next
    case (ALRemoveAt i)
    then show ?thesis
      using has alist_remove_ok [OF has, of i] alist_remove_out [OF has, of i] by (auto simp: not_less)
  next
    case ALClear
    then show ?thesis using alist_clear_ok [OF has] by auto
  qed (use has in \<open>simp_all add: alist_get_eq alist_size_eq alist_indexof_eq\<close>)
qed

lemma alist_exec_refused:
  assumes has: "alist_has s h xs" and no: "alist_refused s h c"
  shows "alist_exec s h c = Some (VCOL_NOT_FOUND, after_malloc s)"
  using assms by (cases c) (auto simp: alist_refused_def alist_has_def alist_push_full alist_insert_full)

interpretation alist_api: collection_api alist_exec alist_spec alist_has alist_grows alist_refused
proof unfold_locales
  show "alist_has s h xs \<Longrightarrow> \<not> alist_refused s h c \<Longrightarrow>
      \<exists>s'. alist_exec s h c = Some (fst (alist_spec xs c), s')
        \<and> alist_has s' h (snd (alist_spec xs c)) \<and> only_changes h s s'" for s h xs c
    by (rule alist_exec_ok)
  show "alist_has s h xs \<Longrightarrow> alist_refused s h c \<Longrightarrow> alist_grows c \<and>
      (\<exists>s'. alist_exec s h c = Some (VCOL_NOT_FOUND, s') \<and> alist_has s' h xs \<and> only_changes h s s')"
    for s h xs c
    using alist_exec_refused by (auto simp: alist_refused_def alist_has_def)
qed

section \<open>The interface for result lists\<close>

definition alist_cap_has :: "store \<Rightarrow> u64 \<Rightarrow> nat \<Rightarrow> u64 list \<Rightarrow> bool" where
  "alist_cap_has s h c xs \<longleftrightarrow>
     h \<noteq> 0 \<and> (\<exists>l. deref as_alist s h = Some l \<and> da_rep 8 l xs \<and> unat (da_cap l) = c)"

lemma alist_cap_hasD: "alist_cap_has s h c xs \<Longrightarrow> alist_has s h xs"
  by (auto simp: alist_cap_has_def alist_has_def)

lemma alist_push_below:
  assumes "alist_cap_has s h c xs" and "length xs < c"
  shows "\<exists>s'. vcol_alist_push s h e = Some (of_nat (Suc (length xs)), s')
    \<and> alist_cap_has s' h c (xs @ [e]) \<and> only_changes h s s'"
proof -
  obtain l where l: "h \<noteq> 0" "deref as_alist s h = Some l" "da_rep 8 l xs" "unat (da_cap l) = c"
    using assms(1) by (auto simp: alist_cap_has_def)
  obtain d where d: "wr (da_data l) (da_size l) (e) = Some d"
      "da_rep 8 (l\<lparr>da_data := d, da_size := da_size l + 1\<rparr>) (xs @ [e])"
    using da_rep_push [OF l(3)] assms(2) l(4) by blast
  have "da_size l \<noteq> da_cap l" using l assms(2) da_rep_full [OF l(3)] by simp
  then show ?thesis
    using l d da_rep_size [OF l(3)]
    by (auto simp: vcol_alist_push_def alist_cap_has_def)
qed

interpretation alist_growable: growable vcol_alist_push vcol_alist_pop alist_cap_has id id
proof unfold_locales
  show "alist_cap_has s h c xs \<Longrightarrow> length xs < c \<Longrightarrow>
      \<exists>s'. vcol_alist_push s h e = Some (of_nat (Suc (length xs)), s')
        \<and> alist_cap_has s' h c (xs @ [id e]) \<and> only_changes h s s'" for s h c xs e
    using alist_push_below by simp
  fix s h c and xs :: "u64 list" and v
  assume has: "alist_cap_has s h c (xs @ [v])"
  then obtain l where l: "h \<noteq> 0" "deref as_alist s h = Some l" "da_rep 8 l (xs @ [v])" "unat (da_cap l) = c"
    by (auto simp: alist_cap_has_def)
  then show "\<exists>s'. vcol_alist_pop s h = Some (id v, s') \<and> alist_cap_has s' h c xs \<and> only_changes h s s'"
    using da_rep_pop [OF l(3)] da_rep_empty [OF l(3)] by (auto simp: vcol_alist_pop_def alist_cap_has_def)
qed

lemma alist_new_cap:
  assumes c: "unat c < 2 ^ 61" and new: "vcol_alist_new s c = (h, s')" and "h \<noteq> 0"
  shows "alist_cap_has s' h (max 8 (unat c)) []"
proof -
  have "alist_has s' h []" "vcol_alist_cap s' h = Some (if c < VALIST_MIN_CAP then VALIST_MIN_CAP else c)"
    using alist_new_cases [OF c new] assms(3) by (auto simp: VCOL_NULL_def)
  moreover have "unat (if c < VALIST_MIN_CAP then VALIST_MIN_CAP else c) = max 8 (unat c)"
    by (simp add: VALIST_MIN_CAP_def word_less_nat_alt max_def)
  ultimately show ?thesis by (auto simp: alist_has_def alist_cap_has_def vcol_alist_cap_def)
qed

lemma alist_free_cases:
  assumes "alist_has s h xs"
  shows "\<exists>s'. vcol_alist_free s h = Some s' \<and> only_changes h s s' \<and> objs s' h = None
    \<and> vcol_alist_free s' h = None"
  using assms alist_kind.deref_SomeD [of s h]
  by (auto simp: alist_has_def vcol_alist_free_def free_obj_def deref_def only_changes_def)

section \<open>Properties\<close>

text \<open>An example: a list of two elements on the concrete host.\<close>

definition alist_demo :: store where
  "alist_demo = put OArrayList demo_store 4096
     \<lparr>da_data = [Some 7, Some 9, None, None, None, None, None, None], da_size = 2, da_cap = 8\<rparr>"

lemma alist_demo_deref: "deref as_alist alist_demo 4096 =
    Some \<lparr>da_data = [Some 7, Some 9, None, None, None, None, None, None], da_size = 2, da_cap = 8\<rparr>"
  by (simp add: alist_demo_def)

lemma alist_demo_has: "alist_has alist_demo 4096 [7, 9]"
  by (auto simp: alist_has_def alist_demo_deref da_rep_def)

lemma alist_demo_room: "\<not> alist_refused alist_demo 4096 c"
  by (simp add: alist_refused_def alist_demo_deref has_room_def)

text \<open>C39. Every call on a live list handle returns, changes no other object, and does exactly what the
  list operation does, with its result; the one exception is a call that must grow the buffer when the
  allocator refuses, which reports \<^verbatim>\<open>VCOL_NOT_FOUND\<close> and leaves the list as it was.\<close>

theorem alist_call_refines:
  assumes "alist_has s h xs"
  shows "\<exists>s'. only_changes h s s' \<and>
    (if alist_refused s h c
     then alist_exec s h c = Some (VCOL_NOT_FOUND, s') \<and> alist_has s' h xs
     else alist_exec s h c = Some (fst (alist_spec xs c), s') \<and> alist_has s' h (snd (alist_spec xs c)))"
  using alist_api.call_ok [OF assms] alist_api.call_refused [OF assms] by (cases "alist_refused s h c") auto

theorem alist_call_refines_witness:
  "\<exists>s'. alist_exec alist_demo 4096 (ALInsert 1 5) = Some (3, s') \<and> alist_has s' 4096 [7, 5, 9]"
  using alist_call_refines [OF alist_demo_has, of "ALInsert 1 5"] alist_demo_room [of "ALInsert 1 5"]
  by auto

text \<open>A whole sequence of calls on a live handle returns, with the results and the final contents of a
  run of the list operations in which only growing calls may have been refused.\<close>

theorem alist_run_refines:
  assumes "alist_has s h xs"
  shows "\<exists>rs s' xs'. run_calls alist_exec s h cs = Some (rs, s') \<and> alist_has s' h xs'
    \<and> spec_run alist_spec alist_grows xs cs rs xs' \<and> only_changes h s s'"
  using assms by (rule alist_api.run_refines)

theorem alist_run_refines_witness:
  "\<exists>s'. run_calls alist_exec alist_demo 4096 [ALPop, ALRemoveAt 0, ALSize] = Some ([9, 7, 0], s') \<and> alist_has s' 4096 []"
  using alist_run_refines [OF alist_demo_has, of "[ALPop, ALRemoveAt 0, ALSize]"]
  by (auto elim!: spec_run_ConsE spec_run_NilE)

text \<open>Creating a list whose byte count fits 64 bits either fails with the null handle, changing no
  object, or returns a fresh handle that denotes the empty list with the requested capacity
  (at least the minimum one).\<close>

theorem alist_new_fresh:
  assumes "unat c < 2 ^ 61"
  shows "\<exists>h s'. vcol_alist_new s c = (h, s') \<and> only_changes h s s'
    \<and> (h = VCOL_NULL \<and> objs s' = objs s
       \<or> h \<noteq> 0 \<and> objs s h = None \<and> alist_has s' h [] \<and> vcol_alist_cap s' h = Some (max VALIST_MIN_CAP c))"
proof -
  obtain h s' where new: "vcol_alist_new s c = (h, s')" by fastforce
  have "(if c < VALIST_MIN_CAP then VALIST_MIN_CAP else c) = max VALIST_MIN_CAP c"
    by (auto simp: max_def)
  then show ?thesis using new alist_new_cases [OF assms new] by auto
qed

theorem alist_new_fresh_witness:
  "\<exists>h s'. vcol_alist_new demo_store 100 = (h, s') \<and> h \<noteq> 0 \<and> alist_has s' h [] \<and> vcol_alist_cap s' h = Some 100"
proof -
  have "fst (vcol_alist_new demo_store 100) \<noteq> VCOL_NULL" and cap: "max VALIST_MIN_CAP 100 = 100"
    by (simp_all add: vcol_alist_new_def malloc_def PTRDIFF_MAX_def VALIST_MIN_CAP_def VCOL_NULL_def max_def)
  then show ?thesis using alist_new_fresh [of 100 demo_store] by (auto simp: cap)
qed

text \<open>Cloning a live list either fails with the null handle or returns a second handle, distinct from the
  first, with the same elements; freeing it makes the handle dead and touches nothing else, and a second
  free has no defined result.\<close>

theorem alist_clone_free:
  assumes "alist_has s h xs"
  shows "(\<exists>k s'. vcol_alist_clone s h = Some (k, s') \<and> only_changes k s s'
      \<and> (k = VCOL_NULL \<and> objs s' = objs s \<or> k \<noteq> 0 \<and> k \<noteq> h \<and> alist_has s' k xs \<and> alist_has s' h xs))
    \<and> (\<exists>s'. vcol_alist_free s h = Some s' \<and> only_changes h s s' \<and> objs s' h = None
      \<and> vcol_alist_free s' h = None)"
  using alist_clone_cases [OF assms] alist_free_cases [OF assms] by blast

theorem alist_clone_free_witness:
  "(\<exists>k s'. vcol_alist_clone alist_demo 4096 = Some (k, s') \<and> (k = VCOL_NULL \<or> alist_has s' k [7, 9]))
   \<and> (\<exists>s'. vcol_alist_free alist_demo 4096 = Some s' \<and> vcol_alist_free s' 4096 = None)"
  using alist_clone_free [OF alist_demo_has] by blast

end
