(* ===== verification/Vcol_Str.thy ===== *)
theory Vcol_Str
  imports Vcol_ArrayList "HOL-Library.Sublist"
begin

text \<open>
  The string operations \<^verbatim>\<open>vstr_*\<close> of \<^verbatim>\<open>vesta_collections.c\<close>.  They read raw byte blocks: a
  pointer argument is \<open>None\<close> (null) or \<open>Some b\<close> with \<open>b\<close> the block it points to, and a pointer
  into the haystack is its offset from the start of the block.  The main result is that
  \<^verbatim>\<open>vstr_memmem\<close>, whichever of its four strategies it takes (empty needle, \<^verbatim>\<open>memchr\<close>,
  \<^verbatim>\<open>memchr\<close> with \<^verbatim>\<open>memcmp\<close>, Boyer-Moore-Horspool), returns the first occurrence.
\<close>

section \<open>The libc functions on bytes\<close>

text \<open>The \<open>n\<close> bytes at \<open>p\<close>; they must lie in the block and have been written.\<close>

definition segment :: "u8 buf \<Rightarrow> u64 \<Rightarrow> u64 \<Rightarrow> u8 list option" where
  "segment b p n = (if unat p + unat n \<le> length b then those (take (unat n) (drop (unat p) b)) else None)"

fun byte_order :: "u8 list \<Rightarrow> u8 list \<Rightarrow> int" where
  "byte_order (x # xs) (y # ys) = (if x = y then byte_order xs ys else if x < y then - 1 else 1)"
| "byte_order _ _ = 0"

definition memcmp :: "u8 buf \<Rightarrow> u64 \<Rightarrow> u8 buf \<Rightarrow> u64 \<Rightarrow> u64 \<Rightarrow> int option" where
  "memcmp b p d q n = do { xs \<leftarrow> segment b p n; ys \<leftarrow> segment d q n; Some (byte_order xs ys) }"

text \<open>\<^verbatim>\<open>memchr\<close> reads byte after byte and stops at the first match.\<close>

fun memchr_loop :: "u8 buf \<Rightarrow> u64 \<Rightarrow> u8 \<Rightarrow> nat \<Rightarrow> u64 option option" where
  "memchr_loop b p c 0 = Some None"
| "memchr_loop b p c (Suc n) = do { x \<leftarrow> rd b p; if x = c then Some (Some p) else memchr_loop b (p + 1) c n }"

definition memchr :: "u8 buf \<Rightarrow> u64 \<Rightarrow> u8 \<Rightarrow> u64 \<Rightarrow> u64 option option" where
  "memchr b p c n = memchr_loop b p c (unat n)"

section \<open>The operations\<close>

text \<open>The loop of the naive strategy; \<open>h\<close> moves, \<open>fin\<close> is \<^verbatim>\<open>end_search\<close>.\<close>

partial_function (option) vstr_naive_loop ::
  "u8 buf \<Rightarrow> u64 \<Rightarrow> u64 \<Rightarrow> u8 buf \<Rightarrow> u64 \<Rightarrow> u8 \<Rightarrow> u64 option option" where
  "vstr_naive_loop hb h fin n nlen fst_byte =
     (if h < fin
      then do {
        p \<leftarrow> memchr hb h fst_byte (fin - h);
        case p of None \<Rightarrow> Some None
        | Some p \<Rightarrow> do {
            r \<leftarrow> memcmp hb p n 0 nlen;
            if r = 0 then Some (Some p) else vstr_naive_loop hb (p + 1) fin n nlen fst_byte
          }
      }
      else Some None)"

text \<open>The second loop that fills the skip table.\<close>

function vstr_skip_loop :: "u8 buf \<Rightarrow> u64 \<Rightarrow> u64 list \<Rightarrow> u64 \<Rightarrow> u64 list option" where
  "vstr_skip_loop n nlen skip i =
     (if i + 1 < nlen
      then do { c \<leftarrow> rd n i; vstr_skip_loop n nlen (skip[unat c := nlen - 1 - i]) (i + 1) }
      else Some skip)"
  by pat_completeness auto
termination
proof (relation "measure (\<lambda>(n, nlen, skip, i). unat nlen - unat (i + 1))")
  fix n :: "u8 buf" and nlen i :: u64 and skip :: "u64 list" and c :: u8
  assume "i + 1 < nlen"
  then have "unat (i + 1 + 1) = Suc (unat (i + 1))" "unat (i + 1) < unat nlen"
    by (rule unat_inc_less) (use \<open>i + 1 < nlen\<close> in \<open>simp add: word_less_nat_alt\<close>)
  then show "((n, nlen, skip[unat c := nlen - 1 - i], i + 1), n, nlen, skip, i)
      \<in> measure (\<lambda>(n, nlen, skip, i). unat nlen - unat (i + 1))" by simp
qed simp

partial_function (option) vstr_horspool_loop ::
  "u8 buf \<Rightarrow> u64 \<Rightarrow> u64 \<Rightarrow> u8 buf \<Rightarrow> u64 \<Rightarrow> u64 list \<Rightarrow> u64 \<Rightarrow> u64 option option" where
  "vstr_horspool_loop hb h hlen n nlen skip i =
     (if i + nlen \<le> hlen
      then do {
        r \<leftarrow> memcmp hb (h + i) n 0 nlen;
        if r = 0 then Some (Some (h + i))
        else do {
          c \<leftarrow> rd hb (h + (i + nlen - 1));
          vstr_horspool_loop hb h hlen n nlen skip (i + skip ! unat c)
        }
      }
      else Some None)"

definition vstr_memmem :: "u8 buf \<Rightarrow> u64 \<Rightarrow> u64 \<Rightarrow> u8 buf \<Rightarrow> u64 \<Rightarrow> u64 option option" where
  "vstr_memmem hb h hlen n nlen =
     (if nlen = 0 then Some (Some h)
      else if hlen < nlen then Some None
      else if nlen = 1 then do { c \<leftarrow> rd n 0; memchr hb h c hlen }
      else if nlen \<le> 4 \<or> hlen \<le> 32
      then do { c \<leftarrow> rd n 0; vstr_naive_loop hb h (h + (hlen - nlen) + 1) n nlen c }
      else do {
        skip \<leftarrow> vstr_skip_loop n nlen (replicate 256 nlen) 0;
        vstr_horspool_loop hb h hlen n nlen skip 0
      })"

definition vstr_indexof :: "u8 buf option \<Rightarrow> u64 \<Rightarrow> u8 buf option \<Rightarrow> u64 \<Rightarrow> u64 option" where
  "vstr_indexof h haystack_len n needle_len =
     (case (h, n) of (Some h, Some n) \<Rightarrow> do {
          p \<leftarrow> vstr_memmem h 0 haystack_len n needle_len;
          Some (case p of Some p \<Rightarrow> p - 0 | None \<Rightarrow> VCOL_NOT_FOUND)
        }
      | _ \<Rightarrow> Some VCOL_NOT_FOUND)"

definition vstr_indexof_from :: "u8 buf option \<Rightarrow> u64 \<Rightarrow> u8 buf option \<Rightarrow> u64 \<Rightarrow> u64 \<Rightarrow> u64 option" where
  "vstr_indexof_from h haystack_len n needle_len start =
     (if start \<ge> haystack_len then Some VCOL_NOT_FOUND
      else case (h, n) of (Some h, Some n) \<Rightarrow> do {
          p \<leftarrow> vstr_memmem h (0 + start) (haystack_len - start) n needle_len;
          Some (case p of Some p \<Rightarrow> p - 0 | None \<Rightarrow> VCOL_NOT_FOUND)
        }
      | _ \<Rightarrow> Some VCOL_NOT_FOUND)"

definition vstr_contains :: "u8 buf option \<Rightarrow> u64 \<Rightarrow> u8 buf option \<Rightarrow> u64 \<Rightarrow> u64 option" where
  "vstr_contains h haystack_len n needle_len =
     do { r \<leftarrow> vstr_indexof h haystack_len n needle_len; Some (if r \<noteq> VCOL_NOT_FOUND then 1 else 0) }"

definition vstr_starts_with :: "u8 buf option \<Rightarrow> u64 \<Rightarrow> u8 buf option \<Rightarrow> u64 \<Rightarrow> u64 option" where
  "vstr_starts_with h haystack_len n needle_len =
     (if needle_len > haystack_len then Some 0
      else case (h, n) of (Some h, Some n) \<Rightarrow>
          do { r \<leftarrow> memcmp h 0 n 0 needle_len; Some (if r = 0 then 1 else 0) }
      | _ \<Rightarrow> Some 0)"

definition vstr_ends_with :: "u8 buf option \<Rightarrow> u64 \<Rightarrow> u8 buf option \<Rightarrow> u64 \<Rightarrow> u64 option" where
  "vstr_ends_with h haystack_len n needle_len =
     (if needle_len > haystack_len then Some 0
      else case (h, n) of (Some h, Some n) \<Rightarrow>
          do { r \<leftarrow> memcmp h (haystack_len - needle_len) n 0 needle_len; Some (if r = 0 then 1 else 0) }
      | _ \<Rightarrow> Some 0)"

text \<open>The loop of the two case conversions: each byte in the range \<open>lo..hi\<close> is rewritten.\<close>

function vstr_case_loop :: "u8 \<Rightarrow> u8 \<Rightarrow> u8 \<Rightarrow> u8 buf \<Rightarrow> u64 \<Rightarrow> u64 \<Rightarrow> u8 buf option" where
  "vstr_case_loop lo hi delta b len i =
     (if i < len
      then do {
        x \<leftarrow> rd b i;
        b \<leftarrow> (if x \<ge> lo \<and> x \<le> hi then wr b i (x + delta) else Some b);
        vstr_case_loop lo hi delta b len (i + 1)
      }
      else Some b)"
  by pat_completeness auto
termination
  by (relation "measure (\<lambda>(lo, hi, delta, b, n, i). unat n - unat i)")
    (auto simp: unat_inc_less word_less_nat_alt)

definition vstr_lower_inplace :: "u8 buf option \<Rightarrow> u64 \<Rightarrow> u8 buf option option" where
  "vstr_lower_inplace p len =
     (case p of None \<Rightarrow> Some None | Some b \<Rightarrow> map_option Some (vstr_case_loop 65 90 32 b len 0))"

definition vstr_upper_inplace :: "u8 buf option \<Rightarrow> u64 \<Rightarrow> u8 buf option option" where
  "vstr_upper_inplace p len =
     (case p of None \<Rightarrow> Some None | Some b \<Rightarrow> map_option Some (vstr_case_loop 97 122 (- 32) b len 0))"

definition vstr_is_ws :: "u8 \<Rightarrow> bool" where
  "vstr_is_ws c \<longleftrightarrow> c = 32 \<or> c = 9 \<or> c = 10 \<or> c = 13 \<or> c = 11 \<or> c = 12"

function vstr_trim_start_loop :: "u8 buf \<Rightarrow> u64 \<Rightarrow> u64 \<Rightarrow> u64 option" where
  "vstr_trim_start_loop b len i =
     (if i < len then do { x \<leftarrow> rd b i; if vstr_is_ws x then vstr_trim_start_loop b len (i + 1) else Some i }
      else Some i)"
  by pat_completeness auto
termination
  by (relation "measure (\<lambda>(b, len, i). unat len - unat i)")
    (auto simp: unat_inc_less word_less_nat_alt)

definition vstr_trim_start_offset :: "u8 buf option \<Rightarrow> u64 \<Rightarrow> u64 option" where
  "vstr_trim_start_offset p len =
     (case p of None \<Rightarrow> Some 0 | Some b \<Rightarrow> vstr_trim_start_loop b len 0)"

function vstr_trim_end_loop :: "u8 buf \<Rightarrow> u64 \<Rightarrow> u64 \<Rightarrow> u64 option" where
  "vstr_trim_end_loop b len strip =
     (if strip < len
      then do {
        x \<leftarrow> rd b (len - 1 - strip);
        if vstr_is_ws x then vstr_trim_end_loop b len (strip + 1) else Some strip
      }
      else Some strip)"
  by pat_completeness auto
termination
  by (relation "measure (\<lambda>(b, len, i). unat len - unat i)")
    (auto simp: unat_inc_less word_less_nat_alt)

definition vstr_trim_end_strip :: "u8 buf option \<Rightarrow> u64 \<Rightarrow> u64 option" where
  "vstr_trim_end_strip p len =
     (case p of None \<Rightarrow> Some 0 | Some b \<Rightarrow> vstr_trim_end_loop b len 0)"

text \<open>A piece of the split, offset and length in one word.\<close>

definition pack_piece :: "u64 \<Rightarrow> u64 \<Rightarrow> u64" where
  "pack_piece off len = (push_bit 32 off) OR (len AND 0xFFFFFFFF)"

partial_function (option) vstr_split_loop ::
  "store \<Rightarrow> u64 \<Rightarrow> u8 buf \<Rightarrow> u64 \<Rightarrow> u8 buf \<Rightarrow> u64 \<Rightarrow> u64 \<Rightarrow> store option" where
  "vstr_split_loop s lst h haystack_len d delim_len cur =
     (if cur \<le> haystack_len
      then do {
        m \<leftarrow> (if cur < haystack_len then vstr_memmem h cur (haystack_len - cur) d delim_len else Some None);
        case m of
          None \<Rightarrow> do {
            let off = cur;
            let len = haystack_len - cur;
            if len > 0 \<or> haystack_len = 0
            then do { (_, s) \<leftarrow> vcol_alist_push s lst (pack_piece off len); Some s }
            else Some s
          }
        | Some m \<Rightarrow> do {
            let off = cur;
            let len = m - cur;
            (_, s) \<leftarrow> vcol_alist_push s lst (pack_piece off len);
            vstr_split_loop s lst h haystack_len d delim_len (off + len + delim_len)
          }
      }
      else Some s)"

definition vstr_split_offsets ::
  "store \<Rightarrow> u8 buf option \<Rightarrow> u64 \<Rightarrow> u8 buf option \<Rightarrow> u64 \<Rightarrow> (u64 \<times> store) option" where
  "vstr_split_offsets s h haystack_len d delim_len =
     (case h of None \<Rightarrow> Some (VCOL_NULL, s)
      | Some h \<Rightarrow>
          (let (lst, s) = vcol_alist_new s 16
           in if lst = 0 then Some (VCOL_NULL, s)
              else if delim_len = 0 \<or> d = None
              then do { (_, s) \<leftarrow> vcol_alist_push s lst (pack_piece 0 haystack_len); Some (lst, s) }
              else do { s \<leftarrow> vstr_split_loop s lst h haystack_len (the d) delim_len 0; Some (lst, s) }))"

declare vstr_skip_loop.simps [simp del] vstr_case_loop.simps [simp del]
  vstr_trim_start_loop.simps [simp del] vstr_trim_end_loop.simps [simp del]

section \<open>The specification of the search\<close>

definition match_at :: "'c list \<Rightarrow> 'c list \<Rightarrow> nat \<Rightarrow> bool" where
  "match_at hs ns i \<longleftrightarrow> i + length ns \<le> length hs \<and> take (length ns) (drop i hs) = ns"

fun first_match :: "'c list \<Rightarrow> 'c list \<Rightarrow> nat option" where
  "first_match ns [] = (if ns = [] then Some 0 else None)"
| "first_match ns (x # xs) =
     (if take (length ns) (x # xs) = ns then Some 0 else map_option Suc (first_match ns xs))"

lemma take_eq_length: "take (length ns) hs = ns \<Longrightarrow> length ns \<le> length hs"
  by (metis length_take min.absorb_iff1 min.commute)

lemma match_at_0: "match_at hs ns 0 \<longleftrightarrow> take (length ns) hs = ns"
  by (auto simp: match_at_def dest: take_eq_length)

lemma match_at_Suc [simp]: "match_at (x # xs) ns (Suc i) \<longleftrightarrow> match_at xs ns i"
  by (simp add: match_at_def)

lemma match_at_Nil [simp]: "match_at [] ns i \<longleftrightarrow> ns = [] \<and> i = 0"
  by (auto simp: match_at_def)

lemma match_at_nth: "match_at hs ns i \<Longrightarrow> j < length ns \<Longrightarrow> hs ! (i + j) = ns ! j"
  unfolding match_at_def by (metis add_leD1 nth_drop nth_take)

lemma first_match_Some:
  "first_match ns hs = Some j \<longleftrightarrow> match_at hs ns j \<and> (\<forall>k < j. \<not> match_at hs ns k)"
proof (induction hs arbitrary: j)
  case Nil
  then show ?case by auto
next
  case (Cons x xs)
  have 0: "match_at (x # xs) ns 0 \<longleftrightarrow> take (length ns) (x # xs) = ns" by (rule match_at_0)
  show ?case
  proof (cases j)
    case 0
    then show ?thesis using match_at_0 [of "x # xs" ns] by auto
  next
    case (Suc i)
    have "(\<forall>k < Suc i. \<not> match_at (x # xs) ns k) \<longleftrightarrow> \<not> match_at (x # xs) ns 0 \<and> (\<forall>k < i. \<not> match_at xs ns k)"
      by (metis Suc_less_eq match_at_Suc not0_implies_Suc zero_less_Suc)
    then show ?thesis using Suc 0 Cons.IH [of i] by simp
  qed
qed

lemma first_match_None: "first_match ns hs = None \<longleftrightarrow> (\<forall>k. \<not> match_at hs ns k)"
proof (induction hs)
  case (Cons x xs)
  have "(\<forall>k. \<not> match_at (x # xs) ns k) \<longleftrightarrow> \<not> match_at (x # xs) ns 0 \<and> (\<forall>k. \<not> match_at xs ns k)"
    by (metis match_at_Suc not0_implies_Suc)
  then show ?case using Cons.IH by (auto simp: match_at_0)
qed simp

text \<open>How the proofs of the loops use it: nothing before \<open>i\<close>, then a match or the end.\<close>

lemma first_match_hit:
  "match_at hs ns i \<Longrightarrow> \<forall>k < i. \<not> match_at hs ns k \<Longrightarrow> first_match ns hs = Some i"
  by (simp add: first_match_Some)

lemma first_match_miss:
  "\<forall>k < i. \<not> match_at hs ns k \<Longrightarrow> length hs < i + length ns \<Longrightarrow> first_match ns hs = None"
  by (force simp: first_match_None match_at_def)

section \<open>Bytes in a block\<close>

text \<open>The bytes \<open>xs\<close> lie at offset \<open>p\<close> of a block of a size an object can have.\<close>

definition bytes_at :: "u8 buf \<Rightarrow> u64 \<Rightarrow> u8 list \<Rightarrow> bool" where
  "bytes_at b p xs \<longleftrightarrow> unat p + length xs \<le> length b \<and> length b < 2 ^ 63
     \<and> take (length xs) (drop (unat p) b) = map Some xs"

lemma bytes_at_len: "bytes_at b p xs \<Longrightarrow> unat p + length xs < 2 ^ 63"
  by (simp add: bytes_at_def)

lemma bytes_at_nth: "bytes_at b p xs \<Longrightarrow> i < length xs \<Longrightarrow> b ! (unat p + i) = Some (xs ! i)"
  unfolding bytes_at_def by (metis (no_types, lifting) add_leD1 nth_drop nth_map nth_take)

lemma bytes_at_rd:
  assumes "bytes_at b p xs" and "unat q = unat p + i" and "i < length xs"
  shows "rd b q = Some (xs ! i)"
  using assms bytes_at_nth [OF assms(1,3)] by (simp add: rd_def bytes_at_def)

lemma bytes_at_sub:
  assumes "bytes_at b p xs" and "unat q = unat p + i" and "i + n \<le> length xs"
  shows "bytes_at b q (take n (drop i xs))"
proof -
  have "take n (drop (unat q) b) = take n (drop i (take (length xs) (drop (unat p) b)))"
    using assms by (simp add: take_drop add.commute min_def)
  also have "\<dots> = map Some (take n (drop i xs))"
    using assms(1) by (simp add: bytes_at_def take_map drop_map)
  finally show ?thesis using assms by (simp add: bytes_at_def)
qed

lemma bytes_at_segment: "bytes_at b p xs \<Longrightarrow> unat n = length xs \<Longrightarrow> segment b p n = Some xs"
  by (simp add: segment_def bytes_at_def)

lemma byte_order_eq: "length xs = length ys \<Longrightarrow> byte_order xs ys = 0 \<longleftrightarrow> xs = ys"
  by (induction xs ys rule: byte_order.induct) auto

lemma memcmp_match:
  assumes "bytes_at b p hs" and "bytes_at d 0 ns" and "unat nlen = length ns"
    and "unat q = unat p + i" and "i + length ns \<le> length hs"
  shows "\<exists>r. memcmp b q d 0 nlen = Some r \<and> (r = 0 \<longleftrightarrow> match_at hs ns i)"
proof -
  have "bytes_at b q (take (length ns) (drop i hs))"
    using assms bytes_at_sub by blast
  then have "segment b q nlen = Some (take (length ns) (drop i hs))"
    using assms by (intro bytes_at_segment) auto
  moreover have "segment d 0 nlen = Some ns" using assms by (intro bytes_at_segment) auto
  ultimately show ?thesis
    using assms(5) by (simp add: memcmp_def byte_order_eq match_at_def)
qed

lemma memchr_loop_first:
  assumes "bytes_at b p hs" and "unat q = unat p + i" and "i + n \<le> length hs"
  shows "memchr_loop b q c n
    = Some (map_option (\<lambda>j. q + of_nat j) (index_of c (take n (drop i hs))))"
  using assms(2,3)
proof (induction n arbitrary: q i)
  case 0
  then show ?case by simp
next
  case (Suc n)
  have x: "rd b q = Some (hs ! i)" using Suc.prems assms(1) by (intro bytes_at_rd) auto
  have split: "take (Suc n) (drop i hs) = hs ! i # take n (drop (Suc i) hs)"
    using Suc.prems by (simp add: Cons_nth_drop_Suc [symmetric])
  have "unat (q + 1) = unat p + Suc i"
    using Suc.prems bytes_at_len [OF assms(1)] by (subst unat_add1) simp_all
  then have "memchr_loop b (q + 1) c n
      = Some (map_option (\<lambda>j. q + 1 + of_nat j) (index_of c (take n (drop (Suc i) hs))))"
    using Suc.prems by (intro Suc.IH) auto
  then show ?case using x split by (simp add: option.map_comp o_def algebra_simps)
qed

section \<open>The naive strategy\<close>

lemma match_at_first_byte: "match_at hs ns k \<Longrightarrow> ns \<noteq> [] \<Longrightarrow> hs ! k = ns ! 0"
  using match_at_nth [of hs ns k 0] by simp

lemma skip_to_first_byte:
  assumes "index_of (ns ! 0) (take m (drop i hs)) = Some j" and "ns \<noteq> []"
    and before: "\<forall>k < i. \<not> match_at hs ns k" and "i + m \<le> length hs"
  shows "\<forall>k < i + j. \<not> match_at hs ns k"
proof (intro allI impI notI)
  fix k assume k: "k < i + j" "match_at hs ns k"
  then have "i \<le> k" using before by (meson not_le)
  have j: "j < m" "\<forall>l < j. hs ! (i + l) \<noteq> ns ! 0" using assms(1,4) by (auto simp: index_of_Some)
  moreover have "k - i < j" using k \<open>i \<le> k\<close> by linarith
  ultimately have "hs ! (i + (k - i)) \<noteq> ns ! 0" by blast
  then show False using k match_at_first_byte [OF k(2) assms(2)] \<open>i \<le> k\<close> by simp
qed

lemma no_first_byte:
  assumes "index_of (ns ! 0) (take m (drop i hs)) = None" and "ns \<noteq> []"
    and before: "\<forall>k < i. \<not> match_at hs ns k" and m: "m = Suc (length hs - length ns) - i"
  shows "first_match ns hs = None"
  unfolding first_match_None
proof (intro allI notI)
  fix k assume k: "match_at hs ns k"
  then have bounds: "i \<le> k" "k + length ns \<le> length hs"
    using before by (meson not_le) (use k in \<open>simp add: match_at_def\<close>)
  have "k < length hs" using bounds assms(2) by (cases ns) auto
  have "hs ! (i + (k - i)) = ns ! 0" using match_at_first_byte [OF k assms(2)] bounds by simp
  then have "take m (drop i hs) ! (k - i) = ns ! 0" and "k - i < length (take m (drop i hs))"
    using bounds m \<open>k < length hs\<close> by (auto simp: Suc_diff_le)
  then show False using assms(1) by (metis index_of_None nth_mem)
qed

lemma vstr_naive_loop_ok:
  assumes hs: "bytes_at hb p hs" and ns: "bytes_at n 0 ns" "ns \<noteq> []" and nlen: "unat nlen = length ns"
    and le: "length ns \<le> length hs" and fin: "unat fin = unat p + Suc (length hs - length ns)"
    and h: "unat h = unat p + i" "i \<le> Suc (length hs - length ns)"
    and before: "\<forall>k < i. \<not> match_at hs ns k"
  shows "vstr_naive_loop hb h fin n nlen (ns ! 0) = Some (map_option (\<lambda>j. p + of_nat j) (first_match ns hs))"
  using h before
proof (induction "Suc (length hs) - i" arbitrary: h i rule: less_induct)
  case less
  show ?case
  proof (cases "h < fin")
    case False
    then have "i = Suc (length hs - length ns)" using less.prems fin by (simp add: word_less_nat_alt)
    then have "first_match ns hs = None" using less.prems(3) le by (intro first_match_miss [of i]) auto
    then show ?thesis using False by (subst vstr_naive_loop.simps) simp
  next
    case True
    define m where "m = Suc (length hs - length ns) - i"
    have m: "unat (fin - h) = m" "i + m \<le> length hs"
      using True fin less.prems(1) le length_greater_0_conv [of ns] ns(2)
      by (simp_all add: m_def unat_sub_small word_less_nat_alt del: length_greater_0_conv)
    have chr: "memchr hb h (ns ! 0) (fin - h)
        = Some (map_option (\<lambda>j. h + of_nat j) (index_of (ns ! 0) (take m (drop i hs))))"
      unfolding memchr_def m(1) using hs less.prems(1) m(2) by (rule memchr_loop_first)
    show ?thesis
    proof (cases "index_of (ns ! 0) (take m (drop i hs))")
      case None
      then have "first_match ns hs = None"
        using no_first_byte ns(2) less.prems(3) m_def by blast
      then show ?thesis using True chr None by (subst vstr_naive_loop.simps) simp
    next
      case (Some j)
      then have j: "j < m" using m(2) by (auto simp: index_of_Some)
      have none: "\<forall>k < i + j. \<not> match_at hs ns k"
        using Some ns(2) less.prems(3) m(2) by (rule skip_to_first_byte)
      have len: "unat p + length hs < 2 ^ 63" using hs by (rule bytes_at_len)
      have q: "unat (h + of_nat j) = unat p + (i + j)" "h + of_nat j = p + of_nat (i + j)"
        using less.prems(1) j m(2) len
        by (auto simp: unat_eq_iff64 unat_add_small unat_of_nat64)
      have "i + j + length ns \<le> length hs" using j le by (simp add: m_def)
      then obtain r where r: "memcmp hb (h + of_nat j) n 0 nlen = Some r" "r = 0 \<longleftrightarrow> match_at hs ns (i + j)"
        using memcmp_match [OF hs ns(1) nlen q(1)] by blast
      show ?thesis
      proof (cases "match_at hs ns (i + j)")
        case True
        then have "first_match ns hs = Some (i + j)" using none by (rule first_match_hit)
        then show ?thesis
          using \<open>h < fin\<close> chr Some r True q(2) by (subst vstr_naive_loop.simps) simp
      next
        case False
        have "unat (h + of_nat j + 1) = unat p + Suc (i + j)"
          using q(1) j m(2) len by (subst unat_add1) simp_all
        moreover have "\<forall>k < Suc (i + j). \<not> match_at hs ns k" using none False by (simp add: less_Suc_eq)
        ultimately have "vstr_naive_loop hb (h + of_nat j + 1) fin n nlen (ns ! 0)
            = Some (map_option (\<lambda>j. p + of_nat j) (first_match ns hs))"
          using j m(2) m_def by (intro less.hyps [of "Suc (i + j)"]) auto
        then show ?thesis
          using \<open>h < fin\<close> chr Some r False by (subst vstr_naive_loop.simps) simp
      qed
    qed
  qed
qed

section \<open>Boyer-Moore-Horspool\<close>

text \<open>After \<open>m\<close> bytes of the needle, the entry of a byte \<open>c\<close> reaches back to its last occurrence among them.\<close>

definition skip_table :: "u8 list \<Rightarrow> nat \<Rightarrow> u64 list \<Rightarrow> bool" where
  "skip_table ns m sk \<longleftrightarrow> length sk = 256 \<and>
     (\<forall>c :: u8. 1 \<le> unat (sk ! unat c) \<and> unat (sk ! unat c) \<le> length ns
        \<and> (\<forall>j < m. length ns \<le> j + unat (sk ! unat c) \<longrightarrow> ns ! j \<noteq> c))"

lemma unat_lt_256: "unat (c :: u8) < 256"
  using unsigned_less [of c, where ?'a = nat] by simp

lemma skip_table_init: "unat nlen = length ns \<Longrightarrow> ns \<noteq> [] \<Longrightarrow> skip_table ns 0 (replicate 256 nlen)"
  using unat_lt_256 by (simp add: skip_table_def Suc_le_eq)

lemma skip_table_step:
  assumes "skip_table ns m sk" and "Suc m < length ns" and "unat v = length ns - 1 - m"
  shows "skip_table ns (Suc m) (sk[unat (ns ! m) := v])"
  unfolding skip_table_def
proof (intro conjI allI impI)
  show "length (sk[unat (ns ! m) := v]) = 256" using assms(1) by (simp add: skip_table_def)
  fix c :: u8
  have upd: "sk[unat (ns ! m) := v] ! unat c = (if c = ns ! m then v else sk ! unat c)"
    using assms(1) unat_lt_256 by (auto simp: skip_table_def nth_list_update word_unat_eq_iff)
  show "1 \<le> unat (sk[unat (ns ! m) := v] ! unat c)" "unat (sk[unat (ns ! m) := v] ! unat c) \<le> length ns"
    using assms by (auto simp: upd skip_table_def)
  fix j assume j: "j < Suc m" "length ns \<le> j + unat (sk[unat (ns ! m) := v] ! unat c)"
  show "ns ! j \<noteq> c"
  proof (cases "c = ns ! m")
    case True
    then have "length ns \<le> j + (length ns - 1 - m)" using j(2) upd assms(3) by simp
    then show ?thesis using j(1) assms(2) by linarith
  next
    case False
    then show ?thesis using j upd assms(1) by (auto simp: skip_table_def less_Suc_eq)
  qed
qed

lemma vstr_skip_loop_ok:
  assumes "bytes_at n 0 ns" and "unat nlen = length ns" and "skip_table ns (unat i) sk" and "unat i < length ns"
  shows "\<exists>sk'. vstr_skip_loop n nlen sk i = Some sk' \<and> skip_table ns (length ns - 1) sk'"
  using assms
proof (induction n nlen sk i rule: vstr_skip_loop.induct)
  case (1 n nlen sk i)
  have i1: "unat (i + 1) = Suc (unat i)" using 1(3,5) by (intro unat_inc_less [of _ nlen]) (simp add: word_less_nat_alt)
  show ?case
  proof (cases "i + 1 < nlen")
    case True
    then have i: "Suc (unat i) < length ns" using i1 1(3) by (simp add: word_less_nat_alt)
    have c: "rd n i = Some (ns ! unat i)" using 1(2) i by (intro bytes_at_rd) auto
    have v: "unat (nlen - 1 - i) = length ns - 1 - unat i" using i 1(3) by (simp add: unat_sub_small)
    show ?thesis
      using 1(1) [OF True c 1(2,3)] skip_table_step [OF 1(4) i v] i i1 True c
      by (subst vstr_skip_loop.simps) simp
  next
    case False
    then have "unat i = length ns - 1" using i1 1(3,5) by (simp add: word_less_nat_alt)
    then show ?thesis using False 1(4) by (subst vstr_skip_loop.simps) simp
  qed
qed

text \<open>The shift is safe: no occurrence starts between the current position and the next one.\<close>

lemma skip_safe:
  assumes "skip_table ns (length ns - 1) sk" and "i + length ns \<le> length hs"
    and c: "c = hs ! (i + length ns - 1)" and "\<not> match_at hs ns i" and before: "\<forall>k < i. \<not> match_at hs ns k"
  shows "\<forall>k < i + unat (sk ! unat c). \<not> match_at hs ns k"
proof (intro allI impI notI)
  fix k assume k: "k < i + unat (sk ! unat c)" "match_at hs ns k"
  have "i < k" using k(2) before assms(4) by (metis linorder_neqE_nat)
  define j where "j = i + length ns - 1 - k"
  have "unat (sk ! unat c) \<le> length ns" using assms(1) by (simp add: skip_table_def)
  then have j: "j < length ns - 1" "length ns \<le> j + unat (sk ! unat c)" "k + j = i + length ns - 1"
    using k(1) \<open>i < k\<close> by (auto simp: j_def)
  then have "ns ! j \<noteq> c" using assms(1) by (simp add: skip_table_def)
  moreover have "hs ! (k + j) = ns ! j" using k(2) j(1) by (intro match_at_nth) auto
  ultimately show False using j(3) c by simp
qed

lemma vstr_horspool_loop_ok:
  assumes hs: "bytes_at hb h hs" and ns: "bytes_at n 0 ns" "ns \<noteq> []" and len: "unat nlen = length ns" "unat hlen = length hs"
    and sk: "skip_table ns (length ns - 1) sk" and i: "unat i \<le> length hs" and before: "\<forall>k < unat i. \<not> match_at hs ns k"
  shows "vstr_horspool_loop hb h hlen n nlen sk i = Some (map_option (\<lambda>j. h + of_nat j) (first_match ns hs))"
  using i before
proof (induction "length hs - unat i" arbitrary: i rule: less_induct)
  case less
  have small: "length ns < 2 ^ 63" "unat h + length hs < 2 ^ 63" using hs ns(1) bytes_at_len by fastforce+
  have sum: "unat (i + nlen) = unat i + length ns" using len small less.prems(1) by (simp add: unat_add_small)
  show ?case
  proof (cases "i + nlen \<le> hlen")
    case False
    then have "first_match ns hs = None"
      using less.prems(2) sum len by (intro first_match_miss [of "unat i"]) (auto simp: word_le_nat_alt)
    then show ?thesis using False by (subst vstr_horspool_loop.simps) simp
  next
    case True
    then have fits: "unat i + length ns \<le> length hs" using sum len by (simp add: word_le_nat_alt)
    have hi: "unat (h + i) = unat h + unat i" using small fits by (simp add: unat_add_small)
    obtain r where r: "memcmp hb (h + i) n 0 nlen = Some r" "r = 0 \<longleftrightarrow> match_at hs ns (unat i)"
      using memcmp_match [OF hs ns(1) len(1) hi fits] by blast
    show ?thesis
    proof (cases "match_at hs ns (unat i)")
      case hit: True
      then have "first_match ns hs = Some (unat i)" using less.prems(2) by (rule first_match_hit)
      then show ?thesis using True hit r by (subst vstr_horspool_loop.simps) simp
    next
      case miss: False
      define c where "c = hs ! (unat i + length ns - 1)"
      have "0 < length ns" using ns(2) by simp
      then have last_byte: "unat (i + nlen - 1) = unat i + length ns - 1" "unat i + length ns - 1 < length hs"
        using sum fits by (simp_all add: unat_sub_small del: length_greater_0_conv)
      then have "unat (h + (i + nlen - 1)) = unat h + (unat i + length ns - 1)"
        using small fits by (subst unat_add_small) simp_all
      then have rc: "rd hb (h + (i + nlen - 1)) = Some c"
        unfolding c_def using hs last_byte(2) by (intro bytes_at_rd)
      have k: "1 \<le> unat (sk ! unat c)" "unat (sk ! unat c) \<le> length ns" using sk by (simp_all add: skip_table_def)
      then have i': "unat (i + sk ! unat c) = unat i + unat (sk ! unat c)"
        using fits small by (intro unat_add_small) simp
      have "vstr_horspool_loop hb h hlen n nlen sk (i + sk ! unat c)
          = Some (map_option (\<lambda>j. h + of_nat j) (first_match ns hs))"
        using skip_safe [OF sk fits c_def miss less.prems(2)] k fits
        by (intro less.hyps) (simp_all add: i')
      then show ?thesis using True miss r rc by (subst vstr_horspool_loop.simps) simp
    qed
  qed
qed

text \<open>All strategies together.\<close>

lemma memchr_first_match:
  assumes "bytes_at b p hs" and "unat hlen = length hs"
  shows "memchr b p c hlen = Some (map_option (\<lambda>j. p + of_nat j) (first_match [c] hs))"
proof -
  have "index_of c hs = first_match [c] hs" by (induction hs) auto
  then show ?thesis using memchr_loop_first [OF assms(1), of p 0 "length hs" c] assms(2) by (simp add: memchr_def)
qed

lemma vstr_memmem_ok:
  assumes hs: "bytes_at hb p hs" "unat hlen = length hs" and ns: "bytes_at n 0 ns" "unat nlen = length ns"
  shows "vstr_memmem hb p hlen n nlen = Some (map_option (\<lambda>j. p + of_nat j) (first_match ns hs))"
proof -
  have "length ns = 0 \<or> length hs < length ns \<or> length ns = 1 \<and> length ns \<le> length hs
      \<or> 2 \<le> length ns \<and> length ns \<le> length hs" by linarith
  then consider "ns = []" | "length hs < length ns" | "length ns = 1" "length ns \<le> length hs"
    | "2 \<le> length ns" "length ns \<le> length hs" by auto
  then show ?thesis
  proof cases
    case 1
    then have "first_match ns hs = Some 0" by (cases hs) auto
    then show ?thesis using 1 ns(2) by (simp add: vstr_memmem_def unat_eq_iff64)
  next
    case 2
    then have "first_match ns hs = None" by (intro first_match_miss [of 0]) auto
    moreover have "nlen \<noteq> 0" "hlen < nlen" using 2 hs(2) ns(2) by (auto simp: word_less_nat_alt unat_eq_iff64)
    ultimately show ?thesis by (simp add: vstr_memmem_def)
  next
    case 3
    then obtain c where c: "ns = [c]" by (cases ns) auto
    have "nlen = 1" "\<not> hlen < nlen" using 3 hs(2) ns(2) by (auto simp: word_less_nat_alt unat_eq_iff64)
    moreover have "rd n 0 = Some c" using bytes_at_rd [OF ns(1), of 0 0] c by simp
    ultimately show ?thesis using memchr_first_match [OF hs] c by (simp add: vstr_memmem_def)
  next
    case 4
    have nz: "nlen \<noteq> 0" "nlen \<noteq> 1" "\<not> hlen < nlen" using 4 hs(2) ns(2) by (auto simp: word_less_nat_alt unat_eq_iff64)
    have "ns \<noteq> []" using 4 by auto
    have "unat (hlen - nlen) = length hs - length ns" using 4 hs(2) ns(2) by (simp add: unat_sub_small)
    then have "unat (p + (hlen - nlen)) = unat p + (length hs - length ns)"
      using bytes_at_len [OF hs(1)] by (subst unat_add_small) simp_all
    then have fin: "unat (p + (hlen - nlen) + 1) = unat p + Suc (length hs - length ns)"
      using bytes_at_len [OF hs(1)] by (subst unat_add1) simp_all
    have c: "rd n 0 = Some (ns ! 0)" using bytes_at_rd [OF ns(1), of 0 0] \<open>ns \<noteq> []\<close> by simp
    have naive: "vstr_naive_loop hb p (p + (hlen - nlen) + 1) n nlen (ns ! 0)
        = Some (map_option (\<lambda>j. p + of_nat j) (first_match ns hs))"
      using vstr_naive_loop_ok [OF hs(1) ns(1) \<open>ns \<noteq> []\<close> ns(2) 4(2) fin, of p 0] by simp
    obtain sk where sk: "vstr_skip_loop n nlen (replicate 256 nlen) 0 = Some sk" "skip_table ns (length ns - 1) sk"
      using vstr_skip_loop_ok [OF ns, of 0] skip_table_init [OF ns(2)] \<open>ns \<noteq> []\<close> by fastforce
    have horspool: "vstr_horspool_loop hb p hlen n nlen sk 0
        = Some (map_option (\<lambda>j. p + of_nat j) (first_match ns hs))"
      using vstr_horspool_loop_ok [OF hs(1) ns(1) \<open>ns \<noteq> []\<close> ns(2) hs(2) sk(2), of 0] by simp
    show ?thesis using nz c naive sk(1) horspool by (simp add: vstr_memmem_def)
  qed
qed

section \<open>The searches on whole strings\<close>

text \<open>A string argument: a block whose first bytes are the \<open>len\<close> bytes of the string.\<close>

definition str_arg :: "u8 buf option \<Rightarrow> u64 \<Rightarrow> u8 list \<Rightarrow> bool" where
  "str_arg p len xs \<longleftrightarrow> unat len = length xs \<and> (\<exists>b. p = Some b \<and> bytes_at b 0 xs)"

lemma str_argD: "str_arg p len xs \<Longrightarrow> \<exists>b. p = Some b \<and> bytes_at b 0 xs \<and> unat len = length xs \<and> length xs < 2 ^ 63"
  using bytes_at_len by (force simp: str_arg_def)

lemma found_at_inj:
  "case r of None \<Rightarrow> True | Some j \<Rightarrow> j < 2 ^ 63 \<Longrightarrow> found_at r = VCOL_NOT_FOUND \<longleftrightarrow> r = None"
  by (auto simp: found_at_def VCOL_NOT_FOUND_def unat_eq_iff64 unat_of_nat64 split: option.splits)

lemma first_match_bound: "first_match ns hs = Some j \<Longrightarrow> j + length ns \<le> length hs"
  by (simp add: first_match_Some match_at_def)

lemma vstr_indexof_ok:
  assumes "str_arg h hlen hs" and "str_arg n nlen ns"
  shows "vstr_indexof h hlen n nlen = Some (found_at (first_match ns hs))"
proof -
  obtain hb nb where "h = Some hb" "bytes_at hb 0 hs" "unat hlen = length hs"
      and "n = Some nb" "bytes_at nb 0 ns" "unat nlen = length ns"
    using assms [THEN str_argD] by blast
  then show ?thesis
    by (simp add: vstr_indexof_def vstr_memmem_ok found_at_def split: option.splits)
qed

lemma vstr_indexof_from_ok:
  assumes "str_arg h hlen hs" and "str_arg n nlen ns"
  shows "vstr_indexof_from h hlen n nlen start =
    Some (if unat start < length hs then found_at (map_option ((+) (unat start)) (first_match ns (drop (unat start) hs)))
          else VCOL_NOT_FOUND)"
proof (cases "unat start < length hs")
  case True
  obtain hb nb where h: "h = Some hb" "bytes_at hb 0 hs" "unat hlen = length hs"
      and n: "n = Some nb" "bytes_at nb 0 ns" "unat nlen = length ns"
    using assms [THEN str_argD] by blast
  have "bytes_at hb start (take (length hs - unat start) (drop (unat start) hs))"
    using h True by (intro bytes_at_sub [of hb 0 hs]) auto
  then have rest: "bytes_at hb start (drop (unat start) hs)" by simp
  have len: "unat (hlen - start) = length (drop (unat start) hs)" using h True by (simp add: unat_sub_small)
  have "\<not> hlen \<le> start" using True h by (simp add: word_le_nat_alt)
  then show ?thesis
    using True h n vstr_memmem_ok [OF rest len n(2,3)]
    by (simp add: vstr_indexof_from_def found_at_def split: option.splits)
next
  case False
  then have "hlen \<le> start" using assms(1) by (simp add: str_arg_def word_le_nat_alt)
  then show ?thesis using False by (simp add: vstr_indexof_from_def)
qed

lemma vstr_contains_ok:
  assumes "str_arg h hlen hs" and "str_arg n nlen ns"
  shows "vstr_contains h hlen n nlen = Some (if \<exists>us vs. hs = us @ ns @ vs then 1 else 0)"
proof -
  have len: "length hs < 2 ^ 63" using str_argD [OF assms(1)] by blast
  have "found_at (first_match ns hs) = VCOL_NOT_FOUND \<longleftrightarrow> first_match ns hs = None"
    using first_match_bound [of ns hs] len by (intro found_at_inj) (auto split: option.splits)
  moreover have "match_at hs ns k \<longleftrightarrow> (\<exists>us vs. hs = us @ ns @ vs \<and> length us = k)" for k
  proof
    assume "match_at hs ns k"
    then have "hs = take k hs @ ns @ drop (k + length ns) hs" "length (take k hs) = k"
      unfolding match_at_def by (metis append_take_drop_id drop_drop add.commute) (use \<open>match_at hs ns k\<close> in \<open>simp add: match_at_def\<close>)
    then show "\<exists>us vs. hs = us @ ns @ vs \<and> length us = k" by blast
  qed (auto simp: match_at_def)
  then have "first_match ns hs = None \<longleftrightarrow> \<not> (\<exists>us vs. hs = us @ ns @ vs)" by (auto simp: first_match_None)
  ultimately show ?thesis by (simp add: vstr_contains_def vstr_indexof_ok [OF assms])
qed

lemma vstr_starts_ends_ok:
  assumes "str_arg h hlen hs" and "str_arg n nlen ns"
  shows "vstr_starts_with h hlen n nlen = Some (if prefix ns hs then 1 else 0)"
    and "vstr_ends_with h hlen n nlen = Some (if suffix ns hs then 1 else 0)"
proof -
  obtain hb nb where h: "h = Some hb" "bytes_at hb 0 hs" "unat hlen = length hs"
      and n: "n = Some nb" "bytes_at nb 0 ns" "unat nlen = length ns"
    using assms [THEN str_argD] by blast
  have pre: "prefix ns hs \<longleftrightarrow> match_at hs ns 0"
    by (auto simp: match_at_0 prefix_def take_is_prefix) (metis append_take_drop_id)
  have suf: "suffix ns hs \<longleftrightarrow> length ns \<le> length hs \<and> match_at hs ns (length hs - length ns)"
    by (auto simp: suffix_def match_at_def) (metis append_take_drop_id)
  show "vstr_starts_with h hlen n nlen = Some (if prefix ns hs then 1 else 0)"
  proof (cases "length ns \<le> length hs")
    case True
    then show ?thesis
      using h n memcmp_match [OF h(2) n(2,3), of 0 0] by (auto simp: vstr_starts_with_def pre word_less_nat_alt)
  next
    case False
    then show ?thesis using h n by (auto simp: vstr_starts_with_def pre word_less_nat_alt match_at_def)
  qed
  show "vstr_ends_with h hlen n nlen = Some (if suffix ns hs then 1 else 0)"
  proof (cases "length ns \<le> length hs")
    case True
    then have "unat (hlen - nlen) = unat (0 :: u64) + (length hs - length ns)"
      using h n by (simp add: unat_sub_small)
    then show ?thesis
      using True h n memcmp_match [OF h(2) n(2,3), of "hlen - nlen" "length hs - length ns"]
      by (auto simp: vstr_ends_with_def suf word_less_nat_alt)
  next
    case False
    then show ?thesis using h n by (auto simp: vstr_ends_with_def suf word_less_nat_alt)
  qed
qed

section \<open>Case conversion and trimming\<close>

definition recase :: "u8 \<Rightarrow> u8 \<Rightarrow> u8 \<Rightarrow> u8 \<Rightarrow> u8" where
  "recase lo hi delta x = (if lo \<le> x \<and> x \<le> hi then x + delta else x)"

abbreviation lower_byte :: "u8 \<Rightarrow> u8" where
  "lower_byte \<equiv> recase 65 90 32"

abbreviation upper_byte :: "u8 \<Rightarrow> u8" where
  "upper_byte \<equiv> recase 97 122 (- 32)"

lemma bytes_at_wr:
  assumes "bytes_at b 0 (ys @ x # xs)" and "unat i = length ys"
  shows "\<exists>b'. wr b i v = Some b' \<and> bytes_at b' 0 (ys @ v # xs) \<and> length b' = length b
    \<and> (\<forall>k > length ys. drop k b' = drop k b)"
proof -
  have "take (length (ys @ x # xs)) (b[length ys := Some v]) = map Some (ys @ v # xs)"
    using assms(1) by (simp add: bytes_at_def take_update_swap list_update_append)
  moreover have "length ys < length b" using assms(1) by (simp add: bytes_at_def)
  ultimately show ?thesis
    using assms by (simp add: wr_def bytes_at_def drop_update_cancel)
qed

lemma vstr_case_loop_ok:
  assumes "bytes_at b 0 (ys @ xs)" and "unat i = length ys" and "unat len = length ys + length xs"
  shows "\<exists>b'. vstr_case_loop lo hi delta b len i = Some b' \<and> bytes_at b' 0 (ys @ map (recase lo hi delta) xs)
    \<and> length b' = length b \<and> drop (unat len) b' = drop (unat len) b"
  using assms
proof (induction xs arbitrary: b i ys)
  case Nil
  then have "\<not> i < len" by (simp add: word_less_nat_alt)
  then show ?case using Nil by (subst vstr_case_loop.simps) simp
next
  case (Cons x xs)
  have i: "i < len" using Cons.prems by (simp add: word_less_nat_alt)
  have x: "rd b i = Some x" using bytes_at_rd [OF Cons.prems(1), of i "length ys"] Cons.prems(2) by simp
  obtain b1 where b1: "wr b i (x + delta) = Some b1" "bytes_at b1 0 (ys @ (x + delta) # xs)" "length b1 = length b"
      "\<forall>k > length ys. drop k b1 = drop k b"
    using bytes_at_wr [OF Cons.prems(1,2)] by blast
  define b2 where "b2 = (if lo \<le> x \<and> x \<le> hi then b1 else b)"
  have b2: "bytes_at b2 0 ((ys @ [recase lo hi delta x]) @ xs)" "length b2 = length b" "drop (unat len) b2 = drop (unat len) b"
    using b1 Cons.prems by (auto simp: b2_def recase_def)
  have "unat (i + 1) = length (ys @ [recase lo hi delta x])"
    using unat_inc_less [OF i] Cons.prems(2) by simp
  then obtain b' where b': "vstr_case_loop lo hi delta b2 len (i + 1) = Some b'"
      "bytes_at b' 0 (ys @ map (recase lo hi delta) (x # xs))" "length b' = length b2"
      "drop (unat len) b' = drop (unat len) b2"
    using Cons.IH [OF b2(1)] Cons.prems(3) by auto
  have "vstr_case_loop lo hi delta b len i = vstr_case_loop lo hi delta b2 len (i + 1)"
    using i x b1(1) by (subst vstr_case_loop.simps) (simp add: b2_def)
  then show ?case using b' b2 by simp
qed

lemma vstr_case_ok:
  assumes "str_arg (Some b) len xs"
  shows "\<exists>b'. vstr_lower_inplace (Some b) len = Some (Some b') \<and> str_arg (Some b') len (map lower_byte xs)
      \<and> drop (length xs) b' = drop (length xs) b"
    and "\<exists>b'. vstr_upper_inplace (Some b) len = Some (Some b') \<and> str_arg (Some b') len (map upper_byte xs)
      \<and> drop (length xs) b' = drop (length xs) b"
  using assms vstr_case_loop_ok [of b "[]" xs 0 len 65 90 32] vstr_case_loop_ok [of b "[]" xs 0 len 97 122 "- 32"]
  by (auto simp: str_arg_def vstr_lower_inplace_def vstr_upper_inplace_def)

lemma vstr_trim_start_loop_ok:
  assumes "bytes_at b 0 (ys @ xs)" and "unat i = length ys" and "unat len = length ys + length xs"
  shows "vstr_trim_start_loop b len i = Some (of_nat (length ys + length (takeWhile vstr_is_ws xs)))"
  using assms
proof (induction xs arbitrary: i ys)
  case Nil
  then have "of_nat (length ys) = i" by (simp flip: Nil.prems(2))
  then show ?case using Nil by (subst vstr_trim_start_loop.simps) (auto simp: word_less_nat_alt)
next
  case (Cons x xs)
  have i: "i < len" using Cons.prems by (simp add: word_less_nat_alt)
  have x: "rd b i = Some x" using bytes_at_rd [OF Cons.prems(1), of i "length ys"] Cons.prems(2) by simp
  have "of_nat (length ys) = i" by (simp flip: Cons.prems(2))
  moreover have "unat (i + 1) = length (ys @ [x])" using unat_inc_less [OF i] Cons.prems(2) by simp
  ultimately show ?case
    using i x Cons.IH [of "ys @ [x]" "i + 1"] Cons.prems by (subst vstr_trim_start_loop.simps) auto
qed

lemma vstr_trim_end_loop_ok:
  assumes "bytes_at b 0 (xs @ ys)" and "unat k = length ys" and "unat len = length xs + length ys"
  shows "vstr_trim_end_loop b len k = Some (of_nat (length ys + length (takeWhile vstr_is_ws (rev xs))))"
  using assms
proof (induction xs arbitrary: k ys rule: rev_induct)
  case Nil
  then have "of_nat (length ys) = k" by (simp flip: Nil.prems(2))
  then show ?case using Nil by (subst vstr_trim_end_loop.simps) (auto simp: word_less_nat_alt)
next
  case (snoc x xs)
  have k: "k < len" using snoc.prems by (simp add: word_less_nat_alt)
  have "unat (len - 1 - k) = unat (0 :: u64) + length xs"
    using snoc.prems by (simp add: unat_sub_small)
  then have x: "rd b (len - 1 - k) = Some x" using bytes_at_rd [OF snoc.prems(1), of "len - 1 - k" "length xs"] by simp
  have "of_nat (length ys) = k" by (simp flip: snoc.prems(2))
  moreover have "unat (k + 1) = length (x # ys)" using unat_inc_less [OF k] snoc.prems(2) by simp
  ultimately show ?case
    using k x snoc.IH [of "x # ys" "k + 1"] snoc.prems by (subst vstr_trim_end_loop.simps) auto
qed

lemma vstr_trim_ok:
  assumes "str_arg p len xs"
  shows "vstr_trim_start_offset p len = Some (of_nat (length (takeWhile vstr_is_ws xs)))"
    and "vstr_trim_end_strip p len = Some (of_nat (length (takeWhile vstr_is_ws (rev xs))))"
  using assms vstr_trim_start_loop_ok [of _ "[]" xs 0 len] vstr_trim_end_loop_ok [of _ xs "[]" 0 len]
  by (auto simp: str_arg_def vstr_trim_start_offset_def vstr_trim_end_strip_def)

text \<open>Cutting both ends, the way the header tells callers to.\<close>

lemma trim_both:
  assumes "\<exists>x \<in> set xs. \<not> P x"
  shows "length (takeWhile P xs) + length (takeWhile P (rev xs)) < length xs"
    and "take (length xs - length (takeWhile P xs) - length (takeWhile P (rev xs))) (drop (length (takeWhile P xs)) xs)
       = rev (dropWhile P (rev (dropWhile P xs)))"
proof -
  obtain us x vs where xs: "xs = us @ x # vs" "\<not> P x" "\<forall>u \<in> set us. P u"
    using split_list_first_prop [of xs "\<lambda>x. \<not> P x"] assms by blast
  have front: "takeWhile P xs = us" "dropWhile P xs = x # vs" using xs by (auto simp: takeWhile_append2 dropWhile_append2)
  have bk: "takeWhile P (rev xs) = takeWhile P (rev vs)" "takeWhile P (rev vs @ [x]) = takeWhile P (rev vs)"
    using xs by (simp_all add: takeWhile_tail)
  let ?n = "length (takeWhile P (rev vs))"
  have n: "?n \<le> length vs" using length_takeWhile_le [of P "rev vs"] by simp
  show "length (takeWhile P xs) + length (takeWhile P (rev xs)) < length xs" using front bk n xs(1) by simp
  have "rev (dropWhile P (rev (x # vs))) = take (Suc (length vs) - ?n) (x # vs)"
    using bk(2) n by (simp add: dropWhile_eq_drop rev_drop Suc_diff_le)
  then show "take (length xs - length (takeWhile P xs) - length (takeWhile P (rev xs))) (drop (length (takeWhile P xs)) xs)
       = rev (dropWhile P (rev (dropWhile P xs)))"
    using front bk xs(1) by simp
qed

lemma trim_all:
  assumes "\<forall>x \<in> set xs. P x"
  shows "takeWhile P xs = xs" and "length (takeWhile P (rev xs)) = length xs"
proof -
  have "takeWhile P (rev xs) = rev xs" using assms by (simp add: takeWhile_eq_all_conv)
  then show "length (takeWhile P (rev xs)) = length xs" by (metis length_rev)
qed (use assms in \<open>simp add: takeWhile_eq_all_conv\<close>)

section \<open>Splitting\<close>

text \<open>The pieces between the occurrences of a delimiter, left to right.\<close>

function split_on :: "u8 list \<Rightarrow> u8 list \<Rightarrow> u8 list list" where
  "split_on ds hs =
     (if ds = [] then [hs]
      else case first_match ds hs of
        None \<Rightarrow> [hs]
      | Some j \<Rightarrow> take j hs # split_on ds (drop (j + length ds) hs))"
  by pat_completeness auto
termination
proof (relation "measure (\<lambda>(ds, hs). length hs)")
  fix ds hs :: "u8 list" and j
  assume "ds \<noteq> []" and "first_match ds hs = Some j"
  then show "((ds, drop (j + length ds) hs), ds, hs) \<in> measure (\<lambda>(ds, hs). length hs)"
    using first_match_bound [of ds hs j] by (cases ds) auto
qed simp

declare split_on.simps [simp del]

fun join_with :: "u8 list \<Rightarrow> u8 list list \<Rightarrow> u8 list" where
  "join_with ds [] = []"
| "join_with ds [p] = p"
| "join_with ds (p # q # ps) = p @ ds @ join_with ds (q # ps)"

text \<open>The routine drops an empty last piece, except that the empty string has one empty piece.\<close>

definition drop_empty_last :: "bool \<Rightarrow> 'c list list \<Rightarrow> 'c list list" where
  "drop_empty_last e ps = (if e \<and> last ps = [] then butlast ps else ps)"

definition split_pieces :: "u8 list \<Rightarrow> u8 list \<Rightarrow> u8 list list" where
  "split_pieces ds hs = drop_empty_last (hs \<noteq> []) (split_on ds hs)"

fun piece_offsets :: "nat \<Rightarrow> nat \<Rightarrow> u8 list list \<Rightarrow> (nat \<times> nat) list" where
  "piece_offsets dl off [] = []"
| "piece_offsets dl off (p # ps) = (off, length p) # piece_offsets dl (off + length p + dl) ps"

definition pack_nat :: "nat \<times> nat \<Rightarrow> u64" where
  "pack_nat ol = pack_piece (of_nat (fst ol)) (of_nat (snd ol))"

definition unpack_piece :: "u64 \<Rightarrow> nat \<times> nat" where
  "unpack_piece v = (unat (drop_bit 32 v), unat (v AND 0xFFFFFFFF))"

lemma split_on_Cons: "\<exists>p ps. split_on ds hs = p # ps"
  by (subst split_on.simps) (auto split: option.splits)

lemma join_split:
  "join_with ds (split_on ds hs) = hs"
proof (induction ds hs rule: split_on.induct)
  case (1 ds hs)
  show ?case
  proof (cases "ds = [] \<or> first_match ds hs = None")
    case True
    then show ?thesis by (subst split_on.simps) auto
  next
    case False
    then obtain j where j: "ds \<noteq> []" "first_match ds hs = Some j" by auto
    obtain p ps where ps: "split_on ds (drop (j + length ds) hs) = p # ps" using split_on_Cons by blast
    have "take (length ds) (drop j hs) = ds" using j(2) by (simp add: first_match_Some match_at_def)
    then have "hs = take j hs @ ds @ drop (j + length ds) hs"
      by (metis append_take_drop_id drop_drop add.commute)
    moreover have "join_with ds (p # ps) = drop (j + length ds) hs" using 1 [OF j] ps by simp
    ultimately have "join_with ds (take j hs # p # ps) = hs" by simp
    then show ?thesis using j ps by (subst split_on.simps) simp
  qed
qed

lemma split_no_delim:
  assumes "p \<in> set (split_on ds hs)" and "ds \<noteq> []"
  shows "first_match ds p = None"
  using assms
proof (induction ds hs rule: split_on.induct)
  case (1 ds hs)
  show ?case
  proof (cases "first_match ds hs")
    case None
    then show ?thesis using 1(2,3) by (subst (asm) split_on.simps) simp
  next
    case (Some j)
    have "\<not> match_at (take j hs) ds k" for k
    proof
      assume k: "match_at (take j hs) ds k"
      then have "match_at hs ds k" by (auto simp: match_at_def drop_take min_def split: if_splits)
      moreover have "k < j" using k 1(3) by (cases ds) (auto simp: match_at_def)
      ultimately show False using Some by (simp add: first_match_Some)
    qed
    then have "first_match ds (take j hs) = None" by (simp add: first_match_None)
    then show ?thesis
      using 1(1) [OF 1(3) Some _ 1(3)] 1(2,3) Some by (subst (asm) split_on.simps) auto
  qed
qed

lemma drop_empty_last_Cons:
  "drop_empty_last e (p # split_on ds hs) = p # drop_empty_last e (split_on ds hs)"
  using split_on_Cons [of ds hs] by (auto simp: drop_empty_last_def)

lemma vstr_split_loop_ok:
  assumes h: "bytes_at hb 0 hs" "unat hlen = length hs"
    and d: "bytes_at db 0 ds" "unat dlen = length ds" "ds \<noteq> []" and cur: "unat cur \<le> length hs"
  shows "vstr_split_loop s lst hb hlen db dlen cur = push_all vcol_alist_push s lst
    (map pack_nat (piece_offsets (length ds) (unat cur) (drop_empty_last (hs \<noteq> []) (split_on ds (drop (unat cur) hs)))))"
  using cur
proof (induction "length hs - unat cur" arbitrary: s cur rule: less_induct)
  case less
  let ?rest = "drop (unat cur) hs"
  have small: "length hs < 2 ^ 63" using bytes_at_len [OF h(1)] by simp
  have le: "cur \<le> hlen" "cur < hlen \<longleftrightarrow> unat cur < length hs"
    using less.prems h(2) by (simp_all add: word_le_nat_alt word_less_nat_alt)
  have len: "unat (hlen - cur) = length ?rest" using less.prems h(2) by (simp add: unat_sub_small)
  then have len': "hlen - cur = of_nat (length ?rest)" by (metis unat_of_nat64 unat_eq_iff64 len small length_drop diff_le_self order_le_less_trans less_trans_Suc power_numeral_64 unat_lt64)
  have m: "(if cur < hlen then vstr_memmem hb cur (hlen - cur) db dlen else Some None)
      = Some (map_option (\<lambda>j. cur + of_nat j) (first_match ds ?rest))"
  proof (cases "cur < hlen")
    case True
    have "bytes_at hb cur (take (length ?rest) ?rest)"
      by (rule bytes_at_sub [OF h(1)]) (use less.prems in auto)
    then show ?thesis using True vstr_memmem_ok [OF _ len d(1,2)] by simp
  next
    case False
    then have "?rest = []" using le by simp
    then show ?thesis using False d(3) by simp
  qed
  show ?case
  proof (cases "first_match ds ?rest")
    case None
    have parts: "split_on ds ?rest = [?rest]" using None by (subst split_on.simps) simp
    have "hlen - cur > 0 \<or> hlen = 0 \<longleftrightarrow> \<not> (hs \<noteq> [] \<and> ?rest = [])"
      using len h(2) by (auto simp: word_less_nat_alt unat_eq_iff64)
    moreover have "pack_nat (unat cur, length ?rest) = pack_piece cur (hlen - cur)"
      by (simp add: pack_nat_def len')
    ultimately show ?thesis
      using le m None parts
      by (subst vstr_split_loop.simps) (auto simp: drop_empty_last_def Let_def)
  next
    case (Some j)
    have j: "j + length ds \<le> length ?rest" using Some by (rule first_match_bound)
    have "0 < length ds" using d(3) by simp
    have nj: "unat (of_nat j :: u64) = j" using j small by (intro unat_of_nat64) simp
    have "unat (cur + of_nat j) = unat cur + j" using nj j small less.prems by (subst unat_add_small) simp_all
    then have cur': "unat (cur + of_nat j + dlen) = unat cur + j + length ds"
      using d(2) j small less.prems by (subst unat_add_small) simp_all
    have parts: "split_on ds ?rest = take j ?rest # split_on ds (drop (j + length ds) ?rest)"
      using Some d(3) by (subst split_on.simps) simp
    have "vstr_split_loop s' lst hb hlen db dlen (cur + of_nat j + dlen) = push_all vcol_alist_push s' lst
        (map pack_nat (piece_offsets (length ds) (unat cur + j + length ds)
          (drop_empty_last (hs \<noteq> []) (split_on ds (drop (j + length ds) ?rest)))))" for s'
    proof -
      have "drop (unat cur + j + length ds) hs = drop (j + length ds) ?rest"
        by (simp add: add.commute add.left_commute)
      moreover have "length hs - (unat cur + j + length ds) < length hs - unat cur"
          and "unat cur + j + length ds \<le> length hs"
        using j less.prems \<open>0 < length ds\<close> unfolding length_drop by linarith+
      ultimately show ?thesis
        using less.hyps [of "cur + of_nat j + dlen" s', unfolded cur'] by simp
    qed
    moreover have "pack_nat (unat cur, j) = pack_piece cur (of_nat j)" by (simp add: pack_nat_def)
    moreover have "min (length hs - unat cur) j = j" using j by simp
    ultimately show ?thesis
      using le m Some j
      by (subst vstr_split_loop.simps) (simp add: parts drop_empty_last_Cons case_prod_beta Let_def)
  qed
qed

text \<open>Pushing without looking at the result keeps, in order, the elements that were not refused.\<close>

lemma alist_push_all_subseq:
  assumes "alist_has s h xs"
  shows "\<exists>s' ys. push_all vcol_alist_push s h vs = Some s' \<and> alist_has s' h (xs @ ys) \<and> subseq ys vs
    \<and> only_changes h s s'"
  using assms
proof (induction vs arbitrary: s xs)
  case Nil
  then show ?case by (auto intro: exI [of _ "[]"])
next
  case (Cons v vs)
  obtain r s1 xs1 where s1: "vcol_alist_push s h v = Some (r, s1)" "alist_has s1 h xs1" "only_changes h s s1"
      "xs1 = xs @ [v] \<or> xs1 = xs"
    using alist_api.call_step [OF Cons.prems, of "ALPush v"] by auto
  obtain s2 ys where s2: "push_all vcol_alist_push s1 h vs = Some s2" "alist_has s2 h (xs1 @ ys)" "subseq ys vs"
      "only_changes h s1 s2"
    using Cons.IH [OF s1(2)] by blast
  from s1(4) have "\<exists>zs. xs1 @ ys = xs @ zs \<and> subseq zs (v # vs)" using s2(3) by auto
  then show ?case using s1 s2 by (fastforce intro: only_changes_trans)
qed

lemma vstr_split_ok:
  assumes h: "str_arg h hlen hs" and d: "str_arg d dlen ds" and "ds \<noteq> []"
  shows "\<exists>lst s'. vstr_split_offsets s h hlen d dlen = Some (lst, s') \<and> only_changes lst s s'
    \<and> (lst = VCOL_NULL \<and> objs s' = objs s
       \<or> lst \<noteq> 0 \<and> objs s lst = None
         \<and> (let vs = map pack_nat (piece_offsets (length ds) 0 (split_pieces ds hs))
            in \<exists>ys. alist_has s' lst ys \<and> subseq ys vs \<and> (length vs \<le> 16 \<longrightarrow> ys = vs)))"
proof -
  obtain hb db where hb: "h = Some hb" "bytes_at hb 0 hs" "unat hlen = length hs"
      and db: "d = Some db" "bytes_at db 0 ds" "unat dlen = length ds"
    using h d str_argD by blast
  obtain lst s1 where new: "vcol_alist_new s 16 = (lst, s1)" by fastforce
  have "unat (16 :: u64) < 2 ^ 61" by simp
  note cs = alist_new_cases [OF this new]
  define vs where "vs = map pack_nat (piece_offsets (length ds) 0 (split_pieces ds hs))"
  have "dlen \<noteq> 0" using db(3) \<open>ds \<noteq> []\<close> by auto
  show ?thesis
  proof (cases "lst = 0")
    case True
    then have "vstr_split_offsets s h hlen d dlen = Some (VCOL_NULL, s1)" using hb new by (simp add: vstr_split_offsets_def)
    then show ?thesis using cs True by (auto simp: VCOL_NULL_def)
  next
    case False
    have cap: "alist_cap_has s1 lst 16 []" using alist_new_cap [OF _ new False] by simp
    have loop: "vstr_split_loop s1 lst hb hlen db dlen 0 = push_all vcol_alist_push s1 lst vs"
      using vstr_split_loop_ok [OF hb(2,3) db(2,3) \<open>ds \<noteq> []\<close>, of 0] by (simp add: vs_def split_pieces_def)
    obtain s2 ys where s2: "push_all vcol_alist_push s1 lst vs = Some s2" "alist_has s2 lst ys" "subseq ys vs" "only_changes lst s1 s2"
      using alist_push_all_subseq [OF alist_cap_hasD [OF cap], of vs] by auto
    have "ys = vs" if "length vs \<le> 16"
      using alist_growable.push_all_appends [OF cap, of vs] that s2(1,2) alist_cap_hasD alist_has_unique by fastforce
    moreover have "vstr_split_offsets s h hlen d dlen = Some (lst, s2)"
      using hb db new False \<open>dlen \<noteq> 0\<close> loop s2(1) by (simp add: vstr_split_offsets_def)
    moreover have "only_changes lst s s2" using cs(2) s2(4) by (rule only_changes_trans)
    ultimately show ?thesis using False cs(1) s2 by (auto simp: vs_def [symmetric] VCOL_NULL_def)
  qed
qed

text \<open>Decoding the pushed words gives back the pieces.\<close>

lemma unpack_pack:
  assumes "off < 2 ^ 32" and "len < 2 ^ 32"
  shows "unpack_piece (pack_nat (off, len)) = (off, len)"
proof -
  have small: "take_bit 32 (of_nat n :: u64) = of_nat n" if "n < 2 ^ 32" for n
    using that by (simp add: unat_eq_iff64 unsigned_take_bit_eq unat_of_nat64 take_bit_nat_eq_self)
  have m: "(0xFFFFFFFF :: u64) = mask 32" by (simp add: mask_eq_exp_minus_1)
  define o' l' where "o' = (of_nat off :: u64)" and "l' = (of_nat len :: u64)"
  have o': "take_bit 32 o' = o'" and l': "take_bit 32 l' = l'" using small assms by (simp_all add: o'_def l'_def)
  have "drop_bit 32 (pack_piece o' l') = take_bit 32 o'"
    unfolding pack_piece_def m take_bit_eq_mask [symmetric]
    by (rule bit_eqI) (auto simp: bit_simps)
  moreover have "pack_piece o' l' AND 0xFFFFFFFF = take_bit 32 l'"
    unfolding pack_piece_def m take_bit_eq_mask [symmetric]
    by (rule bit_eqI) (auto simp: bit_simps)
  ultimately show ?thesis
    using assms by (simp add: unpack_piece_def pack_nat_def o' l' flip: o'_def l'_def)
      (simp add: o'_def l'_def unat_of_nat64)
qed

definition slice :: "'c list \<Rightarrow> nat \<times> nat \<Rightarrow> 'c list" where
  "slice xs ol = take (snd ol) (drop (fst ol) xs)"

lemma piece_offsets_slices:
  assumes "hs = us @ join_with ds ps"
  shows "map (slice hs) (piece_offsets (length ds) (length us) ps) = ps
    \<and> (\<forall>ol \<in> set (piece_offsets (length ds) (length us) ps). fst ol + snd ol \<le> length hs)"
  using assms
proof (induction ds ps arbitrary: us rule: join_with.induct)
  case (3 ds p q ps)
  have "hs = (us @ p @ ds) @ join_with ds (q # ps)" using 3(2) by simp
  from 3(1) [OF this] show ?case using 3(2) by (simp add: slice_def add.assoc)
qed (auto simp: slice_def)

lemma piece_offsets_butlast: "piece_offsets dl off (butlast ps) = butlast (piece_offsets dl off ps)"
  by (induction dl off ps rule: piece_offsets.induct) (auto, (case_tac ps; simp)+)

lemma split_roundtrip:
  assumes "length hs < 2 ^ 32"
  shows "map (slice hs \<circ> unpack_piece \<circ> pack_nat) (piece_offsets (length ds) 0 (split_pieces ds hs)) = split_pieces ds hs"
proof -
  let ?ols = "piece_offsets (length ds) 0"
  have all: "map (slice hs) (?ols (split_on ds hs)) = split_on ds hs"
    and bound: "\<forall>ol \<in> set (?ols (split_on ds hs)). fst ol + snd ol \<le> length hs"
    using piece_offsets_slices [of hs "[]" ds "split_on ds hs"] join_split [of ds hs] by auto
  have sub: "set (?ols (split_pieces ds hs)) \<subseteq> set (?ols (split_on ds hs))"
    by (auto simp: split_pieces_def drop_empty_last_def piece_offsets_butlast dest: in_set_butlastD)
  have "(slice hs \<circ> unpack_piece \<circ> pack_nat) ol = slice hs ol" if "ol \<in> set (?ols (split_pieces ds hs))" for ol
    using that sub bound assms unpack_pack [of "fst ol" "snd ol"] by fastforce
  then have "map (slice hs \<circ> unpack_piece \<circ> pack_nat) (?ols (split_pieces ds hs)) = map (slice hs) (?ols (split_pieces ds hs))"
    by (rule map_cong [OF refl])
  also have "\<dots> = split_pieces ds hs"
    using all by (simp add: split_pieces_def drop_empty_last_def piece_offsets_butlast map_butlast)
  finally show ?thesis .
qed

section \<open>Properties\<close>

abbreviation bytes :: "u8 list \<Rightarrow> u8 buf option" where
  "bytes xs \<equiv> Some (map Some xs)"

lemma bytes_str_arg: "length xs < 2 ^ 63 \<Longrightarrow> unat len = length xs \<Longrightarrow> str_arg (bytes xs) len xs"
  by (simp add: str_arg_def bytes_at_def)

text \<open>C34. Substring search returns, whatever strategy the lengths select, and returns the offset of the first
  occurrence of the needle, or \<^verbatim>\<open>VCOL_NOT_FOUND\<close> when there is none.\<close>

theorem indexof_is_first_occurrence:
  assumes "str_arg h hlen hs" and "str_arg n nlen ns"
  shows "(\<exists>j. vstr_indexof h hlen n nlen = Some (of_nat j) \<and> match_at hs ns j \<and> (\<forall>k < j. \<not> match_at hs ns k))
    \<or> vstr_indexof h hlen n nlen = Some VCOL_NOT_FOUND \<and> (\<forall>k. \<not> match_at hs ns k)"
proof (cases "first_match ns hs")
  case None
  then have "\<forall>k. \<not> match_at hs ns k" by (simp add: first_match_None)
  then show ?thesis using None vstr_indexof_ok [OF assms] by (simp add: found_at_def)
next
  case (Some j)
  then have "match_at hs ns j \<and> (\<forall>k < j. \<not> match_at hs ns k)" by (simp add: first_match_Some)
  then show ?thesis using Some vstr_indexof_ok [OF assms] by (auto simp: found_at_def)
qed

theorem indexof_is_first_occurrence_witness:
  "\<exists>j. vstr_indexof (bytes [97, 98, 97, 98, 99]) 5 (bytes [97, 98, 99]) 3 = Some (of_nat j)
     \<and> match_at [97, 98, 97, 98, 99 :: u8] [97, 98, 99] j"
proof -
  have "match_at [97, 98, 97, 98, 99 :: u8] [97, 98, 99] 2" by (simp add: match_at_def)
  then show ?thesis
    using indexof_is_first_occurrence [of "bytes [97, 98, 97, 98, 99]" 5 "[97, 98, 97, 98, 99]" "bytes [97, 98, 99]" 3 "[97, 98, 99]"]
    by (auto simp: str_arg_def bytes_at_def)
qed

text \<open>Searching from a start offset finds the first occurrence in the rest of the string, as an offset into
  the whole string; a start at or past the end finds nothing, not even the empty needle.\<close>

theorem indexof_from_searches_rest:
  assumes "str_arg h hlen hs" and "str_arg n nlen ns"
  shows "vstr_indexof_from h hlen n nlen start =
    Some (if unat start < length hs
          then found_at (map_option ((+) (unat start)) (first_match ns (drop (unat start) hs)))
          else VCOL_NOT_FOUND)"
  using assms by (rule vstr_indexof_from_ok)

theorem indexof_from_searches_rest_witness:
  "vstr_indexof_from (bytes [97, 98, 97, 98, 99]) 5 (bytes [97, 98]) 2 1 = Some 2"
  using indexof_from_searches_rest [of "bytes [97, 98, 97, 98, 99]" 5 "[97, 98, 97, 98, 99]" "bytes [97, 98]" 2 "[97, 98]" 1]
  by (simp add: str_arg_def bytes_at_def found_at_def)

text \<open>The three tests decide what they announce: containment, prefix and suffix.\<close>

theorem string_tests_decide:
  assumes "str_arg h hlen hs" and "str_arg n nlen ns"
  shows "vstr_contains h hlen n nlen = Some (if \<exists>us vs. hs = us @ ns @ vs then 1 else 0)
    \<and> vstr_starts_with h hlen n nlen = Some (if prefix ns hs then 1 else 0)
    \<and> vstr_ends_with h hlen n nlen = Some (if suffix ns hs then 1 else 0)"
  using vstr_contains_ok [OF assms] vstr_starts_ends_ok [OF assms] by blast

theorem string_tests_decide_witness:
  "vstr_starts_with (bytes [97, 98, 99]) 3 (bytes [97, 98]) 2 = Some 1
   \<and> vstr_ends_with (bytes [97, 98, 99]) 3 (bytes [97, 98]) 2 = Some 0"
  using string_tests_decide [of "bytes [97, 98, 99]" 3 "[97, 98, 99]" "bytes [97, 98]" 2 "[97, 98]"]
  by (simp add: str_arg_def bytes_at_def suffix_def append_eq_Cons_conv)

text \<open>The in-place case conversions return, map exactly the ASCII letters of the string to the other case,
  keep every other byte (all bytes from 0x80 on among them) and touch nothing behind the string.\<close>

theorem case_conversion:
  assumes "str_arg (Some b) len xs"
  shows "(\<exists>b'. vstr_lower_inplace (Some b) len = Some (Some b') \<and> str_arg (Some b') len (map lower_byte xs)
      \<and> drop (length xs) b' = drop (length xs) b)
    \<and> (\<exists>b'. vstr_upper_inplace (Some b) len = Some (Some b') \<and> str_arg (Some b') len (map upper_byte xs)
      \<and> drop (length xs) b' = drop (length xs) b)"
  using vstr_case_ok [OF assms] by blast

theorem case_conversion_witness:
  "\<exists>b'. vstr_lower_inplace (bytes [65, 122, 200]) 3 = Some (Some b') \<and> str_arg (Some b') 3 [97, 122, 200]"
  using case_conversion [of "map Some [65, 122, 200]" 3 "[65, 122, 200]"] bytes_str_arg [of "[65, 122, 200]" 3]
  by (auto simp: recase_def)

text \<open>The two trim routines count the white space at either end.  When the string has another byte, the
  rest of the string after dropping both counts is the string without its surrounding white space; when it
  has none, both counts are the whole length, so that the length computed as
  \<open>len - start - strip\<close> is not a length.\<close>

theorem trim_counts:
  assumes "str_arg p len xs"
  shows "\<exists>start strip. vstr_trim_start_offset p len = Some start \<and> vstr_trim_end_strip p len = Some strip
    \<and> (if \<exists>x \<in> set xs. \<not> vstr_is_ws x
       then take (unat (len - start - strip)) (drop (unat start) xs)
          = rev (dropWhile vstr_is_ws (rev (dropWhile vstr_is_ws xs)))
       else start = len \<and> strip = len)"
proof -
  let ?a = "length (takeWhile vstr_is_ws xs)" and ?z = "length (takeWhile vstr_is_ws (rev xs))"
  have len: "unat len = length xs" "length xs < 2 ^ 63" using str_argD [OF assms] by blast+
  have sizes: "?a \<le> length xs" "?z \<le> length xs"
    using length_takeWhile_le [of _ xs] length_takeWhile_le [of _ "rev xs"] by auto
  then have nat: "unat (of_nat ?a :: u64) = ?a" "unat (of_nat ?z :: u64) = ?z" using len by (auto intro!: unat_of_nat64)
  have "unat (len - of_nat ?a - of_nat ?z) = length xs - ?a - ?z" if "\<exists>x \<in> set xs. \<not> vstr_is_ws x"
    using trim_both(1) [OF that] len nat by (simp add: unat_sub_small)
  moreover have "of_nat ?a = len \<and> of_nat ?z = len" if "\<forall>x \<in> set xs. vstr_is_ws x"
    using trim_all(2) [OF that] arg_cong [OF trim_all(1) [OF that], of length] len nat by (simp add: unat_eq_iff64)
  ultimately show ?thesis
    using vstr_trim_ok [OF assms] trim_both(2) [of xs vstr_is_ws] nat by auto
qed

theorem trim_counts_witness:
  "\<exists>start strip. vstr_trim_start_offset (bytes [32, 32]) 2 = Some start \<and> vstr_trim_end_strip (bytes [32, 32]) 2 = Some strip
     \<and> start = 2 \<and> strip = 2"
  using trim_counts [of "bytes [32, 32]" 2 "[32, 32]"] by (auto simp: str_arg_def bytes_at_def vstr_is_ws_def)

text \<open>Splitting on a non-empty delimiter returns.  Unless the list cannot be created, it is fresh and holds, in
  order, offset and length of the pieces of the string, all of them when there are at most sixteen (beyond
  that the list must grow and a refused push is skipped).\<close>

theorem split_lists_pieces:
  assumes "str_arg h hlen hs" and "str_arg d dlen ds" and "ds \<noteq> []"
  shows "\<exists>lst s'. vstr_split_offsets s h hlen d dlen = Some (lst, s') \<and> only_changes lst s s'
    \<and> (lst = VCOL_NULL \<and> objs s' = objs s
       \<or> lst \<noteq> 0 \<and> objs s lst = None
         \<and> (let vs = map pack_nat (piece_offsets (length ds) 0 (split_pieces ds hs))
            in \<exists>ys. alist_has s' lst ys \<and> subseq ys vs \<and> (length vs \<le> 16 \<longrightarrow> ys = vs)))"
  using assms by (rule vstr_split_ok)

theorem split_lists_pieces_witness:
  "\<exists>lst s'. vstr_split_offsets demo_store (bytes [44, 97, 44]) 3 (bytes [44]) 1 = Some (lst, s')
     \<and> (lst = VCOL_NULL \<or> alist_has s' lst [pack_nat (0, 0), pack_nat (1, 1)])"
proof -
  have "split_on [44] [44, 97, 44] = [[], [97], []]" by (simp add: split_on.simps)
  then have "split_pieces [44] [44, 97, 44] = [[], [97]]" by (simp add: split_pieces_def drop_empty_last_def)
  then show ?thesis
    using split_lists_pieces [of "bytes [44, 97, 44]" 3 "[44, 97, 44]" "bytes [44]" 1 "[44]" demo_store]
    by (auto simp: str_arg_def bytes_at_def Let_def)
qed

text \<open>The words pushed by the split decode to the pieces of a string shorter than \<open>2 ^ 32\<close> bytes; joining the
  pieces with the delimiter gives the string back, no piece contains the delimiter, and the only piece left
  out is an empty one at the end of a non-empty string.\<close>

theorem split_roundtrip_join:
  assumes "length hs < 2 ^ 32" and "ds \<noteq> []"
  shows "map (\<lambda>v. slice hs (unpack_piece v)) (map pack_nat (piece_offsets (length ds) 0 (split_pieces ds hs)))
      = split_pieces ds hs
    \<and> (\<forall>p \<in> set (split_pieces ds hs). first_match ds p = None)
    \<and> (join_with ds (split_pieces ds hs) = hs \<or> join_with ds (split_pieces ds hs @ [[]]) = hs \<and> hs \<noteq> [])"
proof -
  have "\<forall>p \<in> set (split_pieces ds hs). first_match ds p = None"
    using split_no_delim [OF _ assms(2)]
    by (auto simp: split_pieces_def drop_empty_last_def dest: in_set_butlastD)
  moreover have "join_with ds (split_pieces ds hs) = hs \<or> join_with ds (split_pieces ds hs @ [[]]) = hs \<and> hs \<noteq> []"
    using join_split [of ds hs] split_on_Cons [of ds hs]
    by (auto simp: split_pieces_def drop_empty_last_def) (metis append_butlast_last_id list.distinct(1))+
  ultimately show ?thesis using split_roundtrip [OF assms(1), of ds] by (simp add: o_def)
qed

theorem split_roundtrip_join_witness:
  "map (\<lambda>v. slice [97, 44] (unpack_piece v)) (map pack_nat (piece_offsets 1 0 (split_pieces [44] [97, 44])))
     = split_pieces [44] [97, 44]"
  using split_roundtrip_join [of "[97, 44]" "[44]"] by simp

end
