(* ===== verification/Vcol_HashMap.thy ===== *)
theory Vcol_HashMap
  imports Vcol_Bits Vcol_ArrayList
begin

text \<open>
  \<^verbatim>\<open>VestaHashMap\<close> of \<^verbatim>\<open>vesta_collections.c\<close>: an open-addressing table of groups of sixteen slots with
  one control byte per slot (empty, deleted, or seven bits of the hash), probed group by group at
  triangular distances.  The loops over the table read it in order and their bodies do not write
  it, so they are folds over the list of occupied slots in that order (\<open>vmap_entries\<close>).
\<close>

section \<open>The operations\<close>

definition VMAP_MIN_CAP :: u64 where
  "VMAP_MIN_CAP = 16"

definition VMAP_GROUP_W :: u64 where
  "VMAP_GROUP_W = 16"

definition VMAP_CTRL_EMPTY :: u8 where
  "VMAP_CTRL_EMPTY = 0x80"

definition VMAP_CTRL_DELETED :: u8 where
  "VMAP_CTRL_DELETED = 0xFE"

definition wyhash64_u64 :: "u64 \<Rightarrow> u64" where
  "wyhash64_u64 key =
     (let SEED = 0x9E3779B97F4A7C15 :: u64;
          r = ucast (key XOR SEED) * ucast SEED :: u128
      in ucast r XOR ucast (drop_bit 64 r))"

definition vmap_h1 :: "u64 \<Rightarrow> u64" where
  "vmap_h1 hash = drop_bit 7 hash"

definition vmap_h2 :: "u64 \<Rightarrow> u8" where
  "vmap_h2 hash = ucast (hash AND 0x7F)"

definition vmap_capacity :: "VestaHashMap \<Rightarrow> u64" where
  "vmap_capacity m = m_group_cnt m * VMAP_GROUP_W"

text \<open>The scalar form of the control byte comparison; the SSE2 form computes the same mask.\<close>

definition vmap_match_ctrl :: "u8 list \<Rightarrow> u8 \<Rightarrow> u32" where
  "vmap_match_ctrl ctrl needle =
     fold (\<lambda>i bits. if ctrl ! i = needle then bits OR push_bit i 1 else bits) [0..<16] 0"

text \<open>\<^verbatim>\<open>__builtin_ctz\<close>, undefined on zero.\<close>

definition ctz :: "u32 \<Rightarrow> nat option" where
  "ctz x = List.find (bit x) [0..<32]"

text \<open>Access to the arrays of a group and to the table.\<close>

definition rd_arr :: "'e list \<Rightarrow> nat \<Rightarrow> 'e option" where
  "rd_arr xs i = (if i < length xs then Some (xs ! i) else None)"

definition wr_slot :: "VMapGroup list \<Rightarrow> u64 \<Rightarrow> nat \<Rightarrow> u8 \<Rightarrow> u64 \<Rightarrow> u64 \<Rightarrow> VMapGroup list option" where
  "wr_slot gs g i c k v =
     do {
       grp \<leftarrow> rd_arr gs (unat g);
       if i < 16
       then Some (gs[unat g := \<lparr>g_ctrl = (g_ctrl grp)[i := c], g_keys = (g_keys grp)[i := k], g_vals = (g_vals grp)[i := v]\<rparr>])
       else None
     }"

text \<open>A block of groups after \<^verbatim>\<open>memset(p, VMAP_CTRL_EMPTY, bytes)\<close>.\<close>

definition empty_group :: VMapGroup where
  "empty_group = \<lparr>g_ctrl = replicate 16 VMAP_CTRL_EMPTY, g_keys = replicate 16 0x8080808080808080,
     g_vals = replicate 16 0x8080808080808080\<rparr>"

definition memset_groups :: "u64 \<Rightarrow> VMapGroup list" where
  "memset_groups nbytes = replicate (unat nbytes div 272) empty_group"

partial_function (option) vmap_fresh_loop ::
  "VMapGroup list \<Rightarrow> u64 \<Rightarrow> u8 \<Rightarrow> u64 \<Rightarrow> u64 \<Rightarrow> u64 \<Rightarrow> u64 \<Rightarrow> VMapGroup list option" where
  "vmap_fresh_loop groups msk h2 key val g step =
     do {
       grp \<leftarrow> rd_arr groups (unat g);
       let empties = vmap_match_ctrl (g_ctrl grp) VMAP_CTRL_EMPTY;
       if empties \<noteq> 0
       then do { b \<leftarrow> ctz empties; wr_slot groups g b h2 key val }
       else vmap_fresh_loop groups msk h2 key val ((g + step) AND msk) (step + 1)
     }"

definition vmap_insert_fresh :: "VMapGroup list \<Rightarrow> u64 \<Rightarrow> u64 \<Rightarrow> u64 \<Rightarrow> VMapGroup list option" where
  "vmap_insert_fresh groups group_cnt key val =
     (let msk = group_cnt - 1; hash = wyhash64_u64 key
      in vmap_fresh_loop groups msk (vmap_h2 hash) key val (vmap_h1 hash AND msk) 1)"

text \<open>The occupied slots of the table in the order of the loops over it.\<close>

definition group_entries :: "VMapGroup \<Rightarrow> (u64 \<times> u64) list" where
  "group_entries grp = map (\<lambda>i. (g_keys grp ! i, g_vals grp ! i)) (filter (\<lambda>i. g_ctrl grp ! i AND 0x80 = 0) [0..<16])"

definition vmap_entries :: "VestaHashMap \<Rightarrow> (u64 \<times> u64) list option" where
  "vmap_entries m =
     (if unat (m_group_cnt m) \<le> length (m_groups m)
      then Some (concat (map group_entries (take (unat (m_group_cnt m)) (m_groups m)))) else None)"

fun for_each :: "('e \<Rightarrow> 's \<Rightarrow> 's option) \<Rightarrow> 'e list \<Rightarrow> 's \<Rightarrow> 's option" where
  "for_each body [] s = Some s"
| "for_each body (x # xs) s = do { s \<leftarrow> body x s; for_each body xs s }"

definition vmap_rehash :: "store \<Rightarrow> VestaHashMap \<Rightarrow> (bool \<times> VestaHashMap \<times> store) option" where
  "vmap_rehash s m =
     (let new_group_cnt = m_group_cnt m * 2; (a, s) = malloc s (new_group_cnt * 272)
      in if a = 0 then Some (False, m, s)
         else do {
           es \<leftarrow> vmap_entries m;
           groups \<leftarrow> for_each (\<lambda>(k, v) gs. vmap_insert_fresh gs new_group_cnt k v) es (memset_groups (new_group_cnt * 272));
           let m = m\<lparr>m_groups := groups, m_group_cnt := new_group_cnt\<rparr>;
           Some (True, m\<lparr>m_threshold := (vmap_capacity m * 7) div 8\<rparr>, s)
         })"

definition vcol_map_new :: "store \<Rightarrow> u64 \<Rightarrow> u64 \<times> store" where
  "vcol_map_new s initial_capacity =
     (let cap = next_pow2 (if initial_capacity < VMAP_MIN_CAP then VMAP_MIN_CAP else initial_capacity);
          group_cnt = cap div VMAP_GROUP_W;
          group_cnt = (if group_cnt < 1 then 1 else group_cnt);
          (m, s) = malloc s 32
      in if m = 0 then (VCOL_NULL, s)
         else let (d, s) = malloc s (group_cnt * 272)
              in if d = 0 then (VCOL_NULL, s)
                 else (m, put OHashMap s m
                            \<lparr>m_groups = memset_groups (group_cnt * 272), m_group_cnt = group_cnt, m_size = 0,
                             m_threshold = (group_cnt * VMAP_GROUP_W * 7) div 8\<rparr>))"

definition vcol_map_free :: "store \<Rightarrow> u64 \<Rightarrow> store option" where
  "vcol_map_free s handle =
     (if handle = 0 then Some s else do { _ \<leftarrow> deref as_map s handle; free_obj s handle })"

text \<open>The inner loop over the candidates of a group; it clears the lowest bit of the mask per turn.\<close>

function vmap_hits_loop :: "u64 list \<Rightarrow> u64 \<Rightarrow> u32 \<Rightarrow> nat option option" where
  "vmap_hits_loop keys key hits =
     (if hits \<noteq> 0
      then do {
        b \<leftarrow> ctz hits;
        k \<leftarrow> rd_arr keys b;
        if k = key then Some (Some b) else vmap_hits_loop keys key (hits AND (hits - 1))
      }
      else Some None)"
  by pat_completeness auto
termination
proof (relation "measure (\<lambda>(keys, key, hits). unat hits)")
  fix keys :: "u64 list" and key k :: u64 and hits :: u32 and b :: nat
  assume "hits \<noteq> 0"
  then have "hits - 1 < hits" using unat_minus_one [of hits] by (simp add: word_less_nat_alt unat_gt_0)
  then have "hits AND (hits - 1) < hits" by (meson order_le_less_trans word_and_le1)
  then show "((keys, key, hits AND (hits - 1)), keys, key, hits) \<in> measure (\<lambda>(keys, key, hits). unat hits)"
    by (simp add: word_less_nat_alt)
qed simp

text \<open>
  The probing loop: what it returns is whether the key was found, and the group and slot where it
  is or where to insert it.  With no empty slot on its way it never returns, which is \<open>None\<close>.
\<close>

partial_function (option) vmap_find_loop ::
  "VMapGroup list \<Rightarrow> u64 \<Rightarrow> u64 \<Rightarrow> u8 \<Rightarrow> u64 \<Rightarrow> u64 \<Rightarrow> u64 \<Rightarrow> nat \<Rightarrow> (bool \<times> u64 \<times> nat) option" where
  "vmap_find_loop groups msk key h2 g step free_g free_i =
     do {
       grp \<leftarrow> rd_arr groups (unat g);
       hit \<leftarrow> vmap_hits_loop (g_keys grp) key (vmap_match_ctrl (g_ctrl grp) h2);
       case hit of
         Some b \<Rightarrow> Some (True, g, b)
       | None \<Rightarrow> do {
           let dels = vmap_match_ctrl (g_ctrl grp) VMAP_CTRL_DELETED;
           (free_g, free_i) \<leftarrow>
             (if free_g = 0xFFFFFFFFFFFFFFFF \<and> dels \<noteq> 0 then do { b \<leftarrow> ctz dels; Some (g, b) }
              else Some (free_g, free_i));
           let empties = vmap_match_ctrl (g_ctrl grp) VMAP_CTRL_EMPTY;
           if empties \<noteq> 0
           then if free_g \<noteq> 0xFFFFFFFFFFFFFFFF then Some (False, free_g, free_i)
                else do { b \<leftarrow> ctz empties; Some (False, g, b) }
           else vmap_find_loop groups msk key h2 ((g + step) AND msk) (step + 1) free_g free_i
         }
     }"

definition vmap_find_or_insert_slot :: "VestaHashMap \<Rightarrow> u64 \<Rightarrow> (bool \<times> u64 \<times> nat) option" where
  "vmap_find_or_insert_slot m key =
     (let msk = m_group_cnt m - 1; hash = wyhash64_u64 key
      in vmap_find_loop (m_groups m) msk key (vmap_h2 hash) (vmap_h1 hash AND msk) 1 0xFFFFFFFFFFFFFFFF 0)"

definition vcol_map_put :: "store \<Rightarrow> u64 \<Rightarrow> u64 \<Rightarrow> u64 \<Rightarrow> store option" where
  "vcol_map_put s handle key val =
     (if handle = 0 then Some s
      else do {
        m \<leftarrow> deref as_map s handle;
        (ok, m, s) \<leftarrow> (if m_size m + 1 > m_threshold m then vmap_rehash s m else Some (True, m, s));
        if \<not> ok then Some s
        else do {
          (found, g, i) \<leftarrow> vmap_find_or_insert_slot m key;
          grp \<leftarrow> rd_arr (m_groups m) (unat g);
          if found
          then do {
            c \<leftarrow> rd_arr (g_ctrl grp) i;
            k \<leftarrow> rd_arr (g_keys grp) i;
            gs \<leftarrow> wr_slot (m_groups m) g i c k val;
            Some (put OHashMap s handle (m\<lparr>m_groups := gs\<rparr>))
          }
          else do {
            gs \<leftarrow> wr_slot (m_groups m) g i (vmap_h2 (wyhash64_u64 key)) key val;
            Some (put OHashMap s handle (m\<lparr>m_groups := gs, m_size := m_size m + 1\<rparr>))
          }
        }
      })"

definition vmap_value :: "VestaHashMap \<Rightarrow> u64 \<Rightarrow> nat \<Rightarrow> u64 option" where
  "vmap_value m g i = do { grp \<leftarrow> rd_arr (m_groups m) (unat g); rd_arr (g_vals grp) i }"

definition vcol_map_get :: "store \<Rightarrow> u64 \<Rightarrow> u64 \<Rightarrow> u64 option" where
  "vcol_map_get s handle key =
     (if handle = 0 then Some 0
      else do {
        m \<leftarrow> deref as_map s handle;
        (found, g, i) \<leftarrow> vmap_find_or_insert_slot m key;
        if found then vmap_value m g i else Some 0
      })"

definition vcol_map_get_or :: "store \<Rightarrow> u64 \<Rightarrow> u64 \<Rightarrow> u64 \<Rightarrow> u64 option" where
  "vcol_map_get_or s handle key default_val =
     (if handle = 0 then Some default_val
      else do {
        m \<leftarrow> deref as_map s handle;
        (found, g, i) \<leftarrow> vmap_find_or_insert_slot m key;
        if found then vmap_value m g i else Some default_val
      })"

definition vcol_map_contains :: "store \<Rightarrow> u64 \<Rightarrow> u64 \<Rightarrow> u64 option" where
  "vcol_map_contains s handle key =
     (if handle = 0 then Some 0
      else do {
        m \<leftarrow> deref as_map s handle;
        (found, g, i) \<leftarrow> vmap_find_or_insert_slot m key;
        Some (if found then 1 else 0)
      })"

definition vcol_map_remove :: "store \<Rightarrow> u64 \<Rightarrow> u64 \<Rightarrow> (u64 \<times> store) option" where
  "vcol_map_remove s handle key =
     (if handle = 0 then Some (VCOL_NOT_FOUND, s)
      else do {
        m \<leftarrow> deref as_map s handle;
        (found, g, i) \<leftarrow> vmap_find_or_insert_slot m key;
        if \<not> found then Some (VCOL_NOT_FOUND, s)
        else do {
          grp \<leftarrow> rd_arr (m_groups m) (unat g);
          old \<leftarrow> rd_arr (g_vals grp) i;
          k \<leftarrow> rd_arr (g_keys grp) i;
          gs \<leftarrow> wr_slot (m_groups m) g i
                 (if vmap_match_ctrl (g_ctrl grp) VMAP_CTRL_EMPTY \<noteq> 0 then VMAP_CTRL_EMPTY else VMAP_CTRL_DELETED) k old;
          Some (old, put OHashMap s handle (m\<lparr>m_groups := gs, m_size := m_size m - 1\<rparr>))
        }
      })"

definition vcol_map_size :: "store \<Rightarrow> u64 \<Rightarrow> u64 option" where
  "vcol_map_size s handle = (if handle = 0 then Some 0 else map_option m_size (deref as_map s handle))"

definition vcol_map_clear :: "store \<Rightarrow> u64 \<Rightarrow> store option" where
  "vcol_map_clear s handle =
     (if handle = 0 then Some s
      else do {
        m \<leftarrow> deref as_map s handle;
        let n = unat (m_group_cnt m * 272) div 272;
        if n \<le> length (m_groups m)
        then Some (put OHashMap s handle
               (m\<lparr>m_groups := memset_groups (m_group_cnt m * 272) @ drop n (m_groups m), m_size := 0\<rparr>))
        else None
      })"

definition vcol_map_keys :: "store \<Rightarrow> u64 \<Rightarrow> (u64 \<times> store) option" where
  "vcol_map_keys s handle =
     (if handle = 0 then Some (VCOL_NULL, s)
      else do {
        m \<leftarrow> deref as_map s handle;
        let (al, s) = vcol_alist_new s (if m_size m > 0 then m_size m else VALIST_MIN_CAP);
        if al = 0 then Some (VCOL_NULL, s)
        else do {
          es \<leftarrow> vmap_entries m;
          s \<leftarrow> push_all vcol_alist_push s al (map fst es);
          Some (al, s)
        }
      })"

definition vcol_map_values :: "store \<Rightarrow> u64 \<Rightarrow> (u64 \<times> store) option" where
  "vcol_map_values s handle =
     (if handle = 0 then Some (VCOL_NULL, s)
      else do {
        m \<leftarrow> deref as_map s handle;
        let (al, s) = vcol_alist_new s (if m_size m > 0 then m_size m else VALIST_MIN_CAP);
        if al = 0 then Some (VCOL_NULL, s)
        else do {
          es \<leftarrow> vmap_entries m;
          s \<leftarrow> push_all vcol_alist_push s al (map snd es);
          Some (al, s)
        }
      })"

declare vmap_hits_loop.simps [simp del]

section \<open>Bits of the control mask\<close>

lemma match_ctrl_bits:
  "bit (fold (\<lambda>i bits. if ctrl ! i = needle then bits OR push_bit i 1 else bits) xs (a :: u32)) j
   \<longleftrightarrow> bit a j \<or> j < 32 \<and> j \<in> set xs \<and> ctrl ! j = needle"
proof (induction xs arbitrary: a)
  case (Cons x xs)
  show ?case by (simp add: Cons.IH) (auto simp: bit_simps)
qed simp

lemma bit_match_ctrl [simp]: "bit (vmap_match_ctrl ctrl needle) j \<longleftrightarrow> j < 16 \<and> ctrl ! j = needle"
  by (auto simp: vmap_match_ctrl_def match_ctrl_bits)

lemma match_ctrl_zero: "vmap_match_ctrl ctrl needle = 0 \<longleftrightarrow> (\<forall>j < 16. ctrl ! j \<noteq> needle)"
  by (auto simp: bit_eq_iff)

lemma ctz_Some:
  assumes "x \<noteq> (0 :: u32)"
  shows "\<exists>b. ctz x = Some b \<and> bit x b \<and> (\<forall>j < b. \<not> bit x j)"
proof -
  obtain n where n: "bit x n" using assms by (auto simp: bit_eq_iff)
  then have "n < 32" using bit_imp_le_length [OF n] by simp
  then have "ctz x \<noteq> None" using n by (auto simp: ctz_def find_None_iff)
  then obtain b where b: "ctz x = Some b" by blast
  then obtain i where i: "i < 32" "bit x ([0..<32] ! i)" "b = [0..<32] ! i" "\<forall>j < i. \<not> bit x ([0..<32] ! j)"
    unfolding ctz_def find_Some_iff by (metis length_upt diff_zero)
  then show ?thesis using b by auto
qed

end
