(* ===== verification/Vcol_Probe.thy ===== *)
theory Vcol_Probe
  imports Vcol_Bits
begin

text \<open>
  Triangular probing, the sequence of groups the hash map visits: on a table whose size is a
  power of two it visits every group, so that a search that meets an empty slot anywhere ends.
\<close>

definition tri :: "nat \<Rightarrow> nat" where
  "tri n = n * (n + 1) div 2"

lemma tri_double: "2 * tri n = n * (n + 1)"
  by (simp add: tri_def)

lemma tri_0 [simp]: "tri 0 = 0"
  by (simp add: tri_def)

lemma tri_Suc [simp]: "tri (Suc n) = tri n + Suc n"
  by (simp add: tri_def)

text \<open>Two probes below the table size never meet.\<close>

lemma tri_mono: "a \<le> b \<Longrightarrow> tri a \<le> tri b"
  unfolding tri_def by (intro div_le_mono mult_le_mono) simp_all

lemma tri_diff:
  assumes "a \<le> b"
  shows "2 * (tri b - tri a) = (b - a) * (a + b + 1)"
proof -
  obtain d where b: "b = a + d" using assms le_Suc_ex by blast
  have "2 * tri b = 2 * tri a + d * (a + b + 1)" unfolding tri_double b by (simp add: algebra_simps)
  then show ?thesis using b by (simp add: diff_mult_distrib2)
qed

lemma pow2_dvd_product:
  assumes "2 ^ k dvd (x :: nat) * y" and "odd x \<or> odd y"
  shows "2 ^ k dvd x \<or> 2 ^ k dvd y"
  using assms by (metis coprime_dvd_mult_left_iff coprime_dvd_mult_right_iff coprime_left_2_iff_odd coprime_power_left_iff)

lemma tri_distinct:
  assumes "a < b" and "b < 2 ^ k"
  shows "tri a mod 2 ^ k \<noteq> tri b mod 2 ^ k"
proof
  assume "tri a mod 2 ^ k = tri b mod 2 ^ k"
  moreover have "tri a \<le> tri b" using assms(1) by (simp add: tri_mono)
  ultimately have "2 ^ k dvd tri b - tri a" by (metis mod_eq_dvd_iff_nat)
  then have "2 ^ Suc k dvd 2 * (tri b - tri a)" by (simp add: mult_dvd_mono)
  then have "2 ^ Suc k dvd (b - a) * (a + b + 1)" using tri_diff [of a b] assms(1) by simp
  moreover have "odd (b - a) \<or> odd (a + b + 1)" using assms(1) by presburger
  ultimately have "2 ^ Suc k dvd b - a \<or> 2 ^ Suc k dvd a + b + 1" by (rule pow2_dvd_product)
  moreover have "0 < b - a" "b - a < 2 ^ Suc k" "a + b + 1 < 2 ^ Suc k" using assms by auto
  ultimately show False by (metis add_gr_0 less_one nat_dvd_not_less)
qed

lemma probe_visits_all:
  assumes "x < 2 ^ k"
  shows "\<exists>n < 2 ^ k. (h + tri n) mod 2 ^ k = x"
proof -
  let ?f = "\<lambda>n. (h + tri n) mod 2 ^ k"
  have "inj_on ?f {..<2 ^ k}"
  proof (rule inj_onI)
    fix a b :: nat
    assume "a \<in> {..<2 ^ k}" "b \<in> {..<2 ^ k}" "?f a = ?f b"
    then have ab: "a < 2 ^ k" "b < 2 ^ k" "(h + tri a mod 2 ^ k) mod 2 ^ k = (h + tri b mod 2 ^ k) mod 2 ^ k"
      by (simp_all only: mod_add_right_eq lessThan_iff)
    then have "tri a mod 2 ^ k = tri b mod 2 ^ k" by (simp only: mod_add_inj mod_less_divisor zero_less_power zero_less_numeral)
    then show "a = b" using tri_distinct ab by (metis linorder_neqE_nat)
  qed
  moreover have "?f ` {..<2 ^ k} \<subseteq> {..<2 ^ k}" by auto
  ultimately have "?f ` {..<2 ^ k} = {..<2 ^ k}" by (simp add: endo_inj_surj)
  then show ?thesis using assms by (metis (no_types, lifting) imageE lessThan_iff)
qed

text \<open>The \<open>n\<close>-th probe from a start, and its computation on words.\<close>

definition probe :: "nat \<Rightarrow> nat \<Rightarrow> nat \<Rightarrow> nat" where
  "probe cnt h n = (h + tri n) mod cnt"

lemma probe_less: "0 < cnt \<Longrightarrow> probe cnt h n < cnt"
  by (simp add: probe_def)

lemma probe_first: "pow2 c \<Longrightarrow> unat (h AND (c - 1)) = probe (unat c) (unat h) 0"
  by (simp add: unat_and_mask probe_def)

lemma probe_next:
  assumes "pow2 c" and "unat g = probe (unat c) h n"
  shows "unat ((g + of_nat (Suc n)) AND (c - 1)) = probe (unat c) h (Suc n)"
proof -
  have "unat (of_nat (Suc n) :: u64) mod unat c = Suc n mod unat c"
    using pow2_dvd [OF assms(1)] by (simp only: unat_of_nat len_num1 len_num0 mod_mod_cancel len_bit0)
      (simp add: mod_mod_cancel)
  moreover have "unat ((g + of_nat (Suc n)) AND (c - 1)) = (unat g + unat (of_nat (Suc n) :: u64)) mod unat c"
    using assms(1) by (simp only: unat_and_mask unat_add_mod)
  ultimately have "unat ((g + of_nat (Suc n)) AND (c - 1)) = (unat g + Suc n) mod unat c"
    by (metis mod_add_right_eq)
  also have "\<dots> = probe (unat c) h (Suc n)"
    unfolding assms(2) probe_def mod_add_left_eq tri_Suc by (simp only: add.assoc)
  finally show ?thesis .
qed

lemma probe_reaches:
  assumes "pow2 c" and "x < unat c"
  shows "\<exists>n. probe (unat c) h n = x"
  using assms probe_visits_all [of x] by (force simp: pow2_def probe_def)

end
