(* ===== verification/Vcol_HashTable.thy ===== *)
theory Vcol_HashTable
  imports Vcol_HashMap Vcol_Probe
begin

text \<open>
  The table behind the hash map: what a well-formed table is, the finite map it denotes, and the
  correctness of the probing loops on it.  A key is found because every group its probe
  sequence passes before the group that holds it has no empty slot, and it never gets one.
\<close>

section \<open>Groups\<close>

abbreviation hash_h2 :: "u64 \<Rightarrow> u8" where
  "hash_h2 k \<equiv> vmap_h2 (wyhash64_u64 k)"

abbreviation hash_h1 :: "u64 \<Rightarrow> nat" where
  "hash_h1 k \<equiv> unat (vmap_h1 (wyhash64_u64 k))"

definition occupied :: "VMapGroup \<Rightarrow> nat \<Rightarrow> bool" where
  "occupied grp i \<longleftrightarrow> i < 16 \<and> g_ctrl grp ! i AND 0x80 = 0"

definition wf_group :: "VMapGroup \<Rightarrow> bool" where
  "wf_group grp \<longleftrightarrow> length (g_ctrl grp) = 16 \<and> length (g_keys grp) = 16 \<and> length (g_vals grp) = 16
     \<and> (\<forall>i < 16. g_ctrl grp ! i = VMAP_CTRL_EMPTY \<or> g_ctrl grp ! i = VMAP_CTRL_DELETED
                 \<or> g_ctrl grp ! i = hash_h2 (g_keys grp ! i))"

definition full :: "VMapGroup \<Rightarrow> bool" where
  "full grp \<longleftrightarrow> (\<forall>i < 16. g_ctrl grp ! i \<noteq> VMAP_CTRL_EMPTY)"

definition no_tombs :: "VMapGroup \<Rightarrow> bool" where
  "no_tombs grp \<longleftrightarrow> (\<forall>i < 16. g_ctrl grp ! i \<noteq> VMAP_CTRL_DELETED)"

lemma bit_128: "bit (128 :: u8) n \<longleftrightarrow> n = 7"
proof -
  have "(128 :: u8) = 2 ^ 7" by simp
  then have "bit (128 :: u8) n \<longleftrightarrow> bit (2 ^ 7 :: u8) n" by (rule arg_cong)
  then show ?thesis by (simp only: bit_exp_iff) auto
qed

lemma h2_low: "vmap_h2 x AND 0x80 = 0"
proof -
  have m: "(0x7F :: u64) = mask 7" by (simp add: mask_eq_exp_minus_1)
  show ?thesis
    unfolding vmap_h2_def m
    by (rule bit_eqI, simp only: bit_and_iff bit_128 bit_unsigned_iff bit_mask_iff) simp
qed

lemma ctrl_bytes: "VMAP_CTRL_EMPTY AND 0x80 \<noteq> 0" "VMAP_CTRL_DELETED AND 0x80 \<noteq> 0" "VMAP_CTRL_EMPTY \<noteq> VMAP_CTRL_DELETED"
  by (simp_all add: VMAP_CTRL_EMPTY_def VMAP_CTRL_DELETED_def)

lemma h2_not_free: "vmap_h2 x \<noteq> VMAP_CTRL_EMPTY" "vmap_h2 x \<noteq> VMAP_CTRL_DELETED"
  using h2_low [of x] ctrl_bytes by metis+

lemma wf_occupied:
  assumes "wf_group grp" and "i < 16"
  shows "occupied grp i \<longleftrightarrow> g_ctrl grp ! i \<noteq> VMAP_CTRL_EMPTY \<and> g_ctrl grp ! i \<noteq> VMAP_CTRL_DELETED"
    and "occupied grp i \<Longrightarrow> g_ctrl grp ! i = hash_h2 (g_keys grp ! i)"
  using assms h2_low ctrl_bytes by (auto simp: wf_group_def occupied_def)

text \<open>Looking for a key in one group.\<close>

lemma hits_loop_ok:
  assumes "\<And>j. bit hits j \<Longrightarrow> j < length keys"
  shows "\<exists>r. vmap_hits_loop keys key hits = Some r
    \<and> (case r of None \<Rightarrow> \<forall>j. bit hits j \<longrightarrow> keys ! j \<noteq> key | Some b \<Rightarrow> bit hits b \<and> keys ! b = key)"
  using assms
proof (induction keys key hits rule: vmap_hits_loop.induct)
  case (1 keys key hits)
  show ?case
  proof (cases "hits = 0")
    case True
    then show ?thesis by (subst vmap_hits_loop.simps) simp
  next
    case False
    then obtain b where b: "ctz hits = Some b" "bit hits b" "\<forall>j < b. \<not> bit hits j" using ctz_Some by blast
    have k: "rd_arr keys b = Some (keys ! b)" using 1(2) b(2) by (simp add: rd_arr_def)
    show ?thesis
    proof (cases "keys ! b = key")
      case True
      then show ?thesis using False b k by (subst vmap_hits_loop.simps) simp
    next
      case ne: False
      note cl = clear_lowest [OF b(2,3)]
      obtain r where "vmap_hits_loop keys key (hits AND (hits - 1)) = Some r"
        and "case r of None \<Rightarrow> \<forall>j. bit (hits AND (hits - 1)) j \<longrightarrow> keys ! j \<noteq> key
             | Some b \<Rightarrow> bit (hits AND (hits - 1)) b \<and> keys ! b = key"
        using 1(1) [OF False b(1) k ne] 1(2) cl by blast
      then show ?thesis
        using False b(1) k ne cl by (subst vmap_hits_loop.simps) (auto split: option.splits)
    qed
  qed
qed

lemma group_search:
  assumes "wf_group grp"
  shows "\<exists>r. vmap_hits_loop (g_keys grp) key (vmap_match_ctrl (g_ctrl grp) (hash_h2 key)) = Some r
    \<and> (case r of None \<Rightarrow> \<forall>j. occupied grp j \<longrightarrow> g_keys grp ! j \<noteq> key
       | Some b \<Rightarrow> occupied grp b \<and> g_keys grp ! b = key)"
proof -
  define hits where "hits = vmap_match_ctrl (g_ctrl grp) (hash_h2 key)"
  have bits: "bit hits j \<longleftrightarrow> j < 16 \<and> g_ctrl grp ! j = hash_h2 key" for j by (simp add: hits_def)
  have "bit hits j \<Longrightarrow> j < length (g_keys grp)" for j using assms by (simp add: bits wf_group_def)
  then obtain r where r: "vmap_hits_loop (g_keys grp) key hits = Some r"
      and cs: "case r of None \<Rightarrow> \<forall>j. bit hits j \<longrightarrow> g_keys grp ! j \<noteq> key | Some b \<Rightarrow> bit hits b \<and> g_keys grp ! b = key"
    using hits_loop_ok [of hits "g_keys grp" key] by blast
  have "bit hits j \<longleftrightarrow> occupied grp j" if "g_keys grp ! j = key" for j
    using that wf_occupied [OF assms, of j] h2_not_free [of "wyhash64_u64 key"] unfolding bits
    by (metis occupied_def)
  then show ?thesis using r cs unfolding hits_def [symmetric] by (cases r) auto
qed

lemma full_match: "full grp \<longleftrightarrow> vmap_match_ctrl (g_ctrl grp) VMAP_CTRL_EMPTY = 0"
  by (simp add: full_def match_ctrl_zero)

lemma first_with:
  assumes "vmap_match_ctrl (g_ctrl grp) c \<noteq> 0"
  shows "\<exists>b. ctz (vmap_match_ctrl (g_ctrl grp) c) = Some b \<and> b < 16 \<and> g_ctrl grp ! b = c"
  using ctz_Some [OF assms] by auto

section \<open>The table\<close>

definition slot :: "VMapGroup list \<Rightarrow> nat \<Rightarrow> nat \<Rightarrow> bool" where
  "slot gs a i \<longleftrightarrow> a < length gs \<and> occupied (gs ! a) i"

text \<open>All groups before the \<open>n\<close>-th probe of a key are full.\<close>

definition passed :: "VMapGroup list \<Rightarrow> u64 \<Rightarrow> nat \<Rightarrow> bool" where
  "passed gs k n \<longleftrightarrow> (\<forall>j < n. full (gs ! probe (length gs) (hash_h1 k) j))"

definition table_ok :: "VMapGroup list \<Rightarrow> u64 \<Rightarrow> bool" where
  "table_ok gs cnt \<longleftrightarrow> pow2 cnt \<and> unat cnt * 272 < 2 ^ 63 \<and> length gs = unat cnt
     \<and> (\<forall>grp \<in> set gs. wf_group grp)
     \<and> (\<forall>a i. slot gs a i \<longrightarrow>
          (\<exists>n. probe (length gs) (hash_h1 (g_keys (gs ! a) ! i)) n = a \<and> passed gs (g_keys (gs ! a) ! i) n))"

definition has_empty :: "VMapGroup list \<Rightarrow> bool" where
  "has_empty gs \<longleftrightarrow> (\<exists>grp \<in> set gs. \<not> full grp)"

text \<open>A place where a key may be put: a free slot that its lookups reach.\<close>

definition insertable :: "VMapGroup list \<Rightarrow> u64 \<Rightarrow> nat \<Rightarrow> nat \<Rightarrow> bool" where
  "insertable gs k a i \<longleftrightarrow> a < length gs \<and> i < 16 \<and> \<not> occupied (gs ! a) i
     \<and> (\<exists>n. probe (length gs) (hash_h1 k) n = a \<and> passed gs k n)"

lemma table_okD:
  assumes "table_ok gs cnt"
  shows "pow2 cnt" and "length gs = unat cnt" and "0 < length gs" and "a < length gs \<Longrightarrow> wf_group (gs ! a)"
    and "length gs < 2 ^ 63"
  using assms pow2_pos [of cnt] by (auto simp: table_ok_def)

lemma table_reach:
  "table_ok gs cnt \<Longrightarrow> slot gs a i \<Longrightarrow> g_keys (gs ! a) ! i = k \<Longrightarrow>
    \<exists>n. probe (length gs) (hash_h1 k) n = a \<and> passed gs k n"
  by (auto simp: table_ok_def)

lemma probe_word_less: "unat (g :: u64) = probe (length gs) h n \<Longrightarrow> 0 < length gs \<Longrightarrow> unat g < length gs"
  by (simp add: probe_less)

lemma not_found_anywhere:
  assumes "table_ok gs cnt" and "\<not> full (gs ! probe (length gs) (hash_h1 key) n)"
    and "\<forall>j \<le> n. \<forall>i. occupied (gs ! probe (length gs) (hash_h1 key) j) i \<longrightarrow>
           g_keys (gs ! probe (length gs) (hash_h1 key) j) ! i \<noteq> key"
  shows "\<forall>a i. slot gs a i \<longrightarrow> g_keys (gs ! a) ! i \<noteq> key"
proof (intro allI impI notI)
  fix a i assume sl: "slot gs a i" "g_keys (gs ! a) ! i = key"
  then obtain m where m: "probe (length gs) (hash_h1 key) m = a" "passed gs key m" using table_reach [OF assms(1)] by blast
  have "m \<le> n" using m(2) assms(2) unfolding passed_def by (meson not_le)
  then show False using assms(3) m(1) sl by (auto simp: slot_def)
qed

text \<open>What a search returns.\<close>

definition found_ok :: "VMapGroup list \<Rightarrow> u64 \<Rightarrow> bool \<times> u64 \<times> nat \<Rightarrow> bool" where
  "found_ok gs key r = (case r of (found, g, i) \<Rightarrow>
     if found then slot gs (unat g) i \<and> g_keys (gs ! unat g) ! i = key
     else insertable gs key (unat g) i \<and> (\<forall>a i. slot gs a i \<longrightarrow> g_keys (gs ! a) ! i \<noteq> key))"

text \<open>The state of the search before its \<open>n\<close>-th probe.\<close>

definition searched :: "VMapGroup list \<Rightarrow> u64 \<Rightarrow> nat \<Rightarrow> u64 \<Rightarrow> u64 \<Rightarrow> nat \<Rightarrow> bool" where
  "searched gs key n g free_g free_i \<longleftrightarrow> unat g = probe (length gs) (hash_h1 key) n \<and> passed gs key n
     \<and> (\<forall>j < n. \<forall>i. occupied (gs ! probe (length gs) (hash_h1 key) j) i \<longrightarrow>
           g_keys (gs ! probe (length gs) (hash_h1 key) j) ! i \<noteq> key)
     \<and> (free_g = 0xFFFFFFFFFFFFFFFF \<or> insertable gs key (unat free_g) free_i)"

lemma remember_free:
  assumes ok: "table_ok gs cnt" and st: "searched gs key n g free_g free_i"
  shows "\<exists>fg fi. (if free_g = 0xFFFFFFFFFFFFFFFF \<and> vmap_match_ctrl (g_ctrl (gs ! unat g)) VMAP_CTRL_DELETED \<noteq> 0
      then do { b \<leftarrow> ctz (vmap_match_ctrl (g_ctrl (gs ! unat g)) VMAP_CTRL_DELETED); Some (g, b) }
      else Some (free_g, free_i)) = Some (fg, fi) \<and> (fg = 0xFFFFFFFFFFFFFFFF \<or> insertable gs key (unat fg) fi)"
proof (cases "free_g = 0xFFFFFFFFFFFFFFFF \<and> vmap_match_ctrl (g_ctrl (gs ! unat g)) VMAP_CTRL_DELETED \<noteq> 0")
  case True
  then obtain b where b: "ctz (vmap_match_ctrl (g_ctrl (gs ! unat g)) VMAP_CTRL_DELETED) = Some b" "b < 16"
      "g_ctrl (gs ! unat g) ! b = VMAP_CTRL_DELETED" using first_with by blast
  have "unat g < length gs" using st table_okD(3) [OF ok] by (simp add: searched_def probe_less)
  moreover have "\<not> occupied (gs ! unat g) b" using b ctrl_bytes by (simp add: occupied_def)
  ultimately have "insertable gs key (unat g) b" using st b(2) by (auto simp: insertable_def searched_def)
  then show ?thesis using True b(1) by auto
next
  case False
  then show ?thesis using st by (auto simp: searched_def)
qed

lemma find_step:
  assumes ok: "table_ok gs cnt" and st: "searched gs key n g free_g free_i"
  shows "(\<exists>r. vmap_find_loop gs (cnt - 1) key (hash_h2 key) g (of_nat (Suc n)) free_g free_i = Some r \<and> found_ok gs key r)
    \<or> full (gs ! probe (length gs) (hash_h1 key) n)
      \<and> (\<exists>g' fg fi. searched gs key (Suc n) g' fg fi
           \<and> vmap_find_loop gs (cnt - 1) key (hash_h2 key) g (of_nat (Suc n)) free_g free_i
             = vmap_find_loop gs (cnt - 1) key (hash_h2 key) g' (of_nat (Suc (Suc n))) fg fi)"
proof -
  let ?grp = "gs ! unat g"
  have g: "unat g = probe (length gs) (hash_h1 key) n" "unat g < length gs"
    using st table_okD(3) [OF ok] by (simp_all add: searched_def probe_less)
  have grp: "rd_arr gs (unat g) = Some ?grp" using g(2) by (simp add: rd_arr_def)
  obtain r where r: "vmap_hits_loop (g_keys ?grp) key (vmap_match_ctrl (g_ctrl ?grp) (hash_h2 key)) = Some r"
      "case r of None \<Rightarrow> \<forall>j. occupied ?grp j \<longrightarrow> g_keys ?grp ! j \<noteq> key | Some b \<Rightarrow> occupied ?grp b \<and> g_keys ?grp ! b = key"
    using group_search [OF table_okD(4) [OF ok g(2)]] by blast
  show ?thesis
  proof (cases r)
    case (Some b)
    then show ?thesis
      using grp r g(2) by (subst vmap_find_loop.simps) (simp add: found_ok_def slot_def)
  next
    case None
    obtain fg fi where fr: "(if free_g = 0xFFFFFFFFFFFFFFFF \<and> vmap_match_ctrl (g_ctrl ?grp) VMAP_CTRL_DELETED \<noteq> 0
        then do { b \<leftarrow> ctz (vmap_match_ctrl (g_ctrl ?grp) VMAP_CTRL_DELETED); Some (g, b) }
        else Some (free_g, free_i)) = Some (fg, fi)" "fg = 0xFFFFFFFFFFFFFFFF \<or> insertable gs key (unat fg) fi"
      using remember_free [OF ok st] by blast
    have absent: "\<forall>j \<le> n. \<forall>i. occupied (gs ! probe (length gs) (hash_h1 key) j) i \<longrightarrow>
           g_keys (gs ! probe (length gs) (hash_h1 key) j) ! i \<noteq> key"
      using st r(2) None g(1) by (auto simp: searched_def le_less)
    have unroll: "vmap_find_loop gs (cnt - 1) key (hash_h2 key) g (of_nat (Suc n)) free_g free_i =
        (if vmap_match_ctrl (g_ctrl ?grp) VMAP_CTRL_EMPTY \<noteq> 0
         then if fg \<noteq> 0xFFFFFFFFFFFFFFFF then Some (False, fg, fi)
              else do { b \<leftarrow> ctz (vmap_match_ctrl (g_ctrl ?grp) VMAP_CTRL_EMPTY); Some (False, g, b) }
         else vmap_find_loop gs (cnt - 1) key (hash_h2 key) ((g + of_nat (Suc n)) AND (cnt - 1)) (of_nat (Suc n) + 1) fg fi)"
      by (subst vmap_find_loop.simps) (simp only: grp r(1) None fr(1) Let_def option.simps bind.bind_lunit prod.case)
    show ?thesis
    proof (cases "full ?grp")
      case True
      have "unat ((g + of_nat (Suc n)) AND (cnt - 1)) = probe (length gs) (hash_h1 key) (Suc n)"
        using probe_next [OF table_okD(1) [OF ok], of g "hash_h1 key" n] g(1) table_okD(2) [OF ok] by simp
      moreover have "passed gs key (Suc n)" using st True g(1) by (auto simp: searched_def passed_def less_Suc_eq)
      ultimately have "searched gs key (Suc n) ((g + of_nat (Suc n)) AND (cnt - 1)) fg fi"
        using absent fr(2) by (simp add: searched_def less_Suc_eq_le)
      moreover have "of_nat (Suc n) + 1 = (of_nat (Suc (Suc n)) :: u64)" by simp
      ultimately show ?thesis using True g(1) unroll by (metis full_match)
    next
      case False
      then obtain b where b: "ctz (vmap_match_ctrl (g_ctrl ?grp) VMAP_CTRL_EMPTY) = Some b" "b < 16"
          "g_ctrl ?grp ! b = VMAP_CTRL_EMPTY" using first_with by (metis full_match)
      have "\<not> occupied ?grp b" using b ctrl_bytes by (simp add: occupied_def)
      then have "insertable gs key (unat g) b" using st b(2) g by (auto simp: insertable_def searched_def)
      moreover have "\<forall>a i. slot gs a i \<longrightarrow> g_keys (gs ! a) ! i \<noteq> key"
        using not_found_anywhere [OF ok, of key n] False g(1) absent by simp
      ultimately show ?thesis
        using False unroll b(1) fr(2) by (auto simp: full_match found_ok_def)
    qed
  qed
qed

lemma find_loop_ok:
  assumes ok: "table_ok gs cnt" and N: "\<not> full (gs ! probe (length gs) (hash_h1 key) N)" "n \<le> N"
    and "searched gs key n g free_g free_i"
  shows "\<exists>r. vmap_find_loop gs (cnt - 1) key (hash_h2 key) g (of_nat (Suc n)) free_g free_i = Some r \<and> found_ok gs key r"
  using N(2) assms(4)
proof (induction "N - n" arbitrary: n g free_g free_i rule: less_induct)
  case less
  show ?case
  proof (cases "full (gs ! probe (length gs) (hash_h1 key) n)")
    case True
    then have "n < N" using N(1) less.prems(1) by (metis le_neq_implies_less)
    then show ?thesis
      using find_step [OF ok less.prems(2)] less.hyps [of "Suc n"] by (metis Suc_leI diff_less_mono2 lessI)
  next
    case False
    then show ?thesis using find_step [OF ok less.prems(2)] by blast
  qed
qed

lemma find_ok:
  assumes ok: "table_ok (m_groups m) (m_group_cnt m)" and em: "has_empty (m_groups m)"
  shows "\<exists>r. vmap_find_or_insert_slot m key = Some r \<and> found_ok (m_groups m) key r"
proof -
  let ?gs = "m_groups m"
  obtain a where a: "a < length ?gs" "\<not> full (?gs ! a)" using em by (auto simp: has_empty_def in_set_conv_nth)
  then obtain N where "probe (length ?gs) (hash_h1 key) N = a"
    using probe_reaches table_okD(1,2) [OF ok] by metis
  then have N: "\<not> full (?gs ! probe (length ?gs) (hash_h1 key) N)" using a by simp
  have "searched ?gs key 0 (vmap_h1 (wyhash64_u64 key) AND (m_group_cnt m - 1)) 0xFFFFFFFFFFFFFFFF 0"
    using probe_first table_okD(1,2) [OF ok] by (simp add: searched_def passed_def)
  from find_loop_ok [OF ok N _ this] show ?thesis by (simp add: vmap_find_or_insert_slot_def Let_def)
qed

text \<open>With no empty slot in the table the search for an absent key never returns.\<close>

lemma find_loop_diverges:
  assumes "vmap_find_loop gs msk key h2 g step free_g free_i = Some r"
  shows "\<not> (table_ok gs cnt \<and> \<not> has_empty gs \<and> (\<forall>a i. slot gs a i \<longrightarrow> g_keys (gs ! a) ! i \<noteq> key)
    \<and> msk = cnt - 1 \<and> h2 = hash_h2 key \<and> unat g < length gs)"
proof (rule vmap_find_loop.raw_induct [OF _ assms, where P =
      "\<lambda>gs msk key h2 g step free_g free_i r. \<not> (table_ok gs cnt \<and> \<not> has_empty gs
        \<and> (\<forall>a i. slot gs a i \<longrightarrow> g_keys (gs ! a) ! i \<noteq> key) \<and> msk = cnt - 1 \<and> h2 = hash_h2 key \<and> unat g < length gs)"],
    rule notI)
  fix loop :: "VMapGroup list \<Rightarrow> u64 \<Rightarrow> u64 \<Rightarrow> u8 \<Rightarrow> u64 \<Rightarrow> u64 \<Rightarrow> u64 \<Rightarrow> nat \<Rightarrow> (bool \<times> u64 \<times> nat) option"
    and gs msk key h2 g step free_g free_i r
  assume IH: "\<And>gs msk key h2 g step free_g free_i r. loop gs msk key h2 g step free_g free_i = Some r \<Longrightarrow>
      \<not> (table_ok gs cnt \<and> \<not> has_empty gs \<and> (\<forall>a i. slot gs a i \<longrightarrow> g_keys (gs ! a) ! i \<noteq> key)
        \<and> msk = cnt - 1 \<and> h2 = hash_h2 key \<and> unat g < length gs)"
    and st: "table_ok gs cnt \<and> \<not> has_empty gs \<and> (\<forall>a i. slot gs a i \<longrightarrow> g_keys (gs ! a) ! i \<noteq> key)
        \<and> msk = cnt - 1 \<and> h2 = hash_h2 key \<and> unat g < length gs"
    and body: "do {
       grp \<leftarrow> rd_arr gs (unat g);
       hit \<leftarrow> vmap_hits_loop (g_keys grp) key (vmap_match_ctrl (g_ctrl grp) h2);
       case hit of
         None \<Rightarrow>
           let dels = vmap_match_ctrl (g_ctrl grp) VMAP_CTRL_DELETED
           in do {
             (free_g, free_i) \<leftarrow>
               (if free_g = 0xFFFFFFFFFFFFFFFF \<and> dels \<noteq> 0 then do { b \<leftarrow> ctz dels; Some (g, b) }
                else Some (free_g, free_i));
             let empties = vmap_match_ctrl (g_ctrl grp) VMAP_CTRL_EMPTY
             in if empties \<noteq> 0
               then if free_g \<noteq> 0xFFFFFFFFFFFFFFFF then Some (False, free_g, free_i)
                    else do { b \<leftarrow> ctz empties; Some (False, g, b) }
               else loop gs msk key h2 ((g + step) AND msk) (step + 1) free_g free_i
           }
       | Some b \<Rightarrow> Some (True, g, b)
     } = Some r"
  let ?grp = "gs ! unat g"
  have ok: "table_ok gs cnt" and lt: "unat g < length gs" using st by blast+
  have "rd_arr gs (unat g) = Some ?grp" using lt by (simp add: rd_arr_def)
  moreover have "vmap_hits_loop (g_keys ?grp) key (vmap_match_ctrl (g_ctrl ?grp) h2) = Some None"
    using group_search [OF table_okD(4) [OF ok lt], of key] st by (force simp: slot_def split: option.splits)
  moreover have "vmap_match_ctrl (g_ctrl ?grp) VMAP_CTRL_EMPTY = 0"
    using st lt by (simp add: has_empty_def full_match)
  ultimately obtain fg fi where "loop gs msk key h2 ((g + step) AND msk) (step + 1) fg fi = Some r"
    using body by (auto simp: Let_def bind_eq_Some_conv split: if_splits)
  moreover have "unat ((g + step) AND msk) < length gs"
    using st table_okD(1,2) [OF ok] pow2_pos by (simp add: unat_and_mask)
  ultimately show False using IH [of gs msk key h2 "(g + step) AND msk"] st by blast
qed

lemma find_diverges:
  assumes "table_ok (m_groups m) (m_group_cnt m)" and "\<not> has_empty (m_groups m)"
    and "\<forall>a i. slot (m_groups m) a i \<longrightarrow> g_keys (m_groups m ! a) ! i \<noteq> key"
  shows "vmap_find_or_insert_slot m key = None"
proof -
  have "unat (vmap_h1 (wyhash64_u64 key) AND (m_group_cnt m - 1)) < length (m_groups m)"
    using table_okD(1,2) [OF assms(1)] pow2_pos by (simp add: unat_and_mask)
  then show ?thesis
    using find_loop_diverges assms unfolding vmap_find_or_insert_slot_def Let_def by (metis not_None_eq)
qed

section \<open>The entries\<close>

definition entries :: "VMapGroup list \<Rightarrow> (u64 \<times> u64) list" where
  "entries gs = concat (map group_entries gs)"

lemma vmap_entries_eq: "length (m_groups m) = unat (m_group_cnt m) \<Longrightarrow> vmap_entries m = Some (entries (m_groups m))"
  by (simp add: vmap_entries_def entries_def)

lemma set_group_entries: "set (group_entries grp) = {(g_keys grp ! i, g_vals grp ! i) | i. occupied grp i}"
  by (auto simp: group_entries_def occupied_def)

lemma in_entries:
  "(k, v) \<in> set (entries gs) \<longleftrightarrow> (\<exists>a i. slot gs a i \<and> g_keys (gs ! a) ! i = k \<and> g_vals (gs ! a) ! i = v)"
proof
  assume "(k, v) \<in> set (entries gs)"
  then obtain grp i where "grp \<in> set gs" "occupied grp i" "g_keys grp ! i = k" "g_vals grp ! i = v"
    by (auto simp: entries_def set_group_entries)
  then show "\<exists>a i. slot gs a i \<and> g_keys (gs ! a) ! i = k \<and> g_vals (gs ! a) ! i = v"
    unfolding slot_def by (metis in_set_conv_nth)
next
  assume "\<exists>a i. slot gs a i \<and> g_keys (gs ! a) ! i = k \<and> g_vals (gs ! a) ! i = v"
  then obtain a i where "a < length gs" "(k, v) \<in> set (group_entries (gs ! a))"
    by (auto simp: set_group_entries slot_def)
  then show "(k, v) \<in> set (entries gs)" by (auto simp: entries_def)
qed

text \<open>Writing one slot.\<close>

definition set_slot :: "VMapGroup \<Rightarrow> nat \<Rightarrow> u8 \<Rightarrow> u64 \<Rightarrow> u64 \<Rightarrow> VMapGroup" where
  "set_slot grp i c k v = \<lparr>g_ctrl = (g_ctrl grp)[i := c], g_keys = (g_keys grp)[i := k], g_vals = (g_vals grp)[i := v]\<rparr>"

lemma wr_slot_eq: "unat g < length gs \<Longrightarrow> i < 16 \<Longrightarrow> wr_slot gs g i c k v = Some (gs[unat g := set_slot (gs ! unat g) i c k v])"
  by (simp add: wr_slot_def rd_arr_def set_slot_def)

lemma set_slot_nth:
  assumes "wf_group grp" and "i < 16" and "j < 16"
  shows "g_ctrl (set_slot grp i c k v) ! j = (if j = i then c else g_ctrl grp ! j)"
    and "g_keys (set_slot grp i c k v) ! j = (if j = i then k else g_keys grp ! j)"
    and "g_vals (set_slot grp i c k v) ! j = (if j = i then v else g_vals grp ! j)"
  using assms by (auto simp: set_slot_def wf_group_def)

lemma occupied_set_slot:
  assumes "wf_group grp" and "i < 16"
  shows "occupied (set_slot grp i c k v) j \<longleftrightarrow> (if j = i then c AND 0x80 = 0 else occupied grp j)"
  using assms by (auto simp: occupied_def set_slot_nth)

lemma wf_set_slot:
  assumes "wf_group grp" and "i < 16" and "c = VMAP_CTRL_EMPTY \<or> c = VMAP_CTRL_DELETED \<or> c = hash_h2 k"
  shows "wf_group (set_slot grp i c k v)"
  unfolding wf_group_def
proof (intro conjI allI impI)
  fix j :: nat assume "j < 16"
  then show "g_ctrl (set_slot grp i c k v) ! j = VMAP_CTRL_EMPTY \<or> g_ctrl (set_slot grp i c k v) ! j = VMAP_CTRL_DELETED
      \<or> g_ctrl (set_slot grp i c k v) ! j = hash_h2 (g_keys (set_slot grp i c k v) ! j)"
    using assms by (simp add: set_slot_nth) (auto simp: wf_group_def)
qed (use assms(1) in \<open>simp_all add: set_slot_def wf_group_def\<close>)

text \<open>One slot as a multiset of at most one entry, and the rest of its group.\<close>

definition slot_entry :: "VMapGroup \<Rightarrow> nat \<Rightarrow> (u64 \<times> u64) multiset" where
  "slot_entry grp i = (if occupied grp i then {#(g_keys grp ! i, g_vals grp ! i)#} else {#})"

lemma mset_group_entries: "mset (group_entries grp) = (\<Sum>i \<in> {..<16}. slot_entry grp i)"
proof -
  have "mset (map f (filter P [0..<n])) = (\<Sum>i \<in> {..<n}. if P i then {#f i#} else {#})" for f :: "nat \<Rightarrow> u64 \<times> u64" and P n
    by (induction n) (auto simp: lessThan_Suc)
  then have "mset (group_entries grp)
      = (\<Sum>i \<in> {..<16}. if g_ctrl grp ! i AND 0x80 = 0 then {#(g_keys grp ! i, g_vals grp ! i)#} else {#})"
    unfolding group_entries_def by blast
  also have "\<dots> = (\<Sum>i \<in> {..<16}. slot_entry grp i)"
    by (rule sum.cong) (auto simp: slot_entry_def occupied_def)
  finally show ?thesis .
qed

lemma mset_set_slot:
  assumes "wf_group grp" and "i < 16"
  shows "mset (group_entries (set_slot grp i c k v)) + slot_entry grp i
    = mset (group_entries grp) + (if c AND 0x80 = 0 then {#(k, v)#} else {#})"
proof -
  have rest: "(\<Sum>j \<in> {..<16} - {i}. slot_entry (set_slot grp i c k v) j) = (\<Sum>j \<in> {..<16} - {i}. slot_entry grp j)"
    using assms by (intro sum.cong) (auto simp: slot_entry_def occupied_set_slot set_slot_nth)
  have new: "slot_entry (set_slot grp i c k v) i = (if c AND 0x80 = 0 then {#(k, v)#} else {#})"
    using assms by (simp add: slot_entry_def occupied_set_slot set_slot_nth)
  show ?thesis
    unfolding mset_group_entries using assms(2) rest new
    by (simp add: sum.remove [of "{..<16}" i])
qed

lemma mset_entries_update:
  assumes "a < length gs"
  shows "mset (entries (gs[a := grp])) + mset (group_entries (gs ! a)) = mset (entries gs) + mset (group_entries grp)"
proof -
  have ent: "mset (entries (us @ x # vs)) = mset (group_entries x) + mset (entries (us @ vs))" for us x vs
    by (simp add: entries_def)
  have "gs[a := grp] = take a gs @ grp # drop (Suc a) gs" using assms by (rule upd_conv_take_nth_drop)
  then have new: "mset (entries (gs[a := grp])) = mset (group_entries grp) + mset (entries (take a gs @ drop (Suc a) gs))"
    by (simp only: ent)
  have "gs = take a gs @ gs ! a # drop (Suc a) gs" using assms by (rule id_take_nth_drop)
  then have "mset (entries gs) = mset (group_entries (gs ! a)) + mset (entries (take a gs @ drop (Suc a) gs))"
    by (metis ent)
  then show ?thesis using new by simp
qed

lemma mset_entries_slot:
  assumes "table_ok gs cnt" and "a < length gs" and "i < 16"
  shows "mset (entries (gs[a := set_slot (gs ! a) i c k v])) + slot_entry (gs ! a) i
    = mset (entries gs) + (if c AND 0x80 = 0 then {#(k, v)#} else {#})"
proof -
  define A where "A = mset (entries (gs[a := set_slot (gs ! a) i c k v]))"
  define B where "B = mset (group_entries (set_slot (gs ! a) i c k v))"
  define G where "G = mset (group_entries (gs ! a))"
  define N where "N = (if c AND 0x80 = 0 then {#(k, v)#} else {#})"
  have 1: "A + G = mset (entries gs) + B"
    unfolding A_def G_def B_def using assms(2) by (rule mset_entries_update)
  have 2: "B + slot_entry (gs ! a) i = G + N"
    unfolding B_def G_def N_def using table_okD(4) [OF assms(1,2)] assms(3) by (rule mset_set_slot)
  have "(A + slot_entry (gs ! a) i) + (G + B) = (A + G) + (B + slot_entry (gs ! a) i)" by (simp only: ac_simps)
  also have "\<dots> = (mset (entries gs) + B) + (G + N)" by (simp only: 1 2)
  also have "\<dots> = (mset (entries gs) + N) + (G + B)" by (simp only: ac_simps)
  finally show ?thesis unfolding A_def N_def by (simp only: add_right_cancel)
qed

section \<open>Writing a slot keeps the table well-formed\<close>

text \<open>
  The write must not make a full group non-full, and an occupied slot must be one its key reaches.
\<close>

lemma table_ok_write:
  assumes ok: "table_ok gs cnt" and a: "a < length gs" "i < 16"
    and c: "c = VMAP_CTRL_EMPTY \<or> c = VMAP_CTRL_DELETED \<or> c = hash_h2 k"
    and keeps: "full (gs ! a) \<Longrightarrow> c \<noteq> VMAP_CTRL_EMPTY"
    and reach: "c = hash_h2 k \<Longrightarrow> \<exists>n. probe (length gs) (hash_h1 k) n = a \<and> passed gs k n"
  shows "table_ok (gs[a := set_slot (gs ! a) i c k v]) cnt"
proof -
  let ?gs = "gs[a := set_slot (gs ! a) i c k v]"
  have wf: "wf_group (gs ! a)" using table_okD(4) [OF ok a(1)] .
  have full: "full (?gs ! x)" if "full (gs ! x)" for x
  proof (cases "x = a")
    case True
    then show ?thesis using that keeps a wf by (simp add: full_def set_slot_nth)
  next
    case False
    then show ?thesis using that by simp
  qed
  have passed: "passed ?gs k n" if "passed gs k n" for k n using that full by (simp add: passed_def)
  have "\<exists>n. probe (length gs) (hash_h1 (g_keys (?gs ! b) ! j)) n = b \<and> passed ?gs (g_keys (?gs ! b) ! j) n"
    if sl: "slot ?gs b j" for b j
  proof (cases "b = a \<and> j = i")
    case True
    then have "c AND 0x80 = 0" using sl a wf by (simp add: slot_def occupied_set_slot)
    then have "c = hash_h2 k" using c ctrl_bytes by auto
    then show ?thesis using True a wf reach passed by (force simp: set_slot_nth)
  next
    case False
    have "j < 16" using sl by (simp add: slot_def occupied_def)
    then have same: "g_keys (?gs ! b) ! j = g_keys (gs ! b) ! j" "slot gs b j"
      using False sl a wf by (cases "b = a"; simp add: slot_def set_slot_nth occupied_set_slot)+
    show ?thesis using table_reach [OF ok same(2) refl] passed unfolding same(1) by blast
  qed
  moreover have "\<forall>grp \<in> set ?gs. wf_group grp"
    using ok wf_set_slot [OF wf a(2) c] by (auto simp: table_ok_def dest!: subsetD [OF set_update_subset_insert])
  ultimately show ?thesis using ok by (simp add: table_ok_def)
qed

section \<open>The denoted map\<close>

text \<open>A map struct: a well-formed table with one entry per key, its size and its threshold.\<close>

definition map_rep :: "VestaHashMap \<Rightarrow> (u64 \<rightharpoonup> u64) \<Rightarrow> bool" where
  "map_rep m mp \<longleftrightarrow> table_ok (m_groups m) (m_group_cnt m) \<and> distinct (map fst (entries (m_groups m)))
     \<and> mp = map_of (entries (m_groups m)) \<and> unat (m_size m) = length (entries (m_groups m))
     \<and> unat (m_threshold m) = 14 * length (m_groups m) \<and> m_size m \<le> m_threshold m"

definition clean :: "VMapGroup list \<Rightarrow> bool" where
  "clean gs \<longleftrightarrow> (\<forall>grp \<in> set gs. no_tombs grp)"

text \<open>Two tables whose entries differ in one entry denote maps that differ at its key.\<close>

lemma distinct_keys_mset:
  "distinct (map fst es) \<Longrightarrow> image_mset fst (mset es') = image_mset fst (mset es) \<Longrightarrow> distinct (map fst es')"
  by (metis mset_eq_imp_distinct_iff mset_map)

lemma map_of_cong:
  assumes "distinct (map fst es)" and "distinct (map fst es')" and "set es = set es'"
  shows "map_of es = map_of es'"
proof
  fix k
  show "map_of es k = map_of es' k"
  proof (cases "map_of es k")
    case None
    then show ?thesis using assms(3) by (metis map_of_eq_None_iff set_map)
  next
    case (Some v)
    then have "(k, v) \<in> set es'" using assms(3) map_of_SomeD by fast
    then show ?thesis using Some assms(2) by simp
  qed
qed

lemma entries_add:
  assumes "distinct (map fst es)" and "mset es' = mset es + {#(k, v)#}" and "k \<notin> fst ` set es"
  shows "distinct (map fst es') \<and> map_of es' = (map_of es)(k \<mapsto> v) \<and> length es' = Suc (length es)"
proof -
  have eq: "mset es' = mset ((k, v) # es)" using assms(2) by simp
  have d: "distinct (map fst ((k, v) # es))" using assms(1,3) by auto
  then have d': "distinct (map fst es')" using eq by (metis distinct_keys_mset)
  have "map_of es' = map_of ((k, v) # es)" by (rule map_of_cong [OF d' d]) (use eq in \<open>rule mset_eq_setD\<close>)
  moreover have "length es' = length ((k, v) # es)" using eq by (rule mset_eq_length)
  ultimately show ?thesis using d' by simp
qed

lemma entries_remove:
  assumes "distinct (map fst es)" and "mset es' + {#(k, v)#} = mset es"
  shows "distinct (map fst es') \<and> map_of es' = (map_of es)(k := None) \<and> map_of es k = Some v \<and> Suc (length es') = length es"
proof -
  have eq: "mset es = mset ((k, v) # es')" using assms(2) by simp
  have d: "distinct (map fst ((k, v) # es'))" using assms(1) eq by (metis distinct_keys_mset)
  have m: "map_of es = map_of ((k, v) # es')" by (rule map_of_cong [OF assms(1) d]) (use eq in \<open>rule mset_eq_setD\<close>)
  have "map_of es' k = None" using d by (auto simp: map_of_eq_None_iff)
  then have "map_of es' = (map_of es)(k := None)" using m by auto
  moreover have "length es = length ((k, v) # es')" using eq by (rule mset_eq_length)
  ultimately show ?thesis using d m by simp
qed

lemma entries_replace:
  assumes "distinct (map fst es)" and "(k, u) \<in> set es" and "mset es' + {#(k, u)#} = mset es + {#(k, v)#}"
  shows "distinct (map fst es') \<and> map_of es' = (map_of es)(k \<mapsto> v) \<and> length es' = length es"
proof -
  define es1 where "es1 = remove1 (k, u) es"
  have es1: "mset es1 + {#(k, u)#} = mset es" using assms(2) by (simp add: es1_def)
  note rm = entries_remove [OF assms(1) es1]
  have "mset es' + {#(k, u)#} = (mset es1 + {#(k, v)#}) + {#(k, u)#}" using assms(3) es1 by (metis add.assoc add.commute)
  then have add: "mset es' = mset es1 + {#(k, v)#}" by (simp only: add_right_cancel)
  have "map_of es1 k = None" using rm by simp
  then have "k \<notin> fst ` set es1" by (simp add: map_of_eq_None_iff)
  from entries_add [OF _ add this] rm show ?thesis by auto
qed

section \<open>Writing on the denoted map\<close>

lemma in_entries_keys: "k \<in> fst ` set (entries gs) \<longleftrightarrow> (\<exists>a i. slot gs a i \<and> g_keys (gs ! a) ! i = k)"
  using in_entries by (force simp: image_iff)

lemma write_new:
  fixes v :: u64
  assumes ok: "table_ok gs cnt" and ins: "insertable gs k a i"
    and new: "\<forall>a i. slot gs a i \<longrightarrow> g_keys (gs ! a) ! i \<noteq> k" and d: "distinct (map fst (entries gs))"
  defines "gs' \<equiv> gs[a := set_slot (gs ! a) i (hash_h2 k) k v]"
  shows "table_ok gs' cnt" and "distinct (map fst (entries gs'))"
    and "map_of (entries gs') = (map_of (entries gs))(k \<mapsto> v)" and "length (entries gs') = Suc (length (entries gs))"
    and "mset (entries gs') = mset (entries gs) + {#(k, v)#}"
    and "clean gs \<Longrightarrow> clean gs'"
proof -
  have a: "a < length gs" "i < 16" "\<not> occupied (gs ! a) i" and reach: "\<exists>n. probe (length gs) (hash_h1 k) n = a \<and> passed gs k n"
    using ins by (auto simp: insertable_def)
  show "table_ok gs' cnt"
    unfolding gs'_def using ok a(1,2) reach h2_not_free by (intro table_ok_write) auto
  have "mset (entries gs') + slot_entry (gs ! a) i = mset (entries gs) + (if hash_h2 k AND 0x80 = 0 then {#(k, v)#} else {#})"
    unfolding gs'_def using ok a(1,2) by (rule mset_entries_slot)
  then show m: "mset (entries gs') = mset (entries gs) + {#(k, v)#}" using a(3) h2_low by (simp add: slot_entry_def)
  have "k \<notin> fst ` set (entries gs)" using new by (simp add: in_entries_keys)
  from entries_add [OF d m this] show "distinct (map fst (entries gs'))"
    "map_of (entries gs') = (map_of (entries gs))(k \<mapsto> v)" "length (entries gs') = Suc (length (entries gs))" by auto
  assume cl: "clean gs"
  then have "no_tombs (gs ! a)" using a(1) by (simp add: clean_def)
  then have "no_tombs (set_slot (gs ! a) i (hash_h2 k) k v)"
    using a table_okD(4) [OF ok a(1)] h2_not_free by (simp add: no_tombs_def set_slot_nth)
  then show "clean gs'"
    using cl by (auto simp: clean_def gs'_def dest!: subsetD [OF set_update_subset_insert])
qed

lemma write_value:
  fixes v :: u64
  assumes ok: "table_ok gs cnt" and sl: "slot gs a i" "g_keys (gs ! a) ! i = k" and d: "distinct (map fst (entries gs))"
  defines "gs' \<equiv> gs[a := set_slot (gs ! a) i (g_ctrl (gs ! a) ! i) k v]"
  shows "table_ok gs' cnt" and "distinct (map fst (entries gs'))"
    and "map_of (entries gs') = (map_of (entries gs))(k \<mapsto> v)" and "length (entries gs') = length (entries gs)"
    and "has_empty gs \<Longrightarrow> has_empty gs'" and "clean gs \<Longrightarrow> clean gs'"
proof -
  have a: "a < length gs" "i < 16" "occupied (gs ! a) i" using sl by (auto simp: slot_def occupied_def)
  have wf: "wf_group (gs ! a)" using table_okD(4) [OF ok a(1)] .
  have c: "g_ctrl (gs ! a) ! i = hash_h2 k" using wf_occupied(2) [OF wf a(2,3)] sl(2) by simp
  show "table_ok gs' cnt"
    unfolding gs'_def using ok a(1,2) c h2_not_free table_reach [OF ok sl] by (intro table_ok_write) auto
  have "mset (entries gs') + slot_entry (gs ! a) i
      = mset (entries gs) + (if g_ctrl (gs ! a) ! i AND 0x80 = 0 then {#(k, v)#} else {#})"
    unfolding gs'_def using ok a(1,2) by (rule mset_entries_slot)
  then have m: "mset (entries gs') + {#(k, g_vals (gs ! a) ! i)#} = mset (entries gs) + {#(k, v)#}"
    using a(3) sl(2) by (simp add: slot_entry_def occupied_def)
  have "(k, g_vals (gs ! a) ! i) \<in> set (entries gs)" using sl by (auto simp: in_entries)
  from entries_replace [OF d this m] show "distinct (map fst (entries gs'))"
    "map_of (entries gs') = (map_of (entries gs))(k \<mapsto> v)" "length (entries gs') = length (entries gs)" by auto
  have same: "g_ctrl (gs' ! x) ! j = g_ctrl (gs ! x) ! j" if "x < length gs" "j < 16" for x j
    using that a wf by (cases "x = a") (simp_all add: gs'_def set_slot_nth)
  then show "has_empty gs \<Longrightarrow> has_empty gs'" and "clean gs \<Longrightarrow> clean gs'"
    by (force simp: has_empty_def full_def clean_def no_tombs_def in_set_conv_nth gs'_def)+
qed

lemma write_free:
  assumes ok: "table_ok gs cnt" and sl: "slot gs a i" "g_keys (gs ! a) ! i = k" and d: "distinct (map fst (entries gs))"
    and c: "c = (if full (gs ! a) then VMAP_CTRL_DELETED else VMAP_CTRL_EMPTY)"
  defines "gs' \<equiv> gs[a := set_slot (gs ! a) i c k (g_vals (gs ! a) ! i)]"
  shows "table_ok gs' cnt" and "distinct (map fst (entries gs'))"
    and "map_of (entries gs') = (map_of (entries gs))(k := None)" and "Suc (length (entries gs')) = length (entries gs)"
    and "has_empty gs \<Longrightarrow> has_empty gs'"
proof -
  have a: "a < length gs" "i < 16" "occupied (gs ! a) i" using sl by (auto simp: slot_def occupied_def)
  have wf: "wf_group (gs ! a)" using table_okD(4) [OF ok a(1)] .
  show "table_ok gs' cnt"
    unfolding gs'_def using ok a(1,2) c ctrl_bytes h2_not_free by (intro table_ok_write) (auto split: if_splits)
  have "mset (entries gs') + slot_entry (gs ! a) i = mset (entries gs) + (if c AND 0x80 = 0 then {#(k, g_vals (gs ! a) ! i)#} else {#})"
    unfolding gs'_def using ok a(1,2) by (rule mset_entries_slot)
  then have m: "mset (entries gs') + {#(k, g_vals (gs ! a) ! i)#} = mset (entries gs)"
    using a(3) sl(2) c ctrl_bytes by (simp add: slot_entry_def split: if_splits)
  from entries_remove [OF d m] show "distinct (map fst (entries gs'))"
    "map_of (entries gs') = (map_of (entries gs))(k := None)" "Suc (length (entries gs')) = length (entries gs)" by auto
  assume "has_empty gs"
  then obtain x where x: "x < length gs" "\<not> full (gs ! x)" by (auto simp: has_empty_def in_set_conv_nth)
  have "\<not> full (gs' ! x)"
  proof (cases "x = a")
    case True
    then have "g_ctrl (gs' ! x) ! i = VMAP_CTRL_EMPTY" using x(2) c a wf by (simp add: gs'_def set_slot_nth)
    then show ?thesis using a(2) by (auto simp: full_def)
  next
    case False
    then show ?thesis using x by (simp add: gs'_def)
  qed
  then show "has_empty gs'" using x(1) nth_mem [of x gs'] by (auto simp: has_empty_def gs'_def)
qed

section \<open>Counting and rehashing\<close>

lemma full_clean_group:
  assumes "wf_group grp" and "full grp" and "no_tombs grp"
  shows "length (group_entries grp) = 16"
proof -
  have "occupied grp i" if "i < 16" for i
    using that assms wf_occupied(1) [OF assms(1) that] by (simp add: full_def no_tombs_def)
  then have "filter (\<lambda>i. g_ctrl grp ! i AND 0x80 = 0) [0..<16] = [0..<16]" by (auto simp: filter_id_conv occupied_def)
  then show ?thesis unfolding group_entries_def length_map by simp
qed

text \<open>A table without tombstones that is not filled up has an empty slot.\<close>

lemma clean_has_empty:
  assumes "table_ok gs cnt" and "clean gs" and "length (entries gs) < 16 * length gs"
  shows "has_empty gs"
proof (rule ccontr)
  assume "\<not> has_empty gs"
  then have "length (group_entries grp) = 16" if "grp \<in> set gs" for grp
    using that assms(1,2) by (intro full_clean_group) (auto simp: has_empty_def clean_def table_ok_def)
  then have "map (length \<circ> group_entries) gs = replicate (length gs) 16" by (simp add: map_replicate_const list_eq_iff_nth_eq)
  then have "length (entries gs) = 16 * length gs" by (simp add: entries_def length_concat o_def sum_list_replicate)
  then show False using assms(3) by simp
qed

lemma fresh_loop_ok:
  assumes ok: "table_ok gs cnt" and N: "\<not> full (gs ! probe (length gs) (hash_h1 key) N)" "n \<le> N"
    and "unat g = probe (length gs) (hash_h1 key) n" and "passed gs key n"
  shows "\<exists>a i. vmap_fresh_loop gs (cnt - 1) (hash_h2 key) key v g (of_nat (Suc n))
      = Some (gs[a := set_slot (gs ! a) i (hash_h2 key) key v]) \<and> insertable gs key a i"
  using N(2) assms(4,5)
proof (induction "N - n" arbitrary: n g rule: less_induct)
  case less
  have lt: "unat g < length gs" using less.prems(2) table_okD(3) [OF ok] by (simp add: probe_less)
  then have grp: "rd_arr gs (unat g) = Some (gs ! unat g)" by (simp add: rd_arr_def)
  show ?case
  proof (cases "full (gs ! unat g)")
    case True
    then have "n < N" using N(1) less.prems by (metis le_neq_implies_less)
    moreover have "unat ((g + of_nat (Suc n)) AND (cnt - 1)) = probe (length gs) (hash_h1 key) (Suc n)"
      using probe_next [OF table_okD(1) [OF ok], of g "hash_h1 key" n] less.prems(2) table_okD(2) [OF ok] by simp
    moreover have "passed gs key (Suc n)" using less.prems True by (auto simp: passed_def less_Suc_eq)
    ultimately have "\<exists>a i. vmap_fresh_loop gs (cnt - 1) (hash_h2 key) key v ((g + of_nat (Suc n)) AND (cnt - 1)) (of_nat (Suc (Suc n)))
        = Some (gs[a := set_slot (gs ! a) i (hash_h2 key) key v]) \<and> insertable gs key a i"
      by (intro less.hyps) auto
    moreover have "of_nat (Suc n) + 1 = (of_nat (Suc (Suc n)) :: u64)" by simp
    ultimately show ?thesis
      using grp True by (subst vmap_fresh_loop.simps) (simp only: full_match Let_def bind.bind_lunit not_True_eq_False simp_thms if_False)
  next
    case False
    then obtain b where b: "ctz (vmap_match_ctrl (g_ctrl (gs ! unat g)) VMAP_CTRL_EMPTY) = Some b" "b < 16"
        "g_ctrl (gs ! unat g) ! b = VMAP_CTRL_EMPTY" using first_with by (metis full_match)
    then have "\<not> occupied (gs ! unat g) b" using ctrl_bytes by (simp add: occupied_def)
    then have "insertable gs key (unat g) b" using lt b(2) less.prems by (auto simp: insertable_def)
    then show ?thesis
      using grp False b lt by (subst vmap_fresh_loop.simps) (auto simp: full_match wr_slot_eq)
  qed
qed

lemma insert_fresh_ok:
  assumes ok: "table_ok gs cnt" and cl: "clean gs" and room: "length (entries gs) < 16 * length gs"
    and d: "distinct (map fst (entries gs))" and new: "k \<notin> fst ` set (entries gs)"
  shows "\<exists>gs'. vmap_insert_fresh gs cnt k v = Some gs' \<and> table_ok gs' cnt \<and> clean gs' \<and> length gs' = length gs
    \<and> distinct (map fst (entries gs')) \<and> mset (entries gs') = mset (entries gs) + {#(k, v)#}"
proof -
  obtain x where x: "x < length gs" "\<not> full (gs ! x)"
    using clean_has_empty [OF ok cl room] by (auto simp: has_empty_def in_set_conv_nth)
  then obtain N where "probe (length gs) (hash_h1 k) N = x" using probe_reaches table_okD(1,2) [OF ok] by metis
  then have N: "\<not> full (gs ! probe (length gs) (hash_h1 k) N)" using x by simp
  have "unat (vmap_h1 (wyhash64_u64 k) AND (cnt - 1)) = probe (length gs) (hash_h1 k) 0"
    using probe_first table_okD(1,2) [OF ok] by simp
  from fresh_loop_ok [OF ok N _ this, of v] obtain a i
    where res: "vmap_insert_fresh gs cnt k v = Some (gs[a := set_slot (gs ! a) i (hash_h2 k) k v])" "insertable gs k a i"
    by (auto simp: vmap_insert_fresh_def passed_def Let_def)
  have "\<forall>a i. slot gs a i \<longrightarrow> g_keys (gs ! a) ! i \<noteq> k" using new by (auto simp: in_entries_keys)
  note w = write_new [OF ok res(2) this d, of v]
  show ?thesis using res(1) w cl by auto
qed

lemma reinsert_ok:
  assumes "table_ok gs cnt" and "clean gs" and "length (entries gs) + length es \<le> 16 * length gs"
    and "distinct (map fst (entries gs @ es))"
  shows "\<exists>gs'. for_each (\<lambda>(k, v) gs. vmap_insert_fresh gs cnt k v) es gs = Some gs' \<and> table_ok gs' cnt \<and> clean gs'
    \<and> length gs' = length gs \<and> distinct (map fst (entries gs')) \<and> mset (entries gs') = mset (entries gs) + mset es"
  using assms
proof (induction es arbitrary: gs)
  case Nil
  then show ?case by simp
next
  case (Cons e es)
  obtain k v where e: "e = (k, v)" by fastforce
  have "k \<notin> fst ` set (entries gs)" "distinct (map fst (entries gs))" using Cons.prems(4) e by auto
  then obtain gs1 where gs1: "vmap_insert_fresh gs cnt k v = Some gs1" "table_ok gs1 cnt" "clean gs1" "length gs1 = length gs"
      "mset (entries gs1) = mset (entries gs) + {#(k, v)#}"
    using insert_fresh_ok [OF Cons.prems(1,2), of k v] Cons.prems(3) by auto
  have len: "length (entries gs1) = Suc (length (entries gs))" using gs1(5) by (metis size_mset size_add_mset add_mset_add_single)
  have "mset (map fst (entries gs1 @ es)) = mset (map fst (entries gs @ e # es))" using gs1(5) e by simp
  then have "distinct (map fst (entries gs1 @ es))" using Cons.prems(4) by (metis mset_eq_imp_distinct_iff)
  then obtain gs2 where "for_each (\<lambda>(k, v) gs. vmap_insert_fresh gs cnt k v) es gs1 = Some gs2" "table_ok gs2 cnt" "clean gs2"
      "length gs2 = length gs1" "distinct (map fst (entries gs2))" "mset (entries gs2) = mset (entries gs1) + mset es"
    using Cons.IH [OF gs1(2,3)] Cons.prems(3) len gs1(4) by auto
  then show ?case using gs1 e by simp
qed

lemma empty_group_facts: "wf_group empty_group" "\<not> full empty_group" "no_tombs empty_group" "group_entries empty_group = []"
proof -
  have nth: "g_ctrl empty_group ! i = VMAP_CTRL_EMPTY" if "i < 16" for i using that by (simp add: empty_group_def)
  show "wf_group empty_group" using nth by (simp add: wf_group_def) (simp add: empty_group_def)
  show "\<not> full empty_group" using nth [of 0] by (force simp: full_def)
  show "no_tombs empty_group" using nth ctrl_bytes by (simp add: no_tombs_def)
  show "group_entries empty_group = []" using nth ctrl_bytes by (auto simp: group_entries_def filter_empty_conv)
qed

lemma empty_table:
  assumes "pow2 cnt" and "unat cnt * 272 < 2 ^ 63"
  shows "table_ok (memset_groups (cnt * 272)) cnt" and "clean (memset_groups (cnt * 272))"
    and "entries (memset_groups (cnt * 272)) = []" and "length (memset_groups (cnt * 272)) = unat cnt"
    and "has_empty (memset_groups (cnt * 272))"
proof -
  have "unat (cnt * 272) = unat cnt * 272" using assms(2) by (subst unat_mult_small) simp_all
  then have m: "memset_groups (cnt * 272) = replicate (unat cnt) empty_group" by (simp add: memset_groups_def)
  show "length (memset_groups (cnt * 272)) = unat cnt" "clean (memset_groups (cnt * 272))"
    "entries (memset_groups (cnt * 272)) = []" "has_empty (memset_groups (cnt * 272))"
    using pow2_pos [OF assms(1)] empty_group_facts
    by (auto simp: m clean_def entries_def has_empty_def)
  then have "\<not> slot (memset_groups (cnt * 272)) a i" for a i
    using in_entries [of _ _ "memset_groups (cnt * 272)"] by auto
  then show "table_ok (memset_groups (cnt * 272)) cnt"
    using assms empty_group_facts(1) by (auto simp: table_ok_def m)
qed

end
