(* ===== verification/Vcol_MapApi.thy ===== *)
theory Vcol_MapApi
  imports Vcol_Store
begin

text \<open>
  What the sets rely on from the map they wrap.  A handle denotes a finite map; a lookup answers
  from it, a removal deletes from it and a put updates it, unless the put is refused for lack
  of memory, which the map does not report.  The two set operations that are written over this
  interface are verified here once, for whichever map provides it.
\<close>

definition set_add_via ::
  "(store \<Rightarrow> u64 \<Rightarrow> u64 \<Rightarrow> u64 option) \<Rightarrow> (store \<Rightarrow> u64 \<Rightarrow> u64 \<Rightarrow> u64 \<Rightarrow> store option) \<Rightarrow> u64
   \<Rightarrow> store \<Rightarrow> u64 \<Rightarrow> u64 \<Rightarrow> (u64 \<times> store) option" where
  "set_add_via contains_op put_op present s h e =
     do {
       c \<leftarrow> contains_op s h e;
       if c \<noteq> 0 then Some (0, s) else do { s \<leftarrow> put_op s h e present; Some (1, s) }
     }"

definition set_remove_via ::
  "(store \<Rightarrow> u64 \<Rightarrow> u64 \<Rightarrow> (u64 \<times> store) option) \<Rightarrow> store \<Rightarrow> u64 \<Rightarrow> u64 \<Rightarrow> (u64 \<times> store) option" where
  "set_remove_via remove_op s h e =
     do { (r, s) \<leftarrow> remove_op s h e; Some (if r \<noteq> VCOL_NOT_FOUND then 1 else 0, s) }"

locale map_provider =
  fixes put_op :: "store \<Rightarrow> u64 \<Rightarrow> u64 \<Rightarrow> u64 \<Rightarrow> store option"
    and contains_op :: "store \<Rightarrow> u64 \<Rightarrow> u64 \<Rightarrow> u64 option"
    and remove_op :: "store \<Rightarrow> u64 \<Rightarrow> u64 \<Rightarrow> (u64 \<times> store) option"
    and denotes :: "store \<Rightarrow> u64 \<Rightarrow> (u64 \<rightharpoonup> u64) \<Rightarrow> bool"
    and ready :: "store \<Rightarrow> u64 \<Rightarrow> bool"
    and refused :: "store \<Rightarrow> u64 \<Rightarrow> u64 \<Rightarrow> bool"
    and frame :: "u64 \<Rightarrow> store \<Rightarrow> store \<Rightarrow> bool"
  assumes contains_ok: "denotes s h mp \<Longrightarrow> ready s h \<Longrightarrow> contains_op s h k = Some (if k \<in> dom mp then 1 else 0)"
    and put_ok: "denotes s h mp \<Longrightarrow> ready s h \<Longrightarrow> \<not> refused s h k \<Longrightarrow>
      \<exists>s'. put_op s h k v = Some s' \<and> denotes s' h (mp(k \<mapsto> v)) \<and> frame h s s'"
    and put_refused: "denotes s h mp \<Longrightarrow> ready s h \<Longrightarrow> refused s h k \<Longrightarrow>
      \<exists>s'. put_op s h k v = Some s' \<and> denotes s' h mp \<and> frame h s s'"
    and remove_ok: "denotes s h mp \<Longrightarrow> ready s h \<Longrightarrow>
      \<exists>s'. remove_op s h k = Some (case mp k of None \<Rightarrow> VCOL_NOT_FOUND | Some v \<Rightarrow> v, s')
        \<and> denotes s' h (mp(k := None)) \<and> ready s' h \<and> frame h s s'"
    and frame_refl: "frame h s s"
begin

text \<open>A handle denotes a set when every key of its map carries the marker.\<close>

lemma add_ok:
  assumes set: "denotes s h mp" "\<forall>e \<in> dom mp. mp e = Some present" and rdy: "ready s h"
  shows "\<exists>s' mp'. set_add_via contains_op put_op present s h e = Some (if e \<in> dom mp then 0 else 1, s')
    \<and> denotes s' h mp' \<and> (\<forall>e \<in> dom mp'. mp' e = Some present) \<and> frame h s s'
    \<and> dom mp' = (if e \<in> dom mp \<or> refused s h e then dom mp else insert e (dom mp))"
proof (cases "e \<in> dom mp")
  case True
  then show ?thesis using contains_ok [OF set(1) rdy] set frame_refl by (auto simp: set_add_via_def)
next
  case False
  have c: "contains_op s h e = Some 0" using contains_ok [OF set(1) rdy] False by simp
  show ?thesis
  proof (cases "refused s h e")
    case True
    then obtain s' where "put_op s h e present = Some s'" "denotes s' h mp" "frame h s s'"
      using put_refused [OF set(1) rdy] by blast
    then show ?thesis using True False c set(2) by (auto simp: set_add_via_def)
  next
    case ok: False
    then obtain s' where s': "put_op s h e present = Some s'" "denotes s' h (mp(e \<mapsto> present))" "frame h s s'"
      using put_ok [OF set(1) rdy] by blast
    have "\<forall>x \<in> dom (mp(e \<mapsto> present)). (mp(e \<mapsto> present)) x = Some present" using set(2) by auto
    moreover have "dom (mp(e \<mapsto> present)) = insert e (dom mp)" by simp
    moreover have "set_add_via contains_op put_op present s h e = Some (1, s')" using c s'(1) by (simp add: set_add_via_def)
    ultimately show ?thesis
      using s'(2,3) ok False by (intro exI [of _ s'] exI [of _ "mp(e \<mapsto> present)"]) simp
  qed
qed

lemma discard_ok:
  assumes set: "denotes s h mp" "\<forall>e \<in> dom mp. mp e = Some present" and rdy: "ready s h" and "present \<noteq> VCOL_NOT_FOUND"
  shows "\<exists>s'. set_remove_via remove_op s h e = Some (if e \<in> dom mp then 1 else 0, s') \<and> denotes s' h (mp(e := None))
    \<and> ready s' h \<and> frame h s s'"
proof -
  obtain s' where s': "remove_op s h e = Some (case mp e of None \<Rightarrow> VCOL_NOT_FOUND | Some v \<Rightarrow> v, s')"
      "denotes s' h (mp(e := None))" "ready s' h" "frame h s s'"
    using remove_ok [OF set(1) rdy] by blast
  moreover have "(case mp e of None \<Rightarrow> VCOL_NOT_FOUND | Some v \<Rightarrow> v) \<noteq> VCOL_NOT_FOUND \<longleftrightarrow> e \<in> dom mp"
    using set(2) assms(4) by (cases "mp e") (force simp: dom_def)+
  ultimately show ?thesis by (auto simp: set_remove_via_def)
qed

end

end
