(* ===== verification/Vcol_MapOps.thy ===== *)
theory Vcol_MapOps
  imports Vcol_HashTable Vcol_MapApi "HOL-Library.Sublist"
begin

text \<open>
  The exported operations of the hash map refine the operations of finite maps.  A lookup needs
  an empty slot somewhere in the table (\<open>map_ready\<close>); tables without tombstones always have one
  (\<open>map_clean\<close>), so maps that only grow never lose it.
\<close>

definition map_has :: "store \<Rightarrow> u64 \<Rightarrow> (u64 \<rightharpoonup> u64) \<Rightarrow> bool" where
  "map_has s h mp \<longleftrightarrow> h \<noteq> 0 \<and> (\<exists>m. deref as_map s h = Some m \<and> map_rep m mp)"

definition map_ready :: "store \<Rightarrow> u64 \<Rightarrow> bool" where
  "map_ready s h \<longleftrightarrow> (\<exists>m. deref as_map s h = Some m \<and> has_empty (m_groups m))"

definition map_clean :: "store \<Rightarrow> u64 \<Rightarrow> bool" where
  "map_clean s h \<longleftrightarrow> (\<exists>m. deref as_map s h = Some m \<and> clean (m_groups m))"

text \<open>The table must be doubled and the allocator refuses.\<close>

definition map_refused :: "store \<Rightarrow> u64 \<Rightarrow> u64 \<Rightarrow> bool" where
  "map_refused s h k \<longleftrightarrow> (\<exists>m. deref as_map s h = Some m \<and> m_size m + 1 > m_threshold m
     \<and> fst (malloc s (m_group_cnt m * 2 * 272)) = 0)"

section \<open>Facts of the representation\<close>

lemma map_repD:
  assumes "map_rep m mp"
  shows "table_ok (m_groups m) (m_group_cnt m)" and "distinct (map fst (entries (m_groups m)))"
    and "mp = map_of (entries (m_groups m))" and "unat (m_size m) = length (entries (m_groups m))"
    and "unat (m_threshold m) = 14 * length (m_groups m)" and "unat (m_size m) \<le> 14 * length (m_groups m)"
    and "length (m_groups m) * 272 < 2 ^ 63" and "0 < length (m_groups m)"
  using assms table_okD(3) [of "m_groups m" "m_group_cnt m"]
  by (auto simp: map_rep_def table_ok_def word_le_nat_alt)

lemma map_rep_grow: "map_rep m mp \<Longrightarrow> m_size m + 1 > m_threshold m \<longleftrightarrow> unat (m_size m) = 14 * length (m_groups m)"
proof -
  assume m: "map_rep m mp"
  have "unat (m_size m + 1) = Suc (unat (m_size m))" using map_repD(6,7) [OF m] by (intro unat_add1) simp
  then show ?thesis using map_repD(5,6) [OF m] by (auto simp: word_less_nat_alt)
qed

lemma map_rep_clean_ready: "map_rep m mp \<Longrightarrow> clean (m_groups m) \<Longrightarrow> has_empty (m_groups m)"
  using map_repD(1,4,6,8) [of m mp] by (intro clean_has_empty [of _ "m_group_cnt m"]) linarith+

lemma map_find:
  assumes m: "map_rep m mp" and em: "has_empty (m_groups m)"
  shows "\<exists>found g i. vmap_find_or_insert_slot m key = Some (found, g, i) \<and> found_ok (m_groups m) key (found, g, i)
    \<and> unat g < length (m_groups m) \<and> i < 16
    \<and> mp key = (if found then Some (g_vals (m_groups m ! unat g) ! i) else None)"
proof -
  obtain found g i where r: "vmap_find_or_insert_slot m key = Some (found, g, i)" "found_ok (m_groups m) key (found, g, i)"
    using find_ok [OF map_repD(1) [OF m] em] by (metis prod_cases3)
  show ?thesis
  proof (cases found)
    case True
    then have sl: "slot (m_groups m) (unat g) i" "g_keys (m_groups m ! unat g) ! i = key" using r(2) by (auto simp: found_ok_def)
    then have "(key, g_vals (m_groups m ! unat g) ! i) \<in> set (entries (m_groups m))" by (auto simp: in_entries)
    then have "mp key = Some (g_vals (m_groups m ! unat g) ! i)" using map_repD(2,3) [OF m] by simp
    then show ?thesis using r True sl(1) by (auto simp: slot_def occupied_def)
  next
    case False
    then have "\<forall>a i. slot (m_groups m) a i \<longrightarrow> g_keys (m_groups m ! a) ! i \<noteq> key" and ins: "insertable (m_groups m) key (unat g) i"
      using r(2) by (auto simp: found_ok_def)
    then have "key \<notin> fst ` set (entries (m_groups m))" by (simp add: in_entries_keys)
    then have "mp key = None" using map_repD(3) [OF m] by (simp add: map_of_eq_None_iff)
    then show ?thesis using r False ins by (auto simp: insertable_def)
  qed
qed

section \<open>Lookups\<close>

lemma map_has_ready:
  assumes "map_has s h mp" and "map_ready s h"
  obtains m where "h \<noteq> 0" "deref as_map s h = Some m" "map_rep m mp" "has_empty (m_groups m)"
  using assms by (auto simp: map_has_def map_ready_def)

lemma map_rd:
  assumes "map_rep m mp" and "unat g < length (m_groups m)" and "i < 16"
  shows "rd_arr (m_groups m) (unat g) = Some (m_groups m ! unat g)"
    and "rd_arr (g_vals (m_groups m ! unat g)) i = Some (g_vals (m_groups m ! unat g) ! i)"
    and "rd_arr (g_keys (m_groups m ! unat g)) i = Some (g_keys (m_groups m ! unat g) ! i)"
    and "rd_arr (g_ctrl (m_groups m ! unat g)) i = Some (g_ctrl (m_groups m ! unat g) ! i)"
  using assms table_okD(4) [OF map_repD(1) [OF assms(1)] assms(2)] by (auto simp: rd_arr_def wf_group_def)

lemma map_lookups:
  assumes "map_has s h mp" and "map_ready s h"
  shows "vcol_map_get s h k = Some (case mp k of None \<Rightarrow> 0 | Some v \<Rightarrow> v)"
    and "vcol_map_get_or s h k d = Some (case mp k of None \<Rightarrow> d | Some v \<Rightarrow> v)"
    and "vcol_map_contains s h k = Some (if k \<in> dom mp then 1 else 0)"
proof -
  obtain m where m: "h \<noteq> 0" "deref as_map s h = Some m" "map_rep m mp" "has_empty (m_groups m)"
    using assms by (rule map_has_ready)
  obtain found g i where f: "vmap_find_or_insert_slot m k = Some (found, g, i)" "unat g < length (m_groups m)" "i < 16"
      "mp k = (if found then Some (g_vals (m_groups m ! unat g) ! i) else None)"
    using map_find [OF m(3,4)] by blast
  have val: "vmap_value m g i = Some (g_vals (m_groups m ! unat g) ! i)"
    using map_rd [OF m(3) f(2,3)] by (simp add: vmap_value_def)
  show "vcol_map_get s h k = Some (case mp k of None \<Rightarrow> 0 | Some v \<Rightarrow> v)"
    "vcol_map_get_or s h k d = Some (case mp k of None \<Rightarrow> d | Some v \<Rightarrow> v)"
    "vcol_map_contains s h k = Some (if k \<in> dom mp then 1 else 0)"
    using m(1,2) f(1,4) val
    by (auto simp: vcol_map_get_def vcol_map_get_or_def vcol_map_contains_def domIff split: if_splits)
qed

lemma map_size_eq: "map_has s h mp \<Longrightarrow> finite (dom mp) \<and> vcol_map_size s h = Some (of_nat (card (dom mp)))"
proof -
  assume "map_has s h mp"
  then obtain m where m: "h \<noteq> 0" "deref as_map s h = Some m" "map_rep m mp" by (auto simp: map_has_def)
  have "card (dom mp) = length (entries (m_groups m))"
    using map_repD(2,3) [OF m(3)] by (simp add: dom_map_of_conv_image_fst distinct_card flip: set_map)
  moreover have "finite (dom mp)" using map_repD(3) [OF m(3)] by (simp add: finite_dom_map_of)
  moreover have "m_size m = of_nat (length (entries (m_groups m)))" by (simp flip: map_repD(4) [OF m(3)])
  ultimately show ?thesis using m(1,2) by (simp add: vcol_map_size_def)
qed

section \<open>Updates\<close>

lemma threshold_eq:
  assumes "unat cnt * 272 < 2 ^ 63"
  shows "unat ((cnt * VMAP_GROUP_W * 7) div 8 :: u64) = 14 * unat cnt"
proof -
  have "unat (cnt * 16) = unat cnt * 16" using assms by (subst unat_mult_small) simp_all
  then have "unat (cnt * 16 * 7) = unat cnt * 16 * 7" using assms by (subst unat_mult_small) simp_all
  then show ?thesis by (simp add: VMAP_GROUP_W_def unat_div)
qed

lemma pow2_twice: "pow2 c \<Longrightarrow> unat c < 2 ^ 62 \<Longrightarrow> pow2 (c * 2) \<and> unat (c * 2) = 2 * unat c"
proof -
  assume "pow2 c" and small: "unat c < 2 ^ 62"
  then obtain k where k: "k < 64" "unat c = 2 ^ k" by (auto simp: pow2_def)
  have "(2 :: nat) ^ k < 2 ^ 62" using small k(2) by simp
  then have "k < 62" by (rule power_less_imp_less_exp [rotated]) simp
  have u: "unat (c * 2) = 2 * unat c" using small by (subst unat_mult_small) simp_all
  then have "Suc k < 64 \<and> unat (c * 2) = 2 ^ Suc k" using \<open>k < 62\<close> k(2) by simp
  then show ?thesis using u unfolding pow2_def by blast
qed

lemma map_rehash_ok:
  assumes m: "map_rep m mp" and grant: "fst (malloc s (m_group_cnt m * 2 * 272)) \<noteq> 0"
  shows "\<exists>m'. vmap_rehash s m = Some (True, m', after_malloc s) \<and> map_rep m' mp \<and> clean (m_groups m')
    \<and> unat (m_size m') < 14 * length (m_groups m')"
proof -
  let ?cnt = "m_group_cnt m" and ?es = "entries (m_groups m)"
  have ok: "table_ok (m_groups m) ?cnt" by (rule map_repD(1) [OF m])
  have len: "length (m_groups m) = unat ?cnt" by (rule table_okD(2) [OF ok])
  have small: "unat ?cnt * 272 < 2 ^ 63" using map_repD(7) [OF m] len by simp
  then have p: "pow2 (?cnt * 2)" "unat (?cnt * 2) = 2 * unat ?cnt"
    using pow2_twice [OF table_okD(1) [OF ok]] by simp_all
  have "unat (?cnt * 2 * 272) = 2 * unat ?cnt * 272" using p(2) small by (subst unat_mult_small) simp_all
  then have small2: "unat (?cnt * 2) * 272 < 2 ^ 63" using malloc_bound [OF grant] p(2) by simp
  note em = empty_table [OF p(1) small2]
  have sz: "length ?es \<le> 14 * unat ?cnt" "0 < unat ?cnt" using map_repD(4,6,8) [OF m] len by simp_all
  have "length (entries (memset_groups (?cnt * 2 * 272))) + length ?es \<le> 16 * length (memset_groups (?cnt * 2 * 272))"
    unfolding em(3,4) p(2) using sz by simp
  moreover have "distinct (map fst (entries (memset_groups (?cnt * 2 * 272)) @ ?es))"
    unfolding em(3) using map_repD(2) [OF m] by simp
  ultimately obtain gs where gs: "for_each (\<lambda>(k, v) gs. vmap_insert_fresh gs (?cnt * 2) k v) ?es (memset_groups (?cnt * 2 * 272)) = Some gs"
      "table_ok gs (?cnt * 2)" "clean gs" "length gs = unat (?cnt * 2)" "distinct (map fst (entries gs))" "mset (entries gs) = mset ?es"
    using reinsert_ok [OF em(1,2), of ?es] em(3,4) by auto
  define m' where "m' = m\<lparr>m_groups := gs, m_group_cnt := ?cnt * 2, m_threshold := (?cnt * 2 * VMAP_GROUP_W * 7) div 8\<rparr>"
  obtain a where a: "malloc s (?cnt * 2 * 272) = (a, after_malloc s)" "a \<noteq> 0"
    using grant malloc_eq by blast
  have "vmap_rehash s m = Some (True, m', after_malloc s)"
    unfolding vmap_rehash_def Let_def a(1) using a(2) gs(1) vmap_entries_eq [OF len]
    by (simp add: vmap_capacity_def m'_def)
  moreover have "map_of (entries gs) = map_of ?es"
    using map_of_cong [OF gs(5) map_repD(2) [OF m]] mset_eq_setD [OF gs(6)] by simp
  moreover have "length (entries gs) = length ?es" using gs(6) by (rule mset_eq_length)
  moreover have thr: "unat ((?cnt * 2 * VMAP_GROUP_W * 7) div 8) = 14 * unat (?cnt * 2)" using small2 by (rule threshold_eq)
  ultimately show ?thesis
    using gs m sz p(2) by (auto simp: map_rep_def m'_def word_le_nat_alt)
qed

text \<open>The guard of a put: either room is there or it is made, or the put is dropped.\<close>

lemma map_guard:
  assumes m: "map_rep m mp"
  shows "m_size m + 1 > m_threshold m \<and> fst (malloc s (m_group_cnt m * 2 * 272)) = 0 \<Longrightarrow>
      (if m_size m + 1 > m_threshold m then vmap_rehash s m else Some (True, m, s)) = Some (False, m, after_malloc s)"
    and "\<not> (m_size m + 1 > m_threshold m \<and> fst (malloc s (m_group_cnt m * 2 * 272)) = 0) \<Longrightarrow>
      \<exists>m' s'. (if m_size m + 1 > m_threshold m then vmap_rehash s m else Some (True, m, s)) = Some (True, m', s')
        \<and> map_rep m' mp \<and> unat (m_size m') < 14 * length (m_groups m') \<and> only_changes h s s'
        \<and> (has_empty (m_groups m) \<longrightarrow> has_empty (m_groups m')) \<and> (clean (m_groups m) \<longrightarrow> clean (m_groups m'))"
proof -
  show "m_size m + 1 > m_threshold m \<and> fst (malloc s (m_group_cnt m * 2 * 272)) = 0 \<Longrightarrow>
      (if m_size m + 1 > m_threshold m then vmap_rehash s m else Some (True, m, s)) = Some (False, m, after_malloc s)"
    unfolding vmap_rehash_def Let_def by (subst malloc_eq) simp
  assume no: "\<not> (m_size m + 1 > m_threshold m \<and> fst (malloc s (m_group_cnt m * 2 * 272)) = 0)"
  show "\<exists>m' s'. (if m_size m + 1 > m_threshold m then vmap_rehash s m else Some (True, m, s)) = Some (True, m', s')
        \<and> map_rep m' mp \<and> unat (m_size m') < 14 * length (m_groups m') \<and> only_changes h s s'
        \<and> (has_empty (m_groups m) \<longrightarrow> has_empty (m_groups m')) \<and> (clean (m_groups m) \<longrightarrow> clean (m_groups m'))"
  proof (cases "m_size m + 1 > m_threshold m")
    case True
    then obtain m' where "vmap_rehash s m = Some (True, m', after_malloc s)" "map_rep m' mp" "clean (m_groups m')"
        "unat (m_size m') < 14 * length (m_groups m')"
      using no map_rehash_ok [OF m] by blast
    then show ?thesis using True map_rep_clean_ready by auto
  next
    case False
    then show ?thesis using m map_rep_grow [OF m] map_repD(6) [OF m] by auto
  qed
qed

lemma map_has_put: "h \<noteq> 0 \<Longrightarrow> map_rep m mp \<Longrightarrow> map_has (put OHashMap s h m) h mp"
  by (auto simp: map_has_def)

text \<open>A put on the struct, once there is room.\<close>

lemma map_put_struct:
  assumes m: "map_rep m mp" and em: "has_empty (m_groups m)" and room: "unat (m_size m) < 14 * length (m_groups m)"
  shows "\<exists>m'. map_rep m' (mp(key \<mapsto> val)) \<and> (clean (m_groups m) \<longrightarrow> clean (m_groups m'))
    \<and> m_threshold m' = m_threshold m
    \<and> do {
          (found, g, i) \<leftarrow> vmap_find_or_insert_slot m key;
          grp \<leftarrow> rd_arr (m_groups m) (unat g);
          if found
          then do {
            c \<leftarrow> rd_arr (g_ctrl grp) i;
            k \<leftarrow> rd_arr (g_keys grp) i;
            gs \<leftarrow> wr_slot (m_groups m) g i c k val;
            Some (put OHashMap s h (m\<lparr>m_groups := gs\<rparr>))
          }
          else do {
            gs \<leftarrow> wr_slot (m_groups m) g i (vmap_h2 (wyhash64_u64 key)) key val;
            Some (put OHashMap s h (m\<lparr>m_groups := gs, m_size := m_size m + 1\<rparr>))
          }
        } = Some (put OHashMap s h m')"
proof -
  let ?gs = "m_groups m"
  obtain found g i where f: "vmap_find_or_insert_slot m key = Some (found, g, i)" "found_ok ?gs key (found, g, i)"
      "unat g < length ?gs" "i < 16"
    using map_find [OF m em] by blast
  note rd = map_rd [OF m f(3,4)]
  note ok = map_repD(1) [OF m] and d = map_repD(2) [OF m]
  show ?thesis
  proof (cases found)
    case True
    then have sl: "slot ?gs (unat g) i" "g_keys (?gs ! unat g) ! i = key" using f(2) by (auto simp: found_ok_def)
    let ?gs' = "?gs[unat g := set_slot (?gs ! unat g) i (g_ctrl (?gs ! unat g) ! i) key val]"
    note w = write_value [OF ok sl d, of val]
    have "map_rep (m\<lparr>m_groups := ?gs'\<rparr>) (mp(key \<mapsto> val))" using m w(1-4) by (simp add: map_rep_def)
    then show ?thesis using f True rd sl(2) w(6) by (intro exI [of _ "m\<lparr>m_groups := ?gs'\<rparr>"]) (simp add: wr_slot_eq)
  next
    case False
    then have ins: "insertable ?gs key (unat g) i" and new: "\<forall>a i. slot ?gs a i \<longrightarrow> g_keys (?gs ! a) ! i \<noteq> key"
      using f(2) by (auto simp: found_ok_def)
    let ?gs' = "?gs[unat g := set_slot (?gs ! unat g) i (hash_h2 key) key val]"
    note w = write_new [OF ok ins new d, of val]
    have "unat (m_size m + 1) = Suc (unat (m_size m))" using room map_repD(7) [OF m] by (intro unat_add1) simp
    then have "map_rep (m\<lparr>m_groups := ?gs', m_size := m_size m + 1\<rparr>) (mp(key \<mapsto> val))"
      using m w(1-4) room by (simp add: map_rep_def word_le_nat_alt)
    then show ?thesis
      using f False rd w(6) by (intro exI [of _ "m\<lparr>m_groups := ?gs', m_size := m_size m + 1\<rparr>"]) (simp add: wr_slot_eq)
  qed
qed

lemma map_put_ok:
  assumes has: "map_has s h mp" and rdy: "map_ready s h" and "\<not> map_refused s h k"
  shows "\<exists>s'. vcol_map_put s h k v = Some s' \<and> map_has s' h (mp(k \<mapsto> v)) \<and> only_changes h s s'
    \<and> (map_clean s h \<longrightarrow> map_clean s' h)"
proof -
  obtain m where m: "h \<noteq> 0" "deref as_map s h = Some m" "map_rep m mp" "has_empty (m_groups m)"
    using has rdy by (rule map_has_ready)
  obtain m1 s1 where g: "(if m_size m + 1 > m_threshold m then vmap_rehash s m else Some (True, m, s)) = Some (True, m1, s1)"
      "map_rep m1 mp" "unat (m_size m1) < 14 * length (m_groups m1)" "only_changes h s s1" "has_empty (m_groups m1)"
      "clean (m_groups m) \<longrightarrow> clean (m_groups m1)"
    using map_guard(2) [OF m(3)] assms(3) m by (metis map_refused_def)
  obtain m2 where m2: "map_rep m2 (mp(k \<mapsto> v))" "clean (m_groups m1) \<longrightarrow> clean (m_groups m2)"
      "vcol_map_put s h k v = Some (put OHashMap s1 h m2)"
    using map_put_struct [OF g(2,5,3), of k v s1 h] m(1,2) g(1) by (auto simp: vcol_map_put_def)
  then show ?thesis using m g by (auto simp: map_has_put map_clean_def)
qed

lemma map_put_refused:
  assumes has: "map_has s h mp" and no: "map_refused s h k"
  shows "vcol_map_put s h k v = Some (after_malloc s)" and "map_has (after_malloc s) h mp"
proof -
  obtain m where m: "h \<noteq> 0" "deref as_map s h = Some m" "map_rep m mp" using has by (auto simp: map_has_def)
  then have "m_size m + 1 > m_threshold m \<and> fst (malloc s (m_group_cnt m * 2 * 272)) = 0"
    using no by (simp add: map_refused_def)
  from map_guard(1) [OF m(3) this] show "vcol_map_put s h k v = Some (after_malloc s)"
    using m(1,2) by (simp add: vcol_map_put_def)
  show "map_has (after_malloc s) h mp" using has by (simp add: map_has_def)
qed

lemma map_remove_ok:
  assumes has: "map_has s h mp" and rdy: "map_ready s h"
  shows "\<exists>s'. vcol_map_remove s h k = Some (case mp k of None \<Rightarrow> VCOL_NOT_FOUND | Some v \<Rightarrow> v, s')
    \<and> map_has s' h (mp(k := None)) \<and> map_ready s' h \<and> only_changes h s s'"
proof -
  obtain m where m: "h \<noteq> 0" "deref as_map s h = Some m" "map_rep m mp" "has_empty (m_groups m)"
    using has rdy by (rule map_has_ready)
  let ?gs = "m_groups m"
  obtain found g i where f: "vmap_find_or_insert_slot m k = Some (found, g, i)" "found_ok ?gs k (found, g, i)"
      "unat g < length ?gs" "i < 16" "mp k = (if found then Some (g_vals (?gs ! unat g) ! i) else None)"
    using map_find [OF m(3,4)] by blast
  note rd = map_rd [OF m(3) f(3,4)]
  note ok = map_repD(1) [OF m(3)] and d = map_repD(2) [OF m(3)]
  show ?thesis
  proof (cases found)
    case False
    then have "mp(k := None) = mp" using f(5) by (auto simp: fun_upd_idem)
    then show ?thesis using m(1,2) f False has rdy by (auto simp: vcol_map_remove_def)
  next
    case True
    then have sl: "slot ?gs (unat g) i" "g_keys (?gs ! unat g) ! i = k" using f(2) by (auto simp: found_ok_def)
    define c where "c = (if full (?gs ! unat g) then VMAP_CTRL_DELETED else VMAP_CTRL_EMPTY)"
    let ?gs' = "?gs[unat g := set_slot (?gs ! unat g) i c k (g_vals (?gs ! unat g) ! i)]"
    let ?m = "m\<lparr>m_groups := ?gs', m_size := m_size m - 1\<rparr>"
    note w = write_free [OF ok sl d c_def]
    have "1 \<le> unat (m_size m)" using w(4) map_repD(4) [OF m(3)] by simp
    then have "unat (m_size m - 1) = unat (m_size m) - 1" by (simp add: unat_sub_small)
    then have "map_rep ?m (mp(k := None))"
      using m(3) w(1-4) map_repD(4) [OF m(3)] by (auto simp: map_rep_def word_le_nat_alt)
    moreover have "vcol_map_remove s h k = Some (g_vals (?gs ! unat g) ! i, put OHashMap s h ?m)"
      using m(1,2) f True rd sl(2) by (simp add: vcol_map_remove_def wr_slot_eq c_def full_match)
    ultimately show ?thesis
      using m(1,4) f(5) True w(5) by (auto simp: map_has_put map_ready_def)
  qed
qed

text \<open>Clearing, and the life cycle.\<close>

lemma map_clear_ok:
  assumes "map_has s h mp"
  shows "\<exists>s'. vcol_map_clear s h = Some s' \<and> map_has s' h Map.empty \<and> map_clean s' h \<and> only_changes h s s'"
proof -
  obtain m where m: "h \<noteq> 0" "deref as_map s h = Some m" "map_rep m mp" using assms by (auto simp: map_has_def)
  note ok = map_repD(1) [OF m(3)]
  have len: "length (m_groups m) = unat (m_group_cnt m)" by (rule table_okD(2) [OF ok])
  have small: "unat (m_group_cnt m) * 272 < 2 ^ 63" using map_repD(7) [OF m(3)] len by simp
  note em = empty_table [OF table_okD(1) [OF ok] small]
  have "unat (m_group_cnt m * 272) = unat (m_group_cnt m) * 272" using small by (subst unat_mult_small) simp_all
  then have n: "unat (m_group_cnt m * 272) div 272 = length (m_groups m)" using len by simp
  let ?m = "m\<lparr>m_groups := memset_groups (m_group_cnt m * 272), m_size := 0\<rparr>"
  have "map_rep ?m Map.empty" using m(3) em len by (simp add: map_rep_def)
  moreover have "vcol_map_clear s h = Some (put OHashMap s h ?m)" using m(1,2) n by (simp add: vcol_map_clear_def)
  ultimately show ?thesis using m(1) em(2) by (auto simp: map_has_put map_clean_def)
qed

lemma map_free_ok:
  assumes "map_has s h mp"
  shows "\<exists>s'. vcol_map_free s h = Some s' \<and> only_changes h s s' \<and> objs s' h = None \<and> vcol_map_free s' h = None"
  using assms map_kind.deref_SomeD [of s h]
  by (auto simp: map_has_def vcol_map_free_def free_obj_def deref_def only_changes_def)

lemma map_clean_ready: "map_has s h mp \<Longrightarrow> map_clean s h \<Longrightarrow> map_ready s h"
  using map_rep_clean_ready by (auto simp: map_has_def map_clean_def map_ready_def)

interpretation hash_map: map_provider vcol_map_put vcol_map_contains vcol_map_remove map_has map_ready map_refused only_changes
proof unfold_locales
  fix s h mp k v
  show "map_has s h mp \<Longrightarrow> map_ready s h \<Longrightarrow> vcol_map_contains s h k = Some (if k \<in> dom mp then 1 else 0)"
    by (rule map_lookups(3))
  show "map_has s h mp \<Longrightarrow> map_ready s h \<Longrightarrow> \<not> map_refused s h k \<Longrightarrow>
      \<exists>s'. vcol_map_put s h k v = Some s' \<and> map_has s' h (mp(k \<mapsto> v)) \<and> only_changes h s s'"
    using map_put_ok by blast
  show "map_has s h mp \<Longrightarrow> map_ready s h \<Longrightarrow> map_refused s h k \<Longrightarrow>
      \<exists>s'. vcol_map_put s h k v = Some s' \<and> map_has s' h mp \<and> only_changes h s s'"
    using map_put_refused by blast
  show "map_has s h mp \<Longrightarrow> map_ready s h \<Longrightarrow>
      \<exists>s'. vcol_map_remove s h k = Some (case mp k of None \<Rightarrow> VCOL_NOT_FOUND | Some v \<Rightarrow> v, s')
        \<and> map_has s' h (mp(k := None)) \<and> map_ready s' h \<and> only_changes h s s'"
    by (rule map_remove_ok)
qed simp

section \<open>Puts below the threshold\<close>

definition map_thr :: "store \<Rightarrow> u64 \<Rightarrow> nat" where
  "map_thr s h = (case deref as_map s h of None \<Rightarrow> 0 | Some m \<Rightarrow> unat (m_threshold m))"

lemma map_has_card: "map_has s h mp \<Longrightarrow> deref as_map s h = Some m \<Longrightarrow> card (dom mp) = unat (m_size m)"
proof -
  assume "map_has s h mp" and "deref as_map s h = Some m"
  then have m: "map_rep m mp" by (simp add: map_has_def)
  have "card (dom mp) = length (entries (m_groups m))"
    using map_repD(2,3) [OF m] by (simp add: dom_map_of_conv_image_fst distinct_card flip: set_map)
  then show ?thesis using map_repD(4) [OF m] by simp
qed

lemma map_put_below:
  assumes has: "map_has s h mp" and rdy: "map_ready s h" and room: "card (dom mp) < map_thr s h"
  shows "\<exists>s'. vcol_map_put s h k v = Some s' \<and> map_has s' h (mp(k \<mapsto> v)) \<and> only_changes h s s'
    \<and> (map_clean s h \<longrightarrow> map_clean s' h) \<and> map_thr s' h = map_thr s h"
proof -
  obtain m where m: "h \<noteq> 0" "deref as_map s h = Some m" "map_rep m mp" "has_empty (m_groups m)"
    using has rdy by (rule map_has_ready)
  have lt: "unat (m_size m) < 14 * length (m_groups m)"
    using room map_has_card [OF has m(2)] m(2) map_repD(5) [OF m(3)] by (simp add: map_thr_def)
  then have "\<not> m_size m + 1 > m_threshold m" using map_rep_grow [OF m(3)] by simp
  moreover obtain m' where "map_rep m' (mp(k \<mapsto> v))" "clean (m_groups m) \<longrightarrow> clean (m_groups m')"
      "m_threshold m' = m_threshold m" "vcol_map_put s h k v = Some (put OHashMap s h m')"
    using map_put_struct [OF m(3,4) lt, of k v s h] m(1,2) calculation by (auto simp: vcol_map_put_def)
  ultimately show ?thesis using m by (auto simp: map_has_put map_clean_def map_thr_def)
qed

section \<open>Creation\<close>

lemma map_new_eq:
  "vcol_map_new s c =
     (let cap = next_pow2 (if c < VMAP_MIN_CAP then VMAP_MIN_CAP else c); n = cap div VMAP_GROUP_W;
          cnt = (if n < 1 then 1 else n); h = fst (malloc s 32); d = fst (malloc (after_malloc s) (cnt * 272))
      in if h = 0 then (VCOL_NULL, after_malloc s)
         else if d = 0 then (VCOL_NULL, after_malloc (after_malloc s))
         else (h, put OHashMap (after_malloc (after_malloc s)) h
                \<lparr>m_groups = memset_groups (cnt * 272), m_group_cnt = cnt, m_size = 0,
                 m_threshold = (cnt * VMAP_GROUP_W * 7) div 8\<rparr>))"
  unfolding vcol_map_new_def Let_def case_prod_beta snd_malloc by (rule refl)

text \<open>The number of groups is a power of two: a sixteenth of the rounded capacity, at least one.\<close>

lemma map_new_groups:
  assumes "unat c \<le> 2 ^ 58"
  defines "n \<equiv> next_pow2 (if c < VMAP_MIN_CAP then VMAP_MIN_CAP else c) div VMAP_GROUP_W"
  shows "pow2 n" and "unat n * 272 < 2 ^ 63" and "\<not> n < 1" and "unat c \<le> 16 * unat n"
proof -
  define c' where "c' = (if c < VMAP_MIN_CAP then VMAP_MIN_CAP else c)"
  have c': "16 \<le> unat c'" "unat c' \<le> 2 ^ 58" "unat c \<le> unat c'"
    using assms(1) by (auto simp: c'_def VMAP_MIN_CAP_def word_less_nat_alt)
  then have np: "pow2 (next_pow2 c')" "unat c' \<le> unat (next_pow2 c')" "unat (next_pow2 c') < 2 * unat c'"
    using next_pow2_ok [of c'] by (auto simp: max_def split: if_splits)
  then obtain k where k: "unat (next_pow2 c') = 2 ^ k" by (auto simp: pow2_def)
  have "(2 :: nat) ^ 4 \<le> 2 ^ k" using c'(1) np(2) k by simp
  then have "4 \<le> k" by (rule power_le_imp_le_exp [rotated]) simp
  moreover have "(2 :: nat) ^ k < 2 ^ 59" using c'(2) np(3) k by simp
  then have "k < 59" by (rule power_less_imp_less_exp [rotated]) simp
  ultimately have n: "unat n = 2 ^ (k - 4)" "k - 4 < 64" "k - 4 \<le> 54"
    using k by (auto simp: n_def c'_def [symmetric] VMAP_GROUP_W_def unat_div power_diff)
  then show "pow2 n" by (auto simp: pow2_def)
  have "(2 :: nat) ^ (k - 4) \<le> 2 ^ 54" using n(3) by (rule power_increasing) simp
  then show "unat n * 272 < 2 ^ 63" using n(1) by simp
  show "\<not> n < 1" using n(1) by (simp add: word_less_nat_alt)
  have "16 * unat n = 2 ^ (4 + (k - 4))" using n(1) by (simp only: power_add) simp
  then have "16 * unat n = 2 ^ k" using \<open>4 \<le> k\<close> by simp
  then show "unat c \<le> 16 * unat n" using c'(3) np(2) k by simp
qed

lemma map_new_cases:
  assumes c: "unat c \<le> 2 ^ 58" and new: "vcol_map_new s c = (h, s')"
  shows "h = VCOL_NULL \<and> objs s' = objs s
      \<or> h \<noteq> 0 \<and> objs s h = None \<and> map_has s' h Map.empty \<and> map_clean s' h \<and> 7 * unat c \<le> 8 * map_thr s' h
        \<and> 14 \<le> map_thr s' h"
    and "only_changes h s s'"
proof -
  define n where "n = next_pow2 (if c < VMAP_MIN_CAP then VMAP_MIN_CAP else c) div VMAP_GROUP_W"
  note g = map_new_groups [OF c, folded n_def]
  note em = empty_table [OF g(1,2)]
  let ?m = "\<lparr>m_groups = memset_groups (n * 272), m_group_cnt = n, m_size = 0, m_threshold = (n * VMAP_GROUP_W * 7) div 8\<rparr>"
  have rep: "map_rep ?m Map.empty" using em threshold_eq [OF g(2)] by (simp add: map_rep_def word_le_nat_alt)
  have new': "(h, s') = (if fst (malloc s 32) = 0 then (VCOL_NULL, after_malloc s)
      else if fst (malloc (after_malloc s) (n * 272)) = 0 then (VCOL_NULL, after_malloc (after_malloc s))
      else (fst (malloc s 32), put OHashMap (after_malloc (after_malloc s)) (fst (malloc s 32)) ?m))"
    using new g(3) by (simp only: map_new_eq Let_def n_def [symmetric] if_False)
  have thr: "7 * unat c \<le> 8 * unat ((n * VMAP_GROUP_W * 7) div 8)" "14 \<le> unat ((n * VMAP_GROUP_W * 7) div 8)"
    unfolding threshold_eq [OF g(2)] using g(4) pow2_pos [OF g(1)] by simp_all
  show "h = VCOL_NULL \<and> objs s' = objs s \<or> h \<noteq> 0 \<and> objs s h = None \<and> map_has s' h Map.empty \<and> map_clean s' h
      \<and> 7 * unat c \<le> 8 * map_thr s' h \<and> 14 \<le> map_thr s' h"
    using new' rep em(2) malloc_fresh [of s 32] thr
    by (auto simp: map_has_put map_clean_def map_thr_def split: if_splits)
  show "only_changes h s s'" using new' by (auto simp: only_changes_def split: if_splits)
qed

section \<open>Listing\<close>

text \<open>The result list has room for all entries, so no push is refused.\<close>

lemma map_list_ok:
  assumes has: "map_has s h mp" and m: "deref as_map s h = Some m" and len: "length vs = unat (m_size m)"
    and new: "vcol_alist_new s (if m_size m > 0 then m_size m else VALIST_MIN_CAP) = (al, s1)" and "al \<noteq> 0"
  shows "\<exists>s'. push_all vcol_alist_push s1 al vs = Some s' \<and> alist_has s' al vs \<and> al \<noteq> h \<and> map_has s' h mp \<and> only_changes al s s'"
proof -
  define c where "c = (if m_size m > 0 then m_size m else VALIST_MIN_CAP)"
  have rep: "map_rep m mp" using has m by (auto simp: map_has_def)
  have "unat (m_size m) < 2 ^ 61" using map_repD(6,7) [OF rep] by simp
  then have c: "unat c < 2 ^ 61" "unat (m_size m) \<le> max 8 (unat c)"
    by (auto simp: c_def VALIST_MIN_CAP_def word_less_nat_alt)
  note cs = alist_new_cases [OF c(1) new [folded c_def]]
  have cap: "alist_cap_has s1 al (max 8 (unat c)) []" using alist_new_cap [OF c(1) new [folded c_def] assms(5)] .
  obtain s' where s': "push_all vcol_alist_push s1 al vs = Some s'" "alist_cap_has s' al (max 8 (unat c)) vs" "only_changes al s1 s'"
    using alist_growable.push_all_appends [OF cap, of vs] c(2) len by auto
  have ne: "al \<noteq> h" using cs(1) assms(5) m by (auto simp: VCOL_NULL_def deref_def)
  have ch: "only_changes al s s'" using cs(2) s'(3) by (rule only_changes_trans)
  have "map_has s' h mp" using has only_changes_other [OF ch, of h as_map] ne by (simp add: map_has_def)
  then show ?thesis using s' ne ch alist_cap_hasD by blast
qed

lemma map_keys_values_ok:
  assumes has: "map_has s h mp"
  shows "\<exists>al s'. vcol_map_keys s h = Some (al, s') \<and> only_changes al s s' \<and> (al = VCOL_NULL \<and> objs s' = objs s
      \<or> al \<noteq> 0 \<and> al \<noteq> h \<and> map_has s' h mp \<and> (\<exists>es. alist_has s' al (map fst es) \<and> distinct (map fst es) \<and> map_of es = mp))"
    and "\<exists>al s'. vcol_map_values s h = Some (al, s') \<and> only_changes al s s' \<and> (al = VCOL_NULL \<and> objs s' = objs s
      \<or> al \<noteq> 0 \<and> al \<noteq> h \<and> map_has s' h mp \<and> (\<exists>es. alist_has s' al (map snd es) \<and> distinct (map fst es) \<and> map_of es = mp))"
proof -
  obtain m where m: "h \<noteq> 0" "deref as_map s h = Some m" "map_rep m mp" using has by (auto simp: map_has_def)
  let ?es = "entries (m_groups m)"
  have es: "vmap_entries m = Some ?es" using vmap_entries_eq table_okD(2) [OF map_repD(1) [OF m(3)]] by blast
  have len: "length (map fst ?es) = unat (m_size m)" "length (map snd ?es) = unat (m_size m)"
    using map_repD(4) [OF m(3)] by simp_all
  obtain al s1 where new: "vcol_alist_new s (if m_size m > 0 then m_size m else VALIST_MIN_CAP) = (al, s1)" by fastforce
  have "unat (if m_size m > 0 then m_size m else VALIST_MIN_CAP) < 2 ^ 61"
    using map_repD(6,7) [OF m(3)] by (simp add: VALIST_MIN_CAP_def)
  note cs = alist_new_cases [OF this new]
  note rep = map_repD(2,3) [OF m(3)]
  show "\<exists>al s'. vcol_map_keys s h = Some (al, s') \<and> only_changes al s s' \<and> (al = VCOL_NULL \<and> objs s' = objs s
      \<or> al \<noteq> 0 \<and> al \<noteq> h \<and> map_has s' h mp \<and> (\<exists>es. alist_has s' al (map fst es) \<and> distinct (map fst es) \<and> map_of es = mp))"
  proof (cases "al = 0")
    case True
    then show ?thesis using m new cs by (auto simp: vcol_map_keys_def VCOL_NULL_def)
  next
    case False
    then show ?thesis
      using map_list_ok [OF has m(2) len(1) new False] m(1,2) new es rep by (auto simp: vcol_map_keys_def)
  qed
  show "\<exists>al s'. vcol_map_values s h = Some (al, s') \<and> only_changes al s s' \<and> (al = VCOL_NULL \<and> objs s' = objs s
      \<or> al \<noteq> 0 \<and> al \<noteq> h \<and> map_has s' h mp \<and> (\<exists>es. alist_has s' al (map snd es) \<and> distinct (map fst es) \<and> map_of es = mp))"
  proof (cases "al = 0")
    case True
    then show ?thesis using m new cs by (auto simp: vcol_map_values_def VCOL_NULL_def)
  next
    case False
    then show ?thesis
      using map_list_ok [OF has m(2) len(2) new False] m(1,2) new es rep by (auto simp: vcol_map_values_def)
  qed
qed

section \<open>Properties\<close>

text \<open>An example: a new map on the concrete host.\<close>

lemma demo_map_has:
  "map_has (snd (vcol_map_new demo_store 16)) 4096 Map.empty" "map_clean (snd (vcol_map_new demo_store 16)) 4096"
proof -
  obtain h s where new: "vcol_map_new demo_store 16 = (h, s)" by fastforce
  have np: "next_pow2 16 = 16" by (simp add: next_pow2_def Let_def word_le_nat_alt)
  have "fst (vcol_map_new demo_store 16) = 4096"
    by (simp add: map_new_eq Let_def np VMAP_MIN_CAP_def VMAP_GROUP_W_def malloc_def PTRDIFF_MAX_def)
  then have "h = 4096" using new by simp
  moreover have "unat (16 :: u64) \<le> 2 ^ 58" by simp
  ultimately show "map_has (snd (vcol_map_new demo_store 16)) 4096 Map.empty" "map_clean (snd (vcol_map_new demo_store 16)) 4096"
    using map_new_cases(1) [OF _ new] new by (auto simp: VCOL_NULL_def)
qed

lemma demo_map_ready: "map_ready (snd (vcol_map_new demo_store 16)) 4096"
  using demo_map_has map_clean_ready by blast

text \<open>C32. While the table has an empty slot every lookup returns, and returns what the denoted map says: the value
  of the key or the default, presence, and the number of entries.\<close>

theorem map_lookups_answer:
  assumes "map_has s h mp" and "map_ready s h"
  shows "vcol_map_get s h k = Some (case mp k of None \<Rightarrow> 0 | Some v \<Rightarrow> v)
    \<and> vcol_map_get_or s h k d = Some (case mp k of None \<Rightarrow> d | Some v \<Rightarrow> v)
    \<and> vcol_map_contains s h k = Some (if k \<in> dom mp then 1 else 0)
    \<and> vcol_map_size s h = Some (of_nat (card (dom mp)))"
  using map_lookups [OF assms] map_size_eq [OF assms(1)] by blast

theorem map_lookups_answer_witness:
  "vcol_map_get_or (snd (vcol_map_new demo_store 16)) 4096 5 9 = Some 9"
  using map_lookups_answer [OF demo_map_has(1) demo_map_ready, of 5 9] by simp

text \<open>C33. On a table with an empty slot (\<open>map_ready\<close>) a put returns and updates the denoted map at its key and nowhere else, doubling the table when needed;
  when the doubling is refused the put changes nothing, not even the value of a key that is there.\<close>

theorem map_put_updates:
  assumes "map_has s h mp" and "map_ready s h"
  shows "\<exists>s'. vcol_map_put s h k v = Some s' \<and> only_changes h s s'
    \<and> map_has s' h (if map_refused s h k then mp else mp(k \<mapsto> v))"
  using map_put_ok [OF assms, of k v] map_put_refused(1) [OF assms(1), of k v] map_put_refused(2) [OF assms(1), of k] by (cases "map_refused s h k") auto

theorem map_put_updates_witness:
  "\<exists>s' mp. vcol_map_put (snd (vcol_map_new demo_store 16)) 4096 5 7 = Some s' \<and> map_has s' 4096 mp"
  using map_put_updates [OF demo_map_has(1) demo_map_ready, of 5 7] by blast

text \<open>C36. A removal returns the removed value, or \<^verbatim>\<open>VCOL_NOT_FOUND\<close> for an absent key, deletes the key and no
  other, and leaves the table with an empty slot if it had one.\<close>

theorem map_remove_deletes:
  assumes "map_has s h mp" and "map_ready s h"
  shows "\<exists>s'. vcol_map_remove s h k = Some (case mp k of None \<Rightarrow> VCOL_NOT_FOUND | Some v \<Rightarrow> v, s')
    \<and> map_has s' h (mp(k := None)) \<and> map_ready s' h \<and> only_changes h s s'"
  using assms by (rule map_remove_ok)

theorem map_remove_deletes_witness:
  "\<exists>s'. vcol_map_remove (snd (vcol_map_new demo_store 16)) 4096 5 = Some (VCOL_NOT_FOUND, s') \<and> map_ready s' 4096"
  using map_remove_deletes [OF demo_map_has(1) demo_map_ready, of 5] by auto

text \<open>A sequence of puts on the denoted map.\<close>

fun puts_spec :: "(u64 \<times> u64) list \<Rightarrow> (u64 \<rightharpoonup> u64) \<Rightarrow> (u64 \<rightharpoonup> u64)" where
  "puts_spec [] mp = mp"
| "puts_spec ((k, v) # kvs) mp = puts_spec kvs (mp(k \<mapsto> v))"

lemma puts_never_hang:
  assumes "map_has s h mp" and "map_clean s h"
  shows "\<exists>s' kvs'. for_each (\<lambda>(k, v) s. vcol_map_put s h k v) kvs s = Some s' \<and> map_has s' h (puts_spec kvs' mp)
    \<and> subseq kvs' kvs \<and> map_clean s' h \<and> map_ready s' h"
  using assms
proof (induction kvs arbitrary: s mp)
  case Nil
  then show ?case using map_clean_ready by (auto intro: exI [of _ "[]"])
next
  case (Cons x kvs)
  obtain k v where x: "x = (k, v)" by fastforce
  have rdy: "map_ready s h" using map_clean_ready [OF Cons.prems] .
  show ?case
  proof (cases "map_refused s h k")
    case True
    note r = map_put_refused(1) [OF Cons.prems(1) True, of v] map_put_refused(2) [OF Cons.prems(1) True]
    have "map_clean (after_malloc s) h" using Cons.prems(2) by (simp add: map_clean_def)
    from Cons.IH [OF r(2) this] show ?thesis using r(1) x by (auto intro: subseq_Cons')
  next
    case False
    then obtain s1 where s1: "vcol_map_put s h k v = Some s1" "map_has s1 h (mp(k \<mapsto> v))" "map_clean s1 h"
      using map_put_ok [OF Cons.prems(1) rdy] Cons.prems(2) by blast
    from Cons.IH [OF s1(2,3)] obtain s' kvs' where "for_each (\<lambda>(k, v) s. vcol_map_put s h k v) kvs s1 = Some s'"
        "map_has s' h (puts_spec kvs' (mp(k \<mapsto> v)))" "subseq kvs' kvs" "map_clean s' h" "map_ready s' h" by blast
    then show ?thesis using s1(1) x by (intro exI [of _ s'] exI [of _ "(k, v) # kvs'"]) simp
  qed
qed

text \<open>C38. A map from which nothing was removed keeps an empty slot: any sequence of puts on it returns, every
  lookup after it returns, and the result is the one of the puts that were not refused.\<close>

theorem insert_only_map_returns:
  assumes "map_has s h mp" and "map_clean s h"
  shows "\<exists>s' kvs'. for_each (\<lambda>(k, v) s. vcol_map_put s h k v) kvs s = Some s' \<and> map_has s' h (puts_spec kvs' mp)
    \<and> subseq kvs' kvs \<and> map_ready s' h"
  using puts_never_hang [OF assms] by blast

theorem insert_only_map_returns_witness:
  "\<exists>s'. for_each (\<lambda>(k, v) s. vcol_map_put s 4096 k v) [(1, 2), (1, 3)] (snd (vcol_map_new demo_store 16)) = Some s' \<and> map_ready s' 4096"
  using insert_only_map_returns [OF demo_map_has] by blast

text \<open>Listing the keys or the values of a map returns; unless the list cannot be created it is fresh, complete
  (every key once, the value of every key in the same order of the table) and the map is unchanged.\<close>

theorem map_listing_complete:
  assumes "map_has s h mp"
  shows "(\<exists>al s'. vcol_map_keys s h = Some (al, s') \<and> only_changes al s s' \<and> (al = VCOL_NULL \<and> objs s' = objs s
      \<or> al \<noteq> 0 \<and> al \<noteq> h \<and> map_has s' h mp \<and> (\<exists>es. alist_has s' al (map fst es) \<and> distinct (map fst es) \<and> map_of es = mp)))
    \<and> (\<exists>al s'. vcol_map_values s h = Some (al, s') \<and> only_changes al s s' \<and> (al = VCOL_NULL \<and> objs s' = objs s
      \<or> al \<noteq> 0 \<and> al \<noteq> h \<and> map_has s' h mp \<and> (\<exists>es. alist_has s' al (map snd es) \<and> distinct (map fst es) \<and> map_of es = mp)))"
  using map_keys_values_ok [OF assms] by blast

theorem map_listing_complete_witness:
  "\<exists>al s'. vcol_map_keys (snd (vcol_map_new demo_store 16)) 4096 = Some (al, s') \<and> (al = VCOL_NULL \<or> alist_has s' al [])"
  using map_listing_complete [OF demo_map_has(1)] by (auto simp: map_of_eq_empty_iff)

text \<open>A created map is fresh and empty and has no tombstone; clearing a map empties it and removes every
  tombstone, so that lookups on it return again.\<close>

theorem map_new_clear:
  assumes "unat c \<le> 2 ^ 58" and "map_has s k mp"
  shows "(\<exists>h s'. vcol_map_new s c = (h, s') \<and> only_changes h s s' \<and> (h = VCOL_NULL \<and> objs s' = objs s
      \<or> h \<noteq> 0 \<and> objs s h = None \<and> map_has s' h Map.empty \<and> map_clean s' h \<and> map_ready s' h))
    \<and> (\<exists>s'. vcol_map_clear s k = Some s' \<and> map_has s' k Map.empty \<and> map_clean s' k \<and> map_ready s' k \<and> only_changes k s s')"
proof -
  obtain h s' where new: "vcol_map_new s c = (h, s')" by fastforce
  show ?thesis
    using map_new_cases [OF assms(1) new] new map_clear_ok [OF assms(2)] map_clean_ready by blast
qed

theorem map_new_clear_witness:
  "\<exists>s'. vcol_map_clear (snd (vcol_map_new demo_store 16)) 4096 = Some s' \<and> map_ready s' 4096"
proof -
  have "unat (16 :: u64) \<le> 2 ^ 58" by simp
  from map_new_clear [OF this demo_map_has(1)] show ?thesis by blast
qed

end
