(* ===== verification/Vcol_HashSet.thy ===== *)
theory Vcol_HashSet
  imports Vcol_MapOps
begin

text \<open>
  \<^verbatim>\<open>VestaHashSet\<close>: a hash map whose keys are the elements and whose values are one marker.  The
  element operations come from the verified client of the map interface; the set operations
  \<^verbatim>\<open>is_subset\<close>, \<^verbatim>\<open>union\<close> and \<^verbatim>\<open>intersect\<close> walk the table of their first argument.
\<close>

section \<open>The operations\<close>

definition VSET_PRESENT :: u64 where
  "VSET_PRESENT = 0xFFFFFFFFFFFFFFFF - 2"

definition vcol_set_new :: "store \<Rightarrow> u64 \<Rightarrow> u64 \<times> store" where
  "vcol_set_new s initial_capacity = vcol_map_new s initial_capacity"

definition vcol_set_free :: "store \<Rightarrow> u64 \<Rightarrow> store option" where
  "vcol_set_free s handle = vcol_map_free s handle"

definition vcol_set_add :: "store \<Rightarrow> u64 \<Rightarrow> u64 \<Rightarrow> (u64 \<times> store) option" where
  "vcol_set_add s handle element =
     do {
       c \<leftarrow> vcol_map_contains s handle element;
       if c \<noteq> 0 then Some (0, s)
       else do { s \<leftarrow> vcol_map_put s handle element VSET_PRESENT; Some (1, s) }
     }"

definition vcol_set_contains :: "store \<Rightarrow> u64 \<Rightarrow> u64 \<Rightarrow> u64 option" where
  "vcol_set_contains s handle element = vcol_map_contains s handle element"

definition vcol_set_remove :: "store \<Rightarrow> u64 \<Rightarrow> u64 \<Rightarrow> (u64 \<times> store) option" where
  "vcol_set_remove s handle element =
     do { (r, s) \<leftarrow> vcol_map_remove s handle element; Some (if r \<noteq> VCOL_NOT_FOUND then 1 else 0, s) }"

definition vcol_set_size :: "store \<Rightarrow> u64 \<Rightarrow> u64 option" where
  "vcol_set_size s handle = vcol_map_size s handle"

definition vcol_set_clear :: "store \<Rightarrow> u64 \<Rightarrow> store option" where
  "vcol_set_clear s handle = vcol_map_clear s handle"

definition vcol_set_to_list :: "store \<Rightarrow> u64 \<Rightarrow> (u64 \<times> store) option" where
  "vcol_set_to_list s handle = vcol_map_keys s handle"

fun vset_subset_loop :: "store \<Rightarrow> u64 \<Rightarrow> (u64 \<times> u64) list \<Rightarrow> u64 option" where
  "vset_subset_loop s set_b [] = Some 1"
| "vset_subset_loop s set_b ((k, v) # es) =
     do { c \<leftarrow> vcol_map_contains s set_b k; if c = 0 then Some 0 else vset_subset_loop s set_b es }"

definition vcol_set_is_subset :: "store \<Rightarrow> u64 \<Rightarrow> u64 \<Rightarrow> u64 option" where
  "vcol_set_is_subset s set_a set_b =
     (if set_a = 0 then Some 1
      else do { a \<leftarrow> deref as_map s set_a; es \<leftarrow> vmap_entries a; vset_subset_loop s set_b es })"

text \<open>The walk over one argument of the union; a null argument is skipped.\<close>

definition vset_size_or_0 :: "store \<Rightarrow> u64 \<Rightarrow> u64 option" where
  "vset_size_or_0 s h = (if h = 0 then Some 0 else map_option m_size (deref as_map s h))"

definition vset_put_all :: "store \<Rightarrow> u64 \<Rightarrow> u64 \<Rightarrow> store option" where
  "vset_put_all s result h =
     (if h = 0 then Some s
      else do {
        m \<leftarrow> deref as_map s h;
        es \<leftarrow> vmap_entries m;
        for_each (\<lambda>(k, v) s. vcol_map_put s result k VSET_PRESENT) es s
      })"

definition vcol_set_union :: "store \<Rightarrow> u64 \<Rightarrow> u64 \<Rightarrow> (u64 \<times> store) option" where
  "vcol_set_union s set_a set_b =
     do {
       na \<leftarrow> vset_size_or_0 s set_a;
       nb \<leftarrow> vset_size_or_0 s set_b;
       let sz = na + nb;
       let (result, s) = vcol_set_new s (if sz > VMAP_MIN_CAP then sz else VMAP_MIN_CAP);
       if result = 0 then Some (VCOL_NULL, s)
       else do {
         s \<leftarrow> vset_put_all s result set_a;
         s \<leftarrow> vset_put_all s result set_b;
         Some (result, s)
       }
     }"

definition vcol_set_intersect :: "store \<Rightarrow> u64 \<Rightarrow> u64 \<Rightarrow> (u64 \<times> store) option" where
  "vcol_set_intersect s set_a set_b =
     do {
       sz \<leftarrow> vset_size_or_0 s set_a;
       let (result, s) = vcol_set_new s (if sz > VMAP_MIN_CAP then sz else VMAP_MIN_CAP);
       if result = 0 then Some (VCOL_NULL, s)
       else if set_a = 0 then Some (result, s)
       else do {
         a \<leftarrow> deref as_map s set_a;
         es \<leftarrow> vmap_entries a;
         s \<leftarrow> for_each (\<lambda>(k, v) s. do {
                 c \<leftarrow> vcol_map_contains s set_b k;
                 if c \<noteq> 0 then vcol_map_put s result k VSET_PRESENT else Some s
               }) es s;
         Some (result, s)
       }
     }"

section \<open>Handles that denote sets\<close>

definition set_has :: "store \<Rightarrow> u64 \<Rightarrow> u64 set \<Rightarrow> bool" where
  "set_has s h A \<longleftrightarrow> (\<exists>mp. map_has s h mp \<and> dom mp = A \<and> (\<forall>e \<in> A. mp e = Some VSET_PRESENT))"

lemma set_add_via_eq: "vcol_set_add s h e = set_add_via vcol_map_contains vcol_map_put VSET_PRESENT s h e"
  by (simp add: vcol_set_add_def set_add_via_def)

lemma set_remove_via_eq: "vcol_set_remove s h e = set_remove_via vcol_map_remove s h e"
  by (simp add: vcol_set_remove_def set_remove_via_def)

lemma present_ne: "VSET_PRESENT \<noteq> VCOL_NOT_FOUND"
  by (simp add: VSET_PRESENT_def VCOL_NOT_FOUND_def)

lemma set_add_ok:
  assumes "set_has s h A" and "map_ready s h"
  shows "\<exists>s'. vcol_set_add s h e = Some (if e \<in> A then 0 else 1, s') \<and> only_changes h s s'
    \<and> set_has s' h (if e \<in> A \<or> map_refused s h e then A else insert e A)"
proof -
  obtain mp where mp: "map_has s h mp" "dom mp = A" "\<forall>e \<in> dom mp. mp e = Some VSET_PRESENT"
    using assms(1) by (auto simp: set_has_def)
  show ?thesis
    using hash_map.add_ok [OF mp(1,3) assms(2), of e] mp(2) unfolding set_add_via_eq set_has_def by metis
qed

lemma set_remove_ok:
  assumes "set_has s h A" and "map_ready s h"
  shows "\<exists>s'. vcol_set_remove s h e = Some (if e \<in> A then 1 else 0, s') \<and> set_has s' h (A - {e}) \<and> map_ready s' h
    \<and> only_changes h s s'"
proof -
  obtain mp where mp: "map_has s h mp" "dom mp = A" "\<forall>e \<in> dom mp. mp e = Some VSET_PRESENT"
    using assms(1) by (auto simp: set_has_def)
  then have "map_has s' h (mp(e := None)) \<Longrightarrow> set_has s' h (A - {e})" for s'
    unfolding set_has_def by (intro exI [of _ "mp(e := None)"]) auto
  then show ?thesis
    using hash_map.discard_ok [OF mp(1,3) assms(2) present_ne, of e] unfolding mp(2) set_remove_via_eq by blast
qed

lemma set_has_table:
  assumes "set_has s h A"
  obtains m where "h \<noteq> 0" "deref as_map s h = Some m" "vmap_entries m = Some (entries (m_groups m))"
    "set (map fst (entries (m_groups m))) = A" "unat (m_size m) = length (entries (m_groups m))" "length (entries (m_groups m)) = card A"
    "unat (m_size m) < 2 ^ 60"
proof -
  obtain mp where mp: "map_has s h mp" "dom mp = A" using assms by (auto simp: set_has_def)
  then obtain m where m: "h \<noteq> 0" "deref as_map s h = Some m" "map_rep m mp" by (auto simp: map_has_def)
  note rep = map_repD [OF m(3)]
  have "vmap_entries m = Some (entries (m_groups m))" using vmap_entries_eq table_okD(2) [OF rep(1)] by blast
  moreover have "set (map fst (entries (m_groups m))) = A" using rep(3) mp(2) by (simp add: dom_map_of_conv_image_fst)
  moreover have "unat (m_size m) < 2 ^ 60" using rep(6,7) by simp
  ultimately show ?thesis using that [OF m(1,2)] rep(4) map_has_card [OF mp(1) m(2)] mp(2) by simp
qed

lemma set_contains_ok:
  assumes "set_has s h A" and "map_ready s h"
  shows "vcol_set_contains s h e = Some (if e \<in> A then 1 else 0)"
proof -
  obtain mp where mp: "map_has s h mp" "dom mp = A" using assms(1) by (auto simp: set_has_def)
  show ?thesis using map_lookups(3) [OF mp(1) assms(2), of e] unfolding mp(2) vcol_set_contains_def .
qed

section \<open>Subset, union, intersection\<close>

lemma subset_loop_ok:
  assumes "set_has s b B" and "map_ready s b"
  shows "vset_subset_loop s b es = Some (if fst ` set es \<subseteq> B then 1 else 0)"
proof (induction es)
  case (Cons x es)
  obtain k v where x: "x = (k, v)" by fastforce
  show ?case using Cons.IH set_contains_ok [OF assms, of k] x by (cases "k \<in> B") (simp_all add: vcol_set_contains_def)
qed simp

lemma set_subset_ok:
  assumes "set_has s a A" and "set_has s b B" and "map_ready s b"
  shows "vcol_set_is_subset s a b = Some (if A \<subseteq> B then 1 else 0)"
proof -
  obtain m where m: "a \<noteq> 0" "deref as_map s a = Some m" "vmap_entries m = Some (entries (m_groups m))"
      "set (map fst (entries (m_groups m))) = A" using assms(1) by (rule set_has_table)
  then show ?thesis using subset_loop_ok [OF assms(2,3), of "entries (m_groups m)"]
    by (simp add: vcol_set_is_subset_def)
qed

text \<open>Filling a result set that starts without tombstones.\<close>

lemma set_has_finite: "set_has s h A \<Longrightarrow> finite A"
  using map_size_eq by (auto simp: set_has_def)

lemma set_has_put:
  assumes "map_has s' h (mp(e \<mapsto> VSET_PRESENT))" and "dom mp = A" and "\<forall>e \<in> A. mp e = Some VSET_PRESENT"
  shows "set_has s' h (insert e A)"
  unfolding set_has_def using assms by (intro exI [of _ "mp(e \<mapsto> VSET_PRESENT)"]) auto

lemma set_put_step:
  assumes "set_has s h A" and "map_clean s h"
  shows "\<exists>s' A'. vcol_map_put s h e VSET_PRESENT = Some s' \<and> set_has s' h A' \<and> map_clean s' h \<and> only_changes h s s'
    \<and> A \<subseteq> A' \<and> A' \<subseteq> insert e A
    \<and> (card A < map_thr s h \<longrightarrow> A' = insert e A \<and> map_thr s' h = map_thr s h)"
proof -
  obtain mp where mp: "map_has s h mp" "dom mp = A" "\<forall>e \<in> A. mp e = Some VSET_PRESENT"
    using assms(1) by (auto simp: set_has_def)
  have rdy: "map_ready s h" using map_clean_ready [OF mp(1) assms(2)] .
  consider "card A < map_thr s h" | "\<not> card A < map_thr s h" "map_refused s h e" | "\<not> card A < map_thr s h" "\<not> map_refused s h e"
    by blast
  then show ?thesis
  proof cases
    case 1
    then show ?thesis
      using map_put_below [OF mp(1) rdy, of e VSET_PRESENT] mp(2) assms(2) set_has_put [OF _ mp(2,3)] by blast
  next
    case 2
    then have "vcol_map_put s h e VSET_PRESENT = Some (after_malloc s)" using map_put_refused(1) [OF mp(1)] by blast
    moreover have "set_has (after_malloc s) h A" using assms(1) by (simp add: set_has_def map_has_def)
    moreover have "map_clean (after_malloc s) h" using assms(2) by (simp add: map_clean_def)
    ultimately show ?thesis using 2 by blast
  next
    case 3
    then show ?thesis
      using map_put_ok [OF mp(1) rdy 3(2), of VSET_PRESENT] assms(2) set_has_put [OF _ mp(2,3)] by blast
  qed
qed

lemma set_put_all_ok:
  assumes "set_has s h A" and "map_clean s h"
  shows "\<exists>s' A'. for_each (\<lambda>(k, v) s. vcol_map_put s h k VSET_PRESENT) es s = Some s' \<and> set_has s' h A' \<and> map_clean s' h
    \<and> only_changes h s s' \<and> A \<subseteq> A' \<and> A' \<subseteq> A \<union> fst ` set es
    \<and> (card A + length es \<le> map_thr s h \<longrightarrow> A' = A \<union> fst ` set es \<and> map_thr s' h = map_thr s h)"
  using assms
proof (induction es arbitrary: s A)
  case Nil
  then show ?case by auto
next
  case (Cons x es)
  obtain k v where x: "x = (k, v)" by fastforce
  obtain s1 A1 where s1: "vcol_map_put s h k VSET_PRESENT = Some s1" "set_has s1 h A1" "map_clean s1 h" "only_changes h s s1"
      "A \<subseteq> A1" "A1 \<subseteq> insert k A" "card A < map_thr s h \<longrightarrow> A1 = insert k A \<and> map_thr s1 h = map_thr s h"
    using set_put_step [OF Cons.prems] by blast
  obtain s2 A2 where s2: "for_each (\<lambda>(k, v) s. vcol_map_put s h k VSET_PRESENT) es s1 = Some s2" "set_has s2 h A2" "map_clean s2 h"
      "only_changes h s1 s2" "A1 \<subseteq> A2" "A2 \<subseteq> A1 \<union> fst ` set es"
      "card A1 + length es \<le> map_thr s1 h \<longrightarrow> A2 = A1 \<union> fst ` set es \<and> map_thr s2 h = map_thr s1 h"
    using Cons.IH [OF s1(2,3)] by blast
  have "A2 = A \<union> fst ` set (x # es) \<and> map_thr s2 h = map_thr s h" if le: "card A + length (x # es) \<le> map_thr s h"
  proof -
    have a1: "A1 = insert k A" "map_thr s1 h = map_thr s h" using s1(7) le by auto
    have "card A1 \<le> Suc (card A)" unfolding a1(1) by (rule card_insert_le_m1) simp_all
    then show ?thesis using s2(7) a1 le x by auto
  qed
  moreover have "only_changes h s s2" using s1(4) s2(4) by (rule only_changes_trans)
  moreover have "A \<subseteq> A2" "A2 \<subseteq> A \<union> fst ` set (x # es)" using s1(5,6) s2(5,6) x by auto
  ultimately show ?case using s1(1) s2(1-3) x by auto
qed

text \<open>What another handle denotes survives the work on the result.\<close>

lemma set_has_other: "only_changes h s s' \<Longrightarrow> k \<noteq> h \<Longrightarrow> set_has s k A \<Longrightarrow> set_has s' k A"
  using only_changes_other [of h s s' k as_map] by (simp add: set_has_def map_has_def)

lemma map_ready_other: "only_changes h s s' \<Longrightarrow> k \<noteq> h \<Longrightarrow> map_ready s k \<Longrightarrow> map_ready s' k"
  using only_changes_other [of h s s' k as_map] by (simp add: map_ready_def)

lemma set_put_all_from:
  assumes res: "set_has s h A" "map_clean s h" and src: "set_has s b B" and ne: "b \<noteq> h"
  shows "\<exists>s' A'. vset_put_all s h b = Some s' \<and> set_has s' h A' \<and> map_clean s' h \<and> only_changes h s s'
    \<and> A \<subseteq> A' \<and> A' \<subseteq> A \<union> B \<and> set_has s' b B
    \<and> (card A + card B \<le> map_thr s h \<longrightarrow> A' = A \<union> B \<and> map_thr s' h = map_thr s h)"
proof -
  obtain m where m: "b \<noteq> 0" "deref as_map s b = Some m" "vmap_entries m = Some (entries (m_groups m))"
      "set (map fst (entries (m_groups m))) = B" "length (entries (m_groups m)) = card B"
    using src by (rule set_has_table)
  have keys: "fst ` set (entries (m_groups m)) = B" using m(4) by simp
  obtain s' A' where s': "for_each (\<lambda>(k, v) s. vcol_map_put s h k VSET_PRESENT) (entries (m_groups m)) s = Some s'"
      "set_has s' h A'" "map_clean s' h" "only_changes h s s'" "A \<subseteq> A'" "A' \<subseteq> A \<union> B"
      "card A + card B \<le> map_thr s h \<longrightarrow> A' = A \<union> B \<and> map_thr s' h = map_thr s h"
    using set_put_all_ok [OF res, of "entries (m_groups m)"] unfolding keys m(5) by blast
  moreover have "vset_put_all s h b = Some s'" using m(1-3) s'(1) by (simp add: vset_put_all_def)
  ultimately show ?thesis using set_has_other [OF s'(4) ne src] by blast
qed

lemma set_new_result:
  assumes "unat sz < 2 ^ 58" and new: "vcol_set_new s (if sz > VMAP_MIN_CAP then sz else VMAP_MIN_CAP) = (r, s1)"
  shows "r = VCOL_NULL \<and> objs s1 = objs s
      \<or> r \<noteq> 0 \<and> objs s r = None \<and> set_has s1 r {} \<and> map_clean s1 r \<and> 14 \<le> map_thr s1 r"
    and "only_changes r s s1"
proof -
  have c: "unat (if sz > VMAP_MIN_CAP then sz else VMAP_MIN_CAP) \<le> 2 ^ 58"
    using assms(1) by (simp add: VMAP_MIN_CAP_def)
  show "r = VCOL_NULL \<and> objs s1 = objs s
      \<or> r \<noteq> 0 \<and> objs s r = None \<and> set_has s1 r {} \<and> map_clean s1 r \<and> 14 \<le> map_thr s1 r"
    using map_new_cases(1) [OF c new [unfolded vcol_set_new_def]] by (auto simp: set_has_def)
  show "only_changes r s s1" using map_new_cases(2) [OF c new [unfolded vcol_set_new_def]] .
qed

lemma set_has_size: "set_has s h A \<Longrightarrow> \<exists>n. vset_size_or_0 s h = Some n \<and> unat n = card A"
  by (rule set_has_table) (auto simp: vset_size_or_0_def)

lemma set_union_ok:
  assumes a: "set_has s a A" and b: "set_has s b B" and small: "card A + card B < 2 ^ 58"
  shows "\<exists>r s'. vcol_set_union s a b = Some (r, s') \<and> only_changes r s s'
    \<and> (r = VCOL_NULL \<and> objs s' = objs s
       \<or> r \<noteq> 0 \<and> objs s r = None \<and> (\<exists>C. set_has s' r C \<and> C \<subseteq> A \<union> B \<and> (card A + card B \<le> 14 \<longrightarrow> C = A \<union> B)))"
proof -
  obtain na nb where n: "vset_size_or_0 s a = Some na" "unat na = card A" "vset_size_or_0 s b = Some nb" "unat nb = card B"
    using set_has_size a b by metis
  have sz: "unat (na + nb) = card A + card B" using n small by (simp add: unat_add_small)
  obtain r s1 where new: "vcol_set_new s (if na + nb > VMAP_MIN_CAP then na + nb else VMAP_MIN_CAP) = (r, s1)" by fastforce
  note cs = set_new_result [OF _ new, unfolded sz, OF small]
  show ?thesis
  proof (cases "r = 0")
    case True
    then show ?thesis using n new cs by (auto simp: vcol_set_union_def Let_def VCOL_NULL_def)
  next
    case False
    then have r: "objs s r = None" "set_has s1 r {}" "map_clean s1 r" "14 \<le> map_thr s1 r" using cs(1) by (auto simp: VCOL_NULL_def)
    have ne: "a \<noteq> r" "b \<noteq> r" using r(1) a b by (auto simp: set_has_def map_has_def deref_def)
    have a1: "set_has s1 a A" and b1: "set_has s1 b B" using set_has_other [OF cs(2)] ne a b by blast+
    obtain s2 A2 where s2: "vset_put_all s1 r a = Some s2" "set_has s2 r A2" "map_clean s2 r" "only_changes r s1 s2"
        "A2 \<subseteq> {} \<union> A" "card ({} :: u64 set) + card A \<le> map_thr s1 r \<longrightarrow> A2 = {} \<union> A \<and> map_thr s2 r = map_thr s1 r"
      using set_put_all_from [OF r(2,3) a1 ne(1)] by blast
    have b2: "set_has s2 b B" using set_has_other [OF s2(4) ne(2) b1] .
    obtain s3 A3 where s3: "vset_put_all s2 r b = Some s3" "set_has s3 r A3" "only_changes r s2 s3"
        "A3 \<subseteq> A2 \<union> B" "card A2 + card B \<le> map_thr s2 r \<longrightarrow> A3 = A2 \<union> B \<and> map_thr s3 r = map_thr s2 r"
      using set_put_all_from [OF s2(2,3) b2 ne(2)] by blast
    have "A3 = A \<union> B" if "card A + card B \<le> 14" using that r(4) s2(6) s3(5) by auto
    moreover have "only_changes r s s3" using cs(2) s2(4) s3(3) by (blast intro: only_changes_trans)
    moreover have "vcol_set_union s a b = Some (r, s3)"
      using n new False s2(1) s3(1) by (simp add: vcol_set_union_def Let_def)
    ultimately show ?thesis using False r(1) s2(5) s3(2,4) by blast
  qed
qed

lemma set_filter_loop:
  assumes "set_has s r C" and "map_clean s r" and "set_has s b B" and "map_ready s b" and "b \<noteq> r"
  shows "for_each (\<lambda>(k, v) s. do {
            c \<leftarrow> vcol_map_contains s b k;
            if c \<noteq> 0 then vcol_map_put s r k VSET_PRESENT else Some s
          }) es s
    = for_each (\<lambda>(k, v) s. vcol_map_put s r k VSET_PRESENT) (filter (\<lambda>e. fst e \<in> B) es) s"
  using assms
proof (induction es arbitrary: s C)
  case (Cons x es)
  obtain k v where x: "x = (k, v)" by fastforce
  have c: "vcol_map_contains s b k = Some (if k \<in> B then 1 else 0)"
    using set_contains_ok [OF Cons.prems(3,4)] by (simp add: vcol_set_contains_def)
  show ?case
  proof (cases "k \<in> B")
    case True
    obtain s1 C1 where s1: "vcol_map_put s r k VSET_PRESENT = Some s1" "set_has s1 r C1" "map_clean s1 r" "only_changes r s s1"
      using set_put_step [OF Cons.prems(1,2)] by blast
    then show ?thesis
      using Cons.IH [OF s1(2,3) set_has_other [OF s1(4) Cons.prems(5,3)] map_ready_other [OF s1(4) Cons.prems(5,4)] Cons.prems(5)]
        True c x by simp
  next
    case False
    then show ?thesis using Cons.IH [OF Cons.prems] c x by simp
  qed
qed simp

lemma set_intersect_ok:
  assumes a: "set_has s a A" and b: "set_has s b B" and rdy: "map_ready s b" and small: "card A < 2 ^ 58"
  shows "\<exists>r s'. vcol_set_intersect s a b = Some (r, s') \<and> only_changes r s s'
    \<and> (r = VCOL_NULL \<and> objs s' = objs s
       \<or> r \<noteq> 0 \<and> objs s r = None \<and> (\<exists>C. set_has s' r C \<and> C \<subseteq> A \<inter> B \<and> (card (A \<inter> B) \<le> 14 \<longrightarrow> C = A \<inter> B)))"
proof -
  obtain m where m: "a \<noteq> 0" "deref as_map s a = Some m" "vmap_entries m = Some (entries (m_groups m))"
      "set (map fst (entries (m_groups m))) = A" "unat (m_size m) = length (entries (m_groups m))" "length (entries (m_groups m)) = card A"
    using a by (rule set_has_table)
  have n: "vset_size_or_0 s a = Some (m_size m)" "unat (m_size m) < 2 ^ 58" using m small by (simp_all add: vset_size_or_0_def)
  obtain r s1 where new: "vcol_set_new s (if m_size m > VMAP_MIN_CAP then m_size m else VMAP_MIN_CAP) = (r, s1)" by fastforce
  note cs = set_new_result [OF n(2) new]
  show ?thesis
  proof (cases "r = 0")
    case True
    then show ?thesis using n new cs by (auto simp: vcol_set_intersect_def Let_def VCOL_NULL_def)
  next
    case False
    then have r: "objs s r = None" "set_has s1 r {}" "map_clean s1 r" "14 \<le> map_thr s1 r" using cs(1) by (auto simp: VCOL_NULL_def)
    have ne: "a \<noteq> r" "b \<noteq> r" using r(1) a b by (auto simp: set_has_def map_has_def deref_def)
    have a1: "deref as_map s1 a = Some m" using only_changes_other [OF cs(2) ne(1)] m(2) by metis
    note b1 = set_has_other [OF cs(2) ne(2) b] map_ready_other [OF cs(2) ne(2) rdy]
    let ?es = "filter (\<lambda>e. fst e \<in> B) (entries (m_groups m))"
    have keys: "fst ` set ?es = A \<inter> B" unfolding m(4) [symmetric] by auto
    have "distinct (map fst (entries (m_groups m)))" by (rule card_distinct) (simp only: m(4,6) length_map)
    then have "distinct (map fst ?es)" by (rule distinct_map_filter)
    from distinct_card [OF this] have len: "length ?es = card (A \<inter> B)" by (simp only: set_map keys length_map)
    obtain s2 C where s2: "for_each (\<lambda>(k, v) s. vcol_map_put s r k VSET_PRESENT) ?es s1 = Some s2" "set_has s2 r C"
        "only_changes r s1 s2" "C \<subseteq> {} \<union> fst ` set ?es"
        "card ({} :: u64 set) + length ?es \<le> map_thr s1 r \<longrightarrow> C = {} \<union> fst ` set ?es \<and> map_thr s2 r = map_thr s1 r"
      using set_put_all_ok [OF r(2,3), of ?es] by blast
    have "vcol_set_intersect s a b = Some (r, s2)"
      unfolding vcol_set_intersect_def n(1) Let_def bind.bind_lunit new prod.case a1 m(3)
        set_filter_loop [OF r(2,3) b1 ne(2)] s2(1) using False m(1) by simp
    moreover have "only_changes r s s2" using cs(2) s2(3) by (rule only_changes_trans)
    moreover have "C \<subseteq> A \<inter> B" "card (A \<inter> B) \<le> 14 \<longrightarrow> C = A \<inter> B"
      using s2(4,5) r(4) unfolding keys len by auto
    ultimately show ?thesis using False r(1) s2(2) by blast
  qed
qed

section \<open>Properties\<close>

lemma demo_set_has:
  "set_has (snd (vcol_map_new demo_store 16)) 4096 {}" "map_ready (snd (vcol_map_new demo_store 16)) 4096"
  using demo_map_has map_clean_ready by (auto simp: set_has_def)



text \<open>The subset test decides inclusion of the denoted sets.\<close>

theorem set_subset_decides:
  assumes "set_has s a A" and "set_has s b B" and "map_ready s b"
  shows "vcol_set_is_subset s a b = Some (if A \<subseteq> B then 1 else 0)"
  using assms by (rule set_subset_ok)

theorem set_subset_decides_witness:
  "vcol_set_is_subset (snd (vcol_map_new demo_store 16)) 4096 4096 = Some 1"
  using set_subset_decides [OF demo_set_has(1) demo_set_has(1,2)] by simp

text \<open>Union and intersection return; unless the result cannot be created it is a fresh set with nothing but
  elements of the union (intersection), and all of them when they fit the new table without growing it.\<close>

theorem set_union_intersect:
  assumes "set_has s a A" and "set_has s b B" and "map_ready s b" and "card A + card B < 2 ^ 58"
  shows "(\<exists>r s'. vcol_set_union s a b = Some (r, s') \<and> only_changes r s s'
      \<and> (r = VCOL_NULL \<and> objs s' = objs s
         \<or> r \<noteq> 0 \<and> objs s r = None \<and> (\<exists>C. set_has s' r C \<and> C \<subseteq> A \<union> B \<and> (card A + card B \<le> 14 \<longrightarrow> C = A \<union> B))))
    \<and> (\<exists>r s'. vcol_set_intersect s a b = Some (r, s') \<and> only_changes r s s'
      \<and> (r = VCOL_NULL \<and> objs s' = objs s
         \<or> r \<noteq> 0 \<and> objs s r = None \<and> (\<exists>C. set_has s' r C \<and> C \<subseteq> A \<inter> B \<and> (card (A \<inter> B) \<le> 14 \<longrightarrow> C = A \<inter> B))))"
  using set_union_ok [OF assms(1,2,4)] set_intersect_ok [OF assms(1-3)] assms(4) by simp

theorem set_union_intersect_witness:
  "\<exists>r s'. vcol_set_union (snd (vcol_map_new demo_store 16)) 4096 4096 = Some (r, s') \<and> (r = VCOL_NULL \<or> set_has s' r {})"
  using set_union_intersect [OF demo_set_has(1) demo_set_has(1,2)] by auto

end
