(* ===== verification/Vcol_MapHang.thy ===== *)
theory Vcol_MapHang
  imports Vcol_MapOps
begin

text \<open>
  The load bound of the hash map counts live entries, not tombstones.  This theory shows that the
  bound therefore does not keep an empty slot in the table, and that a short sequence of puts
  and removals reaches a table on which the search for an absent key never ends.
\<close>

section \<open>A table without empty slots\<close>

lemma map_hangs:
  assumes has: "map_has s h mp" and no: "\<not> map_ready s h" and k: "k \<notin> dom mp"
  shows "vcol_map_get s h k = None" and "vcol_map_get_or s h k d = None" and "vcol_map_contains s h k = None"
    and "vcol_map_remove s h k = None" and "card (dom mp) < map_thr s h \<Longrightarrow> vcol_map_put s h k v = None"
proof -
  obtain m where m: "h \<noteq> 0" "deref as_map s h = Some m" "map_rep m mp" using has by (auto simp: map_has_def)
  have "k \<notin> fst ` set (entries (m_groups m))" using k map_repD(3) [OF m(3)] by (simp add: dom_map_of_conv_image_fst)
  then have "\<forall>a i. slot (m_groups m) a i \<longrightarrow> g_keys (m_groups m ! a) ! i \<noteq> k" by (simp add: in_entries_keys)
  moreover have "\<not> has_empty (m_groups m)" using no m(2) by (simp add: map_ready_def)
  ultimately have f: "vmap_find_or_insert_slot m k = None" using find_diverges map_repD(1) [OF m(3)] by blast
  show "vcol_map_get s h k = None" "vcol_map_get_or s h k d = None" "vcol_map_contains s h k = None" "vcol_map_remove s h k = None"
    using m(1,2) f by (simp_all add: vcol_map_get_def vcol_map_get_or_def vcol_map_contains_def vcol_map_remove_def)
  assume "card (dom mp) < map_thr s h"
  then have "\<not> m_size m + 1 > m_threshold m"
    using map_rep_grow [OF m(3)] map_has_card [OF has m(2)] m(2) map_repD(5) [OF m(3)] by (simp add: map_thr_def)
  then show "vcol_map_put s h k v = None" using m(1,2) f by (simp add: vcol_map_put_def)
qed

section \<open>Where puts and removals write\<close>

definition empties :: "VMapGroup \<Rightarrow> nat" where
  "empties grp = card {i. i < 16 \<and> g_ctrl grp ! i = VMAP_CTRL_EMPTY}"

lemma full_empties: "full grp \<longleftrightarrow> empties grp = 0"
  by (auto simp: full_def empties_def)

lemma empties_fill:
  assumes "wf_group grp" and "i < 16" and "g_ctrl grp ! i = VMAP_CTRL_EMPTY" and "c \<noteq> VMAP_CTRL_EMPTY"
  shows "Suc (empties (set_slot grp i c k v)) = empties grp"
proof -
  let ?E = "{j. j < 16 \<and> g_ctrl grp ! j = VMAP_CTRL_EMPTY}"
  have "{j. j < 16 \<and> g_ctrl (set_slot grp i c k v) ! j = VMAP_CTRL_EMPTY} = ?E - {i}"
    using assms by (auto simp: set_slot_nth split: if_splits)
  moreover have "i \<in> ?E" "finite ?E" using assms by auto
  ultimately show ?thesis unfolding empties_def by (simp only: card_Suc_Diff1)
qed

text \<open>In a map struct with room, a new key goes to its first group as long as that one is neither full nor has tombstones.\<close>

lemma find_first_group:
  assumes m: "map_rep m mp" and k: "k \<notin> dom mp" and a: "a = hash_h1 k mod length (m_groups m)"
    and grp: "\<not> full (m_groups m ! a)" "no_tombs (m_groups m ! a)"
  shows "\<exists>g i. vmap_find_or_insert_slot m k = Some (False, g, i) \<and> unat g = a \<and> i < 16
    \<and> g_ctrl (m_groups m ! a) ! i = VMAP_CTRL_EMPTY"
proof -
  let ?gs = "m_groups m"
  note ok = map_repD(1) [OF m]
  define g where "g = vmap_h1 (wyhash64_u64 k) AND (m_group_cnt m - 1)"
  have g: "unat g = a" unfolding g_def a table_okD(2) [OF ok] using table_okD(1) [OF ok] by (rule unat_and_mask)
  have lt: "a < length ?gs" using a map_repD(8) [OF m] by simp
  have "k \<notin> fst ` set (entries ?gs)" using k map_repD(3) [OF m] by (simp add: dom_map_of_conv_image_fst)
  then have "\<forall>j. occupied (?gs ! a) j \<longrightarrow> g_keys (?gs ! a) ! j \<noteq> k" using lt by (auto simp: in_entries_keys slot_def)
  then have hit: "vmap_hits_loop (g_keys (?gs ! a)) k (vmap_match_ctrl (g_ctrl (?gs ! a)) (hash_h2 k)) = Some None"
    using group_search [OF table_okD(4) [OF ok lt], of k] by (force split: option.splits)
  obtain b where b: "ctz (vmap_match_ctrl (g_ctrl (?gs ! a)) VMAP_CTRL_EMPTY) = Some b" "b < 16"
      "g_ctrl (?gs ! a) ! b = VMAP_CTRL_EMPTY"
    using first_with grp(1) by (metis full_match)
  have dels: "vmap_match_ctrl (g_ctrl (?gs ! a)) VMAP_CTRL_DELETED = 0" using grp(2) by (simp add: no_tombs_def match_ctrl_zero)
  have "vmap_find_loop ?gs (m_group_cnt m - 1) k (hash_h2 k) g 1 0xFFFFFFFFFFFFFFFF 0 = Some (False, g, b)"
    using hit b(1) dels grp(1) lt g by (subst vmap_find_loop.simps) (simp add: rd_arr_def full_match)
  then show ?thesis using g b by (auto simp: vmap_find_or_insert_slot_def Let_def g_def)
qed

lemma put_first_group:
  assumes has: "map_has s h mp" and m: "deref as_map s h = Some m" and room: "card (dom mp) < map_thr s h"
    and k: "k \<notin> dom mp" and a: "a = hash_h1 k mod length (m_groups m)"
    and grp: "\<not> full (m_groups m ! a)" "no_tombs (m_groups m ! a)"
  shows "\<exists>s' m'. vcol_map_put s h k v = Some s' \<and> map_has s' h (mp(k \<mapsto> v)) \<and> deref as_map s' h = Some m'
    \<and> map_thr s' h = map_thr s h \<and> length (m_groups m') = length (m_groups m)
    \<and> (\<forall>b < length (m_groups m). b \<noteq> a \<longrightarrow> m_groups m' ! b = m_groups m ! b)
    \<and> Suc (empties (m_groups m' ! a)) = empties (m_groups m ! a) \<and> no_tombs (m_groups m' ! a)"
proof -
  have rep: "map_rep m mp" and h: "h \<noteq> 0" using has m by (auto simp: map_has_def)
  have lt: "a < length (m_groups m)" using a map_repD(8) [OF rep] by simp
  have em: "has_empty (m_groups m)" using grp(1) lt nth_mem by (auto simp: has_empty_def)
  then have rdy: "map_ready s h" using m by (simp add: map_ready_def)
  obtain s' where s': "vcol_map_put s h k v = Some s'" "map_has s' h (mp(k \<mapsto> v))" "map_thr s' h = map_thr s h"
    using map_put_below [OF has rdy room] by blast
  obtain g i where f: "vmap_find_or_insert_slot m k = Some (False, g, i)" "unat g = a" "i < 16" "g_ctrl (m_groups m ! a) ! i = VMAP_CTRL_EMPTY"
    using find_first_group [OF rep k a grp] by blast
  have "\<not> m_size m + 1 > m_threshold m"
    using room map_rep_grow [OF rep] map_has_card [OF has m] m map_repD(5) [OF rep] by (simp add: map_thr_def)
  then have "s' = put OHashMap s h (m\<lparr>m_groups := (m_groups m)[a := set_slot (m_groups m ! a) i (hash_h2 k) k v], m_size := m_size m + 1\<rparr>)"
    using s'(1) h m f lt by (simp add: vcol_map_put_def rd_arr_def wr_slot_eq)
  then have m': "deref as_map s' h
      = Some (m\<lparr>m_groups := (m_groups m)[a := set_slot (m_groups m ! a) i (hash_h2 k) k v], m_size := m_size m + 1\<rparr>)" by simp
  have wf: "wf_group (m_groups m ! a)" using table_okD(4) [OF map_repD(1) [OF rep] lt] .
  have "Suc (empties (set_slot (m_groups m ! a) i (hash_h2 k) k v)) = empties (m_groups m ! a)"
    using empties_fill [OF wf f(3,4)] h2_not_free by blast
  moreover have "no_tombs (set_slot (m_groups m ! a) i (hash_h2 k) k v)"
    using grp(2) wf f(3) h2_not_free by (simp add: no_tombs_def set_slot_nth)
  ultimately show ?thesis using s' m' lt by force
qed

text \<open>A removal from a full group leaves a tombstone, so the group stays full.\<close>

lemma remove_full_group:
  assumes has: "map_has s h mp" and m: "deref as_map s h = Some m" and rdy: "map_ready s h" and k: "mp k = Some v"
    and a: "\<forall>b i. slot (m_groups m) b i \<longrightarrow> b = a" and full: "full (m_groups m ! a)"
  shows "\<exists>s' m'. vcol_map_remove s h k = Some (v, s') \<and> map_has s' h (mp(k := None)) \<and> deref as_map s' h = Some m'
    \<and> map_ready s' h \<and> map_thr s' h = map_thr s h \<and> length (m_groups m') = length (m_groups m)
    \<and> (\<forall>b < length (m_groups m). b \<noteq> a \<longrightarrow> m_groups m' ! b = m_groups m ! b) \<and> full (m_groups m' ! a)"
proof -
  have rep: "map_rep m mp" and h: "h \<noteq> 0" using has m by (auto simp: map_has_def)
  obtain s' where s': "vcol_map_remove s h k = Some (v, s')" "map_has s' h (mp(k := None))" "map_ready s' h"
    using map_remove_ok [OF has rdy, of k] k by auto
  have em: "has_empty (m_groups m)" using rdy m by (simp add: map_ready_def)
  obtain found g i where f: "vmap_find_or_insert_slot m k = Some (found, g, i)" "found_ok (m_groups m) k (found, g, i)"
      "unat g < length (m_groups m)" "i < 16" "mp k = (if found then Some (g_vals (m_groups m ! unat g) ! i) else None)"
    using map_find [OF rep em] by blast
  have "found" using f(5) k by (simp split: if_splits)
  then have g: "unat g = a" using f(2) a by (auto simp: found_ok_def)
  let ?grp = "m_groups m ! a"
  note rd = map_rd [OF rep f(3,4), unfolded g]
  have "s' = put OHashMap s h (m\<lparr>m_groups := (m_groups m)[a := set_slot ?grp i VMAP_CTRL_DELETED (g_keys ?grp ! i) (g_vals ?grp ! i)], m_size := m_size m - 1\<rparr>)"
    using s'(1) h m f(1,3,4) \<open>found\<close> g rd full by (auto simp: vcol_map_remove_def wr_slot_eq full_match)
  then have m': "deref as_map s' h = Some (m\<lparr>m_groups := (m_groups m)[a := set_slot ?grp i VMAP_CTRL_DELETED (g_keys ?grp ! i) (g_vals ?grp ! i)], m_size := m_size m - 1\<rparr>)"
    by simp
  have "full (set_slot ?grp i VMAP_CTRL_DELETED (g_keys ?grp ! i) (g_vals ?grp ! i))"
    using full f(3,4) g table_okD(4) [OF map_repD(1) [OF rep]] ctrl_bytes by (simp add: full_def set_slot_nth)
  then show ?thesis using s' m' m f(3) g by (force simp: map_thr_def)
qed

section \<open>The run\<close>

definition put_keys :: "store \<Rightarrow> u64 \<Rightarrow> u64 list \<Rightarrow> store option" where
  "put_keys s h ks = for_each (\<lambda>k s. vcol_map_put s h k k) ks s"

definition remove_keys :: "store \<Rightarrow> u64 \<Rightarrow> u64 list \<Rightarrow> store option" where
  "remove_keys s h ks = for_each (\<lambda>k s. map_option snd (vcol_map_remove s h k)) ks s"

text \<open>A map of two groups: its table and its keys.\<close>

definition two_groups :: "store \<Rightarrow> u64 \<Rightarrow> VMapGroup list \<Rightarrow> u64 set \<Rightarrow> bool" where
  "two_groups s h gs K \<longleftrightarrow> length gs = 2 \<and> map_thr s h = 28 \<and> (\<exists>m mp. map_has s h mp \<and> dom mp = K
     \<and> deref as_map s h = Some m \<and> m_groups m = gs)"

lemma two_groups_finite: "two_groups s h gs K \<Longrightarrow> finite K"
  using map_size_eq by (auto simp: two_groups_def)

lemma fill_group:
  assumes "two_groups s h gs K" and "distinct ks" and "set ks \<inter> K = {}" and "card K + length ks \<le> 28"
    and "\<forall>k \<in> set ks. hash_h1 k mod 2 = a" and "no_tombs (gs ! a)" and "length ks \<le> empties (gs ! a)"
  shows "\<exists>s' gs'. put_keys s h ks = Some s' \<and> two_groups s' h gs' (K \<union> set ks) \<and> empties (gs' ! a) + length ks = empties (gs ! a)
    \<and> (\<forall>b < 2. b \<noteq> a \<longrightarrow> gs' ! b = gs ! b)"
  using assms
proof (induction ks arbitrary: s gs K)
  case Nil
  then show ?case by (intro exI [of _ s] exI [of _ gs]) (simp add: put_keys_def)
next
  case (Cons k ks)
  obtain m mp where m: "map_has s h mp" "dom mp = K" "deref as_map s h = Some m" "m_groups m = gs" "map_thr s h = 28" "length gs = 2"
    using Cons.prems(1) by (auto simp: two_groups_def)
  have room: "card (dom mp) < map_thr s h" using Cons.prems(4) m(2,5) by simp
  have k: "k \<notin> dom mp" using Cons.prems(3) m(2) by auto
  have a: "a = hash_h1 k mod length (m_groups m)" using Cons.prems(5) m(4,6) by simp
  have grp: "\<not> full (m_groups m ! a)" "no_tombs (m_groups m ! a)" using Cons.prems(6,7) m(4) by (auto simp: full_empties)
  obtain s1 m1 where s1: "vcol_map_put s h k k = Some s1" "map_has s1 h (mp(k \<mapsto> k))" "deref as_map s1 h = Some m1"
      "map_thr s1 h = map_thr s h" "length (m_groups m1) = length (m_groups m)"
      "\<forall>b < length (m_groups m). b \<noteq> a \<longrightarrow> m_groups m1 ! b = m_groups m ! b"
      "Suc (empties (m_groups m1 ! a)) = empties (m_groups m ! a)" "no_tombs (m_groups m1 ! a)"
    using put_first_group [OF m(1,3) room k a grp] by blast
  have "two_groups s1 h (m_groups m1) (insert k K)"
    unfolding two_groups_def using s1(2-5) m by (intro conjI exI [of _ m1] exI [of _ "mp(k \<mapsto> k)"]) simp_all
  moreover have "card (insert k K) + length ks \<le> 28"
    using Cons.prems(3,4) two_groups_finite [OF Cons.prems(1)] by (simp add: card_insert_if)
  moreover have "distinct ks" "set ks \<inter> insert k K = {}" "\<forall>k \<in> set ks. hash_h1 k mod 2 = a" using Cons.prems(2,3,5) by auto
  moreover have "length ks \<le> empties (m_groups m1 ! a)" using Cons.prems(7) s1(7) m(4) by simp
  ultimately obtain s2 gs2 where "put_keys s1 h ks = Some s2" "two_groups s2 h gs2 (insert k K \<union> set ks)"
      "empties (gs2 ! a) + length ks = empties (m_groups m1 ! a)" "\<forall>b < 2. b \<noteq> a \<longrightarrow> gs2 ! b = m_groups m1 ! b"
    using Cons.IH [of s1 "m_groups m1" "insert k K"] s1(8) by blast
  then show ?case using s1(1,6,7) m(4,6) by (intro exI [of _ s2] exI [of _ gs2]) (simp add: put_keys_def)
qed

lemma drain_group:
  assumes "two_groups s h gs K" and "distinct ks" and "set ks \<subseteq> K" and "full (gs ! 0)" and "gs ! 1 = empty_group"
  shows "\<exists>s' gs'. remove_keys s h ks = Some s' \<and> two_groups s' h gs' (K - set ks) \<and> full (gs' ! 0) \<and> gs' ! 1 = empty_group"
  using assms
proof (induction ks arbitrary: s gs K)
  case Nil
  then show ?case by (intro exI [of _ s] exI [of _ gs]) (simp add: remove_keys_def)
next
  case (Cons k ks)
  obtain m mp where m: "map_has s h mp" "dom mp = K" "deref as_map s h = Some m" "m_groups m = gs" "map_thr s h = 28" "length gs = 2"
    using Cons.prems(1) by (auto simp: two_groups_def)
  obtain v where v: "mp k = Some v" using Cons.prems(3) m(2) by auto
  have "\<not> occupied (gs ! 1) i" for i
    using empty_group_facts(4) Cons.prems(5) set_group_entries [of empty_group] by auto
  then have only: "\<forall>b i. slot (m_groups m) b i \<longrightarrow> b = 0" unfolding slot_def m(4,6) by (auto dest!: less_2_cases)
  have "gs ! 1 \<in> set gs" using m(6) by simp
  then have rdy: "map_ready s h" using Cons.prems(5) empty_group_facts(2) m(3,4) by (auto simp: map_ready_def has_empty_def)
  have full: "full (m_groups m ! 0)" using Cons.prems(4) m(4) by simp
  obtain s1 m1 where s1: "vcol_map_remove s h k = Some (v, s1)" "map_has s1 h (mp(k := None))" "deref as_map s1 h = Some m1"
      "map_thr s1 h = map_thr s h" "length (m_groups m1) = length (m_groups m)"
      "\<forall>b < length (m_groups m). b \<noteq> 0 \<longrightarrow> m_groups m1 ! b = m_groups m ! b" "full (m_groups m1 ! 0)"
    using remove_full_group [OF m(1,3) rdy v only full] by blast
  have "two_groups s1 h (m_groups m1) (K - {k})"
    unfolding two_groups_def using s1(2-5) m by (intro conjI exI [of _ m1] exI [of _ "mp(k := None)"]) auto
  moreover have "m_groups m1 ! 1 = empty_group" using s1(6) m(4,6) Cons.prems(5) by simp
  moreover have "distinct ks" "set ks \<subseteq> K - {k}" using Cons.prems(2,3) by auto
  ultimately obtain s2 gs2 where "remove_keys s1 h ks = Some s2" "two_groups s2 h gs2 (K - {k} - set ks)" "full (gs2 ! 0)" "gs2 ! 1 = empty_group"
    using Cons.IH [of s1 "m_groups m1" "K - {k}"] s1(7) by blast
  then show ?case using s1(1) by (intro exI [of _ s2] exI [of _ gs2]) (simp add: remove_keys_def Diff_insert2 [symmetric])
qed

text \<open>Sixteen keys of the first and sixteen of the second group of a table of two groups.\<close>

definition keys_even :: "u64 list" where
  "keys_even = [0, 1, 2, 3, 6, 10, 13, 18, 25, 28, 29, 30, 31, 34, 37, 40]"

definition keys_odd :: "u64 list" where
  "keys_odd = [4, 5, 7, 8, 9, 11, 12, 14, 15, 16, 17, 19, 20, 21, 22, 23]"

lemma keys_even_group: "\<forall>k \<in> set keys_even. hash_h1 k mod 2 = 0"
  by (simp add: keys_even_def wyhash64_u64_def vmap_h1_def)

lemma keys_odd_group: "\<forall>k \<in> set keys_odd. hash_h1 k mod 2 = 1"
  by (simp add: keys_odd_def wyhash64_u64_def vmap_h1_def)

lemma demo_map: "\<exists>s. vcol_map_new demo_store 32 = (4096, s) \<and> two_groups s 4096 [empty_group, empty_group] {}"
proof -
  obtain h s where new: "vcol_map_new demo_store 32 = (h, s)" by fastforce
  have np: "next_pow2 32 = 32" by (simp add: next_pow2_def Let_def word_le_nat_alt)
  have eq: "vcol_map_new demo_store 32 = (4096, put OHashMap (after_malloc (after_malloc demo_store)) 4096
      \<lparr>m_groups = memset_groups (2 * 272), m_group_cnt = 2, m_size = 0, m_threshold = (2 * VMAP_GROUP_W * 7) div 8\<rparr>)"
    by (simp add: map_new_eq Let_def np VMAP_MIN_CAP_def VMAP_GROUP_W_def malloc_def PTRDIFF_MAX_def)
  then have hs: "h = 4096" "deref as_map s 4096
      = Some \<lparr>m_groups = memset_groups (2 * 272), m_group_cnt = 2, m_size = 0, m_threshold = (2 * VMAP_GROUP_W * 7) div 8\<rparr>"
    using new by auto
  have "map_has s 4096 Map.empty"
    using map_new_cases(1) [OF _ new] hs(1) by (simp add: VCOL_NULL_def)
  moreover have "memset_groups (2 * 272) = [empty_group, empty_group]"
  proof -
    have "memset_groups (2 * 272) = replicate 2 empty_group" by (simp add: memset_groups_def)
    then show ?thesis by (simp add: numeral_2_eq_2)
  qed
  moreover have "map_thr s 4096 = 28" using hs(2) by (simp add: map_thr_def VMAP_GROUP_W_def)
  ultimately show ?thesis using new hs by (auto simp: two_groups_def)
qed

lemma empties_empty: "empties empty_group = 16"
proof -
  have "{i. i < 16 \<and> g_ctrl empty_group ! i = VMAP_CTRL_EMPTY} = {..<16}" by (auto simp: empty_group_def)
  then show ?thesis by (simp add: empties_def)
qed

lemma hang_run:
  "\<exists>h s0 s1 s2 s3 mp. vcol_map_new demo_store 32 = (h, s0) \<and> put_keys s0 h keys_even = Some s1
     \<and> remove_keys s1 h keys_even = Some s2 \<and> put_keys s2 h keys_odd = Some s3
     \<and> map_has s3 h mp \<and> dom mp = set keys_odd \<and> \<not> map_ready s3 h"
proof -
  obtain s0 where s0: "vcol_map_new demo_store 32 = (4096, s0)" "two_groups s0 4096 [empty_group, empty_group] {}"
    using demo_map by blast
  have len: "length keys_even = 16" "length keys_odd = 16" "distinct keys_even" "distinct keys_odd"
    by (simp_all add: keys_even_def keys_odd_def)
  obtain s1 gs1 where s1: "put_keys s0 4096 keys_even = Some s1" "two_groups s1 4096 gs1 (set keys_even)"
      "empties (gs1 ! 0) + 16 = 16" "gs1 ! 1 = empty_group"
    using fill_group [OF s0(2) len(3), of 0] len(1) keys_even_group empty_group_facts(3) empties_empty by auto
  then have "full (gs1 ! 0)" by (simp add: full_empties)
  then obtain s2 gs2 where s2: "remove_keys s1 4096 keys_even = Some s2" "two_groups s2 4096 gs2 (set keys_even - set keys_even)"
      "full (gs2 ! 0)" "gs2 ! 1 = empty_group"
    using drain_group [OF s1(2) len(3) subset_refl _ s1(4)] by blast
  obtain s3 gs3 where s3: "put_keys s2 4096 keys_odd = Some s3" "two_groups s3 4096 gs3 (set keys_odd)"
      "empties (gs3 ! 1) + 16 = 16" "gs3 ! 0 = gs2 ! 0"
    using fill_group [OF s2(2) len(4), of 1] len(2) keys_odd_group empty_group_facts(3) empties_empty s2(4) by auto
  have full: "full (gs3 ! 0)" "full (gs3 ! 1)" using s3(3,4) s2(3) by (simp_all add: full_empties)
  obtain m mp where m: "map_has s3 4096 mp" "dom mp = set keys_odd" "deref as_map s3 4096 = Some m" "m_groups m = gs3" "length gs3 = 2"
    using s3(2) by (auto simp: two_groups_def)
  have "full grp" if "grp \<in> set gs3" for grp
  proof -
    obtain i where "i < 2" "grp = gs3 ! i" using \<open>grp \<in> set gs3\<close> m(5) by (metis in_set_conv_nth)
    then show ?thesis using full by (auto dest!: less_2_cases)
  qed
  then have "\<not> has_empty gs3" by (auto simp: has_empty_def)
  then have "\<not> map_ready s3 4096" using m(3,4) by (simp add: map_ready_def)
  then show ?thesis using s0(1) s1(1) s2(1) s3(1) m(1,2) by blast
qed

section \<open>Properties\<close>

text \<open>On a well-formed map whose table has no empty slot, no operation that looks for an absent key ever
  returns: not the lookups, not the removal, and not the put while the number of live entries is below
  the threshold.\<close>

theorem full_table_hangs:
  assumes "map_has s h mp" and "\<not> map_ready s h" and "k \<notin> dom mp"
  shows "vcol_map_get s h k = None \<and> vcol_map_get_or s h k d = None \<and> vcol_map_contains s h k = None
    \<and> vcol_map_remove s h k = None \<and> (card (dom mp) < map_thr s h \<longrightarrow> vcol_map_put s h k v = None)"
  using map_hangs [OF assms] by blast

theorem full_table_hangs_witness:
  "\<exists>s h mp. map_has s h mp \<and> \<not> map_ready s h \<and> vcol_map_get s h 0 = None"
proof -
  obtain h s mp where s: "map_has s h mp" "dom mp = set keys_odd" "\<not> map_ready s h" using hang_run by blast
  then have "0 \<notin> dom mp" by (simp add: keys_odd_def)
  from full_table_hangs [OF s(1,3) this] show ?thesis using s by blast
qed

text \<open>C37. Such a table is reached from a new map of capacity 32 by putting sixteen keys, removing them and putting
  sixteen others: every call returns, the map then holds sixteen entries, far below its bound of
  twenty-eight, and looking for a key it does not hold never ends.\<close>

theorem hash_map_can_hang:
  "\<exists>h s0 s1 s2 s3. vcol_map_new demo_store 32 = (h, s0) \<and> put_keys s0 h keys_even = Some s1
     \<and> remove_keys s1 h keys_even = Some s2 \<and> put_keys s2 h keys_odd = Some s3
     \<and> vcol_map_size s3 h = Some 16 \<and> vcol_map_get s3 h 0 = None \<and> vcol_map_contains s3 h 0 = None"
proof -
  obtain h s0 s1 s2 s3 mp where run: "vcol_map_new demo_store 32 = (h, s0)" "put_keys s0 h keys_even = Some s1"
      "remove_keys s1 h keys_even = Some s2" "put_keys s2 h keys_odd = Some s3"
      and s3: "map_has s3 h mp" "dom mp = set keys_odd" "\<not> map_ready s3 h"
    using hang_run by blast
  have "0 \<notin> dom mp" using s3(2) by (simp add: keys_odd_def)
  note hang = map_hangs [OF s3(1,3) this]
  have "card (dom mp) = 16" unfolding s3(2) by (simp add: keys_odd_def)
  then have "vcol_map_size s3 h = Some 16" using map_size_eq [OF s3(1)] by simp
  then show ?thesis using run hang by blast
qed

end
