(* ===== verification/Vm_Flags.thy ===== *)
theory Vm_Flags
  imports CPrelude
begin

text \<open>
  The flag register of the virtual machine (\<^verbatim>\<open>include/runtime/rflags.h\<close>), the conditions over
  it, and the condition codes of the jump, compare-and-jump and \<^verbatim>\<open>setcc\<close> instructions.

  The C union of five one-bit fields and a raw 64-bit value is the raw word itself: field \<open>n\<close>
  is bit \<open>n\<close>, as the bitfields of the ABI lay them out.  Writing one field keeps the others.
\<close>

type_synonym u16 = "16 word"

type_synonym RFlags = u64

named_theorems flag_simps \<open>reading one flag after writing another\<close>

section \<open>The fields\<close>

definition get_flag :: "nat \<Rightarrow> RFlags \<Rightarrow> bool" where
  "get_flag n f = bit f n"

definition set_flag :: "nat \<Rightarrow> bool \<Rightarrow> RFlags \<Rightarrow> RFlags" where
  "set_flag n b f = (if b then set_bit n f else unset_bit n f)"

abbreviation (input) SF :: "RFlags \<Rightarrow> bool" where "SF \<equiv> get_flag 0"
abbreviation (input) ZF :: "RFlags \<Rightarrow> bool" where "ZF \<equiv> get_flag 1"
abbreviation (input) CF :: "RFlags \<Rightarrow> bool" where "CF \<equiv> get_flag 2"
abbreviation (input) OF :: "RFlags \<Rightarrow> bool" where "OF \<equiv> get_flag 3"
abbreviation (input) DM :: "RFlags \<Rightarrow> bool" where "DM \<equiv> get_flag 4"

abbreviation (input) set_SF :: "bool \<Rightarrow> RFlags \<Rightarrow> RFlags" where "set_SF \<equiv> set_flag 0"
abbreviation (input) set_ZF :: "bool \<Rightarrow> RFlags \<Rightarrow> RFlags" where "set_ZF \<equiv> set_flag 1"
abbreviation (input) set_CF :: "bool \<Rightarrow> RFlags \<Rightarrow> RFlags" where "set_CF \<equiv> set_flag 2"
abbreviation (input) set_OF :: "bool \<Rightarrow> RFlags \<Rightarrow> RFlags" where "set_OF \<equiv> set_flag 3"

section \<open>Conditions\<close>

definition COND_EQ :: "RFlags \<Rightarrow> bool" where "COND_EQ f = ZF f"
definition COND_NE :: "RFlags \<Rightarrow> bool" where "COND_NE f = (\<not> ZF f)"
definition COND_CS :: "RFlags \<Rightarrow> bool" where "COND_CS f = CF f"
definition COND_CC :: "RFlags \<Rightarrow> bool" where "COND_CC f = (\<not> CF f)"
definition COND_MI :: "RFlags \<Rightarrow> bool" where "COND_MI f = SF f"
definition COND_PL :: "RFlags \<Rightarrow> bool" where "COND_PL f = (\<not> SF f)"
definition COND_VS :: "RFlags \<Rightarrow> bool" where "COND_VS f = OF f"
definition COND_VC :: "RFlags \<Rightarrow> bool" where "COND_VC f = (\<not> OF f)"
definition COND_HI :: "RFlags \<Rightarrow> bool" where "COND_HI f = (CF f \<and> \<not> ZF f)"
definition COND_LS :: "RFlags \<Rightarrow> bool" where "COND_LS f = (\<not> CF f \<or> ZF f)"
definition COND_GE :: "RFlags \<Rightarrow> bool" where "COND_GE f = (SF f = OF f)"
definition COND_LT :: "RFlags \<Rightarrow> bool" where "COND_LT f = (SF f \<noteq> OF f)"

text \<open>
  The condition codes of the jump instructions, as \<^verbatim>\<open>eval_jmp_cond\<close> evaluates them; a code above
  \<open>0x0D\<close> is unconditional.
\<close>

definition eval_jmp_cond :: "u8 \<Rightarrow> RFlags \<Rightarrow> bool" where
  "eval_jmp_cond cond fl =
     (if cond = 0x00 then COND_EQ fl
      else if cond = 0x01 then COND_NE fl
      else if cond = 0x02 then COND_CS fl
      else if cond = 0x03 then COND_CC fl
      else if cond = 0x04 then COND_MI fl
      else if cond = 0x05 then COND_PL fl
      else if cond = 0x06 then COND_VS fl
      else if cond = 0x07 then COND_VC fl
      else if cond = 0x08 then COND_HI fl
      else if cond = 0x09 then COND_LS fl
      else if cond = 0x0A then COND_GE fl
      else if cond = 0x0B then COND_LT fl
      else if cond = 0x0C then \<not> ZF fl \<and> SF fl = OF fl
      else if cond = 0x0D then ZF fl \<or> SF fl \<noteq> OF fl
      else True)"

text \<open>The condition of \<^verbatim>\<open>setcc\<close>, which has a code table of its own.\<close>

definition setcc_cond :: "u8 \<Rightarrow> RFlags \<Rightarrow> bool" where
  "setcc_cond cond f =
     (if cond = 0x00 then OF f
      else if cond = 0x01 then \<not> OF f
      else if cond = 0x02 then CF f
      else if cond = 0x03 then \<not> CF f
      else if cond = 0x04 then ZF f
      else if cond = 0x05 then \<not> ZF f
      else if cond = 0x06 then CF f \<or> ZF f
      else if cond = 0x07 then \<not> CF f \<and> \<not> ZF f
      else if cond = 0x08 then SF f
      else if cond = 0x09 then \<not> SF f
      else if cond = 0x0A then ZF f \<and> SF f = OF f
      else if cond = 0x0B then \<not> ZF f
      else if cond = 0x0C then SF f \<noteq> OF f
      else if cond = 0x0D then SF f = OF f
      else if cond = 0x0E then ZF f \<or> SF f \<noteq> OF f
      else if cond = 0x0F then True
      else False)"

text \<open>The flag selected by the three-bit code of \<^verbatim>\<open>movc\<close>.\<close>

definition read_flag :: "RFlags \<Rightarrow> u8 \<Rightarrow> bool" where
  "read_flag f flag_code =
     (let c = flag_code AND 0x7
      in if c = 0 then SF f
         else if c = 1 then ZF f
         else if c = 2 then CF f
         else if c = 3 then OF f
         else if c = 4 then DM f
         else False)"

section \<open>Lemmas\<close>

lemma get_set_flag [simp, flag_simps]:
  "n < 64 \<Longrightarrow> get_flag n (set_flag m b f) = (if n = m then b else get_flag n f)"
  by (auto simp: get_flag_def set_flag_def bit_simps)

lemma flags_eqI: "(\<And>n. n < 64 \<Longrightarrow> get_flag n f = get_flag n g) \<Longrightarrow> f = g"
  unfolding get_flag_def by (rule bit_word_eqI) simp

lemma set_flag_commute: "m \<noteq> n \<Longrightarrow> set_flag m a (set_flag n b f) = set_flag n b (set_flag m a f)"
  by (rule flags_eqI) simp

lemma set_flag_same [simp]: "set_flag n a (set_flag n b f) = set_flag n a f"
  by (rule flags_eqI) simp

lemma set_flag_id [simp]: "set_flag n (get_flag n f) f = f"
  by (rule flags_eqI) simp

lemmas COND_defs = COND_EQ_def COND_NE_def COND_CS_def COND_CC_def COND_MI_def COND_PL_def
  COND_VS_def COND_VC_def COND_HI_def COND_LS_def COND_GE_def COND_LT_def

end
