(* ===== verification/Vm_Host.thy ===== *)
theory Vm_Host
  imports Vm_Flags "HOL-Library.AList"
begin

text \<open>
  The host below the virtual machine, and the arena manager that allocates from it
  (\<^verbatim>\<open>include/arena/arena.h\<close>, \<^verbatim>\<open>src/arena/arena_manager.cpp\<close>; the POSIX branches).

  Host memory is a set of pages of 4096 bytes with the protection \<^verbatim>\<open>mmap\<close> gave them.  The
  \<open>n\<close>-th call of \<^verbatim>\<open>mmap\<close> proposes the address \<open>hgrant h n sz\<close>; the call fails when that address
  is null, unaligned, past the end of the address space or not free, so every theorem holds for
  every sequence of answers of the kernel.  Fresh pages are zero, as for \<^verbatim>\<open>MAP_ANONYMOUS\<close>.
  An access outside the mapped pages, or against their protection, is a host fault.
\<close>

section \<open>Outcomes\<close>

text \<open>
  The emulator ends with \<^verbatim>\<open>exit\<close>, faults on an access of its own memory, executes what the
  language leaves undefined, or loops forever.
\<close>

datatype vm_stop = ExitProcess int | HostFault | Undefined | Diverges

type_synonym 'a res = "vm_stop + 'a"

definition rbind :: "'a res \<Rightarrow> ('a \<Rightarrow> 'b res) \<Rightarrow> 'b res" where
  "rbind m f = (case m of Inl e \<Rightarrow> Inl e | Inr x \<Rightarrow> f x)"

fun of_host :: "'a option \<Rightarrow> 'a res" where
  "of_host None = Inl HostFault"
| "of_host (Some x) = Inr x"

section \<open>Little-endian bytes\<close>

definition le_bytes :: "nat \<Rightarrow> 'a::len word \<Rightarrow> u8 list" where
  "le_bytes n w = map (\<lambda>i. ucast (drop_bit (8 * i) w)) [0..<n]"

fun le_word :: "u8 list \<Rightarrow> 'a::len word" where
  "le_word [] = 0"
| "le_word (b # bs) = ucast b OR push_bit 8 (le_word bs)"

section \<open>Permissions\<close>

type_synonym MemPerm = u8

definition PERM_READ :: MemPerm where "PERM_READ = 1"
definition PERM_WRITE :: MemPerm where "PERM_WRITE = 2"
definition PERM_EXEC :: MemPerm where "PERM_EXEC = 4"

definition has_perm :: "MemPerm \<Rightarrow> MemPerm \<Rightarrow> bool" where
  "has_perm perms test \<longleftrightarrow> perms AND test \<noteq> 0"

section \<open>Host pages\<close>

definition page_base :: "u64 \<Rightarrow> u64" where
  "page_base a = a AND NOT 0xFFF"

definition page_off :: "u64 \<Rightarrow> u64" where
  "page_off a = a AND 0xFFF"

record hpage =
  hp_perms :: MemPerm
  hp_bytes :: "u64 \<Rightarrow> u8"

record host =
  hpages :: "u64 \<rightharpoonup> hpage"
  hgrant :: "nat \<Rightarrow> u64 \<Rightarrow> u64"
  hcalls :: nat

definition host_byte :: "host \<Rightarrow> u64 \<Rightarrow> u8 option" where
  "host_byte h a =
     (case hpages h (page_base a) of None \<Rightarrow> None
      | Some p \<Rightarrow> if has_perm (hp_perms p) PERM_READ then Some (hp_bytes p (page_off a)) else None)"

definition host_set :: "host \<Rightarrow> u64 \<Rightarrow> u8 \<Rightarrow> host option" where
  "host_set h a v =
     (case hpages h (page_base a) of None \<Rightarrow> None
      | Some p \<Rightarrow>
          if has_perm (hp_perms p) PERM_WRITE
          then Some (h\<lparr>hpages := (hpages h)(page_base a \<mapsto>
                 p\<lparr>hp_bytes := (hp_bytes p)(page_off a := v)\<rparr>)\<rparr>)
          else None)"

fun host_read :: "host \<Rightarrow> u64 \<Rightarrow> nat \<Rightarrow> u8 list option" where
  "host_read h a 0 = Some []"
| "host_read h a (Suc n) =
     (case host_byte h a of None \<Rightarrow> None
      | Some b \<Rightarrow> (case host_read h (a + 1) n of None \<Rightarrow> None | Some bs \<Rightarrow> Some (b # bs)))"

fun host_write :: "host \<Rightarrow> u64 \<Rightarrow> u8 list \<Rightarrow> host option" where
  "host_write h a [] = Some h"
| "host_write h a (b # bs) =
     (case host_set h a b of None \<Rightarrow> None | Some h' \<Rightarrow> host_write h' (a + 1) bs)"

section \<open>mmap and munmap\<close>

definition range_pages :: "u64 \<Rightarrow> u64 \<Rightarrow> u64 list" where
  "range_pages a sz = map (\<lambda>i. a + of_nat (4096 * i)) [0..<unat sz div 4096]"

definition zero_page :: "MemPerm \<Rightarrow> hpage" where
  "zero_page perms = \<lparr>hp_perms = perms, hp_bytes = (\<lambda>_. 0)\<rparr>"

definition mmap_free :: "host \<Rightarrow> u64 \<Rightarrow> u64 \<Rightarrow> bool" where
  "mmap_free h a sz \<longleftrightarrow>
     sz \<noteq> 0 \<and> a \<noteq> 0 \<and> page_off a = 0 \<and> unat a + unat sz \<le> 2 ^ 64 \<and>
     list_all (\<lambda>p. hpages h p = None) (range_pages a sz)"

definition mmap :: "host \<Rightarrow> u64 \<Rightarrow> MemPerm \<Rightarrow> u64 \<times> host" where
  "mmap h sz prot =
     (let a = hgrant h (hcalls h) sz; h' = h\<lparr>hcalls := Suc (hcalls h)\<rparr>
      in if mmap_free h a sz
         then (a, h'\<lparr>hpages := (\<lambda>p. if p \<in> set (range_pages a sz) then Some (zero_page prot)
                                   else hpages h p)\<rparr>)
         else (0, h'))"

definition munmap :: "host \<Rightarrow> u64 \<Rightarrow> u64 \<Rightarrow> host" where
  "munmap h a sz =
     h\<lparr>hpages := (\<lambda>p. if p \<in> set (range_pages a sz) then None else hpages h p)\<rparr>"

definition round_page :: "u64 \<Rightarrow> u64" where
  "round_page sz = (sz + 4096 - 1) AND NOT (4096 - 1)"

definition allocate_memory :: "host \<Rightarrow> u64 \<Rightarrow> MemPerm \<Rightarrow> u64 \<times> host" where
  "allocate_memory h sz perms = (if sz = 0 then (0, h) else mmap h (round_page sz) perms)"

definition free_memory :: "host \<Rightarrow> u64 \<Rightarrow> u64 \<Rightarrow> host" where
  "free_memory h mem sz = munmap h mem (round_page sz)"

section \<open>The arena manager\<close>

record Arena =
  a_ptr :: u64
  a_size :: u64
  a_perms :: MemPerm

text \<open>The catalogue is an \<^verbatim>\<open>unordered_map\<close>; the list is the order in which it is iterated.\<close>

record ArenaManager =
  total_allocated_bytes :: u64
  next_id :: u64
  arenas :: "(u64 \<times> Arena) list"

definition new_ArenaManager :: ArenaManager where
  "new_ArenaManager = \<lparr>total_allocated_bytes = 0, next_id = 0, arenas = []\<rparr>"

definition create_arena :: "ArenaManager \<Rightarrow> host \<Rightarrow> u64 \<Rightarrow> MemPerm \<Rightarrow> u64 \<times> ArenaManager \<times> host" where
  "create_arena m h sz perms =
     (case allocate_memory h sz perms of (mem, h') \<Rightarrow>
        if mem = 0 then (0, m, h')
        else let aid = next_id m
             in (aid, m\<lparr>next_id := aid + 1,
                       arenas := AList.update aid \<lparr>a_ptr = mem, a_size = sz, a_perms = perms\<rparr> (arenas m),
                       total_allocated_bytes := total_allocated_bytes m + sz\<rparr>, h'))"

definition free_arena :: "ArenaManager \<Rightarrow> host \<Rightarrow> u64 \<Rightarrow> bool \<times> ArenaManager \<times> host" where
  "free_arena m h aid =
     (case map_of (arenas m) aid of None \<Rightarrow> (False, m, h)
      | Some a \<Rightarrow> (True, m\<lparr>total_allocated_bytes := total_allocated_bytes m - a_size a,
                           arenas := AList.delete aid (arenas m)\<rparr>,
                   free_memory h (a_ptr a) (a_size a)))"

definition get_arena :: "ArenaManager \<Rightarrow> u64 \<Rightarrow> Arena option" where
  "get_arena m aid = map_of (arenas m) aid"

text \<open>\<^verbatim>\<open>get_ptr_arena\<close> dereferences the result of \<^verbatim>\<open>get_arena\<close> without a null check.\<close>

definition get_ptr_arena :: "ArenaManager \<Rightarrow> u64 \<Rightarrow> u64 res" where
  "get_ptr_arena m aid = of_host (map_option a_ptr (get_arena m aid))"

text \<open>Arena ids pass through \<^verbatim>\<open>int\<close> when they are collected or searched.\<close>

definition id_to_int :: "u64 \<Rightarrow> int" where
  "id_to_int aid = sint (ucast aid :: u32)"

fun free_ids :: "ArenaManager \<Rightarrow> host \<Rightarrow> int list \<Rightarrow> ArenaManager \<times> host" where
  "free_ids m h [] = (m, h)"
| "free_ids m h (i # is) =
     (case free_arena m h (word_of_int i) of (_, m', h') \<Rightarrow> free_ids m' h' is)"

definition free_all :: "ArenaManager \<Rightarrow> host \<Rightarrow> ArenaManager \<times> host" where
  "free_all m h =
     (if arenas m = [] then (m, h) else free_ids m h (map (\<lambda>(aid, _). id_to_int aid) (arenas m)))"

fun find_arena_id_loop :: "(u64 \<times> Arena) list \<Rightarrow> u64 \<Rightarrow> int" where
  "find_arena_id_loop [] p = - 1"
| "find_arena_id_loop ((aid, a) # as) p = (if a_ptr a = p then id_to_int aid else find_arena_id_loop as p)"

definition find_arena_id_for_ptr :: "ArenaManager \<Rightarrow> u64 \<Rightarrow> int" where
  "find_arena_id_for_ptr m p = find_arena_id_loop (arenas m) p"

end
