(* ===== verification/Vm_TLB.thy ===== *)
theory Vm_TLB
  imports Vm_Host
begin

text \<open>
  The translation tables of a process (\<^verbatim>\<open>LazyHybridTLB\<close> of \<^verbatim>\<open>include/arena/TLB.h\<close> and
  \<^verbatim>\<open>src/arena/TLB.cpp\<close>): a tree of three levels, grown on demand, from a 64-bit virtual address
  to the destination of its page.  The vectors of owning pointers are lists of optional nodes.
  The lemmas show that the tree is a finite map keyed by the page of the address.
\<close>

section \<open>Data\<close>

datatype type_ptr_mapped = NONE | MAPPED_PTR_VM | MAPPED_PTR_HOST | MAPPED_PTR_REMOTE

record TLBEntryData =
  type_address :: type_ptr_mapped
  address :: u64

datatype levelEntry = DATA | PT | PT1 | PT2

datatype TLBNode =
  TLBNode (node_type: levelEntry) (node_data: TLBEntryData) (node_children: "TLBNode option list")

type_synonym tlb_root = "TLBNode option list"

definition GET_OFFSET :: "u64 \<Rightarrow> u64" where "GET_OFFSET a = a AND 0xFFF"
definition GET_PT :: "u64 \<Rightarrow> u64" where "GET_PT a = drop_bit 12 a AND 0xFFF"
definition GET_PT1 :: "u64 \<Rightarrow> u64" where "GET_PT1 a = drop_bit 24 a AND 0xFFFF"
definition GET_PT2 :: "u64 \<Rightarrow> u64" where "GET_PT2 a = drop_bit 40 a AND 0xFFFFFF"

section \<open>Operations\<close>

definition new_TLBNode :: TLBNode where
  "new_TLBNode = TLBNode DATA \<lparr>type_address = NONE, address = 0\<rparr> []"

definition new_tlb :: tlb_root where
  "new_tlb = [Some new_TLBNode]"

text \<open>The vector grown to hold index \<open>i\<close>, and the node there, created when absent.\<close>

definition grow :: "TLBNode option list \<Rightarrow> nat \<Rightarrow> TLBNode option list" where
  "grow v i = (if length v \<le> i then v @ replicate (Suc i - length v) None else v)"

definition child_at :: "TLBNode option list \<Rightarrow> nat \<Rightarrow> TLBNode" where
  "child_at v i = (case v ! i of None \<Rightarrow> new_TLBNode | Some n \<Rightarrow> n)"

definition translate :: "tlb_root \<Rightarrow> u64 \<Rightarrow> type_ptr_mapped \<Rightarrow> u64 \<Rightarrow> tlb_root" where
  "translate root p ty pm =
     (let pt2 = unat (GET_PT2 p); pt1 = unat (GET_PT1 p); pt = unat (GET_PT p);
          root' = grow root pt2; pt2_node = child_at root' pt2;
          ch2 = grow (node_children pt2_node) pt1; pt1_node = child_at ch2 pt1;
          ch1 = grow (node_children pt1_node) pt; pt_node = child_at ch1 pt;
          pt_node' = TLBNode DATA \<lparr>type_address = ty, address = pm\<rparr> (node_children pt_node);
          pt1_node' = TLBNode PT1 (node_data pt1_node) (ch1[pt := Some pt_node']);
          pt2_node' = TLBNode PT2 (node_data pt2_node) (ch2[pt1 := Some pt1_node'])
      in root'[pt2 := Some pt2_node'])"

definition clear_tlb_entry :: "tlb_root \<Rightarrow> u64 \<Rightarrow> tlb_root" where
  "clear_tlb_entry root page_vaddr = translate root page_vaddr MAPPED_PTR_VM 0"

text \<open>The bounds check, the null check and the level check that \<^verbatim>\<open>get_entry\<close> makes at each level.\<close>

definition descend :: "TLBNode option list \<Rightarrow> nat \<Rightarrow> levelEntry \<Rightarrow> TLBNode option" where
  "descend v i lvl =
     (if length v \<le> i then None
      else case v ! i of None \<Rightarrow> None | Some n \<Rightarrow> if node_type n \<noteq> lvl then None else Some n)"

definition get_entry :: "tlb_root \<Rightarrow> u64 \<Rightarrow> TLBEntryData option" where
  "get_entry root p =
     (case descend root (unat (GET_PT2 p)) PT2 of None \<Rightarrow> None
      | Some n2 \<Rightarrow>
          (case descend (node_children n2) (unat (GET_PT1 p)) PT1 of None \<Rightarrow> None
           | Some n1 \<Rightarrow>
               (case descend (node_children n1) (unat (GET_PT p)) DATA of None \<Rightarrow> None
                | Some n \<Rightarrow> Some (node_data n))))"

definition get_real_host_ptr_of_vptr :: "tlb_root \<Rightarrow> u64 \<Rightarrow> u64" where
  "get_real_host_ptr_of_vptr root vptr =
     (case get_entry root vptr of None \<Rightarrow> 0
      | Some e \<Rightarrow> if type_address e \<noteq> MAPPED_PTR_HOST then 0 else address e)"

section \<open>One level of the tree\<close>

definition sub :: "TLBNode option list \<Rightarrow> nat \<Rightarrow> levelEntry \<Rightarrow> TLBNode option list" where
  "sub v i lvl = (case descend v i lvl of None \<Rightarrow> [] | Some n \<Rightarrow> node_children n)"

definition wf_level :: "TLBNode option list \<Rightarrow> levelEntry \<Rightarrow> bool" where
  "wf_level v lvl \<longleftrightarrow> (\<forall>n. Some n \<in> set v \<longrightarrow> node_type n = lvl \<or> node_children n = [])"

lemma descend_Nil [simp]: "descend [] i lvl = None"
  by (simp add: descend_def)

lemma length_grow [simp]: "i < length (grow v i)"
  by (simp add: grow_def)

lemma descend_grow [simp]: "descend (grow v i) j lvl = descend v j lvl"
  by (auto simp: descend_def grow_def nth_append)

lemma set_grow: "Some n \<in> set (grow v i) \<Longrightarrow> Some n \<in> set v"
  by (auto simp: grow_def split: if_splits)

lemma descend_update [simp]:
  "i < length v \<Longrightarrow> descend (v[i := Some n]) j lvl =
     (if j = i then (if node_type n = lvl then Some n else None) else descend v j lvl)"
  by (auto simp: descend_def)

lemma sub_update [simp]:
  "i < length v \<Longrightarrow> node_type n = lvl \<Longrightarrow>
     sub (v[i := Some n]) j lvl = (if j = i then node_children n else sub v j lvl)"
  by (auto simp: sub_def)

lemma sub_grow [simp]: "sub (grow v i) j lvl = sub v j lvl"
  by (simp add: sub_def)

lemma children_child_at:
  assumes "wf_level v lvl"
  shows "node_children (child_at (grow v i) i) = sub v i lvl"
proof (cases "grow v i ! i")
  case None
  then show ?thesis
    by (auto simp: child_at_def new_TLBNode_def sub_def descend_def grow_def split: if_splits)
next
  case (Some n)
  then have "Some n \<in> set (grow v i)" by (metis length_grow nth_mem)
  then have mem: "Some n \<in> set v" by (rule set_grow)
  have at: "i < length v \<and> v ! i = Some n"
    using Some by (auto simp: grow_def nth_append split: if_splits)
  then show ?thesis using assms mem Some
    by (auto simp: child_at_def sub_def descend_def wf_level_def)
qed

lemma get_entry_alt:
  "get_entry root p =
     map_option node_data
       (descend (sub (sub root (unat (GET_PT2 p)) PT2) (unat (GET_PT1 p)) PT1) (unat (GET_PT p)) DATA)"
  by (auto simp: get_entry_def sub_def split: option.splits)

lemma wf_level_grow: "wf_level v lvl \<Longrightarrow> wf_level (grow v i) lvl"
  using set_grow by (auto simp: wf_level_def)

lemma wf_level_update: "wf_level v lvl \<Longrightarrow> node_type n = lvl \<Longrightarrow> wf_level (v[i := Some n]) lvl"
  by (auto simp: wf_level_def dest!: set_update_subset_insert [THEN subsetD])

section \<open>The indices of a page\<close>

lemma page_index_eq:
  "GET_PT2 p = GET_PT2 q \<and> GET_PT1 p = GET_PT1 q \<and> GET_PT p = GET_PT q \<longleftrightarrow> page_base p = page_base q"
  (is "?idx \<longleftrightarrow> ?base")
proof
  assume idx: ?idx
  have m: "(0xFFF :: u64) = mask 12" "(0xFFFF :: u64) = mask 16" "(0xFFFFFF :: u64) = mask 24"
    by (simp_all add: mask_eq_exp_minus_1)
  have b: "bit p n = bit q n" if "12 \<le> n" "n < 64" for n
  proof -
    have pt: "bit (GET_PT p) (n - 12) = bit (GET_PT q) (n - 12)"
        "bit (GET_PT1 p) (n - 24) = bit (GET_PT1 q) (n - 24)"
        "bit (GET_PT2 p) (n - 40) = bit (GET_PT2 q) (n - 40)" using idx by simp_all
    consider "n < 24" | "24 \<le> n" "n < 40" | "40 \<le> n" by linarith
    then show ?thesis
    proof cases
      case 1
      then have "n - 12 < 12" using that by linarith
      then show ?thesis using pt(1) that by (simp add: GET_PT_def m bit_simps)
    next
      case 2
      then have "n - 24 < 16" by linarith
      then show ?thesis using pt(2) 2 by (simp add: GET_PT1_def m bit_simps)
    next
      case 3
      then have "n - 40 < 24" using that by linarith
      then show ?thesis using pt(3) 3 by (simp add: GET_PT2_def m bit_simps)
    qed
  qed
  show ?base
    by (rule bit_word_eqI) (use b in \<open>auto simp: page_base_def m bit_simps\<close>)
next
  assume base: ?base
  have m: "(0xFFF :: u64) = mask 12" by (simp add: mask_eq_exp_minus_1)
  have "bit p n = bit q n" if "12 \<le> n" for n
    using arg_cong [OF base, where f = "\<lambda>w. bit w n"] that
    by (auto simp: page_base_def m bit_simps dest: bit_imp_le_length)
  then show ?idx
    by (auto simp: GET_PT_def GET_PT1_def GET_PT2_def intro!: bit_word_eqI simp: bit_simps)
qed

section \<open>The tree is a map from pages to entries\<close>

definition tlb_wf :: "tlb_root \<Rightarrow> bool" where
  "tlb_wf root \<longleftrightarrow> wf_level root PT2 \<and> (\<forall>i. wf_level (sub root i PT2) PT1)"

lemma descend_new [simp]: "descend new_tlb i PT2 = None"
  by (cases i) (simp_all add: descend_def new_tlb_def new_TLBNode_def)

lemma tlb_wf_new: "tlb_wf new_tlb"
  by (auto simp: tlb_wf_def wf_level_def sub_def new_tlb_def new_TLBNode_def)
    (simp flip: new_TLBNode_def new_tlb_def)

lemma get_entry_new: "get_entry new_tlb p = None"
  by (simp add: get_entry_def)

lemma tlb_wf_translate:
  assumes "tlb_wf root"
  shows "tlb_wf (translate root p ty pm)"
proof -
  define pt2 where "pt2 = unat (GET_PT2 p)"
  have w: "wf_level root PT2" "wf_level (sub root i PT2) PT1" for i
    using assms by (simp_all add: tlb_wf_def)
  show ?thesis
    unfolding tlb_wf_def translate_def Let_def pt2_def [symmetric] children_child_at [OF w(1)]
      children_child_at [OF w(2)]
    by (auto intro!: wf_level_update wf_level_grow w)
qed

lemma get_entry_translate:
  assumes "tlb_wf root"
  shows "get_entry (translate root p ty pm) q =
    (if page_base q = page_base p then Some \<lparr>type_address = ty, address = pm\<rparr> else get_entry root q)"
proof -
  have w: "wf_level root PT2" "wf_level (sub root i PT2) PT1" for i
    using assms by (simp_all add: tlb_wf_def)
  show ?thesis
    unfolding get_entry_alt translate_def Let_def children_child_at [OF w(1)]
      children_child_at [OF w(2)] page_index_eq [symmetric]
    by (auto simp: unat_eq_iff64)
qed

end
