(* ===== verification/Vm_Memory.thy ===== *)
theory Vm_Memory
  imports Vm_TLB
begin

text \<open>
  The virtual memory of a process (\<^verbatim>\<open>include/arena/VirtualMemory.h\<close>,
  \<^verbatim>\<open>src/arena/VirtualMemory.cpp\<close>): mapping and unmapping of regions, block and typed accesses
  through the translation tables with lazy allocation, and the one-entry page cache of the
  fast paths.
\<close>

record VirtualMemory =
  vm_host :: host
  vm_arenas :: ArenaManager
  vm_tlb :: tlb_root
  cached_page_vaddr :: u64
  cached_page_host :: u64

definition UINT64_MAX :: u64 where "UINT64_MAX = - 1"

definition permsDefault :: MemPerm where
  "permsDefault = PERM_EXEC OR PERM_READ OR PERM_WRITE"

definition new_VirtualMemory :: "host \<Rightarrow> VirtualMemory" where
  "new_VirtualMemory h = \<lparr>vm_host = h, vm_arenas = new_ArenaManager, vm_tlb = new_tlb,
     cached_page_vaddr = UINT64_MAX, cached_page_host = 0\<rparr>"

definition invalidate_page_cache :: "VirtualMemory \<Rightarrow> VirtualMemory" where
  "invalidate_page_cache m = m\<lparr>cached_page_vaddr := UINT64_MAX, cached_page_host := 0\<rparr>"

section \<open>Mapping\<close>

text \<open>\<^verbatim>\<open>for (page = p; page < end; page += 0x1000)\<close>; \<open>None\<close> is a loop that does not end.\<close>

partial_function (option) for_pages ::
    "(u64 \<Rightarrow> 's \<Rightarrow> 's res) \<Rightarrow> u64 \<Rightarrow> u64 \<Rightarrow> 's \<Rightarrow> 's res option" where
  [code]: "for_pages body page e s =
     (if page < e
      then (case body page s of Inl x \<Rightarrow> Some (Inl x) | Inr s' \<Rightarrow> for_pages body (page + 0x1000) e s')
      else Some (Inr s))"

text \<open>The arena is dereferenced inside the loop of \<^verbatim>\<open>map\<close>, once per page.\<close>

definition map_page :: "u64 \<Rightarrow> u64 \<Rightarrow> u64 \<Rightarrow> VirtualMemory \<Rightarrow> VirtualMemory res" where
  "map_page arena start page m =
     rbind (get_ptr_arena (vm_arenas m) arena)
       (\<lambda>ptr. Inr (m\<lparr>vm_tlb := translate (vm_tlb m) page MAPPED_PTR_HOST (ptr + (page - start))\<rparr>))"

definition map_region :: "VirtualMemory \<Rightarrow> u64 \<Rightarrow> u64 \<Rightarrow> MemPerm \<Rightarrow> (u64 \<times> VirtualMemory) res option" where
  "map_region m vaddr sz perms =
     (let start = vaddr AND NOT 0xFFF;
          e = (vaddr + sz + 0xFFF) AND NOT 0xFFF;
          total = e - start
      in case create_arena (vm_arenas m) (vm_host m) total perms of (aid, am, h) \<Rightarrow>
           map_option (\<lambda>r. rbind r (\<lambda>m'. Inr (start, m')))
             (for_pages (map_page aid start) start e (m\<lparr>vm_arenas := am, vm_host := h\<rparr>)))"

definition unmap_page :: "u64 \<Rightarrow> VirtualMemory \<Rightarrow> VirtualMemory res" where
  "unmap_page page m =
     (case get_entry (vm_tlb m) page of None \<Rightarrow> Inr m
      | Some entry \<Rightarrow>
          if type_address entry \<noteq> MAPPED_PTR_HOST then Inr m
          else let arena_id = find_arena_id_for_ptr (vm_arenas m) (address entry);
                   m' = (if arena_id \<noteq> - 1
                         then (case free_arena (vm_arenas m) (vm_host m) (word_of_int arena_id) of
                                 (_, am, h) \<Rightarrow> m\<lparr>vm_arenas := am, vm_host := h\<rparr>)
                         else m)
               in Inr (m'\<lparr>vm_tlb := clear_tlb_entry (vm_tlb m') page\<rparr>))"

definition unmap :: "VirtualMemory \<Rightarrow> u64 \<Rightarrow> u64 \<Rightarrow> VirtualMemory res option" where
  "unmap m vaddr sz = for_pages unmap_page (vaddr AND NOT 0xFFF) (vaddr + sz) m"

section \<open>Block accesses\<close>

text \<open>
  The translation step that \<^verbatim>\<open>read_bytes\<close> and \<^verbatim>\<open>write_bytes\<close> share: the page cache, then the
  tables, then lazy allocation of the page.
\<close>

definition lazy_page :: "VirtualMemory \<Rightarrow> u64 \<Rightarrow> (TLBEntryData \<times> VirtualMemory) res" where
  "lazy_page m vaddr =
     (case create_arena (vm_arenas m) (vm_host m) 4096 permsDefault of (aid, am, h) \<Rightarrow>
        rbind (get_ptr_arena am aid)
          (\<lambda>host_mem.
             let tlb' = translate (vm_tlb m) (page_base vaddr) MAPPED_PTR_HOST host_mem
             in case get_entry tlb' vaddr of None \<Rightarrow> Inl HostFault
                | Some e \<Rightarrow> Inr (e, m\<lparr>vm_arenas := am, vm_host := h, vm_tlb := tlb'\<rparr>)))"

definition resolve_page :: "VirtualMemory \<Rightarrow> u64 \<Rightarrow> (u64 \<times> VirtualMemory) res" where
  "resolve_page m vaddr =
     (if page_base vaddr = cached_page_vaddr m then Inr (cached_page_host m, m)
      else rbind
             (case get_entry (vm_tlb m) vaddr of None \<Rightarrow> lazy_page m vaddr
              | Some e \<Rightarrow> if type_address e = NONE then lazy_page m vaddr else Inr (e, m))
             (\<lambda>(e, m').
                if type_address e \<noteq> MAPPED_PTR_HOST then Inl (ExitProcess (- 1))
                else Inr (address e, m'\<lparr>cached_page_vaddr := page_base vaddr,
                                        cached_page_host := address e\<rparr>)))"

lemma rbind_cong [fundef_cong]:
  "m = m' \<Longrightarrow> (\<And>x. m' = Inr x \<Longrightarrow> f x = g x) \<Longrightarrow> rbind m f = rbind m' g"
  by (cases m') (simp_all add: rbind_def)

lemma unat_page_off: "unat (page_off a) = unat a mod 4096"
proof -
  have "page_off a = take_bit 12 a" by (simp add: page_off_def take_bit_eq_mask mask_eq_exp_minus_1)
  then show ?thesis by (simp add: take_bit_eq_mod unat_mod)
qed

lemma page_off_less: "unat (page_off a) < 4096"
  by (simp add: unat_page_off)

function read_bytes :: "VirtualMemory \<Rightarrow> u64 \<Rightarrow> nat \<Rightarrow> (u8 list \<times> VirtualMemory) res" where
  "read_bytes m vaddr sz =
     (if sz = 0 then Inr ([], m)
      else let offset = page_off vaddr; chunk = min (4096 - unat offset) sz
           in rbind (resolve_page m vaddr) (\<lambda>(base, m').
                rbind (of_host (host_read (vm_host m') (base + offset) chunk)) (\<lambda>bs.
                  rbind (read_bytes m' (vaddr + of_nat chunk) (sz - chunk)) (\<lambda>(bs', m'').
                    Inr (bs @ bs', m'')))))"
  by pat_completeness auto
termination
  by (relation "measure (\<lambda>(_, _, sz). sz)") (auto simp: page_off_less)

function write_bytes :: "VirtualMemory \<Rightarrow> u64 \<Rightarrow> u8 list \<Rightarrow> VirtualMemory res" where
  "write_bytes m vaddr src =
     (if src = [] then Inr m
      else let offset = page_off vaddr; chunk = min (4096 - unat offset) (length src)
           in rbind (resolve_page m vaddr) (\<lambda>(base, m').
                rbind (of_host (host_write (vm_host m') (base + offset) (take chunk src))) (\<lambda>h.
                  write_bytes (m'\<lparr>vm_host := h\<rparr>) (vaddr + of_nat chunk) (drop chunk src))))"
  by pat_completeness auto
termination
  by (relation "measure (\<lambda>(_, _, src). length src)") (auto simp: page_off_less)

declare read_bytes.simps [simp del] write_bytes.simps [simp del]

text \<open>The copy and fill loops, which consult the tables but not the page cache.\<close>

definition dest_page :: "VirtualMemory \<Rightarrow> u64 \<Rightarrow> (u64 \<times> VirtualMemory) res option" where
  "dest_page m vaddr =
     (let host_dest = get_real_host_ptr_of_vptr (vm_tlb m) vaddr
      in if host_dest = 0
         then map_option
                (\<lambda>r. rbind r (\<lambda>(_, m'). Inr (get_real_host_ptr_of_vptr (vm_tlb m') vaddr, m')))
                (map_region m vaddr 4096 (PERM_READ OR PERM_WRITE))
         else Some (Inr (host_dest, m)))"

function vm_to_host_memcpy :: "VirtualMemory \<Rightarrow> u64 \<Rightarrow> u8 list \<Rightarrow> VirtualMemory res option" where
  "vm_to_host_memcpy m dest_vaddr src =
     (if src = [] then Some (Inr m)
      else let offset = page_off dest_vaddr; copy_size = min (length src) (4096 - unat offset)
           in (case dest_page m (dest_vaddr AND NOT 0xFFF) of None \<Rightarrow> None
               | Some (Inl e) \<Rightarrow> Some (Inl e)
               | Some (Inr (host_dest, m')) \<Rightarrow>
                   (case host_write (vm_host m') (host_dest + offset) (take copy_size src) of
                      None \<Rightarrow> Some (Inl HostFault)
                    | Some h \<Rightarrow>
                        vm_to_host_memcpy (m'\<lparr>vm_host := h\<rparr>) (dest_vaddr + of_nat copy_size)
                          (drop copy_size src))))"
  by pat_completeness auto
termination
  by (relation "measure (\<lambda>(_, _, src). length src)") (auto simp: page_off_less)

declare vm_to_host_memcpy.simps [simp del]

function vm_to_host_memset :: "VirtualMemory \<Rightarrow> u64 \<Rightarrow> u8 \<Rightarrow> nat \<Rightarrow> VirtualMemory res option" where
  "vm_to_host_memset m dest_vaddr v sz =
     (if sz = 0 then Some (Inr m)
      else let offset = page_off dest_vaddr; fill_size = min sz (4096 - unat offset)
           in (case dest_page m (dest_vaddr AND NOT 0xFFF) of None \<Rightarrow> None
               | Some (Inl e) \<Rightarrow> Some (Inl e)
               | Some (Inr (host_dest, m')) \<Rightarrow>
                   (case host_write (vm_host m') (host_dest + offset) (replicate fill_size v) of
                      None \<Rightarrow> Some (Inl HostFault)
                    | Some h \<Rightarrow>
                        vm_to_host_memset (m'\<lparr>vm_host := h\<rparr>) (dest_vaddr + of_nat fill_size) v
                          (sz - fill_size))))"
  by pat_completeness auto
termination
  by (relation "measure (\<lambda>(_, _, _, sz). sz)") (auto simp: page_off_less)

declare vm_to_host_memset.simps [simp del]

section \<open>Typed accesses\<close>

definition read_u8 :: "VirtualMemory \<Rightarrow> u64 \<Rightarrow> (u8 \<times> VirtualMemory) res" where
  "read_u8 m vaddr = rbind (read_bytes m vaddr 1) (\<lambda>(bs, m'). Inr (le_word bs, m'))"

definition read_u16 :: "VirtualMemory \<Rightarrow> u64 \<Rightarrow> (u16 \<times> VirtualMemory) res" where
  "read_u16 m vaddr = rbind (read_bytes m vaddr 2) (\<lambda>(bs, m'). Inr (le_word bs, m'))"

definition read_u32 :: "VirtualMemory \<Rightarrow> u64 \<Rightarrow> (u32 \<times> VirtualMemory) res" where
  "read_u32 m vaddr = rbind (read_bytes m vaddr 4) (\<lambda>(bs, m'). Inr (le_word bs, m'))"

definition read_u64 :: "VirtualMemory \<Rightarrow> u64 \<Rightarrow> (u64 \<times> VirtualMemory) res" where
  "read_u64 m vaddr = rbind (read_bytes m vaddr 8) (\<lambda>(bs, m'). Inr (le_word bs, m'))"

definition write_u8 :: "VirtualMemory \<Rightarrow> u64 \<Rightarrow> u8 \<Rightarrow> VirtualMemory res" where
  "write_u8 m vaddr v = write_bytes m vaddr (le_bytes 1 v)"

definition write_u16 :: "VirtualMemory \<Rightarrow> u64 \<Rightarrow> u16 \<Rightarrow> VirtualMemory res" where
  "write_u16 m vaddr v = write_bytes m vaddr (le_bytes 2 v)"

definition write_u32 :: "VirtualMemory \<Rightarrow> u64 \<Rightarrow> u32 \<Rightarrow> VirtualMemory res" where
  "write_u32 m vaddr v = write_bytes m vaddr (le_bytes 4 v)"

definition write_u64 :: "VirtualMemory \<Rightarrow> u64 \<Rightarrow> u64 \<Rightarrow> VirtualMemory res" where
  "write_u64 m vaddr v = write_bytes m vaddr (le_bytes 8 v)"

text \<open>
  \<^verbatim>\<open>read_any<T>\<close> and \<^verbatim>\<open>write_any<T>\<close> dispatch at compile time on the operand type; the four typed
  accesses differ only in \<^verbatim>\<open>sizeof(T)\<close>.
\<close>

definition read_any :: "VirtualMemory \<Rightarrow> u64 \<Rightarrow> ('a::len word \<times> VirtualMemory) res" where
  "read_any m a = rbind (read_bytes m a (LENGTH('a) div 8)) (\<lambda>(bs, m'). Inr (le_word bs, m'))"

definition write_any :: "VirtualMemory \<Rightarrow> u64 \<Rightarrow> 'a::len word \<Rightarrow> VirtualMemory res" where
  "write_any m a v = write_bytes m a (le_bytes (LENGTH('a) div 8) v)"

text \<open>The accesses through the page cache.\<close>

definition write_u64_fast :: "VirtualMemory \<Rightarrow> u64 \<Rightarrow> u64 \<Rightarrow> VirtualMemory res" where
  "write_u64_fast m vaddr v =
     (if vaddr AND NOT 0xFFF = cached_page_vaddr m \<and> vaddr AND 0xFFF \<le> 4096 - 8
      then rbind (of_host (host_write (vm_host m) (cached_page_host m + (vaddr AND 0xFFF)) (le_bytes 8 v)))
             (\<lambda>h. Inr (m\<lparr>vm_host := h\<rparr>))
      else write_bytes m vaddr (le_bytes 8 v))"

definition read_u64_fast :: "VirtualMemory \<Rightarrow> u64 \<Rightarrow> (u64 \<times> VirtualMemory) res" where
  "read_u64_fast m vaddr =
     (if vaddr AND NOT 0xFFF = cached_page_vaddr m \<and> vaddr AND 0xFFF \<le> 4096 - 8
      then rbind (of_host (host_read (vm_host m) (cached_page_host m + (vaddr AND 0xFFF)) 8))
             (\<lambda>bs. Inr (le_word bs, m))
      else rbind (read_bytes m vaddr 8) (\<lambda>(bs, m'). Inr (le_word bs, m')))"

text \<open>\<^verbatim>\<open>operator[]\<close>, read as a value.\<close>

definition mem_at :: "VirtualMemory \<Rightarrow> u64 \<Rightarrow> (u8 \<times> VirtualMemory) res" where
  "mem_at m vaddr =
     rbind
       (case get_entry (vm_tlb m) vaddr of
          Some e \<Rightarrow>
            if type_address e = MAPPED_PTR_HOST then Inr (e, m)
            else rbind (read_bytes m vaddr 1)
                   (\<lambda>(_, m'). of_host (map_option (\<lambda>e. (e, m')) (get_entry (vm_tlb m') vaddr)))
        | None \<Rightarrow> rbind (read_bytes m vaddr 1)
                   (\<lambda>(_, m'). of_host (map_option (\<lambda>e. (e, m')) (get_entry (vm_tlb m') vaddr))))
       (\<lambda>(e, m'). rbind (of_host (host_byte (vm_host m') (address e + (vaddr AND 0xFFF))))
                    (\<lambda>b. Inr (b, m')))"

end
