(* ===== verification/Vm_Alu.thy ===== *)
theory Vm_Alu
  imports Vm_Flags "HOL-Library.Signed_Division"
begin

text \<open>
  The arithmetic and logic unit of the interpreter (the \<^verbatim>\<open>Op\<close> structs and
  \<^verbatim>\<open>compute_with_flags\<close> of \<^verbatim>\<open>src/runtime/exec_instruction_alu.cpp\<close>).

  The structs are templates over the operand type \<^verbatim>\<open>T\<close>; the model is polymorphic in the word
  length, so one theorem covers the four widths the dispatch tables instantiate.  The integer
  promotions of C++ matter in one place: the product of two \<^verbatim>\<open>uint16_t\<close> is computed in
  \<^verbatim>\<open>int\<close>, whose overflow is undefined, and \<open>MulOp_compute\<close> is \<open>None\<close> there.
\<close>

section \<open>Unary operations\<close>

definition IncOp_compute :: "'a::len word \<Rightarrow> 'a word" where
  "IncOp_compute a = a + 1"

definition IncOp_flags :: "RFlags \<Rightarrow> 'a::len word \<Rightarrow> 'a word \<Rightarrow> RFlags" where
  "IncOp_flags f a result = set_ZF (result = 0) (set_OF False (set_CF (CF f) f))"

definition DecOp_compute :: "'a::len word \<Rightarrow> 'a word" where
  "DecOp_compute a = a - 1"

definition DecOp_flags :: "RFlags \<Rightarrow> 'a::len word \<Rightarrow> 'a word \<Rightarrow> RFlags" where
  "DecOp_flags f a result = set_ZF (result = 0) (set_OF False (set_CF (CF f) f))"

definition NotOp_compute :: "'a::len word \<Rightarrow> 'a word" where
  "NotOp_compute a = NOT a"

definition NotOp_flags :: "RFlags \<Rightarrow> 'a::len word \<Rightarrow> 'a word \<Rightarrow> RFlags" where
  "NotOp_flags f a result = set_OF False (set_CF False f)"

section \<open>Binary operations\<close>

definition LogicFlagsBase_flags :: "RFlags \<Rightarrow> 'a::len word \<Rightarrow> 'a word \<Rightarrow> 'a word \<Rightarrow> bool \<Rightarrow> RFlags" where
  "LogicFlagsBase_flags f a b result is_signed = set_OF False (set_CF False f)"

definition AddOp_compute :: "'a::len word \<Rightarrow> 'a word \<Rightarrow> 'a word" where
  "AddOp_compute a b = a + b"

definition AddOp_flags :: "RFlags \<Rightarrow> 'a::len word \<Rightarrow> 'a word \<Rightarrow> 'a word \<Rightarrow> bool \<Rightarrow> RFlags" where
  "AddOp_flags f a b result is_signed =
     (if is_signed
      then set_CF False (set_OF (sint ((a XOR result) AND (b XOR result)) < 0) f)
      else set_OF False (set_CF (a + b < a) f))"

definition SubOp_compute :: "'a::len word \<Rightarrow> 'a word \<Rightarrow> 'a word" where
  "SubOp_compute a b = a - b"

definition SubOp_flags :: "RFlags \<Rightarrow> 'a::len word \<Rightarrow> 'a word \<Rightarrow> 'a word \<Rightarrow> bool \<Rightarrow> RFlags" where
  "SubOp_flags f a b result is_signed =
     (if is_signed
      then set_CF False (set_OF (sint ((a XOR b) AND (a XOR result)) < 0) f)
      else set_OF False (set_CF (a < b) f))"

definition CmpOp_compute :: "'a::len word \<Rightarrow> 'a word \<Rightarrow> 'a word" where
  "CmpOp_compute a b = a - b"

definition CmpOp_flags :: "RFlags \<Rightarrow> 'a::len word \<Rightarrow> 'a word \<Rightarrow> 'a word \<Rightarrow> bool \<Rightarrow> RFlags" where
  "CmpOp_flags f a b result is_signed = SubOp_flags f a b result is_signed"

definition MulOp_compute :: "'a::len word \<Rightarrow> 'a word \<Rightarrow> 'a word option" where
  "MulOp_compute a b =
     (if LENGTH('a) = 16 \<and> 2 ^ 31 \<le> uint a * uint b then None else Some (a * b))"

text \<open>\<^verbatim>\<open>std::numeric_limits\<close> of the signed and the unsigned type of the operand's width.\<close>

definition S_MIN :: "'a::len itself \<Rightarrow> int" where
  "S_MIN _ = - (2 ^ (LENGTH('a) - 1))"

definition S_MAX :: "'a::len itself \<Rightarrow> int" where
  "S_MAX _ = 2 ^ (LENGTH('a) - 1) - 1"

definition U_MAX :: "'a::len itself \<Rightarrow> int" where
  "U_MAX _ = 2 ^ LENGTH('a) - 1"

definition mul_overflow_signed :: "'a::len word \<Rightarrow> 'a word \<Rightarrow> bool" where
  "mul_overflow_signed a b =
     (let sa = sint a; sb = sint b in
      if sa = 0 \<or> sb = 0 then False
      else if sa = - 1 then sb = S_MIN TYPE('a)
      else if sb = - 1 then sa = S_MIN TYPE('a)
      else if 0 < sa
      then (if 0 < sb then S_MAX TYPE('a) sdiv sb < sa else sb < S_MIN TYPE('a) sdiv sa)
      else (if 0 < sb then sa < S_MIN TYPE('a) sdiv sb else sa < S_MAX TYPE('a) sdiv sb))"

definition mul_overflow_unsigned :: "'a::len word \<Rightarrow> 'a word \<Rightarrow> bool" where
  "mul_overflow_unsigned a b =
     (let ua = uint a; ub = uint b in
      if ua = 0 \<or> ub = 0 then False else U_MAX TYPE('a) div ub < ua)"

definition MulOp_flags :: "RFlags \<Rightarrow> 'a::len word \<Rightarrow> 'a word \<Rightarrow> 'a word \<Rightarrow> bool \<Rightarrow> RFlags" where
  "MulOp_flags f a b result is_signed =
     (if is_signed
      then set_CF False (set_OF (mul_overflow_signed a b) f)
      else set_OF (mul_overflow_unsigned a b) (set_CF (mul_overflow_unsigned a b) f))"

text \<open>The division structs are instantiated with the unsigned and with the signed type.\<close>

definition DivOp_compute :: "'a::len word \<Rightarrow> 'a word \<Rightarrow> 'a word" where
  "DivOp_compute a b = (if b = 0 then 0 else a div b)"

definition DivOp_compute_signed :: "'a::len word \<Rightarrow> 'a word \<Rightarrow> 'a word" where
  "DivOp_compute_signed a b = (if b = 0 then 0 else word_of_int (sint a sdiv sint b))"

definition DivOp_flags :: "RFlags \<Rightarrow> 'a::len word \<Rightarrow> 'a word \<Rightarrow> 'a word \<Rightarrow> bool \<Rightarrow> RFlags" where
  "DivOp_flags f a b result is_signed =
     (if b = 0 then set_CF True (set_OF True f)
      else if is_signed
      then (if sint a = S_MIN TYPE('a) \<and> sint b = - 1 then set_CF True (set_OF True f)
            else set_CF False (set_OF False f))
      else set_CF False (set_OF False f))"

definition ModOp_compute :: "'a::len word \<Rightarrow> 'a word \<Rightarrow> 'a word" where
  "ModOp_compute a b = (if b = 0 then 0 else a mod b)"

definition ModOp_compute_signed :: "'a::len word \<Rightarrow> 'a word \<Rightarrow> 'a word" where
  "ModOp_compute_signed a b = (if b = 0 then 0 else word_of_int (sint a smod sint b))"

definition ModOp_flags :: "RFlags \<Rightarrow> 'a::len word \<Rightarrow> 'a word \<Rightarrow> 'a word \<Rightarrow> bool \<Rightarrow> RFlags" where
  "ModOp_flags f a b result is_signed =
     (if b = 0 then set_CF True (set_OF True f) else set_CF False (set_OF False f))"

definition AndOp_compute :: "'a::len word \<Rightarrow> 'a word \<Rightarrow> 'a word" where
  "AndOp_compute a b = a AND b"

definition OrOp_compute :: "'a::len word \<Rightarrow> 'a word \<Rightarrow> 'a word" where
  "OrOp_compute a b = a OR b"

definition XorOp_compute :: "'a::len word \<Rightarrow> 'a word \<Rightarrow> 'a word" where
  "XorOp_compute a b = a XOR b"

text \<open>The masked shift count, \<^verbatim>\<open>(uint32_t)b & (sizeof(T)*8-1)\<close>.\<close>

definition shift_count :: "'a::len word \<Rightarrow> nat" where
  "shift_count b = unat ((ucast b :: u32) AND of_nat (LENGTH('a) - 1))"

definition ShlOp_compute :: "'a::len word \<Rightarrow> 'a word \<Rightarrow> 'a word" where
  "ShlOp_compute a b = push_bit (shift_count b) a"

definition ShlOp_flags :: "RFlags \<Rightarrow> 'a::len word \<Rightarrow> 'a word \<Rightarrow> 'a word \<Rightarrow> bool \<Rightarrow> RFlags" where
  "ShlOp_flags f a b result is_signed =
     (let shift = shift_count b in
      if shift = 0 then set_OF False (set_CF False f)
      else let cf_bit = drop_bit (LENGTH('a) - shift) a AND 1;
               msb = drop_bit (LENGTH('a) - 1) result AND 1
           in set_OF (cf_bit XOR msb = 1) (set_CF (cf_bit = 1) f))"

definition ShrOp_compute :: "'a::len word \<Rightarrow> 'a word \<Rightarrow> 'a word" where
  "ShrOp_compute a b = drop_bit (shift_count b) a"

definition ShrOp_flags :: "RFlags \<Rightarrow> 'a::len word \<Rightarrow> 'a word \<Rightarrow> 'a word \<Rightarrow> bool \<Rightarrow> RFlags" where
  "ShrOp_flags f a b result is_signed =
     (let shift = shift_count b in
      if shift = 0 then set_OF False (set_CF False f)
      else set_OF False (set_CF (drop_bit (shift - 1) a AND 1 = 1) f))"

definition SarOp_compute :: "'a::len word \<Rightarrow> 'a word \<Rightarrow> 'a word" where
  "SarOp_compute a b = signed_drop_bit (shift_count b) a"

definition SarOp_flags :: "RFlags \<Rightarrow> 'a::len word \<Rightarrow> 'a word \<Rightarrow> 'a word \<Rightarrow> bool \<Rightarrow> RFlags" where
  "SarOp_flags f a b result is_signed =
     (let shift = shift_count b in
      if shift = 0 then set_OF False (set_CF False f)
      else set_OF False (set_CF (drop_bit (shift - 1) a AND 1 = 1) f))"

section \<open>The operation as a parameter\<close>

datatype alu_op = AddOp | SubOp | CmpOp | MulOp | DivOp | ModOp | AndOp | OrOp | XorOp
  | ShlOp | ShrOp | SarOp

datatype unary_op = IncOp | DecOp | NotOp

fun is_compare :: "alu_op \<Rightarrow> bool" where
  "is_compare CmpOp = True"
| "is_compare _ = False"

fun OpIsDivision :: "alu_op \<Rightarrow> bool" where
  "OpIsDivision DivOp = True"
| "OpIsDivision ModOp = True"
| "OpIsDivision _ = False"

fun op_compute :: "alu_op \<Rightarrow> 'a::len word \<Rightarrow> 'a word \<Rightarrow> 'a word option" where
  "op_compute AddOp a b = Some (AddOp_compute a b)"
| "op_compute SubOp a b = Some (SubOp_compute a b)"
| "op_compute CmpOp a b = Some (CmpOp_compute a b)"
| "op_compute MulOp a b = MulOp_compute a b"
| "op_compute DivOp a b = Some (DivOp_compute a b)"
| "op_compute ModOp a b = Some (ModOp_compute a b)"
| "op_compute AndOp a b = Some (AndOp_compute a b)"
| "op_compute OrOp a b = Some (OrOp_compute a b)"
| "op_compute XorOp a b = Some (XorOp_compute a b)"
| "op_compute ShlOp a b = Some (ShlOp_compute a b)"
| "op_compute ShrOp a b = Some (ShrOp_compute a b)"
| "op_compute SarOp a b = Some (SarOp_compute a b)"

fun op_flags :: "alu_op \<Rightarrow> RFlags \<Rightarrow> 'a::len word \<Rightarrow> 'a word \<Rightarrow> 'a word \<Rightarrow> bool \<Rightarrow> RFlags" where
  "op_flags AddOp = AddOp_flags"
| "op_flags SubOp = SubOp_flags"
| "op_flags CmpOp = CmpOp_flags"
| "op_flags MulOp = MulOp_flags"
| "op_flags DivOp = DivOp_flags"
| "op_flags ModOp = ModOp_flags"
| "op_flags AndOp = LogicFlagsBase_flags"
| "op_flags OrOp = LogicFlagsBase_flags"
| "op_flags XorOp = LogicFlagsBase_flags"
| "op_flags ShlOp = ShlOp_flags"
| "op_flags ShrOp = ShrOp_flags"
| "op_flags SarOp = SarOp_flags"

fun unary_compute :: "unary_op \<Rightarrow> 'a::len word \<Rightarrow> 'a word" where
  "unary_compute IncOp a = IncOp_compute a"
| "unary_compute DecOp a = DecOp_compute a"
| "unary_compute NotOp a = NotOp_compute a"

fun unary_flags :: "unary_op \<Rightarrow> RFlags \<Rightarrow> 'a::len word \<Rightarrow> 'a word \<Rightarrow> RFlags" where
  "unary_flags IncOp = IncOp_flags"
| "unary_flags DecOp = DecOp_flags"
| "unary_flags NotOp = NotOp_flags"

section \<open>The arithmetic core\<close>

text \<open>
  What the arithmetic of \<^verbatim>\<open>compute_with_flags\<close> yields: a result with the updated flags, the
  fatal error of a division, or no defined result.
\<close>

datatype 'r alu_out = Alu_ok 'r RFlags | Alu_fatal | Alu_undef

definition store_flags :: "alu_op \<Rightarrow> RFlags \<Rightarrow> 'a::len word \<Rightarrow> 'a word \<Rightarrow> bool \<Rightarrow> 'a word \<Rightarrow> 'a word alu_out" where
  "store_flags op f a b is_signed res =
     (let f1 = set_ZF (res = 0) f;
          f2 = set_SF (drop_bit (LENGTH('a) - 1) res AND 1 = 1) f1
      in Alu_ok res (op_flags op f2 a b res is_signed))"

fun division_result :: "alu_op \<Rightarrow> 'a::len word \<Rightarrow> 'a word \<Rightarrow> 'a word" where
  "division_result DivOp a b = DivOp_compute_signed a b"
| "division_result ModOp a b = ModOp_compute_signed a b"
| "division_result _ a b = 0"

definition alu_compute :: "alu_op \<Rightarrow> RFlags \<Rightarrow> 'a::len word \<Rightarrow> 'a word \<Rightarrow> bool \<Rightarrow> 'a word alu_out" where
  "alu_compute op f a b is_signed =
     (if OpIsDivision op then
        if b = 0 then Alu_fatal
        else if is_signed then
          if sint a = S_MIN TYPE('a) \<and> sint b = - 1 then Alu_fatal
          else store_flags op f a b is_signed (division_result op a b)
        else (case op_compute op a b of None \<Rightarrow> Alu_undef
              | Some res \<Rightarrow> store_flags op f a b is_signed res)
      else (case op_compute op a b of None \<Rightarrow> Alu_undef
            | Some res \<Rightarrow> store_flags op f a b is_signed res))"

definition alu_unary :: "unary_op \<Rightarrow> RFlags \<Rightarrow> 'a::len word \<Rightarrow> 'a word \<times> RFlags" where
  "alu_unary op f a =
     (let result = unary_compute op a;
          f1 = set_ZF (result = 0) f;
          f2 = set_SF (drop_bit (LENGTH('a) - 1) result AND 1 = 1) f1
      in (result, unary_flags op f2 a result))"

section \<open>Sign bits and wrap-around\<close>

lemma sign_bit_iff [simp]:
  "(drop_bit (LENGTH('a) - Suc 0) (w :: 'a::len word) AND 1 = 1) \<longleftrightarrow> sint w < 0"
proof -
  have "(drop_bit (LENGTH('a) - Suc 0) w AND 1 = 1) \<longleftrightarrow> bit w (LENGTH('a) - Suc 0)"
    by (simp add: and_one_eq bit_iff_odd_drop_bit odd_iff_mod_2_eq_one)
  then show ?thesis by (simp add: bit_last_iff)
qed

lemma sint_xor_neg: "sint ((a :: 'a::len word) XOR b) < 0 \<longleftrightarrow> (sint a < 0) \<noteq> (sint b < 0)"
  by (auto simp add: bit_simps simp flip: bit_last_iff)

lemma sint_and_neg: "sint ((a :: 'a::len word) AND b) < 0 \<longleftrightarrow> sint a < 0 \<and> sint b < 0"
  by (simp add: bit_simps flip: bit_last_iff)

lemma signed_wrap:
  fixes k :: int
  assumes "- (2 * 2 ^ n) \<le> k" "k < 2 * 2 ^ n"
  shows "signed_take_bit n k =
    (if k < - (2 ^ n) then k + 2 * 2 ^ n else if 2 ^ n \<le> k then k - 2 * 2 ^ n else k)"
proof -
  have e: "signed_take_bit n k = (k + 2 ^ n) mod (2 * 2 ^ n) - 2 ^ n"
    by (simp add: signed_take_bit_eq_take_bit_shift take_bit_eq_mod)
  have pos: "(0 :: int) < 2 ^ n" by simp
  consider "k < - (2 ^ n)" | "2 ^ n \<le> k" | "- (2 ^ n) \<le> k" "k < 2 ^ n" by linarith
  then show ?thesis
  proof cases
    case 1
    have "(k + 2 ^ n) mod (2 * 2 ^ n) = (k + 2 ^ n + 2 * 2 ^ n) mod (2 * 2 ^ n)"
      by (rule mod_add_self2 [symmetric])
    also have "\<dots> = k + 2 ^ n + 2 * 2 ^ n"
      by (rule mod_pos_pos_trivial) (use 1 assms in linarith)+
    finally show ?thesis using e 1 by simp
  next
    case 2
    have "(k + 2 ^ n) mod (2 * 2 ^ n) = (k + 2 ^ n - 2 * 2 ^ n) mod (2 * 2 ^ n)"
      by (rule minus_mod_self2 [symmetric])
    also have "\<dots> = k + 2 ^ n - 2 * 2 ^ n"
      by (rule mod_pos_pos_trivial) (use 2 assms in linarith)+
    finally have "signed_take_bit n k = k - 2 * 2 ^ n" using e by simp
    moreover have "\<not> k < - (2 ^ n)" using 2 pos by linarith
    ultimately show ?thesis using 2 by simp
  next
    case 3
    have "(k + 2 ^ n) mod (2 * 2 ^ n) = k + 2 ^ n"
      by (rule mod_pos_pos_trivial) (use 3 in linarith)+
    then show ?thesis using e 3 by simp
  qed
qed

text \<open>The signed value of a sum or difference, and when it leaves the type.\<close>

definition in_signed_range :: "'a::len itself \<Rightarrow> int \<Rightarrow> bool" where
  "in_signed_range t k \<longleftrightarrow> S_MIN t \<le> k \<and> k \<le> S_MAX t"

lemma len_Suc: "LENGTH('a::len) = Suc (LENGTH('a) - Suc 0)"
  by simp

lemma sint_bounds:
  "- (2 ^ (LENGTH('a) - Suc 0)) \<le> sint (a :: 'a::len word)" "sint a < 2 ^ (LENGTH('a) - Suc 0)"
  using sint_ge [of a] sint_lt [of a] by simp_all

lemma in_signed_range_iff:
  "in_signed_range TYPE('a::len) k \<longleftrightarrow> - (2 ^ (LENGTH('a) - Suc 0)) \<le> k \<and> k < 2 ^ (LENGTH('a) - Suc 0)"
  by (auto simp: in_signed_range_def S_MIN_def S_MAX_def)

lemma add_overflow_iff:
  "sint (((a :: 'a::len word) XOR (a + b)) AND (b XOR (a + b))) < 0 \<longleftrightarrow>
     \<not> in_signed_range TYPE('a) (sint a + sint b)"
proof -
  define p :: int where "p = 2 ^ (LENGTH('a) - Suc 0)"
  have r: "- p \<le> sint a" "sint a < p" "- p \<le> sint b" "sint b < p"
    unfolding p_def using sint_bounds [of a] sint_bounds [of b] by simp_all
  have s: "sint (a + b) = (if sint a + sint b < - p then sint a + sint b + 2 * p
      else if p \<le> sint a + sint b then sint a + sint b - 2 * p else sint a + sint b)"
    unfolding p_def One_nat_def sint_word_add
    by (rule signed_wrap) (use r in \<open>simp_all add: p_def\<close>)
  show ?thesis
    unfolding sint_and_neg sint_xor_neg in_signed_range_iff p_def [symmetric] using r s
    by (auto split: if_splits)
qed

lemma sint_diff_wrap:
  fixes a b :: "'a::len word"
  defines "p \<equiv> 2 ^ (LENGTH('a) - Suc 0)"
  shows "sint (a - b) = (if sint a - sint b < - p then sint a - sint b + 2 * p
      else if p \<le> sint a - sint b then sint a - sint b - 2 * p else sint a - sint b)"
  unfolding p_def One_nat_def sint_word_diff
  by (rule signed_wrap) (use sint_bounds [of a] sint_bounds [of b] in simp_all)

lemma sub_overflow_iff:
  "sint (((a :: 'a::len word) XOR b) AND (a XOR (a - b))) < 0 \<longleftrightarrow>
     \<not> in_signed_range TYPE('a) (sint a - sint b)"
proof -
  define p :: int where "p = 2 ^ (LENGTH('a) - Suc 0)"
  have r: "- p \<le> sint a" "sint a < p" "- p \<le> sint b" "sint b < p"
    unfolding p_def using sint_bounds [of a] sint_bounds [of b] by simp_all
  show ?thesis
    unfolding sint_and_neg sint_xor_neg in_signed_range_iff using r sint_diff_wrap [of a b]
    unfolding p_def [symmetric] by (auto split: if_splits)
qed

lemma add_carry_iff: "(a :: 'a::len word) + b < a \<longleftrightarrow> 2 ^ LENGTH('a) \<le> uint a + uint b"
proof -
  have "uint a < 2 ^ LENGTH('a)" "uint b < 2 ^ LENGTH('a)" "0 \<le> uint b" "0 \<le> uint a"
    using unsigned_less [of a, where ?'a = int] unsigned_less [of b, where ?'a = int] by simp_all
  then show ?thesis
    by (simp add: word_less_def uint_plus_if')
qed

lemma int_div_less_iff:
  fixes p x y :: int
  assumes "0 < x"
  shows "p div x < y \<longleftrightarrow> p < y * x"
proof
  assume "p div x < y"
  then have "(p div x + 1) * x \<le> y * x" using assms by (intro mult_right_mono) simp_all
  moreover have "p < (p div x + 1) * x"
    using pos_mod_bound [of x p] assms by (simp add: distrib_right minus_mod_eq_div_mult [symmetric])
  ultimately show "p < y * x" by linarith
next
  assume "p < y * x"
  moreover have "p div x * x \<le> p"
    using pos_mod_sign [of x p] assms by (simp add: minus_mod_eq_div_mult [symmetric])
  ultimately have "p div x * x < y * x" by linarith
  then show "p div x < y" using assms by simp
qed

lemma mul_overflow_unsigned_iff:
  "mul_overflow_unsigned (a :: 'a::len word) b \<longleftrightarrow> 2 ^ LENGTH('a) \<le> uint a * uint b"
proof (cases "uint b = 0")
  case False
  have n: "0 \<le> uint a" "0 \<le> uint b" by simp_all
  with False have "0 < uint b" by linarith
  then have "U_MAX TYPE('a) div uint b < uint a \<longleftrightarrow> U_MAX TYPE('a) < uint a * uint b"
    by (rule int_div_less_iff)
  then show ?thesis using n False
    by (auto simp: mul_overflow_unsigned_def U_MAX_def Let_def simp del: uint_0_iff)
qed (simp add: mul_overflow_unsigned_def)

lemma mul_overflow_signed_iff:
  fixes a b :: "'a::len word"
  assumes "1 < LENGTH('a)"
  shows "mul_overflow_signed a b \<longleftrightarrow> \<not> in_signed_range TYPE('a) (sint a * sint b)"
proof -
  define p :: int where "p = 2 ^ (LENGTH('a) - Suc 0)"
  define x where "x = sint a"
  define y where "y = sint b"
  have lim: "S_MIN TYPE('a) = - p" "S_MAX TYPE('a) = p - 1"
    by (simp_all add: S_MIN_def S_MAX_def p_def)
  have p: "1 < p" using assms by (simp add: p_def)
  have r: "- p \<le> x" "x < p" "- p \<le> y" "y < p"
    unfolding p_def x_def y_def using sint_bounds [of a] sint_bounds [of b] by simp_all
  have goal: "mul_overflow_signed a b \<longleftrightarrow> \<not> (- p \<le> x * y \<and> x * y \<le> p - 1)"
  proof (cases "x = 0 \<or> y = 0 \<or> x = - 1 \<or> y = - 1")
    case True
    then show ?thesis using r p
      by (auto simp: mul_overflow_signed_def lim Let_def simp flip: x_def y_def)
  next
    case False
    then consider "0 < x" "0 < y" | "0 < x" "0 < - y" | "0 < - x" "0 < y" | "0 < - x" "0 < - y"
      by linarith
    then show ?thesis
    proof cases
      case 1
      then have "mul_overflow_signed a b \<longleftrightarrow> (p - 1) div y < x" using False p
        by (simp add: mul_overflow_signed_def lim Let_def signed_divide_int_def flip: x_def y_def)
      moreover have "0 < x * y" using 1 by (rule mult_pos_pos)
      then have "- p \<le> x * y" using p by linarith
      ultimately show ?thesis using int_div_less_iff [of y "p - 1" x] 1 p by auto
    next
      case 2
      then have "mul_overflow_signed a b \<longleftrightarrow> y < - (p div x)" using False p
        by (simp add: mul_overflow_signed_def lim Let_def signed_divide_int_def flip: x_def y_def)
      moreover have "0 < x * (- y)" using 2 by (intro mult_pos_pos)
      ultimately show ?thesis using int_div_less_iff [of x p "- y"] 2 p by (auto simp: mult.commute)
    next
      case 3
      then have "mul_overflow_signed a b \<longleftrightarrow> x < - (p div y)" using False p
        by (simp add: mul_overflow_signed_def lim Let_def signed_divide_int_def flip: x_def y_def)
      moreover have "0 < (- x) * y" using 3 by (intro mult_pos_pos)
      ultimately show ?thesis using int_div_less_iff [of y p "- x"] 3 p by auto
    next
      case 4
      then have "mul_overflow_signed a b \<longleftrightarrow> x < - ((p - 1) div (- y))" using False p
        by (simp add: mul_overflow_signed_def lim Let_def signed_divide_int_def flip: x_def y_def)
      moreover have "0 < (- x) * (- y)" using 4 by (intro mult_pos_pos)
      ultimately show ?thesis using int_div_less_iff [of "- y" "p - 1" "- x"] 4 p by auto
    qed
  qed
  then show ?thesis by (simp add: in_signed_range_def lim x_def y_def)
qed

section \<open>Signed division\<close>

lemma sint_word_of_int_in_range:
  "in_signed_range TYPE('a::len) k \<Longrightarrow> sint (word_of_int k :: 'a word) = k"
  unfolding in_signed_range_iff
  by (simp add: sint_sbintrunc' signed_take_bit_int_eq_self)

lemma sdiv_in_range:
  fixes a b :: "'a::len word"
  assumes "sint b \<noteq> 0" "\<not> (sint a = S_MIN TYPE('a) \<and> sint b = - 1)"
  shows "in_signed_range TYPE('a) (sint a sdiv sint b)"
proof -
  define p :: int where "p = 2 ^ (LENGTH('a) - Suc 0)"
  define x where "x = sint a"
  define y where "y = sint b"
  have r: "- p \<le> x" "x < p" "0 < p" unfolding p_def x_def using sint_bounds [of a] by simp_all
  have y: "y \<noteq> 0" "\<not> (x = - p \<and> y = - 1)"
    using assms by (simp_all add: x_def y_def p_def S_MIN_def)
  have q0: "0 \<le> \<bar>x\<bar> div \<bar>y\<bar>" by (simp add: div_int_pos_iff)
  have q1: "\<bar>x\<bar> div \<bar>y\<bar> \<le> \<bar>x\<bar>" using zdiv_mono2 [of "\<bar>x\<bar>" 1 "\<bar>y\<bar>"] y(1) by simp
  have "- p \<le> sgn x * sgn y * (\<bar>x\<bar> div \<bar>y\<bar>) \<and> sgn x * sgn y * (\<bar>x\<bar> div \<bar>y\<bar>) < p"
  proof (cases "x < 0 \<and> y < 0")
    case True
    have "\<bar>x\<bar> div \<bar>y\<bar> < p"
    proof (cases "y = - 1")
      case False
      then have "\<bar>x\<bar> div \<bar>y\<bar> < \<bar>x\<bar>" using True by (intro int_div_less_self) simp_all
      then show ?thesis using r by linarith
    qed (use True r y in auto)
    then show ?thesis using True q0 r by simp
  next
    case False
    then show ?thesis using q0 q1 r by (auto simp: sgn_if split: if_splits)
  qed
  then show ?thesis
    by (simp add: in_signed_range_iff signed_divide_int_def flip: x_def y_def p_def)
qed

lemma smod_in_range:
  fixes a b :: "'a::len word"
  assumes "sint b \<noteq> 0"
  shows "in_signed_range TYPE('a) (sint a smod sint b)"
    and "\<bar>sint a smod sint b\<bar> < \<bar>sint b\<bar>"
    and "sint a smod sint b = 0 \<or> sgn (sint a smod sint b) = sgn (sint a)"
proof -
  define p :: int where "p = 2 ^ (LENGTH('a) - Suc 0)"
  have r: "- p \<le> sint b" "sint b < p" unfolding p_def using sint_bounds [of b] by simp_all
  have m: "0 \<le> \<bar>sint a\<bar> mod \<bar>sint b\<bar>" "\<bar>sint a\<bar> mod \<bar>sint b\<bar> < \<bar>sint b\<bar>" using assms by simp_all
  then show lt: "\<bar>sint a smod sint b\<bar> < \<bar>sint b\<bar>"
    using assms by (simp add: signed_modulo_int_def abs_mult abs_sgn_eq)
  then have "- p \<le> sint a smod sint b" "sint a smod sint b < p" using r by linarith+
  then show "in_signed_range TYPE('a) (sint a smod sint b)"
    by (simp add: in_signed_range_iff flip: p_def)
  show "sint a smod sint b = 0 \<or> sgn (sint a smod sint b) = sgn (sint a)"
    using m(1) by (auto simp: signed_modulo_int_def sgn_mult)
qed

lemma sint_eq_0 [simp]: "sint (b :: 'a::len word) = 0 \<longleftrightarrow> b = 0"
  by (metis sint_0 signed_word_eqI)

lemma store_division_flags:
  assumes "OpIsDivision op" "b \<noteq> 0" "sg \<Longrightarrow> \<not> (sint a = S_MIN TYPE('a::len) \<and> sint b = - 1)"
  obtains g where "\<And>res. store_flags op f a (b :: 'a word) sg res = Alu_ok res (g res)"
    "\<And>res. \<not> CF (g res)" "\<And>res. \<not> OF (g res)"
proof (rule that)
  show "store_flags op f a b sg res =
      Alu_ok res (op_flags op (set_SF (sint res < 0) (set_ZF (res = 0) f)) a b res sg)" for res
    by (simp add: store_flags_def)
qed (use assms in \<open>cases op; auto simp: DivOp_flags_def ModOp_flags_def\<close>)+

section \<open>Shifts and comparisons\<close>

lemma sint_eq_iff: "sint (a :: 'a::len word) = sint b \<longleftrightarrow> a = b"
  by (auto intro: signed_word_eqI)

lemma signed_less_iff_flags:
  "sint (a :: 'a::len word) < sint b \<longleftrightarrow>
     (sint (a - b) < 0) \<noteq> (\<not> in_signed_range TYPE('a) (sint a - sint b))"
proof -
  define p :: int where "p = 2 ^ (LENGTH('a) - Suc 0)"
  have r: "- p \<le> sint a" "sint a < p" "- p \<le> sint b" "sint b < p"
    unfolding p_def using sint_bounds [of a] sint_bounds [of b] by simp_all
  show ?thesis using sint_diff_wrap [of a b] r
    unfolding in_signed_range_iff p_def [symmetric] by (auto split: if_splits)
qed

lemma and_one_eq_bit: "(drop_bit n (w :: 'a::len word) AND 1 = 1) \<longleftrightarrow> bit w n"
  by (simp add: and_one_eq bit_iff_odd_drop_bit odd_iff_mod_2_eq_one)

lemma shift_count_mod:
  assumes "LENGTH('a::len) = 2 ^ k" "k < 32"
  shows "shift_count (b :: 'a word) = unat b mod LENGTH('a)"
proof -
  have "(of_nat (LENGTH('a) - 1) :: u32) = mask k"
    using assms by (simp add: mask_eq_exp_minus_1 of_nat_diff)
  then have "shift_count b = unat (take_bit k (ucast b :: u32))"
    by (simp add: shift_count_def take_bit_eq_mask)
  also have "\<dots> = take_bit k (take_bit 32 (unat b))"
    by (simp add: unsigned_take_bit_eq unsigned_ucast_eq)
  also have "\<dots> = take_bit k (unat b)" using assms by (simp add: min_def)
  also have "\<dots> = unat b mod LENGTH('a)" using assms by (simp add: take_bit_eq_mod)
  finally show ?thesis .
qed

section \<open>Properties\<close>

text \<open>C5. Addition, subtraction and comparison at every operand width compute the wrapped result and set
  the flags exactly: the zero and sign flags follow the result; the unsigned forms set the carry
  flag when the sum leaves the type or a borrow occurs and clear the overflow flag; the signed
  forms set the overflow flag exactly when the mathematical result leaves the signed range and
  clear the carry flag; the distributed-mode flag is kept.  The comparison is the one of the three
  whose result the handlers do not store.
\<close>

theorem add_sub_set_flags:
  fixes a b :: "'a::len word"
  shows "(\<exists>g. alu_compute AddOp f a b sg = Alu_ok (a + b) g \<and>
      (ZF g \<longleftrightarrow> a + b = 0) \<and> (SF g \<longleftrightarrow> sint (a + b) < 0) \<and>
      (CF g \<longleftrightarrow> \<not> sg \<and> 2 ^ LENGTH('a) \<le> uint a + uint b) \<and>
      (OF g \<longleftrightarrow> sg \<and> \<not> in_signed_range TYPE('a) (sint a + sint b)) \<and> (DM g \<longleftrightarrow> DM f)) \<and>
    (\<exists>g. alu_compute SubOp f a b sg = Alu_ok (a - b) g \<and>
      (ZF g \<longleftrightarrow> a = b) \<and> (SF g \<longleftrightarrow> sint (a - b) < 0) \<and>
      (CF g \<longleftrightarrow> \<not> sg \<and> uint a < uint b) \<and>
      (OF g \<longleftrightarrow> sg \<and> \<not> in_signed_range TYPE('a) (sint a - sint b)) \<and> (DM g \<longleftrightarrow> DM f)) \<and>
    (\<exists>g. alu_compute CmpOp f a b sg = Alu_ok (a - b) g \<and>
      (ZF g \<longleftrightarrow> a = b) \<and> (SF g \<longleftrightarrow> sint (a - b) < 0) \<and>
      (CF g \<longleftrightarrow> \<not> sg \<and> uint a < uint b) \<and>
      (OF g \<longleftrightarrow> sg \<and> \<not> in_signed_range TYPE('a) (sint a - sint b)) \<and> (DM g \<longleftrightarrow> DM f)) \<and>
    is_compare CmpOp \<and> \<not> is_compare AddOp \<and> \<not> is_compare SubOp"
  by (auto simp: alu_compute_def store_flags_def Let_def AddOp_compute_def SubOp_compute_def CmpOp_compute_def
      AddOp_flags_def SubOp_flags_def CmpOp_flags_def add_overflow_iff sub_overflow_iff add_carry_iff
      word_less_alt [of a b])

text \<open>C7. Multiplication: the quotient tests on the operands detect overflow exactly.  The unsigned
  form sets carry and overflow when the product does not fit the type, the signed form sets
  overflow when the product of the signed values is out of range, for every width of at least two
  bits, whenever the multiplication has a defined result.
\<close>

theorem mul_detects_overflow:
  fixes a b :: "'a::len word"
  assumes "1 < LENGTH('a)" "LENGTH('a) \<noteq> 16 \<or> uint a * uint b < 2 ^ 31"
  shows "\<exists>g. alu_compute MulOp f a b sg = Alu_ok (a * b) g \<and>
      (ZF g \<longleftrightarrow> a * b = 0) \<and> (SF g \<longleftrightarrow> sint (a * b) < 0) \<and>
      (CF g \<longleftrightarrow> \<not> sg \<and> 2 ^ LENGTH('a) \<le> uint a * uint b) \<and>
      (OF g \<longleftrightarrow> (if sg then \<not> in_signed_range TYPE('a) (sint a * sint b)
                  else 2 ^ LENGTH('a) \<le> uint a * uint b))"
proof -
  have "MulOp_compute a b = Some (a * b)" using assms(2) by (auto simp: MulOp_compute_def)
  then show ?thesis
    by (simp add: alu_compute_def store_flags_def MulOp_flags_def
        mul_overflow_signed_iff [OF assms(1)] mul_overflow_unsigned_iff)
qed

theorem mul_detects_overflow_witness:
  "(\<exists>g. alu_compute MulOp 0 (100 :: 8 word) 2 True = Alu_ok 200 g \<and> OF g \<and> \<not> CF g) \<and>
   (\<exists>g. alu_compute MulOp 0 (100 :: 8 word) 2 False = Alu_ok 200 g \<and> \<not> OF g \<and> \<not> CF g)"
proof -
  have r: "\<not> in_signed_range TYPE(8) (sint (100 :: 8 word) * sint (2 :: 8 word))"
    by (simp add: in_signed_range_iff)
  show ?thesis
    using mul_detects_overflow [of "100 :: 8 word" 2 0 True]
      mul_detects_overflow [of "100 :: 8 word" 2 0 False] r
    by auto
qed

lemma signed_recompose:
  fixes a b :: "'a::len word"
  assumes b: "b \<noteq> 0" and s: "\<not> (sint a = S_MIN TYPE('a) \<and> sint b = - 1)"
  defines "q \<equiv> word_of_int (sint a sdiv sint b) :: 'a word" and "r \<equiv> word_of_int (sint a smod sint b) :: 'a word"
  shows "sint a = sint q * sint b + sint r \<and> \<bar>sint r\<bar> < \<bar>sint b\<bar> \<and> (sint r = 0 \<or> sgn (sint r) = sgn (sint a))"
proof -
  have q: "sint q = sint a sdiv sint b"
    unfolding q_def using sdiv_in_range [of b a] b s by (simp add: sint_word_of_int_in_range)
  have r: "sint r = sint a smod sint b"
    unfolding r_def using smod_in_range(1) [of b a] b by (simp add: sint_word_of_int_in_range)
  have m: "sint b \<noteq> 0" using b by simp
  have "sint a = sint a sdiv sint b * sint b + sint a smod sint b"
    by (rule sdiv_mult_smod_eq [symmetric])
  then show ?thesis unfolding q r using smod_in_range(2,3) [OF m, of a] by simp
qed

text \<open>C8. Division and remainder: at every width they raise the fatal error exactly for a zero
  divisor and, signed, for the most negative dividend with divisor \<open>-1\<close>; otherwise quotient and
  remainder recompose the dividend, the remainder is smaller than the divisor in magnitude and
  carries the sign of the dividend, and carry and overflow are clear.
\<close>

theorem division_recomposes:
  fixes a b :: "'a::len word"
  shows "(alu_compute DivOp f a b sg = Alu_fatal \<longleftrightarrow>
            b = 0 \<or> sg \<and> sint a = S_MIN TYPE('a) \<and> sint b = - 1) \<and>
    (alu_compute ModOp f a b sg = Alu_fatal \<longleftrightarrow> alu_compute DivOp f a b sg = Alu_fatal) \<and>
    (alu_compute DivOp f a b sg = Alu_fatal \<or>
      (\<exists>q g r h. alu_compute DivOp f a b sg = Alu_ok q g \<and> alu_compute ModOp f a b sg = Alu_ok r h \<and>
        \<not> CF g \<and> \<not> OF g \<and> \<not> CF h \<and> \<not> OF h \<and>
        (if sg then sint a = sint q * sint b + sint r \<and> \<bar>sint r\<bar> < \<bar>sint b\<bar> \<and>
                    (sint r = 0 \<or> sgn (sint r) = sgn (sint a))
         else uint a = uint q * uint b + uint r \<and> uint r < uint b)))"
proof -
  let ?fatal = "b = 0 \<or> sg \<and> sint a = S_MIN TYPE('a) \<and> sint b = - 1"
  have fatal: "alu_compute DivOp f a b sg = Alu_fatal \<longleftrightarrow> ?fatal"
      "alu_compute ModOp f a b sg = Alu_fatal \<longleftrightarrow> ?fatal"
    by (simp_all add: alu_compute_def store_flags_def)
  show ?thesis
  proof (cases ?fatal)
    case False
    then have b: "b \<noteq> 0" and s: "sg \<Longrightarrow> \<not> (sint a = S_MIN TYPE('a) \<and> sint b = - 1)" by auto
    obtain g where g: "\<And>res. store_flags DivOp f a b sg res = Alu_ok res (g res)"
        "\<And>res. \<not> CF (g res)" "\<And>res. \<not> OF (g res)"
      by (rule store_division_flags [of DivOp b sg a f]) (use b s in simp_all)
    obtain h where h: "\<And>res. store_flags ModOp f a b sg res = Alu_ok res (h res)"
        "\<And>res. \<not> CF (h res)" "\<And>res. \<not> OF (h res)"
      by (rule store_division_flags [of ModOp b sg a f]) (use b s in simp_all)
    obtain q r where qr: "alu_compute DivOp f a b sg = Alu_ok q (g q)"
        "alu_compute ModOp f a b sg = Alu_ok r (h r)"
        "if sg then sint a = sint q * sint b + sint r \<and> \<bar>sint r\<bar> < \<bar>sint b\<bar> \<and>
           (sint r = 0 \<or> sgn (sint r) = sgn (sint a))
         else uint a = uint q * uint b + uint r \<and> uint r < uint b"
    proof (cases sg)
      case True
      then show ?thesis using b s g(1) h(1) signed_recompose [of b a]
        by (intro that [of "word_of_int (sint a sdiv sint b)" "word_of_int (sint a smod sint b)"])
          (auto simp: alu_compute_def DivOp_compute_signed_def ModOp_compute_signed_def)
    next
      case False
      have "uint b \<noteq> 0" using b by (simp add: unsigned_eq_0_iff)
      moreover have "0 \<le> uint b" by simp
      ultimately have "0 < uint b" by linarith
      then have "uint a = uint (a div b) * uint b + uint (a mod b)" "uint (a mod b) < uint b"
        by (simp_all add: uint_div uint_mod)
      then show ?thesis using False b g(1) h(1)
        by (intro that [of "a div b" "a mod b"])
          (auto simp: alu_compute_def DivOp_compute_def ModOp_compute_def)
    qed
    then show ?thesis unfolding fatal using False g(2,3) h(2,3) by blast
  qed (use fatal in auto)
qed

text \<open>Shifts: the count is taken modulo the width; \<^verbatim>\<open>shl\<close> multiplies modulo the type, \<^verbatim>\<open>shr\<close> is the
  unsigned and \<^verbatim>\<open>sar\<close> the floored signed division by the power of two, and the carry flag is the
  last bit shifted out, clear for a zero count.
\<close>

theorem shifts_scale:
  fixes a b :: "'a::len word"
  assumes "LENGTH('a) = 2 ^ k" "k < 32"
  defines "n \<equiv> unat b mod LENGTH('a)"
  shows "(\<exists>r g. alu_compute ShlOp f a b sg = Alu_ok r g \<and>
            uint r = (uint a * 2 ^ n) mod 2 ^ LENGTH('a) \<and> (CF g \<longleftrightarrow> 0 < n \<and> bit a (LENGTH('a) - n))) \<and>
    (\<exists>r g. alu_compute ShrOp f a b sg = Alu_ok r g \<and>
            uint r = uint a div 2 ^ n \<and> (CF g \<longleftrightarrow> 0 < n \<and> bit a (n - 1))) \<and>
    (\<exists>r g. alu_compute SarOp f a b sg = Alu_ok r g \<and>
            sint r = sint a div 2 ^ n \<and> (CF g \<longleftrightarrow> 0 < n \<and> bit a (n - 1)))"
proof -
  have c: "shift_count b = n" using assms by (simp add: shift_count_mod)
  have v: "uint (push_bit n a) = (uint a * 2 ^ n) mod 2 ^ LENGTH('a)"
      "uint (drop_bit n a) = uint a div 2 ^ n" "sint (signed_drop_bit n a) = sint a div 2 ^ n"
    by (simp_all only: unsigned_push_bit_eq unsigned_drop_bit_eq sint_signed_drop_bit_eq)
      (simp_all add: push_bit_eq_mult take_bit_eq_mod drop_bit_eq_div)
  show ?thesis using c v
    by (auto simp: alu_compute_def store_flags_def ShlOp_compute_def ShrOp_compute_def
        SarOp_compute_def ShlOp_flags_def ShrOp_flags_def SarOp_flags_def Let_def and_one_eq_bit)
qed

theorem shifts_scale_witness:
  "\<exists>r g. alu_compute SarOp 0 (0xF0 :: 8 word) 2 False = Alu_ok r g \<and> sint r = - 4 \<and> \<not> CF g"
  using shifts_scale [where ?'a = 8, of 3 0 "0xF0 :: 8 word" "2 :: 8 word" False]
  by (auto simp: bit_simps)

text \<open>C6. What the fourteen condition codes of the jumps decide after a compare, \<open>EQ\<close> and \<open>NE\<close> being equality
  after both forms.  After a signed compare \<open>GE\<close>, \<open>LT\<close>, \<open>GT\<close> and \<open>LE\<close> are the signed order of the operands;
  \<open>MI\<close> and \<open>PL\<close> are the sign of the wrapped difference (which is their comment's order only without
  overflow) and \<open>VS\<close>, \<open>VC\<close> tell whether the exact
  difference leaves the signed range; the carry codes see no carry.  After an unsigned compare \<open>CS\<close>
  holds exactly when the first operand is \<^emph>\<open>lower\<close> and \<open>CC\<close> when it is higher or the same, the opposite
  of their comments; so does \<open>HI\<close> (\<open>0x08\<close>), documented as ``unsigned higher'', hold when it is
  \<^emph>\<open>lower\<close>, and \<open>LS\<close> (\<open>0x09\<close>) when it is higher or the same; \<open>VS\<close> never holds, and the order codes read
  the sign of the wrapped difference alone.  A code from \<open>0x0E\<close> on always holds.
\<close>

theorem conditions_after_compare:
  fixes a b :: "'a::len word"
  shows "(\<exists>g. alu_compute CmpOp f a b True = Alu_ok (a - b) g \<and>
      (eval_jmp_cond 0x00 g \<longleftrightarrow> a = b) \<and> (eval_jmp_cond 0x01 g \<longleftrightarrow> a \<noteq> b) \<and>
      \<not> eval_jmp_cond 0x02 g \<and> eval_jmp_cond 0x03 g \<and>
      (eval_jmp_cond 0x04 g \<longleftrightarrow> sint (a - b) < 0) \<and> (eval_jmp_cond 0x05 g \<longleftrightarrow> 0 \<le> sint (a - b)) \<and>
      (eval_jmp_cond 0x06 g \<longleftrightarrow> \<not> in_signed_range TYPE('a) (sint a - sint b)) \<and>
      (eval_jmp_cond 0x07 g \<longleftrightarrow> in_signed_range TYPE('a) (sint a - sint b)) \<and>
      \<not> eval_jmp_cond 0x08 g \<and> eval_jmp_cond 0x09 g \<and>
      (eval_jmp_cond 0x0A g \<longleftrightarrow> sint b \<le> sint a) \<and> (eval_jmp_cond 0x0B g \<longleftrightarrow> sint a < sint b) \<and>
      (eval_jmp_cond 0x0C g \<longleftrightarrow> sint b < sint a) \<and> (eval_jmp_cond 0x0D g \<longleftrightarrow> sint a \<le> sint b)) \<and>
    (\<exists>g. alu_compute CmpOp f a b False = Alu_ok (a - b) g \<and>
      (eval_jmp_cond 0x00 g \<longleftrightarrow> a = b) \<and> (eval_jmp_cond 0x01 g \<longleftrightarrow> a \<noteq> b) \<and>
      (eval_jmp_cond 0x02 g \<longleftrightarrow> a < b) \<and> (eval_jmp_cond 0x03 g \<longleftrightarrow> b \<le> a) \<and>
      (eval_jmp_cond 0x04 g \<longleftrightarrow> sint (a - b) < 0) \<and> (eval_jmp_cond 0x05 g \<longleftrightarrow> 0 \<le> sint (a - b)) \<and>
      \<not> eval_jmp_cond 0x06 g \<and> eval_jmp_cond 0x07 g \<and>
      (eval_jmp_cond 0x08 g \<longleftrightarrow> a < b) \<and> (eval_jmp_cond 0x09 g \<longleftrightarrow> b \<le> a) \<and>
      (eval_jmp_cond 0x0A g \<longleftrightarrow> 0 \<le> sint (a - b)) \<and> (eval_jmp_cond 0x0B g \<longleftrightarrow> sint (a - b) < 0) \<and>
      (eval_jmp_cond 0x0C g \<longleftrightarrow> 0 < sint (a - b)) \<and> (eval_jmp_cond 0x0D g \<longleftrightarrow> sint (a - b) \<le> 0)) \<and>
    (cond \<le> 0x0D \<or> eval_jmp_cond cond f)"
proof -
  have s: "sint b \<le> sint a \<longleftrightarrow> (sint (a - b) < 0) = (\<not> in_signed_range TYPE('a) (sint a - sint b))"
    using signed_less_iff_flags [of a b] by auto
  have ne: "sint a < sint b \<longleftrightarrow> a \<noteq> b \<and> sint a \<le> sint b" "sint b < sint a \<longleftrightarrow> a \<noteq> b \<and> sint b \<le> sint a"
    using sint_eq_iff [of a b] by auto
  have z: "0 < sint (a - b) \<longleftrightarrow> a \<noteq> b \<and> \<not> sint (a - b) < 0" "sint (a - b) \<le> 0 \<longleftrightarrow> a = b \<or> sint (a - b) < 0"
  proof -
    have "sint (a - b) = 0 \<longleftrightarrow> a = b" using sint_eq_iff [of "a - b" 0] by simp
    then show "0 < sint (a - b) \<longleftrightarrow> a \<noteq> b \<and> \<not> sint (a - b) < 0" "sint (a - b) \<le> 0 \<longleftrightarrow> a = b \<or> sint (a - b) < 0"
      by linarith+
  qed
  have big: "cond \<le> 0x0D \<or> eval_jmp_cond cond f" by (auto simp: eval_jmp_cond_def)
  show ?thesis using s signed_less_iff_flags [of a b] ne big
    by (auto simp: z alu_compute_def store_flags_def CmpOp_compute_def CmpOp_flags_def SubOp_flags_def
        sub_overflow_iff eval_jmp_cond_def COND_defs)
qed

end
