(* ===== verification/Vm_Fsm.thy ===== *)
theory Vm_Fsm
  imports CPrelude
begin

text \<open>
  The states and events of a virtual process and the transition table of its scheduler
  (\<^verbatim>\<open>include/runtime/vm_state_event.h\<close>, \<^verbatim>\<open>init_fsm\<close> of \<^verbatim>\<open>src/runtime/scheduler.cpp\<close>).
\<close>

datatype vm_state = READY | RUNNING | BLOCKED | DEAD | DECODE | EXECUTE | WAIT_IO | HALT | NEW

datatype vm_event = EVT_SCHEDULED | EVT_YIELD | EVT_DECODE_DONE | EVT_EXEC_DONE | EVT_IO_WAIT
  | EVT_IO_READY | EVT_HALT | EVT_ERROR

text \<open>The actions of the table: the decoder, or a function with an empty body.\<close>

datatype transition_action = Act_decode | Act_empty

record Transition =
  t_next :: vm_state
  t_action :: "transition_action option"

definition transition :: "vm_state \<Rightarrow> transition_action option \<Rightarrow> Transition" where
  "transition n a = \<lparr>t_next = n, t_action = a\<rparr>"

text \<open>
  The table after \<^verbatim>\<open>init_fsm\<close>: the last loop overwrites every entry of \<^verbatim>\<open>EVT_ERROR\<close>, the entries
  named in between the defaults of the first loop.
\<close>

fun fsm :: "vm_state \<Rightarrow> vm_event \<Rightarrow> Transition" where
  "fsm s EVT_ERROR = transition DEAD (Some Act_empty)"
| "fsm READY EVT_SCHEDULED = transition RUNNING None"
| "fsm RUNNING EVT_SCHEDULED = transition DECODE None"
| "fsm DECODE EVT_DECODE_DONE = transition EXECUTE (Some Act_decode)"
| "fsm EXECUTE EVT_EXEC_DONE = transition DECODE (Some Act_empty)"
| "fsm EXECUTE EVT_IO_WAIT = transition WAIT_IO (Some Act_empty)"
| "fsm WAIT_IO EVT_IO_READY = transition READY (Some Act_empty)"
| "fsm EXECUTE EVT_HALT = transition HALT (Some Act_empty)"
| "fsm EXECUTE EVT_YIELD = transition READY None"
| "fsm DECODE EVT_YIELD = transition READY None"
| "fsm RUNNING EVT_YIELD = transition READY None"
| "fsm NEW EVT_SCHEDULED = transition READY None"
| "fsm s e = transition s None"

abbreviation fsm_next :: "vm_state \<Rightarrow> vm_event \<Rightarrow> vm_state" where
  "fsm_next s e \<equiv> t_next (fsm s e)"

lemma transition_simps [simp]: "t_next (transition n a) = n" "t_action (transition n a) = a"
  by (simp_all add: transition_def)

text \<open>Only an error leaves the terminal states, and only to \<open>DEAD\<close>.\<close>

lemma fsm_error [simp]: "fsm_next s EVT_ERROR = DEAD"
  by (cases s) simp_all

lemma fsm_dead: "fsm_next DEAD e = DEAD"
  by (cases e) simp_all

lemma fsm_halt: "e \<noteq> EVT_ERROR \<Longrightarrow> fsm_next HALT e = HALT"
  by (cases e) simp_all

lemma fsm_decode_action:
  "t_action (fsm s e) = Some Act_decode \<longleftrightarrow> s = DECODE \<and> e = EVT_DECODE_DONE"
  by (cases s; cases e) simp_all

end
