(* ===== verification/Vm_Table.thy ===== *)
theory Vm_Table
  imports CPrelude
begin

text \<open>
  The two decode tables of the interpreter (\<^verbatim>\<open>src/runtime/decode_table.cpp\<close>), indexed by the
  first byte of an instruction, and by the second one when the first is zero, with the row type
  of \<^verbatim>\<open>include/runtime/decode_instruction.h\<close> and the size modes of \<^verbatim>\<open>include/emmit/emmit_decl.h\<close>.

  A function pointer is the name of the function: the decoder \<^verbatim>\<open>decode_instr_x\<close> is \<open>D_x\<close>, and
  the handlers are named by strings, because
  most of them belong to instruction families outside this development.
\<close>

section \<open>Rows\<close>

datatype InstrSizeMode = FIXED_1 | FIXED_2 | FIXED_4 | FIXED_6 | FIXED_8 | FIXED_10 | FIXED_11
  | SIZE_COUNT | MIXED_SIZE

datatype AddressingMode = REG | MEM | SIB | INMED | MODE_NONE | MODE_COUNT

datatype decode_fn =
  D_addcur
  | D_calln
  | D_callni
  | D_cmpjmp
  | D_cursor_rw
  | D_decjnz
  | D_dlopen_dlsym
  | D_fastmask
  | D_fmowi
  | D_four_reg
  | D_fulfillhlt
  | D_gcallocp
  | D_inmed_mov
  | D_inmed_reg
  | D_jrel
  | D_jump
  | D_jumptable
  | D_movc
  | D_no_operands
  | D_one_op_reg
  | D_oop_reg_imm8
  | D_push_pop
  | D_raw_bytes
  | D_sib
  | D_simple
  | D_simple_mov
  | D_spawnargs
  | D_static_offset
  | D_three_reg
  | D_two_op_reg
  | D_vmcopy
  | D_xchg

record InstrFormat =
  fmt_name :: string
  fmt_mode :: AddressingMode
  fmt_size :: InstrSizeMode
  fmt_exec :: "string option"
  fmt_decode :: "decode_fn option"

text \<open>
  \<^verbatim>\<open>instr_size\<close> indexes a table of \<^verbatim>\<open>InstrSizeMode::COUNT\<close> sizes; the two values from there on are
  outside it.
\<close>

fun instr_size :: "InstrSizeMode \<Rightarrow> nat option" where
  "instr_size FIXED_1 = Some 1"
| "instr_size FIXED_2 = Some 2"
| "instr_size FIXED_4 = Some 4"
| "instr_size FIXED_6 = Some 6"
| "instr_size FIXED_8 = Some 8"
| "instr_size FIXED_10 = Some 10"
| "instr_size FIXED_11 = Some 11"
| "instr_size SIZE_COUNT = None"
| "instr_size MIXED_SIZE = None"

definition row :: "string \<Rightarrow> AddressingMode \<Rightarrow> InstrSizeMode \<Rightarrow> string \<Rightarrow> decode_fn \<Rightarrow> InstrFormat" where
  "row name m sz ex dec =
     \<lparr>fmt_name = name, fmt_mode = m, fmt_size = sz, fmt_exec = Some ex, fmt_decode = Some dec\<rparr>"

definition row_null :: "string \<Rightarrow> AddressingMode \<Rightarrow> InstrSizeMode \<Rightarrow> InstrFormat" where
  "row_null name m sz =
     \<lparr>fmt_name = name, fmt_mode = m, fmt_size = sz, fmt_exec = None, fmt_decode = None\<rparr>"

section \<open>The primary table\<close>

definition primary_00 :: "InstrFormat list" where
  "primary_00 =
    [row_null ''EXT_OPCODE'' MODE_NONE FIXED_1,
     row_null ''vminfo'' MODE_NONE FIXED_2,
     row_null ''vminfomanager'' MODE_NONE FIXED_2,
     row_null '''' MODE_COUNT FIXED_1,
     row ''inc / dec'' REG FIXED_2 ''exec_instr_inc_dec_reg'' D_one_op_reg,
     row_null '''' MODE_COUNT FIXED_1,
     row_null '''' MODE_COUNT FIXED_1,
     row_null '''' MODE_COUNT FIXED_1,
     row_null '''' MODE_COUNT FIXED_1,
     row_null '''' MODE_COUNT FIXED_1,
     row_null '''' MODE_COUNT FIXED_1,
     row_null '''' MODE_COUNT FIXED_1,
     row_null '''' MODE_COUNT FIXED_1,
     row_null '''' MODE_COUNT FIXED_1,
     row_null '''' MODE_COUNT FIXED_1,
     row_null '''' MODE_COUNT FIXED_1]"

definition primary_10 :: "InstrFormat list" where
  "primary_10 =
    [row ''callvm'' INMED FIXED_10 ''exec_instr_callvm'' D_jump,
     row ''jmp'' INMED FIXED_10 ''exec_instr_jmp'' D_jump,
     row ''push'' REG FIXED_2 ''exec_instr_push'' D_push_pop,
     row ''pop'' REG FIXED_2 ''exec_instr_pop'' D_push_pop,
     row ''xchg'' REG FIXED_4 ''exec_instr_xchg'' D_xchg,
     row ''jmpr'' REG FIXED_2 ''exec_instr_jmpr'' D_push_pop,
     row ''callvmr'' REG FIXED_2 ''exec_instr_callvmr'' D_push_pop,
     row_null '''' MODE_COUNT FIXED_1,
     row_null '''' MODE_COUNT FIXED_1,
     row_null '''' MODE_COUNT FIXED_1,
     row_null '''' MODE_COUNT FIXED_1,
     row_null '''' MODE_COUNT FIXED_1,
     row_null '''' MODE_COUNT FIXED_1,
     row_null '''' MODE_COUNT FIXED_1,
     row_null '''' MODE_COUNT FIXED_1,
     row_null '''' MODE_COUNT FIXED_1]"

definition primary_20 :: "InstrFormat list" where
  "primary_20 =
    [row_null '''' MODE_COUNT FIXED_1,
     row_null '''' MODE_COUNT FIXED_1,
     row_null '''' MODE_COUNT FIXED_1,
     row_null '''' MODE_COUNT FIXED_1,
     row_null '''' MODE_COUNT FIXED_1,
     row_null '''' MODE_COUNT FIXED_1,
     row_null '''' MODE_COUNT FIXED_1,
     row_null '''' MODE_COUNT FIXED_1,
     row ''enter'' INMED FIXED_10 ''exec_instr_enter'' D_jump,
     row ''leave'' MODE_NONE FIXED_1 ''exec_instr_leave'' D_no_operands,
     row_null '''' MODE_COUNT FIXED_1,
     row_null '''' MODE_COUNT FIXED_1,
     row_null '''' MODE_COUNT FIXED_1,
     row_null '''' MODE_COUNT FIXED_1,
     row_null '''' MODE_COUNT FIXED_1,
     row_null '''' MODE_COUNT FIXED_1]"

definition primary_30 :: "InstrFormat list" where
  "primary_30 =
    [row_null '''' MODE_COUNT FIXED_1,
     row_null '''' MODE_COUNT FIXED_1,
     row_null '''' MODE_COUNT FIXED_1,
     row_null ''nop1'' MODE_NONE FIXED_1,
     row_null '''' MODE_COUNT FIXED_1,
     row_null '''' MODE_COUNT FIXED_1,
     row_null '''' MODE_COUNT FIXED_1,
     row_null '''' MODE_COUNT FIXED_1,
     row_null '''' MODE_COUNT FIXED_1,
     row_null '''' MODE_COUNT FIXED_1,
     row_null '''' MODE_COUNT FIXED_1,
     row_null '''' MODE_COUNT FIXED_1,
     row_null '''' MODE_COUNT FIXED_1,
     row_null '''' MODE_COUNT FIXED_1,
     row_null '''' MODE_COUNT FIXED_1,
     row_null '''' MODE_COUNT FIXED_1]"

definition primary_40 :: "InstrFormat list" where
  "primary_40 =
    [row_null '''' MODE_COUNT FIXED_1,
     row_null '''' MODE_COUNT FIXED_1,
     row_null '''' MODE_COUNT FIXED_1,
     row_null '''' MODE_COUNT FIXED_1,
     row_null '''' MODE_COUNT FIXED_1,
     row_null '''' MODE_COUNT FIXED_1,
     row_null '''' MODE_COUNT FIXED_1,
     row_null '''' MODE_COUNT FIXED_1,
     row_null '''' MODE_COUNT FIXED_1,
     row_null '''' MODE_COUNT FIXED_1,
     row_null '''' MODE_COUNT FIXED_1,
     row_null '''' MODE_COUNT FIXED_1,
     row_null '''' MODE_COUNT FIXED_1,
     row_null '''' MODE_COUNT FIXED_1,
     row_null '''' MODE_COUNT FIXED_1,
     row_null '''' MODE_COUNT FIXED_1]"

definition primary_50 :: "InstrFormat list" where
  "primary_50 =
    [row_null '''' MODE_COUNT FIXED_1,
     row_null '''' MODE_COUNT FIXED_1,
     row_null '''' MODE_COUNT FIXED_1,
     row_null '''' MODE_COUNT FIXED_1,
     row_null '''' MODE_COUNT FIXED_1,
     row_null ''callnr'' REG FIXED_1,
     row_null '''' MODE_COUNT FIXED_1,
     row_null '''' MODE_COUNT FIXED_1,
     row_null '''' MODE_COUNT FIXED_1,
     row_null '''' MODE_COUNT FIXED_1,
     row_null '''' MODE_COUNT FIXED_1,
     row_null '''' MODE_COUNT FIXED_1,
     row_null '''' MODE_COUNT FIXED_1,
     row_null '''' MODE_COUNT FIXED_1,
     row_null '''' MODE_COUNT FIXED_1,
     row_null '''' MODE_COUNT FIXED_1]"

definition primary_60 :: "InstrFormat list" where
  "primary_60 =
    [row_null '''' MODE_COUNT FIXED_1,
     row_null '''' MODE_COUNT FIXED_1,
     row_null '''' MODE_COUNT FIXED_1,
     row_null '''' MODE_COUNT FIXED_1,
     row_null '''' MODE_COUNT FIXED_1,
     row_null '''' MODE_COUNT FIXED_1,
     row_null '''' MODE_COUNT FIXED_1,
     row_null '''' MODE_COUNT FIXED_1,
     row_null '''' MODE_COUNT FIXED_1,
     row_null '''' MODE_COUNT FIXED_1,
     row_null '''' MODE_COUNT FIXED_1,
     row_null '''' MODE_COUNT FIXED_1,
     row_null '''' MODE_COUNT FIXED_1,
     row_null '''' MODE_COUNT FIXED_1,
     row_null '''' MODE_COUNT FIXED_1,
     row_null '''' MODE_COUNT FIXED_1]"

definition primary_70 :: "InstrFormat list" where
  "primary_70 =
    [row_null '''' MODE_COUNT FIXED_1,
     row_null '''' MODE_COUNT FIXED_1,
     row_null '''' MODE_COUNT FIXED_1,
     row_null '''' MODE_COUNT FIXED_1,
     row_null '''' MODE_COUNT FIXED_1,
     row_null '''' MODE_COUNT FIXED_1,
     row_null '''' MODE_COUNT FIXED_1,
     row_null '''' MODE_COUNT FIXED_1,
     row_null '''' MODE_COUNT FIXED_1,
     row_null '''' MODE_COUNT FIXED_1,
     row_null '''' MODE_COUNT FIXED_1,
     row_null '''' MODE_COUNT FIXED_1,
     row_null '''' MODE_COUNT FIXED_1,
     row_null '''' MODE_COUNT FIXED_1,
     row_null '''' MODE_COUNT FIXED_1,
     row_null '''' MODE_COUNT FIXED_1]"

definition primary_80 :: "InstrFormat list" where
  "primary_80 =
    [row_null '''' MODE_COUNT FIXED_1,
     row_null '''' MODE_COUNT FIXED_1,
     row_null '''' MODE_COUNT FIXED_1,
     row_null '''' MODE_COUNT FIXED_1,
     row_null '''' MODE_COUNT FIXED_1,
     row_null '''' MODE_COUNT FIXED_1,
     row_null '''' MODE_COUNT FIXED_1,
     row_null '''' MODE_COUNT FIXED_1,
     row_null '''' MODE_COUNT FIXED_1,
     row_null '''' MODE_COUNT FIXED_1,
     row_null '''' MODE_COUNT FIXED_1,
     row_null '''' MODE_COUNT FIXED_1,
     row_null '''' MODE_COUNT FIXED_1,
     row_null '''' MODE_COUNT FIXED_1,
     row_null '''' MODE_COUNT FIXED_1,
     row_null '''' MODE_COUNT FIXED_1]"

definition primary_90 :: "InstrFormat list" where
  "primary_90 =
    [row_null '''' MODE_COUNT FIXED_1,
     row_null '''' MODE_COUNT FIXED_1,
     row_null '''' MODE_COUNT FIXED_1,
     row_null '''' MODE_COUNT FIXED_1,
     row_null '''' MODE_COUNT FIXED_1,
     row_null '''' MODE_COUNT FIXED_1,
     row_null '''' MODE_COUNT FIXED_1,
     row_null '''' MODE_COUNT FIXED_1,
     row_null '''' MODE_COUNT FIXED_1,
     row_null '''' MODE_COUNT FIXED_1,
     row_null '''' MODE_COUNT FIXED_1,
     row_null '''' MODE_COUNT FIXED_1,
     row_null '''' MODE_COUNT FIXED_1,
     row_null '''' MODE_COUNT FIXED_1,
     row_null '''' MODE_COUNT FIXED_1,
     row_null '''' MODE_COUNT FIXED_1]"

definition primary_A0 :: "InstrFormat list" where
  "primary_A0 =
    [row_null '''' MODE_COUNT FIXED_1,
     row_null '''' MODE_COUNT FIXED_1,
     row_null '''' MODE_COUNT FIXED_1,
     row_null '''' MODE_COUNT FIXED_1,
     row_null '''' MODE_COUNT FIXED_1,
     row_null '''' MODE_COUNT FIXED_1,
     row_null '''' MODE_COUNT FIXED_1,
     row_null '''' MODE_COUNT FIXED_1,
     row_null '''' MODE_COUNT FIXED_1,
     row_null '''' MODE_COUNT FIXED_1,
     row_null '''' MODE_COUNT FIXED_1,
     row_null '''' MODE_COUNT FIXED_1,
     row_null '''' MODE_COUNT FIXED_1,
     row_null '''' MODE_COUNT FIXED_1,
     row_null '''' MODE_COUNT FIXED_1,
     row_null '''' MODE_COUNT FIXED_1]"

definition primary_B0 :: "InstrFormat list" where
  "primary_B0 =
    [row_null '''' MODE_COUNT FIXED_1,
     row_null '''' MODE_COUNT FIXED_1,
     row_null '''' MODE_COUNT FIXED_1,
     row_null '''' MODE_COUNT FIXED_1,
     row_null '''' MODE_COUNT FIXED_1,
     row_null '''' MODE_COUNT FIXED_1,
     row_null '''' MODE_COUNT FIXED_1,
     row_null '''' MODE_COUNT FIXED_1,
     row_null '''' MODE_COUNT FIXED_1,
     row_null '''' MODE_COUNT FIXED_1,
     row_null '''' MODE_COUNT FIXED_1,
     row_null '''' MODE_COUNT FIXED_1,
     row_null '''' MODE_COUNT FIXED_1,
     row_null '''' MODE_COUNT FIXED_1,
     row_null '''' MODE_COUNT FIXED_1,
     row_null '''' MODE_COUNT FIXED_1]"

definition primary_C0 :: "InstrFormat list" where
  "primary_C0 =
    [row_null '''' MODE_COUNT FIXED_1,
     row_null '''' MODE_COUNT FIXED_1,
     row_null '''' MODE_COUNT FIXED_1,
     row ''ret'' MODE_NONE FIXED_1 ''exec_instr_ret'' D_no_operands,
     row_null '''' MODE_COUNT FIXED_1,
     row_null '''' MODE_COUNT FIXED_1,
     row_null '''' MODE_COUNT FIXED_1,
     row_null '''' MODE_COUNT FIXED_1,
     row_null '''' MODE_COUNT FIXED_1,
     row_null '''' MODE_COUNT FIXED_1,
     row_null '''' MODE_COUNT FIXED_1,
     row_null '''' MODE_COUNT FIXED_1,
     row_null '''' MODE_COUNT FIXED_1,
     row_null '''' MODE_COUNT FIXED_1,
     row_null '''' MODE_COUNT FIXED_1,
     row_null '''' MODE_COUNT FIXED_1]"

definition primary_D0 :: "InstrFormat list" where
  "primary_D0 =
    [row_null '''' MODE_COUNT FIXED_1,
     row_null '''' MODE_COUNT FIXED_1,
     row_null '''' MODE_COUNT FIXED_1,
     row_null '''' MODE_COUNT FIXED_1,
     row_null '''' MODE_COUNT FIXED_1,
     row_null '''' MODE_COUNT FIXED_1,
     row_null '''' MODE_COUNT FIXED_1,
     row_null '''' MODE_COUNT FIXED_1,
     row_null '''' MODE_COUNT FIXED_1,
     row_null '''' MODE_COUNT FIXED_1,
     row_null '''' MODE_COUNT FIXED_1,
     row_null '''' MODE_COUNT FIXED_1,
     row_null '''' MODE_COUNT FIXED_1,
     row_null '''' MODE_COUNT FIXED_1,
     row_null '''' MODE_COUNT FIXED_1,
     row_null '''' MODE_COUNT FIXED_1]"

definition primary_E0 :: "InstrFormat list" where
  "primary_E0 =
    [row_null '''' MODE_COUNT FIXED_1,
     row_null '''' MODE_COUNT FIXED_1,
     row_null '''' MODE_COUNT FIXED_1,
     row_null '''' MODE_COUNT FIXED_1,
     row_null '''' MODE_COUNT FIXED_1,
     row_null '''' MODE_COUNT FIXED_1,
     row_null '''' MODE_COUNT FIXED_1,
     row_null '''' MODE_COUNT FIXED_1,
     row_null '''' MODE_COUNT FIXED_1,
     row_null '''' MODE_COUNT FIXED_1,
     row_null '''' MODE_COUNT FIXED_1,
     row_null '''' MODE_COUNT FIXED_1,
     row_null '''' MODE_COUNT FIXED_1,
     row_null '''' MODE_COUNT FIXED_1,
     row_null '''' MODE_COUNT FIXED_1,
     row_null '''' MODE_COUNT FIXED_1]"

definition primary_F0 :: "InstrFormat list" where
  "primary_F0 =
    [row_null '''' MODE_COUNT FIXED_1,
     row_null '''' MODE_COUNT FIXED_1,
     row_null '''' MODE_COUNT FIXED_1,
     row_null '''' MODE_COUNT FIXED_1,
     row_null '''' MODE_COUNT FIXED_1,
     row_null '''' MODE_COUNT FIXED_1,
     row_null '''' MODE_COUNT FIXED_1,
     row_null '''' MODE_COUNT FIXED_1,
     row_null '''' MODE_COUNT FIXED_1,
     row_null '''' MODE_COUNT FIXED_1,
     row_null '''' MODE_COUNT FIXED_1,
     row_null '''' MODE_COUNT FIXED_1,
     row_null '''' MODE_COUNT FIXED_1,
     row_null '''' MODE_COUNT FIXED_1,
     row_null '''' MODE_COUNT FIXED_1,
     row_null '''' MODE_COUNT FIXED_1]"

definition decode_table_primary :: "InstrFormat list" where
  "decode_table_primary =
     primary_00 @ primary_10 @ primary_20 @ primary_30 @
     primary_40 @ primary_50 @ primary_60 @ primary_70 @
     primary_80 @ primary_90 @ primary_A0 @ primary_B0 @
     primary_C0 @ primary_D0 @ primary_E0 @ primary_F0"

section \<open>The extended table\<close>

definition extended_00 :: "InstrFormat list" where
  "extended_00 =
    [row_null ''edmw4'' MODE_NONE FIXED_4,
     row_null ''edmw6'' MODE_NONE FIXED_4,
     row_null ''edm'' MODE_NONE FIXED_2,
     row ''hlt'' MODE_NONE FIXED_2 ''exec_instr_hlt'' D_simple,
     row_null '''' MODE_COUNT FIXED_1,
     row ''add'' REG FIXED_4 ''exec_instr_add_reg'' D_two_op_reg,
     row ''add'' MEM MIXED_SIZE ''exec_instr_add_imm'' D_inmed_reg,
     row ''add'' SIB FIXED_6 ''exec_instr_add_sib'' D_sib,
     row ''sub'' REG FIXED_4 ''exec_instr_sub_reg'' D_two_op_reg,
     row ''sub'' MEM MIXED_SIZE ''exec_instr_sub_imm'' D_inmed_reg,
     row ''sub'' SIB FIXED_6 ''exec_instr_sub_sib'' D_sib,
     row ''mul'' REG FIXED_4 ''exec_instr_mul_reg'' D_two_op_reg,
     row ''mul'' MEM MIXED_SIZE ''exec_instr_mul_imm'' D_inmed_reg,
     row ''mul'' SIB FIXED_6 ''exec_instr_mul_sib'' D_sib,
     row ''div'' REG FIXED_4 ''exec_instr_div_reg'' D_two_op_reg,
     row ''div'' MEM MIXED_SIZE ''exec_instr_div_imm'' D_inmed_reg]"

definition extended_10 :: "InstrFormat list" where
  "extended_10 =
    [row ''div'' SIB FIXED_6 ''exec_instr_div_sib'' D_sib,
     row ''cmp'' REG FIXED_4 ''exec_instr_cmp_reg'' D_two_op_reg,
     row ''cmp'' MEM MIXED_SIZE ''exec_instr_cmp_imm'' D_inmed_reg,
     row ''cmp'' SIB FIXED_6 ''exec_instr_cmp_sib'' D_sib,
     row ''mov'' REG FIXED_4 ''exec_instr_mov_reg'' D_simple_mov,
     row ''mov'' MEM MIXED_SIZE ''exec_instr_inmed_mov'' D_inmed_mov,
     row ''mov'' SIB FIXED_6 ''exec_instr_mov_sib'' D_sib,
     row ''and'' REG FIXED_4 ''exec_instr_and_reg'' D_two_op_reg,
     row ''or'' REG FIXED_4 ''exec_instr_or_reg'' D_two_op_reg,
     row ''xor'' REG FIXED_4 ''exec_instr_xor_reg'' D_two_op_reg,
     row ''not'' REG FIXED_4 ''exec_instr_not_reg'' D_two_op_reg,
     row ''shl'' REG FIXED_4 ''exec_instr_shl_reg'' D_two_op_reg,
     row ''shr'' REG FIXED_4 ''exec_instr_shr_reg'' D_two_op_reg,
     row ''sar'' REG FIXED_4 ''exec_instr_sar_reg'' D_two_op_reg,
     row ''movc'' MEM FIXED_4 ''exec_instr_movc_mem'' D_movc,
     row ''movc'' REG FIXED_4 ''exec_instr_movc_reg'' D_movc]"

definition extended_20 :: "InstrFormat list" where
  "extended_20 =
    [row ''mkclosure'' REG FIXED_4 ''exec_instr_mkclosure'' D_two_op_reg,
     row ''callclosure'' REG FIXED_4 ''exec_instr_callclosure'' D_two_op_reg,
     row ''mkrawclosure'' REG FIXED_4 ''exec_instr_mkrawclosure'' D_two_op_reg,
     row ''callrawclosure'' REG FIXED_4 ''exec_instr_callrawclosure'' D_two_op_reg,
     row ''tailcall'' REG FIXED_4 ''exec_instr_tailcall'' D_two_op_reg,
     row ''isnull'' REG FIXED_4 ''exec_instr_isnull'' D_two_op_reg,
     row ''unwrap'' REG FIXED_4 ''exec_instr_unwrap'' D_two_op_reg,
     row ''jumptable'' REG FIXED_4 ''exec_instr_jumptable'' D_jumptable,
     row ''typeswitch'' REG FIXED_4 ''exec_instr_typeswitch'' D_jumptable,
     row ''future'' MODE_NONE FIXED_2 ''exec_instr_future'' D_no_operands,
     row ''await'' REG FIXED_4 ''exec_instr_await'' D_two_op_reg,
     row ''fulfill'' REG FIXED_4 ''exec_instr_fulfill'' D_two_op_reg,
     row ''reject'' REG FIXED_4 ''exec_instr_reject'' D_two_op_reg,
     row ''jrel'' INMED FIXED_8 ''exec_instr_jrel'' D_jrel,
     row ''subsp'' MEM MIXED_SIZE ''exec_instr_subsp'' D_inmed_reg,
     row ''addsp'' MEM MIXED_SIZE ''exec_instr_addsp'' D_inmed_reg]"

definition extended_30 :: "InstrFormat list" where
  "extended_30 =
    [row ''weakref'' REG FIXED_4 ''exec_instr_weakref'' D_two_op_reg,
     row_null ''loop'' INMED FIXED_8,
     row ''deref_weak'' REG FIXED_4 ''exec_instr_deref_weak'' D_two_op_reg,
     row_null ''nop2'' MODE_NONE FIXED_2,
     row ''free_weak'' REG FIXED_4 ''exec_instr_free_weak'' D_two_op_reg,
     row ''monenter'' REG FIXED_4 ''exec_instr_monenter'' D_two_op_reg,
     row ''monexit'' REG FIXED_4 ''exec_instr_monexit'' D_two_op_reg,
     row ''monwait'' REG FIXED_4 ''exec_instr_monwait'' D_two_op_reg,
     row ''monnoti'' REG FIXED_4 ''exec_instr_monnoti'' D_two_op_reg,
     row ''monnota'' REG FIXED_4 ''exec_instr_monnota'' D_two_op_reg,
     row ''specialize'' REG FIXED_4 ''exec_instr_specialize'' D_jumptable,
     row ''rspawn'' REG FIXED_4 ''exec_instr_rspawn'' D_two_op_reg,
     row ''msgsend'' REG FIXED_4 ''exec_instr_msgsend'' D_three_reg,
     row ''msgrecv'' REG FIXED_4 ''exec_instr_msgrecv'' D_two_op_reg,
     row ''memsync'' REG FIXED_4 ''exec_instr_memsync'' D_two_op_reg,
     row_null '''' MODE_COUNT FIXED_1]"

definition extended_40 :: "InstrFormat list" where
  "extended_40 =
    [row ''mod'' REG FIXED_4 ''exec_instr_mod_reg'' D_two_op_reg,
     row ''mod'' MEM MIXED_SIZE ''exec_instr_mod_imm'' D_inmed_reg,
     row ''mod'' SIB FIXED_6 ''exec_instr_mod_sib'' D_sib,
     row ''setcc'' REG FIXED_4 ''exec_instr_setcc'' D_raw_bytes,
     row ''tryenter'' REG FIXED_4 ''exec_instr_tryenter'' D_raw_bytes,
     row ''tryleave'' MODE_NONE FIXED_2 ''exec_instr_tryleave'' D_simple,
     row ''strmake'' REG FIXED_4 ''exec_instr_strmake'' D_raw_bytes,
     row ''strlen'' REG FIXED_4 ''exec_instr_strlen'' D_raw_bytes,
     row ''strcat'' REG FIXED_4 ''exec_instr_strcat'' D_raw_bytes,
     row ''strcmp'' REG FIXED_4 ''exec_instr_strcmp'' D_raw_bytes,
     row ''strconv'' REG FIXED_4 ''exec_instr_strconv'' D_raw_bytes,
     row ''strraw'' REG FIXED_4 ''exec_instr_strraw'' D_raw_bytes,
     row ''strslice'' REG FIXED_4 ''exec_instr_strslice'' D_raw_bytes,
     row ''strflat'' REG FIXED_4 ''exec_instr_strflat'' D_raw_bytes,
     row ''strhash'' REG FIXED_4 ''exec_instr_strhash'' D_raw_bytes,
     row ''strintern'' REG FIXED_4 ''exec_instr_strintern'' D_raw_bytes]"

definition extended_50 :: "InstrFormat list" where
  "extended_50 =
    [row ''strgetenc'' REG FIXED_4 ''exec_instr_strgetenc'' D_raw_bytes,
     row ''strgetbytes'' REG FIXED_4 ''exec_instr_strgetbytes'' D_raw_bytes,
     row ''strgetkind'' REG FIXED_4 ''exec_instr_strgetkind'' D_raw_bytes,
     row ''strreserve'' REG FIXED_4 ''exec_instr_strreserve'' D_raw_bytes,
     row ''strfinalize'' REG FIXED_4 ''exec_instr_strfinalize'' D_raw_bytes,
     row ''calln'' INMED FIXED_10 ''exec_instr_calln'' D_calln,
     row ''gchandle'' REG FIXED_4 ''exec_instr_gchandle'' D_two_op_reg,
     row ''getpid'' REG FIXED_4 ''exec_instr_getpid'' D_two_op_reg,
     row ''spawnon'' REG FIXED_4 ''exec_instr_spawn_on'' D_two_op_reg,
     row ''loadmod'' REG FIXED_4 ''exec_instr_loadmod'' D_two_op_reg,
     row ''panic'' REG FIXED_4 ''exec_instr_panic'' D_two_op_reg,
     row ''setmethdbg'' REG FIXED_4 ''exec_instr_setmethdbg'' D_two_op_reg,
     row ''fextend'' REG FIXED_4 ''exec_instr_fextend'' D_simple_mov,
     row ''fnarrow'' REG FIXED_4 ''exec_instr_fnarrow'' D_simple_mov,
     row ''strmake_h'' REG FIXED_4 ''exec_instr_strmake_h'' D_raw_bytes,
     row_null '''' MODE_COUNT FIXED_1]"

definition extended_60 :: "InstrFormat list" where
  "extended_60 =
    [row ''getstatic'' REG FIXED_8 ''exec_instr_getstatic'' D_static_offset,
     row ''setstatic'' REG FIXED_8 ''exec_instr_setstatic'' D_static_offset,
     row ''dlopen'' REG FIXED_4 ''exec_instr_dlopen'' D_dlopen_dlsym,
     row ''dlsym'' REG FIXED_4 ''exec_instr_dlsym'' D_dlopen_dlsym,
     row ''callni'' REG FIXED_4 ''exec_instr_callni'' D_callni,
     row ''gcallocp'' REG FIXED_4 ''exec_instr_gcallocp'' D_gcallocp,
     row ''spawnargs'' REG FIXED_4 ''exec_instr_spawnargs'' D_spawnargs,
     row ''fulfillhlt'' REG FIXED_4 ''exec_instr_fulfillhlt'' D_fulfillhlt,
     row ''cmpjmp'' REG FIXED_8 ''exec_instr_cmpjmp'' D_cmpjmp,
     row ''cmpjmpu'' REG FIXED_8 ''exec_instr_cmpjmpu'' D_cmpjmp,
     row ''decjnz'' REG FIXED_8 ''exec_instr_decjnz'' D_decjnz,
     row ''getargc'' REG FIXED_4 ''exec_instr_getargc'' D_two_op_reg,
     row ''getarg'' REG FIXED_4 ''exec_instr_getarg'' D_two_op_reg,
     row ''unloadmod'' REG FIXED_4 ''exec_instr_unloadmod'' D_two_op_reg,
     row ''getmethat'' REG FIXED_4 ''exec_instr_getmethat'' D_two_op_reg,
     row ''getfldat'' REG FIXED_4 ''exec_instr_getfldat'' D_two_op_reg]"

definition extended_70 :: "InstrFormat list" where
  "extended_70 =
    [row ''fastpush'' INMED FIXED_4 ''exec_instr_fastpush'' D_fastmask,
     row ''fastpop'' INMED FIXED_4 ''exec_instr_fastpop'' D_fastmask,
     row ''mvtake'' REG FIXED_4 ''exec_instr_mvtake'' D_two_op_reg,
     row ''adds3'' REG FIXED_4 ''exec_instr_alu3'' D_raw_bytes,
     row ''subs3'' REG FIXED_4 ''exec_instr_alu3'' D_raw_bytes,
     row ''muls3'' REG FIXED_4 ''exec_instr_alu3'' D_raw_bytes,
     row ''addu3'' REG FIXED_4 ''exec_instr_alu3'' D_raw_bytes,
     row ''subu3'' REG FIXED_4 ''exec_instr_alu3'' D_raw_bytes,
     row ''mulu3'' REG FIXED_4 ''exec_instr_alu3'' D_raw_bytes,
     row ''and3'' REG FIXED_4 ''exec_instr_alu3'' D_raw_bytes,
     row ''or3'' REG FIXED_4 ''exec_instr_alu3'' D_raw_bytes,
     row ''xor3'' REG FIXED_4 ''exec_instr_alu3'' D_raw_bytes,
     row ''loadz'' REG FIXED_4 ''exec_instr_loadz'' D_simple_mov,
     row ''loadzh'' REG FIXED_4 ''exec_instr_loadz'' D_simple_mov,
     row ''htrack'' REG FIXED_4 ''exec_instr_htrack'' D_two_op_reg,
     row_null '''' MODE_COUNT FIXED_1]"

definition extended_80 :: "InstrFormat list" where
  "extended_80 =
    [row ''fmin'' REG FIXED_4 ''exec_instr_fmin'' D_simple_mov,
     row ''fmax'' REG FIXED_4 ''exec_instr_fmax'' D_simple_mov,
     row ''ffloor'' REG FIXED_4 ''exec_instr_ffloor'' D_simple_mov,
     row ''fceil'' REG FIXED_4 ''exec_instr_fceil'' D_simple_mov,
     row ''fround'' REG FIXED_4 ''exec_instr_fround'' D_simple_mov,
     row ''ftrunc'' REG FIXED_4 ''exec_instr_ftrunc'' D_simple_mov,
     row ''bitg2z'' REG FIXED_4 ''exec_instr_bitg2z'' D_simple_mov,
     row ''bitz2g'' REG FIXED_4 ''exec_instr_bitz2g'' D_simple_mov,
     row_null '''' MODE_COUNT FIXED_1,
     row_null '''' MODE_COUNT FIXED_1,
     row_null '''' MODE_COUNT FIXED_1,
     row_null '''' MODE_COUNT FIXED_1,
     row_null '''' MODE_COUNT FIXED_1,
     row_null '''' MODE_COUNT FIXED_1,
     row_null '''' MODE_COUNT FIXED_1,
     row_null '''' MODE_COUNT FIXED_1]"

definition extended_90 :: "InstrFormat list" where
  "extended_90 =
    [row_null '''' MODE_COUNT FIXED_1,
     row_null '''' MODE_COUNT FIXED_1,
     row_null '''' MODE_COUNT FIXED_1,
     row_null '''' MODE_COUNT FIXED_1,
     row_null '''' MODE_COUNT FIXED_1,
     row_null '''' MODE_COUNT FIXED_1,
     row_null '''' MODE_COUNT FIXED_1,
     row_null '''' MODE_COUNT FIXED_1,
     row_null '''' MODE_COUNT FIXED_1,
     row_null '''' MODE_COUNT FIXED_1,
     row_null '''' MODE_COUNT FIXED_1,
     row_null '''' MODE_COUNT FIXED_1,
     row_null '''' MODE_COUNT FIXED_1,
     row_null '''' MODE_COUNT FIXED_1,
     row_null '''' MODE_COUNT FIXED_1,
     row_null '''' MODE_COUNT FIXED_1]"

definition extended_A0 :: "InstrFormat list" where
  "extended_A0 =
    [row ''newobj'' REG FIXED_4 ''exec_instr_newobj'' D_two_op_reg,
     row ''gcrun'' MODE_NONE FIXED_2 ''exec_instr_gcrun'' D_simple,
     row ''gcconfig'' REG FIXED_4 ''exec_instr_gcconfig'' D_two_op_reg,
     row ''drop'' REG FIXED_4 ''exec_instr_gc_drop'' D_two_op_reg,
     row ''gcwb'' REG FIXED_4 ''exec_instr_gcwb'' D_two_op_reg,
     row ''gcalloc'' REG FIXED_4 ''exec_instr_gcalloc'' D_two_op_reg,
     row ''newobjs'' REG FIXED_4 ''exec_instr_newobjs'' D_two_op_reg,
     row ''gcpromote'' REG FIXED_4 ''exec_instr_gcpromote'' D_two_op_reg,
     row ''gcdemote'' REG FIXED_4 ''exec_instr_gcdemote'' D_two_op_reg,
     row ''atomicld'' REG FIXED_4 ''exec_instr_atomicld'' D_two_op_reg,
     row ''atomicst'' REG FIXED_4 ''exec_instr_atomicst'' D_two_op_reg,
     row ''atomiccas'' REG FIXED_4 ''exec_instr_atomiccas'' D_four_reg,
     row ''atomicadd'' REG FIXED_4 ''exec_instr_atomicadd'' D_three_reg,
     row ''sharedstat'' REG FIXED_4 ''exec_instr_sharedstat'' D_two_op_reg,
     row_null '''' MODE_COUNT FIXED_1,
     row_null '''' MODE_COUNT FIXED_1]"

definition extended_B0 :: "InstrFormat list" where
  "extended_B0 =
    [row ''alloc'' REG FIXED_4 ''exec_instr_raw_alloc'' D_two_op_reg,
     row ''free'' REG FIXED_4 ''exec_instr_raw_free'' D_two_op_reg,
     row ''realloc'' REG FIXED_4 ''exec_instr_raw_realloc'' D_two_op_reg,
     row_null '''' MODE_COUNT FIXED_1,
     row_null '''' MODE_COUNT FIXED_1,
     row_null '''' MODE_COUNT FIXED_1,
     row_null '''' MODE_COUNT FIXED_1,
     row_null '''' MODE_COUNT FIXED_1,
     row_null '''' MODE_COUNT FIXED_1,
     row_null '''' MODE_COUNT FIXED_1,
     row_null '''' MODE_COUNT FIXED_1,
     row_null '''' MODE_COUNT FIXED_1,
     row_null '''' MODE_COUNT FIXED_1,
     row_null '''' MODE_COUNT FIXED_1,
     row_null '''' MODE_COUNT FIXED_1,
     row_null '''' MODE_COUNT FIXED_1]"

definition extended_C0 :: "InstrFormat list" where
  "extended_C0 =
    [row ''readcur'' REG FIXED_4 ''exec_instr_readcur'' D_cursor_rw,
     row ''writecur'' REG FIXED_4 ''exec_instr_writecur'' D_cursor_rw,
     row ''gcderef'' REG FIXED_4 ''exec_instr_gcderef'' D_cursor_rw,
     row ''addcur'' INMED FIXED_6 ''exec_instr_addcur'' D_addcur,
     row ''vmcopy'' REG FIXED_4 ''exec_instr_vmcopy'' D_vmcopy,
     row ''vcopyh'' REG FIXED_4 ''exec_instr_vcopyh'' D_vmcopy,
     row ''getproc'' REG FIXED_4 ''exec_instr_getproc'' D_two_op_reg,
     row ''getvm'' REG FIXED_4 ''exec_instr_getvm'' D_two_op_reg,
     row ''getmgr'' REG FIXED_4 ''exec_instr_getmgr'' D_two_op_reg,
     row ''defclass'' REG FIXED_4 ''exec_instr_defclass'' D_two_op_reg,
     row ''deffield'' REG FIXED_4 ''exec_instr_deffield'' D_two_op_reg,
     row ''defmethod'' REG FIXED_4 ''exec_instr_defmethod'' D_two_op_reg,
     row ''findclass'' REG FIXED_4 ''exec_instr_findclass'' D_two_op_reg,
     row ''findmethod'' REG FIXED_4 ''exec_instr_findmethod'' D_two_op_reg,
     row ''addadvice'' REG FIXED_4 ''exec_instr_addadvice'' D_raw_bytes,
     row ''findfield'' REG FIXED_4 ''exec_instr_findfield'' D_two_op_reg]"

definition extended_D0 :: "InstrFormat list" where
  "extended_D0 =
    [row ''newobjraw'' REG FIXED_4 ''exec_instr_newobjraw'' D_two_op_reg,
     row ''callvirt'' REG FIXED_4 ''exec_instr_callvirt'' D_oop_reg_imm8,
     row ''callsuper'' REG FIXED_4 ''exec_instr_callsuper'' D_oop_reg_imm8,
     row ''throw'' REG FIXED_4 ''exec_instr_throw'' D_two_op_reg,
     row ''rethrow'' MODE_NONE FIXED_2 ''exec_instr_rethrow'' D_simple,
     row ''getclass'' REG FIXED_4 ''exec_instr_getclass'' D_two_op_reg,
     row ''instanceof'' REG FIXED_4 ''exec_instr_instanceof'' D_two_op_reg,
     row ''checkcast'' REG FIXED_4 ''exec_instr_checkcast'' D_two_op_reg,
     row ''getfield'' REG FIXED_4 ''exec_instr_getfield'' D_oop_reg_imm8,
     row ''getmethod'' REG FIXED_4 ''exec_instr_getmethod'' D_oop_reg_imm8,
     row ''fieldcount'' REG FIXED_4 ''exec_instr_fieldcount'' D_two_op_reg,
     row ''methodcount'' REG FIXED_4 ''exec_instr_methodcount'' D_two_op_reg,
     row ''classname'' REG FIXED_4 ''exec_instr_classname'' D_two_op_reg,
     row ''classdoc'' REG FIXED_4 ''exec_instr_classdoc'' D_two_op_reg,
     row ''classattrcount'' REG FIXED_4 ''exec_instr_classattrcount'' D_two_op_reg,
     row ''classattrkey'' REG FIXED_4 ''exec_instr_classattrkey'' D_oop_reg_imm8]"

definition extended_E0 :: "InstrFormat list" where
  "extended_E0 =
    [row ''classattrval'' REG FIXED_4 ''exec_instr_classattrval'' D_oop_reg_imm8,
     row ''methodname'' REG FIXED_4 ''exec_instr_methodname'' D_two_op_reg,
     row ''methoddoc'' REG FIXED_4 ''exec_instr_methoddoc'' D_two_op_reg,
     row ''methoddesc'' REG FIXED_4 ''exec_instr_methoddesc'' D_two_op_reg,
     row ''methodattrcount'' REG FIXED_4 ''exec_instr_methodattrcount'' D_two_op_reg,
     row ''methodattrkey'' REG FIXED_4 ''exec_instr_methodattrkey'' D_oop_reg_imm8,
     row ''methodattrval'' REG FIXED_4 ''exec_instr_methodattrval'' D_oop_reg_imm8,
     row ''fieldname'' REG FIXED_4 ''exec_instr_fieldname'' D_two_op_reg,
     row ''fielddoc'' REG FIXED_4 ''exec_instr_fielddoc'' D_two_op_reg,
     row ''fieldattrcount'' REG FIXED_4 ''exec_instr_fieldattrcount'' D_two_op_reg,
     row ''fieldattrkey'' REG FIXED_4 ''exec_instr_fieldattrkey'' D_oop_reg_imm8,
     row ''fieldattrval'' REG FIXED_4 ''exec_instr_fieldattrval'' D_oop_reg_imm8,
     row ''yield'' MODE_NONE FIXED_2 ''exec_instr_yield'' D_simple,
     row ''resume'' REG FIXED_4 ''exec_instr_resume'' D_two_op_reg,
     row ''spawn'' REG FIXED_4 ''exec_instr_spawn'' D_two_op_reg,
     row ''swapctx'' REG FIXED_4 ''exec_instr_swapctx'' D_two_op_reg]"

definition extended_F0 :: "InstrFormat list" where
  "extended_F0 =
    [row ''fmov'' REG FIXED_4 ''exec_instr_fmov'' D_simple_mov,
     row ''fadd'' REG FIXED_4 ''exec_instr_fadd'' D_simple_mov,
     row ''fsub'' REG FIXED_4 ''exec_instr_fsub'' D_simple_mov,
     row ''fmul'' REG FIXED_4 ''exec_instr_fmul'' D_simple_mov,
     row ''fdiv'' REG FIXED_4 ''exec_instr_fdiv'' D_simple_mov,
     row ''fcmp'' REG FIXED_4 ''exec_instr_fcmp'' D_simple_mov,
     row ''fsqrt'' REG FIXED_4 ''exec_instr_fsqrt'' D_simple_mov,
     row ''fabs'' REG FIXED_4 ''exec_instr_fabs'' D_simple_mov,
     row ''fneg'' REG FIXED_4 ''exec_instr_fneg'' D_simple_mov,
     row ''fcvt'' REG FIXED_4 ''exec_instr_fcvt'' D_simple_mov,
     row ''fmowi'' INMED FIXED_11 ''exec_instr_fmovi'' D_fmowi,
     row ''fload'' REG FIXED_4 ''exec_instr_fload'' D_two_op_reg,
     row ''fstore'' REG FIXED_4 ''exec_instr_fstore'' D_two_op_reg,
     row ''callm'' REG FIXED_4 ''exec_instr_callm'' D_two_op_reg,
     row ''proceed'' MODE_NONE FIXED_2 ''exec_instr_proceed'' D_simple,
     row_null '''' MODE_COUNT FIXED_1]"

definition decode_table_extended :: "InstrFormat list" where
  "decode_table_extended =
     extended_00 @ extended_10 @ extended_20 @ extended_30 @
     extended_40 @ extended_50 @ extended_60 @ extended_70 @
     extended_80 @ extended_90 @ extended_A0 @ extended_B0 @
     extended_C0 @ extended_D0 @ extended_E0 @ extended_F0"

lemmas table_chunks =
  primary_00_def primary_10_def primary_20_def primary_30_def primary_40_def primary_50_def primary_60_def primary_70_def primary_80_def primary_90_def primary_A0_def primary_B0_def primary_C0_def primary_D0_def primary_E0_def primary_F0_def
  extended_00_def extended_10_def extended_20_def extended_30_def extended_40_def extended_50_def extended_60_def extended_70_def extended_80_def extended_90_def extended_A0_def extended_B0_def extended_C0_def extended_D0_def extended_E0_def extended_F0_def

end
