(* ===== verification/Vm_Process.thy ===== *)
theory Vm_Process
  imports Vm_Memory Vm_Alu Vm_Fsm Vm_Table
begin

text \<open>
  The state of a virtual process (\<^verbatim>\<open>include/runtime/proceso_runtime.h\<close>,
  \<^verbatim>\<open>include/runtime/vm_registers.h\<close>): registers, decoded instructions and their cache, exception
  and call frames, and the register accessors of \<^verbatim>\<open>include/runtime/exec_instruction.h\<close>.

  The vector registers, the identifiers, timers and statistics of a process, its heaps and the
  fields that only the compiled code reads are left out.
\<close>

section \<open>General registers\<close>

definition get_byte_lo :: "u64 \<Rightarrow> u8" where "get_byte_lo data = ucast (data AND 0xFF)"
definition get_byte_hi :: "u64 \<Rightarrow> u8" where "get_byte_hi data = ucast (drop_bit 8 data AND 0xFF)"
definition get_word_lo :: "u64 \<Rightarrow> u16" where "get_word_lo data = ucast (data AND 0xFFFF)"
definition get_word_hi :: "u64 \<Rightarrow> u16" where "get_word_hi data = ucast (drop_bit 48 data AND 0xFFFF)"
definition get_dword_lo :: "u64 \<Rightarrow> u32" where "get_dword_lo data = ucast (data AND 0xFFFFFFFF)"
definition get_dword_hi :: "u64 \<Rightarrow> u32" where "get_dword_hi data = ucast (drop_bit 32 data AND 0xFFFFFFFF)"

definition set_byte_lo :: "u8 \<Rightarrow> u64 \<Rightarrow> u64" where
  "set_byte_lo v data = (data AND NOT 0xFF) OR ucast v"
definition set_byte_hi :: "u8 \<Rightarrow> u64 \<Rightarrow> u64" where
  "set_byte_hi v data = (data AND NOT 0xFF00) OR push_bit 8 (ucast v)"
definition set_word_lo :: "u16 \<Rightarrow> u64 \<Rightarrow> u64" where
  "set_word_lo v data = (data AND NOT 0xFFFF) OR ucast v"
definition set_word_hi :: "u16 \<Rightarrow> u64 \<Rightarrow> u64" where
  "set_word_hi v data = (data AND NOT 0xFFFF000000000000) OR push_bit 48 (ucast v)"
definition set_dword_lo :: "u32 \<Rightarrow> u64 \<Rightarrow> u64" where
  "set_dword_lo v data = (data AND 0xFFFFFFFF00000000) OR ucast v"
definition set_dword_hi :: "u32 \<Rightarrow> u64 \<Rightarrow> u64" where
  "set_dword_hi v data = (data AND 0xFFFFFFFF) OR push_bit 32 (ucast v)"

text \<open>The choice by \<^verbatim>\<open>sizeof(T)\<close> that every typed register write repeats.\<close>

definition set_lo :: "'a::len word \<Rightarrow> u64 \<Rightarrow> u64" where
  "set_lo v data =
     (if LENGTH('a) = 8 then set_byte_lo (ucast v) data
      else if LENGTH('a) = 16 then set_word_lo (ucast v) data
      else if LENGTH('a) = 32 then set_dword_lo (ucast v) data
      else ucast v)"

record context_registers_vm =
  stack_pointer :: u64
  base_pointer :: u64
  rip :: u64
  flags :: RFlags
  regs :: "u64 list"
  cur :: "u64 list"

section \<open>Decoded instructions\<close>

text \<open>
  The operands are a union of 16 bytes, here the list of those bytes; the accessors read a
  member at its offset.
\<close>

record DecodedInstr =
  is_not_extended :: u8
  opcode_index :: u8
  signed_instruct :: bool
  i_mode :: u8
  did_jump :: bool
  blocking :: bool
  reg_ext :: bool
  direction :: bool
  size_instr :: u8
  data_instruction :: "u8 list"
  metadata :: "InstrFormat option"
  exec_cached :: "string option"
  i_pc :: u64

definition new_DecodedInstr :: DecodedInstr where
  "new_DecodedInstr = \<lparr>is_not_extended = 0, opcode_index = 0, signed_instruct = False, i_mode = 0,
     did_jump = False, blocking = False, reg_ext = False, direction = False, size_instr = 0,
     data_instruction = replicate 16 0, metadata = None, exec_cached = None, i_pc = 0\<rparr>"

definition reg1 :: "DecodedInstr \<Rightarrow> u8" where "reg1 d = data_instruction d ! 0"
definition reg2 :: "DecodedInstr \<Rightarrow> u8" where "reg2 d = data_instruction d ! 1"
definition ext_reg1 :: "DecodedInstr \<Rightarrow> u8" where "ext_reg1 d = data_instruction d ! 0 AND 0x3F"
definition ext_reg1_flags :: "DecodedInstr \<Rightarrow> bool" where "ext_reg1_flags d = bit (data_instruction d ! 0) 6"
definition ext_reg2 :: "DecodedInstr \<Rightarrow> u8" where "ext_reg2 d = data_instruction d ! 1 AND 0x3F"
definition ext_reg2_flags :: "DecodedInstr \<Rightarrow> bool" where "ext_reg2_flags d = bit (data_instruction d ! 1) 6"
definition inmmed :: "DecodedInstr \<Rightarrow> u64" where "inmmed d = le_word (take 8 (data_instruction d))"
definition imm_reg :: "DecodedInstr \<Rightarrow> u8" where "imm_reg d = data_instruction d ! 8"
definition reg_base :: "DecodedInstr \<Rightarrow> u8" where "reg_base d = data_instruction d ! 0"
definition reg_index :: "DecodedInstr \<Rightarrow> u8" where "reg_index d = data_instruction d ! 1"
definition reg_final :: "DecodedInstr \<Rightarrow> u8" where "reg_final d = data_instruction d ! 2"
definition mem_scale :: "DecodedInstr \<Rightarrow> u8" where "mem_scale d = data_instruction d ! 3"
definition sd_r0 :: "DecodedInstr \<Rightarrow> u8" where "sd_r0 d = data_instruction d ! 0"
definition sd_r1 :: "DecodedInstr \<Rightarrow> u8" where "sd_r1 d = data_instruction d ! 1"
definition sd_pad :: "DecodedInstr \<Rightarrow> u16" where "sd_pad d = le_word (take 2 (drop 2 (data_instruction d)))"
definition sd_offset :: "DecodedInstr \<Rightarrow> u32" where "sd_offset d = le_word (take 4 (drop 4 (data_instruction d)))"
definition md_mask :: "DecodedInstr \<Rightarrow> u16" where "md_mask d = le_word (take 2 (data_instruction d))"

text \<open>Writing the member at byte \<open>k\<close> of the union.\<close>

definition put_bytes :: "nat \<Rightarrow> u8 list \<Rightarrow> DecodedInstr \<Rightarrow> DecodedInstr" where
  "put_bytes k bs d =
     d\<lparr>data_instruction := take k (data_instruction d) @ bs @ drop (k + length bs) (data_instruction d)\<rparr>"

definition ICACHE_SIZE :: u32 where "ICACHE_SIZE = 1024"

definition icache_index :: "u64 \<Rightarrow> u32" where
  "icache_index pc = ucast (pc AND (ucast ICACHE_SIZE - 1))"

section \<open>Frames\<close>

text \<open>
  The exception table of a method, and the call frames of virtual dispatch, addressed by their
  place in the frame pool.  What a frame owns outside the virtual machine is left out.
\<close>

record HandlerException =
  start_pc :: u64
  end_pc :: u64
  h_handler_pc :: u64
  h_type :: u64

record MethodInfo =
  code_vaddr :: u64
  handlers :: "HandlerException list"

record FrameHeader =
  fh_prev :: u64
  fh_method :: "MethodInfo option"
  return_pc :: u64
  frame_base :: u64
  has_saved_regs :: bool
  saved_r1_r12 :: "u64 list"
  inject_r0_to_reg :: u8

record ExceptionFrame =
  ef_handler_pc :: u64
  ef_type :: u64
  saved_rsp :: u64
  saved_rbp :: u64
  saved_frame_stack :: u64
  saved_regs :: "u64 list"

datatype state_err_thread = THREAD_NO_ERROR | THREAD_UNKNOWN_ERROR | THREAD_SEGMENTATION_FAULT
  | THREAD_ILLEGAL_INSTRUCTION | THREAD_DIVISION_BY_ZERO | THREAD_STACK_OVERFLOW
  | THREAD_STACK_UNDERFLOW | THREAD_INVALID_SYSCALL | THREAD_NULL_POINTER

section \<open>The process\<close>

text \<open>
  The free list of exception frames only recycles their memory, so the stack of frames is a list.
  The frames of virtual calls live at addresses, because unwinding compares and reuses them.
\<close>

record ProcessVM =
  registers :: context_registers_vm
  vm_mem :: VirtualMemory
  stack_low_water :: u64
  reductions_remaining :: u64
  state :: vm_state
  err_thread :: state_err_thread
  icache :: "u32 \<Rightarrow> DecodedInstr"
  decoded_ptr :: "u32 option"
  frames :: "u64 \<Rightarrow> FrameHeader"
  frame_stack :: u64
  free_list_head :: u64
  exc_frame_stack :: "ExceptionFrame list"
  current_exception :: u64
  obj_class :: "u64 \<rightharpoonup> u64"
  fatal_slot :: u64
  fatal_kind :: u64
  fatal_pc :: u64
  loadmod_call_depth :: u32
  loadmod_r0_stack :: "u64 list"

definition upd_regs :: "(context_registers_vm \<Rightarrow> context_registers_vm) \<Rightarrow> ProcessVM \<Rightarrow> ProcessVM" where
  "upd_regs f p = p\<lparr>registers := f (registers p)\<rparr>"

text \<open>An index past the sixteen registers is outside their array.\<close>

definition reg :: "ProcessVM \<Rightarrow> u8 \<Rightarrow> u64 res" where
  "reg p r = (if unat r < 16 then Inr (regs (registers p) ! unat r) else Inl Undefined)"

definition set_reg :: "u8 \<Rightarrow> u64 \<Rightarrow> ProcessVM \<Rightarrow> ProcessVM res" where
  "set_reg r v p =
     (if unat r < 16 then Inr (upd_regs (\<lambda>c. c\<lparr>regs := (regs c)[unat r := v]\<rparr>) p) else Inl Undefined)"

definition upd_reg :: "u8 \<Rightarrow> (u64 \<Rightarrow> u64) \<Rightarrow> ProcessVM \<Rightarrow> ProcessVM res" where
  "upd_reg r f p = rbind (reg p r) (\<lambda>v. set_reg r (f v) p)"

definition set_flags :: "RFlags \<Rightarrow> ProcessVM \<Rightarrow> ProcessVM" where
  "set_flags f p = upd_regs (\<lambda>c. c\<lparr>flags := f\<rparr>) p"

definition set_rip :: "u64 \<Rightarrow> ProcessVM \<Rightarrow> ProcessVM" where
  "set_rip a p = upd_regs (\<lambda>c. c\<lparr>rip := a\<rparr>) p"

definition set_rsp :: "u64 \<Rightarrow> ProcessVM \<Rightarrow> ProcessVM" where
  "set_rsp a p = upd_regs (\<lambda>c. c\<lparr>stack_pointer := a\<rparr>) p"

definition set_rbp :: "u64 \<Rightarrow> ProcessVM \<Rightarrow> ProcessVM" where
  "set_rbp a p = upd_regs (\<lambda>c. c\<lparr>base_pointer := a\<rparr>) p"

abbreviation rsp :: "ProcessVM \<Rightarrow> u64" where "rsp p \<equiv> stack_pointer (registers p)"
abbreviation rbp :: "ProcessVM \<Rightarrow> u64" where "rbp p \<equiv> base_pointer (registers p)"
abbreviation pc_of :: "ProcessVM \<Rightarrow> u64" where "pc_of p \<equiv> rip (registers p)"

text \<open>A change of the entry of the instruction cache that is being executed.\<close>

definition upd_decoded :: "(DecodedInstr \<Rightarrow> DecodedInstr) \<Rightarrow> ProcessVM \<Rightarrow> ProcessVM res" where
  "upd_decoded f p =
     (case decoded_ptr p of None \<Rightarrow> Inl HostFault
      | Some i \<Rightarrow> Inr (p\<lparr>icache := (icache p)(i := f (icache p i))\<rparr>))"

definition mark_jump :: "ProcessVM \<Rightarrow> ProcessVM res" where
  "mark_jump = upd_decoded (\<lambda>d. d\<lparr>did_jump := True\<rparr>)"

text \<open>
  The event handler of the scheduler on its running process, for the events that instructions
  raise; the decoding action of the table belongs to another one.
\<close>

definition raise_event :: "vm_event \<Rightarrow> ProcessVM \<Rightarrow> ProcessVM" where
  "raise_event e p = p\<lparr>state := fsm_next (state p) e\<rparr>"

section \<open>Register accessors\<close>

definition read_reg8 :: "ProcessVM \<Rightarrow> u8 \<Rightarrow> u64 res" where
  "read_reg8 p r = rbind (reg p r) (\<lambda>v. Inr (ucast (get_byte_lo v)))"

definition read_reg16 :: "ProcessVM \<Rightarrow> u8 \<Rightarrow> u64 res" where
  "read_reg16 p r = rbind (reg p r) (\<lambda>v. Inr (ucast (get_word_lo v)))"

definition read_reg32 :: "ProcessVM \<Rightarrow> u8 \<Rightarrow> u64 res" where
  "read_reg32 p r = rbind (reg p r) (\<lambda>v. Inr (ucast (get_dword_lo v)))"

definition read_reg64 :: "ProcessVM \<Rightarrow> u8 \<Rightarrow> u64 res" where
  "read_reg64 p r = reg p r"

definition write_reg8 :: "u8 \<Rightarrow> u64 \<Rightarrow> ProcessVM \<Rightarrow> ProcessVM res" where
  "write_reg8 r v = upd_reg r (set_byte_lo (ucast v))"

definition write_reg16 :: "u8 \<Rightarrow> u64 \<Rightarrow> ProcessVM \<Rightarrow> ProcessVM res" where
  "write_reg16 r v = upd_reg r (set_word_lo (ucast v))"

definition write_reg32 :: "u8 \<Rightarrow> u64 \<Rightarrow> ProcessVM \<Rightarrow> ProcessVM res" where
  "write_reg32 r v = upd_reg r (set_dword_lo (ucast v))"

definition write_reg64 :: "u8 \<Rightarrow> u64 \<Rightarrow> ProcessVM \<Rightarrow> ProcessVM res" where
  "write_reg64 r v = set_reg r v"

definition read_reg_table :: "u8 \<Rightarrow> ProcessVM \<Rightarrow> u8 \<Rightarrow> u64 res" where
  "read_reg_table m = (if m = 0 then read_reg8 else if m = 1 then read_reg16
     else if m = 2 then read_reg32 else read_reg64)"

definition write_reg_table :: "u8 \<Rightarrow> u8 \<Rightarrow> u64 \<Rightarrow> ProcessVM \<Rightarrow> ProcessVM res" where
  "write_reg_table m = (if m = 0 then write_reg8 else if m = 1 then write_reg16
     else if m = 2 then write_reg32 else write_reg64)"

definition write_rip :: "u64 \<Rightarrow> ProcessVM \<Rightarrow> ProcessVM res" where
  "write_rip v p = mark_jump (set_rip v p)"

definition read_special :: "ProcessVM \<Rightarrow> u8 \<Rightarrow> u64" where
  "read_special p code =
     (if code \<ge> 12 \<or> 4 \<le> code \<and> code \<le> 7 then 0
      else if code \<le> 3 then cur (registers p) ! unat code
      else if code = 8 then pc_of p
      else if code = 9 then rbp p
      else if code = 10 then rsp p
      else flags (registers p))"

text \<open>
  \<^verbatim>\<open>write_special\<close> compares the code with the size of its table of twelve pointers in bytes, so
  that the codes 12 to 95 read past the end of the table.
\<close>

definition write_special :: "u8 \<Rightarrow> u64 \<Rightarrow> ProcessVM \<Rightarrow> ProcessVM res" where
  "write_special code v p =
     (if code \<ge> 96 \<or> 4 \<le> code \<and> code \<le> 7 then Inr p
      else if code \<ge> 12 then Inl Undefined
      else if code \<le> 3 then Inr (upd_regs (\<lambda>c. c\<lparr>cur := (cur c)[unat code := v]\<rparr>) p)
      else if code = 8 then write_rip v p
      else if code = 9 then Inr (set_rbp v p)
      else if code = 10 then Inr (set_rsp v p)
      else Inr (set_flags v p))"

definition mode_to_bytes :: "u8 \<Rightarrow> nat" where
  "mode_to_bytes m = 2 ^ unat m"

end
