(* ===== verification/Vm_Exc.thy ===== *)
theory Vm_Exc
  imports Vm_Process
begin

text \<open>
  Exceptions (\<^verbatim>\<open>src/runtime/exec_instruction_exc.cpp\<close>, \<^verbatim>\<open>do_throw\<close> of
  \<^verbatim>\<open>src/runtime/exec_instruction_oop.cpp\<close>, \<^verbatim>\<open>throw_fatal\<close> of \<^verbatim>\<open>src/runtime/exception_runtime.cpp\<close>):
  the handlers that \<^verbatim>\<open>tryenter\<close> installs, the exception tables of methods, the pool of call
  frames, and the conversion of fatal errors into exceptions.

  The debugger is absent, and the message and the trace of a fatal error are left out: they are
  never read back by the virtual machine.  \<open>Diverges\<close> stands for a loop over frames or classes
  that does not end.
\<close>

section \<open>Classes\<close>

text \<open>
  What the process shares with others: the class hierarchy, superclasses before interfaces, the
  class of fatal errors (null before it is registered) and the answer of \<^verbatim>\<open>calloc\<close> for the slot of
  a fatal error.
\<close>

record Runtime =
  class_supers :: "u64 \<Rightarrow> u64 list"
  class_interfaces :: "u64 \<Rightarrow> u64 list"
  g_fatal_error_class :: u64
  calloc_fatal_slot :: u64

text \<open>The recursion over superclasses and interfaces, with its stack of classes left to visit.\<close>

partial_function (option) is_instance_loop :: "Runtime \<Rightarrow> u64 \<Rightarrow> u64 list \<Rightarrow> bool option" where
  [code]: "is_instance_loop rt target todo =
     (case todo of [] \<Rightarrow> Some False
      | c # cs \<Rightarrow>
          if c = 0 then is_instance_loop rt target cs
          else if c = target then Some True
          else is_instance_loop rt target (class_supers rt c @ class_interfaces rt c @ cs))"

definition is_instance_of :: "Runtime \<Rightarrow> u64 \<Rightarrow> u64 \<Rightarrow> bool option" where
  "is_instance_of rt cls target =
     (if cls = 0 \<or> target = 0 then Some False else is_instance_loop rt target [cls])"

definition of_loop :: "'a option \<Rightarrow> 'a res" where
  "of_loop x = (case x of None \<Rightarrow> Inl Diverges | Some y \<Rightarrow> Inr y)"

section \<open>The pool of call frames\<close>

definition release :: "u64 \<Rightarrow> ProcessVM \<Rightarrow> ProcessVM" where
  "release f p =
     p\<lparr>frames := (frames p)(f := (frames p f)\<lparr>fh_prev := free_list_head p\<rparr>), free_list_head := f\<rparr>"

text \<open>An empty pool links a chunk of new frames, given by their addresses.\<close>

definition acquire :: "u64 list \<Rightarrow> ProcessVM \<Rightarrow> u64 \<times> ProcessVM" where
  "acquire chunk p =
     (let p1 = (if free_list_head p = 0 then fold release chunk p else p); f = free_list_head p1
      in (f, p1\<lparr>free_list_head := fh_prev (frames p1 f)\<rparr>))"

text \<open>\<^verbatim>\<open>while (frame_stack != nullptr && frame_stack != target)\<close> pop and release.\<close>

partial_function (option) unwind_to :: "u64 \<Rightarrow> ProcessVM \<Rightarrow> ProcessVM option" where
  [code]: "unwind_to target p =
     (if frame_stack p = 0 \<or> frame_stack p = target then Some p
      else unwind_to target
             (release (frame_stack p) (p\<lparr>frame_stack := fh_prev (frames p (frame_stack p))\<rparr>)))"

text \<open>The same walk with a local pointer, which leaves \<open>frame_stack\<close> alone.\<close>

partial_function (option) release_until :: "u64 \<Rightarrow> u64 \<Rightarrow> ProcessVM \<Rightarrow> ProcessVM option" where
  [code]: "release_until frame c p =
     (if c = 0 \<or> c = frame then Some p
      else release_until frame (fh_prev (frames p c)) (release c p))"

section \<open>Throwing\<close>

fun find_try_frame :: "Runtime \<Rightarrow> u64 \<Rightarrow> ExceptionFrame list \<Rightarrow>
    (ExceptionFrame \<times> ExceptionFrame list) option option" where
  "find_try_frame rt exc_class [] = Some None"
| "find_try_frame rt exc_class (ef # efs) =
     (if ef_type ef = 0 then Some (Some (ef, efs))
      else case is_instance_of rt exc_class (ef_type ef) of None \<Rightarrow> None
           | Some True \<Rightarrow> Some (Some (ef, efs))
           | Some False \<Rightarrow> find_try_frame rt exc_class efs)"

fun find_handler :: "Runtime \<Rightarrow> u64 \<Rightarrow> u64 \<Rightarrow> HandlerException list \<Rightarrow> HandlerException option option" where
  "find_handler rt exc_class off [] = Some None"
| "find_handler rt exc_class off (h # hs) =
     (if off < start_pc h \<or> off \<ge> end_pc h then find_handler rt exc_class off hs
      else if h_type h = 0 then Some (Some h)
      else case is_instance_of rt exc_class (h_type h) of None \<Rightarrow> None
           | Some True \<Rightarrow> Some (Some h)
           | Some False \<Rightarrow> find_handler rt exc_class off hs)"

text \<open>The landing at a handler of \<^verbatim>\<open>tryenter\<close>: stack, frames and registers as they were there.\<close>

definition land_try :: "ExceptionFrame \<Rightarrow> ExceptionFrame list \<Rightarrow> u64 \<Rightarrow> ProcessVM \<Rightarrow> ProcessVM res" where
  "land_try ef rest exc p =
     rbind (of_loop (unwind_to (saved_frame_stack ef)
              (set_rbp (saved_rbp ef) (set_rsp (saved_rsp ef) (p\<lparr>exc_frame_stack := rest\<rparr>)))))
       (\<lambda>p1. let p2 = upd_regs (\<lambda>c. c\<lparr>regs := take 1 (regs c) @ drop 1 (saved_regs ef)\<rparr>) p1
              in rbind (set_reg 0 exc p2) (\<lambda>p3. mark_jump (set_rip (ef_handler_pc ef) p3)))"

definition land_method :: "u64 \<Rightarrow> MethodInfo \<Rightarrow> HandlerException \<Rightarrow> u64 \<Rightarrow> ProcessVM \<Rightarrow> ProcessVM res" where
  "land_method frame m h exc p =
     rbind (of_loop (release_until frame (frame_stack p) p))
       (\<lambda>p1. rbind (set_reg 0 exc (p1\<lparr>frame_stack := frame\<rparr>))
          (\<lambda>p2. mark_jump (set_rip (code_vaddr m + h_handler_pc h) p2)))"

definition uncaught :: "ProcessVM \<Rightarrow> ProcessVM res" where
  "uncaught p = rbind (of_loop (unwind_to 0 p)) (\<lambda>p1. Inr (raise_event EVT_ERROR p1))"

partial_function (option) throw_frames ::
    "Runtime \<Rightarrow> u64 \<Rightarrow> u64 \<Rightarrow> u64 \<Rightarrow> ProcessVM \<Rightarrow> ProcessVM res option" where
  [code]: "throw_frames rt exc exc_class frame p =
     (if frame = 0 then Some (uncaught p)
      else case fh_method (frames p frame) of
             None \<Rightarrow> throw_frames rt exc exc_class (fh_prev (frames p frame)) p
           | Some m \<Rightarrow>
               (case find_handler rt exc_class (pc_of p - code_vaddr m) (handlers m) of
                  None \<Rightarrow> None
                | Some (Some h) \<Rightarrow> Some (land_method frame m h exc p)
                | Some None \<Rightarrow>
                    throw_frames rt exc exc_class (fh_prev (frames p frame)) (release frame p)))"

definition do_throw :: "Runtime \<Rightarrow> u64 \<Rightarrow> ProcessVM \<Rightarrow> ProcessVM res" where
  "do_throw rt exc p =
     (if exc = 0 then Inr (raise_event EVT_ERROR (p\<lparr>err_thread := THREAD_SEGMENTATION_FAULT\<rparr>))
      else case obj_class p exc of None \<Rightarrow> Inl HostFault
           | Some exc_class \<Rightarrow>
               let p1 = p\<lparr>current_exception := exc\<rparr>
               in rbind (of_loop (find_try_frame rt exc_class (exc_frame_stack p1)))
                    (\<lambda>found. case found of
                       Some (ef, rest) \<Rightarrow> land_try ef rest exc p1
                     | None \<Rightarrow> rbind (of_loop (throw_frames rt exc exc_class (frame_stack p1) p1)) (\<lambda>r. r)))"

section \<open>Fatal errors\<close>

definition FATAL_NULL_POINTER :: u32 where "FATAL_NULL_POINTER = 1"
definition FATAL_DIVISION_BY_ZERO :: u32 where "FATAL_DIVISION_BY_ZERO = 2"
definition FATAL_STACK_OVERFLOW :: u32 where "FATAL_STACK_OVERFLOW = 3"
definition FATAL_STACK_UNDERFLOW :: u32 where "FATAL_STACK_UNDERFLOW = 4"
definition FATAL_ILLEGAL_INSTRUCTION :: u32 where "FATAL_ILLEGAL_INSTRUCTION = 5"
definition FATAL_INVALID_SYSCALL :: u32 where "FATAL_INVALID_SYSCALL = 6"
definition FATAL_SEGMENTATION_FAULT :: u32 where "FATAL_SEGMENTATION_FAULT = 7"

definition fatal_to_thread_err :: "u32 \<Rightarrow> state_err_thread" where
  "fatal_to_thread_err kind =
     (if kind = FATAL_NULL_POINTER then THREAD_NULL_POINTER
      else if kind = FATAL_DIVISION_BY_ZERO then THREAD_DIVISION_BY_ZERO
      else if kind = FATAL_STACK_OVERFLOW then THREAD_STACK_OVERFLOW
      else if kind = FATAL_STACK_UNDERFLOW then THREAD_STACK_UNDERFLOW
      else if kind = FATAL_ILLEGAL_INSTRUCTION then THREAD_ILLEGAL_INSTRUCTION
      else if kind = FATAL_INVALID_SYSCALL then THREAD_INVALID_SYSCALL
      else THREAD_SEGMENTATION_FAULT)"

definition fatal_dies :: "u32 \<Rightarrow> ProcessVM \<Rightarrow> ProcessVM" where
  "fatal_dies kind p = raise_event EVT_ERROR (p\<lparr>err_thread := fatal_to_thread_err kind\<rparr>)"

definition ensure_fatal_buffers :: "Runtime \<Rightarrow> ProcessVM \<Rightarrow> ProcessVM" where
  "ensure_fatal_buffers rt p =
     (if fatal_slot p = 0 then p\<lparr>fatal_slot := calloc_fatal_slot rt\<rparr> else p)"

definition throw_fatal :: "Runtime \<Rightarrow> u32 \<Rightarrow> ProcessVM \<Rightarrow> ProcessVM res" where
  "throw_fatal rt kind p =
     (if exc_frame_stack p = [] \<or> g_fatal_error_class rt = 0 then Inr (fatal_dies kind p)
      else let p1 = ensure_fatal_buffers rt p
           in if fatal_slot p1 = 0 then Inr (fatal_dies kind p1)
              else do_throw rt (fatal_slot p1)
                     (p1\<lparr>obj_class := (obj_class p1)(fatal_slot p1 \<mapsto> g_fatal_error_class rt),
                         fatal_kind := ucast kind, fatal_pc := pc_of p1\<rparr>))"

section \<open>Instructions\<close>

definition hi_nibble :: "u8 \<Rightarrow> u8" where "hi_nibble b = drop_bit 4 b AND 0xF"
definition lo_nibble :: "u8 \<Rightarrow> u8" where "lo_nibble b = b AND 0xF"

definition exec_instr_tryenter :: "ProcessVM \<Rightarrow> DecodedInstr \<Rightarrow> ProcessVM res" where
  "exec_instr_tryenter p instr =
     rbind (reg p (hi_nibble (reg1 instr))) (\<lambda>handler_pc.
     rbind (reg p (lo_nibble (reg1 instr))) (\<lambda>class_ptr.
       let ef = \<lparr>ef_handler_pc = handler_pc, ef_type = class_ptr, saved_rsp = rsp p,
                 saved_rbp = rbp p, saved_frame_stack = frame_stack p, saved_regs = regs (registers p)\<rparr>
       in Inr (p\<lparr>exc_frame_stack := ef # exc_frame_stack p,
                 reductions_remaining :=
                   (if 1 < reductions_remaining p then 1 else reductions_remaining p)\<rparr>)))"

definition exec_instr_tryleave :: "ProcessVM \<Rightarrow> DecodedInstr \<Rightarrow> ProcessVM res" where
  "exec_instr_tryleave p instr =
     (case exc_frame_stack p of [] \<Rightarrow> Inr p | ef # rest \<Rightarrow> Inr (p\<lparr>exc_frame_stack := rest\<rparr>))"

definition exec_instr_throw :: "Runtime \<Rightarrow> ProcessVM \<Rightarrow> DecodedInstr \<Rightarrow> ProcessVM res" where
  "exec_instr_throw rt p instr = rbind (reg p (reg1 instr)) (\<lambda>exc. do_throw rt exc p)"

definition exec_instr_rethrow :: "Runtime \<Rightarrow> ProcessVM \<Rightarrow> DecodedInstr \<Rightarrow> ProcessVM res" where
  "exec_instr_rethrow rt p instr = do_throw rt (current_exception p) p"

end
