(* ===== verification/Vm_Exec.thy ===== *)
theory Vm_Exec
  imports Vm_Exc
begin

text \<open>
  The arithmetic, logic and data-movement instructions
  (\<^verbatim>\<open>src/runtime/exec_instruction_alu.cpp\<close>).  A template over the operand width \<^verbatim>\<open>T\<close> is a definition
  over the word length, a dispatch table over the mode is \<open>at_mode\<close>, and the macros that generate
  one handler per operation are definitions over the operation.  Statistics for the compiler are
  left out.
\<close>

section \<open>Arithmetic cores\<close>

definition at_mode :: "u8 \<Rightarrow> 'r \<Rightarrow> 'r \<Rightarrow> 'r \<Rightarrow> 'r \<Rightarrow> 'r" where
  "at_mode m r8 r16 r32 r64 = (if m = 0 then r8 else if m = 1 then r16 else if m = 2 then r32 else r64)"

text \<open>
  \<^verbatim>\<open>throw_fatal\<close> returns to its caller, so that a fatal division continues with the result zero.
\<close>

definition compute_with_flags ::
    "Runtime \<Rightarrow> alu_op \<Rightarrow> ProcessVM \<Rightarrow> 'a::len word \<Rightarrow> 'a word \<Rightarrow> bool \<Rightarrow> ('a word \<times> ProcessVM) res" where
  "compute_with_flags rt op p a b is_signed =
     (case alu_compute op (flags (registers p)) a b is_signed of
        Alu_ok res f \<Rightarrow> Inr (res, set_flags f p)
      | Alu_fatal \<Rightarrow> rbind (throw_fatal rt FATAL_DIVISION_BY_ZERO p) (\<lambda>p1. Inr (0, p1))
      | Alu_undef \<Rightarrow> Inl Undefined)"

definition alu_core ::
    "Runtime \<Rightarrow> alu_op \<Rightarrow> ProcessVM \<Rightarrow> 'a::len word \<Rightarrow> 'a word \<Rightarrow> bool \<Rightarrow> u8 \<Rightarrow> ProcessVM res" where
  "alu_core rt op p a b is_signed dst =
     rbind (compute_with_flags rt op p a b is_signed)
       (\<lambda>(result, p1). if is_compare op then Inr p1 else upd_reg dst (set_lo result) p1)"

definition alu_core_unary :: "unary_op \<Rightarrow> ProcessVM \<Rightarrow> 'a::len word \<Rightarrow> u8 \<Rightarrow> ProcessVM res" where
  "alu_core_unary op p a dst =
     (case alu_unary op (flags (registers p)) a of (result, f) \<Rightarrow> upd_reg dst (set_lo result) (set_flags f p))"

section \<open>Wrappers and dispatch tables\<close>

definition binary_wrapper ::
    "'a::len itself \<Rightarrow> Runtime \<Rightarrow> alu_op \<Rightarrow> ProcessVM \<Rightarrow> u64 \<Rightarrow> u64 \<Rightarrow> bool \<Rightarrow> u8 \<Rightarrow> ProcessVM res" where
  "binary_wrapper T rt op p dst src is_signed rdst =
     alu_core rt op p (ucast dst :: 'a word) (ucast src) is_signed rdst"

definition binary_table ::
    "u8 \<Rightarrow> Runtime \<Rightarrow> alu_op \<Rightarrow> ProcessVM \<Rightarrow> u64 \<Rightarrow> u64 \<Rightarrow> bool \<Rightarrow> u8 \<Rightarrow> ProcessVM res" where
  "binary_table m = at_mode m (binary_wrapper TYPE(8)) (binary_wrapper TYPE(16))
     (binary_wrapper TYPE(32)) (binary_wrapper TYPE(64))"

definition binary_imm_wrapper ::
    "'a::len itself \<Rightarrow> Runtime \<Rightarrow> alu_op \<Rightarrow> ProcessVM \<Rightarrow> u64 \<Rightarrow> u64 \<Rightarrow> bool \<Rightarrow> u8 \<Rightarrow> ProcessVM res" where
  "binary_imm_wrapper T rt op p dst imm is_signed rdst =
     alu_core rt op p (ucast dst :: 'a word) (ucast imm) is_signed rdst"

definition imm_table ::
    "u8 \<Rightarrow> Runtime \<Rightarrow> alu_op \<Rightarrow> ProcessVM \<Rightarrow> u64 \<Rightarrow> u64 \<Rightarrow> bool \<Rightarrow> u8 \<Rightarrow> ProcessVM res" where
  "imm_table m = at_mode m (binary_imm_wrapper TYPE(8)) (binary_imm_wrapper TYPE(16))
     (binary_imm_wrapper TYPE(32)) (binary_imm_wrapper TYPE(64))"

definition with_mem :: "ProcessVM \<Rightarrow> VirtualMemory \<Rightarrow> ProcessVM" where
  "with_mem p m = p\<lparr>vm_mem := m\<rparr>"

definition binary_mem_imm_wrapper ::
    "'a::len itself \<Rightarrow> Runtime \<Rightarrow> alu_op \<Rightarrow> ProcessVM \<Rightarrow> u64 \<Rightarrow> u64 \<Rightarrow> bool \<Rightarrow> ProcessVM res" where
  "binary_mem_imm_wrapper T rt op p addr imm is_signed =
     rbind (read_any (vm_mem p) addr) (\<lambda>(val :: 'a word, m).
     rbind (compute_with_flags rt op (with_mem p m) val (ucast imm) is_signed) (\<lambda>(res, p1).
       if is_compare op then Inr p1
       else rbind (write_any (vm_mem p1) addr res) (\<lambda>m1. Inr (with_mem p1 m1))))"

definition mem_imm_table ::
    "u8 \<Rightarrow> Runtime \<Rightarrow> alu_op \<Rightarrow> ProcessVM \<Rightarrow> u64 \<Rightarrow> u64 \<Rightarrow> bool \<Rightarrow> ProcessVM res" where
  "mem_imm_table m = at_mode m (binary_mem_imm_wrapper TYPE(8)) (binary_mem_imm_wrapper TYPE(16))
     (binary_mem_imm_wrapper TYPE(32)) (binary_mem_imm_wrapper TYPE(64))"

definition mov_wrapper :: "'a::len itself \<Rightarrow> ProcessVM \<Rightarrow> u64 \<Rightarrow> u8 \<Rightarrow> ProcessVM res" where
  "mov_wrapper T p src rdst = upd_reg rdst (set_lo (ucast src :: 'a word)) p"

definition mov_table :: "u8 \<Rightarrow> ProcessVM \<Rightarrow> u64 \<Rightarrow> u8 \<Rightarrow> ProcessVM res" where
  "mov_table m = at_mode m (mov_wrapper TYPE(8)) (mov_wrapper TYPE(16)) (mov_wrapper TYPE(32))
     (mov_wrapper TYPE(64))"

definition unary_wrapper :: "'a::len itself \<Rightarrow> unary_op \<Rightarrow> ProcessVM \<Rightarrow> u64 \<Rightarrow> u8 \<Rightarrow> ProcessVM res" where
  "unary_wrapper T op p dst rdst = alu_core_unary op p (ucast dst :: 'a word) rdst"

definition unary_table :: "u8 \<Rightarrow> unary_op \<Rightarrow> ProcessVM \<Rightarrow> u64 \<Rightarrow> u8 \<Rightarrow> ProcessVM res" where
  "unary_table m = at_mode m (unary_wrapper TYPE(8)) (unary_wrapper TYPE(16)) (unary_wrapper TYPE(32))
     (unary_wrapper TYPE(64))"

section \<open>Register and immediate forms\<close>

definition exec_imm :: "alu_op \<Rightarrow> Runtime \<Rightarrow> ProcessVM \<Rightarrow> DecodedInstr \<Rightarrow> ProcessVM res" where
  "exec_imm op rt p instr =
     (let rdst = imm_reg instr; imm = inmmed instr
      in rbind (reg p rdst) (\<lambda>dst.
           if \<not> direction instr
           then imm_table (i_mode instr) rt op p dst imm (signed_instruct instr) rdst
           else mem_imm_table (i_mode instr) rt op p dst imm (signed_instruct instr)))"

definition exec_reg :: "alu_op \<Rightarrow> Runtime \<Rightarrow> ProcessVM \<Rightarrow> DecodedInstr \<Rightarrow> ProcessVM res" where
  "exec_reg op rt p instr =
     (let rdst = reg1 instr; rsrc = reg2 instr
      in rbind (reg p rdst) (\<lambda>a. rbind (reg p rsrc) (\<lambda>b.
           binary_table (i_mode instr) rt op p a b (signed_instruct instr) rdst)))"

definition exec_reg_nosign :: "alu_op \<Rightarrow> Runtime \<Rightarrow> ProcessVM \<Rightarrow> DecodedInstr \<Rightarrow> ProcessVM res" where
  "exec_reg_nosign op rt p instr =
     (let rdst = reg1 instr; rsrc = reg2 instr
      in rbind (reg p rdst) (\<lambda>a. rbind (reg p rsrc) (\<lambda>b.
           binary_table (i_mode instr) rt op p a b False rdst)))"

definition exec_instr_add_imm where "exec_instr_add_imm = exec_imm AddOp"
definition exec_instr_sub_imm where "exec_instr_sub_imm = exec_imm SubOp"
definition exec_instr_mul_imm where "exec_instr_mul_imm = exec_imm MulOp"
definition exec_instr_div_imm where "exec_instr_div_imm = exec_imm DivOp"
definition exec_instr_cmp_imm where "exec_instr_cmp_imm = exec_imm CmpOp"
definition exec_instr_mod_imm where "exec_instr_mod_imm = exec_imm ModOp"
definition exec_instr_add_reg where "exec_instr_add_reg = exec_reg AddOp"
definition exec_instr_mul_reg where "exec_instr_mul_reg = exec_reg MulOp"
definition exec_instr_sub_reg where "exec_instr_sub_reg = exec_reg SubOp"
definition exec_instr_cmp_reg where "exec_instr_cmp_reg = exec_reg CmpOp"
definition exec_instr_div_reg where "exec_instr_div_reg = exec_reg DivOp"
definition exec_instr_mod_reg where "exec_instr_mod_reg = exec_reg ModOp"
definition exec_instr_and_reg where "exec_instr_and_reg = exec_reg_nosign AndOp"
definition exec_instr_or_reg where "exec_instr_or_reg = exec_reg_nosign OrOp"
definition exec_instr_xor_reg where "exec_instr_xor_reg = exec_reg_nosign XorOp"
definition exec_instr_shl_reg where "exec_instr_shl_reg = exec_reg_nosign ShlOp"
definition exec_instr_shr_reg where "exec_instr_shr_reg = exec_reg_nosign ShrOp"
definition exec_instr_sar_reg where "exec_instr_sar_reg = exec_reg_nosign SarOp"

definition exec_instr_mov_reg :: "ProcessVM \<Rightarrow> DecodedInstr \<Rightarrow> ProcessVM res" where
  "exec_instr_mov_reg p instr =
     (let m = i_mode instr; r1 = reg1 instr; r2 = reg2 instr
      in if \<not> signed_instruct instr
         then rbind (reg p r1) (\<lambda>_. rbind (reg p r2) (\<lambda>src. mov_table m p src r1))
         else let special = r2 AND 0xF
              in if \<not> direction instr
                 then rbind (reg p r1) (\<lambda>v. write_special special v p)
                 else mov_table m p (read_special p special) r1)"

definition exec_instr_not_reg :: "ProcessVM \<Rightarrow> DecodedInstr \<Rightarrow> ProcessVM res" where
  "exec_instr_not_reg p instr =
     rbind (reg p (reg1 instr)) (\<lambda>v. unary_table (i_mode instr) NotOp p v (reg1 instr))"

definition exec_instr_inc_dec_reg :: "ProcessVM \<Rightarrow> DecodedInstr \<Rightarrow> ProcessVM res" where
  "exec_instr_inc_dec_reg p instr =
     rbind (reg p (reg1 instr)) (\<lambda>v.
       unary_table (i_mode instr) (if \<not> signed_instruct instr then IncOp else DecOp) p v (reg1 instr))"

section \<open>Memory forms\<close>

definition sib_effective_addr :: "ProcessVM \<Rightarrow> DecodedInstr \<Rightarrow> u64 res" where
  "sib_effective_addr p instr =
     rbind (reg p (reg_base instr)) (\<lambda>base.
       if drop_bit 2 (mem_scale instr) AND 1 = 0 then Inr base
       else rbind (reg p (reg_index instr)) (\<lambda>idx.
              Inr (base + push_bit (unat (mem_scale instr AND 0x3)) idx)))"

definition sib_reg_dst_wrapper ::
    "'a::len itself \<Rightarrow> Runtime \<Rightarrow> alu_op \<Rightarrow> ProcessVM \<Rightarrow> u64 \<Rightarrow> u64 \<Rightarrow> bool \<Rightarrow> u8 \<Rightarrow> ProcessVM res" where
  "sib_reg_dst_wrapper T rt op p addr dst_val is_signed dst_reg =
     rbind (read_any (vm_mem p) addr) (\<lambda>(src :: 'a word, m).
       alu_core rt op (with_mem p m) (ucast dst_val) src is_signed dst_reg)"

definition sib_mem_dst_wrapper ::
    "'a::len itself \<Rightarrow> Runtime \<Rightarrow> alu_op \<Rightarrow> ProcessVM \<Rightarrow> u64 \<Rightarrow> u64 \<Rightarrow> bool \<Rightarrow> ProcessVM res" where
  "sib_mem_dst_wrapper T rt op p addr reg_val is_signed =
     rbind (read_any (vm_mem p) addr) (\<lambda>(mem_val :: 'a word, m).
     rbind (compute_with_flags rt op (with_mem p m) mem_val (ucast reg_val) is_signed) (\<lambda>(res, p1).
       if is_compare op then Inr p1
       else rbind (write_any (vm_mem p1) addr res) (\<lambda>m1. Inr (with_mem p1 m1))))"

definition exec_sib_generic :: "alu_op \<Rightarrow> Runtime \<Rightarrow> ProcessVM \<Rightarrow> DecodedInstr \<Rightarrow> ProcessVM res" where
  "exec_sib_generic op rt p instr =
     (let dst = reg_final instr; m = i_mode instr; s = signed_instruct instr
      in rbind (sib_effective_addr p instr) (\<lambda>addr. rbind (reg p dst) (\<lambda>rval.
           if \<not> direction instr
           then at_mode m (sib_reg_dst_wrapper TYPE(8)) (sib_reg_dst_wrapper TYPE(16))
                  (sib_reg_dst_wrapper TYPE(32)) (sib_reg_dst_wrapper TYPE(64)) rt op p addr rval s dst
           else at_mode m (sib_mem_dst_wrapper TYPE(8)) (sib_mem_dst_wrapper TYPE(16))
                  (sib_mem_dst_wrapper TYPE(32)) (sib_mem_dst_wrapper TYPE(64)) rt op p addr rval s)))"

definition exec_instr_add_sib where "exec_instr_add_sib = exec_sib_generic AddOp"
definition exec_instr_sub_sib where "exec_instr_sub_sib = exec_sib_generic SubOp"
definition exec_instr_mul_sib where "exec_instr_mul_sib = exec_sib_generic MulOp"
definition exec_instr_div_sib where "exec_instr_div_sib = exec_sib_generic DivOp"
definition exec_instr_cmp_sib where "exec_instr_cmp_sib = exec_sib_generic CmpOp"
definition exec_instr_mod_sib where "exec_instr_mod_sib = exec_sib_generic ModOp"

definition sib_mov_to_reg :: "'a::len itself \<Rightarrow> ProcessVM \<Rightarrow> u64 \<Rightarrow> u8 \<Rightarrow> ProcessVM res" where
  "sib_mov_to_reg T p addr dst_reg =
     rbind (read_any (vm_mem p) addr) (\<lambda>(val :: 'a word, m). upd_reg dst_reg (set_lo val) (with_mem p m))"

definition sib_mov_to_mem :: "'a::len itself \<Rightarrow> ProcessVM \<Rightarrow> u64 \<Rightarrow> u64 \<Rightarrow> ProcessVM res" where
  "sib_mov_to_mem T p addr reg_val =
     rbind (write_any (vm_mem p) addr (ucast reg_val :: 'a word)) (\<lambda>m. Inr (with_mem p m))"

text \<open>Accesses of host memory by a native pointer.\<close>

definition host_load :: "'a::len itself \<Rightarrow> ProcessVM \<Rightarrow> u64 \<Rightarrow> 'a word res" where
  "host_load T p addr =
     rbind (of_host (host_read (vm_host (vm_mem p)) addr (LENGTH('a) div 8))) (\<lambda>bs. Inr (le_word bs))"

definition host_store :: "ProcessVM \<Rightarrow> u64 \<Rightarrow> 'a::len word \<Rightarrow> ProcessVM res" where
  "host_store p addr v =
     rbind (of_host (host_write (vm_host (vm_mem p)) addr (le_bytes (LENGTH('a) div 8) v)))
       (\<lambda>h. Inr (with_mem p ((vm_mem p)\<lparr>vm_host := h\<rparr>)))"

definition movh_to_reg :: "'a::len itself \<Rightarrow> ProcessVM \<Rightarrow> u64 \<Rightarrow> u8 \<Rightarrow> ProcessVM res" where
  "movh_to_reg T p addr dst_reg =
     rbind (host_load T p addr) (\<lambda>val :: 'a word. upd_reg dst_reg (set_lo val) p)"

definition movh_to_mem :: "'a::len itself \<Rightarrow> ProcessVM \<Rightarrow> u64 \<Rightarrow> u64 \<Rightarrow> ProcessVM res" where
  "movh_to_mem T p addr reg_val = host_store p addr (ucast reg_val :: 'a word)"

definition exec_instr_mov_sib :: "ProcessVM \<Rightarrow> DecodedInstr \<Rightarrow> ProcessVM res" where
  "exec_instr_mov_sib p instr =
     (let dst = reg_final instr; m = i_mode instr
      in rbind (sib_effective_addr p instr) (\<lambda>addr. rbind (reg p dst) (\<lambda>rval.
           if \<not> signed_instruct instr then
             if \<not> direction instr
             then at_mode m (sib_mov_to_reg TYPE(8)) (sib_mov_to_reg TYPE(16)) (sib_mov_to_reg TYPE(32))
                    (sib_mov_to_reg TYPE(64)) p addr dst
             else at_mode m (sib_mov_to_mem TYPE(8)) (sib_mov_to_mem TYPE(16)) (sib_mov_to_mem TYPE(32))
                    (sib_mov_to_mem TYPE(64)) p addr rval
           else
             if \<not> direction instr
             then at_mode m (movh_to_reg TYPE(8)) (movh_to_reg TYPE(16)) (movh_to_reg TYPE(32))
                    (movh_to_reg TYPE(64)) p addr dst
             else at_mode m (movh_to_mem TYPE(8)) (movh_to_mem TYPE(16)) (movh_to_mem TYPE(32))
                    (movh_to_mem TYPE(64)) p addr rval)))"

section \<open>Conditional moves and setcc\<close>

definition exec_instr_movc_mem :: "ProcessVM \<Rightarrow> DecodedInstr \<Rightarrow> ProcessVM res" where
  "exec_instr_movc_mem p instr =
     (let flag_code = reg2 instr; r1 = reg1 instr; r2 = imm_reg instr; dir = direction instr
      in if \<not> read_flag (flags (registers p)) flag_code then Inr p
         else rbind (reg p (if dir then r1 else r2)) (\<lambda>addr.
              rbind (reg p (if dir then r2 else r1)) (\<lambda>val.
                if \<not> signed_instruct instr then
                  if \<not> dir
                  then rbind (read_u64 (vm_mem p) addr) (\<lambda>(v, m). set_reg r1 v (with_mem p m))
                  else rbind (write_u64 (vm_mem p) addr val) (\<lambda>m. Inr (with_mem p m))
                else
                  if \<not> dir
                  then rbind (host_load TYPE(64) p addr) (\<lambda>v. set_reg r1 v p)
                  else host_store p addr val)))"

definition exec_instr_movc_reg :: "ProcessVM \<Rightarrow> DecodedInstr \<Rightarrow> ProcessVM res" where
  "exec_instr_movc_reg p instr =
     (if \<not> read_flag (flags (registers p)) (reg2 instr) then Inr p
      else rbind (reg p (imm_reg instr)) (\<lambda>v.
           rbind (reg p (reg1 instr)) (\<lambda>_. mov_table (i_mode instr) p v (reg1 instr))))"

definition exec_instr_setcc :: "ProcessVM \<Rightarrow> DecodedInstr \<Rightarrow> ProcessVM res" where
  "exec_instr_setcc p instr =
     (let cond = hi_nibble (reg1 instr); dst_reg = lo_nibble (reg1 instr)
      in set_reg dst_reg (if setcc_cond cond (flags (registers p)) then 1 else 0) p)"

section \<open>Fused compare and jump\<close>

definition cmpjmp_set_flags :: "Runtime \<Rightarrow> ProcessVM \<Rightarrow> u64 \<Rightarrow> u64 \<Rightarrow> bool \<Rightarrow> ProcessVM res" where
  "cmpjmp_set_flags rt p a b is_signed =
     rbind (compute_with_flags rt CmpOp p a b is_signed) (\<lambda>(_, p1). Inr p1)"

definition cmpjmp :: "bool \<Rightarrow> Runtime \<Rightarrow> ProcessVM \<Rightarrow> DecodedInstr \<Rightarrow> ProcessVM res" where
  "cmpjmp is_signed rt p instr =
     rbind (reg p (sd_r0 instr)) (\<lambda>a. rbind (reg p (sd_r1 instr)) (\<lambda>b.
     rbind (cmpjmp_set_flags rt p a b is_signed) (\<lambda>p1.
       if eval_jmp_cond (ucast (sd_pad instr)) (flags (registers p1))
       then write_rip (ucast (sd_offset instr)) p1 else Inr p1)))"

definition exec_instr_cmpjmp where "exec_instr_cmpjmp = cmpjmp True"
definition exec_instr_cmpjmpu where "exec_instr_cmpjmpu = cmpjmp False"

definition exec_instr_decjnz :: "Runtime \<Rightarrow> ProcessVM \<Rightarrow> DecodedInstr \<Rightarrow> ProcessVM res" where
  "exec_instr_decjnz rt p instr =
     rbind (reg p (sd_r0 instr)) (\<lambda>old_val.
     rbind (compute_with_flags rt SubOp p old_val 1 True) (\<lambda>(new_val, p1).
     rbind (set_reg (sd_r0 instr) new_val p1) (\<lambda>p2.
       if new_val \<noteq> 0 then write_rip (ucast (sd_offset instr)) p2 else Inr p2)))"

section \<open>Three-operand arithmetic\<close>

definition neg64 :: "u64 \<Rightarrow> bool" where "neg64 x \<longleftrightarrow> sint x < 0"

text \<open>
  The result and the flags of the switch over the opcode; a signed product outside the range of
  \<^verbatim>\<open>int64_t\<close> is undefined, and another opcode has no case.
\<close>

definition alu3_flags :: "u64 \<Rightarrow> bool \<Rightarrow> bool \<Rightarrow> RFlags \<Rightarrow> RFlags" where
  "alu3_flags res cf ov f = set_OF ov (set_CF cf (set_SF (neg64 res) (set_ZF (res = 0) f)))"

definition alu3_result :: "u8 \<Rightarrow> u64 \<Rightarrow> u64 \<Rightarrow> RFlags \<Rightarrow> (u64 \<times> RFlags) option res" where
  "alu3_result opc a b f =
     (if opc = 0x73 then let res = a + b
        in Inr (Some (res, alu3_flags res False (neg64 ((a XOR res) AND (b XOR res))) f))
      else if opc = 0x76 then let res = a + b in Inr (Some (res, alu3_flags res (res < a) False f))
      else if opc = 0x74 then let res = a - b
        in Inr (Some (res, alu3_flags res False (neg64 ((a XOR b) AND (a XOR res))) f))
      else if opc = 0x77 then let res = a - b in Inr (Some (res, alu3_flags res (a < b) False f))
      else if opc = 0x75 then
        if sint a * sint b < S_MIN TYPE(64) \<or> sint a * sint b > S_MAX TYPE(64) then Inl Undefined
        else let res = word_of_int (sint a * sint b) in Inr (Some (res, alu3_flags res False False f))
      else if opc = 0x78 then let res = a * b in Inr (Some (res, alu3_flags res False False f))
      else if opc = 0x79 then let res = a AND b in Inr (Some (res, alu3_flags res False False f))
      else if opc = 0x7A then let res = a OR b in Inr (Some (res, alu3_flags res False False f))
      else if opc = 0x7B then let res = a XOR b in Inr (Some (res, alu3_flags res False False f))
      else Inr None)"

definition exec_instr_alu3 :: "ProcessVM \<Rightarrow> DecodedInstr \<Rightarrow> ProcessVM res" where
  "exec_instr_alu3 p instr =
     (let b2 = reg1 instr; b3 = reg2 instr; r_dst = lo_nibble b2;
          r_src1 = hi_nibble b2; r_src2 = hi_nibble b3
      in rbind (reg p r_src1) (\<lambda>a. rbind (reg p r_src2) (\<lambda>b.
         rbind (alu3_result (opcode_index instr) a b (flags (registers p))) (\<lambda>out.
           case out of None \<Rightarrow> Inr p
           | Some (res, f) \<Rightarrow> rbind (set_reg r_dst res p) (\<lambda>p1. Inr (set_flags f p1))))))"

section \<open>Loads with zero extension\<close>

definition load_host :: "u8 \<Rightarrow> ProcessVM \<Rightarrow> u64 \<Rightarrow> u64 res" where
  "load_host m p addr =
     (if m = 0 then rbind (host_load TYPE(8) p addr) (\<lambda>v. Inr (ucast v))
      else if m = 1 then rbind (host_load TYPE(16) p addr) (\<lambda>v. Inr (ucast v))
      else if m = 2 then rbind (host_load TYPE(32) p addr) (\<lambda>v. Inr (ucast v))
      else host_load TYPE(64) p addr)"

definition load_vm :: "u8 \<Rightarrow> ProcessVM \<Rightarrow> u64 \<Rightarrow> (u64 \<times> VirtualMemory) res" where
  "load_vm m p addr =
     (if m = 0 then rbind (read_u8 (vm_mem p) addr) (\<lambda>(v, mem). Inr (ucast v, mem))
      else if m = 1 then rbind (read_u16 (vm_mem p) addr) (\<lambda>(v, mem). Inr (ucast v, mem))
      else if m = 2 then rbind (read_u32 (vm_mem p) addr) (\<lambda>(v, mem). Inr (ucast v, mem))
      else read_u64 (vm_mem p) addr)"

definition exec_instr_loadz :: "ProcessVM \<Rightarrow> DecodedInstr \<Rightarrow> ProcessVM res" where
  "exec_instr_loadz p instr =
     rbind (reg p (reg2 instr)) (\<lambda>addr.
       if signed_instruct instr
       then rbind (load_host (i_mode instr) p addr) (\<lambda>v. set_reg (reg1 instr) v p)
       else rbind (load_vm (i_mode instr) p addr) (\<lambda>(v, m). set_reg (reg1 instr) v (with_mem p m)))"

end
