(* ===== verification/Vm_Stack.thy ===== *)
theory Vm_Stack
  imports Vm_Exec
begin

text \<open>
  The stack, call and jump instructions (\<^verbatim>\<open>src/runtime/exec_instruction.cpp\<close>,
  \<^verbatim>\<open>exec_instruction_spimm.cpp\<close>, \<^verbatim>\<open>exec_instruction_pattern.cpp\<close>, and the masked pushes of
  \<^verbatim>\<open>exec_instruction_alu.cpp\<close>), with the just-in-time compiler switched off
  (\<^verbatim>\<open>g_pc_jit_active\<close> false and \<^verbatim>\<open>g_jit_threshold\<close> at its maximum), as without its option.
\<close>

section \<open>Push, pop, move and exchange\<close>

definition exec_instr_push :: "ProcessVM \<Rightarrow> DecodedInstr \<Rightarrow> ProcessVM res" where
  "exec_instr_push p instr =
     (let reg_code = reg1 instr; m = i_mode instr
      in rbind (if reg_ext instr then Inr (read_special p reg_code, 8)
                else rbind (read_reg_table m p reg_code) (\<lambda>v. Inr (v, mode_to_bytes m)))
           (\<lambda>(v, sz). let p1 = set_rsp (rsp p - of_nat sz) p
              in rbind (write_bytes (vm_mem p1) (rsp p1) (take sz (le_bytes 8 v)))
                   (\<lambda>m1. Inr (with_mem p1 m1))))"

definition exec_instr_pop :: "ProcessVM \<Rightarrow> DecodedInstr \<Rightarrow> ProcessVM res" where
  "exec_instr_pop p instr =
     (let reg_code = reg1 instr; sz = (if reg_ext instr then 8 else mode_to_bytes (i_mode instr))
      in rbind (read_bytes (vm_mem p) (rsp p) sz) (\<lambda>(bs, m).
           let v = le_word bs; p1 = set_rsp (rsp p + of_nat sz) (with_mem p m)
           in if reg_ext instr then write_special reg_code v p1
              else write_reg_table (i_mode instr) reg_code v p1))"

definition exec_instr_inmed_mov :: "ProcessVM \<Rightarrow> DecodedInstr \<Rightarrow> ProcessVM res" where
  "exec_instr_inmed_mov p instr =
     (let rdst = imm_reg instr; imm = inmmed instr
      in if direction instr \<and> signed_instruct instr then write_special rdst imm p
         else if \<not> direction instr \<and> \<not> signed_instruct instr
         then write_reg_table (i_mode instr) rdst imm p
         else rbind (reg p rdst) (\<lambda>addr.
              rbind (write_bytes (vm_mem p) addr (take (mode_to_bytes (i_mode instr)) (le_bytes 8 imm)))
                (\<lambda>m. Inr (with_mem p m))))"

definition exec_instr_xchg :: "ProcessVM \<Rightarrow> DecodedInstr \<Rightarrow> ProcessVM res" where
  "exec_instr_xchg p instr =
     (let r1 = ext_reg1 instr; r2 = ext_reg2 instr
      in rbind (if ext_reg1_flags instr then Inr (read_special p r1)
                else read_reg_table (drop_bit 4 r1) p (r1 AND 0xF)) (\<lambda>val1.
         rbind (if ext_reg2_flags instr
                then rbind (write_special r2 val1 p) (\<lambda>p1. Inr (read_special p r2, p1))
                else rbind (read_reg_table (drop_bit 4 r2) p (r2 AND 0xF)) (\<lambda>val2.
                     rbind (write_reg_table (drop_bit 4 r2) (r2 AND 0xF) val1 p) (\<lambda>p1. Inr (val2, p1))))
           (\<lambda>(val2, p1).
              if \<not> ext_reg1_flags instr then write_reg_table (drop_bit 4 r1) (r1 AND 0xF) val2 p1
              else write_special r1 val2 p1)))"

section \<open>Jumps\<close>

text \<open>
  The absolute and the relative jump evaluate their condition in a switch of their own; both
  switches are copies of \<^verbatim>\<open>eval_jmp_cond\<close>.
\<close>

definition jmp_taken :: "u8 \<Rightarrow> RFlags \<Rightarrow> bool" where
  "jmp_taken cond fl =
     (if cond = 0x00 then COND_EQ fl
      else if cond = 0x01 then COND_NE fl
      else if cond = 0x02 then COND_CS fl
      else if cond = 0x03 then COND_CC fl
      else if cond = 0x04 then COND_MI fl
      else if cond = 0x05 then COND_PL fl
      else if cond = 0x06 then COND_VS fl
      else if cond = 0x07 then COND_VC fl
      else if cond = 0x08 then COND_HI fl
      else if cond = 0x09 then COND_LS fl
      else if cond = 0x0A then COND_GE fl
      else if cond = 0x0B then COND_LT fl
      else if cond = 0x0C then \<not> ZF fl \<and> SF fl = OF fl
      else if cond = 0x0D then ZF fl \<or> SF fl \<noteq> OF fl
      else True)"

definition jrel_taken :: "u8 \<Rightarrow> RFlags \<Rightarrow> bool" where
  "jrel_taken cond fl =
     (if cond = 0x00 then COND_EQ fl
      else if cond = 0x01 then COND_NE fl
      else if cond = 0x02 then COND_CS fl
      else if cond = 0x03 then COND_CC fl
      else if cond = 0x04 then COND_MI fl
      else if cond = 0x05 then COND_PL fl
      else if cond = 0x06 then COND_VS fl
      else if cond = 0x07 then COND_VC fl
      else if cond = 0x08 then COND_HI fl
      else if cond = 0x09 then COND_LS fl
      else if cond = 0x0A then COND_GE fl
      else if cond = 0x0B then COND_LT fl
      else if cond = 0x0C then \<not> ZF fl \<and> SF fl = OF fl
      else if cond = 0x0D then ZF fl \<or> SF fl \<noteq> OF fl
      else True)"

lemma taken_eval_jmp_cond [simp]: "jmp_taken = eval_jmp_cond" "jrel_taken = eval_jmp_cond"
  by (rule ext, rule ext, simp only: jmp_taken_def jrel_taken_def eval_jmp_cond_def)+

definition exec_instr_jmp :: "ProcessVM \<Rightarrow> DecodedInstr \<Rightarrow> ProcessVM res" where
  "exec_instr_jmp p instr =
     (if jmp_taken (imm_reg instr) (flags (registers p)) then write_rip (inmmed instr) p else Inr p)"

definition exec_instr_jmpr :: "ProcessVM \<Rightarrow> DecodedInstr \<Rightarrow> ProcessVM res" where
  "exec_instr_jmpr p instr =
     rbind (if reg_ext instr then Inr (read_special p (reg1 instr)) else read_reg64 p (reg1 instr))
       (\<lambda>addr. write_rip addr p)"

definition exec_instr_jrel :: "ProcessVM \<Rightarrow> DecodedInstr \<Rightarrow> ProcessVM res" where
  "exec_instr_jrel p instr =
     (if jrel_taken (imm_reg instr) (flags (registers p))
      then write_rip (pc_of p + ucast (size_instr instr) + inmmed instr) p else Inr p)"

definition exec_instr_jumptable :: "ProcessVM \<Rightarrow> DecodedInstr \<Rightarrow> ProcessVM res" where
  "exec_instr_jumptable p instr =
     rbind (reg p (reg_base instr)) (\<lambda>v. rbind (reg p (reg_index instr)) (\<lambda>table_addr.
       if v \<ge> ucast (mem_scale instr) then Inr p
       else rbind (read_u64 (vm_mem p) (table_addr + v * 8)) (\<lambda>(target, m). write_rip target (with_mem p m))))"

section \<open>Calls and frames\<close>

definition push_return :: "u64 \<Rightarrow> u64 \<Rightarrow> ProcessVM \<Rightarrow> ProcessVM res" where
  "push_return addr ret_addr p =
     (let p1 = set_rsp (rsp p - 8) p
      in rbind (write_u64_fast (vm_mem p1) (rsp p1) ret_addr) (\<lambda>m. write_rip addr (with_mem p1 m)))"

definition exec_instr_callvm :: "ProcessVM \<Rightarrow> DecodedInstr \<Rightarrow> ProcessVM res" where
  "exec_instr_callvm p instr = push_return (inmmed instr) (pc_of p + ucast (size_instr instr)) p"

definition exec_instr_callvmr :: "ProcessVM \<Rightarrow> DecodedInstr \<Rightarrow> ProcessVM res" where
  "exec_instr_callvmr p instr =
     rbind (if reg_ext instr then Inr (read_special p (reg1 instr)) else read_reg64 p (reg1 instr))
       (\<lambda>addr. push_return addr (pc_of p + ucast (size_instr instr)) p)"

text \<open>The return from a virtual call, whose frame keeps the return address.\<close>

definition pop_frame :: "u64 \<Rightarrow> ProcessVM \<Rightarrow> ProcessVM" where
  "pop_frame f p =
     (let fr = frames p f;
          p1 = (if has_saved_regs fr
                then upd_regs (\<lambda>c. c\<lparr>regs := take 1 (regs c) @ take 12 (saved_r1_r12 fr) @ drop 13 (regs c)\<rparr>) p
                else p);
          next_frame = fh_prev fr;
          inject = (if next_frame = 0 then 0 else inject_r0_to_reg (frames p1 next_frame));
          r0 = regs (registers p1) ! 0;
          p2 = release f (p1\<lparr>frame_stack := next_frame\<rparr>)
      in if 1 \<le> inject \<and> inject \<le> 12
         then upd_regs (\<lambda>c. c\<lparr>regs := (regs c)[unat inject := r0]\<rparr>) p2 else p2)"

definition exec_instr_ret :: "ProcessVM \<Rightarrow> DecodedInstr \<Rightarrow> ProcessVM res" where
  "exec_instr_ret p instr =
     (let cur_rsp = rsp p; frame = frame_stack p
      in rbind (if frame \<noteq> 0 \<and> frame_base (frames p frame) = cur_rsp + 8
                then Inr (return_pc (frames p frame), pop_frame frame p)
                else rbind (read_u64_fast (vm_mem p) cur_rsp) (\<lambda>(a, m). Inr (a, with_mem p m)))
           (\<lambda>(ret_addr, p1). write_rip ret_addr (set_rsp (cur_rsp + 8) p1)))"

definition lower_water :: "u64 \<Rightarrow> ProcessVM \<Rightarrow> ProcessVM" where
  "lower_water new_rsp p = (if new_rsp < stack_low_water p then p\<lparr>stack_low_water := new_rsp\<rparr> else p)"

definition exec_instr_enter :: "ProcessVM \<Rightarrow> DecodedInstr \<Rightarrow> ProcessVM res" where
  "exec_instr_enter p instr =
     (let frame_size = inmmed instr; rsp_after_push = rsp p - 8
      in rbind (write_u64_fast (vm_mem p) rsp_after_push (rbp p)) (\<lambda>m.
           let new_rsp = rsp_after_push - frame_size
           in Inr (lower_water new_rsp (set_rsp new_rsp (set_rbp rsp_after_push (with_mem p m))))))"

definition exec_instr_leave :: "ProcessVM \<Rightarrow> DecodedInstr \<Rightarrow> ProcessVM res" where
  "exec_instr_leave p instr =
     (let rsp_at_rbp = rbp p
      in rbind (read_u64_fast (vm_mem p) rsp_at_rbp) (\<lambda>(rbp_val, m).
           Inr (set_rbp rbp_val (set_rsp (rsp_at_rbp + 8) (with_mem p m)))))"

definition exec_instr_subsp :: "ProcessVM \<Rightarrow> DecodedInstr \<Rightarrow> ProcessVM res" where
  "exec_instr_subsp p instr =
     (let delta = inmmed instr
      in if imm_reg instr = 0
         then Inr (lower_water (rsp p - delta) (set_rsp (rsp p - delta) p))
         else Inr (set_rbp (rbp p - delta) p))"

definition exec_instr_addsp :: "ProcessVM \<Rightarrow> DecodedInstr \<Rightarrow> ProcessVM res" where
  "exec_instr_addsp p instr =
     (let delta = inmmed instr
      in if imm_reg instr = 0 then Inr (set_rsp (rsp p + delta) p)
         else Inr (set_rbp (rbp p + delta) p))"

definition exec_instr_hlt :: "ProcessVM \<Rightarrow> DecodedInstr \<Rightarrow> ProcessVM res" where
  "exec_instr_hlt p instr =
     (if 0 < loadmod_call_depth p then
        rbind (read_bytes (vm_mem p) (rsp p) 8) (\<lambda>(bs, m).
        rbind (mark_jump (set_rip (le_word bs) (set_rsp (rsp p + 8)
                 ((with_mem p m)\<lparr>loadmod_call_depth := loadmod_call_depth p - 1\<rparr>)))) (\<lambda>p1.
          if loadmod_r0_stack p1 = [] then Inr p1
          else rbind (set_reg 0 (last (loadmod_r0_stack p1)) p1)
                 (\<lambda>p2. Inr (p2\<lparr>loadmod_r0_stack := butlast (loadmod_r0_stack p2)\<rparr>))))
      else upd_decoded (\<lambda>d. d\<lparr>blocking := True\<rparr>) (raise_event EVT_HALT p))"

text \<open>Yielding empties the quantum (\<^verbatim>\<open>exec_instruction_coro.cpp\<close>).\<close>

definition exec_instr_yield :: "ProcessVM \<Rightarrow> DecodedInstr \<Rightarrow> ProcessVM res" where
  "exec_instr_yield p instr = Inr (p\<lparr>reductions_remaining := 0\<rparr>)"

section \<open>Masked pushes\<close>

definition popcount :: "u16 \<Rightarrow> nat" where
  "popcount msk = length (filter (bit msk) [0..<16])"

definition ctz :: "u16 \<Rightarrow> nat" where
  "ctz msk = hd (filter (bit msk) [0..<16])"

lemma clear_lowest_less: "msk \<noteq> 0 \<Longrightarrow> unat (msk AND (msk - 1)) < unat (msk :: u16)"
proof -
  assume nz: "msk \<noteq> 0"
  have "msk AND (msk - 1) \<le> msk - 1" by (rule word_and_le1)
  also have "msk - 1 < msk" using nz unat_gt_0 [of msk] by (simp add: word_less_nat_alt unat_sub_if_size word_size word_le_nat_alt)
  finally show ?thesis by (simp add: word_less_nat_alt)
qed

function fastpush_loop :: "u16 \<Rightarrow> u64 \<Rightarrow> ProcessVM \<Rightarrow> ProcessVM res" where
  "fastpush_loop msk slot p =
     (if msk = 0 then Inr p
      else rbind (reg p (of_nat (ctz msk))) (\<lambda>v.
           rbind (write_u64 (vm_mem p) slot v) (\<lambda>m.
             fastpush_loop (msk AND (msk - 1)) (slot - 8) (with_mem p m))))"
  by pat_completeness auto
termination
  by (relation "measure (\<lambda>(msk, _, _). unat msk)") (simp_all add: clear_lowest_less)

function fastpop_loop :: "u16 \<Rightarrow> u64 \<Rightarrow> ProcessVM \<Rightarrow> ProcessVM res" where
  "fastpop_loop msk slot p =
     (if msk = 0 then Inr p
      else rbind (read_u64 (vm_mem p) slot) (\<lambda>(v, m).
           rbind (set_reg (of_nat (ctz msk)) v (with_mem p m)) (\<lambda>p1.
             fastpop_loop (msk AND (msk - 1)) (slot - 8) p1)))"
  by pat_completeness auto
termination
  by (relation "measure (\<lambda>(msk, _, _). unat msk)") (simp_all add: clear_lowest_less)

declare fastpush_loop.simps [simp del] fastpop_loop.simps [simp del]

definition exec_instr_fastpush :: "ProcessVM \<Rightarrow> DecodedInstr \<Rightarrow> ProcessVM res" where
  "exec_instr_fastpush p instr =
     (let msk = md_mask instr; count = of_nat (popcount msk); new_rsp = rsp p - count * 8
      in if msk = 0 then Inr p
         else fastpush_loop msk (new_rsp + (count - 1) * 8) (set_rsp new_rsp p))"

definition exec_instr_fastpop :: "ProcessVM \<Rightarrow> DecodedInstr \<Rightarrow> ProcessVM res" where
  "exec_instr_fastpop p instr =
     (let msk = md_mask instr; count = of_nat (popcount msk)
      in if msk = 0 then Inr p
         else rbind (fastpop_loop msk (rsp p + (count - 1) * 8) p)
                (\<lambda>p1. Inr (set_rsp (rsp p + count * 8) p1)))"

end
