(* ===== verification/Vm_Decode.thy ===== *)
theory Vm_Decode
  imports Vm_Stack
begin

text \<open>
  The decoders (\<^verbatim>\<open>src/runtime/decode_instruction.cpp\<close>, and \<^verbatim>\<open>decode_instr_fmowi\<close> of
  \<^verbatim>\<open>exec_instruction_float.cpp\<close>) and the cached decoding of the instruction at the program counter.
  Reading the code may allocate its pages and moves the page cache, so a decoder returns the
  process too.  Assertions and traces of debug builds are left out.
\<close>

section \<open>Fetching\<close>

definition fetch8 :: "ProcessVM \<Rightarrow> u64 \<Rightarrow> (u8 \<times> ProcessVM) res" where
  "fetch8 p a = rbind (mem_at (vm_mem p) a) (\<lambda>(v, m). Inr (v, with_mem p m))"

definition fetch16 :: "ProcessVM \<Rightarrow> u64 \<Rightarrow> (u16 \<times> ProcessVM) res" where
  "fetch16 p a = rbind (read_u16 (vm_mem p) a) (\<lambda>(v, m). Inr (v, with_mem p m))"

definition fetch32 :: "ProcessVM \<Rightarrow> u64 \<Rightarrow> (u32 \<times> ProcessVM) res" where
  "fetch32 p a = rbind (read_u32 (vm_mem p) a) (\<lambda>(v, m). Inr (v, with_mem p m))"

definition fetch64 :: "ProcessVM \<Rightarrow> u64 \<Rightarrow> (u64 \<times> ProcessVM) res" where
  "fetch64 p a = rbind (read_u64 (vm_mem p) a) (\<lambda>(v, m). Inr (v, with_mem p m))"

definition byte_of :: "nat \<Rightarrow> 'a::len word \<Rightarrow> u8" where
  "byte_of k w = ucast (drop_bit (8 * k) w AND 0xFF)"

definition bits :: "nat \<Rightarrow> u8 \<Rightarrow> u8 \<Rightarrow> u8" where
  "bits k msk b = drop_bit k b AND msk"

text \<open>\<^verbatim>\<open>size_instr\<close> is a field of four bits.\<close>

definition set_size :: "nat \<Rightarrow> DecodedInstr \<Rightarrow> DecodedInstr" where
  "set_size n d = d\<lparr>size_instr := of_nat (n mod 16)\<rparr>"

definition table_size :: "DecodedInstr \<Rightarrow> DecodedInstr res" where
  "table_size d =
     (case metadata d of None \<Rightarrow> Inl HostFault
      | Some f \<Rightarrow> (case instr_size (fmt_size f) of None \<Rightarrow> Inl Undefined | Some n \<Rightarrow> Inr (set_size n d)))"

definition code_offset :: "ProcessVM \<Rightarrow> DecodedInstr \<Rightarrow> u64" where
  "code_offset p d = pc_of p + (if is_not_extended d \<noteq> 0 then 1 else 2)"

definition ctrl_flags :: "u8 \<Rightarrow> DecodedInstr \<Rightarrow> DecodedInstr" where
  "ctrl_flags c d = d\<lparr>i_mode := bits 6 0x3 c, signed_instruct := bit c 5, direction := bit c 4\<rparr>"

definition put_imm :: "u64 \<Rightarrow> u8 \<Rightarrow> DecodedInstr \<Rightarrow> DecodedInstr" where
  "put_imm v r d = put_bytes 8 [r] (put_bytes 0 (le_bytes 8 v) d)"

section \<open>Register forms\<close>

type_synonym decoder = "ProcessVM \<Rightarrow> DecodedInstr \<Rightarrow> (DecodedInstr \<times> ProcessVM) res"

definition decode_instr_oop_reg_imm8 :: decoder where
  "decode_instr_oop_reg_imm8 p d =
     rbind (table_size d) (\<lambda>d. rbind (fetch16 p (pc_of p + 2)) (\<lambda>(w, p).
       Inr (put_bytes 0 [byte_of 0 w AND 0x0F, byte_of 1 w] d, p)))"

definition decode_instr_sib :: decoder where
  "decode_instr_sib p d =
     rbind (table_size d) (\<lambda>d. rbind (fetch32 p (pc_of p + 2)) (\<lambda>(w, p).
       let ctrl_byte = byte_of 0 w; regs_byte = byte_of 1 w; index_byte = byte_of 2 w;
           scale = bits 2 0x3 ctrl_byte; has_index = bits 1 0x1 ctrl_byte
       in Inr (put_bytes 0 [regs_byte AND 0x0F, index_byte AND 0x0F, drop_bit 4 regs_byte,
                 scale OR push_bit 2 has_index] (ctrl_flags ctrl_byte d), p)))"

definition decode_instr_two_op_reg :: decoder where
  "decode_instr_two_op_reg p d =
     rbind (table_size d) (\<lambda>d. rbind (fetch16 p (code_offset p d)) (\<lambda>(w, p).
       let n1 = byte_of 0 w; n2 = byte_of 1 w
       in Inr (put_bytes 0 [n2 AND 0xF, drop_bit 4 n2] (ctrl_flags n1 d), p)))"

definition decode_instr_raw_bytes :: decoder where
  "decode_instr_raw_bytes p d =
     rbind (table_size d) (\<lambda>d. rbind (fetch16 p (code_offset p d)) (\<lambda>(w, p).
       Inr (put_bytes 0 [byte_of 0 w, byte_of 1 w] d, p)))"

definition decode_instr_simple_mov :: decoder where
  "decode_instr_simple_mov p d =
     rbind (table_size d) (\<lambda>d. rbind (fetch16 p (code_offset p d)) (\<lambda>(w, p).
       let n1 = byte_of 0 w; n2 = byte_of 1 w
       in Inr (put_bytes 0 [n2 AND 0xF, drop_bit 4 n2] (ctrl_flags n1 d), p)))"

text \<open>The immediate cut to the width of the mode.\<close>

definition cut_imm :: "u8 \<Rightarrow> u64 \<Rightarrow> u64" where
  "cut_imm m v = (if m = 0 then ucast (ucast v :: u8) else if m = 1 then ucast (ucast v :: u16)
     else if m = 2 then ucast (ucast v :: u32) else v)"

definition decode_instr_inmed_mov :: decoder where
  "decode_instr_inmed_mov p d =
     rbind (fetch8 p (pc_of p + 2)) (\<lambda>(c, p). rbind (fetch64 p (pc_of p + 3)) (\<lambda>(imm, p).
       let d = ctrl_flags c d; r = c AND 0xF
       in if direction d \<and> signed_instruct d
          then Inr ((put_imm imm (push_bit 4 (i_mode d) OR r) (set_size 11 d))\<lparr>reg_ext := True\<rparr>, p)
          else Inr (put_imm (cut_imm (i_mode d) imm) r (set_size (3 + mode_to_bytes (i_mode d)) d), p)))"

definition decode_instr_simple :: decoder where
  "decode_instr_simple p d = rbind (table_size d) (\<lambda>d. Inr (d, p))"

definition decode_instr_one_op_reg :: decoder where
  "decode_instr_one_op_reg p d =
     rbind (table_size d) (\<lambda>d. rbind (fetch8 p (pc_of p + 1)) (\<lambda>(b, p).
       Inr (put_bytes 0 [b AND 0xF] (d\<lparr>i_mode := bits 4 0x3 b, signed_instruct := bit b 6\<rparr>), p)))"

definition decode_instr_movc :: decoder where
  "decode_instr_movc p d =
     rbind (fetch8 p (pc_of p + 2)) (\<lambda>(ctrl, p). rbind (fetch8 p (pc_of p + 3)) (\<lambda>(b4, p).
       let d = (set_size 4 d)\<lparr>signed_instruct := (bits 6 0x3 ctrl = 2), direction := bit ctrl 5, i_mode := 3\<rparr>
       in Inr (put_bytes 8 [b4 AND 0x1F] (put_bytes 0 [ctrl AND 0xF, bits 5 0x7 b4] d), p)))"

definition decode_instr_push_pop :: decoder where
  "decode_instr_push_pop p d =
     rbind (table_size d) (\<lambda>d. rbind (fetch8 p (pc_of p + 1)) (\<lambda>(b, p).
       let d = d\<lparr>reg_ext := bit b 6\<rparr>;
           d = (if bit b 6 then put_bytes 0 [b AND 0x3F] (d\<lparr>i_mode := 0\<rparr>)
                else put_bytes 0 [b AND 0xF] (d\<lparr>i_mode := bits 4 0x3 b\<rparr>))
       in Inr (set_size 2 d, p)))"

definition decode_instr_inmed_reg :: decoder where
  "decode_instr_inmed_reg p d =
     rbind (fetch8 p (pc_of p + 2)) (\<lambda>(c, p). rbind (fetch64 p (pc_of p + 3)) (\<lambda>(imm, p).
       let d = ctrl_flags c d
       in Inr (put_imm (cut_imm (i_mode d) imm) (c AND 0xF) (set_size (3 + mode_to_bytes (i_mode d)) d), p)))"

text \<open>The fields of six bits and one bit that keep the unused seventh bit of their byte.\<close>

definition decode_instr_xchg :: decoder where
  "decode_instr_xchg p d =
     rbind (table_size d) (\<lambda>d. rbind (fetch16 p (pc_of p + 2)) (\<lambda>(w, p).
       let b1 = byte_of 0 w; b2 = byte_of 1 w; old = data_instruction d
       in Inr (put_bytes 0 [(b1 AND 0x7F) OR (old ! 0 AND 0x80), (b2 AND 0x7F) OR (old ! 1 AND 0x80)] d, p)))"

definition decode_instr_cursor_rw :: decoder where
  "decode_instr_cursor_rw p d =
     rbind (table_size d) (\<lambda>d. rbind (fetch16 p (pc_of p + 2)) (\<lambda>(w, p).
       let ctrl = byte_of 0 w; r = byte_of 1 w
       in Inr (put_bytes 0 [r AND 0xF, bits 4 0x3 ctrl] (d\<lparr>i_mode := bits 6 0x3 ctrl\<rparr>), p)))"

definition decode_instr_addcur :: decoder where
  "decode_instr_addcur p d =
     rbind (table_size d) (\<lambda>d. rbind (fetch32 p (pc_of p + 2)) (\<lambda>(w, p).
       Inr (put_bytes 1 [bits 4 0x3 (byte_of 0 w), byte_of 2 w, byte_of 3 w] d, p)))"

definition decode_instr_vmcopy :: decoder where
  "decode_instr_vmcopy p d =
     rbind (table_size d) (\<lambda>d. rbind (fetch16 p (pc_of p + 2)) (\<lambda>(w, p).
       let a = byte_of 0 w; b = byte_of 1 w
       in Inr (put_bytes 0 [a AND 0xF, hi_nibble b, bits 4 0x3 a] d, p)))"

section \<open>Jumps and fixed forms\<close>

definition decode_instr_jump :: decoder where
  "decode_instr_jump p d =
     rbind (fetch8 p (pc_of p + 1)) (\<lambda>(c, p). rbind (fetch64 p (pc_of p + 2)) (\<lambda>(a, p).
     rbind (table_size (put_imm a c d)) (\<lambda>d. Inr (d, p))))"

definition decode_instr_no_operands :: decoder where
  "decode_instr_no_operands p d = rbind (table_size d) (\<lambda>d. Inr (d, p))"

definition decode_instr_jrel :: decoder where
  "decode_instr_jrel p d =
     rbind (fetch8 p (pc_of p + 2)) (\<lambda>(c, p). rbind (fetch32 p (pc_of p + 4)) (\<lambda>(raw, p).
     rbind (table_size (put_imm (scast raw) c d)) (\<lambda>d. Inr (d, p))))"

definition decode_instr_jumptable :: decoder where
  "decode_instr_jumptable p d =
     rbind (fetch8 p (pc_of p + 2)) (\<lambda>(b2, p). rbind (fetch8 p (pc_of p + 3)) (\<lambda>(b3, p).
       Inr (put_bytes 3 [b3] (put_bytes 0 [hi_nibble b2, lo_nibble b2] (set_size 4 d)), p)))"

definition decode_instr_three_reg :: decoder where
  "decode_instr_three_reg p d =
     rbind (fetch8 p (pc_of p + 2)) (\<lambda>(b2, p). rbind (fetch8 p (pc_of p + 3)) (\<lambda>(b3, p).
       Inr (put_bytes 0 [hi_nibble b2, lo_nibble b2, hi_nibble b3] (set_size 4 d), p)))"

definition decode_instr_four_reg :: decoder where
  "decode_instr_four_reg p d =
     rbind (fetch8 p (pc_of p + 2)) (\<lambda>(b2, p). rbind (fetch8 p (pc_of p + 3)) (\<lambda>(b3, p).
       Inr (put_bytes 0 [hi_nibble b2, lo_nibble b2, hi_nibble b3, lo_nibble b3] (set_size 4 d), p)))"

definition decode_instr_static_offset :: decoder where
  "decode_instr_static_offset p d =
     rbind (fetch8 p (pc_of p + 2)) (\<lambda>(r, p). rbind (fetch32 p (pc_of p + 4)) (\<lambda>(off, p).
       Inr (put_bytes 4 (le_bytes 4 off) (put_bytes 0 [hi_nibble r, lo_nibble r] (set_size 8 d)), p)))"

definition decode_instr_dlopen_dlsym :: decoder where
  "decode_instr_dlopen_dlsym p d =
     rbind (fetch8 p (pc_of p + 2)) (\<lambda>(b2, p). rbind (fetch8 p (pc_of p + 3)) (\<lambda>(b3, p).
       Inr (put_bytes 0 [hi_nibble b2, lo_nibble b2, hi_nibble b3, lo_nibble b3] (set_size 4 d), p)))"

definition decode_instr_callni :: decoder where
  "decode_instr_callni p d =
     rbind (fetch8 p (pc_of p + 2)) (\<lambda>(b2, p). Inr (put_bytes 0 [hi_nibble b2, 0] (set_size 4 d), p))"

definition decode_instr_gcallocp :: decoder where
  "decode_instr_gcallocp p d =
     rbind (fetch8 p (pc_of p + 2)) (\<lambda>(b2, p).
       Inr (put_bytes 0 [hi_nibble b2, lo_nibble b2] (set_size 4 d), p))"

definition decode_instr_spawnargs :: decoder where
  "decode_instr_spawnargs p d =
     rbind (fetch8 p (pc_of p + 2)) (\<lambda>(b2, p). Inr (put_bytes 0 [hi_nibble b2, 0] (set_size 4 d), p))"

definition decode_instr_fulfillhlt :: decoder where
  "decode_instr_fulfillhlt p d =
     rbind (fetch8 p (pc_of p + 2)) (\<lambda>(b2, p).
       Inr (put_bytes 0 [hi_nibble b2, lo_nibble b2] (set_size 4 d), p))"

definition decode_instr_cmpjmp :: decoder where
  "decode_instr_cmpjmp p d =
     rbind (fetch8 p (pc_of p + 2)) (\<lambda>(b2, p). rbind (fetch8 p (pc_of p + 3)) (\<lambda>(cond, p).
     rbind (fetch32 p (pc_of p + 4)) (\<lambda>(off, p).
       Inr (put_bytes 0 ([hi_nibble b2, lo_nibble b2] @ le_bytes 2 (ucast cond :: u16) @ le_bytes 4 off)
              (set_size 8 d), p))))"

definition decode_instr_decjnz :: decoder where
  "decode_instr_decjnz p d =
     rbind (fetch8 p (pc_of p + 2)) (\<lambda>(b2, p). rbind (fetch32 p (pc_of p + 4)) (\<lambda>(off, p).
       Inr (put_bytes 0 ([hi_nibble b2, 0, 0, 0] @ le_bytes 4 off) (set_size 8 d), p)))"

definition decode_instr_fastmask :: decoder where
  "decode_instr_fastmask p d =
     rbind (fetch8 p (pc_of p + 2)) (\<lambda>(lo, p). rbind (fetch8 p (pc_of p + 3)) (\<lambda>(hi, p).
       Inr (put_bytes 0 (le_bytes 2 ((ucast lo OR push_bit 8 (ucast hi)) :: u16)) (set_size 4 d), p)))"

definition decode_instr_calln :: decoder where
  "decode_instr_calln p d =
     rbind (fetch64 p (pc_of p + 2)) (\<lambda>(fn, p). rbind (table_size d) (\<lambda>d.
       Inr (put_imm fn (ucast (regs (registers p) ! 15)) d, p)))"

definition decode_instr_fmowi :: decoder where
  "decode_instr_fmowi p d =
     rbind (fetch16 p (pc_of p + 2)) (\<lambda>(w, p). rbind (fetch64 p (pc_of p + 3)) (\<lambda>(imm, p).
       let ctrl = byte_of 0 w
       in Inr (put_imm imm (ctrl AND 0x0F)
                 ((set_size 11 d)\<lparr>i_mode := bits 6 0x3 ctrl, signed_instruct := bit ctrl 5\<rparr>), p)))"

section \<open>Decoding the instruction at the program counter\<close>

fun run_decode :: "decode_fn \<Rightarrow> decoder" where
  "run_decode D_addcur = decode_instr_addcur"
| "run_decode D_calln = decode_instr_calln"
| "run_decode D_callni = decode_instr_callni"
| "run_decode D_cmpjmp = decode_instr_cmpjmp"
| "run_decode D_cursor_rw = decode_instr_cursor_rw"
| "run_decode D_decjnz = decode_instr_decjnz"
| "run_decode D_dlopen_dlsym = decode_instr_dlopen_dlsym"
| "run_decode D_fastmask = decode_instr_fastmask"
| "run_decode D_fmowi = decode_instr_fmowi"
| "run_decode D_four_reg = decode_instr_four_reg"
| "run_decode D_fulfillhlt = decode_instr_fulfillhlt"
| "run_decode D_gcallocp = decode_instr_gcallocp"
| "run_decode D_inmed_mov = decode_instr_inmed_mov"
| "run_decode D_inmed_reg = decode_instr_inmed_reg"
| "run_decode D_jrel = decode_instr_jrel"
| "run_decode D_jump = decode_instr_jump"
| "run_decode D_jumptable = decode_instr_jumptable"
| "run_decode D_movc = decode_instr_movc"
| "run_decode D_no_operands = decode_instr_no_operands"
| "run_decode D_one_op_reg = decode_instr_one_op_reg"
| "run_decode D_oop_reg_imm8 = decode_instr_oop_reg_imm8"
| "run_decode D_push_pop = decode_instr_push_pop"
| "run_decode D_raw_bytes = decode_instr_raw_bytes"
| "run_decode D_sib = decode_instr_sib"
| "run_decode D_simple = decode_instr_simple"
| "run_decode D_simple_mov = decode_instr_simple_mov"
| "run_decode D_spawnargs = decode_instr_spawnargs"
| "run_decode D_static_offset = decode_instr_static_offset"
| "run_decode D_three_reg = decode_instr_three_reg"
| "run_decode D_two_op_reg = decode_instr_two_op_reg"
| "run_decode D_vmcopy = decode_instr_vmcopy"
| "run_decode D_xchg = decode_instr_xchg"

definition store_decoded :: "DecodedInstr \<Rightarrow> ProcessVM \<Rightarrow> ProcessVM" where
  "store_decoded d p =
     (let idx = icache_index (i_pc d) in p\<lparr>icache := (icache p)(idx := d), decoded_ptr := Some idx\<rparr>)"

text \<open>The work after a miss, for the two opcode bytes.\<close>

definition decode_opcode :: "ProcessVM \<Rightarrow> DecodedInstr \<Rightarrow> ProcessVM res" where
  "decode_opcode p d =
     (let fmt = (if is_not_extended d = 0 then decode_table_extended ! unat (opcode_index d)
                 else decode_table_primary ! unat (is_not_extended d));
          d1 = d\<lparr>metadata := Some fmt\<rparr>
      in case (fmt_exec fmt, fmt_decode fmt) of
           (Some ex, Some dec) \<Rightarrow>
             if fmt_mode fmt = MODE_COUNT then Inr (store_decoded (d1\<lparr>exec_cached := None\<rparr>) p)
             else rbind (run_decode dec p (d1\<lparr>exec_cached := Some ex\<rparr>))
                    (\<lambda>(d2, p1). Inr (store_decoded d2 p1))
         | _ \<Rightarrow> Inr (store_decoded (d1\<lparr>exec_cached := None\<rparr>) p))"

definition decode_instruction :: "ProcessVM \<Rightarrow> ProcessVM res" where
  "decode_instruction p =
     (let pc = pc_of p; idx = icache_index pc; cached = icache p idx
      in if i_pc cached = pc \<and> decoded_ptr p \<noteq> None then Inr (p\<lparr>decoded_ptr := Some idx\<rparr>)
         else rbind (fetch8 p (pc + 16)) (\<lambda>(_, p).
              rbind (fetch8 p pc) (\<lambda>(op1, p).
                let d = new_DecodedInstr\<lparr>i_pc := pc, is_not_extended := op1\<rparr>
                in if op1 = 0
                   then rbind (fetch8 p (pc + 1)) (\<lambda>(op2, p). decode_opcode p (d\<lparr>opcode_index := op2\<rparr>))
                   else decode_opcode p d)))"

definition reset_cache :: "ProcessVM \<Rightarrow> ProcessVM" where
  "reset_cache p = p\<lparr>icache := (\<lambda>i. if i < ICACHE_SIZE then (icache p i)\<lparr>i_pc := UINT64_MAX\<rparr> else icache p i),
     decoded_ptr := None\<rparr>"

definition load_raw_code :: "ProcessVM \<Rightarrow> u64 \<Rightarrow> u8 list \<Rightarrow> ProcessVM res" where
  "load_raw_code p addr code =
     rbind (of_loop (vm_to_host_memcpy (vm_mem p) addr code)) (\<lambda>r.
     rbind r (\<lambda>m. Inr (set_rip addr (with_mem p m))))"

end
