(* ===== verification/Vm_Interp.thy ===== *)
theory Vm_Interp
  imports Vm_Decode
begin

text \<open>
  The interpreter: \<^verbatim>\<open>execute_instruction\<close> (\<^verbatim>\<open>src/runtime/decode_instruction.cpp\<close>), the event handler
  and the step of the state machine (\<^verbatim>\<open>src/runtime/scheduler.cpp\<close>), and the inlined handlers of the
  threaded dispatch of \<^verbatim>\<open>Scheduler::run_loop\<close>.

  The handlers of the instruction families outside this development are the parameter \<open>other\<close>,
  by the name the decode table has for them; hooks, debugger and statistics are absent.
\<close>

type_synonym handler = "ProcessVM \<Rightarrow> DecodedInstr \<Rightarrow> ProcessVM res"

section \<open>Executing one instruction\<close>

definition exec_alu_table :: "Runtime \<Rightarrow> (string \<times> handler) list" where
  "exec_alu_table rt =
    [(''exec_instr_add_reg'', exec_instr_add_reg rt), (''exec_instr_add_imm'', exec_instr_add_imm rt),
     (''exec_instr_add_sib'', exec_instr_add_sib rt), (''exec_instr_sub_reg'', exec_instr_sub_reg rt),
     (''exec_instr_sub_imm'', exec_instr_sub_imm rt), (''exec_instr_sub_sib'', exec_instr_sub_sib rt),
     (''exec_instr_mul_reg'', exec_instr_mul_reg rt), (''exec_instr_mul_imm'', exec_instr_mul_imm rt),
     (''exec_instr_mul_sib'', exec_instr_mul_sib rt), (''exec_instr_div_reg'', exec_instr_div_reg rt),
     (''exec_instr_div_imm'', exec_instr_div_imm rt), (''exec_instr_div_sib'', exec_instr_div_sib rt),
     (''exec_instr_cmp_reg'', exec_instr_cmp_reg rt), (''exec_instr_cmp_imm'', exec_instr_cmp_imm rt),
     (''exec_instr_cmp_sib'', exec_instr_cmp_sib rt), (''exec_instr_mod_reg'', exec_instr_mod_reg rt),
     (''exec_instr_mod_imm'', exec_instr_mod_imm rt), (''exec_instr_mod_sib'', exec_instr_mod_sib rt),
     (''exec_instr_and_reg'', exec_instr_and_reg rt), (''exec_instr_or_reg'', exec_instr_or_reg rt),
     (''exec_instr_xor_reg'', exec_instr_xor_reg rt), (''exec_instr_shl_reg'', exec_instr_shl_reg rt),
     (''exec_instr_shr_reg'', exec_instr_shr_reg rt), (''exec_instr_sar_reg'', exec_instr_sar_reg rt),
     (''exec_instr_not_reg'', exec_instr_not_reg), (''exec_instr_inc_dec_reg'', exec_instr_inc_dec_reg),
     (''exec_instr_mov_reg'', exec_instr_mov_reg), (''exec_instr_mov_sib'', exec_instr_mov_sib),
     (''exec_instr_movc_mem'', exec_instr_movc_mem), (''exec_instr_movc_reg'', exec_instr_movc_reg),
     (''exec_instr_setcc'', exec_instr_setcc), (''exec_instr_cmpjmp'', exec_instr_cmpjmp rt),
     (''exec_instr_cmpjmpu'', exec_instr_cmpjmpu rt), (''exec_instr_decjnz'', exec_instr_decjnz rt),
     (''exec_instr_alu3'', exec_instr_alu3), (''exec_instr_loadz'', exec_instr_loadz)]"

definition exec_stack_table :: "Runtime \<Rightarrow> (string \<times> handler) list" where
  "exec_stack_table rt =
    [(''exec_instr_push'', exec_instr_push), (''exec_instr_pop'', exec_instr_pop),
     (''exec_instr_inmed_mov'', exec_instr_inmed_mov), (''exec_instr_xchg'', exec_instr_xchg),
     (''exec_instr_jmp'', exec_instr_jmp), (''exec_instr_jmpr'', exec_instr_jmpr),
     (''exec_instr_jrel'', exec_instr_jrel), (''exec_instr_jumptable'', exec_instr_jumptable),
     (''exec_instr_callvm'', exec_instr_callvm), (''exec_instr_callvmr'', exec_instr_callvmr),
     (''exec_instr_ret'', exec_instr_ret), (''exec_instr_enter'', exec_instr_enter),
     (''exec_instr_leave'', exec_instr_leave), (''exec_instr_subsp'', exec_instr_subsp),
     (''exec_instr_addsp'', exec_instr_addsp), (''exec_instr_hlt'', exec_instr_hlt),
     (''exec_instr_fastpush'', exec_instr_fastpush), (''exec_instr_fastpop'', exec_instr_fastpop),
     (''exec_instr_tryenter'', exec_instr_tryenter), (''exec_instr_tryleave'', exec_instr_tryleave),
     (''exec_instr_throw'', exec_instr_throw rt), (''exec_instr_rethrow'', exec_instr_rethrow rt),
     (''exec_instr_yield'', exec_instr_yield)]"

definition run_exec :: "(string \<Rightarrow> handler) \<Rightarrow> Runtime \<Rightarrow> string \<Rightarrow> handler" where
  "run_exec other rt name =
     (case map_of (exec_alu_table rt @ exec_stack_table rt) name of Some h \<Rightarrow> h | None \<Rightarrow> other name)"

definition current_instr :: "ProcessVM \<Rightarrow> DecodedInstr res" where
  "current_instr p = (case decoded_ptr p of None \<Rightarrow> Inl HostFault | Some i \<Rightarrow> Inr (icache p i))"

text \<open>What follows a handler: a blocked process stays at its instruction, a jump has set the counter.\<close>

definition advance :: "ProcessVM \<Rightarrow> (vm_event \<times> ProcessVM) res" where
  "advance p =
     rbind (current_instr p) (\<lambda>d.
       if blocking d then Inr (EVT_IO_WAIT, p)
       else if \<not> did_jump d then Inr (EVT_EXEC_DONE, set_rip (pc_of p + ucast (size_instr d)) p)
       else rbind (upd_decoded (\<lambda>d. d\<lparr>did_jump := False\<rparr>) p) (\<lambda>p1. Inr (EVT_EXEC_DONE, p1)))"

definition execute_instruction :: "(string \<Rightarrow> handler) \<Rightarrow> Runtime \<Rightarrow> ProcessVM \<Rightarrow> (vm_event \<times> ProcessVM) res" where
  "execute_instruction other rt p =
     rbind (current_instr p) (\<lambda>d.
       case metadata d of None \<Rightarrow> Inl HostFault
       | Some fmt \<Rightarrow>
           (case fmt_exec fmt of None \<Rightarrow> Inr (EVT_HALT, raise_event EVT_HALT p)
            | Some name \<Rightarrow> rbind (run_exec other rt name p d) advance))"

section \<open>The state machine\<close>

definition on_event :: "vm_event \<Rightarrow> ProcessVM \<Rightarrow> ProcessVM res" where
  "on_event e p =
     (let t = fsm (state p) e
      in rbind (if t_action t = Some Act_decode then decode_instruction p else Inr p)
           (\<lambda>p1. Inr (p1\<lparr>state := t_next t\<rparr>)))"

partial_function (option) run_fsm_step :: "(string \<Rightarrow> handler) \<Rightarrow> Runtime \<Rightarrow> ProcessVM \<Rightarrow> ProcessVM res option" where
  [code]: "run_fsm_step other rt p =
     (case state p of
        READY \<Rightarrow> (case on_event EVT_SCHEDULED p of Inl x \<Rightarrow> Some (Inl x)
                  | Inr p1 \<Rightarrow> run_fsm_step other rt p1)
      | RUNNING \<Rightarrow> (case on_event EVT_SCHEDULED p of Inl x \<Rightarrow> Some (Inl x)
                  | Inr p1 \<Rightarrow> run_fsm_step other rt p1)
      | DECODE \<Rightarrow> (case on_event EVT_DECODE_DONE p of Inl x \<Rightarrow> Some (Inl x)
                  | Inr p1 \<Rightarrow> run_fsm_step other rt p1)
      | EXECUTE \<Rightarrow> Some (rbind (execute_instruction other rt p) (\<lambda>(e, p1). on_event e p1))
      | _ \<Rightarrow> Some (Inr p))"

section \<open>The threaded dispatch\<close>

text \<open>A handler of the fast path gives \<open>None\<close> where the code goes to the slow path.\<close>

definition next_rip :: "DecodedInstr \<Rightarrow> ProcessVM \<Rightarrow> ProcessVM" where
  "next_rip d p = set_rip (pc_of p + ucast (size_instr d)) p"

definition arith_flags :: "u64 \<Rightarrow> bool \<Rightarrow> bool \<Rightarrow> RFlags \<Rightarrow> RFlags" where
  "arith_flags res cf ov f = set_OF ov (set_CF cf (set_SF (neg64 res) (set_ZF (res = 0) f)))"

definition L_MOV_RR :: "ProcessVM \<Rightarrow> DecodedInstr \<Rightarrow> ProcessVM res option" where
  "L_MOV_RR p d =
     (if i_mode d \<noteq> 3 \<or> signed_instruct d then None
      else Some (rbind (reg p (reg2 d)) (\<lambda>v. rbind (set_reg (reg1 d) v p) (\<lambda>p1. Inr (next_rip d p1)))))"

definition L_MOV_RI :: "ProcessVM \<Rightarrow> DecodedInstr \<Rightarrow> ProcessVM res option" where
  "L_MOV_RI p d =
     (if i_mode d \<noteq> 3 \<or> direction d \<or> signed_instruct d then None
      else Some (rbind (set_reg (imm_reg d) (inmmed d) p) (\<lambda>p1. Inr (next_rip d p1))))"

definition L_ADD_RR :: "ProcessVM \<Rightarrow> DecodedInstr \<Rightarrow> ProcessVM res option" where
  "L_ADD_RR p d =
     (if i_mode d \<noteq> 3 then None
      else Some (rbind (reg p (reg1 d)) (\<lambda>a. rbind (reg p (reg2 d)) (\<lambda>b.
        let res = a + b
        in rbind (set_reg (reg1 d) res p) (\<lambda>p1.
             Inr (next_rip d (set_flags
               (if signed_instruct d
                then arith_flags res False (neg64 ((a XOR res) AND (b XOR res))) (flags (registers p1))
                else arith_flags res (res < a) False (flags (registers p1))) p1)))))))"

definition L_SUB_RR :: "ProcessVM \<Rightarrow> DecodedInstr \<Rightarrow> ProcessVM res option" where
  "L_SUB_RR p d =
     (if i_mode d \<noteq> 3 then None
      else Some (rbind (reg p (reg1 d)) (\<lambda>a. rbind (reg p (reg2 d)) (\<lambda>b.
        let res = a - b
        in rbind (set_reg (reg1 d) res p) (\<lambda>p1.
             Inr (next_rip d (set_flags
               (if signed_instruct d
                then arith_flags res False (neg64 ((a XOR b) AND (a XOR res))) (flags (registers p1))
                else arith_flags res (a < b) False (flags (registers p1))) p1)))))))"

definition L_CMP_RR :: "ProcessVM \<Rightarrow> DecodedInstr \<Rightarrow> ProcessVM res option" where
  "L_CMP_RR p d =
     (if i_mode d \<noteq> 3 then None
      else Some (rbind (reg p (reg1 d)) (\<lambda>a. rbind (reg p (reg2 d)) (\<lambda>b.
        let res = a - b
        in Inr (next_rip d (set_flags
             (if signed_instruct d
              then arith_flags res False (neg64 ((a XOR b) AND (a XOR res))) (flags (registers p))
              else arith_flags res (a < b) False (flags (registers p))) p))))))"

definition logic_rr :: "(u64 \<Rightarrow> u64 \<Rightarrow> u64) \<Rightarrow> ProcessVM \<Rightarrow> DecodedInstr \<Rightarrow> ProcessVM res option" where
  "logic_rr f p d =
     (if i_mode d \<noteq> 3 then None
      else Some (rbind (reg p (reg1 d)) (\<lambda>a. rbind (reg p (reg2 d)) (\<lambda>b.
        let res = f a b
        in rbind (set_reg (reg1 d) res p) (\<lambda>p1.
             Inr (next_rip d (set_flags (arith_flags res False False (flags (registers p1))) p1)))))))"

definition L_AND_RR :: "ProcessVM \<Rightarrow> DecodedInstr \<Rightarrow> ProcessVM res option" where
  "L_AND_RR = logic_rr (\<lambda>a b. a AND b)"

definition L_OR_RR :: "ProcessVM \<Rightarrow> DecodedInstr \<Rightarrow> ProcessVM res option" where
  "L_OR_RR = logic_rr (\<lambda>a b. a OR b)"

definition L_XOR_RR :: "ProcessVM \<Rightarrow> DecodedInstr \<Rightarrow> ProcessVM res option" where
  "L_XOR_RR = logic_rr (\<lambda>a b. a XOR b)"

text \<open>The condition codes of the inlined jumps.\<close>

definition fast_cond :: "u8 \<Rightarrow> RFlags \<Rightarrow> bool" where
  "fast_cond cond fl =
     (if cond = 0x00 then ZF fl
      else if cond = 0x01 then \<not> ZF fl
      else if cond = 0x02 then CF fl
      else if cond = 0x03 then \<not> CF fl
      else if cond = 0x04 then SF fl
      else if cond = 0x05 then \<not> SF fl
      else if cond = 0x06 then OF fl
      else if cond = 0x07 then \<not> OF fl
      else if cond = 0x08 then \<not> CF fl \<and> \<not> ZF fl
      else if cond = 0x09 then CF fl \<or> ZF fl
      else if cond = 0x0A then SF fl = OF fl
      else if cond = 0x0B then SF fl \<noteq> OF fl
      else if cond = 0x0C then \<not> ZF fl \<and> SF fl = OF fl
      else if cond = 0x0D then ZF fl \<or> SF fl \<noteq> OF fl
      else True)"

definition L_CMPJMP :: "ProcessVM \<Rightarrow> DecodedInstr \<Rightarrow> ProcessVM res option" where
  "L_CMPJMP p d =
     Some (rbind (reg p (sd_r0 d)) (\<lambda>a. rbind (reg p (sd_r1 d)) (\<lambda>b.
       let res = a - b;
           p1 = set_flags
             (if opcode_index d = 0x68
              then arith_flags res False (neg64 ((a XOR b) AND (a XOR res))) (flags (registers p))
              else arith_flags res (a < b) False (flags (registers p))) p
       in if fast_cond (ucast (sd_pad d)) (flags (registers p1))
          then Inr (set_rip (ucast (sd_offset d)) p1) else Inr (next_rip d p1))))"

definition L_JCC :: "ProcessVM \<Rightarrow> DecodedInstr \<Rightarrow> ProcessVM res option" where
  "L_JCC p d =
     Some (if fast_cond (imm_reg d) (flags (registers p)) then Inr (set_rip (inmmed d) p)
           else Inr (next_rip d p))"

text \<open>
  The switch of the inlined three-operand arithmetic, which repeats that of \<open>exec_instr_alu3\<close> in
  another order and with other flag assignments; \<open>None\<close> is its default, which leaves for the slow path.
\<close>

definition fast_alu3_switch :: "u8 \<Rightarrow> u64 \<Rightarrow> u64 \<Rightarrow> RFlags \<Rightarrow> (u64 \<times> RFlags) res option" where
  "fast_alu3_switch opc a b fl =
     (if opc = 0x73 then
        (let res = a + b
         in Some (Inr (res, set_CF False (set_OF (sint ((a XOR res) AND (b XOR res)) < 0)
              (set_SF (sint res < 0) (set_ZF (res = 0) fl))))))
      else if opc = 0x76 then
        (let res = a + b
         in Some (Inr (res, set_OF False (set_CF (res < a) (set_SF (sint res < 0) (set_ZF (res = 0) fl))))))
      else if opc = 0x74 then
        (let res = a - b
         in Some (Inr (res, set_CF False (set_OF (sint ((a XOR b) AND (a XOR res)) < 0)
              (set_SF (sint res < 0) (set_ZF (res = 0) fl))))))
      else if opc = 0x77 then
        (let res = a - b
         in Some (Inr (res, set_OF False (set_CF (a < b) (set_SF (sint res < 0) (set_ZF (res = 0) fl))))))
      else if opc = 0x75 then
        (if sint a * sint b < S_MIN TYPE(64) \<or> sint a * sint b > S_MAX TYPE(64) then Some (Inl Undefined)
         else let res = word_of_int (sint a * sint b)
              in Some (Inr (res, set_OF False (set_CF False (set_SF (sint res < 0) (set_ZF (res = 0) fl))))))
      else if opc = 0x78 then
        (let res = a * b
         in Some (Inr (res, set_OF False (set_CF False (set_SF (sint res < 0) (set_ZF (res = 0) fl))))))
      else if opc = 0x79 then
        (let res = a AND b
         in Some (Inr (res, set_OF False (set_CF False (set_SF (sint res < 0) (set_ZF (res = 0) fl))))))
      else if opc = 0x7A then
        (let res = a OR b
         in Some (Inr (res, set_OF False (set_CF False (set_SF (sint res < 0) (set_ZF (res = 0) fl))))))
      else if opc = 0x7B then
        (let res = a XOR b
         in Some (Inr (res, set_OF False (set_CF False (set_SF (sint res < 0) (set_ZF (res = 0) fl))))))
      else None)"

definition L_ALU3 :: "ProcessVM \<Rightarrow> DecodedInstr \<Rightarrow> ProcessVM res option" where
  "L_ALU3 p d =
     (let b2 = reg1 d; b3 = reg2 d; r_dst = lo_nibble b2; r_src1 = hi_nibble b2; r_src2 = hi_nibble b3
      in case reg p r_src1 of Inl e \<Rightarrow> Some (Inl e)
         | Inr a \<Rightarrow>
           (case reg p r_src2 of Inl e \<Rightarrow> Some (Inl e)
            | Inr b \<Rightarrow>
                map_option (\<lambda>r. rbind r (\<lambda>(res, f).
                    rbind (set_reg r_dst res p) (\<lambda>p1. Inr (next_rip d (set_flags f p1)))))
                  (fast_alu3_switch (opcode_index d) a b (flags (registers p)))))"

text \<open>The slow path of the threaded dispatch, up to the event it computes.\<close>

definition L_SLOW :: "(string \<Rightarrow> handler) \<Rightarrow> Runtime \<Rightarrow> ProcessVM \<Rightarrow> DecodedInstr \<Rightarrow> (vm_event \<times> ProcessVM) res" where
  "L_SLOW other rt p d =
     (case exec_cached d of None \<Rightarrow> Inr (EVT_HALT, raise_event EVT_HALT p)
      | Some name \<Rightarrow> rbind (run_exec other rt name p d) advance)"

definition dispatch_idx :: "DecodedInstr \<Rightarrow> nat" where
  "dispatch_idx d = (if is_not_extended d = 0 then 256 + unat (opcode_index d) else unat (is_not_extended d))"

definition dispatch_table :: "nat \<Rightarrow> (ProcessVM \<Rightarrow> DecodedInstr \<Rightarrow> ProcessVM res option) option" where
  "dispatch_table i =
     (if i = 0x114 then Some L_MOV_RR
      else if i = 0x115 then Some L_MOV_RI
      else if i = 0x105 then Some L_ADD_RR
      else if i = 0x108 then Some L_SUB_RR
      else if i = 0x111 then Some L_CMP_RR
      else if i = 0x117 then Some L_AND_RR
      else if i = 0x118 then Some L_OR_RR
      else if i = 0x119 then Some L_XOR_RR
      else if i = 0x168 \<or> i = 0x169 then Some L_CMPJMP
      else if 0x173 \<le> i \<and> i \<le> 0x17B then Some L_ALU3
      else if i = 0x11 then Some L_JCC
      else None)"

definition fast_step :: "(string \<Rightarrow> handler) \<Rightarrow> Runtime \<Rightarrow> ProcessVM \<Rightarrow> (vm_event \<times> ProcessVM) res" where
  "fast_step other rt p =
     rbind (current_instr p) (\<lambda>d.
       case dispatch_table (dispatch_idx d) of None \<Rightarrow> L_SLOW other rt p d
       | Some h \<Rightarrow> (case h p d of None \<Rightarrow> L_SLOW other rt p d
                   | Some r \<Rightarrow> rbind r (\<lambda>p1. Inr (EVT_EXEC_DONE, p1))))"

end
