(* ===== verification/Vm_MemSpec.thy ===== *)
theory Vm_MemSpec
  imports Vm_Memory
begin

text \<open>
  What the virtual memory promises: under an invariant that ties the translation tables, the
  page cache and the host pages together, block and typed accesses behave as accesses to a flat
  array of bytes, across page boundaries and for every state of the page cache.
\<close>

section \<open>Bytes and words\<close>

lemma rbind_simps [simp]: "rbind (Inr x) f = f x" "rbind (Inl e) f = Inl e"
  by (simp_all add: rbind_def)

lemma length_le_bytes [simp]: "length (le_bytes n w) = n"
  by (simp add: le_bytes_def)

lemma bit_le_word:
  "bit (le_word bs :: 'a::len word) n \<longleftrightarrow>
     n < LENGTH('a) \<and> n div 8 < length bs \<and> bit (bs ! (n div 8)) (n mod 8)"
proof (induction bs arbitrary: n)
  case (Cons b bs)
  show ?case
  proof (cases "n < 8")
    case True
    then show ?thesis by (auto simp: bit_simps)
  next
    case False
    then obtain k where k: "n = 8 + k" by (metis le_iff_add linorder_not_less)
    then have d: "n div 8 = Suc (k div 8)" "n mod 8 = k mod 8" by simp_all
    have "\<not> bit b n" using k by (auto dest: bit_imp_le_length)
    then show ?thesis unfolding d using Cons.IH [of k] k by (auto simp: bit_simps)
  qed
qed simp

lemma le_word_le_bytes:
  "LENGTH('a) \<le> 8 * n \<Longrightarrow> le_word (le_bytes n (w :: 'a::len word)) = w"
proof (rule bit_word_eqI)
  fix k assume n: "LENGTH('a) \<le> 8 * n" and k: "k < LENGTH('a)"
  then have "k div 8 < n" by (simp add: div_less_iff_less_mult)
  then show "bit (le_word (le_bytes n w) :: 'a word) k \<longleftrightarrow> bit w k"
    using k by (simp add: bit_le_word le_bytes_def bit_simps)
qed

section \<open>Pages\<close>

lemma page_split: "page_base a + page_off a = a"
  unfolding page_base_def page_off_def
  by (subst disjunctive_add) (auto simp: bit_simps intro: bit_word_eqI)

lemma page_off_base [simp]: "page_off (page_base a) = 0"
  by (rule bit_word_eqI) (auto simp: page_off_def page_base_def bit_simps)

lemma unat_page_base: "unat (page_base a) = unat a - unat a mod 4096"
proof -
  have "unat a = unat (page_base a + page_off a)" by (simp add: page_split)
  moreover have "unat (page_base a + page_off a) = unat (page_base a) + unat (page_off a)"
  proof -
    have "page_base a + page_off a = page_base a OR page_off a"
      unfolding page_base_def page_off_def by (rule disjunctive_add) (auto simp: bit_simps)
    moreover have "unat (page_base a OR page_off a) = unat (page_base a) + unat (page_off a)"
      unfolding unsigned_or_eq
      by (rule disjunctive_add [symmetric]) (auto simp: bit_simps page_base_def page_off_def)
    ultimately show ?thesis by simp
  qed
  ultimately show ?thesis by (simp add: unat_page_off)
qed

lemma aligned_iff: "page_off p = 0 \<longleftrightarrow> 4096 dvd unat p"
  using unat_page_off [of p] by (metis mod_eq_0_iff_dvd unat_eq_zero)

lemma unat_aligned_add:
  assumes "page_off p = 0" "unat o' < 4096"
  shows "unat (p + o') = unat p + unat o'"
proof -
  obtain k where k: "unat p = 4096 * k" using assms(1) unfolding aligned_iff by (auto elim: dvdE)
  moreover have "unat p < 4096 * 2 ^ 52" using unat_lt64 [of p] by simp
  ultimately have "k < 2 ^ 52" by simp
  then have "4096 * k + 4096 \<le> 2 ^ 64" by simp
  then show ?thesis using k assms(2) by (intro unat_add_small) simp
qed

lemma aligned_add:
  assumes "page_off p = 0" "unat o' < 4096"
  shows "page_base (p + o') = p" "page_off (p + o') = o'"
proof -
  obtain k where k: "unat p = 4096 * k" using assms(1) unfolding aligned_iff by (auto elim: dvdE)
  have u: "unat (p + o') = 4096 * k + unat o'" using unat_aligned_add [OF assms] k by simp
  show "page_off (p + o') = o'" using assms(2) unfolding unat_eq_iff64 unat_page_off u by simp
  show "page_base (p + o') = p" using assms(2) unfolding unat_eq_iff64 unat_page_base u k by simp
qed

lemma in_chunk:
  assumes "unat (page_off a) + n \<le> 4096"
  shows "unat (x - a) < n \<longleftrightarrow>
    page_base x = page_base a \<and> unat (page_off a) \<le> unat (page_off x) \<and>
    unat (page_off x) < unat (page_off a) + n" (is "?l \<longleftrightarrow> ?r")
    and "page_base x = page_base a \<Longrightarrow> unat (page_off a) \<le> unat (page_off x) \<Longrightarrow>
      unat (x - a) = unat (page_off x) - unat (page_off a)"
proof -
  show d: "unat (x - a) = unat (page_off x) - unat (page_off a)"
    if "page_base x = page_base a" "unat (page_off a) \<le> unat (page_off x)" for x
  proof -
    have "x - a = (page_base x + page_off x) - (page_base a + page_off a)" by (simp add: page_split)
    also have "\<dots> = page_off x - page_off a" unfolding that(1) by simp
    finally have "x - a = page_off x - page_off a" .
    then show ?thesis using that(2) by (simp add: unat_sub_small)
  qed
  show "?l \<longleftrightarrow> ?r"
  proof
    assume l: ?l
    have u: "unat (page_off a + (x - a)) = unat (page_off a) + unat (x - a)"
      using l assms page_off_less [of a] by (intro unat_add_small) simp
    have x: "x = page_base a + (page_off a + (x - a))"
      unfolding add.assoc [symmetric] by (simp add: page_split)
    have "unat (page_off a + (x - a)) < 4096" using u l assms by simp
    then show ?r using aligned_add [of "page_base a" "page_off a + (x - a)"] x u l by simp
  next
    assume ?r
    then show ?l using d [of x] by auto
  qed
qed

section \<open>Accesses within one host page\<close>

lemma host_read_page:
  assumes "page_off p = 0" "hpages h p = Some pg" "has_perm (hp_perms pg) PERM_READ" "k + n \<le> 4096"
  shows "host_read h (p + of_nat k) n = Some (map (\<lambda>i. hp_bytes pg (of_nat (k + i))) [0..<n])"
  using assms(4)
proof (induction n arbitrary: k)
  case (Suc n)
  have k: "unat (of_nat k :: u64) < 4096" using Suc.prems by (simp add: unat_of_nat64)
  have "host_byte h (p + of_nat k) = Some (hp_bytes pg (of_nat k))"
    using aligned_add [OF assms(1) k] assms(2,3) by (simp add: host_byte_def)
  moreover have "p + of_nat k + 1 = p + of_nat (Suc k)" by simp
  moreover have "host_read h (p + of_nat (Suc k)) n =
      Some (map (\<lambda>i. hp_bytes pg (of_nat (Suc k + i))) [0..<n])"
    using Suc.IH [of "Suc k"] Suc.prems by simp
  moreover have "map (\<lambda>i. hp_bytes pg (of_nat (k + i))) [0..<Suc n] =
      hp_bytes pg (of_nat k) # map (\<lambda>i. hp_bytes pg (of_nat (Suc k + i))) [0..<n]"
    unfolding upt_conv_Cons [OF zero_less_Suc] map_Suc_upt [symmetric] by (simp add: ac_simps)
  ultimately show ?case unfolding host_read.simps by (simp only: option.case)
qed simp

lemma host_write_page:
  assumes "page_off p = 0" "hpages h p = Some pg" "has_perm (hp_perms pg) PERM_WRITE"
    "k + length bs \<le> 4096"
  shows "host_write h (p + of_nat k) bs =
    Some (h\<lparr>hpages := (hpages h)(p \<mapsto> pg\<lparr>hp_bytes := (\<lambda>x. if k \<le> unat x \<and> unat x < k + length bs
       then bs ! (unat x - k) else hp_bytes pg x)\<rparr>)\<rparr>)"
  using assms(2,3,4)
proof (induction bs arbitrary: k h pg)
  case Nil
  have "(\<lambda>x. if k \<le> unat x \<and> unat x < k + length ([] :: u8 list) then [] ! (unat x - k)
      else hp_bytes pg x) = hp_bytes pg" by (rule ext) auto
  moreover have "(hpages h)(p \<mapsto> pg) = hpages h" using Nil by auto
  ultimately show ?case by simp
next
  case (Cons b bs)
  have k: "unat (of_nat k :: u64) = k" using Cons.prems by (simp add: unat_of_nat64)
  let ?pg = "pg\<lparr>hp_bytes := (hp_bytes pg)(of_nat k := b)\<rparr>"
  have s: "host_set h (p + of_nat k) b = Some (h\<lparr>hpages := (hpages h)(p \<mapsto> ?pg)\<rparr>)"
    using aligned_add [OF assms(1), of "of_nat k"] Cons.prems k by (simp add: host_set_def)
  have n: "p + of_nat k + 1 = p + of_nat (Suc k)" by simp
  have eq: "(\<lambda>x. if Suc k \<le> unat x \<and> unat x < Suc k + length bs then bs ! (unat x - Suc k)
        else hp_bytes ?pg x) =
      (\<lambda>x. if k \<le> unat x \<and> unat x < k + length (b # bs) then (b # bs) ! (unat x - k)
        else hp_bytes pg x)"
    using k by (auto simp: fun_eq_iff nth_Cons' unat_eq_iff64)
  let ?h = "h\<lparr>hpages := (hpages h)(p \<mapsto> ?pg)\<rparr>"
  have "host_write ?h (p + of_nat (Suc k)) bs =
    Some (?h\<lparr>hpages := (hpages ?h)(p \<mapsto> ?pg\<lparr>hp_bytes := (\<lambda>x. if Suc k \<le> unat x \<and>
      unat x < Suc k + length bs then bs ! (unat x - Suc k) else hp_bytes ?pg x)\<rparr>)\<rparr>)"
    by (rule Cons.IH) (use Cons.prems in simp_all)
  then show ?case unfolding host_write.simps s option.case n eq by (simp del: fun_upd_apply)
qed

section \<open>The flat view and the invariant\<close>

text \<open>The host page of a virtual address, and the byte it denotes; an unmapped page reads zero.\<close>

definition vpage :: "VirtualMemory \<Rightarrow> u64 \<Rightarrow> u64 option" where
  "vpage m a =
     (case get_entry (vm_tlb m) a of None \<Rightarrow> None
      | Some e \<Rightarrow> if type_address e = MAPPED_PTR_HOST then Some (address e) else None)"

definition vbyte :: "VirtualMemory \<Rightarrow> u64 \<Rightarrow> u8" where
  "vbyte m a =
     (case vpage m a of None \<Rightarrow> 0
      | Some p \<Rightarrow> (case hpages (vm_host m) p of None \<Rightarrow> 0 | Some pg \<Rightarrow> hp_bytes pg (page_off a)))"

definition backed :: "VirtualMemory \<Rightarrow> u64 \<Rightarrow> bool" where
  "backed m a \<longleftrightarrow>
     (case vpage m a of None \<Rightarrow> False
      | Some p \<Rightarrow> (case hpages (vm_host m) p of None \<Rightarrow> False
                   | Some pg \<Rightarrow> has_perm (hp_perms pg) PERM_READ \<and> has_perm (hp_perms pg) PERM_WRITE))"

definition range_backed :: "VirtualMemory \<Rightarrow> u64 \<Rightarrow> nat \<Rightarrow> bool" where
  "range_backed m a n \<longleftrightarrow> (\<forall>i<n. backed m (a + of_nat i))"

text \<open>
  The tables point at aligned, mapped host pages, different virtual pages at different ones, and
  the page cache agrees with the tables.
\<close>

definition vm_ok :: "VirtualMemory \<Rightarrow> bool" where
  "vm_ok m \<longleftrightarrow>
     tlb_wf (vm_tlb m) \<and>
     (\<forall>a p. vpage m a = Some p \<longrightarrow> page_off p = 0 \<and> p \<noteq> 0 \<and> hpages (vm_host m) p \<noteq> None) \<and>
     (\<forall>a b p. vpage m a = Some p \<and> vpage m b = Some p \<longrightarrow> page_base a = page_base b) \<and>
     (cached_page_vaddr m = UINT64_MAX \<or>
      page_off (cached_page_vaddr m) = 0 \<and>
      vpage m (cached_page_vaddr m) = Some (cached_page_host m))"

lemma vm_okD:
  assumes "vm_ok m"
  shows "tlb_wf (vm_tlb m)"
    and "vpage m a = Some p \<Longrightarrow> page_off p = 0"
    and "vpage m a = Some p \<Longrightarrow> p \<noteq> 0"
    and "vpage m a = Some p \<Longrightarrow> hpages (vm_host m) p \<noteq> None"
    and "vpage m a = Some p \<Longrightarrow> vpage m b = Some p \<Longrightarrow> page_base a = page_base b"
    and "cached_page_vaddr m = UINT64_MAX \<or> page_off (cached_page_vaddr m) = 0 \<and>
      vpage m (cached_page_vaddr m) = Some (cached_page_host m)"
  using assms unfolding vm_ok_def by blast+

lemma vm_okI:
  assumes "tlb_wf (vm_tlb m)"
    and "\<And>a p. vpage m a = Some p \<Longrightarrow> page_off p = 0"
    and "\<And>a p. vpage m a = Some p \<Longrightarrow> p \<noteq> 0"
    and "\<And>a p. vpage m a = Some p \<Longrightarrow> hpages (vm_host m) p \<noteq> None"
    and "\<And>a b p. vpage m a = Some p \<Longrightarrow> vpage m b = Some p \<Longrightarrow> page_base a = page_base b"
    and "cached_page_vaddr m = UINT64_MAX \<or> page_off (cached_page_vaddr m) = 0 \<and>
      vpage m (cached_page_vaddr m) = Some (cached_page_host m)"
  shows "vm_ok m"
  using assms unfolding vm_ok_def by blast

lemma page_base_idem [simp]: "page_base (page_base a) = page_base a"
  by (rule bit_word_eqI) (auto simp: page_base_def bit_simps)

lemma get_entry_page: "page_base a = page_base b \<Longrightarrow> get_entry t a = get_entry t b"
  using page_index_eq [of a b] by (simp add: get_entry_alt)

lemma vpage_page: "page_base a = page_base b \<Longrightarrow> vpage m a = vpage m b"
  by (simp add: vpage_def get_entry_page [of a b])

lemma vpage_base [simp]: "vpage m (page_base a) = vpage m a"
  by (rule vpage_page) simp

lemma backed_page: "page_base a = page_base b \<Longrightarrow> backed m a = backed m b"
  by (simp add: backed_def vpage_page [of a b])

lemma page_base_not_max: "page_base a \<noteq> UINT64_MAX"
proof
  assume "page_base a = UINT64_MAX"
  then have "page_off UINT64_MAX = 0" by (metis page_off_base)
  then show False by (simp add: UINT64_MAX_def page_off_def)
qed

lemma backedE:
  assumes "backed m a"
  obtains p pg where "vpage m a = Some p" "hpages (vm_host m) p = Some pg"
    "has_perm (hp_perms pg) PERM_READ" "has_perm (hp_perms pg) PERM_WRITE"
  using assms by (auto simp: backed_def split: option.splits)

abbreviation set_cache :: "u64 \<Rightarrow> u64 \<Rightarrow> VirtualMemory \<Rightarrow> VirtualMemory" where
  "set_cache a p m \<equiv> m\<lparr>cached_page_vaddr := page_base a, cached_page_host := p\<rparr>"

lemma view_cong:
  assumes "vm_tlb m' = vm_tlb m" "vm_host m' = vm_host m"
  shows "vpage m' a = vpage m a" "vbyte m' a = vbyte m a" "backed m' a = backed m a"
  by (simp_all only: vpage_def vbyte_def backed_def assms)

lemma vm_ok_set_cache:
  assumes "vm_ok m" "vpage m a = Some p"
  shows "vm_ok (set_cache a p m)"
proof -
  have v: "vpage (set_cache a p m) b = vpage m b" for b by (rule view_cong(1)) simp_all
  show ?thesis
  proof (rule vm_okI; (unfold v)?)
    show "tlb_wf (vm_tlb (set_cache a p m))" using vm_okD(1) [OF assms(1)] by simp
    show "page_off q = 0" "q \<noteq> 0" "hpages (vm_host (set_cache a p m)) q \<noteq> None"
      if "vpage m b = Some q" for b q
      using vm_okD(2-4) [OF assms(1) that] by simp_all
    show "page_base b = page_base c" if "vpage m b = Some q" "vpage m c = Some q" for b c q
      by (rule vm_okD(5) [OF assms(1) that])
  qed (simp add: assms(2))
qed

lemma resolve_backed:
  assumes "vm_ok m" "vpage m a = Some p"
  shows "resolve_page m a = Inr (p, set_cache a p m)"
proof (cases "page_base a = cached_page_vaddr m")
  case True
  then have "vpage m a = Some (cached_page_host m)"
    using vm_okD(6) [OF assms(1)] page_base_not_max [of a] by (metis vpage_base)
  then show ?thesis using True assms(2) by (simp add: resolve_page_def)
next
  case False
  then show ?thesis using assms(2)
    by (auto simp: resolve_page_def vpage_def split: option.splits if_splits)
qed

section \<open>One chunk\<close>

lemma addr_chunk:
  assumes "unat (page_off a) + n \<le> 4096" "i < n"
  shows "page_base (a + of_nat i) = page_base a"
    and "page_off (a + of_nat i) = of_nat (unat (page_off a) + i)"
proof -
  have i: "unat (of_nat i :: u64) = i" using assms by (simp add: unat_of_nat64)
  then have "unat (a + of_nat i - a) < n" using assms(2) by simp
  then have c: "page_base (a + of_nat i) = page_base a"
      "unat (page_off a) \<le> unat (page_off (a + of_nat i))"
    using in_chunk(1) [OF assms(1), of "a + of_nat i"] by blast+
  show "page_base (a + of_nat i) = page_base a" by (rule c(1))
  have "i = unat (page_off (a + of_nat i)) - unat (page_off a)"
    using in_chunk(2) [OF assms(1) c] i by simp
  then have "unat (page_off (a + of_nat i)) = unat (page_off a) + i" using c(2) by linarith
  moreover have "unat (page_off a) + i < 2 ^ 64" using assms by simp
  ultimately show "page_off (a + of_nat i) = of_nat (unat (page_off a) + i)"
    unfolding unat_eq_iff64 by (simp only: unat_of_nat64)
qed

lemma read_chunk:
  assumes "vm_ok m" "backed m a" "vpage m a = Some p" "unat (page_off a) + n \<le> 4096"
  shows "host_read (vm_host m) (p + page_off a) n = Some (map (\<lambda>i. vbyte m (a + of_nat i)) [0..<n])"
proof -
  obtain pg where pg: "hpages (vm_host m) p = Some pg" "has_perm (hp_perms pg) PERM_READ"
    using assms(2,3) by (auto elim: backedE)
  have "vbyte m (a + of_nat i) = hp_bytes pg (of_nat (unat (page_off a) + i))" if "i < n" for i
    using addr_chunk [OF assms(4) that] assms(3) pg(1) vpage_page [of "a + of_nat i" a m]
    by (simp add: vbyte_def)
  then show ?thesis
    using host_read_page [OF vm_okD(2) [OF assms(1,3)] pg assms(4)] by simp
qed

lemma write_chunk:
  assumes "vm_ok m" "backed m a" "vpage m a = Some p" "unat (page_off a) + length bs \<le> 4096"
  obtains h where "host_write (vm_host m) (p + page_off a) bs = Some h" "vm_ok (m\<lparr>vm_host := h\<rparr>)"
    "\<And>x. vbyte (m\<lparr>vm_host := h\<rparr>) x = (if unat (x - a) < length bs then bs ! unat (x - a) else vbyte m x)"
    "\<And>x. backed (m\<lparr>vm_host := h\<rparr>) x = backed m x" "\<And>x. vpage (m\<lparr>vm_host := h\<rparr>) x = vpage m x"
proof -
  obtain pg where pg: "hpages (vm_host m) p = Some pg" "has_perm (hp_perms pg) PERM_WRITE"
      "has_perm (hp_perms pg) PERM_READ"
    using assms(2,3) by (auto elim: backedE)
  define k where "k = unat (page_off a)"
  define pg' where "pg' = pg\<lparr>hp_bytes := (\<lambda>x. if k \<le> unat x \<and> unat x < k + length bs
       then bs ! (unat x - k) else hp_bytes pg x)\<rparr>"
  define h where "h = (vm_host m)\<lparr>hpages := (hpages (vm_host m))(p \<mapsto> pg')\<rparr>"
  have w: "host_write (vm_host m) (p + page_off a) bs = Some h"
    unfolding h_def pg'_def k_def
    using host_write_page [OF vm_okD(2) [OF assms(1,3)] pg(1,2) assms(4)] by simp
  have v: "vpage (m\<lparr>vm_host := h\<rparr>) x = vpage m x" for x by (simp add: vpage_def)
  have hp: "hpages h q = (if q = p then Some pg' else hpages (vm_host m) q)" for q
    by (simp add: h_def)
  have b: "vbyte (m\<lparr>vm_host := h\<rparr>) x =
      (if unat (x - a) < length bs then bs ! unat (x - a) else vbyte m x)" for x
  proof (cases "vpage m x = Some p")
    case True
    then have "page_base x = page_base a" by (rule vm_okD(5) [OF assms(1) _ assms(3)])
    then show ?thesis using True pg(1) in_chunk [OF assms(4), of x]
      by (auto simp: vbyte_def v hp pg'_def k_def)
  next
    case False
    then have "page_base x \<noteq> page_base a" using assms(3) vpage_page [of x a m] by auto
    then show ?thesis using False in_chunk(1) [OF assms(4), of x]
      by (auto simp: vbyte_def v hp split: option.splits)
  qed
  have bk: "backed (m\<lparr>vm_host := h\<rparr>) x = backed m x" for x
    using pg by (auto simp: backed_def v hp pg'_def split: option.splits)
  have ok: "vm_ok (m\<lparr>vm_host := h\<rparr>)"
  proof (rule vm_okI; (unfold v)?)
    show "hpages (vm_host (m\<lparr>vm_host := h\<rparr>)) q \<noteq> None" if "vpage m y = Some q" for y q
      using vm_okD(4) [OF assms(1) that] by (simp add: hp)
    show "page_base y = page_base z" if "vpage m y = Some q" "vpage m z = Some q" for y z q
      by (rule vm_okD(5) [OF assms(1) that])
  qed (use vm_okD(1,2,3,6) [OF assms(1)] in simp_all)
  from that [OF w ok b bk v] show ?thesis .
qed

text \<open>The bytes before and after the first \<open>c\<close> of a block.\<close>

lemma chunk_cases:
  fixes x a :: u64
  assumes "c \<le> length bs" "length bs < 2 ^ 64"
  shows "(if unat (x - (a + of_nat c)) < length (drop c bs) then drop c bs ! unat (x - (a + of_nat c))
      else if unat (x - a) < c then take c bs ! unat (x - a) else y) =
    (if unat (x - a) < length bs then bs ! unat (x - a) else y)"
proof -
  define d where "d = x - a"
  have e: "x - (a + of_nat c) = d - of_nat c" by (simp add: d_def)
  have uc: "unat (of_nat c :: u64) = c" using assms by (intro unat_of_nat64) linarith
  show ?thesis
  proof (cases "c \<le> unat d")
    case True
    then have "unat (d - of_nat c) = unat d - c" using unat_sub_small [of "of_nat c" d] uc by simp
    then show ?thesis using True assms unfolding e d_def [symmetric] by auto
  next
    case False
    then have "d < of_nat c" by (simp add: word_less_nat_alt uc)
    then have "unat (d - of_nat c) = unat d + 2 ^ 64 - c"
      using uc False by (simp add: unat_sub_if_size word_size word_le_nat_alt)
    then have "\<not> unat (d - of_nat c) < length bs - c" using assms False by linarith
    then show ?thesis using False assms unfolding e d_def [symmetric] by auto
  qed
qed

section \<open>Block accesses refine the flat view\<close>

definition same_mem :: "VirtualMemory \<Rightarrow> VirtualMemory \<Rightarrow> bool" where
  "same_mem m m' \<longleftrightarrow> vm_host m' = vm_host m \<and> vm_tlb m' = vm_tlb m \<and> vm_arenas m' = vm_arenas m"

lemma same_mem_view:
  assumes "same_mem m m'"
  shows "vpage m' a = vpage m a" "vbyte m' a = vbyte m a" "backed m' a = backed m a"
    "range_backed m' a n = range_backed m a n"
  using assms by (auto simp: same_mem_def view_cong [of m' m] range_backed_def)

lemma same_mem_refl [simp]: "same_mem m m"
  by (simp add: same_mem_def)

lemma same_mem_trans: "same_mem m m' \<Longrightarrow> same_mem m' m'' \<Longrightarrow> same_mem m m''"
  by (simp add: same_mem_def)

lemma range_backed_split:
  assumes "range_backed m a n" "k \<le> n"
  shows "range_backed m a k" "range_backed m (a + of_nat k) (n - k)"
proof -
  show "range_backed m a k" using assms by (simp add: range_backed_def)
  have "backed m (a + of_nat k + of_nat i)" if "i < n - k" for i
  proof -
    have "k + i < n" using assms(2) that by linarith
    then have "backed m (a + of_nat (k + i))" by (rule assms(1) [unfolded range_backed_def, rule_format])
    then show ?thesis by (simp add: add.assoc)
  qed
  then show "range_backed m (a + of_nat k) (n - k)" by (simp add: range_backed_def)
qed

lemma range_backed_hd: "range_backed m a n \<Longrightarrow> 0 < n \<Longrightarrow> backed m a"
  unfolding range_backed_def by (drule spec [of _ 0]) simp

lemma map_upt_split:
  assumes "k \<le> n"
  shows "map f [0..<n] = map f [0..<k] @ map (\<lambda>i. f (k + i)) [0..<n - k]"
proof -
  have "[0..<n] = [0..<k] @ [k..<n]" using assms by (metis le0 upt_add_eq_append le_add_diff_inverse)
  moreover have "map f [k..<n] = map (\<lambda>i. f (k + i)) [0..<n - k]"
    by (rule nth_equalityI) simp_all
  ultimately show ?thesis by simp
qed

lemma read_bytes_backed:
  assumes "vm_ok m" "range_backed m a n"
  obtains m' where "read_bytes m a n = Inr (map (\<lambda>i. vbyte m (a + of_nat i)) [0..<n], m')"
    "vm_ok m'" "same_mem m m'"
proof -
  have "\<exists>m'. read_bytes m a n = Inr (map (\<lambda>i. vbyte m (a + of_nat i)) [0..<n], m') \<and>
      vm_ok m' \<and> same_mem m m'"
    using assms
  proof (induction n arbitrary: m a rule: less_induct)
    case (less n)
    show ?case
    proof (cases "n = 0")
      case True
      then show ?thesis using less.prems by (subst read_bytes.simps) simp
    next
      case False
      define c where "c = min (4096 - unat (page_off a)) n"
      have c: "0 < c" "c \<le> n" "unat (page_off a) + c \<le> 4096"
        using False page_off_less [of a] by (auto simp: c_def)
      have b: "backed m a" using less.prems(2) False by (simp add: range_backed_hd)
      then obtain p where p: "vpage m a = Some p" by (rule backedE)
      let ?m = "set_cache a p m"
      have same: "same_mem m ?m" by (simp add: same_mem_def)
      have ok: "vm_ok ?m" using less.prems(1) p by (rule vm_ok_set_cache)
      have ch: "host_read (vm_host ?m) (p + page_off a) c =
          Some (map (\<lambda>i. vbyte m (a + of_nat i)) [0..<c])"
        using read_chunk [OF less.prems(1) b p c(3)] by simp
      have "range_backed ?m (a + of_nat c) (n - c)"
        using range_backed_split(2) [OF less.prems(2) c(2)] same_mem_view(4) [OF same] by simp
      then obtain m' where m': "read_bytes ?m (a + of_nat c) (n - c) =
            Inr (map (\<lambda>i. vbyte ?m (a + of_nat c + of_nat i)) [0..<n - c], m')"
          "vm_ok m'" "same_mem ?m m'"
        using less.IH [of "n - c" ?m "a + of_nat c"] ok c False by auto
      have "read_bytes m a n = Inr (map (\<lambda>i. vbyte m (a + of_nat i)) [0..<c] @
          map (\<lambda>i. vbyte ?m (a + of_nat c + of_nat i)) [0..<n - c], m')"
        using False ch m'(1)
        by (subst read_bytes.simps)
          (simp add: resolve_backed [OF less.prems(1) p] Let_def flip: c_def)
      also have "\<dots> = Inr (map (\<lambda>i. vbyte m (a + of_nat i)) [0..<n], m')"
        unfolding same_mem_view(2) [OF same]
        by (subst map_upt_split [OF c(2)]) (simp add: add.assoc)
      finally show ?thesis using m'(2) same_mem_trans [OF same m'(3)] by blast
    qed
  qed
  then show ?thesis using that by blast
qed

lemma write_bytes_backed:
  assumes "vm_ok m" "range_backed m a (length bs)" "length bs < 2 ^ 64"
  obtains m' where "write_bytes m a bs = Inr m'" "vm_ok m'"
    "\<And>x. vbyte m' x = (if unat (x - a) < length bs then bs ! unat (x - a) else vbyte m x)"
    "\<And>x. backed m' x = backed m x"
proof -
  have "\<exists>m'. write_bytes m a bs = Inr m' \<and> vm_ok m' \<and>
      (\<forall>x. vbyte m' x = (if unat (x - a) < length bs then bs ! unat (x - a) else vbyte m x)) \<and>
      (\<forall>x. backed m' x = backed m x)"
    using assms
  proof (induction "length bs" arbitrary: m a bs rule: less_induct)
    case less
    show ?case
    proof (cases "bs = []")
      case True
      then show ?thesis using less.prems by (subst write_bytes.simps) simp
    next
      case False
      define c where "c = min (4096 - unat (page_off a)) (length bs)"
      have c: "0 < c" "c \<le> length bs" "unat (page_off a) + c \<le> 4096"
        using False page_off_less [of a] by (auto simp: c_def)
      have b: "backed m a" using less.prems(2) False by (auto intro: range_backed_hd)
      then obtain p where p: "vpage m a = Some p" by (rule backedE)
      let ?m = "set_cache a p m"
      have same: "same_mem m ?m" by (simp add: same_mem_def)
      have ok: "vm_ok ?m" using less.prems(1) p by (rule vm_ok_set_cache)
      have l: "length (take c bs) = c" using c(2) by simp
      obtain h where g: "host_write (vm_host ?m) (p + page_off a) (take c bs) = Some h"
          "vm_ok (?m\<lparr>vm_host := h\<rparr>)"
          "\<And>x. vbyte (?m\<lparr>vm_host := h\<rparr>) x =
             (if unat (x - a) < length (take c bs) then take c bs ! unat (x - a) else vbyte ?m x)"
          "\<And>x. backed (?m\<lparr>vm_host := h\<rparr>) x = backed ?m x"
        by (rule write_chunk [OF ok, of a p "take c bs"])
          (use b p c(3) l same_mem_view [OF same] in simp_all)
      note h = g [unfolded l same_mem_view(2,3) [OF same]]
      let ?n = "?m\<lparr>vm_host := h\<rparr>"
      have "range_backed ?n (a + of_nat c) (length (drop c bs))"
        using range_backed_split(2) [OF less.prems(2) c(2)] h(4) by (simp add: range_backed_def)
      moreover have "length (drop c bs) < length bs" "length (drop c bs) < 2 ^ 64"
        using c False less.prems(3) by (simp_all add: less_imp_diff_less)
      ultimately obtain m' where m': "write_bytes ?n (a + of_nat c) (drop c bs) = Inr m'" "vm_ok m'"
          "\<forall>x. vbyte m' x = (if unat (x - (a + of_nat c)) < length (drop c bs)
             then drop c bs ! unat (x - (a + of_nat c)) else vbyte ?n x)"
          "\<forall>x. backed m' x = backed ?n x"
        using less.hyps [of "drop c bs" ?n "a + of_nat c"] h(2) by blast
      have w: "write_bytes m a bs = Inr m'"
        using False h(1) m'(1)
        by (subst write_bytes.simps)
          (simp add: resolve_backed [OF less.prems(1) p] Let_def flip: c_def)
      have "vbyte m' x = (if unat (x - a) < length bs then bs ! unat (x - a) else vbyte m x)" for x
        unfolding m'(3) [rule_format] h(3)
        by (rule chunk_cases) (use c less.prems(3) in auto)
      then show ?thesis using w m'(2,4) h(4) by auto
    qed
  qed
  then show ?thesis using that by blast
qed

section \<open>Typed accesses\<close>

definition vword :: "VirtualMemory \<Rightarrow> u64 \<Rightarrow> 'a::len word" where
  "vword m a = le_word (map (\<lambda>i. vbyte m (a + of_nat i)) [0..<LENGTH('a) div 8])"

lemma vword_cong: "(\<And>x. vbyte m' x = vbyte m x) \<Longrightarrow> vword m' a = vword m a"
  by (simp add: vword_def)

lemma same_mem_vword: "same_mem m m' \<Longrightarrow> vword m' a = vword m a"
  by (rule vword_cong) (rule same_mem_view(2))

text \<open>Two cells of eight bytes that do not overlap, also across the end of the address space.\<close>

definition apart :: "u64 \<Rightarrow> u64 \<Rightarrow> bool" where
  "apart x a \<longleftrightarrow> 8 \<le> unat (x - a) \<and> 8 \<le> unat (a - x)"

lemma unat_neg64: "d \<noteq> 0 \<Longrightarrow> unat (- d :: u64) = 2 ^ 64 - unat d"
  using unat_sub_if' [of 0 d] by (simp add: unat_gt_0 not_le)

lemma apart_bytes:
  assumes "apart x a" "i < 8"
  shows "8 \<le> unat (x + of_nat i - a)"
proof -
  define d where "d = x - a"
  have e: "x + of_nat i - a = d + of_nat i" by (simp add: d_def)
  have i: "unat (of_nat i :: u64) = i" using assms(2) by (intro unat_of_nat64) simp
  have d: "8 \<le> unat d" "unat (a - x) = 2 ^ 64 - unat d" "unat d \<noteq> 0"
  proof -
    show "8 \<le> unat d" using assms(1) by (simp add: apart_def d_def)
    then show "unat d \<noteq> 0" by simp
    then have "d \<noteq> 0" by auto
    moreover have "a - x = - d" by (simp add: d_def)
    ultimately show "unat (a - x) = 2 ^ 64 - unat d" using unat_neg64 by simp
  qed
  have "8 \<le> 2 ^ 64 - unat d" using assms(1) d(2) by (simp add: apart_def)
  then have "unat d + i < 2 ^ 64" using assms(2) by linarith
  then have "unat (d + of_nat i) = unat d + i" using i by (simp add: unat_add_small)
  then show ?thesis unfolding e using d(1) by linarith
qed

lemma read_any_backed:
  assumes "vm_ok m" "range_backed m a (LENGTH('a::len) div 8)"
  obtains m' where "read_any m a = Inr (vword m a :: 'a word, m')" "vm_ok m'" "same_mem m m'"
proof -
  obtain m' where "read_bytes m a (LENGTH('a) div 8) =
      Inr (map (\<lambda>i. vbyte m (a + of_nat i)) [0..<LENGTH('a) div 8], m')" "vm_ok m'" "same_mem m m'"
    by (rule read_bytes_backed [OF assms])
  then show ?thesis by (intro that) (simp_all add: read_any_def vword_def)
qed

lemma write_any_backed:
  fixes v :: "'a::len word"
  assumes "vm_ok m" "range_backed m a (LENGTH('a) div 8)" "LENGTH('a) div 8 < 2 ^ 64"
  obtains m' where "write_any m a v = Inr m'" "vm_ok m'"
    "\<And>x. vbyte m' x = (if unat (x - a) < LENGTH('a) div 8
       then le_bytes (LENGTH('a) div 8) v ! unat (x - a) else vbyte m x)"
    "\<And>x. backed m' x = backed m x"
  using write_bytes_backed [of m a "le_bytes (LENGTH('a) div 8) v"] assms
  unfolding write_any_def length_le_bytes by blast

lemma vword_written:
  fixes v :: "'a::len word"
  assumes "\<And>x. vbyte m' x = (if unat (x - a) < LENGTH('a) div 8
       then le_bytes (LENGTH('a) div 8) v ! unat (x - a) else vbyte m x)"
    "LENGTH('a) = 8 * k" "k < 2 ^ 64"
  shows "vword m' a = v"
proof -
  have "vbyte m' (a + of_nat i) = le_bytes k v ! i" if "i < k" for i
  proof -
    have "unat (of_nat i :: u64) = i" using that assms(3) by (intro unat_of_nat64) linarith
    then show ?thesis using assms(1) [of "a + of_nat i"] that assms(2) by simp
  qed
  then have "map (\<lambda>i. vbyte m' (a + of_nat i)) [0..<k] = le_bytes k v"
    by (intro nth_equalityI) simp_all
  then show ?thesis using assms(2) le_word_le_bytes [of k v] by (simp add: vword_def)
qed

section \<open>Eight-byte cells\<close>

text \<open>
  The interface the stack instructions use: reads and writes of eight-byte cells.  The slow
  and the page-cache paths both provide it, so the two can be mixed.
\<close>

locale cell_memory =
  fixes ok :: "'m \<Rightarrow> bool"
    and mapped :: "'m \<Rightarrow> u64 \<Rightarrow> bool"
    and cell :: "'m \<Rightarrow> u64 \<Rightarrow> u64"
    and rd :: "'m \<Rightarrow> u64 \<Rightarrow> (u64 \<times> 'm) res"
    and wr :: "'m \<Rightarrow> u64 \<Rightarrow> u64 \<Rightarrow> 'm res"
  assumes read_law: "ok m \<Longrightarrow> mapped m a \<Longrightarrow>
      \<exists>m'. rd m a = Inr (cell m a, m') \<and> ok m' \<and> (\<forall>x. cell m' x = cell m x) \<and>
        (\<forall>x. mapped m' x = mapped m x)"
    and write_law: "ok m \<Longrightarrow> mapped m a \<Longrightarrow>
      \<exists>m'. wr m a v = Inr m' \<and> ok m' \<and> cell m' a = v \<and> (\<forall>x. apart x a \<longrightarrow> cell m' x = cell m x) \<and>
        (\<forall>x. mapped m' x = mapped m x)"
begin

lemma read_ok:
  assumes "ok m" "mapped m a"
  obtains m' where "rd m a = Inr (cell m a, m')" "ok m'" "\<And>x. cell m' x = cell m x"
    "\<And>x. mapped m' x = mapped m x"
  using read_law [OF assms] by blast

lemma write_ok:
  assumes "ok m" "mapped m a"
  obtains m' where "wr m a v = Inr m'" "ok m'" "cell m' a = v"
    "\<And>x. apart x a \<Longrightarrow> cell m' x = cell m x" "\<And>x. mapped m' x = mapped m x"
  using write_law [OF assms, of v] by blast

lemma read_after_write:
  assumes "ok m" "mapped m a"
  obtains m1 m2 where "wr m a v = Inr m1" "rd m1 a = Inr (v, m2)" "ok m2"
    "\<And>x. apart x a \<Longrightarrow> cell m2 x = cell m x" "\<And>x. mapped m2 x = mapped m x"
proof -
  obtain m1 where m1: "wr m a v = Inr m1" "ok m1" "cell m1 a = v"
      "\<And>x. apart x a \<Longrightarrow> cell m1 x = cell m x" "\<And>x. mapped m1 x = mapped m x"
    using write_ok [OF assms] by blast
  moreover obtain m2 where "rd m1 a = Inr (cell m1 a, m2)" "ok m2" "\<And>x. cell m2 x = cell m1 x"
      "\<And>x. mapped m2 x = mapped m1 x"
    using read_ok [of m1 a] m1 assms(2) by blast
  ultimately show ?thesis using that by simp
qed

end

abbreviation cell8 :: "VirtualMemory \<Rightarrow> u64 \<Rightarrow> bool" where
  "cell8 m a \<equiv> range_backed m a 8"

lemma written_cell:
  assumes "\<And>x. vbyte m' x = (if unat (x - a) < 8 then le_bytes 8 (v :: u64) ! unat (x - a) else vbyte m x)"
  shows "vword m' a = v" "apart x a \<Longrightarrow> (vword m' x :: u64) = vword m x"
proof -
  show "vword m' a = v" using vword_written [of m' a v m 8] assms by simp
  have "vbyte m' (x + of_nat i) = vbyte m (x + of_nat i)" if "apart x a" "i < 8" for i
    using apart_bytes [OF that] assms [of "x + of_nat i"] by simp
  then show "(vword m' x :: u64) = vword m x" if "apart x a"
    unfolding vword_def using that by (intro arg_cong [of _ _ le_word] map_cong) simp_all
qed

lemma u64_any: "read_u64 m a = read_any m a" "write_u64 m a v = write_any m a v"
  by (simp_all add: read_u64_def read_any_def write_u64_def write_any_def)

interpretation slow: cell_memory vm_ok cell8 vword read_u64 write_u64
proof
  fix m a assume a: "vm_ok m" "cell8 m a"
  obtain m' where "read_u64 m a = Inr (vword m a, m')" "vm_ok m'" "same_mem m m'"
    unfolding u64_any by (rule read_any_backed [where ?'a = 64, of m a]) (simp_all add: a)
  then show "\<exists>m'. read_u64 m a = Inr (vword m a, m') \<and> vm_ok m' \<and>
      (\<forall>x. (vword m' x :: u64) = vword m x) \<and> (\<forall>x. cell8 m' x = cell8 m x)"
    using same_mem_vword same_mem_view(4) by blast
next
  fix m a and v :: u64 assume a: "vm_ok m" "cell8 m a"
  obtain m' where m': "write_u64 m a v = Inr m'" "vm_ok m'"
      "\<And>x. vbyte m' x = (if unat (x - a) < 8 then le_bytes 8 v ! unat (x - a) else vbyte m x)"
      "\<And>x. backed m' x = backed m x"
    unfolding u64_any by (rule write_any_backed [of m a v]) (simp_all add: a)
  then show "\<exists>m'. write_u64 m a v = Inr m' \<and> vm_ok m' \<and> vword m' a = v \<and>
      (\<forall>x. apart x a \<longrightarrow> (vword m' x :: u64) = vword m x) \<and> (\<forall>x. cell8 m' x = cell8 m x)"
    using written_cell [OF m'(3)] by (auto simp: range_backed_def)
qed

text \<open>The accesses through the page cache provide the same interface.\<close>

lemma cache_hit:
  assumes "vm_ok m" "page_base a = cached_page_vaddr m"
  shows "vpage m a = Some (cached_page_host m)"
  using vm_okD(6) [OF assms(1)] assms(2) page_base_not_max [of a] by (metis vpage_base)

lemma fits_page: "a AND 0xFFF \<le> (4088 :: u64) \<longleftrightarrow> unat (page_off a) + 8 \<le> 4096"
  by (simp add: page_off_def word_le_nat_alt)

lemma read_fast_hit:
  assumes "vm_ok m" "cell8 m a" "page_base a = cached_page_vaddr m" "unat (page_off a) + 8 \<le> 4096"
  shows "read_u64_fast m a = Inr (vword m a, m)"
proof -
  have "backed m a" by (rule range_backed_hd [OF assms(2)]) simp
  then have "host_read (vm_host m) (cached_page_host m + page_off a) 8 =
      Some (map (\<lambda>i. vbyte m (a + of_nat i)) [0..<8])"
    using read_chunk [OF assms(1) _ cache_hit [OF assms(1,3)] assms(4)] by blast
  then show ?thesis using assms(3,4)
    by (simp add: read_u64_fast_def fits_page page_base_def page_off_def vword_def)
qed

lemma write_fast_hit:
  assumes "vm_ok m" "cell8 m a" "page_base a = cached_page_vaddr m" "unat (page_off a) + 8 \<le> 4096"
  obtains m' where "write_u64_fast m a v = Inr m'" "vm_ok m'"
    "\<And>x. vbyte m' x = (if unat (x - a) < 8 then le_bytes 8 v ! unat (x - a) else vbyte m x)"
    "\<And>x. backed m' x = backed m x"
proof -
  have "backed m a" by (rule range_backed_hd [OF assms(2)]) simp
  then obtain h where h: "host_write (vm_host m) (cached_page_host m + page_off a) (le_bytes 8 v) = Some h"
      "vm_ok (m\<lparr>vm_host := h\<rparr>)"
      "\<And>x. vbyte (m\<lparr>vm_host := h\<rparr>) x = (if unat (x - a) < 8 then le_bytes 8 v ! unat (x - a) else vbyte m x)"
      "\<And>x. backed (m\<lparr>vm_host := h\<rparr>) x = backed m x"
    by (rule write_chunk [OF assms(1) _ cache_hit [OF assms(1,3)], of "le_bytes 8 v"])
      (simp_all add: assms(4))
  have "write_u64_fast m a v = Inr (m\<lparr>vm_host := h\<rparr>)"
    using h(1) assms(3,4) by (simp add: write_u64_fast_def fits_page page_base_def page_off_def)
  from that [OF this h(2-4)] show ?thesis .
qed

lemma fast_misses:
  assumes "\<not> (page_base a = cached_page_vaddr m \<and> unat (page_off a) + 8 \<le> 4096)"
  shows "read_u64_fast m a = read_u64 m a" "write_u64_fast m a v = write_u64 m a v"
  using assms by (auto simp: read_u64_fast_def write_u64_fast_def read_u64_def write_u64_def
      fits_page page_base_def)

interpretation fast: cell_memory vm_ok cell8 vword read_u64_fast write_u64_fast
proof
  fix m a assume a: "vm_ok m" "cell8 m a"
  show "\<exists>m'. read_u64_fast m a = Inr (vword m a, m') \<and> vm_ok m' \<and>
      (\<forall>x. (vword m' x :: u64) = vword m x) \<and> (\<forall>x. cell8 m' x = cell8 m x)"
  proof (cases "page_base a = cached_page_vaddr m \<and> unat (page_off a) + 8 \<le> 4096")
    case True then show ?thesis using read_fast_hit [OF a] a(1) by blast
  next
    case False then show ?thesis using slow.read_law [OF a] fast_misses(1) by simp
  qed
next
  fix m a and v :: u64 assume a: "vm_ok m" "cell8 m a"
  show "\<exists>m'. write_u64_fast m a v = Inr m' \<and> vm_ok m' \<and> vword m' a = v \<and>
      (\<forall>x. apart x a \<longrightarrow> (vword m' x :: u64) = vword m x) \<and> (\<forall>x. cell8 m' x = cell8 m x)"
  proof (cases "page_base a = cached_page_vaddr m \<and> unat (page_off a) + 8 \<le> 4096")
    case True
    then obtain m' where m': "write_u64_fast m a v = Inr m'" "vm_ok m'"
      "\<And>x. vbyte m' x = (if unat (x - a) < 8 then le_bytes 8 v ! unat (x - a) else vbyte m x)"
      "\<And>x. backed m' x = backed m x"
      using write_fast_hit [OF a, of v] by blast
    then show ?thesis using written_cell [OF m'(3)] by (auto simp: range_backed_def)
  next
    case False then show ?thesis using slow.write_law [OF a, of v] fast_misses(2) by simp
  qed
qed

end
