(* ===== verification/Vm_MemProps.thy ===== *)
theory Vm_MemProps
  imports Vm_MemSpec
begin

text \<open>
  Lazy allocation and unmapping of pages (\<^verbatim>\<open>src/arena/VirtualMemory.cpp\<close>) against the flat view
  of \<^theory_text>\<open>Vm_MemSpec\<close>, and the properties of the memory and of the translation tables.
\<close>

section \<open>Lazy allocation\<close>

definition unallocated :: "VirtualMemory \<Rightarrow> u64 \<Rightarrow> bool" where
  "unallocated m a \<longleftrightarrow>
     (case get_entry (vm_tlb m) a of None \<Rightarrow> True | Some e \<Rightarrow> type_address e = NONE)"

definition next_grant :: "VirtualMemory \<Rightarrow> u64" where
  "next_grant m = hgrant (vm_host m) (hcalls (vm_host m)) 4096"

lemma range_one_page [simp]: "range_pages a 4096 = [a]"
  by (simp add: range_pages_def upt_conv_Cons)

lemma round_page_one [simp]: "round_page 4096 = 4096"
  by (simp add: round_page_def)

lemma unallocated_vpage: "unallocated m a \<Longrightarrow> vpage m a = None"
  by (auto simp: unallocated_def vpage_def split: option.splits)

definition with_page :: "VirtualMemory \<Rightarrow> u64 \<Rightarrow> u64 \<Rightarrow> VirtualMemory" where
  "with_page m a p =
     m\<lparr>vm_host := (vm_host m)\<lparr>hcalls := Suc (hcalls (vm_host m)),
          hpages := (hpages (vm_host m))(p \<mapsto> zero_page permsDefault)\<rparr>,
       vm_arenas := (vm_arenas m)\<lparr>next_id := next_id (vm_arenas m) + 1,
          arenas := AList.update (next_id (vm_arenas m)) \<lparr>a_ptr = p, a_size = 4096, a_perms = permsDefault\<rparr>
            (arenas (vm_arenas m)),
          total_allocated_bytes := total_allocated_bytes (vm_arenas m) + 4096\<rparr>,
       vm_tlb := translate (vm_tlb m) (page_base a) MAPPED_PTR_HOST p\<rparr>"

lemma lazy_page_granted:
  assumes "tlb_wf (vm_tlb m)" "mmap_free (vm_host m) (next_grant m) 4096"
  shows "lazy_page m a = Inr (\<lparr>type_address = MAPPED_PTR_HOST, address = next_grant m\<rparr>,
    with_page m a (next_grant m))"
proof -
  have "next_grant m \<noteq> 0" using assms(2) by (simp add: mmap_free_def)
  moreover have "(\<lambda>q. if q = next_grant m then Some (zero_page permsDefault) else hpages (vm_host m) q) =
      (hpages (vm_host m))(next_grant m \<mapsto> zero_page permsDefault)" by auto
  ultimately show ?thesis using assms
    by (simp add: lazy_page_def create_arena_def allocate_memory_def mmap_def Let_def get_ptr_arena_def
        get_arena_def update_conv get_entry_translate with_page_def next_grant_def)
qed

lemma vpage_with_page:
  assumes "tlb_wf (vm_tlb m)"
  shows "vpage (with_page m a p) x = (if page_base x = page_base a then Some p else vpage m x)"
  by (simp add: vpage_def with_page_def get_entry_translate [OF assms])

lemma with_page_view:
  assumes "vm_ok m" "unallocated m a" "mmap_free (vm_host m) p 4096"
  shows "vm_ok (with_page m a p)" "vbyte (with_page m a p) x = vbyte m x"
    "backed (with_page m a p) x \<longleftrightarrow> page_base x = page_base a \<or> backed m x"
proof -
  note v = vpage_with_page [OF vm_okD(1) [OF assms(1)], of a p]
  have hp: "hpages (vm_host (with_page m a p)) q =
      (if q = p then Some (zero_page permsDefault) else hpages (vm_host m) q)" for q
    by (simp add: with_page_def)
  have p: "page_off p = 0" "p \<noteq> 0" "hpages (vm_host m) p = None"
    using assms(3) by (simp_all add: mmap_free_def)
  have new: "q \<noteq> p" if "vpage m y = Some q" for y q
    using vm_okD(4) [OF assms(1) that] p(3) by auto
  have a: "vpage m y = None" if "page_base y = page_base a" for y
    using unallocated_vpage [OF assms(2)] vpage_page [OF that, of m] by simp
  have perms: "has_perm permsDefault PERM_READ" "has_perm permsDefault PERM_WRITE"
    by (simp_all add: has_perm_def permsDefault_def PERM_READ_def PERM_WRITE_def PERM_EXEC_def)
  show "vbyte (with_page m a p) x = vbyte m x"
    using a [of x] new [of x] by (auto simp: vbyte_def v hp zero_page_def split: option.splits)
  show "backed (with_page m a p) x \<longleftrightarrow> page_base x = page_base a \<or> backed m x"
    using a [of x] new [of x] perms by (auto simp: backed_def v hp zero_page_def split: option.splits)
  show "vm_ok (with_page m a p)"
  proof (rule vm_okI)
    show "tlb_wf (vm_tlb (with_page m a p))"
      using vm_okD(1) [OF assms(1)] by (simp add: with_page_def tlb_wf_translate)
    show "page_off q = 0" "q \<noteq> 0" "hpages (vm_host (with_page m a p)) q \<noteq> None"
      if "vpage (with_page m a p) y = Some q" for y q
      using that p vm_okD(2-4) [OF assms(1), of y q] by (auto simp: v hp split: if_splits)
    show "page_base y = page_base z"
      if "vpage (with_page m a p) y = Some q" "vpage (with_page m a p) z = Some q" for y z q
      using that new vm_okD(5) [OF assms(1), of y q z] by (auto simp: v split: if_splits)
    show "cached_page_vaddr (with_page m a p) = UINT64_MAX \<or>
        page_off (cached_page_vaddr (with_page m a p)) = 0 \<and>
        vpage (with_page m a p) (cached_page_vaddr (with_page m a p)) =
          Some (cached_page_host (with_page m a p))"
    proof -
      have c: "cached_page_vaddr (with_page m a p) = cached_page_vaddr m"
          "cached_page_host (with_page m a p) = cached_page_host m" by (simp_all add: with_page_def)
      show ?thesis using vm_okD(6) [OF assms(1)] a unfolding c v by auto
    qed
  qed
qed

lemma resolve_lazy:
  assumes "vm_ok m" "unallocated m a" "mmap_free (vm_host m) (next_grant m) 4096"
  shows "resolve_page m a =
    Inr (next_grant m, set_cache a (next_grant m) (with_page m a (next_grant m)))"
proof -
  have "page_base a \<noteq> cached_page_vaddr m"
    using cache_hit [OF assms(1), of a] unallocated_vpage [OF assms(2)] by auto
  then show ?thesis
    using assms(2) lazy_page_granted [OF vm_okD(1) [OF assms(1)] assms(3), of a]
    by (auto simp: resolve_page_def unallocated_def split: option.splits)
qed

lemma unallocated_with_page:
  assumes "tlb_wf (vm_tlb m)"
  shows "unallocated (with_page m a p) x \<longleftrightarrow> unallocated m x \<and> page_base x \<noteq> page_base a"
  by (simp add: unallocated_def with_page_def get_entry_translate [OF assms])

section \<open>Blocks over mapped and unallocated pages\<close>

text \<open>
  A block may lie on pages that are mapped and on pages that no access has touched yet; the host
  has to grant one new page for each of the latter, at addresses that are free and different.
\<close>

definition range_ready :: "VirtualMemory \<Rightarrow> u64 \<Rightarrow> nat \<Rightarrow> bool" where
  "range_ready m a n \<longleftrightarrow> (\<forall>i<n. backed m (a + of_nat i) \<or> unallocated m (a + of_nat i))"

definition fresh_pages :: "VirtualMemory \<Rightarrow> u64 \<Rightarrow> nat \<Rightarrow> u64 set" where
  "fresh_pages m a n = (\<lambda>i. page_base (a + of_nat i)) ` {i. i < n \<and> unallocated m (a + of_nat i)}"

definition grants :: "host \<Rightarrow> nat \<Rightarrow> bool" where
  "grants h k \<longleftrightarrow>
     (\<forall>i<k. mmap_free h (hgrant h (hcalls h + i) 4096) 4096) \<and>
     inj_on (\<lambda>i. hgrant h (hcalls h + i) 4096) {..<k}"

lemma mmap_free_page:
  "mmap_free h p 4096 \<longleftrightarrow> p \<noteq> 0 \<and> page_off p = 0 \<and> unat p + 4096 \<le> 2 ^ 64 \<and> hpages h p = None"
  by (auto simp: mmap_free_def)

lemma grants_next: "grants (vm_host m) (Suc k) \<Longrightarrow> mmap_free (vm_host m) (next_grant m) 4096"
  unfolding grants_def next_grant_def by (metis add_0_right zero_less_Suc)

lemma grants_with_page:
  assumes "grants (vm_host m) (Suc k)"
  shows "grants (vm_host (with_page m a (next_grant m))) k"
proof -
  let ?g = "\<lambda>i. hgrant (vm_host m) (hcalls (vm_host m) + i) 4096"
  have g: "mmap_free (vm_host m) (?g i) 4096" if "i < Suc k" for i
    using assms that unfolding grants_def by blast
  have inj: "inj_on ?g {..<Suc k}" using assms unfolding grants_def by blast
  have new: "?g (Suc i) \<noteq> ?g 0" if "i < k" for i
    using inj_onD [OF inj, of "Suc i" 0] that by auto
  have "mmap_free (vm_host (with_page m a (next_grant m))) (?g (Suc i)) 4096" if "i < k" for i
    using g [of "Suc i"] new [OF that] that
    by (simp add: mmap_free_page with_page_def next_grant_def)
  moreover have "inj_on (\<lambda>i. ?g (Suc i)) {..<k}"
    by (rule inj_onI) (use inj_onD [OF inj] in fastforce)
  ultimately show ?thesis by (simp add: grants_def with_page_def)
qed

lemma grants_mono: "grants h k \<Longrightarrow> j \<le> k \<Longrightarrow> grants h j"
  unfolding grants_def by (auto intro: inj_on_subset)

lemma host_write_keeps:
  "host_write h a bs = Some h' \<Longrightarrow>
     hgrant h' = hgrant h \<and> hcalls h' = hcalls h \<and> (\<forall>q. hpages h' q = None \<longleftrightarrow> hpages h q = None)"
  by (induction h a bs rule: host_write.induct)
    (fastforce simp: host_set_def split: option.splits if_splits)+

lemma grants_host_write: "host_write h a bs = Some h' \<Longrightarrow> grants h' k = grants h k"
  using host_write_keeps [of h a bs h'] by (simp add: grants_def mmap_free_page)

text \<open>A range that is ready, what one resolved page makes of it, and what is left of it.\<close>

definition served :: "VirtualMemory \<Rightarrow> u64 \<Rightarrow> nat \<Rightarrow> bool" where
  "served m a n \<longleftrightarrow>
     vm_ok m \<and> range_ready m a n \<and> grants (vm_host m) (card (fresh_pages m a n))"

lemma finite_fresh_pages [simp]: "finite (fresh_pages m a n)"
  by (simp add: fresh_pages_def)

lemma block_rest:
  assumes "\<And>i. i < n \<Longrightarrow> P (a + of_nat i)" "c \<le> n" "i < n - c"
  shows "P ((a + of_nat c) + of_nat i :: u64)"
proof -
  have "c + i < n" using assms(2,3) by linarith
  then have "P (a + of_nat (c + i))" by (rule assms(1))
  then show ?thesis by (simp add: add.assoc)
qed

lemma fresh_pages_iff:
  "q \<in> fresh_pages m a n \<longleftrightarrow> (\<exists>i<n. unallocated m (a + of_nat i) \<and> q = page_base (a + of_nat i))"
  by (auto simp: fresh_pages_def)

lemma fresh_pages_rest:
  assumes "c \<le> n" "\<And>x. unallocated m' x \<Longrightarrow> unallocated m x \<and> page_base x \<notin> S"
  shows "fresh_pages m' (a + of_nat c) (n - c) \<subseteq> fresh_pages m a n - S"
proof
  fix q assume "q \<in> fresh_pages m' (a + of_nat c) (n - c)"
  then obtain i where i: "i < n - c" "unallocated m' (a + of_nat c + of_nat i)"
      "q = page_base (a + of_nat c + of_nat i)" unfolding fresh_pages_iff by blast
  have n: "c + i < n" using i(1) assms(1) by linarith
  have e: "a + of_nat c + of_nat i = a + of_nat (c + i)" by (simp add: add.assoc)
  show "q \<in> fresh_pages m a n - S"
    using n assms(2) [OF i(2)] i(3) unfolding e Diff_iff fresh_pages_iff by blast
qed

lemma served_rest:
  assumes "served m a n" "c \<le> n"
  shows "served m (a + of_nat c) (n - c)"
proof -
  have "range_ready m (a + of_nat c) (n - c)"
    using assms(1) block_rest [of n "\<lambda>x. backed m x \<or> unallocated m x" a c, OF _ assms(2)]
    unfolding served_def range_ready_def by blast
  moreover have "card (fresh_pages m (a + of_nat c) (n - c)) \<le> card (fresh_pages m a n)"
    using fresh_pages_rest [OF assms(2), of m m "{}" a] by (intro card_mono) auto
  ultimately show ?thesis using assms(1) grants_mono unfolding served_def by blast
qed

lemma resolve_served:
  assumes "served m a n" "0 < n"
  obtains p m1 where "resolve_page m a = Inr (p, m1)" "vpage m1 a = Some p" "backed m1 a"
    "\<And>x. vbyte m1 x = vbyte m x"
    "\<And>x. backed m1 x \<longleftrightarrow> backed m x \<or> page_base x = page_base a" "served m1 a n"
proof -
  have ok: "vm_ok m" and r: "range_ready m a n" and g: "grants (vm_host m) (card (fresh_pages m a n))"
    using assms(1) by (simp_all add: served_def)
  have "backed m a \<or> unallocated m a" using r [unfolded range_ready_def, rule_format, of 0] assms(2) by simp
  then show ?thesis
  proof
    assume b: "backed m a"
    then obtain p where p: "vpage m a = Some p" by (rule backedE)
    have same: "same_mem m (set_cache a p m)" by (simp add: same_mem_def)
    have "unallocated (set_cache a p m) x = unallocated m x" for x by (simp add: unallocated_def)
    then have "served (set_cache a p m) a n"
      using r g vm_ok_set_cache [OF ok p]
      by (simp add: served_def range_ready_def fresh_pages_def same_mem_view(3) [OF same])
    moreover have "backed m x \<longleftrightarrow> backed m x \<or> page_base x = page_base a" for x
      using b backed_page [of x a m] by blast
    ultimately show ?thesis
      by (intro that [OF resolve_backed [OF ok p]]) (use same_mem_view [OF same] p b in simp_all)
  next
    assume u: "unallocated m a"
    let ?m = "with_page m a (next_grant m)"
    let ?m1 = "set_cache a (next_grant m) ?m"
    have a: "page_base a \<in> fresh_pages m a n"
      unfolding fresh_pages_iff using assms(2) u by (intro exI [of _ 0]) simp
    then obtain k where k: "card (fresh_pages m a n) = Suc k"
      using card_Suc_Diff1 [OF finite_fresh_pages, of "page_base a" m a n] by metis
    have free: "mmap_free (vm_host m) (next_grant m) 4096" using g grants_next unfolding k by blast
    note w = with_page_view [OF ok u free]
    have p: "vpage ?m a = Some (next_grant m)" using vpage_with_page [OF vm_okD(1) [OF ok]] by simp
    have same: "same_mem ?m ?m1" by (simp add: same_mem_def)
    have un: "unallocated ?m1 x \<longleftrightarrow> unallocated m x \<and> page_base x \<noteq> page_base a" for x
      using unallocated_with_page [OF vm_okD(1) [OF ok], of a] by (simp add: unallocated_def)
    have "fresh_pages ?m1 a n \<subseteq> fresh_pages m a n - {page_base a}"
      using fresh_pages_rest [of 0 n ?m1 m "{page_base a}" a] un by simp
    then have "card (fresh_pages ?m1 a n) \<le> k"
      using card_mono [of "fresh_pages m a n - {page_base a}" "fresh_pages ?m1 a n"] k a by simp
    then have "grants (vm_host ?m1) (card (fresh_pages ?m1 a n))"
      by (rule grants_mono [rotated]) (use grants_with_page [of m k a] g k in simp)
    then have "served ?m1 a n"
      using r vm_ok_set_cache [OF w(1) p] w(3) unfolding served_def range_ready_def
        same_mem_view(3) [OF same] un by blast
    then show ?thesis
      by (intro that [OF resolve_lazy [OF ok u free]]) (use same_mem_view(1-3) [OF same] w(2,3) p in \<open>simp_all add: disj_commute\<close>)
  qed
qed

lemma served_host_write:
  assumes "served m a n" "host_write (vm_host m) b bs = Some h" "vm_ok (m\<lparr>vm_host := h\<rparr>)"
    "\<And>x. backed (m\<lparr>vm_host := h\<rparr>) x = backed m x"
  shows "served (m\<lparr>vm_host := h\<rparr>) a n"
proof -
  have "unallocated (m\<lparr>vm_host := h\<rparr>) x = unallocated m x" for x by (simp add: unallocated_def)
  then show ?thesis using assms grants_host_write [OF assms(2)]
    by (simp add: served_def range_ready_def fresh_pages_def)
qed

lemma block_pages:
  assumes "0 < c" "c \<le> n" "unat (page_off a) + c \<le> 4096"
  shows "(\<exists>i<n. q = page_base (a + of_nat i)) \<longleftrightarrow>
    q = page_base a \<or> (\<exists>i<n - c. q = page_base (a + of_nat c + of_nat i))" (is "?l \<longleftrightarrow> ?r")
proof
  assume ?l
  then obtain i where i: "i < n" "q = page_base (a + of_nat i)" by blast
  show ?r
  proof (cases "i < c")
    case True
    then show ?thesis using i(2) addr_chunk(1) [OF assms(3)] by simp
  next
    case False
    then have "i - c < n - c" "a + of_nat i = a + of_nat c + of_nat (i - c)" using i(1) by auto
    then show ?thesis using i(2) by metis
  qed
next
  assume ?r
  then show ?l
  proof
    assume "q = page_base a"
    then show ?l using assms(1,2) by (intro exI [of _ 0]) simp
  next
    assume "\<exists>i<n - c. q = page_base (a + of_nat c + of_nat i)"
    then obtain i where "i < n - c" "q = page_base (a + of_nat c + of_nat i)" by blast
    then show ?l using assms(2) by (intro exI [of _ "c + i"]) (auto simp: add.assoc)
  qed
qed

lemma read_bytes_served:
  assumes "served m a n"
  shows "\<exists>m'. read_bytes m a n = Inr (map (\<lambda>i. vbyte m (a + of_nat i)) [0..<n], m') \<and> vm_ok m' \<and>
    (\<forall>x. vbyte m' x = vbyte m x) \<and>
    (\<forall>x. backed m' x \<longleftrightarrow> backed m x \<or> (\<exists>i<n. page_base x = page_base (a + of_nat i)))"
  using assms
proof (induction n arbitrary: m a rule: less_induct)
  case (less n)
  show ?case
  proof (cases "n = 0")
    case True
    then show ?thesis using less.prems by (subst read_bytes.simps) (simp add: served_def)
  next
    case False
    define c where "c = min (4096 - unat (page_off a)) n"
    have c: "0 < c" "c \<le> n" "unat (page_off a) + c \<le> 4096"
      using False page_off_less [of a] by (auto simp: c_def)
    obtain p m1 where m1: "resolve_page m a = Inr (p, m1)" "vpage m1 a = Some p" "backed m1 a"
        "\<And>x. vbyte m1 x = vbyte m x"
        "\<And>x. backed m1 x \<longleftrightarrow> backed m x \<or> page_base x = page_base a" "served m1 a n"
      using resolve_served [OF less.prems] False by blast
    have ok: "vm_ok m1" using m1(6) by (simp add: served_def)
    have ch: "host_read (vm_host m1) (p + page_off a) c =
        Some (map (\<lambda>i. vbyte m (a + of_nat i)) [0..<c])"
      using read_chunk [OF ok m1(3,2) c(3)] by (simp add: m1(4))
    obtain m' where m': "read_bytes m1 (a + of_nat c) (n - c) =
          Inr (map (\<lambda>i. vbyte m1 (a + of_nat c + of_nat i)) [0..<n - c], m')" "vm_ok m'"
        "\<forall>x. vbyte m' x = vbyte m1 x" "\<forall>x. backed m' x \<longleftrightarrow> backed m1 x \<or>
          (\<exists>i<n - c. page_base x = page_base (a + of_nat c + of_nat i))"
      using less.IH [OF _ served_rest [OF m1(6) c(2)]] c False by auto
    have "read_bytes m a n = Inr (map (\<lambda>i. vbyte m (a + of_nat i)) [0..<n], m')"
      using False ch m'(1) m1(1)
      by (subst read_bytes.simps, subst map_upt_split [OF c(2)])
        (simp add: Let_def m1(4) add.assoc flip: c_def)
    then show ?thesis using m' m1(4,5) block_pages [OF c] by auto
  qed
qed

lemma write_bytes_served:
  assumes "served m a (length bs)" "length bs < 2 ^ 64"
  shows "\<exists>m'. write_bytes m a bs = Inr m' \<and> vm_ok m' \<and>
    (\<forall>x. vbyte m' x = (if unat (x - a) < length bs then bs ! unat (x - a) else vbyte m x)) \<and>
    (\<forall>x. backed m' x \<longleftrightarrow> backed m x \<or> (\<exists>i<length bs. page_base x = page_base (a + of_nat i)))"
  using assms
proof (induction "length bs" arbitrary: m a bs rule: less_induct)
  case less
  show ?case
  proof (cases "bs = []")
    case True
    then show ?thesis using less.prems by (subst write_bytes.simps) (simp add: served_def)
  next
    case False
    define c where "c = min (4096 - unat (page_off a)) (length bs)"
    have c: "0 < c" "c \<le> length bs" "unat (page_off a) + c \<le> 4096"
      using False page_off_less [of a] by (auto simp: c_def)
    obtain p m1 where m1: "resolve_page m a = Inr (p, m1)" "vpage m1 a = Some p" "backed m1 a"
        "\<And>x. vbyte m1 x = vbyte m x"
        "\<And>x. backed m1 x \<longleftrightarrow> backed m x \<or> page_base x = page_base a" "served m1 a (length bs)"
      using resolve_served [OF less.prems(1)] False by blast
    have ok: "vm_ok m1" using m1(6) by (simp add: served_def)
    have l: "length (take c bs) = c" using c(2) by simp
    obtain h where h: "host_write (vm_host m1) (p + page_off a) (take c bs) = Some h"
        "vm_ok (m1\<lparr>vm_host := h\<rparr>)"
        "\<And>x. vbyte (m1\<lparr>vm_host := h\<rparr>) x =
           (if unat (x - a) < c then take c bs ! unat (x - a) else vbyte m x)"
        "\<And>x. backed (m1\<lparr>vm_host := h\<rparr>) x = backed m1 x"
      using write_chunk [OF ok m1(3,2), of "take c bs"] c(3) unfolding l m1(4) by metis
    let ?n = "m1\<lparr>vm_host := h\<rparr>"
    have "served ?n (a + of_nat c) (length (drop c bs))"
      using served_rest [OF served_host_write [OF m1(6) h(1,2,4)] c(2)] by simp
    moreover have "length (drop c bs) < length bs" "length (drop c bs) < 2 ^ 64"
      using c False less.prems(2) by (simp_all add: less_imp_diff_less)
    ultimately obtain m' where m': "write_bytes ?n (a + of_nat c) (drop c bs) = Inr m'" "vm_ok m'"
        "\<forall>x. vbyte m' x = (if unat (x - (a + of_nat c)) < length (drop c bs)
           then drop c bs ! unat (x - (a + of_nat c)) else vbyte ?n x)"
        "\<forall>x. backed m' x \<longleftrightarrow> backed ?n x \<or>
          (\<exists>i<length bs - c. page_base x = page_base (a + of_nat c + of_nat i))"
      using less.hyps [of "drop c bs" ?n "a + of_nat c"] by auto
    have "write_bytes m a bs = Inr m'"
      using False h(1) m'(1) m1(1) by (subst write_bytes.simps) (simp add: Let_def flip: c_def)
    moreover have "vbyte m' x = (if unat (x - a) < length bs then bs ! unat (x - a) else vbyte m x)" for x
      unfolding m'(3) [rule_format] h(3) by (rule chunk_cases) (use c less.prems(2) in auto)
    ultimately show ?thesis using m'(2,4) h(4) m1(5) block_pages [OF c] by auto
  qed
qed

section \<open>Unmapping a page\<close>

lemma for_pages_once:
  assumes "page < e" "\<not> page + 0x1000 < e"
  shows "for_pages body page e s = Some (body page s)"
  using assms by (simp add: for_pages.simps [of body] split: sum.splits)

definition one_page_arena :: "VirtualMemory \<Rightarrow> u64 \<Rightarrow> u64 \<Rightarrow> bool" where
  "one_page_arena m aid p \<longleftrightarrow>
     map_of (arenas (vm_arenas m)) aid = Some \<lparr>a_ptr = p, a_size = 4096, a_perms = permsDefault\<rparr> \<and>
     find_arena_id_for_ptr (vm_arenas m) p = uint aid"

lemma unmap_page_effect:
  assumes "vm_ok m" "vpage m a = Some p" "one_page_arena m aid p"
  obtains m' where "unmap_page a m = Inr m'" "hpages (vm_host m') p = None"
    "get_entry (vm_tlb m') a = Some \<lparr>type_address = MAPPED_PTR_VM, address = 0\<rparr>"
    "cached_page_vaddr m' = cached_page_vaddr m" "cached_page_host m' = cached_page_host m"
proof -
  have e: "get_entry (vm_tlb m) a = Some \<lparr>type_address = MAPPED_PTR_HOST, address = p\<rparr>"
    using assms(2) by (auto simp: vpage_def split: option.splits if_splits)
  have "(word_of_int (uint aid) :: u64) = aid" "uint aid \<noteq> - 1"
    using uint_ge_0 [of aid] by (simp, linarith)
  then have "\<exists>m'. unmap_page a m = Inr m' \<and> hpages (vm_host m') p = None \<and>
      get_entry (vm_tlb m') a = Some \<lparr>type_address = MAPPED_PTR_VM, address = 0\<rparr> \<and>
      cached_page_vaddr m' = cached_page_vaddr m \<and> cached_page_host m' = cached_page_host m"
    using assms(3) e
    by (simp add: unmap_page_def Let_def free_arena_def one_page_arena_def clear_tlb_entry_def
        get_entry_translate [OF vm_okD(1) [OF assms(1)]] free_memory_def munmap_def)
  then show ?thesis using that by blast
qed

lemma unmap_one:
  assumes "page_off a = 0" "a \<noteq> page_base UINT64_MAX"
  shows "unmap m a 1 = Some (unmap_page a m)"
proof -
  have "unat a mod 4096 = 0" using assms(1) unat_page_off [of a] by simp
  then obtain k where k: "unat a = 4096 * k" by auto
  have "unat a < 2 ^ 64" by simp
  moreover have "unat a \<noteq> 18446744073709547520"
    using assms(2) by (auto simp: unat_eq_iff64 page_base_def UINT64_MAX_def)
  ultimately have "k < 4503599627370496" "k \<noteq> 4503599627370495" unfolding k by simp_all
  then have u: "unat a + 4096 < 18446744073709551616" unfolding k by linarith
  have "unat (a + 1) = unat a + 1" "unat (a + 0x1000) = unat a + 4096"
    using u by (simp_all add: unat_add_small)
  then have "a < a + 1" "\<not> a + 0x1000 < a + 1"
    by (simp_all add: word_less_nat_alt)
  moreover have "a AND NOT 0xFFF = a" using assms(1) by (metis page_base_def page_split add.right_neutral)
  ultimately show ?thesis by (simp add: unmap_def for_pages_once)
qed

section \<open>A memory of two pages\<close>

definition demo_host :: host where
  "demo_host = \<lparr>hpages = Map.empty, hgrant = (\<lambda>n _. of_nat (0x10000 * Suc n)), hcalls = 0\<rparr>"

definition demo1 :: VirtualMemory where
  "demo1 = with_page (new_VirtualMemory demo_host) 0x1000 0x10000"

definition demo2 :: VirtualMemory where
  "demo2 = with_page demo1 0x2000 0x20000"

lemma vm_ok_new: "vm_ok (new_VirtualMemory h)"
  by (rule vm_okI) (simp_all add: new_VirtualMemory_def vpage_def get_entry_new tlb_wf_new)

lemma unallocated_new: "unallocated (new_VirtualMemory h) a"
  by (simp add: unallocated_def new_VirtualMemory_def get_entry_new)

lemma demo_grants:
  "mmap_free (vm_host (new_VirtualMemory demo_host)) 0x10000 4096" "mmap_free (vm_host demo1) 0x20000 4096"
  by (simp_all add: mmap_free_def new_VirtualMemory_def demo_host_def page_off_def demo1_def with_page_def)

lemma demo1_ok: "vm_ok demo1" "backed demo1 x \<longleftrightarrow> page_base x = 0x1000 \<or> backed (new_VirtualMemory demo_host) x"
  unfolding demo1_def
  using with_page_view(1,3) [OF vm_ok_new unallocated_new demo_grants(1), of "0x1000"]
  by (simp_all add: page_base_def)

lemma demo1_entry:
  "get_entry (vm_tlb demo1) x =
     (if page_base x = 0x1000 then Some \<lparr>type_address = MAPPED_PTR_HOST, address = 0x10000\<rparr> else None)"
  by (simp add: demo1_def with_page_def new_VirtualMemory_def get_entry_translate tlb_wf_new get_entry_new)
    (simp add: page_base_def)

lemma demo1_unallocated: "page_base a \<noteq> 0x1000 \<Longrightarrow> unallocated demo1 a"
  by (simp add: unallocated_def demo1_entry)

text \<open>The first page after an access to it.\<close>

definition demo_cached :: VirtualMemory where
  "demo_cached = set_cache 0x1000 0x10000 demo1"

lemma demo1_zero: "vbyte demo1 x = 0"
proof -
  have "vbyte demo1 x = vbyte (new_VirtualMemory demo_host) x"
    unfolding demo1_def by (rule with_page_view(2) [OF vm_ok_new unallocated_new demo_grants(1)])
  then show ?thesis using unallocated_vpage [OF unallocated_new] by (simp add: vbyte_def)
qed

lemma demo1_ready: "range_ready demo1 a n"
  using demo1_ok(2) demo1_unallocated unfolding range_ready_def by blast

lemma demo1_grants: "grants (vm_host demo1) (card (fresh_pages demo1 0x1FFC 8))"
proof -
  have "page_base (0x1FFC + of_nat i) = 0x2000"
    if "unallocated demo1 (0x1FFC + of_nat i)" "i < 8" for i
  proof -
    have "page_base (0x1FFC + of_nat i) \<noteq> 0x1000" using that(1) by (auto simp: unallocated_def demo1_entry)
    moreover have "i = 0 \<or> i = 1 \<or> i = 2 \<or> i = 3 \<or> i = 4 \<or> i = 5 \<or> i = 6 \<or> i = 7"
      using that(2) by linarith
    ultimately show ?thesis by (elim disjE) (simp_all add: page_base_def)
  qed
  then have "fresh_pages demo1 0x1FFC 8 \<subseteq> {0x2000}" unfolding fresh_pages_iff subset_iff by blast
  then have "card (fresh_pages demo1 0x1FFC 8) \<le> 1"
    using card_mono [of "{0x2000}" "fresh_pages demo1 0x1FFC 8"] by simp
  moreover have "grants (vm_host demo1) 1"
    by (simp add: grants_def mmap_free_page demo1_def with_page_def new_VirtualMemory_def demo_host_def
        page_off_def inj_on_def)
  ultimately show ?thesis by (rule grants_mono [rotated])
qed

lemma demo2_ok: "vm_ok demo2" "page_base x = 0x1000 \<or> page_base x = 0x2000 \<Longrightarrow> backed demo2 x"
proof -
  have u: "unallocated demo1 0x2000" by (rule demo1_unallocated) (simp add: page_base_def)
  show "vm_ok demo2" unfolding demo2_def by (rule with_page_view(1) [OF demo1_ok(1) u demo_grants(2)])
  show "page_base x = 0x1000 \<or> page_base x = 0x2000 \<Longrightarrow> backed demo2 x"
    using with_page_view(3) [OF demo1_ok(1) u demo_grants(2), of x] demo1_ok(2) [of x]
    by (auto simp: demo2_def page_base_def)
qed

lemma demo2_cell:
  assumes "0x1000 \<le> unat a" "unat a + n \<le> 0x3000"
  shows "range_backed demo2 a n"
  unfolding range_backed_def
proof (intro allI impI)
  fix i assume i: "i < n"
  define u where "u = unat a + i"
  have "unat (of_nat i :: u64) = i" using i assms by (intro unat_of_nat64) simp
  then have u: "unat (a + of_nat i) = u" using i assms by (simp add: unat_add_small u_def)
  have "u < 0x3000" "0x1000 \<le> u" using i assms by (simp_all add: u_def)
  then have "u div 4096 < 3" "1 \<le> u div 4096"
    using div_le_mono [of 4096 u 4096] by (simp_all add: less_mult_imp_div_less)
  then have "u div 4096 = 1 \<or> u div 4096 = 2" by linarith
  then have "u - u mod 4096 = 0x1000 \<or> u - u mod 4096 = 0x2000"
    unfolding minus_mod_eq_div_mult by auto
  then have "page_base (a + of_nat i) = 0x1000 \<or> page_base (a + of_nat i) = 0x2000"
    unfolding unat_eq_iff64 unat_page_base u by simp
  then show "backed demo2 (a + of_nat i)" by (rule demo2_ok(2))
qed

section \<open>Properties\<close>

text \<open>C1. Block reads and writes refine a flat memory of bytes, with pages allocated on first
touch.  On a consistent memory, let every page of the block be mapped or not yet allocated, and let
the host grant one free page for each of the latter (a refused page is C10).  Then a read of any
length returns the bytes of the flat view, zeros on the pages it allocates, and changes none of the
view; a write replaces exactly the addressed bytes; both go across page boundaries and around the
end of the address space, map the pages of the block and no others, and keep the memory
consistent.\<close>

theorem memory_refines_bytes:
  assumes "vm_ok m" "range_ready m a n" "grants (vm_host m) (card (fresh_pages m a n))"
  shows "(\<exists>m'. read_bytes m a n = Inr (map (\<lambda>i. vbyte m (a + of_nat i)) [0..<n], m') \<and> vm_ok m' \<and>
      (\<forall>x. vbyte m' x = vbyte m x) \<and>
      (\<forall>x. backed m' x \<longleftrightarrow> backed m x \<or> (\<exists>i<n. page_base x = page_base (a + of_nat i)))) \<and>
    (\<forall>i<n. unallocated m (a + of_nat i) \<longrightarrow> vbyte m (a + of_nat i) = 0) \<and>
    (length bs = n \<and> n < 2 ^ 64 \<longrightarrow>
      (\<exists>m'. write_bytes m a bs = Inr m' \<and> vm_ok m' \<and>
        (\<forall>x. vbyte m' x = (if unat (x - a) < n then bs ! unat (x - a) else vbyte m x)) \<and>
        (\<forall>x. backed m' x \<longleftrightarrow> backed m x \<or> (\<exists>i<n. page_base x = page_base (a + of_nat i)))))"
proof -
  have "served m a n" using assms by (simp add: served_def)
  moreover have "vbyte m x = 0" if "unallocated m x" for x
    using unallocated_vpage [OF that] by (simp add: vbyte_def)
  ultimately show ?thesis using read_bytes_served write_bytes_served by blast
qed

text \<open>A block over the end of a mapped page into a page that the access allocates.\<close>

theorem memory_refines_bytes_witness:
  "unallocated demo1 0x2000 \<and>
   (\<exists>m'. read_bytes demo1 0x1FFC 8 = Inr (replicate 8 0, m') \<and> backed m' 0x2000) \<and>
   (\<exists>m'. write_bytes demo1 0x1FFC [1, 2, 3, 4, 5, 6, 7, 8] = Inr m' \<and> backed m' 0x2000 \<and>
     vbyte m' 0x1FFF = 4 \<and> vbyte m' 0x2000 = 5 \<and> vbyte m' 0x2004 = 0)"
proof -
  have page: "\<exists>i<8. page_base 0x2000 = page_base (0x1FFC + of_nat i)"
    by (rule exI [of _ 4]) (simp add: page_base_def)
  have zeros: "map (\<lambda>i. 0) [0..<8] = replicate 8 (0 :: u8)" by (simp add: map_replicate_const)
  have un: "unallocated demo1 0x2000" by (rule demo1_unallocated) (simp add: page_base_def)
  note m = memory_refines_bytes [OF demo1_ok(1) demo1_ready demo1_grants, unfolded demo1_zero zeros]
  show ?thesis
  proof (intro conjI)
    show "\<exists>m'. read_bytes demo1 0x1FFC 8 = Inr (replicate 8 0, m') \<and> backed m' 0x2000"
      using conjunct1 [OF m] page by blast
    obtain m' where "write_bytes demo1 0x1FFC [1, 2, 3, 4, 5, 6, 7, 8] = Inr m'" "backed m' 0x2000"
        "\<And>x. vbyte m' x = (if unat (x - 0x1FFC) < 8 then [1, 2, 3, 4, 5, 6, 7, 8] ! unat (x - 0x1FFC) else 0)"
      using mp [OF conjunct2 [OF conjunct2 [OF m [of "[1, 2, 3, 4, 5, 6, 7, 8]"]]]] page by auto
    then show "\<exists>m'. write_bytes demo1 0x1FFC [1, 2, 3, 4, 5, 6, 7, 8] = Inr m' \<and> backed m' 0x2000 \<and>
        vbyte m' 0x1FFF = 4 \<and> vbyte m' 0x2000 = 5 \<and> vbyte m' 0x2004 = 0" by simp
  qed (rule un)
qed

text \<open>C3. The accesses through the page cache and those through the tables agree: what either kind
of write stores into an eight-byte cell, either kind of read returns, and cells that do not
overlap it keep their contents.\<close>

theorem cached_cells_agree:
  assumes "vm_ok m" "cell8 m a" "store \<in> {write_u64, write_u64_fast}" "load \<in> {read_u64, read_u64_fast}"
  shows "\<exists>m1. store m a v = Inr m1 \<and> vm_ok m1 \<and>
    (\<exists>m2. load m1 a = Inr (v, m2) \<and> vm_ok m2) \<and>
    (\<forall>x. apart x a \<and> cell8 m x \<longrightarrow> (\<exists>m2. load m1 x = Inr (vword m x, m2) \<and> vm_ok m2))"
proof -
  obtain m1 where m1: "store m a v = Inr m1" "vm_ok m1" "vword m1 a = v"
      "\<And>x. apart x a \<Longrightarrow> (vword m1 x :: u64) = vword m x" "\<And>x. cell8 m1 x = cell8 m x"
    using slow.write_law [OF assms(1,2), of v] fast.write_law [OF assms(1,2), of v] assms(3) by auto
  have "\<exists>m2. load m1 x = Inr (vword m1 x, m2) \<and> vm_ok m2" if "cell8 m x" for x
    using slow.read_law [OF m1(2), of x] fast.read_law [OF m1(2), of x] assms(4) m1(5) that by auto
  then show ?thesis using m1 assms(2) by metis
qed

theorem cached_cells_agree_witness:
  "\<exists>m1. write_u64_fast demo2 0x1FFC 77 = Inr m1 \<and> (\<exists>m2. read_u64 m1 0x1FFC = Inr (77, m2))"
  using cached_cells_agree [OF demo2_ok(1) demo2_cell, of "0x1FFC" write_u64_fast read_u64 77] by auto

text \<open>C4. The three-level translation tree is a map from pages to entries: the constructor gives
the empty map, installing a translation changes the entry of that page and of no other, clearing
one leaves an entry that no longer points at host memory, and every operation keeps the shape of
the tree.\<close>

theorem tlb_is_page_map:
  assumes "tlb_wf root"
  shows "tlb_wf new_tlb \<and> get_entry new_tlb q = None \<and>
    tlb_wf (translate root p ty pm) \<and> tlb_wf (clear_tlb_entry root p) \<and>
    get_entry (translate root p ty pm) q =
      (if page_base q = page_base p then Some \<lparr>type_address = ty, address = pm\<rparr> else get_entry root q) \<and>
    get_real_host_ptr_of_vptr (clear_tlb_entry root p) q =
      (if page_base q = page_base p then 0 else get_real_host_ptr_of_vptr root q)"
  using assms
  by (simp add: tlb_wf_new get_entry_new tlb_wf_translate get_entry_translate clear_tlb_entry_def
      get_real_host_ptr_of_vptr_def)

theorem tlb_is_page_map_witness:
  "get_entry (translate new_tlb 0x123456789ABC MAPPED_PTR_HOST 7) 0x123456789000 =
     Some \<lparr>type_address = MAPPED_PTR_HOST, address = 7\<rparr>"
  using tlb_is_page_map [OF tlb_wf_new, of "0x123456789000" "0x123456789ABC" MAPPED_PTR_HOST 7]
  by (simp add: page_base_def)

text \<open>C9. Unmapping does not invalidate the page cache: after the page of a live one-page arena is
unmapped, its host page is gone, an access to it while it is the cached page touches the freed
host page, and any other access to it ends the whole process.\<close>

theorem unmap_leaves_stale_cache:
  assumes "vm_ok m" "vpage m a = Some p" "one_page_arena m aid p"
    and "page_off a = 0" "a \<noteq> page_base UINT64_MAX"
  shows "\<exists>m'. unmap m a 1 = Some (Inr m') \<and> hpages (vm_host m') p = None \<and>
    (cached_page_vaddr m = a \<longrightarrow> read_bytes m' a 1 = Inl HostFault \<and> read_u64_fast m' a = Inl HostFault) \<and>
    (cached_page_vaddr m \<noteq> a \<longrightarrow> read_bytes m' a 1 = Inl (ExitProcess (- 1)))"
proof -
  obtain m' where m': "unmap_page a m = Inr m'" "hpages (vm_host m') p = None"
    "get_entry (vm_tlb m') a = Some \<lparr>type_address = MAPPED_PTR_VM, address = 0\<rparr>"
    "cached_page_vaddr m' = cached_page_vaddr m" "cached_page_host m' = cached_page_host m"
    by (rule unmap_page_effect [OF assms(1-3)])
  have a: "page_base a = a" using assms(4) by (metis page_split add.right_neutral)
  have p: "page_base p = p" using vm_okD(2) [OF assms(1,2)] by (metis page_split add.right_neutral)
  have fault: "host_byte (vm_host m') p = None" by (simp add: host_byte_def p m'(2))
  have host: "cached_page_host m = p" if "cached_page_vaddr m = a"
    using cache_hit [OF assms(1), of a] a assms(2) that by simp
  have "read_bytes m' a 1 = Inl HostFault" if "cached_page_vaddr m = a"
    using fault host [OF that] m'(4,5) a that assms(4)
    by (subst read_bytes.simps) (simp add: resolve_page_def)
  moreover have "read_u64_fast m' a = Inl HostFault" if "cached_page_vaddr m = a"
  proof -
    have "a AND NOT 0xFFF = cached_page_vaddr m'" "a AND 0xFFF = 0"
      using a assms(4) m'(4) that by (simp_all add: page_base_def page_off_def)
    then show ?thesis using fault host [OF that] m'(5)
      by (simp add: read_u64_fast_def numeral_eq_Suc)
  qed
  moreover have "read_bytes m' a 1 = Inl (ExitProcess (- 1))" if "cached_page_vaddr m \<noteq> a"
    using m'(3,4) a that by (subst read_bytes.simps) (simp add: resolve_page_def)
  ultimately show ?thesis using m'(1,2) unmap_one [OF assms(4,5), of m] by auto
qed

text \<open>The page was touched last, so it is the cached one: both kinds of read reach the freed page.
When another page is cached, the access ends the process.\<close>

theorem unmap_leaves_stale_cache_witness:
  "(\<exists>m'. unmap demo_cached 0x1000 1 = Some (Inr m') \<and> hpages (vm_host m') 0x10000 = None \<and>
      read_bytes m' 0x1000 1 = Inl HostFault \<and> read_u64_fast m' 0x1000 = Inl HostFault) \<and>
   (\<exists>m'. unmap demo1 0x1000 1 = Some (Inr m') \<and> read_bytes m' 0x1000 1 = Inl (ExitProcess (- 1)))"
proof -
  have p: "vpage demo1 0x1000 = Some 0x10000" by (simp add: vpage_def demo1_entry page_base_def)
  have arena: "one_page_arena demo1 0 0x10000"
    by (simp add: one_page_arena_def demo1_def with_page_def new_VirtualMemory_def new_ArenaManager_def
        find_arena_id_for_ptr_def id_to_int_def)
  have "vm_ok demo_cached" "vpage demo_cached 0x1000 = Some 0x10000" "one_page_arena demo_cached 0 0x10000"
      "cached_page_vaddr demo_cached = 0x1000"
    using vm_ok_set_cache [OF demo1_ok(1) p] p arena
    by (simp_all add: demo_cached_def vpage_def one_page_arena_def page_base_def)
  moreover have "cached_page_vaddr demo1 \<noteq> 0x1000"
    by (simp add: demo1_def with_page_def new_VirtualMemory_def UINT64_MAX_def)
  ultimately show ?thesis
    using unmap_leaves_stale_cache [OF demo1_ok(1) p arena]
      unmap_leaves_stale_cache [of demo_cached "0x1000" "0x10000" 0]
    by (auto simp: page_off_def page_base_def UINT64_MAX_def)
qed

text \<open>C10. A refused allocation is not noticed: when the host refuses a page, the first access to an
unallocated page maps it onto the memory of the arena with id 0, so that two virtual pages share
host memory.\<close>

theorem refused_page_aliases_first_arena:
  assumes "vm_ok m" "unallocated m a" "\<not> mmap_free (vm_host m) (next_grant m) 4096"
    and "map_of (arenas (vm_arenas m)) 0 = Some ar"
  shows "\<exists>m'. resolve_page m a = Inr (a_ptr ar, m') \<and> vpage m' a = Some (a_ptr ar)"
proof -
  have "page_base a \<noteq> cached_page_vaddr m"
    using cache_hit [OF assms(1), of a] unallocated_vpage [OF assms(2)] by auto
  moreover have "lazy_page m a = Inr (\<lparr>type_address = MAPPED_PTR_HOST, address = a_ptr ar\<rparr>,
      m\<lparr>vm_host := (vm_host m)\<lparr>hcalls := Suc (hcalls (vm_host m))\<rparr>,
        vm_tlb := translate (vm_tlb m) (page_base a) MAPPED_PTR_HOST (a_ptr ar)\<rparr>)"
    using assms(3,4) vm_okD(1) [OF assms(1)]
    by (simp add: lazy_page_def create_arena_def allocate_memory_def mmap_def Let_def get_ptr_arena_def
        get_arena_def get_entry_translate next_grant_def)
  ultimately show ?thesis
    using assms(2) vm_okD(1) [OF assms(1)]
    by (auto simp: resolve_page_def unallocated_def vpage_def get_entry_translate split: option.splits)
qed

definition demo_full :: VirtualMemory where
  "demo_full = demo1\<lparr>vm_host := (vm_host demo1)\<lparr>hgrant := (\<lambda>_ _. 0)\<rparr>\<rparr>"

lemma demo_full_ok: "vm_ok demo_full"
proof -
  have v: "vpage demo_full x = vpage demo1 x" for x by (simp add: vpage_def demo_full_def)
  show ?thesis
  proof (rule vm_okI; (unfold v)?)
    show "tlb_wf (vm_tlb demo_full)" using vm_okD(1) [OF demo1_ok(1)] by (simp add: demo_full_def)
    show "page_off q = 0" "q \<noteq> 0" "hpages (vm_host demo_full) q \<noteq> None" if "vpage demo1 b = Some q" for b q
      using vm_okD(2-4) [OF demo1_ok(1) that] by (simp_all add: demo_full_def)
    show "page_base b = page_base c" if "vpage demo1 b = Some q" "vpage demo1 c = Some q" for b c q
      by (rule vm_okD(5) [OF demo1_ok(1) that])
    show "cached_page_vaddr demo_full = UINT64_MAX \<or> page_off (cached_page_vaddr demo_full) = 0 \<and>
        vpage demo1 (cached_page_vaddr demo_full) = Some (cached_page_host demo_full)"
      using vm_okD(6) [OF demo1_ok(1)] by (simp add: demo_full_def)
  qed
qed

theorem refused_page_aliases_first_arena_witness:
  "\<exists>m'. resolve_page demo_full 0x2000 = Inr (0x10000, m') \<and> vpage m' 0x2000 = Some 0x10000"
proof -
  have "unallocated demo_full 0x2000"
    using demo1_unallocated [of "0x2000"] by (simp add: unallocated_def demo_full_def page_base_def)
  moreover have "\<not> mmap_free (vm_host demo_full) (next_grant demo_full) 4096"
    by (simp add: mmap_free_def demo_full_def next_grant_def)
  moreover have "map_of (arenas (vm_arenas demo_full)) 0 =
      Some \<lparr>a_ptr = 0x10000, a_size = 4096, a_perms = permsDefault\<rparr>"
    by (simp add: demo_full_def demo1_def with_page_def new_VirtualMemory_def new_ArenaManager_def)
  ultimately show ?thesis
    using refused_page_aliases_first_arena [OF demo_full_ok, of "0x2000"] by simp
qed

end
