(* ===== verification/Vm_Fast.thy ===== *)
theory Vm_Fast
  imports Vm_Interp Vm_MemProps
begin

text \<open>
  The two interpreters agree: the inlined handlers of the threaded dispatch compute what the
  table handlers do followed by the advance of the program counter, except for the two
  conditions that they read differently.
\<close>

named_theorems proc_simps \<open>projections of updated processes\<close>

lemma upd_regs_proj [simp, proc_simps]:
  "registers (upd_regs f p) = f (registers p)" "vm_mem (upd_regs f p) = vm_mem p"
  "decoded_ptr (upd_regs f p) = decoded_ptr p" "icache (upd_regs f p) = icache p"
  "exc_frame_stack (upd_regs f p) = exc_frame_stack p" "state (upd_regs f p) = state p"
  "frame_stack (upd_regs f p) = frame_stack p" "frames (upd_regs f p) = frames p"
  by (simp_all add: upd_regs_def)

lemmas setter_defs = set_flags_def set_rip_def set_rsp_def set_rbp_def

lemma upd_regs_upd_regs [simp]: "upd_regs f (upd_regs g p) = upd_regs (\<lambda>c. f (g c)) p"
  by (simp add: upd_regs_def)

lemma setter_proj [simp]:
  "flags (registers (set_flags f p)) = f" "pc_of (set_flags f p) = pc_of p" "pc_of (set_rip a p) = a"
  "flags (registers (set_rip a p)) = flags (registers p)"
  "rsp (set_rip a p) = rsp p" "rbp (set_rip a p) = rbp p" "rsp (set_rsp a p) = a" "rbp (set_rsp a p) = rbp p"
  "rbp (set_rbp a p) = a" "rsp (set_rbp a p) = rsp p" "pc_of (set_rsp a p) = pc_of p" "pc_of (set_rbp a p) = pc_of p"
  by (simp_all add: setter_defs)

lemma rbind_Inr_Inl [simp]: "rbind (Inr x) f = f x" "rbind (Inl e) f = Inl e"
  by (simp_all add: rbind_def)

lemma rbind_assoc: "rbind (rbind m f) g = rbind m (\<lambda>x. rbind (f x) g)"
  by (cases m) simp_all

lemma rbind_if [simp]: "rbind (if c then a else b) f = (if c then rbind a f else rbind b f)"
  by simp

section \<open>The end of an instruction\<close>

definition running :: "ProcessVM \<Rightarrow> u32 \<Rightarrow> DecodedInstr \<Rightarrow> bool" where
  "running p i d \<longleftrightarrow> decoded_ptr p = Some i \<and> icache p i = d \<and> \<not> did_jump d \<and> \<not> blocking d"

lemma running_upd_regs [simp]: "running (upd_regs f p) i d = running p i d"
  by (simp add: running_def)

lemma running_setters [simp]:
  "running (set_flags f p) i d = running p i d" "running (set_rip a p) i d = running p i d"
  "running (set_rsp a p) i d = running p i d" "running (set_rbp a p) i d = running p i d"
  by (simp_all add: setter_defs)

lemma advance_plain: "running p i d \<Longrightarrow> advance p = Inr (EVT_EXEC_DONE, next_rip d p)"
  by (simp add: running_def advance_def current_instr_def next_rip_def)

lemma advance_jump:
  assumes "running p i d"
  shows "rbind (write_rip a p) advance = Inr (EVT_EXEC_DONE, set_rip a p)"
proof -
  have d: "decoded_ptr p = Some i" "icache p i = d" "\<not> did_jump d" "\<not> blocking d"
    using assms by (simp_all add: running_def)
  have "d\<lparr>did_jump := False\<rparr> = d" using d(3) by (cases d) simp
  then have "(icache p)(i := d\<lparr>did_jump := False\<rparr>) = icache p" using d(2) by (simp add: fun_upd_idem)
  then show ?thesis using d
    by (simp add: write_rip_def mark_jump_def upd_decoded_def set_rip_def advance_def current_instr_def)
qed

section \<open>Operations at 64 bits\<close>

lemma set_lo_64 [simp]: "set_lo (v :: u64) x = v"
  by (simp add: set_lo_def)

lemma alu64_add:
  "alu_compute AddOp f (a :: u64) b sg =
     Alu_ok (a + b) (if sg then arith_flags (a + b) False (neg64 ((a XOR (a + b)) AND (b XOR (a + b)))) f
                     else arith_flags (a + b) (a + b < a) False f)"
  using sign_bit_iff [of "a + b"]
  by (simp add: alu_compute_def store_flags_def AddOp_compute_def AddOp_flags_def arith_flags_def neg64_def
      set_flag_commute [of 2 3])

lemma alu64_sub:
  "op = SubOp \<or> op = CmpOp \<Longrightarrow> alu_compute op f (a :: u64) b sg =
     Alu_ok (a - b) (if sg then arith_flags (a - b) False (neg64 ((a XOR b) AND (a XOR (a - b)))) f
                     else arith_flags (a - b) (a < b) False f)"
  using sign_bit_iff [of "a - b"]
  by (auto simp add: alu_compute_def store_flags_def SubOp_compute_def SubOp_flags_def CmpOp_compute_def
      CmpOp_flags_def arith_flags_def neg64_def set_flag_commute [of 2 3])

lemma alu64_logic:
  "alu_compute AndOp f (a :: u64) b sg = Alu_ok (a AND b) (arith_flags (a AND b) False False f)"
  "alu_compute OrOp f (a :: u64) b sg = Alu_ok (a OR b) (arith_flags (a OR b) False False f)"
  "alu_compute XorOp f (a :: u64) b sg = Alu_ok (a XOR b) (arith_flags (a XOR b) False False f)"
  using sign_bit_iff [of "a AND b"] sign_bit_iff [of "a OR b"] sign_bit_iff [of "a XOR b"]
  by (simp_all add: alu_compute_def store_flags_def AndOp_compute_def OrOp_compute_def XorOp_compute_def
      LogicFlagsBase_flags_def arith_flags_def neg64_def)

lemma set_reg_flags:
  "rbind (reg p r) (\<lambda>v. set_reg r (f v) (set_flags g p)) = rbind (set_reg r (f (regs (registers p) ! unat r)) p)
     (\<lambda>p1. Inr (set_flags g p1))"
  by (simp add: reg_def set_reg_def set_flags_def upd_regs_def)

section \<open>Handlers\<close>

lemma exec_reg_64:
  "i_mode d = 3 \<Longrightarrow> exec_reg op rt p d =
     rbind (reg p (reg1 d)) (\<lambda>a. rbind (reg p (reg2 d)) (\<lambda>b. alu_core rt op p a b (signed_instruct d) (reg1 d)))"
  "i_mode d = 3 \<Longrightarrow> exec_reg_nosign op rt p d =
     rbind (reg p (reg1 d)) (\<lambda>a. rbind (reg p (reg2 d)) (\<lambda>b. alu_core rt op p a b False (reg1 d)))"
  by (simp_all add: exec_reg_def exec_reg_nosign_def binary_table_def at_mode_def binary_wrapper_def Let_def)

lemma alu_core_ok:
  assumes "alu_compute op (flags (registers p)) a b sg = Alu_ok (r :: u64) g"
  shows "\<not> is_compare op \<Longrightarrow> alu_core rt op p a b sg dst =
      rbind (set_reg dst r p) (\<lambda>p1. Inr (set_flags g p1))"
    and "is_compare op \<Longrightarrow> alu_core rt op p a b sg dst = Inr (set_flags g p)"
proof -
  have "alu_core rt op p a b sg dst =
      (if is_compare op then Inr (set_flags g p) else upd_reg dst (set_lo r) (set_flags g p))"
    by (simp add: alu_core_def compute_with_flags_def assms)
  then show "\<not> is_compare op \<Longrightarrow> alu_core rt op p a b sg dst =
      rbind (set_reg dst r p) (\<lambda>p1. Inr (set_flags g p1))"
    and "is_compare op \<Longrightarrow> alu_core rt op p a b sg dst = Inr (set_flags g p)"
    by (simp_all add: upd_reg_def reg_def set_reg_def set_flags_def upd_regs_def)
qed

lemma set_reg_advance:
  assumes "running p i d"
  shows "rbind (rbind (set_reg r v p) (\<lambda>p1. Inr (set_flags g p1))) advance =
    rbind (rbind (set_reg r v p) (\<lambda>p1. Inr (next_rip d (set_flags g p1)))) (\<lambda>p1. Inr (EVT_EXEC_DONE, p1))"
  using advance_plain [of _ i d] assms by (simp add: set_reg_def)

lemma registers_set_reg: "set_reg r v p = Inr p1 \<Longrightarrow> flags (registers p1) = flags (registers p)"
  by (auto simp: set_reg_def split: if_splits)

lemma set_reg_flags_cong:
  "rbind (set_reg r v p) (\<lambda>p1. Inr (next_rip d (set_flags (h (flags (registers p1))) p1))) =
     rbind (set_reg r v p) (\<lambda>p1. Inr (next_rip d (set_flags (h (flags (registers p))) p1)))"
  by (simp add: set_reg_def)

text \<open>The binary handlers of the fast path as instances of one scheme.\<close>

definition fast_binary :: "(u64 \<Rightarrow> u64 \<Rightarrow> u64) \<Rightarrow> (u64 \<Rightarrow> u64 \<Rightarrow> RFlags \<Rightarrow> RFlags) \<Rightarrow> ProcessVM \<Rightarrow> DecodedInstr \<Rightarrow> ProcessVM res" where
  "fast_binary f g p d =
     rbind (reg p (reg1 d)) (\<lambda>a. rbind (reg p (reg2 d)) (\<lambda>b.
       rbind (set_reg (reg1 d) (f a b) p) (\<lambda>p1. Inr (next_rip d (set_flags (g a b (flags (registers p))) p1)))))"

lemma exec_reg_fast:
  assumes "running p i d" "\<not> is_compare op"
    and "\<And>a b. alu_compute op (flags (registers p)) a b sg = Alu_ok (f a b) (g a b (flags (registers p)))"
    and "ex = rbind (reg p (reg1 d)) (\<lambda>a. rbind (reg p (reg2 d)) (\<lambda>b. alu_core rt op p a b sg (reg1 d)))"
  shows "rbind ex advance = rbind (fast_binary f g p d) (\<lambda>p1. Inr (EVT_EXEC_DONE, p1))"
  unfolding assms(4) fast_binary_def alu_core_ok(1) [OF assms(3,2)]
  by (simp only: rbind_assoc set_reg_advance [OF assms(1), unfolded rbind_assoc])

lemma fast_binary_handlers:
  assumes "i_mode d = 3"
  shows "L_ADD_RR p d = Some (fast_binary (\<lambda>a b. a + b) (\<lambda>a b. if signed_instruct d
        then arith_flags (a + b) False (neg64 ((a XOR (a + b)) AND (b XOR (a + b))))
        else arith_flags (a + b) (a + b < a) False) p d)"
    and "L_SUB_RR p d = Some (fast_binary (\<lambda>a b. a - b) (\<lambda>a b. if signed_instruct d
        then arith_flags (a - b) False (neg64 ((a XOR b) AND (a XOR (a - b))))
        else arith_flags (a - b) (a < b) False) p d)"
    and "logic_rr h p d = Some (fast_binary h (\<lambda>a b. arith_flags (h a b) False False) p d)"
  using assms by (simp_all add: L_ADD_RR_def L_SUB_RR_def logic_rr_def fast_binary_def Let_def set_reg_def
      reg_def if_distrib [of "\<lambda>f. f (flags (registers p))"])

section \<open>Rows of the tables\<close>

lemma fast_rows:
  "fmt_exec (decode_table_extended ! 0x14) = Some ''exec_instr_mov_reg''"
  "fmt_exec (decode_table_extended ! 0x15) = Some ''exec_instr_inmed_mov''"
  "fmt_exec (decode_table_extended ! 0x05) = Some ''exec_instr_add_reg''"
  "fmt_exec (decode_table_extended ! 0x08) = Some ''exec_instr_sub_reg''"
  "fmt_exec (decode_table_extended ! 0x11) = Some ''exec_instr_cmp_reg''"
  "fmt_exec (decode_table_extended ! 0x17) = Some ''exec_instr_and_reg''"
  "fmt_exec (decode_table_extended ! 0x18) = Some ''exec_instr_or_reg''"
  "fmt_exec (decode_table_extended ! 0x19) = Some ''exec_instr_xor_reg''"
  "fmt_exec (decode_table_extended ! 0x68) = Some ''exec_instr_cmpjmp''"
  "fmt_exec (decode_table_extended ! 0x69) = Some ''exec_instr_cmpjmpu''"
  "fmt_exec (decode_table_primary ! 0x11) = Some ''exec_instr_jmp''"
  by code_simp+

lemma alu3_rows:
  "0x73 \<le> n \<Longrightarrow> n \<le> 0x7B \<Longrightarrow> fmt_exec (decode_table_extended ! n) = Some ''exec_instr_alu3''"
proof -
  have "\<forall>n \<in> set [0x73..<0x7C]. fmt_exec (decode_table_extended ! n) = Some ''exec_instr_alu3''"
    by code_simp
  moreover assume "0x73 \<le> n" "n \<le> 0x7B"
  then have "n \<in> set [0x73..<0x7C]" by (simp only: set_upt atLeastLessThan_iff) simp
  ultimately show "fmt_exec (decode_table_extended ! n) = Some ''exec_instr_alu3''" by (rule bspec)
qed

lemma run_exec_names:
  "run_exec other rt ''exec_instr_mov_reg'' = exec_instr_mov_reg"
  "run_exec other rt ''exec_instr_inmed_mov'' = exec_instr_inmed_mov"
  "run_exec other rt ''exec_instr_add_reg'' = exec_instr_add_reg rt"
  "run_exec other rt ''exec_instr_sub_reg'' = exec_instr_sub_reg rt"
  "run_exec other rt ''exec_instr_cmp_reg'' = exec_instr_cmp_reg rt"
  "run_exec other rt ''exec_instr_and_reg'' = exec_instr_and_reg rt"
  "run_exec other rt ''exec_instr_or_reg'' = exec_instr_or_reg rt"
  "run_exec other rt ''exec_instr_xor_reg'' = exec_instr_xor_reg rt"
  "run_exec other rt ''exec_instr_cmpjmp'' = exec_instr_cmpjmp rt"
  "run_exec other rt ''exec_instr_cmpjmpu'' = exec_instr_cmpjmpu rt"
  "run_exec other rt ''exec_instr_alu3'' = exec_instr_alu3"
  "run_exec other rt ''exec_instr_jmp'' = exec_instr_jmp"
  by (simp_all add: run_exec_def exec_alu_table_def exec_stack_table_def)

section \<open>Each inlined handler\<close>

abbreviation done_step :: "ProcessVM res \<Rightarrow> (vm_event \<times> ProcessVM) res" where
  "done_step r \<equiv> rbind r (\<lambda>p1. Inr (EVT_EXEC_DONE, p1))"

lemma fast_mov:
  assumes "running p i d"
  shows "L_MOV_RR p d = Some r \<Longrightarrow> rbind (exec_instr_mov_reg p d) advance = done_step r"
    and "L_MOV_RI p d = Some r \<Longrightarrow> rbind (exec_instr_inmed_mov p d) advance = done_step r"
  using assms advance_plain [of _ i d]
  by (auto simp: L_MOV_RR_def L_MOV_RI_def exec_instr_mov_reg_def exec_instr_inmed_mov_def Let_def
      mov_table_def at_mode_def mov_wrapper_def upd_reg_def reg_def set_reg_def write_reg_table_def
      write_reg64_def split: if_splits)

lemma fast_arith:
  assumes "running p i d"
  shows "L_ADD_RR p d = Some r \<Longrightarrow> rbind (exec_instr_add_reg rt p d) advance = done_step r"
    and "L_SUB_RR p d = Some r \<Longrightarrow> rbind (exec_instr_sub_reg rt p d) advance = done_step r"
    and "L_AND_RR p d = Some r \<Longrightarrow> rbind (exec_instr_and_reg rt p d) advance = done_step r"
    and "L_OR_RR p d = Some r \<Longrightarrow> rbind (exec_instr_or_reg rt p d) advance = done_step r"
    and "L_XOR_RR p d = Some r \<Longrightarrow> rbind (exec_instr_xor_reg rt p d) advance = done_step r"
proof -
  have m: "i_mode d = 3"
    if "L_ADD_RR p d = Some r \<or> L_SUB_RR p d = Some r \<or> logic_rr h p d = Some r" for h
    using that by (auto simp: L_ADD_RR_def L_SUB_RR_def logic_rr_def split: if_splits)
  show "rbind (exec_instr_add_reg rt p d) advance = done_step r" if r: "L_ADD_RR p d = Some r"
  proof -
    have md: "i_mode d = 3" using m [of undefined] r by blast
    show ?thesis
      using fast_binary_handlers(1) [OF md, of p] r unfolding exec_instr_add_reg_def
      by (intro exec_reg_fast [OF assms _ _ exec_reg_64(1) [OF md], THEN trans]) (auto simp: alu64_add)
  qed
  show "rbind (exec_instr_sub_reg rt p d) advance = done_step r" if r: "L_SUB_RR p d = Some r"
  proof -
    have md: "i_mode d = 3" using m [of undefined] r by blast
    show ?thesis
      using fast_binary_handlers(2) [OF md, of p] r unfolding exec_instr_sub_reg_def
      by (intro exec_reg_fast [OF assms _ _ exec_reg_64(1) [OF md], THEN trans]) (auto simp: alu64_sub)
  qed
  show "rbind (exec_instr_and_reg rt p d) advance = done_step r" if r: "L_AND_RR p d = Some r"
  proof -
    have md: "i_mode d = 3" using m r unfolding L_AND_RR_def by blast
    show ?thesis
      using fast_binary_handlers(3) [OF md, of _ p] r unfolding exec_instr_and_reg_def L_AND_RR_def
      by (intro exec_reg_fast [OF assms _ _ exec_reg_64(2) [OF md], THEN trans]) (auto simp: alu64_logic(1))
  qed
  show "rbind (exec_instr_or_reg rt p d) advance = done_step r" if r: "L_OR_RR p d = Some r"
  proof -
    have md: "i_mode d = 3" using m r unfolding L_OR_RR_def by blast
    show ?thesis
      using fast_binary_handlers(3) [OF md, of _ p] r unfolding exec_instr_or_reg_def L_OR_RR_def
      by (intro exec_reg_fast [OF assms _ _ exec_reg_64(2) [OF md], THEN trans]) (auto simp: alu64_logic(2))
  qed
  show "rbind (exec_instr_xor_reg rt p d) advance = done_step r" if r: "L_XOR_RR p d = Some r"
  proof -
    have md: "i_mode d = 3" using m r unfolding L_XOR_RR_def by blast
    show ?thesis
      using fast_binary_handlers(3) [OF md, of _ p] r unfolding exec_instr_xor_reg_def L_XOR_RR_def
      by (intro exec_reg_fast [OF assms _ _ exec_reg_64(2) [OF md], THEN trans]) (auto simp: alu64_logic(3))
  qed
qed

lemma fast_cmp:
  assumes "running p i d" "L_CMP_RR p d = Some r"
  shows "rbind (exec_instr_cmp_reg rt p d) advance = done_step r"
proof -
  have md: "i_mode d = 3" using assms(2) by (auto simp: L_CMP_RR_def split: if_splits)
  have core: "alu_core rt CmpOp p a b sg dst = Inr (set_flags
      (if sg then arith_flags (a - b) False (neg64 ((a XOR b) AND (a XOR (a - b)))) (flags (registers p))
       else arith_flags (a - b) (a < b) False (flags (registers p))) p)" for a b :: u64 and sg dst
    by (rule alu_core_ok(2) [OF alu64_sub]) simp_all
  show ?thesis
    using assms(2) md advance_plain [of _ i d] assms(1)
    by (auto simp: L_CMP_RR_def exec_instr_cmp_reg_def exec_reg_64(1) core Let_def reg_def)
qed

text \<open>The two condition codes that the paths read differently: unsigned higher, lower or same.\<close>

lemma fast_cond_eq: "cond \<noteq> 8 \<Longrightarrow> cond \<noteq> 9 \<Longrightarrow> fast_cond cond f = eval_jmp_cond cond f"
  unfolding fast_cond_def eval_jmp_cond_def COND_defs by (simp only: if_False simp_thms if_True)

lemma fast_jcc:
  assumes "running p i d" "imm_reg d \<noteq> 8" "imm_reg d \<noteq> 9" "L_JCC p d = Some r"
  shows "rbind (exec_instr_jmp p d) advance = done_step r"
  using assms advance_jump [OF assms(1), of "inmmed d"] advance_plain [OF assms(1)]
  by (auto simp: L_JCC_def exec_instr_jmp_def fast_cond_eq)

lemma cmp_flags_64:
  "cmpjmp_set_flags rt p a b sg = Inr (set_flags
      (if sg then arith_flags (a - b) False (neg64 ((a XOR b) AND (a XOR (a - b)))) (flags (registers p))
       else arith_flags (a - b) (a < b) False (flags (registers p))) p)"
  by (simp add: cmpjmp_set_flags_def compute_with_flags_def alu64_sub)

lemma fast_cmpjmp:
  assumes "running p i d" "(ucast (sd_pad d) :: u8) \<noteq> 8" "(ucast (sd_pad d) :: u8) \<noteq> 9"
    and "L_CMPJMP p d = Some r" "sg \<longleftrightarrow> opcode_index d = 0x68"
  shows "rbind (cmpjmp sg rt p d) advance = done_step r"
proof -
  note eq = fast_cond_eq [OF assms(2,3)]
  have jmp: "rbind (write_rip (ucast (sd_offset d)) (set_flags f p)) advance =
      Inr (EVT_EXEC_DONE, set_rip (ucast (sd_offset d)) (set_flags f p))" for f
    by (rule advance_jump [of _ i d]) (simp add: assms(1))
  have plain: "advance (set_flags f p) = Inr (EVT_EXEC_DONE, next_rip d (set_flags f p))" for f
    by (rule advance_plain [of _ i d]) (simp add: assms(1))
  show ?thesis
    using assms(4,5)
    by (auto simp: L_CMPJMP_def cmpjmp_def cmp_flags_64 eq jmp plain Let_def reg_def)
qed

text \<open>The two switches of the three-operand arithmetic compute the same results and flags.\<close>

lemma alu3_switches_agree:
  "fast_alu3_switch opc a b f =
     (case alu3_result opc a b f of Inl e \<Rightarrow> Some (Inl e)
      | Inr None \<Rightarrow> None | Inr (Some out) \<Rightarrow> Some (Inr out))"
  by (simp add: fast_alu3_switch_def alu3_result_def alu3_flags_def neg64_def Let_def
      set_flag_commute [of 2 3])

lemma fast_alu3:
  assumes "running p i d" "L_ALU3 p d = Some r"
  shows "rbind (exec_instr_alu3 p d) advance = done_step r"
  using assms(2) advance_plain [of _ i d] assms(1)
  by (auto simp: L_ALU3_def exec_instr_alu3_def alu3_switches_agree Let_def reg_def set_reg_def rbind_assoc
      rbind_def split: option.splits sum.splits if_splits)

section \<open>The two paths agree\<close>

definition decoded_row :: "DecodedInstr \<Rightarrow> InstrFormat" where
  "decoded_row d = (if is_not_extended d = 0 then decode_table_extended ! unat (opcode_index d)
     else decode_table_primary ! unat (is_not_extended d))"

text \<open>The condition code of an inlined conditional jump.\<close>

definition jump_cond :: "DecodedInstr \<Rightarrow> u8 option" where
  "jump_cond d =
     (if dispatch_idx d = 0x11 then Some (imm_reg d)
      else if dispatch_idx d = 0x168 \<or> dispatch_idx d = 0x169 then Some (ucast (sd_pad d)) else None)"

lemma dispatch_ext: "dispatch_idx d = 256 + n \<Longrightarrow> n < 256 \<Longrightarrow> is_not_extended d = 0 \<and> unat (opcode_index d) = n"
  using unsigned_less [of "is_not_extended d", where ?'a = nat] by (auto simp: dispatch_idx_def split: if_splits)

lemma dispatch_prim: "dispatch_idx d = n \<Longrightarrow> n < 256 \<Longrightarrow> is_not_extended d \<noteq> 0 \<and> unat (is_not_extended d) = n"
  by (auto simp: dispatch_idx_def split: if_splits)

lemma row_ext:
  "dispatch_idx d = 256 + n \<Longrightarrow> n < 256 \<Longrightarrow> decoded_row d = decode_table_extended ! n"
  using dispatch_ext [of d n] by (simp add: decoded_row_def)

lemma row_prim: "dispatch_idx d = n \<Longrightarrow> n < 256 \<Longrightarrow> decoded_row d = decode_table_primary ! n"
  using dispatch_prim [of d n] by (simp add: decoded_row_def)

lemma slow_named:
  "exec_cached d = Some name \<Longrightarrow> L_SLOW other rt p d = rbind (run_exec other rt name p d) advance"
  by (simp add: L_SLOW_def)

lemma handler_agrees:
  assumes "running p i d" "exec_cached d = fmt_exec (decoded_row d)"
    and "jump_cond d \<noteq> Some 8" "jump_cond d \<noteq> Some 9"
    and "dispatch_table (dispatch_idx d) = Some h" "h p d = Some r"
  shows "L_SLOW other rt p d = done_step r"
proof -
  note names = run_exec_names [of other rt]
  have slow: "L_SLOW other rt p d = rbind (run_exec other rt name p d) advance"
    if "dispatch_idx d = 256 + n" "n < 256" "fmt_exec (decode_table_extended ! n) = Some name" for n name
    using that assms(2) row_ext [OF that(1,2)] by (simp add: slow_named)
  consider "dispatch_idx d = 0x114" "h = L_MOV_RR" | "dispatch_idx d = 0x115" "h = L_MOV_RI"
    | "dispatch_idx d = 0x105" "h = L_ADD_RR" | "dispatch_idx d = 0x108" "h = L_SUB_RR"
    | "dispatch_idx d = 0x111" "h = L_CMP_RR" | "dispatch_idx d = 0x117" "h = L_AND_RR"
    | "dispatch_idx d = 0x118" "h = L_OR_RR" | "dispatch_idx d = 0x119" "h = L_XOR_RR"
    | "dispatch_idx d = 0x168" "h = L_CMPJMP" | "dispatch_idx d = 0x169" "h = L_CMPJMP"
    | "0x173 \<le> dispatch_idx d" "dispatch_idx d \<le> 0x17B" "h = L_ALU3"
    | "dispatch_idx d = 0x11" "h = L_JCC"
    using assms(5) unfolding dispatch_table_def by (auto split: if_splits)
  then show ?thesis
  proof cases
    case 1 then show ?thesis
      using slow [of "0x14"] fast_rows names fast_mov(1) [OF assms(1)] assms(6) by simp
  next
    case 2 then show ?thesis
      using slow [of "0x15"] fast_rows names fast_mov(2) [OF assms(1)] assms(6) by simp
  next
    case 3 then show ?thesis
      using slow [of "0x05"] fast_rows names fast_arith(1) [OF assms(1)] assms(6) by simp
  next
    case 4 then show ?thesis
      using slow [of "0x08"] fast_rows names fast_arith(2) [OF assms(1)] assms(6) by simp
  next
    case 5 then show ?thesis
      using slow [of "0x11"] fast_rows names fast_cmp [OF assms(1)] assms(6) by simp
  next
    case 6 then show ?thesis
      using slow [of "0x17"] fast_rows names fast_arith(3) [OF assms(1)] assms(6) by simp
  next
    case 7 then show ?thesis
      using slow [of "0x18"] fast_rows names fast_arith(4) [OF assms(1)] assms(6) by simp
  next
    case 8 then show ?thesis
      using slow [of "0x19"] fast_rows names fast_arith(5) [OF assms(1)] assms(6) by simp
  next
    case 9
    then have "opcode_index d = 0x68" using dispatch_ext [of d "0x68"] by (simp add: word_unat_eq_iff)
    then show ?thesis
      using 9 slow [of "0x68"] fast_rows names fast_cmpjmp [OF assms(1), of r True rt] assms(3,4,6)
      by (simp add: exec_instr_cmpjmp_def jump_cond_def)
  next
    case 10
    then have "opcode_index d \<noteq> 0x68" using dispatch_ext [of d "0x69"] by (auto simp: word_unat_eq_iff)
    then show ?thesis
      using 10 slow [of "0x69"] fast_rows names fast_cmpjmp [OF assms(1), of r False rt] assms(3,4,6)
      by (simp add: exec_instr_cmpjmpu_def jump_cond_def)
  next
    case 11
    then show ?thesis
      using slow [of "dispatch_idx d - 256"] alu3_rows [of "dispatch_idx d - 256"] names
        fast_alu3 [OF assms(1)] assms(6) by simp
  next
    case 12
    then have "exec_cached d = Some ''exec_instr_jmp''" using row_prim [of d "0x11"] fast_rows assms(2) by simp
    then show ?thesis
      using 12 slow_named [of d] names fast_jcc [OF assms(1)] assms(3,4,6) by (simp add: jump_cond_def)
  qed
qed

section \<open>A process to evaluate on\<close>

definition demo_registers :: context_registers_vm where
  "demo_registers = \<lparr>stack_pointer = 0x2000, base_pointer = 0x2008, rip = 0x100, flags = 0,
     regs = [0, 1, 2, 3, 4, 5, 6, 7, 8, 9, 10, 11, 12, 13, 14, 15], cur = [0, 0, 0, 0]\<rparr>"

definition demo_process :: "VirtualMemory \<Rightarrow> DecodedInstr \<Rightarrow> ProcessVM" where
  "demo_process m d = \<lparr>registers = demo_registers, vm_mem = m, stack_low_water = 0x2000,
     reductions_remaining = 2000, state = EXECUTE, err_thread = THREAD_NO_ERROR, icache = (\<lambda>_. d),
     decoded_ptr = Some 0x100, frames = (\<lambda>_. \<lparr>fh_prev = 0, fh_method = None, return_pc = 0,
       frame_base = 0, has_saved_regs = False, saved_r1_r12 = replicate 12 0, inject_r0_to_reg = 0\<rparr>),
     frame_stack = 0, free_list_head = 0, exc_frame_stack = [], current_exception = 0,
     obj_class = Map.empty, fatal_slot = 0, fatal_kind = 0, fatal_pc = 0, loadmod_call_depth = 0,
     loadmod_r0_stack = []\<rparr>"

definition demo_rt :: Runtime where
  "demo_rt = \<lparr>class_supers = (\<lambda>_. []), class_interfaces = (\<lambda>_. []), g_fatal_error_class = 0x700,
     calloc_fatal_slot = 0x800\<rparr>"

definition demo_other :: "string \<Rightarrow> handler" where
  "demo_other name p d = Inr p"

text \<open>\<^verbatim>\<open>cmpjmpu r5, r2, jhi 0x40\<close> and \<^verbatim>\<open>addu r5, r2\<close>.\<close>

definition demo_cmpjmpu :: DecodedInstr where
  "demo_cmpjmpu = new_DecodedInstr\<lparr>opcode_index := 0x69, size_instr := 8, i_pc := 0x100,
     data_instruction := [5, 2, 8, 0, 0x40, 0, 0, 0, 0, 0, 0, 0, 0, 0, 0, 0],
     exec_cached := Some ''exec_instr_cmpjmpu''\<rparr>"

definition demo_add :: DecodedInstr where
  "demo_add = new_DecodedInstr\<lparr>opcode_index := 0x05, size_instr := 4, i_pc := 0x100, i_mode := 3,
     data_instruction := [5, 2, 0, 0, 0, 0, 0, 0, 0, 0, 0, 0, 0, 0, 0, 0],
     exec_cached := Some ''exec_instr_add_reg''\<rparr>"

lemma demo_running: "\<not> did_jump d \<Longrightarrow> \<not> blocking d \<Longrightarrow> running (demo_process m d) 0x100 d"
  by (simp add: running_def demo_process_def)

section \<open>Properties\<close>

text \<open>C2. The threaded dispatch agrees with the instruction handlers: on an entry of the
instruction cache that was decoded from the tables, the inlined handlers of moves, additions,
subtractions, comparisons, logic, three-operand arithmetic and conditional jumps give the same
process, counter and event as the handler of the table followed by the advance of the counter,
for every condition code but 8 and 9.\<close>

theorem fast_path_agrees:
  assumes "running p i d" "exec_cached d = fmt_exec (decoded_row d)"
    and "jump_cond d \<noteq> Some 8" "jump_cond d \<noteq> Some 9"
  shows "fast_step other rt p = L_SLOW other rt p d"
proof -
  have "current_instr p = Inr d" using assms(1) by (simp add: current_instr_def running_def)
  then show ?thesis using handler_agrees [OF assms, of _ _ other rt]
    by (auto simp: fast_step_def split: option.splits)
qed

theorem fast_path_agrees_witness:
  "fast_step demo_other demo_rt (demo_process demo2 demo_add) = L_SLOW demo_other demo_rt (demo_process demo2 demo_add) demo_add"
proof (rule fast_path_agrees)
  show "running (demo_process demo2 demo_add) 0x100 demo_add"
    by (rule demo_running) (simp_all add: demo_add_def new_DecodedInstr_def)
  show "exec_cached demo_add = fmt_exec (decoded_row demo_add)" by code_simp
qed (simp_all add: jump_cond_def dispatch_idx_def demo_add_def new_DecodedInstr_def)

text \<open>C11. The unsigned conditions differ between the two paths: for \<^verbatim>\<open>cmpjmpu\<close> with the code of
``higher'' the threaded dispatch jumps exactly when the first operand is greater, while the
handler of the table jumps exactly when it is smaller.\<close>

theorem higher_condition_inverted:
  assumes "running p i d" "is_not_extended d = 0" "opcode_index d = 0x69"
    and "exec_cached d = fmt_exec (decoded_row d)" "sd_pad d = 8"
    and "reg p (sd_r0 d) = Inr a" "reg p (sd_r1 d) = Inr b"
  shows "(\<exists>q. fast_step other rt p = Inr (EVT_EXEC_DONE, q) \<and>
      pc_of q = (if b < a then ucast (sd_offset d) else pc_of p + ucast (size_instr d))) \<and>
    (\<exists>q. L_SLOW other rt p d = Inr (EVT_EXEC_DONE, q) \<and>
      pc_of q = (if a < b then ucast (sd_offset d) else pc_of p + ucast (size_instr d)))"
proof (intro conjI)
  have cur: "current_instr p = Inr d" using assms(1) by (simp add: current_instr_def running_def)
  have idx: "dispatch_idx d = 0x169" using assms(2,3) by (simp add: dispatch_idx_def)
  have "exec_cached d = Some ''exec_instr_cmpjmpu''"
    using assms(2,3,4) fast_rows(10) by (simp add: decoded_row_def)
  then have slow: "L_SLOW other rt p d = rbind (cmpjmp False rt p d) advance"
    by (simp add: slow_named run_exec_names exec_instr_cmpjmpu_def)
  have jmp: "rbind (write_rip v (set_flags f p)) advance = Inr (EVT_EXEC_DONE, set_rip v (set_flags f p))"
      "advance (set_flags f p) = Inr (EVT_EXEC_DONE, next_rip d (set_flags f p))" for v f
    by (rule advance_jump [of _ i d], simp add: assms(1)) (rule advance_plain [of _ i d], simp add: assms(1))
  have c: "fast_cond 8 f \<longleftrightarrow> \<not> CF f \<and> \<not> ZF f" "eval_jmp_cond 8 f \<longleftrightarrow> CF f \<and> \<not> ZF f" for f
    by (simp_all add: fast_cond_def eval_jmp_cond_def COND_HI_def)
  show "\<exists>q. fast_step other rt p = Inr (EVT_EXEC_DONE, q) \<and>
      pc_of q = (if b < a then ucast (sd_offset d) else pc_of p + ucast (size_instr d))"
    using cur idx assms(3,5-7)
    by (auto simp: fast_step_def dispatch_table_def L_CMPJMP_def Let_def c arith_flags_def next_rip_def)
  show "\<exists>q. L_SLOW other rt p d = Inr (EVT_EXEC_DONE, q) \<and>
      pc_of q = (if a < b then ucast (sd_offset d) else pc_of p + ucast (size_instr d))"
    using assms(5-7)
    by (auto simp: slow cmpjmp_def cmp_flags_64 jmp c arith_flags_def next_rip_def)
qed

theorem higher_condition_inverted_witness:
  "(\<exists>q. fast_step demo_other demo_rt (demo_process demo2 demo_cmpjmpu) = Inr (EVT_EXEC_DONE, q) \<and>
      pc_of q = 0x40) \<and>
   (\<exists>q. L_SLOW demo_other demo_rt (demo_process demo2 demo_cmpjmpu) demo_cmpjmpu = Inr (EVT_EXEC_DONE, q) \<and>
      pc_of q = 0x108)"
proof -
  let ?p = "demo_process demo2 demo_cmpjmpu"
  have run: "running ?p 0x100 demo_cmpjmpu"
    by (rule demo_running) (simp_all add: demo_cmpjmpu_def new_DecodedInstr_def)
  have row: "exec_cached demo_cmpjmpu = fmt_exec (decoded_row demo_cmpjmpu)" by code_simp
  have f: "is_not_extended demo_cmpjmpu = 0" "opcode_index demo_cmpjmpu = 0x69" "sd_pad demo_cmpjmpu = 8"
      "reg ?p (sd_r0 demo_cmpjmpu) = Inr 5" "reg ?p (sd_r1 demo_cmpjmpu) = Inr 2"
      "sd_offset demo_cmpjmpu = 0x40" "size_instr demo_cmpjmpu = 8" "pc_of ?p = 0x100"
    by (simp_all add: demo_cmpjmpu_def new_DecodedInstr_def sd_pad_def sd_r0_def sd_r1_def sd_offset_def
        reg_def demo_process_def demo_registers_def)
  show ?thesis
    using higher_condition_inverted [OF run f(1,2) row f(3-5), of demo_other demo_rt] by (simp add: f(6-8))
qed

end
