(* ===== verification/Vm_Calls.thy ===== *)
theory Vm_Calls
  imports Vm_Fast
begin

text \<open>
  Round trips of the stack and call instructions over the flat memory, partial register writes,
  and the fused instructions against the sequences they replace.
\<close>

section \<open>Calls and frames\<close>

lemma with_mem_proj [simp]:
  "registers (with_mem p m) = registers p" "vm_mem (with_mem p m) = m" "frame_stack (with_mem p m) = frame_stack p"
  "decoded_ptr (with_mem p m) = decoded_ptr p" "icache (with_mem p m) = icache p"
  "frames (with_mem p m) = frames p"
  by (simp_all add: with_mem_def)

lemma setters_mem [simp]:
  "vm_mem (set_rsp a p) = vm_mem p" "vm_mem (set_rbp a p) = vm_mem p" "vm_mem (set_rip a p) = vm_mem p"
  "decoded_ptr (set_rsp a p) = decoded_ptr p" "decoded_ptr (set_rbp a p) = decoded_ptr p"
  "decoded_ptr (set_rip a p) = decoded_ptr p" "regs (registers (set_rsp a p)) = regs (registers p)"
  "regs (registers (set_rbp a p)) = regs (registers p)" "regs (registers (set_rip a p)) = regs (registers p)"
  by (simp_all add: setter_defs)

lemma write_rip_ok:
  assumes "decoded_ptr p = Some i"
  obtains q where "write_rip a p = Inr q" "pc_of q = a" "rsp q = rsp p" "rbp q = rbp p" "vm_mem q = vm_mem p"
    "regs (registers q) = regs (registers p)" "frame_stack q = frame_stack p" "frames q = frames p"
    "decoded_ptr q = Some i"
proof -
  let ?q = "(set_rip a p)\<lparr>icache := (icache p)(i := (icache p i)\<lparr>did_jump := True\<rparr>)\<rparr>"
  have "write_rip a p = Inr ?q"
    using assms by (simp add: write_rip_def mark_jump_def upd_decoded_def) (simp add: set_rip_def)
  then show ?thesis by (rule that) (simp_all add: set_rip_def assms)
qed

lemma push_return_ok:
  assumes "vm_ok (vm_mem p)" "cell8 (vm_mem p) (rsp p - 8)" "decoded_ptr p = Some i"
  obtains q where "push_return addr ret p = Inr q" "pc_of q = addr" "rsp q = rsp p - 8" "rbp q = rbp p"
    "regs (registers q) = regs (registers p)" "vm_ok (vm_mem q)" "vword (vm_mem q) (rsp p - 8) = ret"
    "\<And>x. apart x (rsp p - 8) \<Longrightarrow> (vword (vm_mem q) x :: u64) = vword (vm_mem p) x"
    "\<And>x. cell8 (vm_mem q) x = cell8 (vm_mem p) x" "frame_stack q = frame_stack p" "frames q = frames p"
    "decoded_ptr q = Some i"
proof -
  obtain m where m: "write_u64_fast (vm_mem p) (rsp p - 8) ret = Inr m" "vm_ok m" "vword m (rsp p - 8) = ret"
      "\<And>x. apart x (rsp p - 8) \<Longrightarrow> (vword m x :: u64) = vword (vm_mem p) x" "\<And>x. cell8 m x = cell8 (vm_mem p) x"
    by (rule fast.write_ok [OF assms(1,2)]) (rule that)
  let ?p1 = "with_mem (set_rsp (rsp p - 8) p) m"
  have "decoded_ptr ?p1 = Some i" using assms(3) by simp
  then obtain q where q: "write_rip addr ?p1 = Inr q" "pc_of q = addr" "rsp q = rsp ?p1" "rbp q = rbp ?p1"
      "vm_mem q = vm_mem ?p1" "regs (registers q) = regs (registers ?p1)" "frame_stack q = frame_stack ?p1"
      "frames q = frames ?p1" "decoded_ptr q = Some i"
    by (rule write_rip_ok)
  have "push_return addr ret p = Inr q" using m(1) q(1) by (simp add: push_return_def)
  then show ?thesis by (rule that) (use q m in \<open>simp_all add: set_rsp_def\<close>)
qed

lemma ret_ok:
  assumes "vm_ok (vm_mem p)" "cell8 (vm_mem p) (rsp p)" "decoded_ptr p = Some i"
    and "frame_stack p = 0 \<or> frame_base (frames p (frame_stack p)) \<noteq> rsp p + 8"
  obtains q where "exec_instr_ret p d = Inr q" "pc_of q = vword (vm_mem p) (rsp p)" "rsp q = rsp p + 8"
    "rbp q = rbp p" "regs (registers q) = regs (registers p)" "vm_ok (vm_mem q)"
    "\<And>x. (vword (vm_mem q) x :: u64) = vword (vm_mem p) x"
proof -
  obtain m where m: "read_u64_fast (vm_mem p) (rsp p) = Inr (vword (vm_mem p) (rsp p), m)" "vm_ok m"
      "\<And>x. (vword m x :: u64) = vword (vm_mem p) x" "\<And>x. cell8 m x = cell8 (vm_mem p) x"
    by (rule fast.read_ok [OF assms(1,2)]) (rule that)
  let ?p1 = "set_rsp (rsp p + 8) (with_mem p m)"
  have "decoded_ptr ?p1 = Some i" using assms(3) by simp
  then obtain q where q: "write_rip (vword (vm_mem p) (rsp p)) ?p1 = Inr q" "pc_of q = vword (vm_mem p) (rsp p)"
      "rsp q = rsp ?p1" "rbp q = rbp ?p1" "vm_mem q = vm_mem ?p1" "regs (registers q) = regs (registers ?p1)"
    by (rule write_rip_ok)
  have "exec_instr_ret p d = Inr q" using m(1) q(1) assms(4) by (auto simp: exec_instr_ret_def Let_def)
  then show ?thesis by (rule that) (use q m in simp_all)
qed
lemma lower_water_proj [simp]:
  "registers (lower_water a p) = registers p" "vm_mem (lower_water a p) = vm_mem p"
  "decoded_ptr (lower_water a p) = decoded_ptr p" "frame_stack (lower_water a p) = frame_stack p"
  "frames (lower_water a p) = frames p"
  by (simp_all add: lower_water_def)

lemma enter_ok:
  assumes "vm_ok (vm_mem p)" "cell8 (vm_mem p) (rsp p - 8)"
  obtains q where "exec_instr_enter p d = Inr q" "pc_of q = pc_of p" "rbp q = rsp p - 8"
    "rsp q = rsp p - 8 - inmmed d" "regs (registers q) = regs (registers p)" "vm_ok (vm_mem q)"
    "vword (vm_mem q) (rsp p - 8) = rbp p"
    "\<And>x. apart x (rsp p - 8) \<Longrightarrow> (vword (vm_mem q) x :: u64) = vword (vm_mem p) x"
    "\<And>x. cell8 (vm_mem q) x = cell8 (vm_mem p) x" "decoded_ptr q = decoded_ptr p"
    "frame_stack q = frame_stack p" "frames q = frames p" "stack_low_water q = min (stack_low_water p) (rsp q)"
proof -
  obtain m where m: "write_u64_fast (vm_mem p) (rsp p - 8) (rbp p) = Inr m" "vm_ok m" "vword m (rsp p - 8) = rbp p"
      "\<And>x. apart x (rsp p - 8) \<Longrightarrow> (vword m x :: u64) = vword (vm_mem p) x" "\<And>x. cell8 m x = cell8 (vm_mem p) x"
    by (rule fast.write_ok [OF assms]) (rule that)
  let ?q = "lower_water (rsp p - 8 - inmmed d) (set_rsp (rsp p - 8 - inmmed d) (set_rbp (rsp p - 8) (with_mem p m)))"
  have run: "exec_instr_enter p d = Inr ?q" using m(1) by (simp add: exec_instr_enter_def Let_def)
  have low: "stack_low_water ?q = min (stack_low_water p) (rsp p - 8 - inmmed d)"
    by (auto simp: lower_water_def set_rsp_def set_rbp_def with_mem_def min_def upd_regs_def)
  from run show ?thesis by (rule that) (use m low in \<open>simp_all add: set_rsp_def set_rbp_def\<close>)
qed

lemma leave_ok:
  assumes "vm_ok (vm_mem p)" "cell8 (vm_mem p) (rbp p)"
  obtains q where "exec_instr_leave p d = Inr q" "pc_of q = pc_of p" "rsp q = rbp p + 8"
    "rbp q = vword (vm_mem p) (rbp p)" "regs (registers q) = regs (registers p)" "vm_ok (vm_mem q)"
    "\<And>x. (vword (vm_mem q) x :: u64) = vword (vm_mem p) x" "\<And>x. cell8 (vm_mem q) x = cell8 (vm_mem p) x"
    "decoded_ptr q = decoded_ptr p" "frame_stack q = frame_stack p" "frames q = frames p"
proof -
  obtain m where m: "read_u64_fast (vm_mem p) (rbp p) = Inr (vword (vm_mem p) (rbp p), m)" "vm_ok m"
      "\<And>x. (vword m x :: u64) = vword (vm_mem p) x" "\<And>x. cell8 m x = cell8 (vm_mem p) x"
    by (rule fast.read_ok [OF assms]) (rule that)
  let ?q = "set_rbp (vword (vm_mem p) (rbp p)) (set_rsp (rbp p + 8) (with_mem p m))"
  have "exec_instr_leave p d = Inr ?q" using m(1) by (simp add: exec_instr_leave_def Let_def)
  then show ?thesis by (rule that) (use m in \<open>simp_all add: set_rsp_def set_rbp_def\<close>)
qed

lemma apart_below: "apart (a - 8) (a - 16)"
  by (simp add: apart_def)

section \<open>Properties\<close>

text \<open>C12. A call with a stack frame returns: \<^verbatim>\<open>callvm\<close> jumps to its target and \<^verbatim>\<open>enter\<close> sets up the frame
below the return address; whatever the body does to the other registers and cells, as long as it
keeps the base pointer and the two saved cells and the top object frame belongs to another call,
\<^verbatim>\<open>leave\<close> and \<^verbatim>\<open>ret\<close> bring control to the instruction after the call with the stack and base
pointers of the caller and the body's registers.\<close>

theorem call_returns:
  assumes "vm_ok (vm_mem p)" "cell8 (vm_mem p) (rsp p - 8)" "cell8 (vm_mem p) (rsp p - 16)" "decoded_ptr p = Some i"
  shows "\<exists>q e. exec_instr_callvm p call = Inr q \<and> pc_of q = inmmed call \<and> exec_instr_enter q ent = Inr e \<and>
     rbp e = rsp p - 16 \<and> rsp e = rsp p - 16 - inmmed ent \<and> regs (registers e) = regs (registers p) \<and>
     vm_ok (vm_mem e) \<and> (\<forall>x. cell8 (vm_mem e) x = cell8 (vm_mem p) x) \<and> decoded_ptr e = Some i \<and>
     frame_stack e = frame_stack p \<and> frames e = frames p \<and>
     (\<forall>b lv rt. vm_ok (vm_mem b) \<and> rbp b = rbp e \<and> decoded_ptr b = Some i \<and>
        (\<forall>x\<in>{rsp p - 8, rsp p - 16}. cell8 (vm_mem b) x \<and> (vword (vm_mem b) x :: u64) = vword (vm_mem e) x) \<and>
        (frame_stack b = 0 \<or> frame_base (frames b (frame_stack b)) \<noteq> rsp p) \<longrightarrow>
        (\<exists>l s. exec_instr_leave b lv = Inr l \<and> exec_instr_ret l rt = Inr s \<and>
           pc_of s = pc_of p + ucast (size_instr call) \<and> rsp s = rsp p \<and> rbp s = rbp p \<and>
           regs (registers s) = regs (registers b)))"
proof -
  obtain q where q: "push_return (inmmed call) (pc_of p + ucast (size_instr call)) p = Inr q" "pc_of q = inmmed call" "rsp q = rsp p - 8" "rbp q = rbp p"
      "regs (registers q) = regs (registers p)" "vm_ok (vm_mem q)"
      "vword (vm_mem q) (rsp p - 8) = pc_of p + ucast (size_instr call)"
      "\<And>x. cell8 (vm_mem q) x = cell8 (vm_mem p) x" "frame_stack q = frame_stack p" "frames q = frames p"
      "decoded_ptr q = Some i"
    by (rule push_return_ok [OF assms(1,2,4)]) (rule that)
  have "cell8 (vm_mem q) (rsp q - 8)" using assms(3) by (simp add: q)
  from q(6) this obtain e where e: "exec_instr_enter q ent = Inr e" "rbp e = rsp q - 8"
      "rsp e = rsp q - 8 - inmmed ent" "regs (registers e) = regs (registers q)"
      "vword (vm_mem e) (rsp q - 8) = rbp q"
      "\<And>x. apart x (rsp q - 8) \<Longrightarrow> (vword (vm_mem e) x :: u64) = vword (vm_mem q) x" "vm_ok (vm_mem e)"
      "\<And>x. cell8 (vm_mem e) x = cell8 (vm_mem q) x" "decoded_ptr e = decoded_ptr q"
      "frame_stack e = frame_stack q" "frames e = frames q"
    by (rule enter_ok) (rule that)
  have saved: "vword (vm_mem e) (rsp p - 16) = rbp p" "vword (vm_mem e) (rsp p - 8) = pc_of p + ucast (size_instr call)"
    using e(5) e(6) [of "rsp p - 8"] apart_below [of "rsp p"] by (simp_all add: q)
  have "\<exists>l s. exec_instr_leave b lv = Inr l \<and> exec_instr_ret l rt = Inr s \<and>
      pc_of s = pc_of p + ucast (size_instr call) \<and> rsp s = rsp p \<and> rbp s = rbp p \<and>
      regs (registers s) = regs (registers b)"
    if b: "vm_ok (vm_mem b)" "rbp b = rbp e" "decoded_ptr b = Some i"
      "\<forall>x\<in>{rsp p - 8, rsp p - 16}. cell8 (vm_mem b) x \<and> (vword (vm_mem b) x :: u64) = vword (vm_mem e) x"
      "frame_stack b = 0 \<or> frame_base (frames b (frame_stack b)) \<noteq> rsp p" for b lv rt
  proof -
    have rb: "rbp b = rsp p - 16" using b(2) e(2) by (simp add: q)
    then have "cell8 (vm_mem b) (rbp b)" using b(4) by simp
    with b(1) obtain l where l: "exec_instr_leave b lv = Inr l" "rsp l = rbp b + 8"
        "rbp l = vword (vm_mem b) (rbp b)" "regs (registers l) = regs (registers b)" "vm_ok (vm_mem l)"
        "\<And>x. (vword (vm_mem l) x :: u64) = vword (vm_mem b) x" "\<And>x. cell8 (vm_mem l) x = cell8 (vm_mem b) x"
        "decoded_ptr l = decoded_ptr b" "frame_stack l = frame_stack b" "frames l = frames b"
      by (rule leave_ok) (rule that)
    have at: "rsp l = rsp p - 8" using l(2) rb by simp
    have "cell8 (vm_mem l) (rsp l)" "decoded_ptr l = Some i"
        "frame_stack l = 0 \<or> frame_base (frames l (frame_stack l)) \<noteq> rsp l + 8"
      using b(3,4,5) unfolding at l(7-10) by simp_all
    with l(5) obtain s where "exec_instr_ret l rt = Inr s" "pc_of s = vword (vm_mem l) (rsp l)" "rsp s = rsp l + 8"
        "rbp s = rbp l" "regs (registers s) = regs (registers l)"
      by (rule ret_ok) (rule that)
    then show ?thesis using l(1,3,4,6) b(4) saved by (simp add: at rb)
  qed
  moreover have "exec_instr_callvm p call = Inr q" using q(1) by (simp add: exec_instr_callvm_def)
  ultimately show ?thesis using q e by (intro exI [of _ q] exI [of _ e]) simp
qed

theorem call_returns_witness:
  "\<exists>q e l s. exec_instr_callvm (demo_process demo2 demo_add) demo_add = Inr q \<and>
     exec_instr_enter q demo_add = Inr e \<and> exec_instr_leave e demo_add = Inr l \<and>
     exec_instr_ret l demo_add = Inr s \<and> pc_of s = 0x104 \<and> rsp s = 0x2000 \<and> rbp s = 0x2008"
proof -
  let ?p = "demo_process demo2 demo_add"
  have p: "vm_mem ?p = demo2" "rsp ?p = 0x2000" "rbp ?p = 0x2008" "pc_of ?p = 0x100" "decoded_ptr ?p = Some 0x100"
      "frame_stack ?p = 0" "size_instr demo_add = 4"
    by (simp_all add: demo_process_def demo_registers_def demo_add_def new_DecodedInstr_def)
  have c: "cell8 demo2 0x1FF8" "cell8 demo2 0x1FF0" by (rule demo2_cell, simp, simp)+
  obtain q e where qe: "exec_instr_callvm ?p demo_add = Inr q" "exec_instr_enter q demo_add = Inr e"
      "vm_ok (vm_mem e)" "\<forall>x. cell8 (vm_mem e) x = cell8 demo2 x" "decoded_ptr e = Some 0x100"
      "frame_stack e = 0" and rest: "vm_ok (vm_mem e) \<and> rbp e = rbp e \<and> decoded_ptr e = Some 0x100 \<and>
        (\<forall>x\<in>{0x1FF8, 0x1FF0}. cell8 (vm_mem e) x \<and> (vword (vm_mem e) x :: u64) = vword (vm_mem e) x) \<and>
        (frame_stack e = 0 \<or> frame_base (frames e (frame_stack e)) \<noteq> 0x2000) \<longrightarrow>
        (\<exists>l s. exec_instr_leave e demo_add = Inr l \<and> exec_instr_ret l demo_add = Inr s \<and> pc_of s = 0x104 \<and>
           rsp s = 0x2000 \<and> rbp s = 0x2008 \<and> regs (registers s) = regs (registers e))"
    using call_returns [of ?p "0x100" demo_add demo_add] c demo2_ok(1) unfolding p by auto
  then show ?thesis using c by auto
qed

section \<open>Masked pushes\<close>

text \<open>The registers of a mask, in the order the loops visit them.\<close>

definition mask_regs :: "u16 \<Rightarrow> nat list" where
  "mask_regs msk = filter (bit msk) [0..<16]"

lemma mask_regs_basic [simp]:
  "length (mask_regs msk) = popcount msk" "distinct (mask_regs msk)" "set (mask_regs msk) = {r. r < 16 \<and> bit msk r}"
  "popcount msk \<le> 16"
  using length_filter_le [of "bit msk" "[0..<16]"] by (auto simp: mask_regs_def popcount_def)

lemma mask_regs_zero [simp]: "mask_regs 0 = []"
  by (simp add: mask_regs_def)

lemma mask_regs_step:
  assumes "msk \<noteq> 0"
  shows "mask_regs msk = ctz msk # mask_regs (msk AND (msk - 1))"
proof -
  obtain n where n: "bit msk n" using assms by (auto simp: bit_eq_iff)
  then have "n < 16" using bit_imp_le_length [OF n] by simp
  then have "n \<in> set (mask_regs msk)" using n by simp
  then have "mask_regs msk \<noteq> []" by (metis empty_iff empty_set)
  then obtain rest where split: "mask_regs msk = ctz msk # rest"
    by (cases "mask_regs msk") (simp_all add: ctz_def mask_regs_def [symmetric])
  have "sorted (mask_regs msk)" by (simp add: mask_regs_def sorted_wrt_filter)
  then have low: "ctz msk \<le> j" if "bit msk j" "j < 16" for j using that split by (metis (mono_tags, lifting)
      mask_regs_basic(3) mem_Collect_eq set_ConsD sorted_simps(2) order_refl)
  have b: "bit msk (ctz msk)" using split mask_regs_basic(3) [of msk] by auto
  have "bit (msk AND (msk - 1)) = (\<lambda>j. bit msk j \<and> j \<noteq> ctz msk)"
  proof (rule ext, rule clear_lowest [OF b], intro allI impI notI)
    fix j assume j: "j < ctz msk" "bit msk j"
    then show False using low [of j] bit_imp_le_length [OF j(2)] by simp
  qed
  then have "mask_regs (msk AND (msk - 1)) = filter (\<lambda>j. j \<noteq> ctz msk) (mask_regs msk)"
    by (simp add: mask_regs_def)
  also have "\<dots> = rest" using mask_regs_basic(2) [of msk] unfolding split by (auto simp: filter_id_conv)
  finally show ?thesis using split by simp
qed

lemma apart_slots:
  assumes "k < j" "j < 17"
  shows "apart (s - 8 * of_nat k) (s - 8 * of_nat j)"
proof -
  have d: "(s - 8 * of_nat k) - (s - 8 * of_nat j) = (of_nat (8 * (j - k)) :: u64)"
    "(s - 8 * of_nat j) - (s - 8 * of_nat k) = - (of_nat (8 * (j - k)) :: u64)"
    using assms(1) by (simp_all add: algebra_simps of_nat_diff)
  have u: "unat (of_nat (8 * (j - k)) :: u64) = 8 * (j - k)"
    using assms by (intro unat_of_nat64) simp
  moreover have "unat (- (of_nat (8 * (j - k)) :: u64)) = 2 ^ 64 - 8 * (j - k)"
    using assms u by (subst unat_neg64) (auto simp: unat_eq_0 [symmetric])
  moreover have "8 \<le> 8 * (j - k)" "8 * (j - k) \<le> 8 * 17" using assms by simp_all
  ultimately show ?thesis unfolding apart_def d by simp
qed

lemma fastpush_loop_ok:
  assumes "vm_ok (vm_mem p)" "\<And>k. k < popcount msk \<Longrightarrow> cell8 (vm_mem p) (slot - 8 * of_nat k)"
  shows "\<exists>q. fastpush_loop msk slot p = Inr q \<and> q = with_mem p (vm_mem q) \<and> vm_ok (vm_mem q) \<and>
    (\<forall>x. cell8 (vm_mem q) x = cell8 (vm_mem p) x) \<and>
    (\<forall>k < popcount msk. vword (vm_mem q) (slot - 8 * of_nat k) = regs (registers p) ! (mask_regs msk ! k)) \<and>
    (\<forall>x. (\<forall>k < popcount msk. apart x (slot - 8 * of_nat k)) \<longrightarrow> (vword (vm_mem q) x :: u64) = vword (vm_mem p) x)"
  using assms
proof (induction "mask_regs msk" arbitrary: msk slot p)
  case Nil
  then have z: "popcount msk = 0" using mask_regs_basic(1) [of msk] by simp
  have "msk = 0" using Nil(1) mask_regs_step [of msk] by (metis list.distinct(1))
  then show ?case using Nil(2) z by (subst fastpush_loop.simps) (simp add: with_mem_def)
next
  case (Cons r rs)
  let ?rest = "msk AND (msk - 1)"
  have nz: "msk \<noteq> 0" using Cons.hyps(2) by auto
  then have r: "r = ctz msk" "rs = mask_regs ?rest" using mask_regs_step [of msk] Cons.hyps(2) by simp_all
  have n: "popcount msk = Suc (popcount ?rest)"
    using mask_regs_step [OF nz] mask_regs_basic(1) [of msk] mask_regs_basic(1) [of ?rest] by simp
  have "r \<in> set (mask_regs msk)" unfolding Cons.hyps(2) [symmetric] by simp
  then have r16: "r < 16" by simp
  then have rd: "reg p (of_nat (ctz msk)) = Inr (regs (registers p) ! r)"
    by (simp add: reg_def r unat_of_nat)
  obtain m where m: "write_u64 (vm_mem p) slot (regs (registers p) ! r) = Inr m" "vm_ok m"
      "vword m slot = regs (registers p) ! r" "\<And>x. apart x slot \<Longrightarrow> (vword m x :: u64) = vword (vm_mem p) x"
      "\<And>x. cell8 m x = cell8 (vm_mem p) x"
    using slow.write_ok [OF Cons.prems(1), of slot] Cons.prems(2) [of 0] n by auto
  have "cell8 (vm_mem (with_mem p m)) ((slot - 8) - 8 * of_nat k)" if "k < popcount ?rest" for k
    using Cons.prems(2) [of "Suc k"] that n by (simp add: m diff_diff_eq)
  with m(2) obtain q where q: "fastpush_loop ?rest (slot - 8) (with_mem p m) = Inr q"
      "q = with_mem p (vm_mem q)" "vm_ok (vm_mem q)" "\<forall>x. cell8 (vm_mem q) x = cell8 m x"
      "\<forall>k < popcount ?rest. vword (vm_mem q) ((slot - 8) - 8 * of_nat k) = regs (registers p) ! (rs ! k)"
      "\<forall>x. (\<forall>k < popcount ?rest. apart x ((slot - 8) - 8 * of_nat k)) \<longrightarrow> (vword (vm_mem q) x :: u64) = vword m x"
    using Cons.hyps(1) [OF r(2), of "with_mem p m" "slot - 8"] by (auto simp: r with_mem_def)
  have "apart slot ((slot - 8) - 8 * of_nat k)" if "k < popcount ?rest" for k
    using apart_slots [of 0 "Suc k" slot] mask_regs_basic(4) [of msk] n that by (simp add: diff_diff_eq)
  then have first: "vword (vm_mem q) slot = regs (registers p) ! r" using q(6) m(3) by simp
  have cells: "vword (vm_mem q) (slot - 8 * of_nat k) = regs (registers p) ! (mask_regs msk ! k)"
    if "k < popcount msk" for k
    using that first q(5) n by (cases k) (simp_all add: Cons.hyps(2) [symmetric] diff_diff_eq)
  have others: "(vword (vm_mem q) x :: u64) = vword (vm_mem p) x"
    if "\<forall>k < popcount msk. apart x (slot - 8 * of_nat k)" for x
  proof -
    have "apart x slot" "\<forall>k < popcount ?rest. apart x ((slot - 8) - 8 * of_nat k)"
      using that [rule_format, of 0] that [rule_format, of "Suc _"] n by (simp_all add: diff_diff_eq)
    then show ?thesis using q(6) m(4) by simp
  qed
  have "fastpush_loop msk slot p = Inr q"
    using nz rd m(1) q(1) by (subst fastpush_loop.simps) simp
  then show ?case using q(2-4) m(5) cells others by (intro exI [of _ q]) simp
qed

lemma fastpop_loop_ok:
  assumes "vm_ok (vm_mem p)" "length (regs (registers p)) = 16"
    and "\<And>k. k < popcount msk \<Longrightarrow> cell8 (vm_mem p) (slot - 8 * of_nat k) \<and>
        vword (vm_mem p) (slot - 8 * of_nat k) = f (mask_regs msk ! k)"
  shows "\<exists>q. fastpop_loop msk slot p = Inr q \<and> vm_ok (vm_mem q) \<and> rsp q = rsp p \<and> rbp q = rbp p \<and>
    pc_of q = pc_of p \<and> length (regs (registers q)) = 16 \<and>
    (\<forall>x. (vword (vm_mem q) x :: u64) = vword (vm_mem p) x) \<and>
    (\<forall>r < 16. regs (registers q) ! r = (if bit msk r then f r else regs (registers p) ! r))"
  using assms
proof (induction "mask_regs msk" arbitrary: msk slot p)
  case Nil
  have "msk = 0" using Nil(1) mask_regs_step [of msk] by (metis list.distinct(1))
  then show ?case using Nil(2,3) by (subst fastpop_loop.simps) simp
next
  case (Cons r rs)
  let ?rest = "msk AND (msk - 1)"
  have nz: "msk \<noteq> 0" using Cons.hyps(2) by auto
  have r: "r = ctz msk" "rs = mask_regs ?rest" using mask_regs_step [OF nz] Cons.hyps(2) by simp_all
  have n: "popcount msk = Suc (popcount ?rest)"
    using mask_regs_step [OF nz] mask_regs_basic(1) [of msk] mask_regs_basic(1) [of ?rest] by simp
  have "r \<in> set (mask_regs msk)" unfolding Cons.hyps(2) [symmetric] by simp
  then have r16: "r < 16" "bit msk r" by simp_all
  have notin: "r \<notin> set rs" using mask_regs_basic(2) [of msk] unfolding Cons.hyps(2) [symmetric] by simp
  have bits: "j < 16 \<Longrightarrow> bit msk j \<longleftrightarrow> j = r \<or> bit ?rest j" for j
    using mask_regs_basic(3) [of msk] mask_regs_basic(3) [of ?rest]
    unfolding Cons.hyps(2) [symmetric] r(2) [symmetric] by auto
  have at: "cell8 (vm_mem p) slot" "vword (vm_mem p) slot = f r"
    using Cons.prems(3) [of 0] n unfolding Cons.hyps(2) [symmetric] by simp_all
  obtain m where m: "read_u64 (vm_mem p) slot = Inr (f r, m)" "vm_ok m"
      "\<And>x. (vword m x :: u64) = vword (vm_mem p) x" "\<And>x. cell8 m x = cell8 (vm_mem p) x"
    by (rule slow.read_ok [OF Cons.prems(1) at(1), unfolded at(2)]) (rule that)
  let ?p1 = "upd_regs (\<lambda>c. c\<lparr>regs := (regs c)[r := f r]\<rparr>) (with_mem p m)"
  have wr: "set_reg (of_nat (ctz msk)) (f r) (with_mem p m) = Inr ?p1"
    using r16 by (simp add: set_reg_def r unat_of_nat)
  have p1: "vm_ok (vm_mem ?p1)" "length (regs (registers ?p1)) = 16"
    using m(2) Cons.prems(2) by (simp_all add: upd_regs_def)
  have "cell8 (vm_mem ?p1) ((slot - 8) - 8 * of_nat k) \<and> vword (vm_mem ?p1) ((slot - 8) - 8 * of_nat k) = f (rs ! k)"
    if "k < popcount ?rest" for k
    using Cons.prems(3) [of "Suc k"] that n unfolding Cons.hyps(2) [symmetric]
    by (simp add: m upd_regs_def diff_diff_eq)
  from Cons.hyps(1) [OF r(2) p1 this [unfolded r(2)]]
  obtain q where q: "fastpop_loop ?rest (slot - 8) ?p1 = Inr q" "vm_ok (vm_mem q)" "rsp q = rsp ?p1" "rbp q = rbp ?p1"
      "pc_of q = pc_of ?p1" "length (regs (registers q)) = 16" "\<forall>x. (vword (vm_mem q) x :: u64) = vword (vm_mem ?p1) x"
      "\<forall>j < 16. regs (registers q) ! j = (if bit ?rest j then f j else regs (registers ?p1) ! j)"
    by blast
  have "fastpop_loop msk slot p = Inr q" using nz m(1) wr q(1) by (subst fastpop_loop.simps) simp
  moreover have "regs (registers q) ! j = (if bit msk j then f j else regs (registers p) ! j)" if "j < 16" for j
    using q(8) that bits [OF that] Cons.prems(2) by (auto simp: upd_regs_def nth_list_update)
  ultimately show ?case using q m(3) by (intro exI [of _ q]) (simp add: upd_regs_def)
qed

text \<open>C16. The masked push and pop of registers are inverse: \<^verbatim>\<open>fastpush\<close> stores the registers of its mask in
the cells below the stack pointer, and a \<^verbatim>\<open>fastpop\<close> with the same mask, on any later state with the
same stack pointer and the same contents of those cells, restores exactly those registers and the
stack pointer and leaves the other registers alone.\<close>

theorem masked_push_pop:
  assumes "vm_ok (vm_mem p)" "\<forall>k < popcount (md_mask d). cell8 (vm_mem p) (rsp p - 8 * of_nat (Suc k))"
  shows "\<exists>q. exec_instr_fastpush p d = Inr q \<and> rsp q = rsp p - 8 * of_nat (popcount (md_mask d)) \<and>
     regs (registers q) = regs (registers p) \<and> vm_ok (vm_mem q) \<and>
     (\<forall>x. cell8 (vm_mem q) x = cell8 (vm_mem p) x) \<and>
     (\<forall>b. vm_ok (vm_mem b) \<and> rsp b = rsp q \<and> length (regs (registers b)) = 16 \<and>
        (\<forall>k < popcount (md_mask d). cell8 (vm_mem b) (rsp p - 8 * of_nat (Suc k)) \<and>
           (vword (vm_mem b) (rsp p - 8 * of_nat (Suc k)) :: u64) = vword (vm_mem q) (rsp p - 8 * of_nat (Suc k))) \<longrightarrow>
        (\<exists>s. exec_instr_fastpop b d = Inr s \<and> rsp s = rsp p \<and> rbp s = rbp b \<and> pc_of s = pc_of b \<and>
           (\<forall>r < 16. regs (registers s) ! r =
              (if bit (md_mask d) r then regs (registers p) ! r else regs (registers b) ! r))))"
proof (cases "md_mask d = 0")
  case True
  then show ?thesis using assms(1) by (auto simp: exec_instr_fastpush_def exec_instr_fastpop_def popcount_def)
next
  case False
  let ?n = "popcount (md_mask d)" and ?m = "md_mask d"
  have n: "0 < ?n" using mask_regs_step [OF False] mask_regs_basic(1) [of ?m] by auto
  have top: "rsp p - of_nat ?n * 8 + (of_nat ?n - 1) * 8 = rsp p - (8 :: u64)" by (simp add: algebra_simps)
  have slots: "rsp p - 8 - 8 * of_nat k = rsp p - 8 * of_nat (Suc k)" for k by (simp add: algebra_simps)
  let ?p1 = "set_rsp (rsp p - of_nat ?n * 8) p"
  have p1: "vm_ok (vm_mem ?p1)" "\<And>k. k < ?n \<Longrightarrow> cell8 (vm_mem ?p1) (rsp p - 8 - 8 * of_nat k)"
    using assms unfolding slots by simp_all
  from fastpush_loop_ok [of ?p1 ?m, OF p1]
  obtain q where q: "fastpush_loop ?m (rsp p - 8) ?p1 = Inr q" "q = with_mem ?p1 (vm_mem q)" "vm_ok (vm_mem q)"
      "\<forall>k < ?n. vword (vm_mem q) (rsp p - 8 * of_nat (Suc k)) = regs (registers p) ! (mask_regs ?m ! k)"
      "\<forall>x. cell8 (vm_mem q) x = cell8 (vm_mem p) x"
    unfolding slots by auto
  have regq: "registers q = registers ?p1" using q(2) by (metis with_mem_proj(1))
  have push: "exec_instr_fastpush p d = Inr q"
    using q(1) False top by (simp add: exec_instr_fastpush_def Let_def)
  have "\<exists>s. exec_instr_fastpop b d = Inr s \<and> rsp s = rsp p \<and> rbp s = rbp b \<and> pc_of s = pc_of b \<and>
      (\<forall>r < 16. regs (registers s) ! r = (if bit ?m r then regs (registers p) ! r else regs (registers b) ! r))"
    if b: "vm_ok (vm_mem b)" "rsp b = rsp q" "length (regs (registers b)) = 16"
      "\<forall>k < ?n. cell8 (vm_mem b) (rsp p - 8 * of_nat (Suc k)) \<and>
         (vword (vm_mem b) (rsp p - 8 * of_nat (Suc k)) :: u64) = vword (vm_mem q) (rsp p - 8 * of_nat (Suc k))" for b
  proof -
    have rb: "rsp b = rsp p - of_nat ?n * 8" using b(2) regq by (simp add: set_rsp_def)
    have "\<And>k. k < ?n \<Longrightarrow> cell8 (vm_mem b) (rsp p - 8 - 8 * of_nat k) \<and>
        vword (vm_mem b) (rsp p - 8 - 8 * of_nat k) = regs (registers p) ! (mask_regs ?m ! k)"
      using b(4) q(4) unfolding slots by simp
    from fastpop_loop_ok [OF b(1,3), of ?m "rsp p - 8" "\<lambda>r. regs (registers p) ! r", OF this]
    obtain s where s: "fastpop_loop ?m (rsp p - 8) b = Inr s" "rbp s = rbp b" "pc_of s = pc_of b"
        "\<forall>r < 16. regs (registers s) ! r = (if bit ?m r then regs (registers p) ! r else regs (registers b) ! r)"
      by blast
    have "exec_instr_fastpop b d = Inr (set_rsp (rsp p) s)"
      using s(1) False top unfolding rb by (simp add: exec_instr_fastpop_def Let_def rb)
    then show ?thesis using s(2-4) by (simp add: set_rsp_def)
  qed
  then show ?thesis using push regq q(3,5) by (intro exI [of _ q]) (simp add: set_rsp_def algebra_simps)
qed

definition demo_fastmask :: DecodedInstr where
  "demo_fastmask = new_DecodedInstr\<lparr>opcode_index := 0x6E, size_instr := 4,
     data_instruction := [0x0A, 0, 0, 0, 0, 0, 0, 0, 0, 0, 0, 0, 0, 0, 0, 0]\<rparr>"

theorem masked_push_pop_witness:
  "\<exists>q s. exec_instr_fastpush (demo_process demo2 demo_fastmask) demo_fastmask = Inr q \<and> rsp q = 0x1FF0 \<and>
     exec_instr_fastpop (upd_regs (\<lambda>c. c\<lparr>regs := replicate 16 99\<rparr>) q) demo_fastmask = Inr s \<and> rsp s = 0x2000 \<and>
     regs (registers s) ! 1 = 1 \<and> regs (registers s) ! 2 = 99 \<and> regs (registers s) ! 3 = 3"
proof -
  let ?p = "demo_process demo2 demo_fastmask" and ?clobber = "upd_regs (\<lambda>c. c\<lparr>regs := replicate 16 99\<rparr>)"
  have p: "vm_mem ?p = demo2" "rsp ?p = 0x2000" "regs (registers ?p) ! 1 = 1" "regs (registers ?p) ! 3 = 3"
    by (simp_all add: demo_process_def demo_registers_def)
  have m: "md_mask demo_fastmask = 0xA" by code_simp
  have n: "popcount 0xA = 2" by code_simp
  have bits: "bit (0xA :: u16) 1" "\<not> bit (0xA :: u16) 2" "bit (0xA :: u16) 3" by code_simp+
  have c: "cell8 demo2 (0x2000 - 8 * of_nat (Suc k))" if "k < 2" for k
  proof -
    have "k = 0 \<or> k = 1" using that by auto
    then show ?thesis by (auto intro!: demo2_cell)
  qed
  obtain q where q: "exec_instr_fastpush ?p demo_fastmask = Inr q" "rsp q = 0x2000 - 8 * of_nat 2" "vm_ok (vm_mem q)"
      "\<forall>x. cell8 (vm_mem q) x = cell8 demo2 x"
    and restore: "\<And>b. vm_ok (vm_mem b) \<Longrightarrow> rsp b = rsp q \<Longrightarrow> length (regs (registers b)) = 16 \<Longrightarrow>
      \<forall>k < 2. cell8 (vm_mem b) (0x2000 - 8 * of_nat (Suc k)) \<and>
        (vword (vm_mem b) (0x2000 - 8 * of_nat (Suc k)) :: u64) = vword (vm_mem q) (0x2000 - 8 * of_nat (Suc k)) \<Longrightarrow>
      \<exists>s. exec_instr_fastpop b demo_fastmask = Inr s \<and> rsp s = 0x2000 \<and>
        (\<forall>r < 16. regs (registers s) ! r = (if bit (0xA :: u16) r then regs (registers ?p) ! r else regs (registers b) ! r))"
    using masked_push_pop [of ?p demo_fastmask] demo2_ok(1) c unfolding m n p by blast
  have "\<exists>s. exec_instr_fastpop (?clobber q) demo_fastmask = Inr s \<and> rsp s = 0x2000 \<and>
      (\<forall>r < 16. regs (registers s) ! r =
         (if bit (0xA :: u16) r then regs (registers ?p) ! r else regs (registers (?clobber q)) ! r))"
    using q(3,4) c by (intro restore) (simp_all add: upd_regs_def)
  then show ?thesis using q(1,2) p(3,4) bits by (force simp: upd_regs_def)
qed

end
