(* ===== verification/Vm_Fused.thy ===== *)
theory Vm_Fused
  imports Vm_Fast
begin

text \<open>
  The fused instructions against the sequences they replace: compare-and-jump, decrement-and-jump
  and the three-operand arithmetic of \<^verbatim>\<open>src/runtime/exec_instruction_alu.cpp\<close>.
\<close>

section \<open>Registers\<close>

lemma nibble_bound: "unat ((b :: u8) AND 0xF) < 16"
proof -
  have "b AND 0xF \<le> 0xF" by (rule word_and_le1)
  then have "unat (b AND 0xF) \<le> unat (0xF :: u8)" by (simp only: word_le_nat_alt)
  then show ?thesis by simp
qed

lemma nibbles_small [simp]: "unat (lo_nibble b) < 16" "unat (hi_nibble b) < 16"
  by (simp_all only: lo_nibble_def hi_nibble_def nibble_bound)

lemma reg_nibble [simp]:
  "unat r < 16 \<Longrightarrow> reg p r = Inr (regs (registers p) ! unat r)"
  "unat r < 16 \<Longrightarrow> set_reg r v p = Inr (upd_regs (\<lambda>c. c\<lparr>regs := (regs c)[unat r := v]\<rparr>) p)"
  by (simp_all add: reg_def set_reg_def)

lemma set_flags_regs:
  "upd_regs (\<lambda>c. c\<lparr>regs := (regs c)[i := v]\<rparr>) (set_flags f p) = set_flags f (upd_regs (\<lambda>c. c\<lparr>regs := (regs c)[i := v]\<rparr>) p)"
  by (simp add: set_flags_def upd_regs_def)

lemma mov_reg_64:
  assumes "i_mode m = 3" "\<not> signed_instruct m" "unat (reg1 m) < 16" "unat (reg2 m) < 16"
  shows "exec_instr_mov_reg p m =
    Inr (upd_regs (\<lambda>c. c\<lparr>regs := (regs c)[unat (reg1 m) := regs c ! unat (reg2 m)]\<rparr>) p)"
  using assms
  by (simp add: exec_instr_mov_reg_def mov_table_def at_mode_def mov_wrapper_def upd_reg_def upd_regs_def)

text \<open>The two-operand instruction with the operation of a three-operand opcode, and its sign.\<close>

definition two_op :: "u8 \<Rightarrow> (alu_op \<times> bool) option" where
  "two_op opc =
     (if opc = 0x73 then Some (AddOp, True) else if opc = 0x76 then Some (AddOp, False)
      else if opc = 0x74 then Some (SubOp, True) else if opc = 0x77 then Some (SubOp, False)
      else if opc = 0x79 then Some (AndOp, False) else if opc = 0x7A then Some (OrOp, False)
      else if opc = 0x7B then Some (XorOp, False) else None)"

lemma alu3_is_alu:
  assumes "two_op opc = Some (op, sg)"
  shows "\<exists>res g. alu3_result opc a b f = Inr (Some (res, g)) \<and> alu_compute op f a b sg = Alu_ok res g \<and>
    \<not> is_compare op"
  using assms
  by (auto simp: two_op_def alu3_result_def Let_def alu64_add alu64_sub alu64_logic alu3_flags_def arith_flags_def
      split: if_splits)

text \<open>The multiplications: the two-operand form flags an overflow, the three-operand one never does.\<close>

definition clear_CF_OF :: "RFlags \<Rightarrow> RFlags" where
  "clear_CF_OF f = set_OF False (set_CF False f)"

lemma alu64_mul:
  "alu_compute MulOp f (a :: u64) b sg =
     Alu_ok (a * b) (MulOp_flags (set_SF (neg64 (a * b)) (set_ZF (a * b = 0) f)) a b (a * b) sg)"
  using sign_bit_iff [of "a * b"]
  by (simp add: alu_compute_def store_flags_def MulOp_compute_def neg64_def)

lemma alu3_is_mul:
  assumes "opc = 0x78 \<or> opc = 0x75 \<and> in_signed_range TYPE(64) (sint a * sint b)"
    "alu_compute MulOp f a b sg = Alu_ok res g"
  shows "alu3_result opc a b f = Inr (Some (res, clear_CF_OF g))"
proof -
  have r: "res = a * b" "g = MulOp_flags (set_SF (neg64 res) (set_ZF (res = 0) f)) a b res sg"
    using assms(2) unfolding alu64_mul by auto
  have "clear_CF_OF g = alu3_flags res False False f"
    unfolding r(2) clear_CF_OF_def MulOp_flags_def alu3_flags_def by (simp add: set_flag_commute [of 2 3])
  moreover have "word_of_int (sint a * sint b) = a * b" by (simp add: wi_hom_mult [symmetric])
  ultimately show ?thesis using assms(1) r(1)
    by (auto simp: alu3_result_def in_signed_range_def Let_def)
qed

text \<open>Both halves of a three-operand instruction, run one after the other.\<close>

lemma move_then_two_op:
  assumes "length (regs (registers p)) = 16" "lo_nibble (reg1 d) \<noteq> hi_nibble (reg2 d)"
    and "reg1 m = lo_nibble (reg1 d)" "reg2 m = hi_nibble (reg1 d)" "i_mode m = 3" "\<not> signed_instruct m"
    and "reg1 i = lo_nibble (reg1 d)" "reg2 i = hi_nibble (reg2 d)" "i_mode i = 3"
    and "alu_compute op (flags (registers p)) (regs (registers p) ! unat (hi_nibble (reg1 d)))
      (regs (registers p) ! unat (hi_nibble (reg2 d))) (signed_instruct i) = Alu_ok res g" "\<not> is_compare op"
  shows "rbind (exec_instr_mov_reg p m) (\<lambda>p1. exec_reg op rt p1 i) =
    Inr (set_flags g (upd_regs (\<lambda>c. c\<lparr>regs := (regs c)[unat (lo_nibble (reg1 d)) := res]\<rparr>) p))"
proof -
  let ?dst = "unat (lo_nibble (reg1 d))" and ?a = "regs (registers p) ! unat (hi_nibble (reg1 d))"
  let ?b = "regs (registers p) ! unat (hi_nibble (reg2 d))"
  let ?p1 = "upd_regs (\<lambda>c. c\<lparr>regs := (regs c)[?dst := ?a]\<rparr>) p"
  have ne: "?dst \<noteq> unat (hi_nibble (reg2 d))" using assms(2) by (simp add: word_unat_eq_iff)
  have mov: "exec_instr_mov_reg p m = Inr ?p1"
    using mov_reg_64 [of m p] assms(3-6) by (simp add: upd_regs_def)
  have "alu_core rt op ?p1 ?a ?b (signed_instruct i) (lo_nibble (reg1 d)) =
      rbind (set_reg (lo_nibble (reg1 d)) res ?p1) (\<lambda>p1. Inr (set_flags g p1))"
    by (rule alu_core_ok(1)) (use assms(10,11) in \<open>simp_all add: upd_regs_def\<close>)
  moreover have "exec_reg op rt ?p1 i = alu_core rt op ?p1 ?a ?b (signed_instruct i) (lo_nibble (reg1 d))"
    using assms(1,7-9) ne by (simp add: exec_reg_64)
  ultimately show ?thesis unfolding mov by (simp add: upd_regs_def set_flags_def)
qed

lemma alu3_run:
  assumes "alu3_result (opcode_index d) (regs (registers p) ! unat (hi_nibble (reg1 d)))
      (regs (registers p) ! unat (hi_nibble (reg2 d))) (flags (registers p)) = r"
  shows "exec_instr_alu3 p d =
    (case r of Inl e \<Rightarrow> Inl e | Inr None \<Rightarrow> Inr p
     | Inr (Some (res, g)) \<Rightarrow>
         Inr (set_flags g (upd_regs (\<lambda>c. c\<lparr>regs := (regs c)[unat (lo_nibble (reg1 d)) := res]\<rparr>) p)))"
  unfolding assms [symmetric]
  by (auto simp: exec_instr_alu3_def Let_def split: sum.splits option.splits)

section \<open>Properties\<close>

text \<open>C14. A fused compare-and-jump is the 64-bit register comparison followed by the jump on the same
condition, and the decrement-and-jump of a loop counter is the signed subtraction of one followed
by the jump on inequality: registers, flags, program counter and failures agree.\<close>

theorem fused_branches_agree:
  assumes "reg1 c = sd_r0 d" "reg2 c = sd_r1 d" "i_mode c = 3"
    and "imm_reg j = ucast (sd_pad d)" "inmmed j = ucast (sd_offset d)"
    and "imm_reg s = sd_r0 d" "inmmed s = 1" "i_mode s = 3" "\<not> direction s" "signed_instruct s"
    and "imm_reg jne = 1" "inmmed jne = ucast (sd_offset d)"
  shows "(signed_instruct c \<longrightarrow>
      exec_instr_cmpjmp rt p d = rbind (exec_instr_cmp_reg rt p c) (\<lambda>p1. exec_instr_jmp p1 j)) \<and>
    (\<not> signed_instruct c \<longrightarrow>
      exec_instr_cmpjmpu rt p d = rbind (exec_instr_cmp_reg rt p c) (\<lambda>p1. exec_instr_jmp p1 j)) \<and>
    exec_instr_decjnz rt p d = rbind (exec_instr_sub_imm rt p s) (\<lambda>p1. exec_instr_jmp p1 jne)"
proof -
  have cmp: "cmpjmp sg rt p d = rbind (exec_instr_cmp_reg rt p c) (\<lambda>p1. exec_instr_jmp p1 j)"
    if "signed_instruct c = sg" for sg
    using assms(1-5) that
    by (simp add: cmpjmp_def exec_instr_cmp_reg_def exec_reg_64 rbind_assoc cmp_flags_64 exec_instr_jmp_def
        alu_core_ok(2) [OF alu64_sub] cong: if_cong)
  have sub: "exec_instr_sub_imm rt p s = rbind (reg p (sd_r0 d)) (\<lambda>a. alu_core rt SubOp p a 1 True (sd_r0 d))"
    using assms(6-10)
    by (simp add: exec_instr_sub_imm_def exec_imm_def imm_table_def at_mode_def binary_imm_wrapper_def Let_def)
  have "exec_instr_decjnz rt p d = rbind (exec_instr_sub_imm rt p s) (\<lambda>p1. exec_instr_jmp p1 jne)"
    using assms(11,12) unfolding sub
    by (simp add: exec_instr_decjnz_def rbind_assoc exec_instr_jmp_def compute_with_flags_def
        alu64_sub alu_core_ok(1) [OF alu64_sub] reg_def set_reg_def eval_jmp_cond_def COND_NE_def arith_flags_def
        set_flags_regs cong: if_cong)
  then show ?thesis
    using cmp [of True] cmp [of False] by (simp add: exec_instr_cmpjmp_def exec_instr_cmpjmpu_def)
qed

text \<open>\<^verbatim>\<open>cmpjmp r5, r2, jhi 0x40\<close>, its comparison, its jump, and the two halves of \<^verbatim>\<open>decjnz r5, 0x40\<close>.\<close>

definition demo_cmp :: DecodedInstr where
  "demo_cmp = new_DecodedInstr\<lparr>i_mode := 3, signed_instruct := True,
     data_instruction := [5, 2, 0, 0, 0, 0, 0, 0, 0, 0, 0, 0, 0, 0, 0, 0]\<rparr>"

definition demo_jump :: "u8 \<Rightarrow> DecodedInstr" where
  "demo_jump cond = new_DecodedInstr\<lparr>data_instruction := [0x40, 0, 0, 0, 0, 0, 0, 0, cond, 0, 0, 0, 0, 0, 0, 0]\<rparr>"

definition demo_dec :: DecodedInstr where
  "demo_dec = new_DecodedInstr\<lparr>i_mode := 3, signed_instruct := True,
     data_instruction := [1, 0, 0, 0, 0, 0, 0, 0, 5, 0, 0, 0, 0, 0, 0, 0]\<rparr>"

theorem fused_branches_agree_witness:
  "exec_instr_cmpjmp demo_rt (demo_process demo2 demo_cmpjmpu) demo_cmpjmpu =
     rbind (exec_instr_cmp_reg demo_rt (demo_process demo2 demo_cmpjmpu) demo_cmp) (\<lambda>p1. exec_instr_jmp p1 (demo_jump 8)) \<and>
   exec_instr_decjnz demo_rt (demo_process demo2 demo_cmpjmpu) demo_cmpjmpu =
     rbind (exec_instr_sub_imm demo_rt (demo_process demo2 demo_cmpjmpu) demo_dec) (\<lambda>p1. exec_instr_jmp p1 (demo_jump 1))"
proof -
  have c: "reg1 demo_cmp = sd_r0 demo_cmpjmpu" "reg2 demo_cmp = sd_r1 demo_cmpjmpu" "i_mode demo_cmp = 3"
      "signed_instruct demo_cmp" by code_simp+
  have j: "imm_reg (demo_jump 8) = ucast (sd_pad demo_cmpjmpu)" "inmmed (demo_jump 8) = ucast (sd_offset demo_cmpjmpu)"
    by code_simp+
  have s: "imm_reg demo_dec = sd_r0 demo_cmpjmpu" "inmmed demo_dec = 1" "i_mode demo_dec = 3" "\<not> direction demo_dec"
      "signed_instruct demo_dec" by code_simp+
  have ne: "imm_reg (demo_jump 1) = 1" "inmmed (demo_jump 1) = ucast (sd_offset demo_cmpjmpu)" by code_simp+
  show ?thesis
    using fused_branches_agree [OF c(1-3) j s ne, of demo_rt "demo_process demo2 demo_cmpjmpu"] c(4) by simp
qed

text \<open>C15. Each of the nine three-operand instructions against the move of its first source into the
destination followed by the two-operand instruction, provided the destination is not also the second
source, which the move would overwrite.  Additions, subtractions and logical operations (signed and
unsigned) are that sequence.  A multiplication is that sequence with carry and overflow cleared
afterwards, where the comment of the handler promises the flags of the two-operand form; and a
signed multiplication whose product does not fit 64 bits is undefined, where the two-operand form
sets overflow.\<close>

theorem three_operands_agree:
  assumes "length (regs (registers p)) = 16" "lo_nibble (reg1 d) \<noteq> hi_nibble (reg2 d)"
    and "reg1 m = lo_nibble (reg1 d)" "reg2 m = hi_nibble (reg1 d)" "i_mode m = 3" "\<not> signed_instruct m"
    and "reg1 i = lo_nibble (reg1 d)" "reg2 i = hi_nibble (reg2 d)" "i_mode i = 3"
    and "a = regs (registers p) ! unat (hi_nibble (reg1 d))" "b = regs (registers p) ! unat (hi_nibble (reg2 d))"
  shows "(two_op (opcode_index d) = Some (op, signed_instruct i) \<longrightarrow>
      exec_instr_alu3 p d = rbind (exec_instr_mov_reg p m) (\<lambda>p1. exec_reg op rt p1 i)) \<and>
    (opcode_index d = 0x78 \<and> \<not> signed_instruct i \<or>
     opcode_index d = 0x75 \<and> signed_instruct i \<and> in_signed_range TYPE(64) (sint a * sint b) \<longrightarrow>
      exec_instr_alu3 p d =
        rbind (rbind (exec_instr_mov_reg p m) (\<lambda>p1. exec_reg MulOp rt p1 i))
          (\<lambda>p2. Inr (set_flags (clear_CF_OF (flags (registers p2))) p2))) \<and>
    (opcode_index d = 0x75 \<and> \<not> in_signed_range TYPE(64) (sint a * sint b) \<longrightarrow>
      exec_instr_alu3 p d = Inl Undefined \<and>
      (signed_instruct i \<longrightarrow>
        (\<exists>p2. rbind (exec_instr_mov_reg p m) (\<lambda>p1. exec_reg MulOp rt p1 i) = Inr p2 \<and>
          OF (flags (registers p2)))))"
proof (intro conjI impI)
  let ?a = "regs (registers p) ! unat (hi_nibble (reg1 d))"
  let ?b = "regs (registers p) ! unat (hi_nibble (reg2 d))"
  note two = move_then_two_op [OF assms(1-9)]
  show "exec_instr_alu3 p d = rbind (exec_instr_mov_reg p m) (\<lambda>p1. exec_reg op rt p1 i)"
    if o: "two_op (opcode_index d) = Some (op, signed_instruct i)"
  proof -
    obtain res g where r: "alu3_result (opcode_index d) ?a ?b (flags (registers p)) = Inr (Some (res, g))"
        "alu_compute op (flags (registers p)) ?a ?b (signed_instruct i) = Alu_ok res g" "\<not> is_compare op"
      using alu3_is_alu [OF o] by blast
    show ?thesis using alu3_run [OF r(1)] two [OF r(2,3), of rt] by simp
  qed
  obtain g where g: "alu_compute MulOp (flags (registers p)) ?a ?b (signed_instruct i) = Alu_ok (?a * ?b) g"
    unfolding alu64_mul by simp
  note mul = two [OF g, of rt, simplified]
  show "exec_instr_alu3 p d = rbind (rbind (exec_instr_mov_reg p m) (\<lambda>p1. exec_reg MulOp rt p1 i))
      (\<lambda>p2. Inr (set_flags (clear_CF_OF (flags (registers p2))) p2))"
    if "opcode_index d = 0x78 \<and> \<not> signed_instruct i \<or>
      opcode_index d = 0x75 \<and> signed_instruct i \<and> in_signed_range TYPE(64) (sint a * sint b)"
  proof -
    have "alu3_result (opcode_index d) ?a ?b (flags (registers p)) = Inr (Some (?a * ?b, clear_CF_OF g))"
      by (rule alu3_is_mul [OF _ g]) (use that assms(10,11) in auto)
    then show ?thesis unfolding mul by (simp add: alu3_run set_flags_def upd_regs_def)
  qed
  assume big: "opcode_index d = 0x75 \<and> \<not> in_signed_range TYPE(64) (sint a * sint b)"
  then have "alu3_result (opcode_index d) ?a ?b (flags (registers p)) = Inl Undefined"
    using assms(10,11) by (auto simp: alu3_result_def in_signed_range_def)
  then show "exec_instr_alu3 p d = Inl Undefined" by (simp add: alu3_run)
  assume "signed_instruct i"
  then have "OF g"
    using g big assms(10,11) mul_overflow_signed_iff [of ?a ?b] unfolding alu64_mul
    by (auto simp: MulOp_flags_def)
  then show "\<exists>p2. rbind (exec_instr_mov_reg p m) (\<lambda>p1. exec_reg MulOp rt p1 i) = Inr p2 \<and>
      OF (flags (registers p2))"
    unfolding mul by (simp add: set_flags_def upd_regs_def)
qed

text \<open>A three-operand instruction on r1, r2 and r3, \<^verbatim>\<open>mov r1, r2\<close> and a two-operand one on r1 and r3.\<close>

definition demo_alu3 :: "u8 \<Rightarrow> DecodedInstr" where
  "demo_alu3 opc = new_DecodedInstr\<lparr>opcode_index := opc,
     data_instruction := [0x21, 0x30, 0, 0, 0, 0, 0, 0, 0, 0, 0, 0, 0, 0, 0, 0]\<rparr>"

definition demo_rr :: "bool \<Rightarrow> u8 \<Rightarrow> u8 \<Rightarrow> DecodedInstr" where
  "demo_rr sg r1 r2 = new_DecodedInstr\<lparr>i_mode := 3, signed_instruct := sg,
     data_instruction := [r1, r2, 0, 0, 0, 0, 0, 0, 0, 0, 0, 0, 0, 0, 0, 0]\<rparr>"

text \<open>The process with \<open>x\<close> in r2.\<close>

definition demo_r2 :: "u64 \<Rightarrow> ProcessVM" where
  "demo_r2 x = upd_regs (\<lambda>c. c\<lparr>regs := (regs c)[2 := x]\<rparr>) (demo_process demo2 (demo_alu3 0x75))"

lemma demo_alu3_operands:
  "reg1 (demo_alu3 opc) = 0x21" "reg2 (demo_alu3 opc) = 0x30" "opcode_index (demo_alu3 opc) = opc"
  "lo_nibble 0x21 = 1" "hi_nibble 0x21 = 2" "hi_nibble 0x30 = 3"
  "reg1 (demo_rr sg r1 r2) = r1" "reg2 (demo_rr sg r1 r2) = r2"
  "i_mode (demo_rr sg r1 r2) = 3" "signed_instruct (demo_rr sg r1 r2) = sg"
  by (simp_all add: demo_alu3_def demo_rr_def new_DecodedInstr_def reg1_def reg2_def lo_nibble_def hi_nibble_def)

theorem three_operands_agree_witness:
  "exec_instr_alu3 (demo_r2 7) (demo_alu3 0x74) =
     rbind (exec_instr_mov_reg (demo_r2 7) (demo_rr False 1 2)) (\<lambda>p1. exec_reg SubOp demo_rt p1 (demo_rr True 1 3)) \<and>
   exec_instr_alu3 (demo_r2 (2 ^ 63)) (demo_alu3 0x78) =
     rbind (rbind (exec_instr_mov_reg (demo_r2 (2 ^ 63)) (demo_rr False 1 2))
         (\<lambda>p1. exec_reg MulOp demo_rt p1 (demo_rr False 1 3)))
       (\<lambda>p2. Inr (set_flags (clear_CF_OF (flags (registers p2))) p2)) \<and>
   exec_instr_alu3 (demo_r2 (2 ^ 62)) (demo_alu3 0x75) = Inl Undefined"
proof -
  have r: "length (regs (registers (demo_r2 x))) = 16" "regs (registers (demo_r2 x)) ! 2 = x"
      "regs (registers (demo_r2 x)) ! 3 = 3" for x
    by (simp_all add: demo_r2_def demo_process_def demo_registers_def upd_regs_def)
  have sub: "two_op 0x74 = Some (SubOp, True)" by (simp add: two_op_def)
  have big: "\<not> in_signed_range TYPE(64) (sint (2 ^ 62 :: u64) * sint (3 :: u64))"
    by (simp add: in_signed_range_iff)
  show ?thesis
    using three_operands_agree [of "demo_r2 7" "demo_alu3 0x74" "demo_rr False 1 2" "demo_rr True 1 3" 7 3 SubOp demo_rt]
      three_operands_agree [of "demo_r2 (2 ^ 63)" "demo_alu3 0x78" "demo_rr False 1 2" "demo_rr False 1 3"
        "2 ^ 63" 3 MulOp demo_rt]
      three_operands_agree [of "demo_r2 (2 ^ 62)" "demo_alu3 0x75" "demo_rr False 1 2" "demo_rr True 1 3"
        "2 ^ 62" 3 MulOp demo_rt] sub big
    by (simp add: r demo_alu3_operands)
qed

end
