(* ===== verification/Vm_Throw.thy ===== *)
theory Vm_Throw
  imports Vm_Fused
begin

text \<open>
  Exceptions and the pool of call frames: a throw caught by a \<^verbatim>\<open>tryenter\<close> frame restores the state
  of the \<^verbatim>\<open>tryenter\<close> and recycles the abandoned call frames; a throw caught by the exception table
  of an outer method releases the abandoned frame twice; a division by zero overwrites the
  destination register after the handler's registers were restored.
\<close>

section \<open>Chains of frames\<close>

text \<open>The frames linked from one address to another.\<close>

fun chain :: "(u64 \<Rightarrow> FrameHeader) \<Rightarrow> u64 \<Rightarrow> u64 list \<Rightarrow> u64 \<Rightarrow> bool" where
  "chain fr a [] b \<longleftrightarrow> a = b"
| "chain fr a (x # xs) b \<longleftrightarrow> a = x \<and> x \<noteq> 0 \<and> chain fr (fh_prev (fr x)) xs b"

lemma chain_cong: "(\<And>x. x \<in> set xs \<Longrightarrow> fh_prev (fr' x) = fh_prev (fr x)) \<Longrightarrow> chain fr' a xs b = chain fr a xs b"
  by (induction xs arbitrary: a) auto

lemma chain_upd [simp]: "y \<notin> set xs \<Longrightarrow> chain (fr(y := h)) a xs b = chain fr a xs b"
  by (rule chain_cong) auto

lemma chain_upd_if [simp]:
  "y \<notin> set xs \<Longrightarrow> chain (\<lambda>x. if x = y then h else fr x) a xs b = chain fr a xs b"
  by (rule chain_cong) auto

lemma chain_append: "chain fr a (xs @ ys) c \<longleftrightarrow> (\<exists>b. chain fr a xs b \<and> chain fr b ys c)"
  by (induction xs arbitrary: a) auto

text \<open>
  The call stack and the free list of a process: two chains to the null frame without a common
  frame.
\<close>

definition pool_ok :: "ProcessVM \<Rightarrow> u64 list \<Rightarrow> u64 list \<Rightarrow> bool" where
  "pool_ok p stack free \<longleftrightarrow> chain (frames p) (frame_stack p) stack 0 \<and>
     chain (frames p) (free_list_head p) free 0 \<and> distinct (stack @ free)"

lemma release_proj [simp]:
  "registers (release f p) = registers p" "frame_stack (release f p) = frame_stack p"
  "free_list_head (release f p) = f" "exc_frame_stack (release f p) = exc_frame_stack p"
  "decoded_ptr (release f p) = decoded_ptr p" "icache (release f p) = icache p" "state (release f p) = state p"
  "current_exception (release f p) = current_exception p" "vm_mem (release f p) = vm_mem p" "fatal_kind (release f p) = fatal_kind p"
  "frames (release f p) = (frames p)(f := (frames p f)\<lparr>fh_prev := free_list_head p\<rparr>)"
  by (simp_all add: release_def)

lemma release_stack [simp]: "release f (p\<lparr>frame_stack := a\<rparr>) = (release f p)\<lparr>frame_stack := a\<rparr>"
  by (simp add: release_def)

text \<open>Unwinding releases the frames above its target, the innermost first.\<close>

lemma unwind_to_chain:
  assumes "chain (frames p) (frame_stack p) xs t" "distinct xs" "t \<notin> set xs"
  shows "unwind_to t p = Some ((fold release xs p)\<lparr>frame_stack := t\<rparr>)"
  using assms
proof (induction xs arbitrary: p)
  case Nil
  then show ?case by (subst unwind_to.simps) simp
next
  case (Cons x xs)
  let ?p1 = "release x (p\<lparr>frame_stack := fh_prev (frames p x)\<rparr>)"
  have "unwind_to t p = unwind_to t ?p1" using Cons.prems by (subst unwind_to.simps) auto
  also have "\<dots> = Some ((fold release xs ?p1)\<lparr>frame_stack := t\<rparr>)"
    using Cons.prems by (intro Cons.IH) auto
  also have "(fold release xs ?p1)\<lparr>frame_stack := t\<rparr> = (fold release (x # xs) p)\<lparr>frame_stack := t\<rparr>"
  proof -
    have "fold release ys (r\<lparr>frame_stack := a\<rparr>) = (fold release ys r)\<lparr>frame_stack := a\<rparr>" for ys r a
      by (induction ys arbitrary: r) simp_all
    then show ?thesis by simp
  qed
  finally show ?case .
qed

lemma fold_release_proj [simp]:
  "registers (fold release xs p) = registers p" "frame_stack (fold release xs p) = frame_stack p"
  "exc_frame_stack (fold release xs p) = exc_frame_stack p" "decoded_ptr (fold release xs p) = decoded_ptr p"
  "icache (fold release xs p) = icache p" "state (fold release xs p) = state p"
  "current_exception (fold release xs p) = current_exception p" "vm_mem (fold release xs p) = vm_mem p"
  "fatal_kind (fold release xs p) = fatal_kind p"
  by (induction xs arbitrary: p) simp_all

lemma fold_release_frames: "y \<notin> set xs \<Longrightarrow> frames (fold release xs p) y = frames p y"
  by (induction xs arbitrary: p) auto

lemma fold_release_free:
  assumes "chain (frames p) (free_list_head p) free b" "distinct xs" "set xs \<inter> set free = {}" "0 \<notin> set xs"
  shows "chain (frames (fold release xs p)) (free_list_head (fold release xs p)) (rev xs @ free) b"
  using assms
proof (induction xs arbitrary: p free)
  case (Cons x xs)
  have "chain (frames (release x p)) (free_list_head (release x p)) (x # free) b" using Cons.prems by auto
  then show ?case using Cons.IH [of "release x p" "x # free"] Cons.prems by auto
qed simp

section \<open>Catching\<close>

text \<open>A handler frame that catches a class, and one that passes it on.\<close>

definition catches :: "Runtime \<Rightarrow> u64 \<Rightarrow> ExceptionFrame \<Rightarrow> bool" where
  "catches rt cls ef \<longleftrightarrow> ef_type ef = 0 \<or> is_instance_of rt cls (ef_type ef) = Some True"

definition passes :: "Runtime \<Rightarrow> u64 \<Rightarrow> ExceptionFrame \<Rightarrow> bool" where
  "passes rt cls ef \<longleftrightarrow> ef_type ef \<noteq> 0 \<and> is_instance_of rt cls (ef_type ef) = Some False"

lemma find_try_frame_skip:
  assumes "\<forall>ef \<in> set inner. passes rt cls ef" "catches rt cls ef"
  shows "find_try_frame rt cls (inner @ ef # rest) = Some (Some (ef, rest))"
  using assms by (induction inner) (auto simp: passes_def catches_def)

lemma land_try_ok:
  assumes "chain (frames p) (frame_stack p) xs (saved_frame_stack ef)" "distinct xs" "saved_frame_stack ef \<notin> set xs"
    and "length (regs (registers p)) = 16" "length (saved_regs ef) = 16" "decoded_ptr p = Some i"
  shows "\<exists>s. land_try ef rest exc p = Inr s \<and> pc_of s = ef_handler_pc ef \<and> rsp s = saved_rsp ef \<and>
    rbp s = saved_rbp ef \<and> regs (registers s) = exc # tl (saved_regs ef) \<and> frame_stack s = saved_frame_stack ef \<and>
    exc_frame_stack s = rest \<and> state s = state p \<and> current_exception s = current_exception p \<and>
    flags (registers s) = flags (registers p) \<and> vm_mem s = vm_mem p \<and> decoded_ptr s = Some i \<and>
    fatal_kind s = fatal_kind p \<and> frames s = frames (fold release xs p) \<and> free_list_head s = free_list_head (fold release xs p)"
proof -
  let ?p1 = "set_rbp (saved_rbp ef) (set_rsp (saved_rsp ef) (p\<lparr>exc_frame_stack := rest\<rparr>))"
  have proj: "frames ?p1 = frames p" "frame_stack ?p1 = frame_stack p" "free_list_head ?p1 = free_list_head p"
      "exc_frame_stack ?p1 = rest" "state ?p1 = state p" "current_exception ?p1 = current_exception p"
      "decoded_ptr ?p1 = Some i" "vm_mem ?p1 = vm_mem p" "fatal_kind ?p1 = fatal_kind p"
    using assms(6) by (simp_all add: setter_defs upd_regs_def)
  have same: "frames (fold release xs ?p1) = frames (fold release xs p)"
      "free_list_head (fold release xs ?p1) = free_list_head (fold release xs p)"
  proof -
    have "frames q = frames r \<and> free_list_head q = free_list_head r \<Longrightarrow>
        frames (fold release xs q) = frames (fold release xs r) \<and>
        free_list_head (fold release xs q) = free_list_head (fold release xs r)" for q r
      by (induction xs arbitrary: q r) simp_all
    then show "frames (fold release xs ?p1) = frames (fold release xs p)"
        "free_list_head (fold release xs ?p1) = free_list_head (fold release xs p)"
      using proj(1,3) by blast+
  qed
  have unw: "unwind_to (saved_frame_stack ef) ?p1 =
      Some ((fold release xs ?p1)\<lparr>frame_stack := saved_frame_stack ef\<rparr>)"
    by (rule unwind_to_chain) (use assms(1-3) proj(1,2) in simp_all)
  obtain r rs where regs: "saved_regs ef = r # rs" using assms(5) by (cases "saved_regs ef") auto
  obtain q qs where regp: "regs (registers p) = q # qs" using assms(4) by (cases "regs (registers p)") auto
  let ?q = "upd_regs (\<lambda>c. c\<lparr>regs := take 1 (regs c) @ drop 1 (saved_regs ef)\<rparr>)
      ((fold release xs ?p1)\<lparr>frame_stack := saved_frame_stack ef\<rparr>)"
  have "land_try ef rest exc p =
      mark_jump (set_rip (ef_handler_pc ef) (upd_regs (\<lambda>c. c\<lparr>regs := (regs c)[0 := exc]\<rparr>) ?q))"
    using unw by (simp add: land_try_def of_loop_def set_reg_def)
  then show ?thesis
    using proj same regs regp assms(6)
    by (simp add: mark_jump_def upd_decoded_def setter_defs upd_regs_def)
qed

section \<open>Properties\<close>

text \<open>C13. A throw caught by a \<^verbatim>\<open>tryenter\<close> frame returns to the state of the \<^verbatim>\<open>tryenter\<close>: whatever the
protected block did to registers and stack, with any inner handlers that do not catch the class
and any calls still open, the handler starts at the address given to \<^verbatim>\<open>tryenter\<close> with the stack
and base pointers, the registers (but \<^verbatim>\<open>r0\<close>, which holds the exception), the call stack and the outer
handlers of that moment; the frames of the abandoned calls are in the pool, linked before the
frames that were free, and nothing else of the pool changes.\<close>

theorem try_throw_roundtrip:
  assumes "exec_instr_tryenter p d = Inr q" "length (regs (registers p)) = 16"
    and "exc_frame_stack b = inner @ exc_frame_stack q" "\<forall>ef \<in> set inner. passes rt cls ef"
    and "catches rt cls (hd (exc_frame_stack q))" "exc \<noteq> 0" "obj_class b exc = Some cls"
    and "pool_ok b (open @ stack) free" "frame_stack p = (if stack = [] then 0 else hd stack)"
    and "length (regs (registers b)) = 16" "decoded_ptr b = Some i"
  shows "\<exists>s. do_throw rt exc b = Inr s \<and> pc_of s = regs (registers p) ! unat (hi_nibble (reg1 d)) \<and>
     rsp s = rsp p \<and> rbp s = rbp p \<and> regs (registers s) = exc # tl (regs (registers p)) \<and>
     frame_stack s = frame_stack p \<and> exc_frame_stack s = exc_frame_stack p \<and> state s = state b \<and>
     current_exception s = exc \<and> vm_mem s = vm_mem b \<and> pool_ok s stack (rev open @ free)"
proof -
  let ?ef = "\<lparr>ef_handler_pc = regs (registers p) ! unat (hi_nibble (reg1 d)),
      ef_type = regs (registers p) ! unat (lo_nibble (reg1 d)), saved_rsp = rsp p, saved_rbp = rbp p,
      saved_frame_stack = frame_stack p, saved_regs = regs (registers p)\<rparr>"
  have q: "exc_frame_stack q = ?ef # exc_frame_stack p"
    using assms(1) by (auto simp: exec_instr_tryenter_def Let_def)
  then have found: "find_try_frame rt cls (exc_frame_stack b) = Some (Some (?ef, exc_frame_stack p))"
    using find_try_frame_skip [OF assms(4)] assms(3,5) by simp
  let ?b = "b\<lparr>current_exception := exc\<rparr>"
  obtain t where t: "chain (frames b) (frame_stack b) open t" "chain (frames b) t stack 0"
    using assms(8) by (auto simp: pool_ok_def chain_append)
  have tf: "t = frame_stack p" using t(2) assms(9) by (cases stack) auto
  have free: "chain (frames b) (free_list_head b) free 0" "distinct (open @ stack @ free)"
    using assms(8) by (simp_all add: pool_ok_def)
  have nz: "0 \<notin> set open"
  proof -
    have "chain fr a xs c \<Longrightarrow> 0 \<notin> set xs" for fr a xs c by (induction xs arbitrary: a) auto
    then show ?thesis using t(1) by blast
  qed
  have out: "frame_stack p \<notin> set open" using nz free(2) assms(9) by (cases stack) auto
  have "do_throw rt exc b = land_try ?ef (exc_frame_stack p) exc ?b"
    using found assms(6,7) by (simp add: do_throw_def Let_def of_loop_def)
  moreover have "\<exists>s. land_try ?ef (exc_frame_stack p) exc ?b = Inr s \<and> pc_of s = ef_handler_pc ?ef \<and>
      rsp s = saved_rsp ?ef \<and> rbp s = saved_rbp ?ef \<and> regs (registers s) = exc # tl (saved_regs ?ef) \<and>
      frame_stack s = saved_frame_stack ?ef \<and> exc_frame_stack s = exc_frame_stack p \<and> state s = state ?b \<and>
      current_exception s = current_exception ?b \<and> flags (registers s) = flags (registers ?b) \<and>
      vm_mem s = vm_mem ?b \<and> decoded_ptr s = Some i \<and>
      fatal_kind s = fatal_kind ?b \<and> frames s = frames (fold release open ?b) \<and> free_list_head s = free_list_head (fold release open ?b)"
    using t(1) tf out free(2) assms(2,10,11) by (intro land_try_ok) simp_all
  moreover have "chain (frames (fold release open ?b)) (frame_stack p) stack 0"
  proof -
    have "y \<notin> set open" if "y \<in> set stack" for y using that free(2) by auto
    then show ?thesis
      using t(2) tf chain_cong [of stack "frames (fold release open ?b)" "frames b"]
      by (simp add: fold_release_frames)
  qed
  moreover have "chain (frames (fold release open ?b)) (free_list_head (fold release open ?b)) (rev open @ free) 0"
    using free nz by (intro fold_release_free) auto
  ultimately show ?thesis using free(2) unfolding pool_ok_def by auto
qed

text \<open>\<^verbatim>\<open>tryenter\<close> with the handler address in r5 and the class in r0, null for a catch-all, and the state of
a protected block that has clobbered its registers and throws from inside a call.\<close>

definition demo_tryenter :: DecodedInstr where
  "demo_tryenter = new_DecodedInstr\<lparr>data_instruction := [0x50, 0, 0, 0, 0, 0, 0, 0, 0, 0, 0, 0, 0, 0, 0, 0]\<rparr>"

definition demo_block :: "ProcessVM \<Rightarrow> ProcessVM" where
  "demo_block q = upd_regs (\<lambda>c. c\<lparr>stack_pointer := 0x1800, base_pointer := 0, regs := replicate 16 7\<rparr>)
     (q\<lparr>frame_stack := 0x3000, obj_class := [0x900 \<mapsto> 0x701]\<rparr>)"

theorem try_throw_roundtrip_witness:
  "\<exists>q s. exec_instr_tryenter (demo_process demo2 demo_tryenter) demo_tryenter = Inr q \<and>
     do_throw demo_rt 0x900 (demo_block q) = Inr s \<and> pc_of s = 5 \<and> rsp s = 0x2000 \<and> rbp s = 0x2008 \<and>
     regs (registers s) ! 0 = 0x900 \<and> regs (registers s) ! 1 = 1 \<and> pool_ok s [] [0x3000]"
proof -
  let ?p = "demo_process demo2 demo_tryenter"
  have n: "hi_nibble (reg1 demo_tryenter) = 5" "lo_nibble (reg1 demo_tryenter) = 0" by code_simp+
  obtain q where q: "exec_instr_tryenter ?p demo_tryenter = Inr q" by (simp add: exec_instr_tryenter_def n)
  then have qd: "q = ?p\<lparr>exc_frame_stack := [\<lparr>ef_handler_pc = 5, ef_type = 0, saved_rsp = 0x2000, saved_rbp = 0x2008,
      saved_frame_stack = 0, saved_regs = regs (registers ?p)\<rparr>], reductions_remaining := 1\<rparr>"
    by (auto simp: exec_instr_tryenter_def n demo_process_def demo_registers_def)
  have b: "exc_frame_stack (demo_block q) = [] @ exc_frame_stack q" "\<forall>ef \<in> set []. passes demo_rt 0x701 ef"
      "catches demo_rt 0x701 (hd (exc_frame_stack q))" "(0x900 :: u64) \<noteq> 0" "obj_class (demo_block q) 0x900 = Some 0x701"
      "pool_ok (demo_block q) ([0x3000] @ []) []" "frame_stack ?p = (if [] = ([] :: u64 list) then 0 else hd [])"
      "length (regs (registers (demo_block q))) = 16" "decoded_ptr (demo_block q) = Some 0x100"
    by (simp_all add: demo_block_def upd_regs_def qd catches_def pool_ok_def demo_process_def)
  have p: "length (regs (registers ?p)) = 16" "rsp ?p = 0x2000" "rbp ?p = 0x2008" "regs (registers ?p) ! 5 = 5"
      "tl (regs (registers ?p)) ! 0 = 1"
    by (simp_all add: demo_process_def demo_registers_def)
  show ?thesis
    using q try_throw_roundtrip [OF q p(1) b] by (force simp: n p)
qed

section \<open>The pool after a caught exception\<close>

text \<open>The frames that the next calls take from the pool, as long as it is not empty.\<close>

fun acquires :: "nat \<Rightarrow> ProcessVM \<Rightarrow> u64 list" where
  "acquires 0 p = []"
| "acquires (Suc n) p = (case acquire [] p of (f, p1) \<Rightarrow> f # acquires n p1)"

lemma acquires_chain:
  "chain (frames p) (free_list_head p) xs b \<Longrightarrow>
     acquires (length xs + n) p = xs @ acquires n (p\<lparr>free_list_head := b\<rparr>)"
proof (induction xs arbitrary: p)
  case Nil
  then show ?case by (cases p) simp
next
  case (Cons x xs)
  then show ?case
    using Cons.IH [of "p\<lparr>free_list_head := fh_prev (frames p x)\<rparr>"] by (auto simp: acquire_def Let_def)
qed

lemma release_until_chain:
  "chain (frames p) c xs 0 \<Longrightarrow> distinct xs \<Longrightarrow> f \<notin> set xs \<Longrightarrow> release_until f c p = Some (fold release xs p)"
proof (induction xs arbitrary: c p)
  case Nil
  then show ?case by (subst release_until.simps) simp
next
  case (Cons x xs)
  have "release_until f c p = release_until f (fh_prev (frames p x)) (release x p)"
    using Cons.prems by (subst release_until.simps) auto
  also have "\<dots> = Some (fold release xs (release x p))" using Cons.prems by (intro Cons.IH) auto
  finally show ?case by simp
qed

text \<open>C25. An exception that the exception table of the calling method catches corrupts the pool: the frame
of the called method is released once when its own table has no handler and again when the frames
above the handler are unwound, through a link that the first release has overwritten.  The second
release also recycles the free frames in reverse order and links the frame to itself, so that
after the frames that were free the pool gives out the same frame again and again: two nested
calls share one call frame.\<close>

theorem outer_handler_releases_twice:
  assumes "frame_stack p = f1" "fh_prev (frames p f1) = f2" "f1 \<noteq> 0" "f2 \<noteq> 0"
    and "fh_method (frames p f1) = Some m1" "find_handler rt cls (pc_of p - code_vaddr m1) (handlers m1) = Some None"
    and "fh_method (frames p f2) = Some m2" "find_handler rt cls (pc_of p - code_vaddr m2) (handlers m2) = Some (Some h)"
    and "exc \<noteq> 0" "obj_class p exc = Some cls" "find_try_frame rt cls (exc_frame_stack p) = Some None"
    and "chain (frames p) (free_list_head p) free 0" "distinct (f1 # f2 # free)" "decoded_ptr p = Some i"
  shows "\<exists>s. do_throw rt exc p = Inr s \<and> pc_of s = code_vaddr m2 + h_handler_pc h \<and> frame_stack s = f2 \<and>
     acquires (length free + 2) s = rev free @ [f1, f1]"
proof -
  let ?b = "release f1 (p\<lparr>current_exception := exc\<rparr>)"
  let ?c = "release f1 ?b"
  have ne: "f1 \<noteq> f2" "f1 \<notin> set free" "f2 \<notin> set free" "distinct free" using assms(13) by auto
  have nz: "0 \<notin> set free"
  proof -
    have "chain fr a xs c \<Longrightarrow> 0 \<notin> set xs" for fr a xs c by (induction xs arbitrary: a) auto
    then show ?thesis using assms(12) by blast
  qed
  have c: "chain (frames ?b) f1 (f1 # free) 0" using assms(3,12) ne by simp
  then have rel: "release_until f2 f1 ?b = Some (fold release free ?c)"
    using release_until_chain [OF c, of f2] ne by simp
  have "throw_frames rt exc cls f1 (p\<lparr>current_exception := exc\<rparr>) = throw_frames rt exc cls f2 ?b"
    using assms(2,3,5,6) by (subst throw_frames.simps) simp
  also have "\<dots> = Some (land_method f2 m2 h exc ?b)"
    using assms(4,7,8) ne(1) by (subst throw_frames.simps) simp
  finally have "do_throw rt exc p = land_method f2 m2 h exc ?b"
    using assms(1,9-11) by (simp add: do_throw_def Let_def of_loop_def)
  also have "\<exists>s. land_method f2 m2 h exc ?b = Inr s \<and> pc_of s = code_vaddr m2 + h_handler_pc h \<and> frame_stack s = f2 \<and>
      frames s = frames (fold release free ?c) \<and> free_list_head s = free_list_head (fold release free ?c)"
    using rel assms(1,14)
    by (simp add: land_method_def of_loop_def set_reg_def mark_jump_def upd_decoded_def setter_defs upd_regs_def)
  finally obtain s where s: "do_throw rt exc p = Inr s" "pc_of s = code_vaddr m2 + h_handler_pc h" "frame_stack s = f2"
      "frames s = frames (fold release free ?c)" "free_list_head s = free_list_head (fold release free ?c)"
    by auto
  have "chain (frames (fold release free ?c)) (free_list_head (fold release free ?c)) (rev free @ []) f1"
    using ne nz by (intro fold_release_free) auto
  moreover have self: "fh_prev (frames s f1) = f1" using ne(2) by (simp add: s(4) fold_release_frames)
  ultimately have "chain (frames s) (free_list_head s) (rev free @ [f1, f1]) f1"
    using assms(3) by (simp add: s(4,5) chain_append)
  then have "acquires (length (rev free @ [f1, f1]) + 0) s = rev free @ [f1, f1]"
    by (subst acquires_chain) simp_all
  then show ?thesis using s(1-3) by simp
qed

text \<open>A method that lets an exception through, called from one with a catch-all handler.\<close>

definition demo_methods :: ProcessVM where
  "demo_methods = (demo_process demo2 demo_tryenter)\<lparr>obj_class := [0x900 \<mapsto> 0x701], frame_stack := 0x3000,
     frames := (\<lambda>a. \<lparr>fh_prev = (if a = 0x3000 then 0x3100 else 0),
       fh_method = Some \<lparr>code_vaddr = 0,
         handlers = (if a = 0x3000 then [] else [\<lparr>start_pc = 0, end_pc = 0x200, h_handler_pc = 0x180, h_type = 0\<rparr>])\<rparr>,
       return_pc = 0, frame_base = 0, has_saved_regs = False, saved_r1_r12 = [], inject_r0_to_reg = 0\<rparr>),
     free_list_head := 0x3200\<rparr>"

theorem outer_handler_releases_twice_witness:
  "\<exists>s. do_throw demo_rt 0x900 demo_methods = Inr s \<and> acquires 3 s = [0x3200, 0x3000, 0x3000]"
proof -
  let ?m1 = "\<lparr>code_vaddr = 0, handlers = []\<rparr>"
  let ?h = "\<lparr>start_pc = 0, end_pc = 0x200, h_handler_pc = 0x180, h_type = 0\<rparr>"
  have "\<exists>s. do_throw demo_rt 0x900 demo_methods = Inr s \<and> pc_of s = code_vaddr \<lparr>code_vaddr = 0, handlers = [?h]\<rparr> + h_handler_pc ?h \<and>
      frame_stack s = 0x3100 \<and> acquires (length [0x3200 :: u64] + 2) s = rev [0x3200] @ [0x3000, 0x3000]"
    by (rule outer_handler_releases_twice [where ?m1.0 = ?m1 and cls = "0x701" and i = "0x100"])
      (simp_all add: demo_methods_def demo_process_def demo_registers_def)
  then show ?thesis by (auto simp: numeral_3_eq_3)
qed

section \<open>Division by zero under a handler\<close>

text \<open>C26. A division by zero under a catch-all handler: the fatal error is delivered to the handler with the
registers of the \<^verbatim>\<open>tryenter\<close>, but the division does not stop there: its result, zero, is then
written into the destination register, so that the handler sees it there instead of the saved
value, and instead of the exception when the destination is \<^verbatim>\<open>r0\<close>.\<close>

theorem division_by_zero_clobbers_handler:
  assumes "i_mode d = 3" "unat (reg1 d) < 16" "unat (reg2 d) < 16" "regs (registers p) ! unat (reg2 d) = 0"
    and "exc_frame_stack p = ef # rest" "ef_type ef = 0" "g_fatal_error_class rt \<noteq> 0" "fatal_slot p \<noteq> 0"
    and "frame_stack p = saved_frame_stack ef" "length (regs (registers p)) = 16" "length (saved_regs ef) = 16"
    and "decoded_ptr p = Some i"
  shows "\<exists>s. exec_instr_div_reg rt p d = Inr s \<and> pc_of s = ef_handler_pc ef \<and> rsp s = saved_rsp ef \<and>
     current_exception s = fatal_slot p \<and> fatal_kind s = 2 \<and>
     regs (registers s) = (fatal_slot p # tl (saved_regs ef)) [unat (reg1 d) := 0]"
proof -
  let ?a = "regs (registers p) ! unat (reg1 d)"
  let ?p1 = "p\<lparr>obj_class := (obj_class p)(fatal_slot p \<mapsto> g_fatal_error_class rt), fatal_kind := 2, fatal_pc := pc_of p,
      current_exception := fatal_slot p\<rparr>"
  have "exec_instr_div_reg rt p d = alu_core rt DivOp p ?a 0 (signed_instruct d) (reg1 d)"
    using assms(1-4) by (simp add: exec_instr_div_reg_def exec_reg_64)
  also have "\<dots> = rbind (throw_fatal rt FATAL_DIVISION_BY_ZERO p) (\<lambda>q. upd_reg (reg1 d) (set_lo (0 :: u64)) q)"
    by (simp add: alu_core_def compute_with_flags_def alu_compute_def rbind_assoc)
  also have "throw_fatal rt FATAL_DIVISION_BY_ZERO p = land_try ef rest (fatal_slot p) ?p1"
    using assms(5-8)
    by (simp add: throw_fatal_def ensure_fatal_buffers_def do_throw_def Let_def of_loop_def FATAL_DIVISION_BY_ZERO_def)
  finally have run: "exec_instr_div_reg rt p d =
      rbind (land_try ef rest (fatal_slot p) ?p1) (\<lambda>q. upd_reg (reg1 d) (set_lo (0 :: u64)) q)" .
  have "chain (frames ?p1) (frame_stack ?p1) [] (saved_frame_stack ef)" using assms(9) by simp
  from land_try_ok [OF this, of i rest "fatal_slot p"] assms(10-12)
  obtain q where "land_try ef rest (fatal_slot p) ?p1 = Inr q" "pc_of q = ef_handler_pc ef" "rsp q = saved_rsp ef"
      "regs (registers q) = fatal_slot p # tl (saved_regs ef)" "current_exception q = fatal_slot p" "fatal_kind q = 2"
    by auto
  then show ?thesis using assms(2) unfolding run by (simp add: upd_reg_def upd_regs_def)
qed

theorem division_by_zero_clobbers_handler_witness:
  "\<exists>q s. exec_instr_tryenter ((demo_process demo2 demo_add)\<lparr>fatal_slot := 0x800\<rparr>) demo_tryenter = Inr q \<and>
     exec_instr_div_reg demo_rt q (demo_rr False 0 0) = Inr s \<and> pc_of s = 5 \<and> current_exception s = 0x800 \<and>
     regs (registers s) ! 0 = 0"
proof -
  let ?p = "(demo_process demo2 demo_add)\<lparr>fatal_slot := 0x800\<rparr>" and ?d = "demo_rr False 0 0"
  have n: "hi_nibble (reg1 demo_tryenter) = 5" "lo_nibble (reg1 demo_tryenter) = 0" by code_simp+
  obtain q where q: "exec_instr_tryenter ?p demo_tryenter = Inr q" by (simp add: exec_instr_tryenter_def n)
  let ?ef = "\<lparr>ef_handler_pc = 5, ef_type = 0, saved_rsp = 0x2000, saved_rbp = 0x2008,
      saved_frame_stack = 0, saved_regs = regs (registers ?p)\<rparr>"
  have qd: "q = ?p\<lparr>exc_frame_stack := [?ef], reductions_remaining := 1\<rparr>"
    using q by (auto simp: exec_instr_tryenter_def n demo_process_def demo_registers_def)
  have d: "i_mode ?d = 3" "reg1 ?d = 0" "reg2 ?d = 0" by code_simp+
  have "\<exists>s. exec_instr_div_reg demo_rt q ?d = Inr s \<and> pc_of s = ef_handler_pc ?ef \<and> rsp s = saved_rsp ?ef \<and>
      current_exception s = fatal_slot q \<and> fatal_kind s = 2 \<and>
      regs (registers s) = (fatal_slot q # tl (saved_regs ?ef)) [unat (reg1 ?d) := 0]"
    by (rule division_by_zero_clobbers_handler [where i = "0x100"])
      (simp_all add: d qd demo_process_def demo_registers_def demo_rt_def)
  then show ?thesis using q by (auto simp: d qd demo_process_def)
qed

end
