(* ===== verification/Vm_Returns.thy ===== *)
theory Vm_Returns
  imports Vm_Fast
begin

text \<open>
  Computations that return.  The searches of an exception, over the classes of its object and over
  the call frames, are the only loops of an instruction that may not end; \<open>Diverges\<close> stands for
  that.  Here: memory accesses, register accesses and decoders contain no such search, and the
  search over the classes ends when the class hierarchy has no cycle.
\<close>

section \<open>Rules\<close>

definition returns :: "'a res \<Rightarrow> bool" where
  "returns r \<longleftrightarrow> r \<noteq> Inl Diverges"

named_theorems returns_intro

lemma returns_values [returns_intro]:
  "returns (Inr x)" "returns (Inl HostFault)" "returns (Inl Undefined)" "returns (Inl (ExitProcess n))"
  by (simp_all add: returns_def)

lemma returns_rbind [returns_intro]:
  "returns m \<Longrightarrow> (\<And>y. m = Inr y \<Longrightarrow> returns (f y)) \<Longrightarrow> returns (rbind m f)"
  by (cases m) (auto simp: returns_def rbind_def)

lemma returns_if [returns_intro]: "(b \<Longrightarrow> returns r) \<Longrightarrow> (\<not> b \<Longrightarrow> returns s) \<Longrightarrow> returns (if b then r else s)"
  by simp

lemma returns_prod [returns_intro]: "(\<And>a b. x = (a, b) \<Longrightarrow> returns (f a b)) \<Longrightarrow> returns (case x of (a, b) \<Rightarrow> f a b)"
  by (cases x) simp

lemma returns_option [returns_intro]:
  "(x = None \<Longrightarrow> returns r) \<Longrightarrow> (\<And>a. x = Some a \<Longrightarrow> returns (f a)) \<Longrightarrow>
     returns (case x of None \<Rightarrow> r | Some a \<Rightarrow> f a)"
  by (cases x) simp_all

lemma returns_of_host [returns_intro]: "returns (of_host x)"
  by (cases x) (simp_all add: returns_def)

section \<open>Memory\<close>

lemma returns_resolve [returns_intro]: "returns (resolve_page m a)"
  unfolding resolve_page_def lazy_page_def get_ptr_arena_def Let_def by (intro returns_intro)

lemma returns_read_bytes [returns_intro]: "returns (read_bytes m a n)"
proof (induction m a n rule: read_bytes.induct)
  case (1 m a n)
  show ?case by (subst read_bytes.simps) (auto simp: Let_def intro!: returns_intro intro: "1.IH")
qed

lemma returns_write_bytes [returns_intro]: "returns (write_bytes m a bs)"
proof (induction m a bs rule: write_bytes.induct)
  case (1 m a bs)
  show ?case by (subst write_bytes.simps) (auto simp: Let_def intro!: returns_intro intro: "1.IH")
qed

lemma returns_memory [returns_intro]:
  "returns (read_u8 m a)" "returns (read_u16 m a)" "returns (read_u32 m a)" "returns (read_u64 m a)"
  "returns (read_any m a)" "returns (write_any m a v)" "returns (write_u64 m a w)"
  "returns (read_u64_fast m a)" "returns (write_u64_fast m a w)" "returns (mem_at m a)"
  unfolding read_u8_def read_u16_def read_u32_def read_u64_def read_any_def write_any_def write_u64_def
    read_u64_fast_def write_u64_fast_def mem_at_def
  by (intro returns_intro)+

section \<open>Registers and operands\<close>

lemma returns_registers [returns_intro]:
  "returns (reg p r)" "returns (read_reg64 p r)" "returns (read_reg_table md p r)" "returns (current_instr p)"
  unfolding read_reg_table_def read_reg8_def read_reg16_def read_reg32_def read_reg64_def reg_def current_instr_def
  by (auto intro!: returns_intro)

lemma returns_operands [returns_intro]:
  "returns (sib_effective_addr p d)" "returns (host_load TYPE('a::len) p a)" "returns (load_host md p a)"
  "returns (load_vm md p a)" "returns (alu3_result opc x y f)"
  unfolding sib_effective_addr_def host_load_def load_host_def load_vm_def alu3_result_def Let_def
  by (auto intro!: returns_intro)

section \<open>Decoders\<close>

lemmas decoder_defs = decode_instr_addcur_def decode_instr_calln_def decode_instr_callni_def decode_instr_cmpjmp_def
  decode_instr_cursor_rw_def decode_instr_decjnz_def decode_instr_dlopen_dlsym_def decode_instr_fastmask_def
  decode_instr_fmowi_def decode_instr_four_reg_def decode_instr_fulfillhlt_def decode_instr_gcallocp_def
  decode_instr_inmed_mov_def decode_instr_inmed_reg_def decode_instr_jrel_def decode_instr_jump_def
  decode_instr_jumptable_def decode_instr_movc_def decode_instr_no_operands_def decode_instr_one_op_reg_def
  decode_instr_oop_reg_imm8_def decode_instr_push_pop_def decode_instr_raw_bytes_def decode_instr_sib_def
  decode_instr_simple_def decode_instr_simple_mov_def decode_instr_spawnargs_def decode_instr_static_offset_def
  decode_instr_three_reg_def decode_instr_two_op_reg_def decode_instr_vmcopy_def decode_instr_xchg_def

lemma returns_fetch [returns_intro]:
  "returns (fetch8 p a)" "returns (fetch16 p a)" "returns (fetch32 p a)" "returns (fetch64 p a)"
  "returns (table_size d)"
  unfolding fetch8_def fetch16_def fetch32_def fetch64_def table_size_def by (intro returns_intro)+

lemma returns_run_decode [returns_intro]: "returns (run_decode dec p d)"
  by (cases dec) (auto simp: decoder_defs Let_def intro!: returns_intro)

lemma returns_decode [returns_intro]: "returns (decode_instruction p)"
  unfolding decode_instruction_def decode_opcode_def Let_def by (intro returns_intro)

section \<open>The class hierarchy\<close>

text \<open>No class is its own ancestor; the null class ends a branch.\<close>

definition ancestors :: "Runtime \<Rightarrow> (u64 \<times> u64) set" where
  "ancestors rt = {(d, c). c \<noteq> 0 \<and> d \<noteq> 0 \<and> d \<in> set (class_supers rt c @ class_interfaces rt c)}"

definition classes_ok :: "Runtime \<Rightarrow> bool" where
  "classes_ok rt \<longleftrightarrow> acyclic (ancestors rt)"

lemma is_instance_todo:
  assumes "classes_ok rt" "is_instance_loop rt t cs \<noteq> None"
  shows "is_instance_loop rt t (c # cs) \<noteq> None"
  using assms(2)
proof (induction c arbitrary: cs rule: wf_induct_rule [OF finite_acyclic_wf [OF finite assms(1) [unfolded classes_ok_def]]])
  case (1 c)
  have more: "is_instance_loop rt t (ds @ cs) \<noteq> None"
    if "c \<noteq> 0" "set ds \<subseteq> set (class_supers rt c @ class_interfaces rt c)" for ds
    using that(2)
  proof (induction ds)
    case Nil
    then show ?case using "1.prems" by simp
  next
    case (Cons d ds)
    have rest: "is_instance_loop rt t (ds @ cs) \<noteq> None" using Cons by simp
    show ?case
    proof (cases "d = 0")
      case True
      then show ?thesis using rest by (subst is_instance_loop.simps) simp
    next
      case False
      then have "(d, c) \<in> ancestors rt" using that(1) Cons.prems by (simp add: ancestors_def)
      then show ?thesis using "1.IH" rest by simp
    qed
  qed
  show ?case
    using "1.prems" more [of "class_supers rt c @ class_interfaces rt c"]
    by (subst is_instance_loop.simps) auto
qed

lemma is_instance_of_returns: "classes_ok rt \<Longrightarrow> is_instance_of rt c t \<noteq> None"
  using is_instance_todo [of rt t "[]" c] is_instance_loop.simps [of rt t "[]"]
  by (auto simp: is_instance_of_def)

lemma find_try_frame_returns: "classes_ok rt \<Longrightarrow> find_try_frame rt c efs \<noteq> None"
proof (induction efs)
  case (Cons ef efs)
  then show ?case using is_instance_of_returns [of rt c "ef_type ef"] by (auto split: option.splits bool.splits)
qed simp

end
