(* ===== verification/Vm_Wf.thy ===== *)
theory Vm_Wf
  imports Vm_Returns
begin

text \<open>
  Well-formed processes: the arrays of a process have the lengths the code declares, and every
  instruction keeps them.  The same pass over the handlers shows what an instruction leaves alone:
  the decoded instructions up to their two run-time bits, the quantum (which only \<^verbatim>\<open>tryenter\<close> cuts and
  only \<^verbatim>\<open>yield\<close> empties) and the scheduling state, which only moves towards its end; and that outside
  of call frames, over a class hierarchy without cycles, it returns.
\<close>

section \<open>The invariant and the frame of an instruction\<close>

definition proc_ok :: "ProcessVM \<Rightarrow> bool" where
  "proc_ok p \<longleftrightarrow> length (regs (registers p)) = 16 \<and> length (cur (registers p)) = 4 \<and>
     (\<forall>i. length (data_instruction (icache p i)) = 16) \<and>
     (\<forall>ef \<in> set (exc_frame_stack p). length (saved_regs ef) = 16) \<and>
     (\<forall>f. length (saved_r1_r12 (frames p f)) = 12)"

text \<open>The part of a cached instruction that the decoder computed.\<close>

definition static :: "DecodedInstr \<Rightarrow> DecodedInstr" where
  "static d = d\<lparr>did_jump := False, blocking := False\<rparr>"

text \<open>Where the events of an instruction can lead: nowhere, to death, or from execution to the halt.\<close>

definition falls :: "vm_state \<Rightarrow> vm_state \<Rightarrow> bool" where
  "falls s t \<longleftrightarrow> t = s \<or> t = DEAD \<or> s = EXECUTE \<and> t = HALT"

definition keeps :: "ProcessVM \<Rightarrow> ProcessVM \<Rightarrow> bool" where
  "keeps p q \<longleftrightarrow> decoded_ptr q = decoded_ptr p \<and> (\<forall>i. static (icache q i) = static (icache p i)) \<and>
     falls (state p) (state q) \<and>
     (reductions_remaining q = reductions_remaining p \<or> reductions_remaining q = 1 \<and> 1 < reductions_remaining p)"

text \<open>A process outside of every call frame stays outside: only the calls of methods push frames.\<close>

definition step_ok :: "ProcessVM \<Rightarrow> ProcessVM \<Rightarrow> bool" where
  "step_ok p q \<longleftrightarrow> (proc_ok p \<longrightarrow> proc_ok q \<and> keeps p q) \<and> (frame_stack p = 0 \<longrightarrow> frame_stack q = 0)"

definition leads :: "Runtime \<Rightarrow> ('a \<Rightarrow> ProcessVM) \<Rightarrow> ProcessVM \<Rightarrow> 'a res \<Rightarrow> bool" where
  "leads rt g p r \<longleftrightarrow> (\<forall>y. r = Inr y \<longrightarrow> step_ok p (g y)) \<and> (classes_ok rt \<and> frame_stack p = 0 \<longrightarrow> returns r)"

named_theorems leads_intro

lemma falls_trans: "falls a b \<Longrightarrow> falls b c \<Longrightarrow> falls a c"
  by (auto simp: falls_def)

lemma falls_event: "e \<in> {EVT_HALT, EVT_ERROR} \<Longrightarrow> falls s (fsm_next s e)"
  by (cases s) (auto simp: falls_def)

lemma static_simps [simp]:
  "static (d\<lparr>did_jump := b\<rparr>) = static d" "static (d\<lparr>blocking := b\<rparr>) = static d"
  by (simp_all add: static_def)

lemma keeps_trans: "keeps p q \<Longrightarrow> keeps q r \<Longrightarrow> keeps p r"
  by (auto simp: keeps_def intro: falls_trans)

lemma step_ok_refl [leads_intro]: "step_ok p p"
  by (simp add: step_ok_def keeps_def falls_def)

lemma step_ok_trans: "step_ok p q \<Longrightarrow> step_ok q r \<Longrightarrow> step_ok p r"
  by (auto simp: step_ok_def intro: keeps_trans)

section \<open>Composition\<close>

lemma leads_Inl [leads_intro]:
  "leads rt g p (Inl HostFault)" "leads rt g p (Inl Undefined)" "leads rt g p (Inl (ExitProcess n))"
  by (simp_all add: leads_def returns_def)

lemma leads_Inr [leads_intro]: "step_ok p (g y) \<Longrightarrow> leads rt g p (Inr y)"
  by (simp add: leads_def returns_def)

lemma leads_if [leads_intro]: "(b \<Longrightarrow> leads rt g p r) \<Longrightarrow> (\<not> b \<Longrightarrow> leads rt g p s) \<Longrightarrow> leads rt g p (if b then r else s)"
  by simp

lemma leads_prod [leads_intro]: "(\<And>a b. x = (a, b) \<Longrightarrow> leads rt g p (f a b)) \<Longrightarrow> leads rt g p (case x of (a, b) \<Rightarrow> f a b)"
  by (cases x) simp

lemma leads_option [leads_intro]:
  "(x = None \<Longrightarrow> leads rt g p r) \<Longrightarrow> (\<And>a. x = Some a \<Longrightarrow> leads rt g p (f a)) \<Longrightarrow> leads rt g p (case x of None \<Rightarrow> r | Some a \<Rightarrow> f a)"
  by (cases x) simp_all

lemma leads_rbind:
  "leads rt h p m \<Longrightarrow> (\<And>y. m = Inr y \<Longrightarrow> step_ok p (h y) \<Longrightarrow> leads rt g p (f y)) \<Longrightarrow> leads rt g p (rbind m f)"
  by (cases m) (auto simp: leads_def rbind_def returns_def)

lemma leads_pure: "returns m \<Longrightarrow> (\<And>y. m = Inr y \<Longrightarrow> leads rt g p (f y)) \<Longrightarrow> leads rt g p (rbind m f)"
  by (cases m) (auto simp: leads_def rbind_def returns_def)

text \<open>The rules by the type of the first computation: those of the last group carry no process.\<close>

lemma leads_process [leads_intro]:
  fixes m :: "ProcessVM res" and n :: "('x \<times> ProcessVM) res"
  shows "leads rt (\<lambda>q. q) p m \<Longrightarrow> (\<And>q. m = Inr q \<Longrightarrow> step_ok p q \<Longrightarrow> leads rt g p (f q)) \<Longrightarrow> leads rt g p (rbind m f)"
    and "leads rt snd p n \<Longrightarrow> (\<And>y. n = Inr y \<Longrightarrow> step_ok p (snd y) \<Longrightarrow> leads rt g p (f' y)) \<Longrightarrow> leads rt g p (rbind n f')"
  by (auto intro: leads_rbind)

lemma leads_values [leads_intro]:
  fixes a :: "'x::len word res" and b :: "('y \<times> VirtualMemory) res" and c :: "VirtualMemory res"
    and d :: "host res" and e :: "(u64 \<times> RFlags) option res" and h :: "(u64 \<times> nat) res"
  shows "returns a \<Longrightarrow> (\<And>y. a = Inr y \<Longrightarrow> leads rt g p (fa y)) \<Longrightarrow> leads rt g p (rbind a fa)"
    and "returns b \<Longrightarrow> (\<And>y. b = Inr y \<Longrightarrow> leads rt g p (fb y)) \<Longrightarrow> leads rt g p (rbind b fb)"
    and "returns c \<Longrightarrow> (\<And>y. c = Inr y \<Longrightarrow> leads rt g p (fc y)) \<Longrightarrow> leads rt g p (rbind c fc)"
    and "returns d \<Longrightarrow> (\<And>y. d = Inr y \<Longrightarrow> leads rt g p (fd y)) \<Longrightarrow> leads rt g p (rbind d fd)"
    and "returns e \<Longrightarrow> (\<And>y. e = Inr y \<Longrightarrow> leads rt g p (fe y)) \<Longrightarrow> leads rt g p (rbind e fe)"
    and "returns h \<Longrightarrow> (\<And>y. h = Inr y \<Longrightarrow> leads rt g p (fh y)) \<Longrightarrow> leads rt g p (rbind h fh)"
  by (auto intro: leads_pure)

lemmas [leads_intro] = returns_intro

section \<open>Primitive updates\<close>

lemma step_ok_upd:
  assumes "step_ok p q"
    and "\<And>n. length (regs (registers q)) = 16 \<Longrightarrow> length (cur (registers q)) = 4 \<Longrightarrow>
      length (regs (f (registers q))) = 16 \<and> length (cur (f (registers q))) = 4"
  shows "step_ok p (upd_regs f q)"
  using assms unfolding step_ok_def upd_regs_def proc_ok_def keeps_def by auto

lemma frame_stack_regs [simp]: "frame_stack (upd_regs f q) = frame_stack q"
  by (simp add: upd_regs_def)

lemma step_ok_regs [leads_intro]:
  "step_ok p q \<Longrightarrow> step_ok p (set_rip a q)" "step_ok p q \<Longrightarrow> step_ok p (set_rsp a q)"
  "step_ok p q \<Longrightarrow> step_ok p (set_rbp a q)" "step_ok p q \<Longrightarrow> step_ok p (set_flags f q)"
  "step_ok p q \<Longrightarrow> step_ok p (upd_regs (\<lambda>c. c\<lparr>regs := (regs c)[i := v]\<rparr>) q)"
  "step_ok p q \<Longrightarrow> step_ok p (upd_regs (\<lambda>c. c\<lparr>cur := (cur c)[i := v]\<rparr>) q)"
  unfolding set_rip_def set_rsp_def set_rbp_def set_flags_def
  by (rule step_ok_upd; simp)+

lemma step_ok_fields [leads_intro]:
  "step_ok p q \<Longrightarrow> step_ok p (with_mem q m)"
  "step_ok p q \<Longrightarrow> frame_stack q \<noteq> 0 \<Longrightarrow> step_ok p (q\<lparr>frame_stack := f\<rparr>)"
  "step_ok p q \<Longrightarrow> step_ok p (q\<lparr>current_exception := f\<rparr>)"
  "step_ok p q \<Longrightarrow> step_ok p (q\<lparr>err_thread := e\<rparr>)"
  "step_ok p q \<Longrightarrow> step_ok p (q\<lparr>fatal_slot := f\<rparr>)"
  "step_ok p q \<Longrightarrow> step_ok p (q\<lparr>loadmod_call_depth := n\<rparr>)"
  "step_ok p q \<Longrightarrow> step_ok p (q\<lparr>loadmod_r0_stack := xs\<rparr>)"
  "step_ok p q \<Longrightarrow> step_ok p (q\<lparr>stack_low_water := w\<rparr>)"
  "step_ok p q \<Longrightarrow> step_ok p (q\<lparr>obj_class := oc, fatal_kind := k, fatal_pc := c\<rparr>)"
  "step_ok p q \<Longrightarrow> step_ok p (release f q)"
  "step_ok p q \<Longrightarrow> step_ok p (lower_water w q)"
  by (auto simp: step_ok_def with_mem_def release_def lower_water_def proc_ok_def keeps_def)

lemma step_ok_raise [leads_intro]:
  "step_ok p q \<Longrightarrow> step_ok p (raise_event EVT_HALT q)" "step_ok p q \<Longrightarrow> step_ok p (raise_event EVT_ERROR q)"
  using falls_event [of EVT_HALT "state q"] falls_event [of EVT_ERROR "state q"]
  by (auto simp: step_ok_def raise_event_def proc_ok_def keeps_def intro: falls_trans)

lemma leads_upd_decoded:
  assumes "step_ok p q" "\<And>d. static (f d) = static d" "\<And>d. data_instruction (f d) = data_instruction d"
  shows "leads rt (\<lambda>q. q) p (upd_decoded f q)"
  using assms by (auto simp: leads_def upd_decoded_def step_ok_def proc_ok_def keeps_def returns_def split: option.splits)

lemma leads_accessors [leads_intro]:
  assumes "step_ok p q"
  shows "leads rt (\<lambda>q. q) p (mark_jump q)" "leads rt (\<lambda>q. q) p (set_reg r v q)" "leads rt (\<lambda>q. q) p (upd_reg r f q)"
    "leads rt (\<lambda>q. q) p (write_rip a q)" "leads rt (\<lambda>q. q) p (write_reg_table m r v q)"
    "leads rt (\<lambda>q. q) p (upd_decoded (\<lambda>d. d\<lparr>blocking := True\<rparr>) q)"
    "leads rt (\<lambda>q. q) p (upd_decoded (\<lambda>d. d\<lparr>did_jump := b\<rparr>) q)" "leads rt (\<lambda>q. q) p (write_special r v q)"
proof -
  have j: "leads rt (\<lambda>q. q) p (mark_jump q)" if "step_ok p q" for q
    unfolding mark_jump_def using that by (rule leads_upd_decoded) simp_all
  have s: "leads rt (\<lambda>q. q) p (set_reg r v q)" if "step_ok p q" for r v q
    using that by (auto simp: set_reg_def intro!: leads_intro)
  have u: "leads rt (\<lambda>q. q) p (upd_reg r f q)" if "step_ok p q" for r f q
    using that by (auto simp: upd_reg_def intro!: leads_intro s)
  have w: "leads rt (\<lambda>q. q) p (write_rip a q)" if "step_ok p q" for a q
    using that by (auto simp: write_rip_def intro!: leads_intro j)
  show "leads rt (\<lambda>q. q) p (mark_jump q)" "leads rt (\<lambda>q. q) p (set_reg r v q)" "leads rt (\<lambda>q. q) p (upd_reg r f q)"
    "leads rt (\<lambda>q. q) p (write_rip a q)" using assms by (blast intro: j s u w)+
  show "leads rt (\<lambda>q. q) p (write_reg_table m r v q)"
    using assms by (auto simp: write_reg_table_def write_reg8_def write_reg16_def write_reg32_def write_reg64_def
        intro!: u s)
  show "leads rt (\<lambda>q. q) p (upd_decoded (\<lambda>d. d\<lparr>blocking := True\<rparr>) q)"
    using assms by (rule leads_upd_decoded) simp_all
  show "leads rt (\<lambda>q. q) p (upd_decoded (\<lambda>d. d\<lparr>did_jump := b\<rparr>) q)"
    using assms by (rule leads_upd_decoded) simp_all
  show "leads rt (\<lambda>q. q) p (write_special r v q)"
    using assms unfolding write_special_def by (intro leads_if leads_intro w) simp_all
qed
section \<open>Frames and exceptions\<close>

lemma unwind_to_ok: "unwind_to t q = Some r \<Longrightarrow> step_ok p q \<Longrightarrow> step_ok p r"
proof (induction t q r rule: unwind_to.raw_induct [rotated, consumes 1])
  case (1 unwind t q r)
  then show ?case by (auto split: if_splits intro!: leads_intro)
qed

lemma release_until_ok: "release_until f c q = Some r \<Longrightarrow> step_ok p q \<Longrightarrow> step_ok p r"
proof (induction f c q r rule: release_until.raw_induct [rotated, consumes 1])
  case (1 rel f c q r)
  then show ?case by (auto split: if_splits intro!: leads_intro)
qed

lemma leads_of_loop:
  "(\<And>r. m = Some r \<Longrightarrow> step_ok p r) \<Longrightarrow> (frame_stack p = 0 \<Longrightarrow> m \<noteq> None) \<Longrightarrow> leads rt (\<lambda>q. q) p (of_loop m)"
  by (cases m) (auto simp: of_loop_def leads_def returns_def)

lemma leads_unwind: "step_ok p q \<Longrightarrow> leads rt (\<lambda>q. q) p (of_loop (unwind_to t q))"
  by (rule leads_of_loop, erule (1) unwind_to_ok) (auto simp: step_ok_def unwind_to.simps [of t q])

lemma step_ok_land_regs:
  assumes "step_ok p q" "proc_ok p \<Longrightarrow> length (saved_regs ef) = 16"
  shows "step_ok p (upd_regs (\<lambda>c. c\<lparr>regs := take 1 (regs c) @ drop 1 (saved_regs ef)\<rparr>) q)"
  using assms unfolding step_ok_def upd_regs_def proc_ok_def keeps_def by auto

lemma step_ok_pop_frame [leads_intro]:
  assumes "step_ok p q" "frame_stack q \<noteq> 0"
  shows "step_ok p (pop_frame f q)"
proof -
  have "step_ok p (upd_regs (\<lambda>c. c\<lparr>regs := take 1 (regs c) @ take 12 (saved_r1_r12 (frames q f)) @ drop 13 (regs c)\<rparr>) q)"
    using assms unfolding step_ok_def upd_regs_def proc_ok_def keeps_def by auto
  then show ?thesis using assms unfolding pop_frame_def Let_def by (auto intro!: leads_intro)
qed

lemma leads_land_try:
  assumes "step_ok p q" "proc_ok p \<Longrightarrow> length (saved_regs ef) = 16" "proc_ok p \<Longrightarrow> \<forall>ef \<in> set rest. length (saved_regs ef) = 16"
  shows "leads rt (\<lambda>q. q) p (land_try ef rest exc q)"
proof -
  have "proc_ok (q\<lparr>exc_frame_stack := rest\<rparr>) \<and> keeps p (q\<lparr>exc_frame_stack := rest\<rparr>)" if ok: "proc_ok p"
  proof -
    have "proc_ok q" "keeps p q" using assms(1) ok by (simp_all add: step_ok_def)
    then show ?thesis using assms(3) [OF ok] by (simp add: proc_ok_def keeps_def)
  qed
  then have "step_ok p (q\<lparr>exc_frame_stack := rest\<rparr>)"
    using assms(1) unfolding step_ok_def by auto
  then have "step_ok p (set_rbp (saved_rbp ef) (set_rsp (saved_rsp ef) (q\<lparr>exc_frame_stack := rest\<rparr>)))"
    by (intro leads_intro)
  then have unwound: "leads rt (\<lambda>q. q) p (of_loop (unwind_to (saved_frame_stack ef)
      (set_rbp (saved_rbp ef) (set_rsp (saved_rsp ef) (q\<lparr>exc_frame_stack := rest\<rparr>)))))"
    by (rule leads_unwind)
  show ?thesis
    unfolding land_try_def Let_def
    by (rule leads_process(1) [OF unwound]) (intro leads_intro step_ok_land_regs assms(2))
qed

lemma leads_land_method:
  assumes "step_ok p q" "frame_stack p \<noteq> 0"
  shows "leads rt (\<lambda>q. q) p (land_method f m h exc q)"
proof -
  have frame: "step_ok p (q\<lparr>frame_stack := f\<rparr>)" if "step_ok p q" for q
    using that assms(2) by (auto simp: step_ok_def proc_ok_def keeps_def)
  have "leads rt (\<lambda>q. q) p (of_loop (release_until f (frame_stack q) q))"
    by (rule leads_of_loop) (use assms in \<open>auto intro: release_until_ok\<close>)
  then show ?thesis
    unfolding land_method_def by (rule leads_process(1)) (intro leads_intro frame)
qed

lemma leads_uncaught: "step_ok p q \<Longrightarrow> leads rt (\<lambda>q. q) p (uncaught q)"
  unfolding uncaught_def by (rule leads_process(1), erule leads_unwind) (intro leads_intro)

lemma throw_frames_ok:
  "throw_frames rt exc cls f q = Some r \<Longrightarrow> step_ok p q \<Longrightarrow> (f \<noteq> 0 \<Longrightarrow> frame_stack p \<noteq> 0) \<Longrightarrow>
     leads rt (\<lambda>q. q) p r"
proof (induction rt exc cls f q r rule: throw_frames.raw_induct [rotated, consumes 1])
  case (1 throw rt exc cls f q r)
  have "step_ok p (release f q)" using 1 by (intro leads_intro)
  with 1 show ?case by (auto split: if_splits option.splits intro!: leads_uncaught leads_land_method)
qed

lemma find_try_frame_set:
  "find_try_frame rt cls efs = Some (Some (ef, rest)) \<Longrightarrow> ef \<in> set efs \<and> set rest \<subseteq> set efs"
  by (induction efs) (auto split: if_splits option.splits bool.splits)

lemma leads_do_throw [leads_intro]:
  assumes "step_ok p q"
  shows "leads rt (\<lambda>q. q) p (do_throw rt exc q)"
proof -
  have saved: "\<forall>ef \<in> set (exc_frame_stack q). length (saved_regs ef) = 16" if "proc_ok p"
    using assms that by (auto simp: step_ok_def proc_ok_def)
  have found: "leads rt (\<lambda>q. q) p (land_try ef rest exc (q\<lparr>current_exception := exc\<rparr>))"
    if "find_try_frame rt cls (exc_frame_stack q) = Some (Some (ef, rest))" for cls ef rest
    using find_try_frame_set [OF that] saved assms by (intro leads_land_try leads_intro) auto
  have frames: "leads rt (\<lambda>q. q) p r"
    if "throw_frames rt exc cls (frame_stack q) (q\<lparr>current_exception := exc\<rparr>) = Some r" for cls r
  proof (rule throw_frames_ok [OF that])
    show "step_ok p (q\<lparr>current_exception := exc\<rparr>)" using assms by (intro leads_intro)
    show "frame_stack p \<noteq> 0" if "frame_stack q \<noteq> 0" using assms that by (auto simp: step_ok_def)
  qed
  let ?q = "q\<lparr>current_exception := exc\<rparr>"
  have rest: "leads rt (\<lambda>q. q) p (rbind (of_loop (throw_frames rt exc cls (frame_stack q) ?q)) (\<lambda>r. r))" for cls
  proof (cases "throw_frames rt exc cls (frame_stack q) ?q")
    case None
    then have "frame_stack q \<noteq> 0" by (subst (asm) throw_frames.simps) auto
    then show ?thesis using None assms by (auto simp: of_loop_def rbind_def leads_def step_ok_def)
  next
    case (Some r)
    then show ?thesis using frames by (simp add: of_loop_def rbind_def)
  qed
  have "leads rt (\<lambda>q. q) p (rbind (of_loop (find_try_frame rt cls (exc_frame_stack q)))
      (\<lambda>found. case found of Some (ef, efs) \<Rightarrow> land_try ef efs exc ?q
        | None \<Rightarrow> rbind (of_loop (throw_frames rt exc cls (frame_stack q) ?q)) (\<lambda>r. r)))" for cls
  proof (cases "find_try_frame rt cls (exc_frame_stack q)")
    case None
    then show ?thesis using find_try_frame_returns [of rt cls "exc_frame_stack q"] by (auto simp: of_loop_def rbind_def leads_def)
  next
    case (Some found)
    then show ?thesis
      using found rest by (auto simp: of_loop_def rbind_def [of "Inr _"] split: option.splits)
  qed
  then show ?thesis
    unfolding do_throw_def Let_def using assms by (auto intro!: leads_intro split: option.split)
qed

lemma leads_throw_fatal [leads_intro]: "step_ok p q \<Longrightarrow> leads rt (\<lambda>q. q) p (throw_fatal rt k q)"
  unfolding throw_fatal_def fatal_dies_def ensure_fatal_buffers_def Let_def
  by (auto intro!: leads_intro)
section \<open>The instructions\<close>

lemma leads_compute [leads_intro]: "step_ok p q \<Longrightarrow> leads rt snd p (compute_with_flags rt op q a b sg)"
  unfolding compute_with_flags_def
  by (cases "alu_compute op (flags (registers q)) a b sg") (auto intro!: leads_intro)

lemma leads_alu_core [leads_intro]: "step_ok p q \<Longrightarrow> leads rt (\<lambda>q. q) p (alu_core rt op q a b sg dst)"
  unfolding alu_core_def by (auto intro!: leads_intro)

lemma leads_unary_core [leads_intro]: "step_ok p q \<Longrightarrow> leads rt (\<lambda>q. q) p (alu_core_unary op q a dst)"
  unfolding alu_core_unary_def by (auto intro!: leads_intro)

lemma leads_host_store [leads_intro]: "step_ok p q \<Longrightarrow> leads rt (\<lambda>q. q) p (host_store q addr v)"
  unfolding host_store_def by (auto intro!: leads_intro)

lemma leads_tables [leads_intro]:
  assumes "step_ok p q"
  shows "leads rt (\<lambda>q. q) p (binary_table m rt op q a b sg dst)" "leads rt (\<lambda>q. q) p (imm_table m rt op q a b sg dst)"
    "leads rt (\<lambda>q. q) p (mov_table m q a dst)" "leads rt (\<lambda>q. q) p (unary_table m uop q a dst)"
    "leads rt (\<lambda>q. q) p (mem_imm_table m rt op q a b sg)"
  using assms
  by (auto simp: binary_table_def imm_table_def mov_table_def unary_table_def mem_imm_table_def at_mode_def
      binary_wrapper_def binary_imm_wrapper_def mov_wrapper_def unary_wrapper_def binary_mem_imm_wrapper_def
      intro!: leads_intro)

lemmas wrapper_defs = at_mode_def sib_reg_dst_wrapper_def sib_mem_dst_wrapper_def sib_mov_to_reg_def
  sib_mov_to_mem_def movh_to_reg_def movh_to_mem_def

lemma leads_imm: "leads rt (\<lambda>q. q) p (exec_imm op rt p d)"
  unfolding exec_imm_def Let_def by (intro leads_intro)

lemma leads_reg: "leads rt (\<lambda>q. q) p (exec_reg op rt p d)" "leads rt (\<lambda>q. q) p (exec_reg_nosign op rt p d)"
  unfolding exec_reg_def exec_reg_nosign_def Let_def by (intro leads_intro)+

lemma leads_sib: "leads rt (\<lambda>q. q) p (exec_sib_generic op rt p d)"
  unfolding exec_sib_generic_def Let_def wrapper_defs by (auto intro!: leads_intro)

lemma leads_moves:
  "leads rt (\<lambda>q. q) p (exec_instr_mov_reg p d)" "leads rt (\<lambda>q. q) p (exec_instr_not_reg p d)"
  "leads rt (\<lambda>q. q) p (exec_instr_inc_dec_reg p d)" "leads rt (\<lambda>q. q) p (exec_instr_mov_sib p d)"
  "leads rt (\<lambda>q. q) p (exec_instr_movc_mem p d)" "leads rt (\<lambda>q. q) p (exec_instr_movc_reg p d)"
  "leads rt (\<lambda>q. q) p (exec_instr_setcc p d)" "leads rt (\<lambda>q. q) p (exec_instr_alu3 p d)"
  "leads rt (\<lambda>q. q) p (exec_instr_loadz p d)"
  unfolding exec_instr_mov_reg_def exec_instr_not_reg_def exec_instr_inc_dec_reg_def exec_instr_mov_sib_def
    exec_instr_movc_mem_def exec_instr_movc_reg_def exec_instr_setcc_def exec_instr_alu3_def exec_instr_loadz_def
    Let_def wrapper_defs
  by (auto intro!: leads_intro)

lemma leads_fused:
  "leads rt (\<lambda>q. q) p (exec_instr_cmpjmp rt p d)" "leads rt (\<lambda>q. q) p (exec_instr_cmpjmpu rt p d)"
  "leads rt (\<lambda>q. q) p (exec_instr_decjnz rt p d)"
  unfolding exec_instr_cmpjmp_def exec_instr_cmpjmpu_def cmpjmp_def cmpjmp_set_flags_def exec_instr_decjnz_def
  by (auto intro!: leads_intro)

lemma leads_stack:
  "leads rt (\<lambda>q. q) p (exec_instr_push p d)" "leads rt (\<lambda>q. q) p (exec_instr_pop p d)"
  "leads rt (\<lambda>q. q) p (exec_instr_inmed_mov p d)" "leads rt (\<lambda>q. q) p (exec_instr_xchg p d)"
  "leads rt (\<lambda>q. q) p (exec_instr_jmp p d)" "leads rt (\<lambda>q. q) p (exec_instr_jmpr p d)"
  "leads rt (\<lambda>q. q) p (exec_instr_jrel p d)" "leads rt (\<lambda>q. q) p (exec_instr_jumptable p d)"
  "leads rt (\<lambda>q. q) p (exec_instr_subsp p d)" "leads rt (\<lambda>q. q) p (exec_instr_addsp p d)"
  "leads rt (\<lambda>q. q) p (exec_instr_enter p d)" "leads rt (\<lambda>q. q) p (exec_instr_leave p d)"
  unfolding exec_instr_push_def exec_instr_pop_def exec_instr_inmed_mov_def exec_instr_xchg_def exec_instr_jmp_def
    exec_instr_jmpr_def exec_instr_jrel_def exec_instr_jumptable_def exec_instr_subsp_def exec_instr_addsp_def
    exec_instr_enter_def exec_instr_leave_def Let_def
  by (auto intro!: leads_intro)

lemma leads_calls:
  "leads rt (\<lambda>q. q) p (exec_instr_callvm p d)" "leads rt (\<lambda>q. q) p (exec_instr_callvmr p d)"
  "leads rt (\<lambda>q. q) p (exec_instr_ret p d)" "leads rt (\<lambda>q. q) p (exec_instr_hlt p d)"
  unfolding exec_instr_callvm_def exec_instr_callvmr_def push_return_def exec_instr_ret_def exec_instr_hlt_def Let_def
  by (auto intro!: leads_intro)

lemma leads_fastpush_loop: "step_ok p q \<Longrightarrow> leads rt (\<lambda>q. q) p (fastpush_loop msk slot q)"
proof (induction msk slot q rule: fastpush_loop.induct)
  case (1 msk slot q)
  then show ?case by (subst fastpush_loop.simps) (auto intro!: leads_intro)
qed

lemma leads_fastpop_loop: "step_ok p q \<Longrightarrow> leads rt (\<lambda>q. q) p (fastpop_loop msk slot q)"
proof (induction msk slot q rule: fastpop_loop.induct)
  case (1 msk slot q)
  show ?case
    by (subst fastpop_loop.simps) (auto intro!: leads_intro "1.prems" intro: "1.IH")
qed

lemma leads_masked:
  "leads rt (\<lambda>q. q) p (exec_instr_fastpush p d)" "leads rt (\<lambda>q. q) p (exec_instr_fastpop p d)"
  unfolding exec_instr_fastpush_def exec_instr_fastpop_def Let_def
  by (auto intro!: leads_intro leads_fastpush_loop leads_fastpop_loop)

lemma leads_exceptions:
  "leads rt (\<lambda>q. q) p (exec_instr_tryleave p d)" "leads rt (\<lambda>q. q) p (exec_instr_throw rt p d)"
  "leads rt (\<lambda>q. q) p (exec_instr_rethrow rt p d)" "leads rt (\<lambda>q. q) p (exec_instr_tryenter p d)"
proof -
  show "leads rt (\<lambda>q. q) p (exec_instr_tryleave p d)"
    by (auto simp: exec_instr_tryleave_def leads_def step_ok_def proc_ok_def keeps_def falls_def returns_def
        split: list.splits)
  show "leads rt (\<lambda>q. q) p (exec_instr_tryenter p d)"
    unfolding exec_instr_tryenter_def Let_def
    by (intro leads_intro) (auto simp: step_ok_def proc_ok_def keeps_def falls_def)
qed (auto simp: exec_instr_throw_def exec_instr_rethrow_def intro!: leads_intro)
section \<open>The decoders\<close>

text \<open>
  A decoder reads code, which changes nothing but the memory, and that only by reads (they fill the
  page cache and allocate pages on first touch), and fills in the operands.
\<close>

definition read_steps :: "(VirtualMemory \<times> VirtualMemory) set" where
  "read_steps = {(m, m'). \<exists>a n bs. read_bytes m a n = Inr (bs, m')}"

definition same :: "ProcessVM \<Rightarrow> ProcessVM \<Rightarrow> bool" where
  "same p q \<longleftrightarrow> (\<exists>m. q = with_mem p m \<and> (vm_mem p, m) \<in> read_steps\<^sup>*)"

definition like :: "DecodedInstr \<Rightarrow> DecodedInstr \<Rightarrow> bool" where
  "like d e \<longleftrightarrow> (length (data_instruction d) = 16 \<longrightarrow> length (data_instruction e) = 16) \<and> i_pc e = i_pc d \<and>
     is_not_extended e = is_not_extended d \<and> opcode_index e = opcode_index d \<and> metadata e = metadata d \<and>
     exec_cached e = exec_cached d \<and> did_jump e = did_jump d \<and> blocking e = blocking d"

definition decodes :: "ProcessVM \<Rightarrow> DecodedInstr \<Rightarrow> (DecodedInstr \<times> ProcessVM) res \<Rightarrow> bool" where
  "decodes p d r \<longleftrightarrow> (\<forall>e q. r = Inr (e, q) \<longrightarrow> like d e \<and> same p q)"

named_theorems decodes_intro

lemma same_refl [decodes_intro]: "same p p"
  unfolding same_def by (rule exI [of _ "vm_mem p"]) (simp add: with_mem_def)

lemma same_trans: "same p q \<Longrightarrow> same q r \<Longrightarrow> same p r"
  unfolding same_def by (auto simp: with_mem_def intro: rtrancl_trans)

lemma same_with_mem: "same p q \<Longrightarrow> (vm_mem q, m) \<in> read_steps\<^sup>* \<Longrightarrow> same p (with_mem q m)"
  by (auto simp: same_def with_mem_def)

lemma read_steps_bytes: "read_bytes m a n = Inr (bs, m') \<Longrightarrow> (m, m') \<in> read_steps\<^sup>*"
  by (auto simp: read_steps_def)

lemma read_steps_typed:
  "read_u16 m a = Inr (v16, m') \<Longrightarrow> (m, m') \<in> read_steps\<^sup>*" "read_u32 m a = Inr (v32, m') \<Longrightarrow> (m, m') \<in> read_steps\<^sup>*"
  "read_u64 m a = Inr (v64, m') \<Longrightarrow> (m, m') \<in> read_steps\<^sup>*"
  by (auto simp: read_u16_def read_u32_def read_u64_def rbind_def split: sum.splits intro: read_steps_bytes)

lemma read_steps_mem_at: "mem_at m a = Inr (b, m') \<Longrightarrow> (m, m') \<in> read_steps\<^sup>*"
proof -
  have of_host: "of_host x = Inr y \<Longrightarrow> x = Some y" for x :: "'a option" and y by (cases x) auto
  show "mem_at m a = Inr (b, m') \<Longrightarrow> (m, m') \<in> read_steps\<^sup>*"
    unfolding mem_at_def rbind_def
    by (auto split: option.splits sum.splits if_splits dest!: of_host intro: read_steps_bytes)
qed

lemma like_closed [decodes_intro]:
  "like d d" "like d e \<Longrightarrow> like d (set_size n e)" "like d e \<Longrightarrow> like d (ctrl_flags c e)"
  "like d e \<Longrightarrow> like d (put_imm v r e)" "like d e \<Longrightarrow> like d (e\<lparr>i_mode := m\<rparr>)"
  "like d e \<Longrightarrow> like d (e\<lparr>signed_instruct := b\<rparr>)" "like d e \<Longrightarrow> like d (e\<lparr>reg_ext := b\<rparr>)"
  "like d e \<Longrightarrow> like d (e\<lparr>i_mode := m, signed_instruct := b\<rparr>)"
  "like d e \<Longrightarrow> like d (e\<lparr>signed_instruct := b, direction := c', i_mode := m\<rparr>)"
  "like d e \<Longrightarrow> k + length bs \<le> 16 \<Longrightarrow> like d (put_bytes k bs e)"
  by (auto simp: like_def set_size_def ctrl_flags_def put_imm_def put_bytes_def)

lemma decodes_Inr [decodes_intro]: "like d e \<Longrightarrow> same p q \<Longrightarrow> decodes p d (Inr (e, q))"
  by (simp add: decodes_def)

lemma decodes_if [decodes_intro]: "(b \<Longrightarrow> decodes p d r) \<Longrightarrow> (\<not> b \<Longrightarrow> decodes p d s) \<Longrightarrow> decodes p d (if b then r else s)"
  by simp

lemma same_fetch:
  assumes "same p q"
  shows "fetch8 q a = Inr (w8, r) \<Longrightarrow> same p r" "fetch16 q a = Inr (w16, r) \<Longrightarrow> same p r"
    "fetch32 q a = Inr (w32, r) \<Longrightarrow> same p r" "fetch64 q a = Inr (w64, r) \<Longrightarrow> same p r"
  using assms
  by (auto simp: fetch8_def fetch16_def fetch32_def fetch64_def rbind_def split: sum.splits
      intro!: same_with_mem elim: read_steps_mem_at read_steps_typed)

lemma decodes_bind:
  "(\<And>w r. m = Inr (w, r) \<Longrightarrow> same p r) \<Longrightarrow> (\<And>w q. same p q \<Longrightarrow> decodes p d (f w q)) \<Longrightarrow>
     decodes p d (rbind m (\<lambda>(w, q). f w q))"
  by (cases m) (auto simp: rbind_def decodes_def)

lemma decodes_fetch [decodes_intro]:
  assumes "same p q"
  shows "(\<And>w q. same p q \<Longrightarrow> decodes p d (f8 w q)) \<Longrightarrow> decodes p d (rbind (fetch8 q a) (\<lambda>(w, q). f8 w q))"
    and "(\<And>w q. same p q \<Longrightarrow> decodes p d (f16 w q)) \<Longrightarrow> decodes p d (rbind (fetch16 q a) (\<lambda>(w, q). f16 w q))"
    and "(\<And>w q. same p q \<Longrightarrow> decodes p d (f32 w q)) \<Longrightarrow> decodes p d (rbind (fetch32 q a) (\<lambda>(w, q). f32 w q))"
    and "(\<And>w q. same p q \<Longrightarrow> decodes p d (f64 w q)) \<Longrightarrow> decodes p d (rbind (fetch64 q a) (\<lambda>(w, q). f64 w q))"
  using same_fetch [OF assms] by (auto intro: decodes_bind)

lemma decodes_table_size [decodes_intro]:
  "like d e \<Longrightarrow> (\<And>e. like d e \<Longrightarrow> decodes p d (f e)) \<Longrightarrow> decodes p d (rbind (table_size e) f)"
  using like_closed(2) [of d e] by (force simp: decodes_def table_size_def rbind_def split: option.splits)

lemma decodes_run: "decodes p d (run_decode dec p d)"
  by (cases dec) (auto simp: decoder_defs Let_def intro!: decodes_intro)
text \<open>
  Decoding the next instruction changes three fields of the process: the memory, by reads; the
  instruction cache, in the entry of the program counter only, which then holds the instruction at
  that address; and the pointer to the current instruction, which points at that entry.  When the
  entry holds the instruction already, neither memory nor cache change.
\<close>

definition fetched :: "ProcessVM \<Rightarrow> ProcessVM \<Rightarrow> bool" where
  "fetched p q \<longleftrightarrow>
     (\<exists>m c. q = p\<lparr>vm_mem := m, icache := c, decoded_ptr := Some (icache_index (pc_of p))\<rparr> \<and>
       (vm_mem p, m) \<in> read_steps\<^sup>* \<and> (\<forall>i. i \<noteq> icache_index (pc_of p) \<longrightarrow> c i = icache p i) \<and>
       i_pc (c (icache_index (pc_of p))) = pc_of p \<and>
       (i_pc (icache p (icache_index (pc_of p))) = pc_of p \<and> decoded_ptr p \<noteq> None \<longrightarrow>
          m = vm_mem p \<and> c = icache p))"

lemma fetchedD:
  assumes "fetched p q"
  shows "registers q = registers p" "state q = state p" "reductions_remaining q = reductions_remaining p"
    "decoded_ptr q = Some (icache_index (pc_of p))" "frame_stack q = frame_stack p"
  using assms by (auto simp: fetched_def)

definition missed :: "ProcessVM \<Rightarrow> bool" where
  "missed p \<longleftrightarrow> \<not> (i_pc (icache p (icache_index (pc_of p))) = pc_of p \<and> decoded_ptr p \<noteq> None)"

lemma fetched_store:
  assumes "same p q" "i_pc e = pc_of p" "length (data_instruction e) = 16" "proc_ok p" "missed p"
  shows "fetched p (store_decoded e q) \<and> proc_ok (store_decoded e q)"
proof -
  obtain m where m: "q = with_mem p m" "(vm_mem p, m) \<in> read_steps\<^sup>*" using assms(1) by (auto simp: same_def)
  have st: "store_decoded e q = p\<lparr>vm_mem := m, icache := (icache p)(icache_index (pc_of p) := e),
      decoded_ptr := Some (icache_index (pc_of p))\<rparr>"
    using m(1) assms(2) by (simp add: store_decoded_def with_mem_def Let_def)
  have "fetched p (store_decoded e q)"
    unfolding st fetched_def
    by (rule exI [of _ m], rule exI [of _ "(icache p)(icache_index (pc_of p) := e)"])
      (use m(2) assms(2,5) in \<open>auto simp: missed_def\<close>)
  moreover have "proc_ok (store_decoded e q)" unfolding st using assms(3,4) by (simp add: proc_ok_def)
  ultimately show ?thesis by simp
qed

lemma fetched_opcode:
  assumes "decode_opcode q d = Inr r" "same p q" "i_pc d = pc_of p" "length (data_instruction d) = 16" "proc_ok p"
    "missed p"
  shows "fetched p r \<and> proc_ok r"
proof -
  obtain fmt where fmt: "(if is_not_extended d = 0 then decode_table_extended ! unat (opcode_index d)
      else decode_table_primary ! unat (is_not_extended d)) = fmt" by simp
  let ?d = "d\<lparr>metadata := Some fmt\<rparr>"
  have none: ?thesis if "store_decoded (?d\<lparr>exec_cached := None\<rparr>) q = r"
    unfolding that [symmetric] by (rule fetched_store) (use assms in simp_all)
  have some: ?thesis if "rbind (run_decode dec q (?d\<lparr>exec_cached := Some ex\<rparr>)) (\<lambda>(d2, p1). Inr (store_decoded d2 p1)) = Inr r"
    for ex dec
  proof -
    obtain e q' where e: "run_decode dec q (?d\<lparr>exec_cached := Some ex\<rparr>) = Inr (e, q')" "r = store_decoded e q'"
      using \<open>rbind _ _ = Inr r\<close> by (auto simp: rbind_def split: sum.splits)
    have "like (?d\<lparr>exec_cached := Some ex\<rparr>) e" "same q q'" using decodes_run e(1) unfolding decodes_def by blast+
    then show ?thesis
      unfolding e(2) by (intro fetched_store) (use assms same_trans [OF assms(2)] in \<open>auto simp: like_def\<close>)
  qed
  have "decode_opcode q d = Inr r" by (fact assms(1))
  then show ?thesis
    unfolding decode_opcode_def fmt Let_def
    by (cases "fmt_exec fmt"; cases "fmt_decode fmt"; cases "fmt_mode fmt = MODE_COUNT")
      (simp_all only: option.case prod.case if_True if_False sum.inject simp_thms none some)
qed

lemma fetched_decode:
  assumes "decode_instruction p = Inr q" "proc_ok p"
  shows "fetched p q \<and> proc_ok q"
proof (cases "i_pc (icache p (icache_index (pc_of p))) = pc_of p \<and> decoded_ptr p \<noteq> None")
  case True
  then have q: "q = p\<lparr>decoded_ptr := Some (icache_index (pc_of p))\<rparr>"
    using assms(1) by (simp add: decode_instruction_def)
  have "fetched p q" unfolding q fetched_def
    by (rule exI [of _ "vm_mem p"], rule exI [of _ "icache p"]) (use True in simp)
  moreover have "proc_ok q" using assms(2) by (simp add: q proc_ok_def)
  ultimately show ?thesis by simp
next
  case False
  then have miss: "missed p" by (simp only: missed_def not_False_eq_True simp_thms)
  let ?pc = "pc_of p"
  have new: "length (data_instruction (new_DecodedInstr\<lparr>i_pc := ?pc, is_not_extended := o1\<rparr>)) = 16" for o1
    by (simp add: new_DecodedInstr_def)
  obtain w p1 where p1: "fetch8 p (?pc + 16) = Inr (w, p1)"
    using assms(1) False unfolding decode_instruction_def Let_def by (cases "fetch8 p (?pc + 16)") (auto simp: rbind_def)
  obtain op1 p2 where p2: "fetch8 p1 ?pc = Inr (op1, p2)"
    using assms(1) False p1 unfolding decode_instruction_def Let_def by (cases "fetch8 p1 ?pc") (auto simp: rbind_def)
  have p2s: "same p p2" by (rule same_fetch(1) [OF same_fetch(1) [OF same_refl p1] p2])
  let ?d = "new_DecodedInstr\<lparr>i_pc := ?pc, is_not_extended := op1\<rparr>"
  show ?thesis
  proof (cases "op1 = 0")
    case True
    obtain op2 p3 where p3: "fetch8 p2 (?pc + 1) = Inr (op2, p3)" "decode_opcode p3 (?d\<lparr>opcode_index := op2\<rparr>) = Inr q"
      using assms(1) False True p1 p2 unfolding decode_instruction_def Let_def
      by (cases "fetch8 p2 (?pc + 1)") (auto simp: rbind_def)
    show ?thesis by (rule fetched_opcode [OF p3(2) same_fetch(1) [OF p2s p3(1)] _ _ assms(2) miss]) (use new in simp_all)
  next
    case 0: False
    then have "decode_opcode p2 ?d = Inr q"
      using assms(1) False p1 p2 unfolding decode_instruction_def Let_def by (auto simp: rbind_def)
    then show ?thesis by (rule fetched_opcode [OF _ p2s _ _ assms(2) miss]) (use new in simp_all)
  qed
qed
section \<open>One instruction\<close>

text \<open>The instructions of the tables of handlers, without \<^verbatim>\<open>yield\<close>; an empty slot of the decode table halts.\<close>

definition plain :: "Runtime \<Rightarrow> string option \<Rightarrow> bool" where
  "plain rt ex \<longleftrightarrow> (case ex of None \<Rightarrow> True
     | Some n \<Rightarrow> n \<in> set (map fst (exec_alu_table rt @ exec_stack_table rt)) \<and> n \<noteq> ''exec_instr_yield'')"

lemmas handler_leads = leads_imm leads_reg leads_sib leads_moves leads_fused leads_stack leads_calls leads_masked
  leads_exceptions

lemmas alu_handler_defs = exec_instr_add_reg_def exec_instr_add_imm_def exec_instr_add_sib_def exec_instr_sub_reg_def
  exec_instr_sub_imm_def exec_instr_sub_sib_def exec_instr_mul_reg_def exec_instr_mul_imm_def exec_instr_mul_sib_def
  exec_instr_div_reg_def exec_instr_div_imm_def exec_instr_div_sib_def exec_instr_cmp_reg_def exec_instr_cmp_imm_def
  exec_instr_cmp_sib_def exec_instr_mod_reg_def exec_instr_mod_imm_def exec_instr_mod_sib_def exec_instr_and_reg_def
  exec_instr_or_reg_def exec_instr_xor_reg_def exec_instr_shl_reg_def exec_instr_shr_reg_def exec_instr_sar_reg_def

lemma leads_alu_table: "(n, h) \<in> set (exec_alu_table rt) \<Longrightarrow> leads rt (\<lambda>q. q) p (h p d)"
  unfolding exec_alu_table_def alu_handler_defs
  by (elim set_ConsD [elim_format] disjE) (simp_all add: handler_leads)

lemma leads_stack_table:
  "(n, h) \<in> set (exec_stack_table rt) \<Longrightarrow> n \<noteq> ''exec_instr_yield'' \<Longrightarrow> leads rt (\<lambda>q. q) p (h p d)"
  unfolding exec_stack_table_def by (auto simp: handler_leads)

lemma leads_run_exec: "plain rt (Some n) \<Longrightarrow> leads rt (\<lambda>q. q) p (run_exec other rt n p d)"
proof -
  assume n: "plain rt (Some n)"
  then have "map_of (exec_alu_table rt @ exec_stack_table rt) n \<noteq> None"
    unfolding map_of_eq_None_iff by (auto simp: plain_def image_Un)
  then obtain h where h: "map_of (exec_alu_table rt @ exec_stack_table rt) n = Some h" by blast
  from map_of_SomeD [OF this] show ?thesis
    unfolding run_exec_def h using n leads_alu_table leads_stack_table by (auto simp: plain_def)
qed
lemma leads_advance: "step_ok p q \<Longrightarrow> leads rt snd p (advance q)"
  unfolding advance_def
  by (rule leads_pure, intro leads_intro) (auto intro!: leads_intro)

lemma leads_slow: "plain rt (exec_cached d) \<Longrightarrow> leads rt snd p (L_SLOW other rt p d)"
  unfolding L_SLOW_def
  by (intro leads_intro leads_run_exec leads_advance) (auto intro!: leads_intro)

text \<open>The inlined handlers of the threaded dispatch.\<close>

lemma leads_L_ALU3:
  assumes "L_ALU3 p d = Some r"
  shows "leads rt (\<lambda>q. q) p r"
proof -
  let ?run = "\<lambda>out. case out of None \<Rightarrow> Inr p
      | Some (res, f) \<Rightarrow> rbind (set_reg (lo_nibble (reg1 d)) res p) (\<lambda>p1. Inr (next_rip d (set_flags f p1)))"
  have "leads rt (\<lambda>q. q) p (rbind (reg p (hi_nibble (reg1 d))) (\<lambda>a. rbind (reg p (hi_nibble (reg2 d))) (\<lambda>b.
      rbind (alu3_result (opcode_index d) a b (flags (registers p))) ?run)))"
    unfolding next_rip_def by (intro leads_intro)
  then show ?thesis
    using assms unfolding L_ALU3_def Let_def alu3_switches_agree
    by (auto simp: rbind_def [of "reg _ _"] rbind_def [of "alu3_result _ _ _ _"] rbind_def [of "Inl _"]
        split: sum.splits option.splits)
qed

lemma leads_inlined:
  assumes "dispatch_table i = Some h" "h p d = Some r"
  shows "leads rt (\<lambda>q. q) p r"
proof -
  have "h \<in> {L_MOV_RR, L_MOV_RI, L_ADD_RR, L_SUB_RR, L_CMP_RR, L_AND_RR, L_OR_RR, L_XOR_RR, L_CMPJMP, L_ALU3, L_JCC}"
    using assms(1) by (simp add: dispatch_table_def split: if_splits)
  moreover have "leads rt (\<lambda>q. q) p r" if "logic_rr f p d = Some r" for f
    using that unfolding logic_rr_def next_rip_def Let_def by (auto split: if_splits intro!: leads_intro)
  ultimately show ?thesis
    using assms(2) leads_L_ALU3 [of p d r rt]
    unfolding L_MOV_RR_def L_MOV_RI_def L_ADD_RR_def L_SUB_RR_def L_CMP_RR_def L_AND_RR_def L_OR_RR_def L_XOR_RR_def
      L_CMPJMP_def L_JCC_def next_rip_def Let_def
    by (auto split: if_splits intro!: leads_intro)
qed

lemma leads_fast_step:
  assumes "current_instr p = Inr d" "plain rt (exec_cached d)"
  shows "leads rt snd p (fast_step other rt p)"
proof -
  have "leads rt snd p (case h p d of None \<Rightarrow> L_SLOW other rt p d | Some r \<Rightarrow> rbind r (\<lambda>p1. Inr (EVT_EXEC_DONE, p1)))"
    if "dispatch_table (dispatch_idx d) = Some h" for h
    using leads_inlined [OF that] leads_slow [OF assms(2)] by (auto split: option.splits intro!: leads_intro)
  then show ?thesis
    unfolding fast_step_def assms(1) using leads_slow [OF assms(2)] by (auto simp: rbind_def split: option.splits)
qed

lemma leads_execute:
  assumes "current_instr p = Inr d" "metadata d = Some fmt" "plain rt (fmt_exec fmt)"
  shows "leads rt snd p (execute_instruction other rt p)"
proof -
  have "leads rt snd p (case fmt_exec fmt of None \<Rightarrow> Inr (EVT_HALT, raise_event EVT_HALT p)
      | Some n \<Rightarrow> rbind (run_exec other rt n p d) advance)"
    using assms(3) by (intro leads_intro leads_run_exec leads_advance) (auto intro!: leads_intro)
  then show ?thesis by (simp add: execute_instruction_def assms(1,2) rbind_def)
qed

lemma leadsD:
  "leads rt g p (Inr y) \<Longrightarrow> proc_ok p \<Longrightarrow> proc_ok (g y) \<and> keeps p (g y)"
  "leads rt g p (Inr y) \<Longrightarrow> frame_stack p = 0 \<Longrightarrow> frame_stack (g y) = 0"
  "leads rt g p r \<Longrightarrow> classes_ok rt \<Longrightarrow> frame_stack p = 0 \<Longrightarrow> returns r"
  by (simp_all add: leads_def step_ok_def)

end
