(* ===== verification/Vm_Sched.thy ===== *)
theory Vm_Sched
  imports Vm_Wf
begin

text \<open>
  The scheduler of processes (\<^verbatim>\<open>src/runtime/scheduler.cpp\<close>): creation, activation and removal of processes,
  the ready queue, and one round of \<^verbatim>\<open>run_loop\<close>: the next process runs a quantum, on the threaded
  dispatch or, with debug hooks, step by step through the state machine, and is then requeued,
  put to sleep or counted out.

  Processes are objects at addresses; a use of a freed or null one is a host fault.  Each operation
  is one atomic step here; their interleaving is in \<^verbatim>\<open>Vm_Wakeup\<close>.  The entry into compiled code, the
  stop of all schedulers for the collector, the recovery from host signals and the notification of
  remote nodes are left out.
\<close>

section \<open>Data\<close>

record GlobalPID =
  scheduler_id :: u32
  local_pid :: u64

text \<open>A process with the fields that its scheduler keeps in it.\<close>

record PCB =
  pid :: GlobalPID
  vm :: ProcessVM
  wake_pending :: bool

record Scheduler =
  id_scheduler :: u32
  next_pid :: u64
  cur_instance :: u64
  processes :: "u64 list"
  pid_index :: "GlobalPID \<rightharpoonup> u64"
  ready_queue :: "u64 list"
  alive_count :: u32
  objects :: "u64 \<rightharpoonup> PCB"

definition new_Scheduler :: "u32 \<Rightarrow> Scheduler" where
  "new_Scheduler n = \<lparr>id_scheduler = n, next_pid = 0, cur_instance = 0, processes = [], pid_index = Map.empty,
     ready_queue = [], alive_count = 0, objects = Map.empty\<rparr>"

definition reductions_remaining_default :: u64 where
  "reductions_remaining_default = 8192"

definition new_FrameHeader :: FrameHeader where
  "new_FrameHeader = \<lparr>fh_prev = 0, fh_method = None, return_pc = 0, frame_base = 0, has_saved_regs = False,
     saved_r1_r12 = replicate 12 0, inject_r0_to_reg = 0\<rparr>"

text \<open>A new process, on the memory that the host has granted so far.\<close>

definition new_ProcessVM :: "host \<Rightarrow> ProcessVM" where
  "new_ProcessVM h = \<lparr>registers = \<lparr>stack_pointer = 0, base_pointer = 0, rip = 0, flags = 0,
       regs = replicate 16 0, cur = replicate 4 0\<rparr>, vm_mem = new_VirtualMemory h, stack_low_water = 0,
     reductions_remaining = reductions_remaining_default, state = NEW, err_thread = THREAD_NO_ERROR,
     icache = (\<lambda>_. new_DecodedInstr), decoded_ptr = None, frames = (\<lambda>_. new_FrameHeader),
     frame_stack = 0, free_list_head = 0, exc_frame_stack = [], current_exception = 0,
     obj_class = Map.empty, fatal_slot = 0, fatal_kind = 0, fatal_pc = 0, loadmod_call_depth = 0,
     loadmod_r0_stack = []\<rparr>"

section \<open>Operations\<close>

text \<open>\<^verbatim>\<open>reset\<close> frees the processes.\<close>

definition reset :: "Scheduler \<Rightarrow> Scheduler" where
  "reset s = s\<lparr>ready_queue := [], pid_index := Map.empty, processes := [], next_pid := 0, alive_count := 0,
     cur_instance := 0, objects := objects s |` (- set (processes s))\<rparr>"

definition has_alive_processes :: "Scheduler \<Rightarrow> bool" where
  "has_alive_processes s \<longleftrightarrow> 0 < sint (alive_count s)"

text \<open>Creation, at the address and on the host that the allocator gives.\<close>

definition spawn :: "u64 \<Rightarrow> host \<Rightarrow> Scheduler \<Rightarrow> GlobalPID \<times> Scheduler" where
  "spawn a h s =
     (let n = \<lparr>scheduler_id = id_scheduler s, local_pid = next_pid s\<rparr>
      in (n, s\<lparr>next_pid := next_pid s + 1, processes := processes s @ [a], pid_index := (pid_index s)(n \<mapsto> a),
              objects := (objects s)(a \<mapsto> \<lparr>pid = n, vm = new_ProcessVM h, wake_pending = False\<rparr>)\<rparr>))"

definition object_at :: "Scheduler \<Rightarrow> u64 \<Rightarrow> PCB res" where
  "object_at s a = (case objects s a of None \<Rightarrow> Inl HostFault | Some c \<Rightarrow> Inr c)"

definition put_object :: "u64 \<Rightarrow> PCB \<Rightarrow> Scheduler \<Rightarrow> Scheduler" where
  "put_object a c s = s\<lparr>objects := (objects s)(a \<mapsto> c)\<rparr>"

definition with_state :: "vm_state \<Rightarrow> PCB \<Rightarrow> PCB" where
  "with_state st c = c\<lparr>vm := (vm c)\<lparr>state := st\<rparr>\<rparr>"

abbreviation state_of :: "PCB \<Rightarrow> vm_state" where
  "state_of c \<equiv> state (vm c)"

definition push_back :: "u64 \<Rightarrow> Scheduler \<Rightarrow> Scheduler" where
  "push_back a s = s\<lparr>ready_queue := ready_queue s @ [a]\<rparr>"

text \<open>
  \<^verbatim>\<open>operator[]\<close> of the index answers a null pointer for an unknown process identifier; the next line
  dereferences it.
\<close>

definition make_ready :: "GlobalPID \<Rightarrow> Scheduler \<Rightarrow> Scheduler res" where
  "make_ready n s =
     (case pid_index s n of None \<Rightarrow> Inl HostFault
      | Some a \<Rightarrow> rbind (object_at s a) (\<lambda>c.
          let c1 = c\<lparr>wake_pending := True\<rparr>; prev = state_of c1
          in if prev \<in> {NEW, HALT, DEAD, WAIT_IO, BLOCKED}
             then let c2 = (with_state READY c1)\<lparr>wake_pending := False\<rparr>; s1 = put_object a c2 s;
                      s2 = (if prev \<in> {NEW, HALT, DEAD} then s1\<lparr>alive_count := alive_count s1 + 1\<rparr> else s1)
                  in Inr (push_back a s2)
             else Inr (put_object a c1 s)))"

text \<open>The swap with the last element that removes a process from the vector.\<close>

fun swap_and_pop :: "u64 \<Rightarrow> u64 list \<Rightarrow> u64 list" where
  "swap_and_pop a [] = []"
| "swap_and_pop a (x # xs) =
     (if x = a then (if xs = [] then [] else last xs # butlast xs) else x # swap_and_pop a xs)"

definition kill :: "GlobalPID \<Rightarrow> Scheduler \<Rightarrow> Scheduler res" where
  "kill n s =
     (case pid_index s n of None \<Rightarrow> Inr s
      | Some a \<Rightarrow> rbind (object_at s a) (\<lambda>c.
          let s1 = (if state_of c \<notin> {NEW, DEAD, HALT} then s\<lparr>alive_count := alive_count s - 1\<rparr> else s);
              s2 = s1\<lparr>pid_index := (pid_index s1)(n := None)\<rparr>
          in if a \<in> set (processes s2)
             then Inr (s2\<lparr>processes := swap_and_pop a (processes s2), objects := (objects s2)(a := None)\<rparr>)
             else Inr s2))"

definition schedule_next :: "Scheduler \<Rightarrow> (u64 option \<times> Scheduler) res" where
  "schedule_next s =
     (case ready_queue s of [] \<Rightarrow> Inr (None, s)
      | a # q \<Rightarrow> rbind (object_at s a) (\<lambda>c.
          Inr (Some a, (put_object a (c\<lparr>vm := (vm c)\<lparr>reductions_remaining := reductions_remaining_default\<rparr>\<rparr>) s)
                 \<lparr>ready_queue := q, cur_instance := a\<rparr>)))"

section \<open>A quantum\<close>

text \<open>
  How a quantum ends: at the label \<^verbatim>\<open>BATCH_END\<close> with the process still the instance, with a process that
  halted or died, or with a process that waits.
\<close>

datatype batch_exit = Batch_end | Batch_dead | Batch_wait

definition spend :: "ProcessVM \<Rightarrow> ProcessVM" where
  "spend p = p\<lparr>reductions_remaining := reductions_remaining p - 1\<rparr>"

text \<open>The hit path of the decoder, inlined in the dispatch.\<close>

definition next_dispatch :: "ProcessVM \<Rightarrow> ProcessVM res" where
  "next_dispatch p =
     (let pc = pc_of p; idx = icache_index pc
      in if i_pc (icache p idx) = pc \<and> decoded_ptr p \<noteq> None then Inr (p\<lparr>decoded_ptr := Some idx\<rparr>)
         else decode_instruction p)"

partial_function (option) fast_batch ::
    "(string \<Rightarrow> handler) \<Rightarrow> Runtime \<Rightarrow> ProcessVM \<Rightarrow> (batch_exit \<times> ProcessVM) res option" where
  [code]: "fast_batch other rt p =
     (case rbind (next_dispatch p) (fast_step other rt) of
        Inl x \<Rightarrow> Some (Inl x)
      | Inr (e, p1) \<Rightarrow>
          (let p2 = spend p1
           in if e = EVT_EXEC_DONE
              then if reductions_remaining p2 = 0 then Some (Inr (Batch_end, p2)) else fast_batch other rt p2
              else if state p2 \<in> {HALT, DEAD} then Some (Inr (Batch_dead, p2))
              else Some (Inr (Batch_wait, p2))))"

lemma fast_batch_go:
  assumes "rbind (next_dispatch p) (fast_step other rt) = Inr (EVT_EXEC_DONE, p1)" "reductions_remaining (spend p1) \<noteq> 0"
  shows "fast_batch other rt p = fast_batch other rt (spend p1)"
  using assms by (subst fast_batch.simps) simp

lemma fast_batch_stop:
  assumes "rbind (next_dispatch p) (fast_step other rt) = Inr (EVT_EXEC_DONE, p1)" "reductions_remaining (spend p1) = 0"
  shows "fast_batch other rt p = Some (Inr (Batch_end, spend p1))"
  using assms by (subst fast_batch.simps) simp

definition fast_quantum ::
    "(string \<Rightarrow> handler) \<Rightarrow> Runtime \<Rightarrow> ProcessVM \<Rightarrow> (batch_exit \<times> ProcessVM) res option" where
  "fast_quantum other rt p =
     (let p1 = p\<lparr>state := EXECUTE\<rparr>
      in if 0 < reductions_remaining p1 then fast_batch other rt p1 else Some (Inr (Batch_end, p1)))"

partial_function (option) slow_quantum ::
    "(string \<Rightarrow> handler) \<Rightarrow> Runtime \<Rightarrow> ProcessVM \<Rightarrow> (batch_exit \<times> ProcessVM) res option" where
  [code]: "slow_quantum other rt p =
     (if reductions_remaining p = 0 then Some (Inr (Batch_end, p))
      else case run_fsm_step other rt p of None \<Rightarrow> None
           | Some (Inl x) \<Rightarrow> Some (Inl x)
           | Some (Inr p1) \<Rightarrow>
               (let p2 = spend p1
                in if state p2 \<in> {DEAD, HALT} then Some (Inr (Batch_dead, p2))
                   else if state p2 \<in> {WAIT_IO, BLOCKED} then Some (Inr (Batch_wait, p2))
                   else slow_quantum other rt p2))"

section \<open>A round of the loop\<close>

text \<open>Falling asleep: with hooks the state already is that of a sleeper.\<close>

definition fall_asleep :: "bool \<Rightarrow> u64 \<Rightarrow> PCB \<Rightarrow> Scheduler \<Rightarrow> Scheduler" where
  "fall_asleep hooks a c s =
     (let c1 = (if \<not> hooks \<and> state_of c = EXECUTE then with_state WAIT_IO c else c);
          c2 = c1\<lparr>wake_pending := False\<rparr>
      in if wake_pending c1 \<and> (hooks \<or> state_of c1 \<in> {WAIT_IO, BLOCKED})
         then push_back a (put_object a (with_state READY c2) s)
         else put_object a c2 s)"

definition end_quantum :: "bool \<Rightarrow> u64 \<Rightarrow> batch_exit \<Rightarrow> PCB \<Rightarrow> Scheduler \<Rightarrow> Scheduler res" where
  "end_quantum hooks a ex c s =
     (case ex of
        Batch_dead \<Rightarrow> Inr ((put_object a c s)\<lparr>alive_count := alive_count s - 1, cur_instance := 0\<rparr>)
      | Batch_wait \<Rightarrow> Inr ((fall_asleep hooks a c s)\<lparr>cur_instance := 0\<rparr>)
      | Batch_end \<Rightarrow>
          rbind (if reductions_remaining (vm c) = 0 then on_event EVT_YIELD (vm c) else Inr (vm c)) (\<lambda>p.
            let s1 = put_object a (c\<lparr>vm := p\<rparr>) s
            in Inr (if state p = READY then push_back a s1 else s1)))"

text \<open>The round answers whether a process ran; \<open>None\<close> is a quantum that does not end.\<close>

definition run_round :: "bool \<Rightarrow> (string \<Rightarrow> handler) \<Rightarrow> Runtime \<Rightarrow> Scheduler \<Rightarrow> (bool \<times> Scheduler) res option" where
  "run_round hooks other rt s =
     (case schedule_next s of
        Inl x \<Rightarrow> Some (Inl x)
      | Inr (None, s1) \<Rightarrow> Some (Inr (False, s1))
      | Inr (Some a, s1) \<Rightarrow>
          (case object_at s1 a of Inl x \<Rightarrow> Some (Inl x)
           | Inr c \<Rightarrow>
               map_option (\<lambda>r. rbind r (\<lambda>(ex, p). rbind (end_quantum hooks a ex (c\<lparr>vm := p\<rparr>) s1) (\<lambda>s2. Inr (True, s2))))
                 (if hooks then slow_quantum other rt (vm c) else fast_quantum other rt (vm c))))"
section \<open>What a quantum keeps\<close>

text \<open>
  Handlers outside the development are assumed to keep processes well-formed and to change the
  state of a process, if at all, by blocking or ending it.  In a round through the state machine
  what remains of this is that a process never becomes a new one.
\<close>

definition sound :: "ProcessVM \<Rightarrow> ProcessVM \<Rightarrow> bool" where
  "sound p q \<longleftrightarrow> (proc_ok p \<longrightarrow> proc_ok q \<and> (state q = state p \<or> state q \<in> {WAIT_IO, BLOCKED, HALT, DEAD}))"

definition stays :: "ProcessVM \<Rightarrow> ProcessVM \<Rightarrow> bool" where
  "stays p q \<longleftrightarrow> (proc_ok p \<longrightarrow> proc_ok q \<and> (state p \<noteq> NEW \<longrightarrow> state q \<noteq> NEW))"

definition other_ok :: "(string \<Rightarrow> handler) \<Rightarrow> bool" where
  "other_ok other \<longleftrightarrow> (\<forall>n p d q. other n p d = Inr q \<longrightarrow> sound p q)"

lemma sound_refl [simp]: "sound p p" "stays p p"
  by (simp_all add: sound_def stays_def)

lemma sound_trans: "sound p q \<Longrightarrow> sound q r \<Longrightarrow> sound p r"
  by (auto simp: sound_def)

lemma stays_trans: "stays p q \<Longrightarrow> stays q r \<Longrightarrow> stays p r"
  by (auto simp: stays_def)

lemma sound_stays: "sound p q \<Longrightarrow> stays p q"
  by (auto simp: sound_def stays_def)

lemma sound_step: "step_ok p q \<Longrightarrow> sound p q"
  by (auto simp: step_ok_def sound_def keeps_def falls_def)

lemma leads_sound: "leads rt g p (Inr y) \<Longrightarrow> sound p (g y)"
  by (simp add: leads_def sound_step)

lemma sound_fields [simp]:
  "sound p (spend q) = sound p q" "sound p (q\<lparr>decoded_ptr := i\<rparr>) = sound p q" "stays p (spend q) = stays p q"
  by (simp_all add: sound_def stays_def spend_def proc_ok_def)

lemma fsm_not_new: "s \<noteq> NEW \<Longrightarrow> fsm_next s e \<noteq> NEW"
  by (cases s; cases e) simp_all

lemma sound_decode: "decode_instruction p = Inr q \<Longrightarrow> sound p q"
  using fetched_decode [of p q] fetchedD(2) [of p q] by (simp add: sound_def)

lemma stays_on_event:
  assumes "on_event e p = Inr q"
  shows "stays p q"
proof -
  have upd: "stays p (q\<lparr>state := fsm_next (state p) e\<rparr>)" if "stays p q" for q
    using that fsm_not_new [of "state p" e] by (auto simp: stays_def proc_ok_def)
  show ?thesis
    using assms sound_stays [OF sound_decode, of p]
    by (auto simp: on_event_def Let_def rbind_def split: if_splits sum.splits intro!: upd)
qed

lemma sound_run_exec:
  assumes "other_ok other" "run_exec other rt n p d = Inr q"
  shows "sound p q"
proof (cases "plain rt (Some n)")
  case True
  then show ?thesis using leads_run_exec [OF True, of p other d] assms(2) leads_sound [of rt "\<lambda>q. q"] by simp
next
  case False
  then consider "n = ''exec_instr_yield''" | "map_of (exec_alu_table rt @ exec_stack_table rt) n = None"
    unfolding map_of_eq_None_iff by (auto simp: plain_def image_Un)
  then show ?thesis
  proof cases
    case 1
    then have "q = p\<lparr>reductions_remaining := 0\<rparr>"
      using assms(2) by (simp add: run_exec_def exec_alu_table_def exec_stack_table_def exec_instr_yield_def)
    then show ?thesis by (simp add: sound_def proc_ok_def)
  next
    case 2
    then have "other n p d = Inr q" using assms(2) unfolding run_exec_def by (simp only: option.case)
    then show ?thesis using assms(1) by (auto simp: other_ok_def)
  qed
qed
lemma sound_advance: "advance p = Inr (e, q) \<Longrightarrow> sound p q"
  using leads_advance [of p p] leads_sound [of _ snd p "(e, q)"] by (simp add: step_ok_refl)

lemma sound_exec_advance:
  "other_ok other \<Longrightarrow> rbind (run_exec other rt n p d) advance = Inr (e, q) \<Longrightarrow> sound p q"
  by (auto simp: rbind_def split: sum.splits intro: sound_trans sound_run_exec sound_advance)

lemma sound_halt: "sound p (raise_event EVT_HALT p)"
  by (intro sound_step leads_intro)

lemma sound_slow: "other_ok other \<Longrightarrow> L_SLOW other rt p d = Inr (e, q) \<Longrightarrow> sound p q"
  by (auto simp: L_SLOW_def sound_halt split: option.splits intro: sound_exec_advance)

lemma sound_fast_step:
  assumes "other_ok other" "fast_step other rt p = Inr (e, q)"
  shows "sound p q"
proof -
  obtain d where d: "current_instr p = Inr d" using assms(2) by (cases "current_instr p") (auto simp: fast_step_def rbind_def)
  have inl: "sound p q" if "dispatch_table i = Some h" "h p d = Some (Inr q)" for i h q
    using leads_inlined [OF that, of rt] leads_sound [of rt "\<lambda>q. q"] by simp
  show ?thesis
    using assms(2) sound_slow [OF assms(1)] inl unfolding fast_step_def d
    by (auto simp: rbind_def split: option.splits sum.splits)
qed

lemma sound_execute:
  assumes "other_ok other" "execute_instruction other rt p = Inr (e, q)"
  shows "sound p q"
proof -
  obtain d where d: "current_instr p = Inr d"
    using assms(2) by (cases "current_instr p") (auto simp: execute_instruction_def rbind_def)
  show ?thesis
    using assms(2) sound_exec_advance [OF assms(1)] sound_halt unfolding execute_instruction_def d
    by (auto simp: rbind_def [of "Inr d"] split: option.splits)
qed

lemma stays_fsm_step: "run_fsm_step other rt p = Some r \<Longrightarrow> r = Inr q \<Longrightarrow> other_ok other \<Longrightarrow> stays p q"
proof (induction other rt p r rule: run_fsm_step.raw_induct [rotated, consumes 1])
  case (1 step other rt p r)
  have event: "stays p q" if "on_event e p = Inr p1" "step other rt p1 = Some r" for e p1
    using stays_on_event [OF that(1)] 1(1) [OF that(2)] 1(3,4) by (blast intro: stays_trans)
  have exec: "stays p q" if "rbind (execute_instruction other rt p) (\<lambda>(e, p1). on_event e p1) = Inr q"
  proof -
    from that obtain e p1 where "execute_instruction other rt p = Inr (e, p1)" "on_event e p1 = Inr q"
      by (auto simp: rbind_def split: sum.splits)
    then show ?thesis using sound_stays [OF sound_execute [OF 1(4)]] stays_on_event by (blast intro: stays_trans)
  qed
  show ?case
    using 1(2,3) event exec by (auto split: vm_state.splits sum.splits)
qed

text \<open>The ends of a quantum.\<close>

lemma fast_batch_ends:
  "fast_batch other rt p = Some r \<Longrightarrow> r = Inr (ex, q) \<Longrightarrow> other_ok other \<Longrightarrow>
     sound p q \<and> (case ex of Batch_end \<Rightarrow> reductions_remaining q = 0 | Batch_dead \<Rightarrow> state q \<in> {HALT, DEAD}
       | Batch_wait \<Rightarrow> state q \<notin> {HALT, DEAD})"
proof (induction other rt p r rule: fast_batch.raw_induct [rotated, consumes 1])
  case (1 batch other rt p r)
  have step: "sound p p1" if "rbind (next_dispatch p) (fast_step other rt) = Inr (e, p1)" for e p1
  proof -
    from that obtain p0 where p0: "next_dispatch p = Inr p0" "fast_step other rt p0 = Inr (e, p1)"
      by (auto simp: rbind_def split: sum.splits)
    have "sound p p0" using p0(1) sound_decode by (auto simp: next_dispatch_def Let_def split: if_splits)
    then show ?thesis using sound_fast_step [OF 1(4) p0(2)] by (rule sound_trans)
  qed
  show ?case
  proof (cases "rbind (next_dispatch p) (fast_step other rt)")
    case (Inl x)
    then show ?thesis using 1(2,3) by simp
  next
    case (Inr y)
    obtain e p1 where y: "y = (e, p1)" by (cases y)
    have s: "sound p (spend p1)" using step Inr y by simp
    show ?thesis
    proof (cases "e = EVT_EXEC_DONE \<and> reductions_remaining (spend p1) \<noteq> 0")
      case True
      then have "batch other rt (spend p1) = Some r" using 1(2) Inr y by simp
      then show ?thesis using 1(1) 1(3,4) s by (blast intro: sound_trans)
    next
      case False
      then show ?thesis using 1(2,3) Inr y s by (auto simp: Let_def split: if_splits)
    qed
  qed
qed

lemma slow_quantum_ends:
  "slow_quantum other rt p = Some r \<Longrightarrow> r = Inr (ex, q) \<Longrightarrow> other_ok other \<Longrightarrow> state p \<notin> {HALT, DEAD, WAIT_IO, BLOCKED} \<Longrightarrow>
     stays p q \<and> (case ex of Batch_end \<Rightarrow> reductions_remaining q = 0 \<and> state q \<notin> {HALT, DEAD, WAIT_IO, BLOCKED}
       | Batch_dead \<Rightarrow> state q \<in> {HALT, DEAD} | Batch_wait \<Rightarrow> state q \<in> {WAIT_IO, BLOCKED})"
proof (induction other rt p r rule: slow_quantum.raw_induct [rotated, consumes 1])
  case (1 quantum other rt p r)
  show ?case
  proof (cases "reductions_remaining p = 0")
    case True
    then show ?thesis using 1(2-) by auto
  next
    case False
    then obtain r1 where r1: "run_fsm_step other rt p = Some r1" using 1(2) by (auto split: option.splits)
    show ?thesis
    proof (cases r1)
      case (Inl x)
      then show ?thesis using 1(2,3) False r1 by simp
    next
      case (Inr p1)
      have s: "stays p (spend p1)" using stays_fsm_step [OF r1 Inr 1(4)] by simp
      show ?thesis
      proof (cases "state (spend p1) \<in> {HALT, DEAD, WAIT_IO, BLOCKED}")
        case True
        then show ?thesis using 1(2,3) False r1 Inr s by (auto simp: Let_def split: if_splits)
      next
        case act: False
        then have "quantum other rt (spend p1) = Some r" using 1(2) False r1 Inr by (simp add: Let_def)
        then show ?thesis using 1(1) 1(3,4) s act by (blast intro: stays_trans)
      qed
    qed
  qed
qed

end
