(* ===== verification/Vm_Rounds.thy ===== *)
theory Vm_Rounds
  imports Vm_Sched
begin

text \<open>
  The invariant of a scheduler: its index, its vector of processes, its queue and its counter of live
  processes agree.  Creation, activation, loading, rounds and the removal of a process that is not
  queued keep it, but for the counter, which counts a process for ever when a batch without hooks ends on
  it dead; the removal of a queued process does not keep it.
\<close>

section \<open>The invariant of the scheduler\<close>

definition alive :: "PCB \<Rightarrow> bool" where
  "alive c \<longleftrightarrow> state_of c \<notin> {NEW, DEAD, HALT}"

definition alive_set :: "Scheduler \<Rightarrow> u64 set" where
  "alive_set s = {a. \<exists>c. objects s a = Some c \<and> alive c}"

text \<open>The states of a process that no scheduler is running.\<close>

definition settled :: "vm_state \<Rightarrow> bool" where
  "settled st \<longleftrightarrow> st \<in> {NEW, READY, WAIT_IO, BLOCKED, HALT, DEAD}"

text \<open>
  The objects are the processes of the vector, found by their identifiers; each is well-formed and
  settled; the queue holds each ready process once, but for those of \<open>X\<close>, which a round has taken out;
  and the counter is the number of processes that have started and not ended.
\<close>

definition sched_inv :: "u64 set \<Rightarrow> Scheduler \<Rightarrow> bool" where
  "sched_inv X s \<longleftrightarrow> distinct (processes s) \<and> dom (objects s) = set (processes s) \<and>
     (\<forall>n a. pid_index s n = Some a \<longleftrightarrow> (\<exists>c. objects s a = Some c \<and> pid c = n)) \<and>
     (\<forall>a c. objects s a = Some c \<longrightarrow> proc_ok (vm c) \<and> settled (state_of c) \<and>
        scheduler_id (pid c) = id_scheduler s \<and> local_pid (pid c) < next_pid s) \<and>
     distinct (ready_queue s) \<and>
     (\<forall>a. a \<in> set (ready_queue s) \<longleftrightarrow> a \<notin> X \<and> (\<exists>c. objects s a = Some c \<and> state_of c = READY)) \<and>
     alive_count s = of_nat (card (alive_set s))"

abbreviation sched_ok :: "Scheduler \<Rightarrow> bool" where
  "sched_ok \<equiv> sched_inv {}"

lemma alive_set_finite: "sched_inv X s \<Longrightarrow> finite (alive_set s)"
proof -
  assume "sched_inv X s"
  then have "finite (dom (objects s))" by (simp add: sched_inv_def)
  moreover have "alive_set s \<subseteq> dom (objects s)" by (auto simp: alive_set_def)
  ultimately show ?thesis by (rule rev_finite_subset)
qed

lemma alive_set_put:
  "alive_set (put_object a c s) = (if alive c then insert a (alive_set s) else alive_set s - {a})"
  by (auto simp: alive_set_def put_object_def)

text \<open>The change of the counter when a process changes from \<open>c\<close> to \<open>c'\<close>.\<close>

definition count_change :: "PCB \<Rightarrow> PCB \<Rightarrow> u32" where
  "count_change c c' = (if alive c' = alive c then 0 else if alive c' then 1 else - 1)"

lemma count_put:
  assumes "finite (alive_set s)" "objects s a = Some c"
  shows "of_nat (card (alive_set (put_object a c' s))) = (of_nat (card (alive_set s)) + count_change c c' :: u32)"
proof -
  have a: "a \<in> alive_set s \<longleftrightarrow> alive c" using assms(2) by (simp add: alive_set_def)
  show ?thesis
  proof (cases "alive c")
    case True
    then have "0 < card (alive_set s)" using a assms(1) card_gt_0_iff by blast
    then have "(of_nat (card (alive_set s) - 1) :: u32) = of_nat (card (alive_set s)) - 1" by simp
    then show ?thesis using True a assms(1) by (simp add: alive_set_put count_change_def insert_absorb)
  next
    case False
    then show ?thesis using a assms(1) by (simp add: alive_set_put count_change_def add.commute)
  qed
qed

lemma sched_put:
  assumes "sched_inv {a} s" "objects s a = Some c" "pid c' = pid c" "proc_ok (vm c')" "settled (state_of c')"
  defines "s' \<equiv> (put_object a c' s)\<lparr>alive_count := alive_count s + count_change c c'\<rparr>"
  shows "sched_ok (if state_of c' = READY then push_back a s' else s')"
proof -
  have cnt: "alive_count s + count_change c c' = of_nat (card (alive_set (put_object a c' s)))"
    using count_put [OF alive_set_finite [OF assms(1)] assms(2)] assms(1) by (simp add: sched_inv_def)
  have as: "alive_set (x\<lparr>alive_count := n\<rparr>) = alive_set x" "alive_set (push_back b x) = alive_set x" for x n b
    by (simp_all add: alive_set_def push_back_def)
  have a: "a \<in> set (processes s)" using assms(1,2) by (auto simp: sched_inv_def)
  have inv: "sched_inv {} s'" if "state_of c' \<noteq> READY"
    using assms(1-5) that a unfolding sched_inv_def s'_def as cnt
    by (simp add: put_object_def insert_absorb)
  have push: "sched_inv {} (push_back a s')" if "state_of c' = READY"
    using assms(1-5) that a unfolding sched_inv_def s'_def as cnt
    by (simp add: put_object_def push_back_def insert_absorb)
  show ?thesis using inv push by simp
qed
lemma sched_take:
  assumes "sched_ok s" "ready_queue s = a # q"
  obtains c where "objects s a = Some c" "state_of c = READY" "sched_inv {a} (s\<lparr>ready_queue := q\<rparr>)"
proof -
  have "a \<in> set (ready_queue s)" by (simp add: assms(2))
  then obtain c where c: "objects s a = Some c" "state_of c = READY" using assms(1) unfolding sched_inv_def by blast
  have q: "b \<in> set q \<longleftrightarrow> b \<noteq> a \<and> (\<exists>c. objects s b = Some c \<and> state_of c = READY)" for b
  proof -
    have "b \<in> set (ready_queue s) \<longleftrightarrow> (\<exists>c. objects s b = Some c \<and> state_of c = READY)" "distinct (ready_queue s)"
      using assms(1) unfolding sched_inv_def by simp_all
    then show ?thesis unfolding assms(2) by auto
  qed
  have "distinct q" using assms unfolding sched_inv_def by simp
  moreover have "alive_set (s\<lparr>ready_queue := q\<rparr>) = alive_set s" by (simp add: alive_set_def)
  ultimately have "sched_inv {a} (s\<lparr>ready_queue := q\<rparr>)"
    using assms(1) q unfolding sched_inv_def by simp
  then show thesis using c that by blast
qed

lemma sched_idle:
  assumes "sched_ok s" "objects s a = Some c" "state_of c \<noteq> READY"
  shows "sched_inv {a} s"
  using assms unfolding sched_inv_def by auto

text \<open>Updates that keep the state of the process they touch.\<close>

lemma sched_put_same:
  assumes "sched_inv X s" "objects s a = Some c" "pid c' = pid c" "proc_ok (vm c')" "state_of c' = state_of c"
  shows "sched_inv X (put_object a c' s)"
proof -
  have "alive_set (put_object a c' s) = alive_set s"
    using assms(2,5) by (auto simp: alive_set_def put_object_def alive_def)
  then show ?thesis
    using assms unfolding sched_inv_def
    by (simp add: put_object_def) (metis domI insert_absorb option.inject)
qed

lemma sched_instance [simp]: "sched_inv X (s\<lparr>cur_instance := a\<rparr>) = sched_inv X s"
  by (simp add: sched_inv_def alive_set_def)

lemma object_at_Inr [simp]: "object_at s a = Inr c \<longleftrightarrow> objects s a = Some c"
  by (simp add: object_at_def split: option.splits)

lemma new_Scheduler_ok: "sched_ok (new_Scheduler n)"
  by (simp add: sched_inv_def new_Scheduler_def alive_set_def)

lemma proc_ok_new: "proc_ok (new_ProcessVM h)"
  by (simp add: proc_ok_def new_ProcessVM_def new_DecodedInstr_def new_FrameHeader_def)

lemma word_succ_less: "(x :: u64) \<noteq> - 1 \<Longrightarrow> x < x + 1"
proof -
  assume "x \<noteq> - 1"
  then have "1 + x \<noteq> 0" by (simp add: eq_neg_iff_add_eq_0 add.commute)
  then have "unat (1 + x) = Suc (unat x)" by (rule unatSuc)
  then show ?thesis by (simp add: word_less_nat_alt add.commute)
qed

lemma new_state: "state (new_ProcessVM h) = NEW"
  by (simp add: new_ProcessVM_def)

lemma spawn_ok:
  assumes "sched_ok s" "objects s a = None" "next_pid s \<noteq> - 1"
  shows "sched_ok (snd (spawn a h s))"
proof -
  let ?n = "\<lparr>scheduler_id = id_scheduler s, local_pid = next_pid s\<rparr>"
  let ?c = "\<lparr>pid = ?n, vm = new_ProcessVM h, wake_pending = False\<rparr>"
  have lt: "next_pid s < next_pid s + 1" "x < next_pid s \<Longrightarrow> x < next_pid s + 1" for x
    using word_succ_less [OF assms(3)] by simp_all
  have np: "pid c \<noteq> ?n" if "objects s b = Some c" for b c
    using that assms(1) unfolding sched_inv_def by (metis GlobalPID.select_convs(2) less_irrefl)
  then have n: "pid_index s ?n = None" using assms(1) unfolding sched_inv_def by (metis not_Some_eq)
  have fresh: "a \<notin> set (processes s)" "a \<notin> set (ready_queue s)"
    using assms(1,2) unfolding sched_inv_def by auto
  have "alive_set (snd (spawn a h s)) = alive_set s"
    using assms(2) new_state [of h] by (auto simp: alive_set_def spawn_def Let_def alive_def)
  then show ?thesis
    using assms(1,2) n np fresh new_state [of h] proc_ok_new [of h] lt unfolding sched_inv_def
    by (simp add: spawn_def Let_def settled_def)
qed
lemma pid_index_object:
  assumes "sched_inv X s" "pid_index s n = Some a"
  obtains c where "objects s a = Some c" "pid c = n" "proc_ok (vm c)" "settled (state_of c)"
  using assms unfolding sched_inv_def by blast

lemma proc_ok_state [simp]: "proc_ok (p\<lparr>state := st\<rparr>) = proc_ok p" "proc_ok (p\<lparr>reductions_remaining := r\<rparr>) = proc_ok p"
  by (simp_all add: proc_ok_def)

lemma make_ready_ok:
  assumes "sched_ok s" "pid_index s n = Some a"
  shows "\<exists>s' c. make_ready n s = Inr s' \<and> sched_ok s' \<and> objects s' a = Some c \<and> state_of c = READY"
proof -
  obtain c where c: "objects s a = Some c" "pid c = n" "proc_ok (vm c)" "settled (state_of c)"
    by (rule pid_index_object [OF assms])
  let ?c1 = "c\<lparr>wake_pending := True\<rparr>" and ?c2 = "(with_state READY (c\<lparr>wake_pending := True\<rparr>))\<lparr>wake_pending := False\<rparr>"
  show ?thesis
  proof (cases "state_of c = READY")
    case True
    have "sched_ok (put_object a ?c1 s)" by (rule sched_put_same [OF assms(1) c(1)]) (use c in simp_all)
    moreover have "make_ready n s = Inr (put_object a ?c1 s)"
      using assms(2) c(1) True by (simp add: make_ready_def object_at_def rbind_def)
    ultimately show ?thesis using True by (simp add: put_object_def)
  next
    case False
    let ?s = "(put_object a ?c2 s)\<lparr>alive_count := alive_count s + count_change c ?c2\<rparr>"
    have ok: "sched_ok (push_back a ?s)"
      using sched_put [OF sched_idle [OF assms(1) c(1) False] c(1), of ?c2] c(3)
      by (simp add: with_state_def settled_def)
    have "make_ready n s = Inr (push_back a ?s)"
      using assms(2) c(1,4) False
      by (auto simp: make_ready_def object_at_def rbind_def with_state_def count_change_def alive_def settled_def
          put_object_def)
    then show ?thesis using ok by (simp add: push_back_def put_object_def with_state_def)
  qed
qed

lemma swap_and_pop_set:
  "a \<in> set xs \<Longrightarrow> distinct xs \<Longrightarrow> set (swap_and_pop a xs) = set xs - {a} \<and> distinct (swap_and_pop a xs)"
proof (induction xs)
  case (Cons x xs)
  show ?case
  proof (cases "x = a")
    case True
    then show ?thesis
    proof (cases "xs = []")
      case False
      then obtain ys y where xs: "xs = ys @ [y]" by (cases xs rule: rev_cases) auto
      then show ?thesis using Cons.prems True by auto
    qed simp
  next
    case False
    then show ?thesis using Cons by auto
  qed
qed simp

lemma kill_removes:
  assumes "sched_inv X s" "pid_index s n = Some a" "objects s a = Some c"
  shows "kill n s = Inr (s\<lparr>alive_count := (if alive c then alive_count s - 1 else alive_count s),
    pid_index := (pid_index s)(n := None), processes := swap_and_pop a (processes s), objects := (objects s)(a := None)\<rparr>)"
proof -
  have "a \<in> set (processes s)" using assms(1,3) by (auto simp: sched_inv_def)
  then show ?thesis using assms(2,3) by (auto simp: kill_def object_at_def rbind_def Let_def alive_def)
qed

lemma kill_ok:
  assumes "sched_ok s" "pid_index s n = Some a" "a \<notin> set (ready_queue s)"
  shows "\<exists>s'. kill n s = Inr s' \<and> sched_ok s' \<and> objects s' a = None \<and> pid_index s' n = None"
proof -
  obtain c where c: "objects s a = Some c" "pid c = n" by (rule pid_index_object [OF assms(1,2)])
  obtain s' where s': "kill n s = Inr s'" "s' = s\<lparr>alive_count := (if alive c then alive_count s - 1 else alive_count s),
    pid_index := (pid_index s)(n := None), processes := swap_and_pop a (processes s), objects := (objects s)(a := None)\<rparr>"
    using kill_removes [OF assms(1,2) c(1)] by blast
  have as: "alive_set s' = alive_set s - {a}" by (auto simp: alive_set_def s'(2))
  have a: "a \<in> alive_set s \<longleftrightarrow> alive c" using c(1) by (simp add: alive_set_def)
  have "0 < card (alive_set s)" if "alive c"
    using a that alive_set_finite [OF assms(1)] card_gt_0_iff by blast
  then have cnt: "alive_count s' = of_nat (card (alive_set s'))"
    unfolding as using a assms(1) by (auto simp: s'(2) sched_inv_def)
  have pr: "set (swap_and_pop a (processes s)) = set (processes s) - {a}" "distinct (swap_and_pop a (processes s))"
    using swap_and_pop_set [of a "processes s"] assms(1) c(1) by (auto simp: sched_inv_def)
  have idx: "pid_index s m = Some b \<longleftrightarrow> (\<exists>c. objects s b = Some c \<and> pid c = m)" for m b
    using assms(1) unfolding sched_inv_def by blast
  have only: "b = a" if "objects s b = Some e" "pid e = n" for b e
  proof -
    have "pid_index s n = Some b" using that idx by blast
    then show ?thesis using assms(2) by simp
  qed
  have index: "pid_index s' m = Some b \<longleftrightarrow> (\<exists>e. objects s' b = Some e \<and> pid e = m)" for m b
  proof (cases "m = n")
    case True
    then show ?thesis using only [of b] by (auto simp: s'(2))
  next
    case False
    then show ?thesis using idx [of m b] c by (cases "b = a") (simp_all add: s'(2))
  qed
  have fields: "processes s' = swap_and_pop a (processes s)" "objects s' = (objects s)(a := None)"
      "ready_queue s' = ready_queue s" "id_scheduler s' = id_scheduler s" "next_pid s' = next_pid s"
    by (simp_all add: s'(2))
  have "b \<in> set (ready_queue s) \<longleftrightarrow> (\<exists>e. objects s' b = Some e \<and> state_of e = READY)" for b
    using assms(1,3) unfolding sched_inv_def fields(2) by auto
  moreover have "dom (objects s') = set (processes s')"
    using assms(1) pr(1) unfolding sched_inv_def fields by auto
  ultimately have "sched_ok s'"
    using assms(1) cnt pr(2) index unfolding sched_inv_def fields(1,3-5) by (simp add: fields(2))
  then show ?thesis using s' by simp
qed
section \<open>Rounds\<close>

lemma on_yield: "on_event EVT_YIELD p = Inr (p\<lparr>state := fsm_next (state p) EVT_YIELD\<rparr>)"
  by (simp add: on_event_def Let_def fsm_decode_action rbind_def)

definition ends_well :: "bool \<Rightarrow> batch_exit \<Rightarrow> ProcessVM \<Rightarrow> bool" where
  "ends_well hooks ex p \<longleftrightarrow>
     (case ex of Batch_dead \<Rightarrow> state p \<in> {HALT, DEAD}
      | Batch_wait \<Rightarrow> state p \<in> {WAIT_IO, BLOCKED} \<or> \<not> hooks \<and> state p = EXECUTE
      | Batch_end \<Rightarrow> reductions_remaining p = 0 \<and> state p \<notin> {NEW, HALT, DEAD})"

lemma put_count_same: "(put_object a c s)\<lparr>alive_count := alive_count s\<rparr> = put_object a c s"
  by (simp add: put_object_def)

lemma sched_put_alive:
  assumes "sched_inv {a} s" "objects s a = Some c" "pid c' = pid c" "proc_ok (vm c')" "settled (state_of c')" "alive c" "alive c'"
  shows "sched_ok (if state_of c' = READY then push_back a (put_object a c' s) else put_object a c' s)"
proof -
  have "count_change c c' = 0" using assms(6,7) by (simp add: count_change_def)
  with sched_put [OF assms(1-5)] show ?thesis by (simp only: add_0_right put_count_same)
qed

lemma end_quantum_ok:
  assumes s: "sched_inv {a} s" "objects s a = Some c" "alive c" "pid c' = pid c" "proc_ok (vm c')"
    and e: "ends_well hooks ex (vm c')" "end_quantum hooks a ex c' s = Inr s'"
  shows "sched_ok s'"
proof (cases ex)
  case Batch_dead
  then have st: "state_of c' \<in> {HALT, DEAD}" using e(1) by (simp add: ends_well_def)
  then have "count_change c c' = - 1" "settled (state_of c')" "state_of c' \<noteq> READY"
    using s(3) by (auto simp: count_change_def alive_def settled_def)
  then have "sched_ok ((put_object a c' s)\<lparr>alive_count := alive_count s - 1\<rparr>)"
    using sched_put [OF s(1,2,4,5)] by simp
  moreover have "s' = (put_object a c' s)\<lparr>alive_count := alive_count s - 1\<rparr>\<lparr>cur_instance := 0\<rparr>"
    using e(2) Batch_dead by (simp add: end_quantum_def)
  ultimately show ?thesis by (simp only: sched_instance)
next
  case Batch_wait
  let ?c1 = "if \<not> hooks \<and> state_of c' = EXECUTE then with_state WAIT_IO c' else c'"
  have st: "state_of ?c1 \<in> {WAIT_IO, BLOCKED}" using e(1) Batch_wait by (auto simp: ends_well_def with_state_def)
  have put: "sched_ok (if state_of d = READY then push_back a (put_object a d s) else put_object a d s)"
    if "pid d = pid c" "proc_ok (vm d)" "state_of d \<in> {READY, WAIT_IO, BLOCKED}" for d
    by (rule sched_put_alive [OF s(1,2) that(1,2) _ s(3)]) (use that(3) in \<open>auto simp: settled_def alive_def\<close>)
  have keep: "sched_ok (put_object a d s)" if "pid d = pid c" "proc_ok (vm d)" "state_of d \<in> {WAIT_IO, BLOCKED}" for d
    using put [of d] that by auto
  have wake: "sched_ok (push_back a (put_object a d s))" if "pid d = pid c" "proc_ok (vm d)" "state_of d = READY" for d
    using put [of d] that by simp
  have c1: "pid ?c1 = pid c" "proc_ok (vm ?c1)" using s(4,5) by (simp_all add: with_state_def)
  have "sched_ok (fall_asleep hooks a c' s)"
    unfolding fall_asleep_def Let_def using c1 st
    by (auto simp: with_state_def intro!: keep wake split del: if_split split: if_split)
  then show ?thesis using e(2) Batch_wait by (auto simp: end_quantum_def)
next
  case Batch_end
  let ?d = "c'\<lparr>vm := (vm c')\<lparr>state := fsm_next (state_of c') EVT_YIELD\<rparr>\<rparr>"
  have st: "state_of c' \<notin> {NEW, HALT, DEAD}" "reductions_remaining (vm c') = 0"
    using e(1) Batch_end by (simp_all add: ends_well_def)
  then have "alive ?d" "settled (state_of ?d)"
    by (cases "state_of c'"; simp add: alive_def settled_def)+
  then have "sched_ok (if state_of ?d = READY then push_back a (put_object a ?d s) else put_object a ?d s)"
    by (intro sched_put_alive [OF s(1,2) _ _ _ s(3)]) (use s(4,5) in simp_all)
  moreover have "s' = (if state_of ?d = READY then push_back a (put_object a ?d s) else put_object a ?d s)"
    using e(2) Batch_end st(2) by (simp add: end_quantum_def on_yield rbind_def Let_def)
  ultimately show ?thesis by (simp only:)
qed

lemma round_start:
  assumes "sched_ok s" "ready_queue s = a # q"
  obtains c s1 where "objects s a = Some c" "state_of c = READY" "proc_ok (vm c)"
    "schedule_next s = Inr (Some a, s1)" "sched_inv {a} s1" "alive_count s1 = alive_count s" "ready_queue s1 = q"
    "objects s1 = (objects s)(a \<mapsto> c\<lparr>vm := (vm c)\<lparr>reductions_remaining := reductions_remaining_default\<rparr>\<rparr>)"
    "processes s1 = processes s" "pid_index s1 = pid_index s"
proof -
  obtain c where c: "objects s a = Some c" "state_of c = READY" "sched_inv {a} (s\<lparr>ready_queue := q\<rparr>)"
    by (rule sched_take [OF assms])
  let ?c = "c\<lparr>vm := (vm c)\<lparr>reductions_remaining := reductions_remaining_default\<rparr>\<rparr>"
  let ?s1 = "(put_object a ?c s)\<lparr>ready_queue := q, cur_instance := a\<rparr>"
  have ok: "proc_ok (vm c)" using c(1) assms(1) unfolding sched_inv_def by blast
  have "?s1 = (put_object a ?c (s\<lparr>ready_queue := q\<rparr>))\<lparr>cur_instance := a\<rparr>" by (simp add: put_object_def)
  moreover have "sched_inv {a} (put_object a ?c (s\<lparr>ready_queue := q\<rparr>))"
    by (rule sched_put_same [OF c(3), of a c]) (use c(1) ok in simp_all)
  ultimately have "sched_inv {a} ?s1" by (simp only: sched_instance)
  moreover have "schedule_next s = Inr (Some a, ?s1)"
    using c(1) by (simp add: schedule_next_def assms(2) object_at_def rbind_def)
  ultimately show thesis using that [of c ?s1] c(1,2) ok by (simp add: put_object_def)
qed

text \<open>A batch that ends at the label with a process that has halted or died.\<close>

definition silent_death :: "(string \<Rightarrow> handler) \<Rightarrow> Runtime \<Rightarrow> Scheduler \<Rightarrow> bool" where
  "silent_death other rt s \<longleftrightarrow>
     (case ready_queue s of [] \<Rightarrow> False
      | a # q \<Rightarrow> (case objects s a of None \<Rightarrow> False
         | Some c \<Rightarrow> (case fast_quantum other rt ((vm c)\<lparr>reductions_remaining := reductions_remaining_default\<rparr>) of
              Some (Inr (Batch_end, p)) \<Rightarrow> state p \<in> {HALT, DEAD} | _ \<Rightarrow> False)))"

lemma run_round_eq:
  assumes "schedule_next s = Inr (Some a, s1)" "objects s1 a = Some c"
  shows "run_round hooks other rt s = map_option (\<lambda>r. rbind r (\<lambda>(ex, p).
      rbind (end_quantum hooks a ex (c\<lparr>vm := p\<rparr>) s1) (\<lambda>s2. Inr (True, s2))))
    (if hooks then slow_quantum other rt (vm c) else fast_quantum other rt (vm c))"
  using assms(2) by (simp add: run_round_def assms(1) object_at_def)

lemma round_quantum:
  assumes "schedule_next s = Inr (Some a, s1)" "objects s1 a = Some c"
  shows "run_round hooks other rt s = Some (Inr (b, s')) \<longleftrightarrow>
    b \<and> (\<exists>ex p. (if hooks then slow_quantum other rt (vm c) else fast_quantum other rt (vm c)) = Some (Inr (ex, p)) \<and>
      end_quantum hooks a ex (c\<lparr>vm := p\<rparr>) s1 = Inr s')"
proof -
  have bind: "rbind r (\<lambda>(ex, p). rbind (end_quantum hooks a ex (c\<lparr>vm := p\<rparr>) s1) (\<lambda>s2. Inr (True, s2))) = Inr (b, s') \<longleftrightarrow>
      b \<and> (\<exists>ex p. r = Inr (ex, p) \<and> end_quantum hooks a ex (c\<lparr>vm := p\<rparr>) s1 = Inr s')" for r
    by (auto simp: rbind_def split: sum.splits)
  show ?thesis unfolding run_round_eq [OF assms] map_option_eq_Some bind by blast
qed

lemma run_round_ok:
  assumes "sched_ok s" "other_ok other" "run_round hooks other rt s = Some (Inr (b, s'))" "hooks \<or> \<not> silent_death other rt s"
  shows "sched_ok s'"
proof (cases "ready_queue s")
  case Nil
  then show ?thesis using assms(1,3) by (simp add: run_round_def schedule_next_def)
next
  case (Cons a q)
  obtain c s1 where c: "objects s a = Some c" "state_of c = READY" "proc_ok (vm c)"
    "schedule_next s = Inr (Some a, s1)" "sched_inv {a} s1" "alive_count s1 = alive_count s" "ready_queue s1 = q"
    "objects s1 = (objects s)(a \<mapsto> c\<lparr>vm := (vm c)\<lparr>reductions_remaining := reductions_remaining_default\<rparr>\<rparr>)"
    "processes s1 = processes s" "pid_index s1 = pid_index s"
    by (rule round_start [OF assms(1) Cons])
  let ?c = "c\<lparr>vm := (vm c)\<lparr>reductions_remaining := reductions_remaining_default\<rparr>\<rparr>"
  have o: "objects s1 a = Some ?c" by (simp add: c(8))
  obtain ex p where r: "(if hooks then slow_quantum other rt (vm ?c) else fast_quantum other rt (vm ?c)) = Some (Inr (ex, p))"
      "end_quantum hooks a ex (?c\<lparr>vm := p\<rparr>) s1 = Inr s'"
    using assms(3) unfolding round_quantum [OF c(4) o] by blast
  have ok: "proc_ok (vm ?c)" "alive ?c" using c(2,3) by (simp_all add: alive_def)
  have "proc_ok p \<and> ends_well hooks ex p"
  proof (cases hooks)
    case True
    then have sq: "slow_quantum other rt (vm ?c) = Some (Inr (ex, p))" using r(1) by simp
    show ?thesis
      using slow_quantum_ends [OF sq refl assms(2)] c(2) ok True
      by (auto simp: stays_def ends_well_def split: batch_exit.splits)
  next
    case False
    let ?p = "(vm ?c)\<lparr>state := EXECUTE\<rparr>"
    have fb: "fast_batch other rt ?p = Some (Inr (ex, p))"
      using r(1) False by (simp add: fast_quantum_def reductions_remaining_default_def)
    have "\<not> (ex = Batch_end \<and> state p \<in> {HALT, DEAD})"
      using assms(4) False r(1) c(1) Cons by (auto simp: silent_death_def)
    then show ?thesis
      using fast_batch_ends [OF fb refl assms(2)] ok False
      by (auto simp: sound_def ends_well_def split: batch_exit.splits)
  qed
  then show ?thesis using end_quantum_ok [OF c(5) o ok(2) _ _ _ r(2)] by simp
qed
text \<open>The round of a silent death: the process leaves the queue, and the counter stays.\<close>

lemma silent_round:
  assumes "sched_ok s" "other_ok other" "silent_death other rt s"
  obtains a q c d s1 where "ready_queue s = a # q" "objects s a = Some c" "state_of c = READY"
    "sched_inv {a} s1" "alive_count s1 = alive_count s" "ready_queue s1 = q" "alive_set s1 = alive_set s"
    "run_round False other rt s = Some (Inr (True, put_object a d s1))" "state_of d \<in> {HALT, DEAD}"
    "sched_ok ((put_object a d s1)\<lparr>alive_count := alive_count s1 - 1\<rparr>)"
proof -
  obtain a q where q: "ready_queue s = a # q" using assms(3) by (auto simp: silent_death_def split: list.splits)
  obtain c s1 where c: "objects s a = Some c" "state_of c = READY" "proc_ok (vm c)"
    "schedule_next s = Inr (Some a, s1)" "sched_inv {a} s1" "alive_count s1 = alive_count s" "ready_queue s1 = q"
    "objects s1 = (objects s)(a \<mapsto> c\<lparr>vm := (vm c)\<lparr>reductions_remaining := reductions_remaining_default\<rparr>\<rparr>)"
    "processes s1 = processes s" "pid_index s1 = pid_index s"
    by (rule round_start [OF assms(1) q])
  let ?c = "c\<lparr>vm := (vm c)\<lparr>reductions_remaining := reductions_remaining_default\<rparr>\<rparr>"
  have o: "objects s1 a = Some ?c" by (simp add: c(8))
  obtain p where p: "fast_quantum other rt (vm ?c) = Some (Inr (Batch_end, p))" "state p \<in> {HALT, DEAD}"
    using assms(3) q c(1)
    by (auto simp: silent_death_def split: option.splits sum.splits prod.splits batch_exit.splits)
  have "fast_batch other rt ((vm ?c)\<lparr>state := EXECUTE\<rparr>) = Some (Inr (Batch_end, p))"
    using p(1) by (simp add: fast_quantum_def reductions_remaining_default_def)
  then have end_: "reductions_remaining p = 0" "sound ((vm ?c)\<lparr>state := EXECUTE\<rparr>) p"
    using fast_batch_ends [OF _ refl assms(2)] by fastforce+
  let ?d = "?c\<lparr>vm := p\<rparr>"
  have y: "fsm_next (state p) EVT_YIELD = state p" using p(2) by auto
  have "end_quantum False a Batch_end ?d s1 = Inr (put_object a ?d s1)"
    using end_(1) p(2) y by (auto simp: end_quantum_def on_yield rbind_def Let_def)
  then have run: "run_round False other rt s = Some (Inr (True, put_object a ?d s1))"
    unfolding run_round_eq [OF c(4) o] using p(1) by (simp add: rbind_def)
  have al: "alive_set s1 = alive_set s" using c(1,8) by (auto simp: alive_set_def alive_def)
  have "count_change ?c ?d = - 1" "settled (state_of ?d)" "state_of ?d \<noteq> READY"
    using c(2) p(2) by (auto simp: count_change_def alive_def settled_def)
  moreover have "proc_ok (vm ?d)" using end_(2) c(3) by (simp add: sound_def)
  ultimately have "sched_ok ((put_object a ?d s1)\<lparr>alive_count := alive_count s1 - 1\<rparr>)"
    using sched_put [OF c(5) o, of ?d] by simp
  then show thesis using that [OF q c(1,2,5,6,7) al run] p(2) by simp
qed

section \<open>Miscounted processes\<close>

text \<open>
  The scheduler with a counter lower by \<open>k\<close>: no operation reads the counter, so the operations
  on the two schedulers go in step.
\<close>

definition uncount :: "nat \<Rightarrow> Scheduler \<Rightarrow> Scheduler" where
  "uncount k s = s\<lparr>alive_count := alive_count s - of_nat k\<rparr>"

lemma uncount_fields [simp]:
  "ready_queue (uncount k s) = ready_queue s" "objects (uncount k s) = objects s" "processes (uncount k s) = processes s"
  "pid_index (uncount k s) = pid_index s" "next_pid (uncount k s) = next_pid s" "uncount 0 s = s"
  "alive_count (uncount k s) = alive_count s - of_nat k" "alive_set (uncount k s) = alive_set s"
  "uncount j (uncount k s) = uncount (j + k) s"
  by (simp_all add: uncount_def alive_set_def algebra_simps)

lemma uncount_steps:
  "put_object a c (uncount k s) = uncount k (put_object a c s)" "push_back a (uncount k s) = uncount k (push_back a s)"
  "snd (spawn a h (uncount k s)) = uncount k (snd (spawn a h s))" "object_at (uncount k s) a = object_at s a"
  by (simp_all add: put_object_def push_back_def spawn_def object_at_def uncount_def Let_def)

lemma uncount_make_ready:
  assumes "make_ready n s = Inr s'"
  shows "make_ready n (uncount k s) = Inr (uncount k s')"
proof -
  obtain a c where c: "pid_index s n = Some a" "objects s a = Some c"
    using assms by (auto simp: make_ready_def object_at_def rbind_def split: option.splits)
  show ?thesis
    using assms c
    by (cases "state_of c")
      (auto simp: make_ready_def object_at_def rbind_def with_state_def put_object_def push_back_def uncount_def)
qed

lemma uncount_kill: "kill n s = Inr s' \<Longrightarrow> kill n (uncount k s) = Inr (uncount k s')"
  unfolding kill_def
  by (auto simp: object_at_def rbind_def Let_def uncount_def split: option.splits if_splits)

lemma uncount_end_quantum:
  "end_quantum hooks a ex c s = Inr s' \<Longrightarrow> end_quantum hooks a ex c (uncount k s) = Inr (uncount k s')"
  unfolding end_quantum_def fall_asleep_def
  by (cases ex; cases "on_event EVT_YIELD (vm c)")
    (simp_all add: rbind_def Let_def uncount_steps, auto simp: uncount_def put_object_def)

lemma uncount_next:
  "schedule_next s = Inr (x, s1) \<Longrightarrow> schedule_next (uncount k s) = Inr (x, uncount k s1)"
  by (auto simp: schedule_next_def object_at_def rbind_def put_object_def uncount_def
      split: list.splits option.splits)

lemma uncount_round:
  assumes "run_round hooks other rt s = Some (Inr (b, s'))"
  shows "run_round hooks other rt (uncount k s) = Some (Inr (b, uncount k s'))"
proof -
  obtain x s1 where x: "schedule_next s = Inr (x, s1)"
    using assms by (auto simp: run_round_def split: sum.splits)
  show ?thesis
  proof (cases x)
    case None
    then show ?thesis using assms uncount_next [OF x, of k] x by (simp add: run_round_def)
  next
    case (Some a)
    obtain c where c: "objects s1 a = Some c"
      using assms x Some by (auto simp: run_round_def object_at_def split: option.splits)
    have c': "objects (uncount k s1) a = Some c" using c by simp
    show ?thesis
      using assms uncount_end_quantum [of hooks a _ _ s1]
      unfolding round_quantum [OF x [unfolded Some] c] round_quantum [OF uncount_next [OF x [unfolded Some]] c']
      by blast
  qed
qed

lemma uncount_silent [simp]: "silent_death other rt (uncount k s) = silent_death other rt s"
  by (cases "ready_queue s") (simp_all add: silent_death_def)

section \<open>Reachable schedulers\<close>

text \<open>The schedulers that operations reach, with the number of silent deaths on the way.\<close>

inductive sched_reach :: "(string \<Rightarrow> handler) \<Rightarrow> Runtime \<Rightarrow> nat \<Rightarrow> Scheduler \<Rightarrow> bool" for other rt where
  reach_new: "sched_reach other rt 0 (new_Scheduler n)"
| reach_spawn: "sched_reach other rt k s \<Longrightarrow> objects s a = None \<Longrightarrow> next_pid s \<noteq> - 1 \<Longrightarrow>
    sched_reach other rt k (snd (spawn a h s))"
| reach_load: "sched_reach other rt k s \<Longrightarrow> objects s a = Some c \<Longrightarrow> load_raw_code (vm c) addr code = Inr p \<Longrightarrow>
    sched_reach other rt k (put_object a (c\<lparr>vm := p\<rparr>) s)"
| reach_ready: "sched_reach other rt k s \<Longrightarrow> make_ready n s = Inr s' \<Longrightarrow> sched_reach other rt k s'"
| reach_kill: "sched_reach other rt k s \<Longrightarrow> kill n s = Inr s' \<Longrightarrow>
    (\<And>a. pid_index s n = Some a \<Longrightarrow> a \<notin> set (ready_queue s)) \<Longrightarrow> sched_reach other rt k s'"
| reach_round: "sched_reach other rt k s \<Longrightarrow> run_round hooks other rt s = Some (Inr (b, s')) \<Longrightarrow>
    hooks \<or> \<not> silent_death other rt s \<Longrightarrow> sched_reach other rt k s'"
| reach_silent: "sched_reach other rt k s \<Longrightarrow> run_round False other rt s = Some (Inr (b, s')) \<Longrightarrow>
    silent_death other rt s \<Longrightarrow> sched_reach other rt (Suc k) s'"

lemma load_raw_code_keeps:
  assumes "load_raw_code q addr code = Inr p"
  shows "state p = state q" "proc_ok p = proc_ok q"
proof -
  obtain m where "p = set_rip addr (with_mem q m)"
    using assms by (auto simp: load_raw_code_def rbind_def of_loop_def split: sum.splits option.splits)
  then show "state p = state q" "proc_ok p = proc_ok q"
    by (simp_all add: set_rip_def upd_regs_def with_mem_def proc_ok_def)
qed

lemma sched_reach_ok:
  assumes "other_ok other"
  shows "sched_reach other rt k s \<Longrightarrow> sched_ok (uncount k s)"
proof (induction rule: sched_reach.induct)
  case (reach_load k s a c addr code p)
  then have "proc_ok (vm c)" unfolding sched_inv_def by (metis uncount_fields(2))
  then have "sched_ok (put_object a (c\<lparr>vm := p\<rparr>) (uncount k s))"
    using load_raw_code_keeps [OF reach_load.hyps(3)] reach_load.IH reach_load.hyps(2)
    by (intro sched_put_same) simp_all
  then show ?case by (simp add: uncount_steps)
next
  case (reach_spawn k s a h)
  then show ?case using spawn_ok [of "uncount k s" a h] by (simp add: uncount_steps)
next
  case (reach_ready k s n s')
  then show ?case
    using make_ready_ok [of "uncount k s" n] uncount_make_ready [OF reach_ready.hyps(2), of k]
    by (cases "pid_index s n") (auto simp: make_ready_def)
next
  case (reach_kill k s n s')
  then show ?case
    using kill_ok [of "uncount k s" n] uncount_kill [OF reach_kill.hyps(2), of k]
    by (cases "pid_index s n") (auto simp: kill_def)
next
  case (reach_round k s hooks b s')
  then show ?case using run_round_ok [OF reach_round.IH assms uncount_round [OF reach_round.hyps(2)]] by simp
next
  case (reach_silent k s b s')
  obtain a d s1 where "run_round False other rt (uncount k s) = Some (Inr (True, put_object a d s1))"
      "sched_ok ((put_object a d s1)\<lparr>alive_count := alive_count s1 - 1\<rparr>)"
    using silent_round [OF reach_silent.IH assms, of rt] reach_silent.hyps(3) by (metis uncount_silent)
  moreover have "put_object a d s1 = uncount k s'"
    using calculation(1) uncount_round [OF reach_silent.hyps(2), of k] by simp
  moreover have "(put_object a d s1)\<lparr>alive_count := alive_count s1 - 1\<rparr> = uncount 1 (put_object a d s1)"
    by (simp add: uncount_def put_object_def)
  ultimately show ?case by simp
qed (simp add: new_Scheduler_ok)

lemma has_alive_iff:
  assumes "sched_ok (uncount k s)" "length (processes s) + k < 2 ^ 31"
  shows "has_alive_processes s \<longleftrightarrow> 0 < k \<or> alive_set s \<noteq> {}"
proof -
  have "alive_set s \<subseteq> set (processes s)" using assms(1) by (auto simp: alive_set_def sched_inv_def)
  then have "card (alive_set s) \<le> card (set (processes s))" by (intro card_mono) simp_all
  also have "\<dots> \<le> length (processes s)" by (rule card_length)
  finally have le: "card (alive_set s) + k < 2 ^ 31" using assms(2) by linarith
  have "alive_count s = of_nat (card (alive_set s) + k)"
  proof -
    have "alive_count (uncount k s) = of_nat (card (alive_set (uncount k s)))"
      using assms(1) unfolding sched_inv_def by blast
    then show ?thesis by (simp add: diff_eq_eq)
  qed
  then have "unat (alive_count s) = card (alive_set s) + k"
    using le by (simp only: unat_of_nat) (simp add: take_bit_nat_eq_self_iff)
  then have "sint (alive_count s) = int (card (alive_set s) + k)"
    using le by (simp add: sint_uint uint_nat signed_take_bit_int_eq_self)
  then have "has_alive_processes s \<longleftrightarrow> 0 < k \<or> card (alive_set s) \<noteq> 0"
    unfolding has_alive_processes_def by linarith
  then show ?thesis using alive_set_finite [OF assms(1)] by simp
qed

section \<open>Properties\<close>

text \<open>C17. Whatever sequence of creations, loads of code, activations, removals of processes that are not queued, and
rounds with and without hooks a scheduler goes through, let \<open>k\<close> be the number of its hook-free rounds that ended on
a dead process (C22), and let the handlers outside of this development keep a process well-formed and change its
state only by blocking or ending it (\<open>other_ok\<close>).  Then every process of the vector is found by its identifier and no
other, is well-formed and is in a state of rest; the queue holds exactly the ready processes, each once; and the
counter is the number of processes that have started and not ended, plus \<open>k\<close>.  With fewer than \<open>2 ^ 31\<close> processes and
silent deaths, the test for live processes is therefore exact when there was no silent death, and always true
after one.  The removal of a queued process, which breaks the invariant, is C24.\<close>

theorem scheduler_invariant:
  assumes "sched_reach other rt k s" "other_ok other"
  shows "sched_ok (uncount k s) \<and> (length (processes s) + k < 2 ^ 31 \<longrightarrow>
    has_alive_processes s = (0 < k \<or> (\<exists>a c. objects s a = Some c \<and> state_of c \<notin> {NEW, DEAD, HALT})))"
proof -
  have ok: "sched_ok (uncount k s)" by (rule sched_reach_ok [OF assms(2,1)])
  then show ?thesis using has_alive_iff [OF ok] by (auto simp: alive_set_def alive_def)
qed

definition demo_pid :: GlobalPID where
  "demo_pid = \<lparr>scheduler_id = 1, local_pid = 0\<rparr>"

definition demo_sched :: Scheduler where
  "demo_sched = snd (spawn 0x5000 demo_host (new_Scheduler 1))"

definition demo_ready :: Scheduler where
  "demo_ready = (case make_ready demo_pid demo_sched of Inl _ \<Rightarrow> demo_sched | Inr s \<Rightarrow> s)"

lemma demo_reach: "sched_reach other rt 0 demo_sched" "make_ready demo_pid demo_sched = Inr demo_ready"
    "sched_reach other rt 0 demo_ready" "pid_index demo_ready demo_pid = Some 0x5000"
    "processes demo_ready = [0x5000]" "ready_queue demo_ready = [0x5000]"
proof -
  show s: "sched_reach other rt 0 demo_sched" unfolding demo_sched_def
    by (rule reach_spawn [OF reach_new]) (simp_all add: new_Scheduler_def)
  show r: "make_ready demo_pid demo_sched = Inr demo_ready"
    by (simp add: demo_ready_def make_ready_def demo_pid_def demo_sched_def spawn_def new_Scheduler_def object_at_def
        rbind_def new_state Let_def)
  show "sched_reach other rt 0 demo_ready" by (rule reach_ready [OF s r])
  show "pid_index demo_ready demo_pid = Some 0x5000" "processes demo_ready = [0x5000]" "ready_queue demo_ready = [0x5000]"
    by (simp_all add: demo_ready_def make_ready_def demo_pid_def demo_sched_def spawn_def new_Scheduler_def object_at_def
        rbind_def new_state Let_def push_back_def put_object_def)
qed

lemma demo_other_ok: "other_ok demo_other"
  by (simp add: other_ok_def demo_other_def)

lemma demo_ready_ok: "sched_ok demo_ready"
  using sched_reach_ok [OF demo_other_ok demo_reach(3)] by simp

lemma demo_object:
  obtains c where "objects demo_ready 0x5000 = Some c" "state_of c = READY"
proof -
  have "0x5000 \<in> set (ready_queue demo_ready)" by (simp add: demo_reach)
  then show thesis using demo_ready_ok that unfolding sched_inv_def by blast
qed

text \<open>The code of \<^verbatim>\<open>hlt\<close>, and the memory of a process after it is loaded.\<close>

definition demo_code :: "u8 list" where
  "demo_code = [0x00, 0x03]"

definition demo_mem :: VirtualMemory where
  "demo_mem = (new_VirtualMemory demo_host)
    \<lparr>vm_host := demo_host\<lparr>hcalls := 1, hpages := [0x10000 \<mapsto> \<lparr>hp_perms = 3, hp_bytes = (\<lambda>_. 0)(0 := 0, 1 := 3)\<rparr>]\<rparr>,
     vm_arenas := new_ArenaManager\<lparr>next_id := 1, arenas := [(0, \<lparr>a_ptr = 0x10000, a_size = 4096, a_perms = 3\<rparr>)],
       total_allocated_bytes := 4096\<rparr>,
     vm_tlb := translate new_tlb 0x1000 MAPPED_PTR_HOST 0x10000\<rparr>"

lemma demo_perms: "has_perm 3 PERM_READ" "has_perm 3 PERM_WRITE" "PERM_READ OR PERM_WRITE = 3"
  by code_simp+

lemma demo_tlb:
  "get_entry new_tlb a = None" "get_entry (translate new_tlb 0x1000 MAPPED_PTR_HOST 0x10000) a =
   (if page_base a = 0x1000 then Some \<lparr>type_address = MAPPED_PTR_HOST, address = 0x10000\<rparr> else None)"
  by (simp_all add: get_entry_new get_entry_translate tlb_wf_new) (simp add: page_base_def)

lemma demo_region:
  "map_region (new_VirtualMemory demo_host) 0x1000 4096 3 =
   Some (Inr (0x1000, demo_mem\<lparr>vm_host := demo_host\<lparr>hcalls := 1, hpages := [0x10000 \<mapsto> zero_page 3]\<rparr>\<rparr>))"
  by (simp add: map_region_def create_arena_def allocate_memory_def mmap_def round_page_def Let_def mmap_free_def
      new_VirtualMemory_def demo_host_def new_ArenaManager_def page_off_def for_pages_once map_page_def get_ptr_arena_def
      get_arena_def demo_mem_def range_pages_def fun_eq_iff)

lemma demo_load:
  "load_raw_code (new_ProcessVM demo_host) 0x1000 demo_code =
   Inr (set_rip 0x1000 (with_mem (new_ProcessVM demo_host) demo_mem))"
proof -
  have "vm_to_host_memcpy (new_VirtualMemory demo_host) 0x1000 demo_code = Some (Inr demo_mem)"
    by (simp add: vm_to_host_memcpy.simps [of "new_VirtualMemory _"] vm_to_host_memcpy.simps [of _ _ "[]"] demo_code_def
        dest_page_def get_real_host_ptr_of_vptr_def demo_region demo_perms Let_def page_off_def)
      (simp add: demo_mem_def new_VirtualMemory_def demo_tlb page_base_def page_off_def host_set_def demo_perms
        zero_page_def vm_to_host_memcpy.simps [of _ _ "[]"])
  then show ?thesis by (simp add: load_raw_code_def of_loop_def rbind_def new_ProcessVM_def with_mem_def)
qed

lemma demo_fetch:
  "fetch8 (q\<lparr>vm_mem := demo_mem\<rparr>) 0x1000 = Inr (0, q\<lparr>vm_mem := demo_mem\<rparr>)"
  "fetch8 (q\<lparr>vm_mem := demo_mem\<rparr>) 0x1001 = Inr (3, q\<lparr>vm_mem := demo_mem\<rparr>)"
  "fetch8 (q\<lparr>vm_mem := demo_mem\<rparr>) 0x1010 = Inr (0, q\<lparr>vm_mem := demo_mem\<rparr>)"
  by (simp_all add: fetch8_def mem_at_def with_mem_def)
    (simp_all add: demo_mem_def demo_tlb page_base_def page_off_def host_byte_def demo_perms)

definition demo_hlt :: DecodedInstr where
  "demo_hlt = new_DecodedInstr\<lparr>i_pc := 0x1000, is_not_extended := 0, opcode_index := 3,
     metadata := Some (row ''hlt'' MODE_NONE FIXED_2 ''exec_instr_hlt'' D_simple),
     exec_cached := Some ''exec_instr_hlt'', size_instr := 2\<rparr>"

lemma demo_decode:
  assumes "vm_mem q = demo_mem" "pc_of q = 0x1000" "decoded_ptr q = None"
  shows "decode_instruction q = Inr (store_decoded demo_hlt q)"
proof -
  have q: "q = q\<lparr>vm_mem := demo_mem\<rparr>" by (simp add: assms(1) [symmetric])
  have f: "fetch8 q 0x1000 = Inr (0, q)" "fetch8 q 0x1001 = Inr (3, q)" "fetch8 q 0x1010 = Inr (0, q)"
    using demo_fetch [of q, folded q] by simp_all
  have r: "decode_table_extended ! 3 = row ''hlt'' MODE_NONE FIXED_2 ''exec_instr_hlt'' D_simple"
    by (simp add: decode_table_extended_def extended_00_def)
  show ?thesis
    using f r by (simp add: decode_instruction_def assms rbind_def Let_def decode_opcode_def row_def
        decode_instr_simple_def table_size_def set_size_def demo_hlt_def)
qed

lemma demo_hlt_fields:
  "dispatch_table (dispatch_idx demo_hlt) = None" "exec_cached demo_hlt = Some ''exec_instr_hlt''" "i_pc demo_hlt = 0x1000"
  by (simp_all add: demo_hlt_def dispatch_idx_def dispatch_table_def new_DecodedInstr_def)

lemma demo_halts:
  assumes "vm_mem q = demo_mem" "pc_of q = 0x1000" "decoded_ptr q = None" "state q = EXECUTE" "loadmod_call_depth q = 0"
  shows "\<exists>p. fast_batch demo_other demo_rt q = Some (Inr (Batch_dead, p)) \<and> state p = HALT"
  by (subst fast_batch.simps)
    (simp add: next_dispatch_def demo_decode [OF assms(1-3)] assms(2-5) rbind_def fast_step_def current_instr_def
      store_decoded_def demo_hlt_fields Let_def L_SLOW_def run_exec_def exec_alu_table_def exec_stack_table_def
      exec_instr_hlt_def upd_decoded_def raise_event_def advance_def spend_def)

text \<open>Two processes, the first with the code.\<close>

definition demo_pid2 :: GlobalPID where
  "demo_pid2 = \<lparr>scheduler_id = 1, local_pid = 1\<rparr>"

definition demo_two :: Scheduler where
  "demo_two = snd (spawn 0x6000 demo_host demo_sched)"

definition demo_loaded :: Scheduler where
  "demo_loaded = put_object 0x5000 \<lparr>pid = demo_pid, vm = set_rip 0x1000 (with_mem (new_ProcessVM demo_host) demo_mem),
     wake_pending = False\<rparr> demo_two"

lemma demo_two_fields:
  "id_scheduler demo_two = 1" "next_pid demo_two = 2" "processes demo_two = [0x5000, 0x6000]" "ready_queue demo_two = []"
  "alive_count demo_two = 0" "pid_index demo_two = [demo_pid \<mapsto> 0x5000, demo_pid2 \<mapsto> 0x6000]"
  "objects demo_two = [0x5000 \<mapsto> \<lparr>pid = demo_pid, vm = new_ProcessVM demo_host, wake_pending = False\<rparr>,
     0x6000 \<mapsto> \<lparr>pid = demo_pid2, vm = new_ProcessVM demo_host, wake_pending = False\<rparr>]"
  by (simp_all add: demo_two_def demo_sched_def spawn_def new_Scheduler_def Let_def demo_pid_def demo_pid2_def)

lemma demo_loaded_reach: "sched_reach other rt 0 demo_loaded"
proof -
  let ?c = "\<lparr>pid = demo_pid, vm = new_ProcessVM demo_host, wake_pending = False\<rparr>"
  have two: "sched_reach other rt 0 demo_two"
    unfolding demo_two_def
    by (rule reach_spawn [OF demo_reach(1)]) (simp_all add: demo_sched_def spawn_def new_Scheduler_def Let_def)
  have "load_raw_code (vm ?c) 0x1000 demo_code = Inr (set_rip 0x1000 (with_mem (new_ProcessVM demo_host) demo_mem))"
    by (simp add: demo_load)
  from reach_load [OF two _ this] show ?thesis by (simp add: demo_loaded_def demo_two_fields)
qed

text \<open>The run: both processes are created, the first is loaded, activated and halts in its round, the second is removed.\<close>

theorem scheduler_invariant_witness:
  "\<exists>s1 s2 s3. make_ready demo_pid demo_loaded = Inr s1 \<and> run_round False demo_other demo_rt s1 = Some (Inr (True, s2)) \<and>
     kill demo_pid2 s2 = Inr s3 \<and> sched_ok s3 \<and> processes s3 = [0x5000] \<and> \<not> has_alive_processes s3"
proof -
  let ?p = "set_rip 0x1000 (with_mem (new_ProcessVM demo_host) demo_mem)"
  let ?q = "?p\<lparr>state := READY, reductions_remaining := reductions_remaining_default\<rparr>"
  have ne: "demo_pid \<noteq> demo_pid2" by (simp add: demo_pid_def demo_pid2_def)
  obtain s1 where s1: "make_ready demo_pid demo_loaded = Inr s1" "ready_queue s1 = [0x5000]" "alive_count s1 = 1"
      "processes s1 = [0x5000, 0x6000]" "pid_index s1 demo_pid2 = Some 0x6000"
      "objects s1 = (objects demo_two)(0x5000 \<mapsto> \<lparr>pid = demo_pid, vm = ?p\<lparr>state := READY\<rparr>, wake_pending = False\<rparr>)"
    using ne
    by (simp add: make_ready_def demo_loaded_def demo_two_fields object_at_def put_object_def rbind_def Let_def
        set_rip_def upd_regs_def with_mem_def new_state with_state_def push_back_def fun_eq_iff)
  have r1: "sched_reach demo_other demo_rt 0 s1" by (rule reach_ready [OF demo_loaded_reach s1(1)])
  obtain p where p: "fast_batch demo_other demo_rt (?q\<lparr>state := EXECUTE\<rparr>) = Some (Inr (Batch_dead, p))" "state p = HALT"
    using demo_halts [of "?q\<lparr>state := EXECUTE\<rparr>"]
    by (auto simp: set_rip_def upd_regs_def with_mem_def new_ProcessVM_def)
  then have fq: "fast_quantum demo_other demo_rt ?q = Some (Inr (Batch_dead, p))"
    by (simp add: fast_quantum_def reductions_remaining_default_def)
  let ?c = "\<lparr>pid = demo_pid, vm = ?q, wake_pending = False\<rparr>"
  let ?s = "(put_object 0x5000 ?c s1)\<lparr>ready_queue := [], cur_instance := 0x5000\<rparr>"
  have n: "schedule_next s1 = Inr (Some 0x5000, ?s)"
    by (simp add: schedule_next_def s1(2,6) object_at_def rbind_def)
  obtain s2 where s2: "run_round False demo_other demo_rt s1 = Some (Inr (True, s2))" "ready_queue s2 = []"
      "processes s2 = [0x5000, 0x6000]" "pid_index s2 demo_pid2 = Some 0x6000"
      "objects s2 = (objects s1)(0x5000 \<mapsto> ?c\<lparr>vm := p\<rparr>)"
    unfolding run_round_eq [OF n, of ?c] using fq s1
    by (simp add: run_round_eq [OF n, of ?c] put_object_def end_quantum_def rbind_def)
  have "\<not> silent_death demo_other demo_rt s1"
    using fq s1(2,6) by (simp add: silent_death_def)
  then have r2: "sched_reach demo_other demo_rt 0 s2" by (intro reach_round [OF r1 s2(1)]) simp
  obtain s3 where s3: "kill demo_pid2 s2 = Inr s3" "processes s3 = [0x5000]"
      "objects s3 = (objects s2)(0x6000 := None)"
    using s2 s1(6) by (simp add: kill_def demo_two_fields object_at_def rbind_def Let_def new_state)
  have r3: "sched_reach demo_other demo_rt 0 s3" by (rule reach_kill [OF r2 s3(1)]) (simp add: s2)
  have "\<not> (\<exists>a c. objects s3 a = Some c \<and> state_of c \<notin> {NEW, DEAD, HALT})"
    using p(2) by (auto simp: s3(3) s2(5) s1(6) demo_two_fields split: if_splits)
  then show ?thesis using scheduler_invariant [OF r3 demo_other_ok] s1(1) s2(1) s3(1,2) by auto
qed

text \<open>C24. A process removed while it is in the queue leaves its address there: the object is freed, and the
round that reaches the address reads freed memory.\<close>

theorem kill_leaves_dangling_entry:
  assumes "sched_ok s" "pid_index s n = Some a" "objects s a = Some c" "state_of c = READY"
  shows "\<exists>s'. kill n s = Inr s' \<and> a \<in> set (ready_queue s') \<and> objects s' a = None \<and>
    (hd (ready_queue s') = a \<longrightarrow> run_round hooks other rt s' = Some (Inl HostFault))"
proof -
  obtain s' where s': "kill n s = Inr s'" "ready_queue s' = ready_queue s" "objects s' a = None"
    using kill_removes [OF assms(1-3)] by simp
  have q: "a \<in> set (ready_queue s)" using assms unfolding sched_inv_def by blast
  have "run_round hooks other rt s' = Some (Inl HostFault)" if "hd (ready_queue s') = a"
    using q s'(2,3) that by (cases "ready_queue s") (auto simp: run_round_def schedule_next_def object_at_def rbind_def)
  then show ?thesis using s' q by auto
qed

theorem kill_leaves_dangling_entry_witness:
  "\<exists>s'. kill demo_pid demo_ready = Inr s' \<and> objects s' 0x5000 = None \<and>
     run_round True demo_other demo_rt s' = Some (Inl HostFault)"
proof -
  obtain c where c: "objects demo_ready 0x5000 = Some c" "state_of c = READY" by (rule demo_object)
  obtain s' where s': "kill demo_pid demo_ready = Inr s'" "objects s' 0x5000 = None"
      "hd (ready_queue s') = 0x5000 \<longrightarrow> run_round True demo_other demo_rt s' = Some (Inl HostFault)"
    using kill_leaves_dangling_entry [OF demo_ready_ok demo_reach(4) c] by blast
  have "ready_queue s' = [0x5000]"
    using s'(1) kill_removes [OF demo_ready_ok demo_reach(4) c(1)] by (auto simp: demo_reach)
  then show ?thesis using s' by simp
qed

text \<open>C22. A process that dies in a batch without hooks, by an exception that nothing catches, goes on
executing; when its quantum then runs out, it leaves the queue, but the counter still counts it.  If
it was the last live process, the scheduler finds nothing to run and believes that a process is
alive, so that it waits for ever instead of stopping.\<close>

theorem dead_process_counted_alive:
  assumes "sched_ok s" "other_ok other" "silent_death other rt s"
  shows "\<exists>s'. run_round False other rt s = Some (Inr (True, s')) \<and> ready_queue s' = tl (ready_queue s) \<and>
    alive_count s' = alive_count s \<and> card (alive_set s') + 1 = card (alive_set s) \<and>
    (alive_set s = {hd (ready_queue s)} \<longrightarrow> has_alive_processes s' \<and> ready_queue s' = [] \<and> alive_set s' = {})"
proof -
  obtain a q c d s1 where r: "ready_queue s = a # q" "objects s a = Some c" "state_of c = READY"
    "sched_inv {a} s1" "alive_count s1 = alive_count s" "ready_queue s1 = q" "alive_set s1 = alive_set s"
    "run_round False other rt s = Some (Inr (True, put_object a d s1))" "state_of d \<in> {HALT, DEAD}"
    by (rule silent_round [OF assms])
  let ?s = "put_object a d s1"
  have "\<not> alive d" using r(9) by (auto simp: alive_def)
  then have set: "alive_set ?s = alive_set s - {a}" "a \<in> alive_set s"
    using r(2,3,7) by (simp_all add: alive_set_put) (simp add: alive_set_def alive_def)
  have fin: "finite (alive_set s)" by (rule alive_set_finite [OF assms(1)])
  have last: "has_alive_processes ?s \<and> q = []" if "alive_set s = {a}"
  proof -
    have "q = []"
    proof (rule ccontr)
      assume "q \<noteq> []"
      then obtain b where b: "b \<in> set q" by (meson list.set_sel(1))
      then have "b \<in> alive_set s" "b \<noteq> a"
        using assms(1) r(1) unfolding sched_inv_def by (auto simp: alive_set_def alive_def)
      then show False using that by simp
    qed
    moreover have "alive_count s = 1" using assms(1) that unfolding sched_inv_def by simp
    ultimately show ?thesis using r(5) by (simp add: has_alive_processes_def put_object_def)
  qed
  have f: "ready_queue ?s = q" "alive_count ?s = alive_count s" using r(5,6) by (simp_all add: put_object_def)
  have n: "card (alive_set ?s) + 1 = card (alive_set s)" using card_Suc_Diff1 [OF fin set(2)] set(1) by simp
  have "has_alive_processes ?s \<and> ready_queue ?s = [] \<and> alive_set ?s = {}" if "alive_set s = {hd (ready_queue s)}"
    using last that set(1) r(1) f(1) by simp
  then show ?thesis using r(1,8) f n by (intro exI [of _ ?s] conjI impI) simp_all
qed

text \<open>A process that throws a null reference and then enters a protected block, which ends the quantum.\<close>

definition demo_throw0 :: DecodedInstr where
  "demo_throw0 = new_DecodedInstr\<lparr>opcode_index := 0xD3, size_instr := 4, i_pc := 0x100,
     exec_cached := Some ''exec_instr_throw''\<rparr>"

definition demo_protect :: DecodedInstr where
  "demo_protect = new_DecodedInstr\<lparr>opcode_index := 0x44, size_instr := 4, i_pc := 0x104,
     exec_cached := Some ''exec_instr_tryenter''\<rparr>"

definition demo_dying :: ProcessVM where
  "demo_dying = (demo_process demo2 demo_throw0)\<lparr>state := READY,
     icache := (\<lambda>i. if i = icache_index 0x104 then demo_protect else demo_throw0)\<rparr>"

definition demo_doomed :: Scheduler where
  "demo_doomed = put_object 0x5000 \<lparr>pid = demo_pid, vm = demo_dying, wake_pending = False\<rparr> demo_ready"

lemma demo_fields:
  "i_pc demo_throw0 = 0x100" "i_pc demo_protect = 0x104" "exec_cached demo_throw0 = Some ''exec_instr_throw''"
  "exec_cached demo_protect = Some ''exec_instr_tryenter''" "reg1 demo_throw0 = 0" "reg1 demo_protect = 0"
  "size_instr demo_throw0 = 4" "\<not> did_jump demo_throw0" "\<not> blocking demo_throw0" "\<not> did_jump demo_protect"
  "\<not> blocking demo_protect" "dispatch_table (dispatch_idx demo_throw0) = None" "dispatch_table (dispatch_idx demo_protect) = None"
  "icache_index 0x100 \<noteq> icache_index 0x104" "hi_nibble 0 = 0" "lo_nibble 0 = 0"
  by code_simp+

lemma demo_handlers:
  "run_exec other rt ''exec_instr_throw'' = exec_instr_throw rt"
  "run_exec other rt ''exec_instr_tryenter'' = exec_instr_tryenter"
  by (simp_all add: run_exec_def exec_alu_table_def exec_stack_table_def)

lemma demo_silent_death: "silent_death demo_other demo_rt demo_doomed"
proof -
  let ?p = "demo_dying\<lparr>reductions_remaining := reductions_remaining_default, state := EXECUTE\<rparr>"
  let ?p1 = "set_rip 0x104 (?p\<lparr>decoded_ptr := Some (icache_index 0x100), err_thread := THREAD_SEGMENTATION_FAULT, state := DEAD\<rparr>)"
  have 1: "rbind (next_dispatch ?p) (fast_step demo_other demo_rt) = Inr (EVT_EXEC_DONE, ?p1)"
    by (simp add: next_dispatch_def demo_dying_def demo_process_def demo_registers_def demo_fields demo_handlers fast_step_def
        current_instr_def L_SLOW_def exec_instr_throw_def do_throw_def reg_def raise_event_def advance_def rbind_def
        set_rip_def upd_regs_def Let_def)
  obtain p2 where 2: "rbind (next_dispatch (spend ?p1)) (fast_step demo_other demo_rt) = Inr (EVT_EXEC_DONE, p2)"
      "state p2 = DEAD" "reductions_remaining p2 = 1"
    by (simp add: next_dispatch_def demo_dying_def demo_process_def demo_registers_def demo_fields demo_handlers fast_step_def
        current_instr_def L_SLOW_def exec_instr_tryenter_def reg_def advance_def rbind_def spend_def
        set_rip_def upd_regs_def Let_def reductions_remaining_default_def)
  have "fast_batch demo_other demo_rt ?p = fast_batch demo_other demo_rt (spend ?p1)"
    by (rule fast_batch_go [OF 1]) (simp add: spend_def demo_dying_def set_rip_def upd_regs_def reductions_remaining_default_def)
  also have "\<dots> = Some (Inr (Batch_end, spend p2))"
    by (rule fast_batch_stop [OF 2(1)]) (simp add: spend_def 2)
  finally show ?thesis
    using 2 by (simp add: silent_death_def demo_doomed_def put_object_def demo_reach fast_quantum_def reductions_remaining_default_def
      spend_def)
qed

theorem dead_process_counted_alive_witness:
  "\<exists>s'. run_round False demo_other demo_rt demo_doomed = Some (Inr (True, s')) \<and> has_alive_processes s' \<and>
     ready_queue s' = [] \<and> alive_set s' = {}"
proof -
  obtain c where c: "objects demo_ready 0x5000 = Some c" "state_of c = READY" by (rule demo_object)
  have dom: "dom (objects demo_ready) = {0x5000}" using demo_ready_ok demo_reach(5) by (simp add: sched_inv_def)
  have pid: "pid c = demo_pid" using demo_ready_ok demo_reach(4) c unfolding sched_inv_def by (metis option.inject)
  have ok: "sched_ok demo_doomed" unfolding demo_doomed_def
    by (rule sched_put_same [OF demo_ready_ok c(1)])
      (use c pid in \<open>simp_all add: demo_dying_def demo_process_def demo_registers_def proc_ok_def demo_throw0_def
        demo_protect_def new_DecodedInstr_def\<close>)
  have "alive_set demo_doomed = {hd (ready_queue demo_doomed)}"
    using dom by (auto simp: alive_set_def demo_doomed_def put_object_def demo_reach alive_def demo_dying_def)
  then show ?thesis using dead_process_counted_alive [OF ok demo_other_ok demo_silent_death] by blast
qed

end
