(* ===== verification/Vm_Quantum.thy ===== *)
theory Vm_Quantum
  imports Vm_Sched
begin

text \<open>
  Properties of a quantum on the threaded dispatch: instructions keep processes well-formed, a batch of
  instructions of this development ends, and a \<^verbatim>\<open>yield\<close> undoes that.
\<close>

section \<open>Steps of a batch\<close>

definition batch_step :: "(string \<Rightarrow> handler) \<Rightarrow> Runtime \<Rightarrow> ProcessVM \<Rightarrow> (vm_event \<times> ProcessVM) res" where
  "batch_step other rt p = rbind (next_dispatch p) (fast_step other rt)"

lemma next_dispatch_decodes: "next_dispatch p = decode_instruction p"
  by (auto simp: next_dispatch_def decode_instruction_def Let_def)

text \<open>The process after \<open>n\<close> instructions of the batch from \<open>p\<close>, about to execute another one.\<close>

inductive in_batch :: "(string \<Rightarrow> handler) \<Rightarrow> Runtime \<Rightarrow> ProcessVM \<Rightarrow> nat \<Rightarrow> ProcessVM \<Rightarrow> bool" for other rt p where
  batch_first: "in_batch other rt p 0 p"
| batch_next: "in_batch other rt p n q \<Longrightarrow> batch_step other rt q = Inr (EVT_EXEC_DONE, q1) \<Longrightarrow>
    reductions_remaining (spend q1) \<noteq> 0 \<Longrightarrow> in_batch other rt p (Suc n) (spend q1)"

text \<open>The instruction that the batch executes at \<open>q\<close> is one of the development other than \<^verbatim>\<open>yield\<close>.\<close>

definition next_plain :: "Runtime \<Rightarrow> ProcessVM \<Rightarrow> bool" where
  "next_plain rt q \<longleftrightarrow>
     (case rbind (next_dispatch q) current_instr of Inl _ \<Rightarrow> True | Inr d \<Rightarrow> plain rt (exec_cached d))"

lemma batch_step_fetched:
  assumes "next_dispatch q = Inr q0" "proc_ok q" "next_plain rt q"
  shows "fetched q q0" "proc_ok q0" "leads rt snd q0 (fast_step other rt q0)"
proof -
  show f: "fetched q q0" "proc_ok q0" using fetched_decode assms(1,2) by (simp_all add: next_dispatch_decodes)
  obtain d where d: "current_instr q0 = Inr d" using fetchedD(4) [OF f(1)] by (simp add: current_instr_def)
  have "plain rt (exec_cached d)" using assms(1,3) d by (simp add: next_plain_def rbind_def)
  then show "leads rt snd q0 (fast_step other rt q0)" by (rule leads_fast_step [OF d])
qed

lemma batch_step_ok:
  assumes "batch_step other rt q = Inr (e, q1)" "proc_ok q" "next_plain rt q"
  obtains q0 where "next_dispatch q = Inr q0" "proc_ok q0" "fetched q q0" "proc_ok q1" "keeps q0 q1"
    "frame_stack q = 0 \<Longrightarrow> frame_stack q1 = 0"
proof -
  obtain q0 where q0: "next_dispatch q = Inr q0" "fast_step other rt q0 = Inr (e, q1)"
    using assms(1) by (auto simp: batch_step_def rbind_def split: sum.splits)
  note f = batch_step_fetched(1,2) [OF q0(1) assms(2,3)]
  have "leads rt snd q0 (Inr (e, q1))"
    using batch_step_fetched(3) [OF q0(1) assms(2,3), of other] q0(2) by simp
  from leadsD(1,2) [OF this] show thesis
    using that [OF q0(1) f(2,1)] f(2) fetchedD(5) [OF f(1)] by simp
qed

lemma batch_step_returns:
  assumes "proc_ok q" "next_plain rt q" "classes_ok rt" "frame_stack q = 0"
  shows "returns (batch_step other rt q)"
proof (cases "next_dispatch q")
  case (Inl x)
  then show ?thesis
    using returns_decode [of q] by (simp add: batch_step_def next_dispatch_decodes rbind_def returns_def)
next
  case (Inr q0)
  note f = batch_step_fetched [OF Inr assms(1,2)]
  have "returns (fast_step other rt q0)"
    using leadsD(3) [OF f(3) assms(3)] fetchedD(5) [OF f(1)] assms(4) by simp
  then show ?thesis using Inr by (simp add: batch_step_def rbind_def)
qed

text \<open>One more instruction of the batch costs one reduction at least.\<close>

lemma batch_step_spends:
  assumes "batch_step other rt q = Inr (e, q1)" "proc_ok q" "next_plain rt q" "0 < reductions_remaining q"
  shows "unat (reductions_remaining (spend q1)) < unat (reductions_remaining q)" "proc_ok (spend q1)"
    "frame_stack q = 0 \<Longrightarrow> frame_stack (spend q1) = 0"
proof -
  obtain q0 where q0: "fetched q q0" "proc_ok q1" "keeps q0 q1" "frame_stack q = 0 \<Longrightarrow> frame_stack q1 = 0"
    using batch_step_ok [OF assms(1-3)] by blast
  have "0 < reductions_remaining q1 \<and> reductions_remaining q1 \<le> reductions_remaining q"
    using fetchedD(3) [OF q0(1)] q0(3) assms(4) by (auto simp: keeps_def)
  then show "unat (reductions_remaining (spend q1)) < unat (reductions_remaining q)"
    by (auto simp: spend_def word_less_nat_alt word_le_nat_alt unat_sub_if_size)
  show "proc_ok (spend q1)" using q0(2) by (simp add: spend_def proc_ok_def)
  show "frame_stack q = 0 \<Longrightarrow> frame_stack (spend q1) = 0" using q0(4) by (simp add: spend_def)
qed

lemma in_batch_ok:
  assumes "in_batch other rt p n q" "proc_ok p" "0 < reductions_remaining p"
    "\<forall>n q. in_batch other rt p n q \<longrightarrow> next_plain rt q"
  shows "proc_ok q \<and> 0 < reductions_remaining q \<and>
    n + unat (reductions_remaining q) \<le> unat (reductions_remaining p) \<and> (frame_stack p = 0 \<longrightarrow> frame_stack q = 0)"
  using assms(1)
proof induction
  case batch_first
  then show ?case using assms(2,3) by simp
next
  case (batch_next n q q1)
  then have np: "next_plain rt q" using assms(4) by blast
  show ?case
    using batch_step_spends [OF batch_next.hyps(2) _ np] batch_next.IH batch_next.hyps(3) by (auto simp: word_gt_0)
qed

lemma batch_ends_from:
  assumes "proc_ok p" "0 < reductions_remaining p" "\<forall>n q. in_batch other rt p n q \<longrightarrow> next_plain rt q"
    and "in_batch other rt p n q"
  shows "\<exists>r. fast_batch other rt q = Some r \<and> (classes_ok rt \<and> frame_stack p = 0 \<longrightarrow> r \<noteq> Inl Diverges)"
  using assms(4)
proof (induction "unat (reductions_remaining q)" arbitrary: n q rule: less_induct)
  case less
  note q = in_batch_ok [OF less.prems assms(1-3)]
  have np: "next_plain rt q" using assms(3) less.prems by blast
  show ?case
  proof (cases "batch_step other rt q")
    case (Inl x)
    then have "fast_batch other rt q = Some (Inl x)" by (subst fast_batch.simps) (simp add: batch_step_def)
    moreover have "x \<noteq> Diverges" if "classes_ok rt" "frame_stack p = 0"
      using batch_step_returns [OF _ np that(1), of other] q that(2) Inl by (auto simp: returns_def)
    ultimately show ?thesis by auto
  next
    case (Inr y)
    obtain e q1 where y: "y = (e, q1)" by (cases y)
    show ?thesis
    proof (cases "e = EVT_EXEC_DONE \<and> reductions_remaining (spend q1) \<noteq> 0")
      case True
      then have st: "batch_step other rt q = Inr (EVT_EXEC_DONE, q1)" "reductions_remaining (spend q1) \<noteq> 0"
        using Inr y by simp_all
      have "unat (reductions_remaining (spend q1)) < unat (reductions_remaining q)"
        using batch_step_spends(1) [OF st(1) _ np] q by blast
      from less.hyps [OF this batch_next [OF less.prems st]]
      show ?thesis using fast_batch_go [OF st(1) [unfolded batch_step_def] st(2)] by simp
    next
      case False
      then show ?thesis using Inr y by (subst fast_batch.simps) (auto simp: batch_step_def Let_def)
    qed
  qed
qed

text \<open>An unconditional jump, decoded.\<close>

definition jump_instr :: "u64 \<Rightarrow> u64 \<Rightarrow> DecodedInstr \<Rightarrow> bool" where
  "jump_instr a target j \<longleftrightarrow> i_pc j = a \<and> is_not_extended j = 0x11 \<and> imm_reg j = 0x0F \<and> inmmed j = target"

lemma demo_proc_ok: "length (data_instruction d) = 16 \<Longrightarrow> proc_ok (demo_process m d)"
  by (simp add: proc_ok_def demo_process_def demo_registers_def)

section \<open>Properties\<close>

text \<open>C20. An instruction keeps a process well-formed.  The process is well-formed when it has sixteen registers, four
cursors, sixteen operand bytes in every entry of the instruction cache, sixteen registers in every exception frame and
twelve in every call frame.  Let the next instruction be one of this development other than \<^verbatim>\<open>yield\<close>, and let its
step return.  Then the decoding keeps the process well-formed and changes three of its fields only: the memory, by
reads of the code; the cache entry of the program counter, which holds the instruction of that address
afterwards, every other entry staying as it is, and all of them when the entry was already there; and the pointer to
the current instruction, which points at that entry.  The execution keeps the process well-formed; of the state that
decoding prepared, it keeps that pointer, every entry of the cache but for its two run-time bits, the quantum or
cuts it to one (from more than one), and the state, or moves it to dead, or from executing to halted.\<close>

theorem instruction_keeps_process:
  assumes "proc_ok p" "batch_step other rt p = Inr (e, q)" "next_plain rt p"
  shows "\<exists>p0. next_dispatch p = Inr p0 \<and> proc_ok p0 \<and> fetched p p0 \<and> proc_ok q \<and> keeps p0 q"
  by (rule batch_step_ok [OF assms(2,1,3)]) blast

theorem instruction_keeps_process_witness:
  "\<exists>q p0. batch_step demo_other demo_rt (demo_process demo2 demo_add) = Inr (EVT_EXEC_DONE, q) \<and> proc_ok q \<and>
     fetched (demo_process demo2 demo_add) p0 \<and> keeps p0 q"
proof -
  let ?p = "demo_process demo2 demo_add"
  have ok: "proc_ok ?p" by (simp add: demo_proc_ok demo_add_def new_DecodedInstr_def)
  have d: "i_pc demo_add = 0x100" "exec_cached demo_add = Some ''exec_instr_add_reg''" "reg1 demo_add = 5" "reg2 demo_add = 2"
      "i_mode demo_add = 3" "dispatch_table (dispatch_idx demo_add) = Some L_ADD_RR"
    by (code_simp, code_simp, code_simp, code_simp, code_simp, simp add: demo_add_def new_DecodedInstr_def dispatch_idx_def dispatch_table_def)
  obtain q where q: "batch_step demo_other demo_rt ?p = Inr (EVT_EXEC_DONE, q)"
    by (simp add: batch_step_def next_dispatch_def demo_process_def demo_registers_def d rbind_def fast_step_def
        current_instr_def L_ADD_RR_def reg_def set_reg_def Let_def)
  have "next_plain demo_rt ?p"
    by (simp add: next_plain_def next_dispatch_def demo_process_def demo_registers_def d rbind_def current_instr_def
        plain_def exec_alu_table_def)
  then show ?thesis using instruction_keeps_process [OF ok q] q by blast
qed

text \<open>C19. The quantum of a process runs out.  Let a well-formed process with reductions left run a batch whose
instructions are of this development and not \<^verbatim>\<open>yield\<close>.  The batch executes at most as many instructions as the process has
reductions, and its loop ends.  When the process is outside of every call frame (only method calls push frames,
and they are outside of the development) and no class is its own ancestor, no instruction of the batch hangs either:
the batch ends with the exit it gives to the scheduler or with a fault, not with the search of an exception that goes on
for ever.  Inside frames such a search can go on for ever, because throwing makes the pool of frames cyclic (C25).\<close>

theorem quantum_ends:
  assumes "proc_ok p" "0 < reductions_remaining p" "\<forall>n q. in_batch other rt p n q \<longrightarrow> next_plain rt q"
  shows "(\<forall>n q. in_batch other rt p n q \<longrightarrow> n < unat (reductions_remaining p)) \<and>
    (\<exists>r. fast_batch other rt p = Some r \<and> (classes_ok rt \<and> frame_stack p = 0 \<longrightarrow> r \<noteq> Inl Diverges))"
proof (intro conjI allI impI)
  show "\<exists>r. fast_batch other rt p = Some r \<and> (classes_ok rt \<and> frame_stack p = 0 \<longrightarrow> r \<noteq> Inl Diverges)"
    by (rule batch_ends_from [OF assms batch_first])
  fix n q assume "in_batch other rt p n q"
  from in_batch_ok [OF this assms] show "n < unat (reductions_remaining p)" by (simp add: word_less_nat_alt)
qed

text \<open>A jump to itself.\<close>

definition demo_spin :: DecodedInstr where
  "demo_spin = new_DecodedInstr\<lparr>is_not_extended := 0x11, size_instr := 10, i_pc := 0x100,
     data_instruction := [0, 1, 0, 0, 0, 0, 0, 0, 0x0F, 0, 0, 0, 0, 0, 0, 0],
     exec_cached := Some ''exec_instr_jmp''\<rparr>"

lemma demo_spin_jump: "jump_instr 0x100 0x100 demo_spin" "plain demo_rt (exec_cached demo_spin)"
proof -
  show "jump_instr 0x100 0x100 demo_spin" by code_simp
  show "plain demo_rt (exec_cached demo_spin)"
    by (simp add: plain_def demo_spin_def new_DecodedInstr_def exec_stack_table_def)
qed

theorem quantum_ends_witness:
  "\<exists>r. fast_batch demo_other demo_rt (demo_process demo2 demo_spin) = Some r \<and> r \<noteq> Inl Diverges"
proof -
  let ?p = "demo_process demo2 demo_spin"
  have ok: "proc_ok ?p" by (simp add: demo_proc_ok demo_spin_def new_DecodedInstr_def)
  have red: "0 < reductions_remaining ?p" by (simp add: demo_process_def)
  have pc: "i_pc demo_spin = 0x100" using demo_spin_jump(1) by (simp add: jump_instr_def)
  have spin: "(\<forall>i. icache q i = demo_spin) \<and> decoded_ptr q \<noteq> None \<and> pc_of q = 0x100"
    if "in_batch demo_other demo_rt ?p n q" for n q
    using that
  proof induction
    case batch_first
    then show ?case by (simp add: demo_process_def demo_registers_def)
  next
    case (batch_next n q q1)
    have "dispatch_table (dispatch_idx demo_spin) = Some L_JCC"
      using demo_spin_jump(1) by (simp add: jump_instr_def dispatch_idx_def dispatch_table_def)
    then have "q1 = set_rip 0x100 (q\<lparr>decoded_ptr := Some (icache_index 0x100)\<rparr>)"
      using batch_next.hyps(2) batch_next.IH demo_spin_jump(1) pc
      by (auto simp: batch_step_def next_dispatch_def rbind_def fast_step_def current_instr_def L_JCC_def fast_cond_def
          jump_instr_def)
    then show ?case using batch_next.IH by (simp add: spend_def set_rip_def upd_regs_def)
  qed
  have "\<forall>n q. in_batch demo_other demo_rt ?p n q \<longrightarrow> next_plain demo_rt q"
    using spin demo_spin_jump(2) pc
    by (auto simp: next_plain_def next_dispatch_def rbind_def current_instr_def)
  from quantum_ends [OF ok red this] show ?thesis
    by (simp add: demo_process_def classes_ok_def ancestors_def demo_rt_def acyclic_def)
qed

section \<open>Yielding in a loop\<close>

text \<open>The program \<^verbatim>\<open>loop: yield; jmp loop\<close> at address \<open>a\<close>, decoded; the jump is reached with the largest
quantum.\<close>

definition yield_instr :: "u64 \<Rightarrow> DecodedInstr \<Rightarrow> bool" where
  "yield_instr a y \<longleftrightarrow> i_pc y = a \<and> is_not_extended y = 0 \<and> opcode_index y = 0xEC \<and>
     exec_cached y = Some ''exec_instr_yield'' \<and> size_instr y = 2 \<and> \<not> did_jump y \<and> \<not> blocking y"

definition yield_loop :: "u64 \<Rightarrow> ProcessVM \<Rightarrow> bool" where
  "yield_loop a p \<longleftrightarrow> yield_instr a (icache p (icache_index a)) \<and>
     jump_instr (a + 2) a (icache p (icache_index (a + 2))) \<and> decoded_ptr p \<noteq> None"

lemma yield_step:
  assumes "yield_loop a p" "pc_of p = a"
  shows "batch_step other rt p =
    Inr (EVT_EXEC_DONE, set_rip (a + 2) (p\<lparr>decoded_ptr := Some (icache_index a), reductions_remaining := 0\<rparr>))"
proof -
  let ?y = "icache p (icache_index a)"
  have y: "yield_instr a ?y" "decoded_ptr p \<noteq> None" using assms(1) by (simp_all add: yield_loop_def)
  have "dispatch_table (dispatch_idx ?y) = None"
    using y(1) by (simp add: yield_instr_def dispatch_idx_def dispatch_table_def)
  moreover have "run_exec other rt ''exec_instr_yield'' = exec_instr_yield"
    by (simp add: run_exec_def exec_alu_table_def exec_stack_table_def)
  ultimately show ?thesis
    using y assms(2)
    by (auto simp: batch_step_def next_dispatch_def rbind_def fast_step_def current_instr_def L_SLOW_def
        yield_instr_def exec_instr_yield_def advance_def set_rip_def upd_regs_def)
qed

lemma jump_step:
  assumes "yield_loop a p" "pc_of p = a + 2"
  shows "batch_step other rt p = Inr (EVT_EXEC_DONE, set_rip a (p\<lparr>decoded_ptr := Some (icache_index (a + 2))\<rparr>))"
proof -
  let ?j = "icache p (icache_index (a + 2))"
  have j: "jump_instr (a + 2) a ?j" "decoded_ptr p \<noteq> None" using assms(1) by (simp_all add: yield_loop_def)
  have "dispatch_table (dispatch_idx ?j) = Some L_JCC"
    using j(1) by (simp add: jump_instr_def dispatch_idx_def dispatch_table_def)
  then show ?thesis
    using j assms(2)
    by (auto simp: batch_step_def next_dispatch_def rbind_def fast_step_def current_instr_def L_JCC_def fast_cond_def
        jump_instr_def)
qed

lemma yield_loop_step:
  assumes "yield_loop a p" "pc_of p = a \<or> pc_of p = a + 2 \<and> reductions_remaining p = - 1"
  obtains q where "batch_step other rt p = Inr (EVT_EXEC_DONE, q)" "reductions_remaining (spend q) \<noteq> 0"
    "yield_loop a (spend q)" "pc_of (spend q) = a \<or> pc_of (spend q) = a + 2 \<and> reductions_remaining (spend q) = - 1"
  using assms(2)
proof
  assume "pc_of p = a"
  from yield_step [OF assms(1) this] show thesis
    by (rule that) (use assms(1) in \<open>simp_all add: spend_def yield_loop_def set_rip_def upd_regs_def\<close>)
next
  assume j: "pc_of p = a + 2 \<and> reductions_remaining p = - 1"
  then have "pc_of p = a + 2" by simp
  from jump_step [OF assms(1) this] show thesis
    by (rule that) (use assms(1) j in \<open>simp_all add: spend_def yield_loop_def set_rip_def upd_regs_def\<close>)
qed

lemma yield_loop_diverges:
  "fast_batch other rt p = Some r \<Longrightarrow> yield_loop a p \<Longrightarrow> pc_of p = a \<or> pc_of p = a + 2 \<and> reductions_remaining p = - 1 \<Longrightarrow> False"
proof (induction other rt p r rule: fast_batch.raw_induct [rotated, consumes 1])
  case (1 batch other rt p r)
  obtain q where q: "batch_step other rt p = Inr (EVT_EXEC_DONE, q)" "reductions_remaining (spend q) \<noteq> 0"
    "yield_loop a (spend q)" "pc_of (spend q) = a \<or> pc_of (spend q) = a + 2 \<and> reductions_remaining (spend q) = - 1"
    by (rule yield_loop_step [OF 1(3,4)])
  then have "batch other rt (spend q) = Some r" using 1(2) by (simp add: batch_step_def)
  then show False using 1(1) q(3,4) by blast
qed

text \<open>C21. A process that yields in a loop keeps its scheduler for ever: \<^verbatim>\<open>yield\<close> sets the quantum to zero and the
dispatch then subtracts one, so that the quantum is the largest number instead of used up, and the quantum
of \<^verbatim>\<open>loop: yield; jmp loop\<close> does not return.\<close>

theorem yield_loop_starves:
  assumes "yield_loop a p" "pc_of p = a" "0 < reductions_remaining p"
  shows "fast_quantum other rt p = None"
proof -
  have "yield_loop a (p\<lparr>state := EXECUTE\<rparr>)" using assms(1) by (simp add: yield_loop_def)
  then have "fast_batch other rt (p\<lparr>state := EXECUTE\<rparr>) \<noteq> Some r" for r
    using yield_loop_diverges assms(2) by fastforce
  then show ?thesis using assms(3) by (simp add: fast_quantum_def) (metis not_Some_eq)
qed

definition demo_yield :: DecodedInstr where
  "demo_yield = new_DecodedInstr\<lparr>opcode_index := 0xEC, size_instr := 2, i_pc := 0x100,
     exec_cached := Some ''exec_instr_yield''\<rparr>"

definition demo_back :: DecodedInstr where
  "demo_back = demo_spin\<lparr>i_pc := 0x102\<rparr>"

definition demo_yielding :: ProcessVM where
  "demo_yielding = (demo_process demo2 demo_yield)
     \<lparr>icache := (\<lambda>i. if i = icache_index 0x102 then demo_back else demo_yield)\<rparr>"

theorem yield_loop_starves_witness: "fast_quantum demo_other demo_rt demo_yielding = None"
proof -
  have ne: "icache_index 0x100 \<noteq> icache_index 0x102" by code_simp
  have "yield_instr 0x100 demo_yield" "jump_instr 0x102 0x100 demo_back" by code_simp+
  then have "yield_loop 0x100 demo_yielding"
    using ne by (simp add: yield_loop_def demo_yielding_def demo_process_def)
  then show ?thesis
    by (rule yield_loop_starves) (simp_all add: demo_yielding_def demo_process_def demo_registers_def)
qed

end
