(* ===== verification/Vm_Wakeup.thy ===== *)
theory Vm_Wakeup
  imports Vm_Fsm
begin

text \<open>
  The race between a process that falls asleep and the threads that wake it, at the level of single
  memory accesses: the end of a blocking instruction in \<^verbatim>\<open>Scheduler::run_loop\<close> and
  \<^verbatim>\<open>Scheduler::make_ready\<close> (\<^verbatim>\<open>src/runtime/scheduler.cpp\<close>), with any number of wakers.

  The store of \<^verbatim>\<open>wake_pending\<close> in \<^verbatim>\<open>make_ready\<close> is a release store and the following load of the state
  an acquire load; the language allows the load to overtake the store, and on x86 the store waits in
  the store buffer of its processor.  \<open>tso\<close> says whether it may; exchanges, compare-and-exchange and
  locking a mutex wait for the buffer to drain.  A failure of \<^verbatim>\<open>compare_exchange_weak\<close> without cause
  repeats it and is no step.
\<close>

section \<open>The threads\<close>

datatype sleeper_pc = S_cas | S_exchange | S_load | S_store | S_push | S_done

text \<open>A waker after its load, or after a failed exchange, holds the state it saw.\<close>

datatype waker_pc = W_store | W_load | W_cas vm_state | W_clear | W_push | W_done

record wake_state =
  st :: vm_state
  wake :: bool
  queued :: nat
  sleeper :: sleeper_pc
  waker :: "nat \<Rightarrow> waker_pc"
  buf :: "nat \<Rightarrow> bool option"

definition dormant :: "vm_state \<Rightarrow> bool" where
  "dormant s \<longleftrightarrow> s \<in> {NEW, HALT, DEAD, WAIT_IO, BLOCKED}"

definition goto :: "nat \<Rightarrow> waker_pc \<Rightarrow> wake_state \<Rightarrow> wake_state" where
  "goto i w x = x\<lparr>waker := (waker x)(i := w)\<rparr>"

definition put_buf :: "nat \<Rightarrow> bool \<Rightarrow> wake_state \<Rightarrow> wake_state" where
  "put_buf i b x = x\<lparr>buf := (buf x)(i := Some b)\<rparr>"

text \<open>The program of the sleeper.\<close>

fun sleeper_step :: "wake_state \<Rightarrow> wake_state option" where
  "sleeper_step x =
     (case sleeper x of
        S_cas \<Rightarrow> Some (x\<lparr>st := (if st x = EXECUTE then WAIT_IO else st x), sleeper := S_exchange\<rparr>)
      | S_exchange \<Rightarrow> Some (x\<lparr>wake := False, sleeper := (if wake x then S_load else S_done)\<rparr>)
      | S_load \<Rightarrow> Some (x\<lparr>sleeper := (if st x \<in> {WAIT_IO, BLOCKED} then S_store else S_done)\<rparr>)
      | S_store \<Rightarrow> Some (x\<lparr>st := READY, sleeper := S_push\<rparr>)
      | S_push \<Rightarrow> Some (x\<lparr>queued := queued x + 1, sleeper := S_done\<rparr>)
      | S_done \<Rightarrow> None)"

text \<open>The program of the waker \<open>i\<close>.\<close>

fun waker_step :: "bool \<Rightarrow> nat \<Rightarrow> wake_state \<Rightarrow> wake_state option" where
  "waker_step tso i x =
     (case waker x i of
        W_store \<Rightarrow> Some (goto i W_load (put_buf i True x))
      | W_load \<Rightarrow> if \<not> tso \<and> buf x i \<noteq> None then None
                 else Some (goto i (if dormant (st x) then W_cas (st x) else W_done) x)
      | W_cas prev \<Rightarrow> if buf x i \<noteq> None then None
                     else if st x = prev then Some (goto i W_clear (x\<lparr>st := READY\<rparr>))
                     else Some (goto i (if dormant (st x) then W_cas (st x) else W_done) x)
      | W_clear \<Rightarrow> Some (goto i W_push (put_buf i False x))
      | W_push \<Rightarrow> if buf x i \<noteq> None then None else Some (goto i W_done (x\<lparr>queued := queued x + 1\<rparr>))
      | W_done \<Rightarrow> None)"

text \<open>The store buffer of the waker \<open>i\<close> drains.\<close>

fun drain :: "nat \<Rightarrow> wake_state \<Rightarrow> wake_state option" where
  "drain i x = map_option (\<lambda>b. x\<lparr>wake := b, buf := (buf x)(i := None)\<rparr>) (buf x i)"

definition asleep_start :: wake_state where
  "asleep_start = \<lparr>st = EXECUTE, wake = False, queued = 0, sleeper = S_cas, waker = (\<lambda>_. W_store), buf = (\<lambda>_. None)\<rparr>"

inductive race :: "bool \<Rightarrow> wake_state \<Rightarrow> bool" for tso where
  race_start: "race tso asleep_start"
| race_sleeper: "race tso x \<Longrightarrow> sleeper_step x = Some y \<Longrightarrow> race tso y"
| race_waker: "race tso x \<Longrightarrow> waker_step tso i x = Some y \<Longrightarrow> race tso y"
| race_drain: "race tso x \<Longrightarrow> drain i x = Some y \<Longrightarrow> race tso y"

section \<open>The invariant without reordering\<close>

text \<open>
  A ready process is queued or about to be; while it is not ready, a waker past its store has left its
  mark where the sleeper will find it, or the sleeper has found it.
\<close>

definition st_ok :: "wake_state \<Rightarrow> bool" where
  "st_ok x \<longleftrightarrow> (if sleeper x = S_cas then st x = EXECUTE else st x \<in> {WAIT_IO, READY}) \<and>
     (sleeper x = S_push \<longrightarrow> st x = READY)"

definition waker_ok :: "wake_state \<Rightarrow> nat \<Rightarrow> bool" where
  "waker_ok x i \<longleftrightarrow> (\<forall>s. waker x i = W_cas s \<longrightarrow> s = WAIT_IO) \<and>
     (waker x i \<in> {W_clear, W_push} \<or> buf x i = Some False \<longrightarrow> st x = READY) \<and>
     (buf x i = Some True \<longrightarrow> waker x i = W_load) \<and>
     (waker x i = W_store \<longrightarrow> buf x i = None) \<and>
     (st x \<noteq> READY \<and> sleeper x \<in> {S_cas, S_exchange} \<and> waker x i \<noteq> W_store \<and> buf x i = None \<longrightarrow> wake x) \<and>
     (st x \<noteq> READY \<and> waker x i = W_done \<longrightarrow> sleeper x \<noteq> S_done)"

definition queue_ok :: "wake_state \<Rightarrow> bool" where
  "queue_ok x \<longleftrightarrow> (st x = READY \<longrightarrow> 0 < queued x \<or> sleeper x = S_push \<or> (\<exists>i. waker x i \<in> {W_clear, W_push}))"

definition awake_inv :: "wake_state \<Rightarrow> bool" where
  "awake_inv x \<longleftrightarrow> st_ok x \<and> (\<forall>i. waker_ok x i) \<and> queue_ok x"

lemma awake_start: "awake_inv asleep_start"
  by (simp add: awake_inv_def st_ok_def waker_ok_def queue_ok_def asleep_start_def)

lemma sleeper_keeps_waker:
  assumes "st_ok x" "waker_ok x i" "sleeper_step x = Some y"
  shows "waker_ok y i"
proof (cases "sleeper x")
  case S_cas
  then have "y = x\<lparr>st := WAIT_IO, sleeper := S_exchange\<rparr>" "st x = EXECUTE" using assms(1,3) by (auto simp: st_ok_def)
  then show ?thesis using assms(2) S_cas by (simp add: waker_ok_def)
next
  case S_exchange
  then have y: "y = x\<lparr>wake := False, sleeper := (if wake x then S_load else S_done)\<rparr>" using assms(3) by simp
  show ?thesis using assms(2) S_exchange by (cases "wake x"; cases "buf x i") (auto simp: waker_ok_def y)
next
  case S_load
  then have y: "y = x\<lparr>sleeper := (if st x \<in> {WAIT_IO, BLOCKED} then S_store else S_done)\<rparr>" using assms(3) by simp
  have "st x = WAIT_IO \<or> st x = READY" using assms(1) S_load by (simp add: st_ok_def)
  then show ?thesis using assms(2) by (elim disjE) (simp_all add: waker_ok_def y)
next
  case S_store
  then show ?thesis using assms(2,3) by (auto simp: waker_ok_def)
next
  case S_push
  then have "y = x\<lparr>queued := queued x + 1, sleeper := S_done\<rparr>" "st x = READY" using assms(1,3) by (auto simp: st_ok_def)
  then show ?thesis using assms(2) by (simp add: waker_ok_def)
qed (use assms(3) in simp)

lemma awake_sleeper:
  assumes "awake_inv x" "sleeper_step x = Some y"
  shows "awake_inv y"
proof -
  have x: "st_ok x" "\<And>i. waker_ok x i" "queue_ok x" using assms(1) by (simp_all add: awake_inv_def)
  have "st_ok y" using x(1) assms(2) by (cases "sleeper x") (auto simp: st_ok_def split: if_splits)
  moreover have "waker_ok y i" for i by (rule sleeper_keeps_waker [OF x(1) x(2) assms(2)])
  moreover have "queue_ok y" using x(1,3) assms(2) by (cases "sleeper x") (auto simp: st_ok_def queue_ok_def)
  ultimately show ?thesis by (simp add: awake_inv_def)
qed

lemma awake_drain:
  assumes "awake_inv x" "drain i x = Some y"
  shows "awake_inv y"
proof -
  have x: "st_ok x" "\<And>i. waker_ok x i" "queue_ok x" using assms(1) by (simp_all add: awake_inv_def)
  obtain b where b: "buf x i = Some b" "y = x\<lparr>wake := b, buf := (buf x)(i := None)\<rparr>" using assms(2) by auto
  have "waker_ok y j" for j
    using x(2) [of i] x(2) [of j] b by (cases b; cases "j = i") (auto simp: waker_ok_def)
  moreover have "st_ok y" "queue_ok y" using x(1,3) by (auto simp: b(2) st_ok_def queue_ok_def)
  ultimately show ?thesis by (simp add: awake_inv_def)
qed

lemma waker_step_st:
  assumes "waker_ok x i" "waker_step False i x = Some y"
  shows "sleeper y = sleeper x \<and> wake y = wake x \<and> (st y = st x \<or> st x = WAIT_IO \<and> st y = READY) \<and>
    queued x \<le> queued y \<and> (\<forall>j. j \<noteq> i \<longrightarrow> waker y j = waker x j \<and> buf y j = buf x j)"
  using assms by (cases "waker x i") (auto simp: waker_ok_def goto_def put_buf_def split: if_splits)

lemma waker_step_own:
  assumes "st_ok x" "waker_ok x i" "waker_step False i x = Some y"
  shows "waker_ok y i"
proof (cases "waker x i")
  case W_load
  then show ?thesis using assms by (auto simp: st_ok_def waker_ok_def goto_def dormant_def split: if_splits)
next
  case (W_cas s)
  then show ?thesis using assms by (auto simp: st_ok_def waker_ok_def goto_def dormant_def split: if_splits)
qed (use assms in \<open>auto simp: waker_ok_def goto_def put_buf_def split: if_splits\<close>)

lemma waker_step_other:
  assumes "waker_ok x j" "j \<noteq> i" "waker_ok x i" "waker_step False i x = Some y"
  shows "waker_ok y j"
proof -
  have f: "sleeper y = sleeper x" "wake y = wake x" "waker y j = waker x j" "buf y j = buf x j"
    using waker_step_st [OF assms(3,4)] assms(2) by simp_all
  consider "st y = st x" | "st x = WAIT_IO" "st y = READY" using waker_step_st [OF assms(3,4)] by blast
  then show ?thesis using assms(1) by cases (simp_all add: waker_ok_def f)
qed

lemma waker_step_queue:
  assumes "queue_ok x" "waker_ok x i" "waker_step False i x = Some y"
  shows "queue_ok y"
proof (cases "waker x i \<in> {W_clear, W_push} \<or> st x = WAIT_IO \<and> st y = READY")
  case True
  then have "0 < queued y \<or> waker y i \<in> {W_clear, W_push}"
    using assms(2,3) by (cases "waker x i") (auto simp: goto_def put_buf_def split: if_splits)
  then show ?thesis by (auto simp: queue_ok_def)
next
  case False
  then have "st y = st x" "sleeper y = sleeper x" "queued x \<le> queued y" "\<And>j. j \<noteq> i \<Longrightarrow> waker y j = waker x j"
    using waker_step_st [OF assms(2,3)] by auto
  then show ?thesis using assms(1) False by (simp add: queue_ok_def) (metis order_less_le_trans)
qed

lemma awake_waker:
  assumes "awake_inv x" "waker_step False i x = Some y"
  shows "awake_inv y"
proof -
  have x: "st_ok x" "\<And>i. waker_ok x i" "queue_ok x" using assms(1) by (simp_all add: awake_inv_def)
  have "st_ok y" using x(1) waker_step_st [OF x(2) assms(2)] by (auto simp: st_ok_def split: if_splits)
  moreover have "waker_ok y j" for j
    using waker_step_own [OF x(1,2) assms(2)] waker_step_other [OF x(2) _ x(2) assms(2)] by (cases "j = i") simp_all
  moreover have "queue_ok y" by (rule waker_step_queue [OF x(3,2) assms(2)])
  ultimately show ?thesis by (simp add: awake_inv_def)
qed

lemma race_awake: "race False x \<Longrightarrow> awake_inv x"
  by (induction rule: race.induct) (blast intro: awake_start awake_sleeper awake_waker awake_drain)+
section \<open>Schedules\<close>

datatype move = Sleep | Wake nat | Drain nat

fun moves :: "bool \<Rightarrow> move list \<Rightarrow> wake_state \<Rightarrow> wake_state option" where
  "moves tso [] x = Some x"
| "moves tso (m # ms) x =
     Option.bind (case m of Sleep \<Rightarrow> sleeper_step x | Wake i \<Rightarrow> waker_step tso i x | Drain i \<Rightarrow> drain i x) (moves tso ms)"

lemma race_moves: "race tso x \<Longrightarrow> moves tso ms x = Some y \<Longrightarrow> race tso y"
proof (induction ms arbitrary: x)
  case (Cons m ms)
  then obtain z where z: "(case m of Sleep \<Rightarrow> sleeper_step x | Wake i \<Rightarrow> waker_step tso i x | Drain i \<Rightarrow> drain i x) = Some z"
      "moves tso ms z = Some y"
    unfolding moves.simps Option.bind_eq_Some_conv by blast
  have "race tso z"
  proof (cases m)
    case Sleep
    then show ?thesis using z(1) race_sleeper [OF Cons.prems(1)] by (simp only: move.case)
  next
    case (Wake i)
    then show ?thesis using z(1) race_waker [OF Cons.prems(1)] by (simp only: move.case)
  next
    case (Drain i)
    then show ?thesis using z(1) race_drain [OF Cons.prems(1)] by (simp only: move.case)
  qed
  then show ?case using Cons.IH z(2) by blast
qed simp

section \<open>Properties\<close>

text \<open>C18. No wake-up is lost when memory accesses take effect in program order: whatever the interleaving,
once the sleeping scheduler has let go of the process and the wakers that started have returned, at
least one of them, the process is ready and in the queue.\<close>

theorem no_lost_wakeup:
  assumes "race False x" "sleeper x = S_done" "\<forall>i. waker x i \<in> {W_store, W_done}" "waker x k = W_done"
  shows "st x = READY \<and> 0 < queued x"
proof -
  have inv: "waker_ok x k" "queue_ok x" using race_awake [OF assms(1)] by (simp_all add: awake_inv_def)
  then have "st x = READY" using assms(2,4) by (auto simp: waker_ok_def)
  moreover have "\<not> (\<exists>i. waker x i \<in> {W_clear, W_push})" using assms(3) by (metis insertE singletonD waker_pc.distinct)
  ultimately show ?thesis using inv(2) assms(2) by (simp add: queue_ok_def)
qed

theorem no_lost_wakeup_witness:
  "\<exists>x. moves False [Wake 0, Drain 0, Wake 0, Sleep, Sleep, Sleep, Sleep, Sleep] asleep_start = Some x \<and>
     st x = READY \<and> 0 < queued x"
proof -
  let ?ms = "[Wake 0, Drain 0, Wake 0, Sleep, Sleep, Sleep, Sleep, Sleep]"
  obtain x where x: "moves False ?ms asleep_start = Some x" "sleeper x = S_done" "waker x = (\<lambda>_. W_store)(0 := W_done)"
    by (simp add: asleep_start_def goto_def put_buf_def dormant_def)
  have "race False x" by (rule race_moves [OF race_start x(1)])
  then have "st x = READY \<and> 0 < queued x" by (rule no_lost_wakeup [of x 0]) (use x in simp_all)
  then show ?thesis using x(1) by blast
qed

text \<open>C23. With a store buffer the wake-up can be lost: the waker's mark is still in the buffer when it reads
the state of a running process and returns; the scheduler then puts the process to sleep and finds no
mark.  In the end both threads have returned, the mark is set, and the process sleeps outside the
queue.\<close>

theorem store_buffer_loses_wakeup:
  "\<exists>x. race True x \<and> sleeper x = S_done \<and> waker x = (\<lambda>_. W_store)(0 := W_done) \<and> buf x = (\<lambda>_. None) \<and>
     st x = WAIT_IO \<and> wake x \<and> queued x = 0"
proof -
  let ?x = "\<lparr>st = WAIT_IO, wake = True, queued = 0, sleeper = S_done, waker = (\<lambda>_. W_store)(0 := W_done), buf = (\<lambda>_. None)\<rparr>"
  have "moves True [Wake 0, Wake 0, Sleep, Sleep, Drain 0] asleep_start = Some ?x"
    by (simp add: asleep_start_def goto_def put_buf_def dormant_def fun_upd_idem)
  then have "race True ?x" by (rule race_moves [OF race_start])
  then show ?thesis by (intro exI [of _ ?x]) simp
qed

text \<open>Even in program order one wake-up can put the process into the queue twice: the scheduler finds the
mark and reads that the process sleeps, the waker makes it ready and queues it, and the scheduler
then makes it ready and queues it again.\<close>

theorem wakeup_enqueues_twice:
  "\<exists>x. race False x \<and> sleeper x = S_done \<and> waker x = (\<lambda>_. W_store)(0 := W_done) \<and> buf x = (\<lambda>_. None) \<and>
     st x = READY \<and> queued x = 2"
proof -
  obtain x where "moves False [Wake 0, Drain 0, Sleep, Sleep, Sleep, Wake 0, Wake 0, Wake 0, Drain 0, Wake 0, Sleep, Sleep]
        asleep_start = Some x"
      "sleeper x = S_done \<and> waker x = (\<lambda>_. W_store)(0 := W_done) \<and> buf x = (\<lambda>_. None) \<and> st x = READY \<and> queued x = 2"
    by (simp add: asleep_start_def goto_def put_buf_def dormant_def fun_upd_idem)
  then show ?thesis using race_moves [OF race_start] by blast
qed

end
