(* ===== verification/Vcol_Tree.thy ===== *)
theory Vcol_Tree
  imports Vcol_ArrayList Vcol_MapApi
begin

text \<open>
  \<^verbatim>\<open>VestaTreeMap\<close> and \<^verbatim>\<open>VestaTreeSet\<close> of \<^verbatim>\<open>vesta_collections.c\<close>: red-black trees with parent pointers and one
  sentinel node per tree.  The nodes are objects of the host heap, reached by address; a node read
  or written through an address that holds no node has no defined result.  The internal routines
  take the struct \<^verbatim>\<open>VestaTreeMap\<close> and the node heap and return both updated, the exported ones work on
  the store.  This theory holds the operations; \<^verbatim>\<open>Vcol_TreeHeap\<close> relates the heap to trees.
\<close>

type_synonym node_heap = "u64 \<rightharpoonup> VTreeNode"
type_synonym tree_state = "VestaTreeMap \<times> node_heap"

section \<open>Fields of nodes\<close>

definition ld :: "(VTreeNode \<Rightarrow> 'f) \<Rightarrow> node_heap \<Rightarrow> u64 \<Rightarrow> 'f option" where
  "ld f H p = map_option f (H p)"

definition upd :: "(VTreeNode \<Rightarrow> VTreeNode) \<Rightarrow> node_heap \<Rightarrow> u64 \<Rightarrow> node_heap option" where
  "upd f H p = map_option (\<lambda>n. H(p \<mapsto> f n)) (H p)"

abbreviation set_left :: "node_heap \<Rightarrow> u64 \<Rightarrow> u64 \<Rightarrow> node_heap option" where
  "set_left H p q \<equiv> upd (n_left_update (\<lambda>_. q)) H p"

abbreviation set_right :: "node_heap \<Rightarrow> u64 \<Rightarrow> u64 \<Rightarrow> node_heap option" where
  "set_right H p q \<equiv> upd (n_right_update (\<lambda>_. q)) H p"

abbreviation set_parent :: "node_heap \<Rightarrow> u64 \<Rightarrow> u64 \<Rightarrow> node_heap option" where
  "set_parent H p q \<equiv> upd (n_parent_update (\<lambda>_. q)) H p"

abbreviation set_color :: "node_heap \<Rightarrow> u64 \<Rightarrow> VTreeColor \<Rightarrow> node_heap option" where
  "set_color H p c \<equiv> upd (n_color_update (\<lambda>_. c)) H p"

section \<open>Nodes\<close>

definition vtree_make_node :: "store \<Rightarrow> VestaTreeMap \<Rightarrow> u64 \<Rightarrow> u64 \<Rightarrow> u64 \<times> store" where
  "vtree_make_node s t key value =
     (let (n, s) = malloc s 48
      in if n = 0 then (0, s)
         else (n, s\<lparr>nodes := (nodes s)(n \<mapsto>
                \<lparr>n_key = key, n_value = value, n_color = VTREE_RED,
                 n_left = t_nil t, n_right = t_nil t, n_parent = t_nil t\<rparr>)\<rparr>))"

definition free_at :: "node_heap \<Rightarrow> u64 \<Rightarrow> node_heap option" where
  "free_at H n = (if H n = None then None else Some (H(n := None)))"

partial_function (option) vtree_free_node :: "node_heap \<Rightarrow> u64 \<Rightarrow> u64 \<Rightarrow> node_heap option" where
  "vtree_free_node H n nl =
     (if n = nl then Some H
      else do {
        l \<leftarrow> ld n_left H n;
        H \<leftarrow> vtree_free_node H l nl;
        r \<leftarrow> ld n_right H n;
        H \<leftarrow> vtree_free_node H r nl;
        free_at H n
      })"

section \<open>Rotations\<close>

text \<open>
  \<^verbatim>\<open>if (x->parent == t->nil) t->root = y; else if (x == x->parent->left) x->parent->left = y;
  else x->parent->right = y;\<close>, the statement that \<^verbatim>\<open>vtree_left_rotate\<close> and \<^verbatim>\<open>vtree_transplant\<close> share,
  and its mirror image of \<^verbatim>\<open>vtree_right_rotate\<close>, which tests the right child first.
\<close>

definition replace_child :: "tree_state \<Rightarrow> u64 \<Rightarrow> u64 \<Rightarrow> tree_state option" where
  "replace_child tH x y =
     do {
       let (t, H) = tH;
       p \<leftarrow> ld n_parent H x;
       if p = t_nil t then Some (t\<lparr>t_root := y\<rparr>, H)
       else do {
         l \<leftarrow> ld n_left H p;
         H \<leftarrow> (if x = l then set_left H p y else set_right H p y);
         Some (t, H)
       }
     }"

definition replace_child_right :: "tree_state \<Rightarrow> u64 \<Rightarrow> u64 \<Rightarrow> tree_state option" where
  "replace_child_right tH x y =
     do {
       let (t, H) = tH;
       p \<leftarrow> ld n_parent H x;
       if p = t_nil t then Some (t\<lparr>t_root := y\<rparr>, H)
       else do {
         r \<leftarrow> ld n_right H p;
         H \<leftarrow> (if x = r then set_right H p y else set_left H p y);
         Some (t, H)
       }
     }"

definition vtree_left_rotate :: "tree_state \<Rightarrow> u64 \<Rightarrow> tree_state option" where
  "vtree_left_rotate tH x =
     do {
       let (t, H) = tH;
       y \<leftarrow> ld n_right H x;
       b \<leftarrow> ld n_left H y;
       H \<leftarrow> set_right H x b;
       b \<leftarrow> ld n_left H y;
       H \<leftarrow> (if b \<noteq> t_nil t then set_parent H b x else Some H);
       p \<leftarrow> ld n_parent H x;
       H \<leftarrow> set_parent H y p;
       (t, H) \<leftarrow> replace_child (t, H) x y;
       H \<leftarrow> set_left H y x;
       H \<leftarrow> set_parent H x y;
       Some (t, H)
     }"

definition vtree_right_rotate :: "tree_state \<Rightarrow> u64 \<Rightarrow> tree_state option" where
  "vtree_right_rotate tH x =
     do {
       let (t, H) = tH;
       y \<leftarrow> ld n_left H x;
       b \<leftarrow> ld n_right H y;
       H \<leftarrow> set_left H x b;
       b \<leftarrow> ld n_right H y;
       H \<leftarrow> (if b \<noteq> t_nil t then set_parent H b x else Some H);
       p \<leftarrow> ld n_parent H x;
       H \<leftarrow> set_parent H y p;
       (t, H) \<leftarrow> replace_child_right (t, H) x y;
       H \<leftarrow> set_right H y x;
       H \<leftarrow> set_parent H x y;
       Some (t, H)
     }"

section \<open>Repair after an insertion\<close>

text \<open>The branch of the loop body for a red uncle, the same on both sides: recolour and go up.\<close>

definition insert_recolor :: "tree_state \<Rightarrow> u64 \<Rightarrow> u64 \<Rightarrow> (tree_state \<times> u64) option" where
  "insert_recolor tH z y =
     do {
       let (t, H) = tH;
       zp \<leftarrow> ld n_parent H z;
       H \<leftarrow> set_color H zp VTREE_BLACK;
       H \<leftarrow> set_color H y VTREE_BLACK;
       zpp \<leftarrow> ld n_parent H zp;
       H \<leftarrow> set_color H zpp VTREE_RED;
       Some ((t, H), zpp)
     }"

text \<open>
  The branch for a black uncle when the parent is a left child: \<^verbatim>\<open>if (z == z->parent->right)\<close> a left
  rotation at the parent, then recolouring and a right rotation at the grandparent; and its mirror
  image.
\<close>

definition insert_rotate_left_case :: "tree_state \<Rightarrow> u64 \<Rightarrow> (tree_state \<times> u64) option" where
  "insert_rotate_left_case tH z =
     do {
       zp \<leftarrow> ld n_parent (snd tH) z;
       zpr \<leftarrow> ld n_right (snd tH) zp;
       (tH, z) \<leftarrow> (if z = zpr then do { tH \<leftarrow> vtree_left_rotate tH zp; Some (tH, zp) } else Some (tH, z));
       let (t, H) = tH;
       zp \<leftarrow> ld n_parent H z;
       H \<leftarrow> set_color H zp VTREE_BLACK;
       zpp \<leftarrow> ld n_parent H zp;
       H \<leftarrow> set_color H zpp VTREE_RED;
       tH \<leftarrow> vtree_right_rotate (t, H) zpp;
       Some (tH, z)
     }"

definition insert_rotate_right_case :: "tree_state \<Rightarrow> u64 \<Rightarrow> (tree_state \<times> u64) option" where
  "insert_rotate_right_case tH z =
     do {
       zp \<leftarrow> ld n_parent (snd tH) z;
       zpl \<leftarrow> ld n_left (snd tH) zp;
       (tH, z) \<leftarrow> (if z = zpl then do { tH \<leftarrow> vtree_right_rotate tH zp; Some (tH, zp) } else Some (tH, z));
       let (t, H) = tH;
       zp \<leftarrow> ld n_parent H z;
       H \<leftarrow> set_color H zp VTREE_BLACK;
       zpp \<leftarrow> ld n_parent H zp;
       H \<leftarrow> set_color H zpp VTREE_RED;
       tH \<leftarrow> vtree_left_rotate (t, H) zpp;
       Some (tH, z)
     }"

definition insert_fixup_body :: "tree_state \<Rightarrow> u64 \<Rightarrow> (tree_state \<times> u64) option" where
  "insert_fixup_body tH z =
     do {
       let H = snd tH;
       zp \<leftarrow> ld n_parent H z;
       zpp \<leftarrow> ld n_parent H zp;
       l \<leftarrow> ld n_left H zpp;
       if zp = l
       then do {
         y \<leftarrow> ld n_right H zpp;
         yc \<leftarrow> ld n_color H y;
         if yc = VTREE_RED then insert_recolor tH z y else insert_rotate_left_case tH z
       }
       else do {
         yc \<leftarrow> ld n_color H l;
         if yc = VTREE_RED then insert_recolor tH z l else insert_rotate_right_case tH z
       }
     }"

partial_function (option) insert_fixup_loop :: "tree_state \<Rightarrow> u64 \<Rightarrow> tree_state option" where
  "insert_fixup_loop tH z =
     do {
       zp \<leftarrow> ld n_parent (snd tH) z;
       c \<leftarrow> ld n_color (snd tH) zp;
       if c = VTREE_RED
       then do { (tH, z) \<leftarrow> insert_fixup_body tH z; insert_fixup_loop tH z }
       else Some tH
     }"

definition vtree_insert_fixup :: "tree_state \<Rightarrow> u64 \<Rightarrow> tree_state option" where
  "vtree_insert_fixup tH z =
     do {
       (t, H) \<leftarrow> insert_fixup_loop tH z;
       H \<leftarrow> set_color H (t_root t) VTREE_BLACK;
       Some (t, H)
     }"

section \<open>Removal\<close>

definition vtree_transplant :: "tree_state \<Rightarrow> u64 \<Rightarrow> u64 \<Rightarrow> tree_state option" where
  "vtree_transplant tH u v =
     do {
       (t, H) \<leftarrow> replace_child tH u v;
       p \<leftarrow> ld n_parent H u;
       H \<leftarrow> set_parent H v p;
       Some (t, H)
     }"

partial_function (option) vtree_minimum :: "VestaTreeMap \<Rightarrow> node_heap \<Rightarrow> u64 \<Rightarrow> u64 option" where
  "vtree_minimum t H x =
     do {
       l \<leftarrow> ld n_left H x;
       if l \<noteq> t_nil t then vtree_minimum t H l else Some x
     }"

text \<open>
  The body of the loop of \<^verbatim>\<open>vtree_delete_fixup\<close> when \<open>x\<close> is a left child, in three parts: a red sibling is
  rotated away; a sibling with two black children is painted red and the repair goes up; otherwise
  rotations at the sibling and the parent end it.  The mirror images follow.
\<close>

definition delete_left_sibling :: "tree_state \<Rightarrow> u64 \<Rightarrow> (tree_state \<times> u64) option" where
  "delete_left_sibling tH x =
     do {
       let (t, H) = tH;
       p \<leftarrow> ld n_parent H x;
       w \<leftarrow> ld n_right H p;
       c \<leftarrow> ld n_color H w;
       if c = VTREE_RED
       then do {
         H \<leftarrow> set_color H w VTREE_BLACK;
         H \<leftarrow> set_color H p VTREE_RED;
         (t, H) \<leftarrow> vtree_left_rotate (t, H) p;
         p \<leftarrow> ld n_parent H x;
         w \<leftarrow> ld n_right H p;
         Some ((t, H), w)
       }
       else Some (tH, w)
     }"

definition delete_left_rotate :: "tree_state \<Rightarrow> u64 \<Rightarrow> u64 \<Rightarrow> (tree_state \<times> u64) option" where
  "delete_left_rotate tH x w =
     do {
       let (t, H) = tH;
       wr \<leftarrow> ld n_right H w;
       rc \<leftarrow> ld n_color H wr;
       ((t, H), w) \<leftarrow>
         (if rc = VTREE_BLACK
          then do {
            wl \<leftarrow> ld n_left H w;
            H \<leftarrow> set_color H wl VTREE_BLACK;
            H \<leftarrow> set_color H w VTREE_RED;
            (t, H) \<leftarrow> vtree_right_rotate (t, H) w;
            p \<leftarrow> ld n_parent H x;
            w \<leftarrow> ld n_right H p;
            Some ((t, H), w)
          }
          else Some ((t, H), w));
       p \<leftarrow> ld n_parent H x;
       c \<leftarrow> ld n_color H p;
       H \<leftarrow> set_color H w c;
       H \<leftarrow> set_color H p VTREE_BLACK;
       wr \<leftarrow> ld n_right H w;
       H \<leftarrow> set_color H wr VTREE_BLACK;
       (t, H) \<leftarrow> vtree_left_rotate (t, H) p;
       Some ((t, H), t_root t)
     }"

definition delete_right_sibling :: "tree_state \<Rightarrow> u64 \<Rightarrow> (tree_state \<times> u64) option" where
  "delete_right_sibling tH x =
     do {
       let (t, H) = tH;
       p \<leftarrow> ld n_parent H x;
       w \<leftarrow> ld n_left H p;
       c \<leftarrow> ld n_color H w;
       if c = VTREE_RED
       then do {
         H \<leftarrow> set_color H w VTREE_BLACK;
         H \<leftarrow> set_color H p VTREE_RED;
         (t, H) \<leftarrow> vtree_right_rotate (t, H) p;
         p \<leftarrow> ld n_parent H x;
         w \<leftarrow> ld n_left H p;
         Some ((t, H), w)
       }
       else Some (tH, w)
     }"

definition delete_right_rotate :: "tree_state \<Rightarrow> u64 \<Rightarrow> u64 \<Rightarrow> (tree_state \<times> u64) option" where
  "delete_right_rotate tH x w =
     do {
       let (t, H) = tH;
       wl \<leftarrow> ld n_left H w;
       lc \<leftarrow> ld n_color H wl;
       ((t, H), w) \<leftarrow>
         (if lc = VTREE_BLACK
          then do {
            wr \<leftarrow> ld n_right H w;
            H \<leftarrow> set_color H wr VTREE_BLACK;
            H \<leftarrow> set_color H w VTREE_RED;
            (t, H) \<leftarrow> vtree_left_rotate (t, H) w;
            p \<leftarrow> ld n_parent H x;
            w \<leftarrow> ld n_left H p;
            Some ((t, H), w)
          }
          else Some ((t, H), w));
       p \<leftarrow> ld n_parent H x;
       c \<leftarrow> ld n_color H p;
       H \<leftarrow> set_color H w c;
       H \<leftarrow> set_color H p VTREE_BLACK;
       wl \<leftarrow> ld n_left H w;
       H \<leftarrow> set_color H wl VTREE_BLACK;
       (t, H) \<leftarrow> vtree_right_rotate (t, H) p;
       Some ((t, H), t_root t)
     }"

text \<open>\<^verbatim>\<open>w->color = VTREE_RED; x = x->parent;\<close>, the same on both sides.\<close>

definition delete_recolor :: "tree_state \<Rightarrow> u64 \<Rightarrow> u64 \<Rightarrow> (tree_state \<times> u64) option" where
  "delete_recolor tH x w =
     do {
       let (t, H) = tH;
       H \<leftarrow> set_color H w VTREE_RED;
       p \<leftarrow> ld n_parent H x;
       Some ((t, H), p)
     }"

definition both_black :: "node_heap \<Rightarrow> u64 \<Rightarrow> u64 \<Rightarrow> bool option" where
  "both_black H a b =
     do {
       ca \<leftarrow> ld n_color H a;
       if ca = VTREE_BLACK then do { cb \<leftarrow> ld n_color H b; Some (cb = VTREE_BLACK) } else Some False
     }"

definition delete_fixup_body :: "tree_state \<Rightarrow> u64 \<Rightarrow> (tree_state \<times> u64) option" where
  "delete_fixup_body tH x =
     do {
       p \<leftarrow> ld n_parent (snd tH) x;
       pl \<leftarrow> ld n_left (snd tH) p;
       if x = pl
       then do {
         (tH, w) \<leftarrow> delete_left_sibling tH x;
         wl \<leftarrow> ld n_left (snd tH) w;
         wr \<leftarrow> ld n_right (snd tH) w;
         b \<leftarrow> both_black (snd tH) wl wr;
         if b then delete_recolor tH x w else delete_left_rotate tH x w
       }
       else do {
         (tH, w) \<leftarrow> delete_right_sibling tH x;
         wr \<leftarrow> ld n_right (snd tH) w;
         wl \<leftarrow> ld n_left (snd tH) w;
         b \<leftarrow> both_black (snd tH) wr wl;
         if b then delete_recolor tH x w else delete_right_rotate tH x w
       }
     }"

partial_function (option) delete_fixup_loop :: "tree_state \<Rightarrow> u64 \<Rightarrow> (tree_state \<times> u64) option" where
  "delete_fixup_loop tH x =
     (if x = t_root (fst tH) then Some (tH, x)
      else do {
        c \<leftarrow> ld n_color (snd tH) x;
        if c = VTREE_BLACK
        then do { (tH, x) \<leftarrow> delete_fixup_body tH x; delete_fixup_loop tH x }
        else Some (tH, x)
      })"

definition vtree_delete_fixup :: "tree_state \<Rightarrow> u64 \<Rightarrow> tree_state option" where
  "vtree_delete_fixup tH x =
     do {
       ((t, H), x) \<leftarrow> delete_fixup_loop tH x;
       H \<leftarrow> set_color H x VTREE_BLACK;
       Some (t, H)
     }"

section \<open>The exported operations of \<^verbatim>\<open>VestaTreeMap\<close>\<close>

partial_function (option) vtree_find_loop :: "VestaTreeMap \<Rightarrow> node_heap \<Rightarrow> u64 \<Rightarrow> u64 \<Rightarrow> u64 option" where
  "vtree_find_loop t H key cur =
     (if cur = t_nil t then Some 0
      else do {
        k \<leftarrow> ld n_key H cur;
        if key = k then Some cur
        else do {
          next \<leftarrow> (if key < k then ld n_left H cur else ld n_right H cur);
          vtree_find_loop t H key next
        }
      })"

definition vtree_find :: "VestaTreeMap \<Rightarrow> node_heap \<Rightarrow> u64 \<Rightarrow> u64 option" where
  "vtree_find t H key = vtree_find_loop t H key (t_root t)"

text \<open>
  The struct is put into the store before the sentinel is allocated, so that its address is in use
  by then; its fields are not read before they are set.
\<close>

definition vcol_tmap_new :: "store \<Rightarrow> (u64 \<times> store) option" where
  "vcol_tmap_new s =
     (let (t, s) = malloc s 24
      in if t = 0 then Some (VCOL_NULL, s)
         else let s = put OTreeMap s t \<lparr>t_root = 0, t_nil = 0, t_size = 0\<rparr>; (nl, s) = malloc s 48
              in if nl = 0 then do { s \<leftarrow> free_obj s t; Some (VCOL_NULL, s) }
                 else Some (t, put OTreeMap
                   (s\<lparr>nodes := (nodes s)(nl \<mapsto> \<lparr>n_key = 0, n_value = 0, n_color = VTREE_BLACK,
                                             n_left = nl, n_right = nl, n_parent = nl\<rparr>)\<rparr>)
                   t \<lparr>t_root = nl, t_nil = nl, t_size = 0\<rparr>))"

definition vcol_tmap_free :: "store \<Rightarrow> u64 \<Rightarrow> store option" where
  "vcol_tmap_free s handle =
     (if handle = 0 then Some s
      else do {
        t \<leftarrow> deref as_tmap s handle;
        H \<leftarrow> vtree_free_node (nodes s) (t_root t) (t_nil t);
        H \<leftarrow> free_at H (t_nil t);
        free_obj (s\<lparr>nodes := H\<rparr>) handle
      })"

text \<open>The descent \<^verbatim>\<open>while (x != t->nil) { y = x; x = (z->key < x->key) ? x->left : x->right; }\<close>.\<close>

partial_function (option) tmap_put_loop ::
  "VestaTreeMap \<Rightarrow> node_heap \<Rightarrow> u64 \<Rightarrow> u64 \<Rightarrow> u64 \<Rightarrow> u64 option" where
  "tmap_put_loop t H z y x =
     (if x = t_nil t then Some y
      else do {
        zk \<leftarrow> ld n_key H z;
        k \<leftarrow> ld n_key H x;
        next \<leftarrow> (if zk < k then ld n_left H x else ld n_right H x);
        tmap_put_loop t H z x next
      })"

definition tmap_link :: "tree_state \<Rightarrow> u64 \<Rightarrow> u64 \<Rightarrow> tree_state option" where
  "tmap_link tH z y =
     do {
       let (t, H) = tH;
       H \<leftarrow> set_parent H z y;
       if y = t_nil t then Some (t\<lparr>t_root := z\<rparr>, H)
       else do {
         zk \<leftarrow> ld n_key H z;
         k \<leftarrow> ld n_key H y;
         H \<leftarrow> (if zk < k then set_left H y z else set_right H y z);
         Some (t, H)
       }
     }"

definition vcol_tmap_put :: "store \<Rightarrow> u64 \<Rightarrow> u64 \<Rightarrow> u64 \<Rightarrow> store option" where
  "vcol_tmap_put s handle key value =
     (if handle = 0 then Some s
      else do {
        t \<leftarrow> deref as_tmap s handle;
        exist \<leftarrow> vtree_find t (nodes s) key;
        if exist \<noteq> 0
        then do { H \<leftarrow> upd (n_value_update (\<lambda>_. value)) (nodes s) exist; Some (s\<lparr>nodes := H\<rparr>) }
        else do {
          let (z, s) = vtree_make_node s t key value;
          if z = 0 then Some s
          else do {
            y \<leftarrow> tmap_put_loop t (nodes s) z (t_nil t) (t_root t);
            tH \<leftarrow> tmap_link (t, nodes s) z y;
            (t, H) \<leftarrow> vtree_insert_fixup tH z;
            Some (put OTreeMap (s\<lparr>nodes := H\<rparr>) handle (t\<lparr>t_size := t_size t + 1\<rparr>))
          }
        }
      })"

definition vcol_tmap_get :: "store \<Rightarrow> u64 \<Rightarrow> u64 \<Rightarrow> u64 option" where
  "vcol_tmap_get s handle key =
     (if handle = 0 then Some 0
      else do {
        t \<leftarrow> deref as_tmap s handle;
        n \<leftarrow> vtree_find t (nodes s) key;
        if n \<noteq> 0 then ld n_value (nodes s) n else Some 0
      })"

definition vcol_tmap_contains :: "store \<Rightarrow> u64 \<Rightarrow> u64 \<Rightarrow> u64 option" where
  "vcol_tmap_contains s handle key =
     (if handle = 0 then Some 0
      else do {
        t \<leftarrow> deref as_tmap s handle;
        n \<leftarrow> vtree_find t (nodes s) key;
        Some (if n \<noteq> 0 then 1 else 0)
      })"

text \<open>
  \<^verbatim>\<open>vtree_transplant(t, z, y); y->left = z->left; y->left->parent = y; y->color = z->color;\<close>, the end of the
  branch of \<^verbatim>\<open>vcol_tmap_remove\<close> for a node with two children.
\<close>

definition tmap_take_place :: "tree_state \<Rightarrow> u64 \<Rightarrow> u64 \<Rightarrow> tree_state option" where
  "tmap_take_place tH z y =
     do {
       (t, H) \<leftarrow> vtree_transplant tH z y;
       l \<leftarrow> ld n_left H z;
       H \<leftarrow> set_left H y l;
       l \<leftarrow> ld n_left H y;
       H \<leftarrow> set_parent H l y;
       c \<leftarrow> ld n_color H z;
       H \<leftarrow> set_color H y c;
       Some (t, H)
     }"

text \<open>
  The part of \<^verbatim>\<open>vcol_tmap_remove\<close> that takes the node \<open>z\<close> out of the tree: the new state, the node \<open>x\<close> that
  moved into the gap, and the colour that left it.
\<close>

definition tmap_unlink :: "tree_state \<Rightarrow> u64 \<Rightarrow> (tree_state \<times> u64 \<times> VTreeColor) option" where
  "tmap_unlink tH z =
     do {
       let (t, H) = tH;
       y_orig \<leftarrow> ld n_color H z;
       zl \<leftarrow> ld n_left H z;
       zr \<leftarrow> ld n_right H z;
       if zl = t_nil t then do { tH \<leftarrow> vtree_transplant (t, H) z zr; Some (tH, zr, y_orig) }
       else if zr = t_nil t then do { tH \<leftarrow> vtree_transplant (t, H) z zl; Some (tH, zl, y_orig) }
       else do {
         y \<leftarrow> vtree_minimum t H zr;
         y_orig \<leftarrow> ld n_color H y;
         x \<leftarrow> ld n_right H y;
         yp \<leftarrow> ld n_parent H y;
         (t, H) \<leftarrow>
           (if yp = z then do { H \<leftarrow> set_parent H x y; Some (t, H) }
            else do {
              (t, H) \<leftarrow> vtree_transplant (t, H) y x;
              r \<leftarrow> ld n_right H z;
              H \<leftarrow> set_right H y r;
              r \<leftarrow> ld n_right H y;
              H \<leftarrow> set_parent H r y;
              Some (t, H)
            });
         tH \<leftarrow> tmap_take_place (t, H) z y;
         Some (tH, x, y_orig)
       }
     }"

definition vcol_tmap_remove :: "store \<Rightarrow> u64 \<Rightarrow> u64 \<Rightarrow> (u64 \<times> store) option" where
  "vcol_tmap_remove s handle key =
     (if handle = 0 then Some (VCOL_NOT_FOUND, s)
      else do {
        t \<leftarrow> deref as_tmap s handle;
        z \<leftarrow> vtree_find t (nodes s) key;
        if z = 0 then Some (VCOL_NOT_FOUND, s)
        else do {
          old \<leftarrow> ld n_value (nodes s) z;
          ((t, H), x, y_orig) \<leftarrow> tmap_unlink (t, nodes s) z;
          H \<leftarrow> free_at H z;
          (t, H) \<leftarrow> (if y_orig = VTREE_BLACK then vtree_delete_fixup (t, H) x else Some (t, H));
          Some (old, put OTreeMap (s\<lparr>nodes := H\<rparr>) handle (t\<lparr>t_size := t_size t - 1\<rparr>))
        }
      })"

definition vcol_tmap_size :: "store \<Rightarrow> u64 \<Rightarrow> u64 option" where
  "vcol_tmap_size s handle = (if handle = 0 then Some 0 else map_option t_size (deref as_tmap s handle))"

definition vcol_tmap_clear :: "store \<Rightarrow> u64 \<Rightarrow> store option" where
  "vcol_tmap_clear s handle =
     (if handle = 0 then Some s
      else do {
        t \<leftarrow> deref as_tmap s handle;
        H \<leftarrow> vtree_free_node (nodes s) (t_root t) (t_nil t);
        Some (put OTreeMap (s\<lparr>nodes := H\<rparr>) handle (t\<lparr>t_root := t_nil t, t_size := 0\<rparr>))
      })"

definition vcol_tmap_first_key :: "store \<Rightarrow> u64 \<Rightarrow> u64 option" where
  "vcol_tmap_first_key s handle =
     (if handle = 0 then Some VCOL_NOT_FOUND
      else do {
        t \<leftarrow> deref as_tmap s handle;
        if t_root t = t_nil t then Some VCOL_NOT_FOUND
        else do { x \<leftarrow> vtree_minimum t (nodes s) (t_root t); ld n_key (nodes s) x }
      })"

partial_function (option) tmap_last_loop :: "VestaTreeMap \<Rightarrow> node_heap \<Rightarrow> u64 \<Rightarrow> u64 option" where
  "tmap_last_loop t H x =
     do {
       r \<leftarrow> ld n_right H x;
       if r \<noteq> t_nil t then tmap_last_loop t H r else Some x
     }"

definition vcol_tmap_last_key :: "store \<Rightarrow> u64 \<Rightarrow> u64 option" where
  "vcol_tmap_last_key s handle =
     (if handle = 0 then Some VCOL_NOT_FOUND
      else do {
        t \<leftarrow> deref as_tmap s handle;
        if t_root t = t_nil t then Some VCOL_NOT_FOUND
        else do { x \<leftarrow> tmap_last_loop t (nodes s) (t_root t); ld n_key (nodes s) x }
      })"

partial_function (option) tmap_floor_loop ::
  "VestaTreeMap \<Rightarrow> node_heap \<Rightarrow> u64 \<Rightarrow> u64 \<Rightarrow> u64 \<Rightarrow> u64 option" where
  "tmap_floor_loop t H key best cur =
     (if cur = t_nil t then (if best \<noteq> 0 then ld n_key H best else Some VCOL_NOT_FOUND)
      else do {
        k \<leftarrow> ld n_key H cur;
        if k = key then Some k
        else if k < key then do { r \<leftarrow> ld n_right H cur; tmap_floor_loop t H key cur r }
        else do { l \<leftarrow> ld n_left H cur; tmap_floor_loop t H key best l }
      })"

definition vcol_tmap_floor_key :: "store \<Rightarrow> u64 \<Rightarrow> u64 \<Rightarrow> u64 option" where
  "vcol_tmap_floor_key s handle key =
     (if handle = 0 then Some VCOL_NOT_FOUND
      else do { t \<leftarrow> deref as_tmap s handle; tmap_floor_loop t (nodes s) key 0 (t_root t) })"

partial_function (option) tmap_ceiling_loop ::
  "VestaTreeMap \<Rightarrow> node_heap \<Rightarrow> u64 \<Rightarrow> u64 \<Rightarrow> u64 \<Rightarrow> u64 option" where
  "tmap_ceiling_loop t H key best cur =
     (if cur = t_nil t then (if best \<noteq> 0 then ld n_key H best else Some VCOL_NOT_FOUND)
      else do {
        k \<leftarrow> ld n_key H cur;
        if k = key then Some k
        else if k > key then do { l \<leftarrow> ld n_left H cur; tmap_ceiling_loop t H key cur l }
        else do { r \<leftarrow> ld n_right H cur; tmap_ceiling_loop t H key best r }
      })"

definition vcol_tmap_ceiling_key :: "store \<Rightarrow> u64 \<Rightarrow> u64 \<Rightarrow> u64 option" where
  "vcol_tmap_ceiling_key s handle key =
     (if handle = 0 then Some VCOL_NOT_FOUND
      else do { t \<leftarrow> deref as_tmap s handle; tmap_ceiling_loop t (nodes s) key 0 (t_root t) })"

partial_function (option) vtree_inorder_keys :: "store \<Rightarrow> u64 \<Rightarrow> u64 \<Rightarrow> u64 \<Rightarrow> store option" where
  "vtree_inorder_keys s n nl alist =
     (if n = nl then Some s
      else do {
        l \<leftarrow> ld n_left (nodes s) n;
        s \<leftarrow> vtree_inorder_keys s l nl alist;
        k \<leftarrow> ld n_key (nodes s) n;
        (_, s) \<leftarrow> vcol_alist_push s alist k;
        r \<leftarrow> ld n_right (nodes s) n;
        vtree_inorder_keys s r nl alist
      })"

partial_function (option) vtree_inorder_values :: "store \<Rightarrow> u64 \<Rightarrow> u64 \<Rightarrow> u64 \<Rightarrow> store option" where
  "vtree_inorder_values s n nl alist =
     (if n = nl then Some s
      else do {
        l \<leftarrow> ld n_left (nodes s) n;
        s \<leftarrow> vtree_inorder_values s l nl alist;
        v \<leftarrow> ld n_value (nodes s) n;
        (_, s) \<leftarrow> vcol_alist_push s alist v;
        r \<leftarrow> ld n_right (nodes s) n;
        vtree_inorder_values s r nl alist
      })"

definition vcol_tmap_keys :: "store \<Rightarrow> u64 \<Rightarrow> (u64 \<times> store) option" where
  "vcol_tmap_keys s handle =
     (if handle = 0 then Some (VCOL_NULL, s)
      else do {
        t \<leftarrow> deref as_tmap s handle;
        let (al, s) = vcol_alist_new s (if t_size t > 0 then t_size t else VALIST_MIN_CAP);
        if al = 0 then Some (VCOL_NULL, s)
        else do { s \<leftarrow> vtree_inorder_keys s (t_root t) (t_nil t) al; Some (al, s) }
      })"

definition vcol_tmap_values :: "store \<Rightarrow> u64 \<Rightarrow> (u64 \<times> store) option" where
  "vcol_tmap_values s handle =
     (if handle = 0 then Some (VCOL_NULL, s)
      else do {
        t \<leftarrow> deref as_tmap s handle;
        let (al, s) = vcol_alist_new s (if t_size t > 0 then t_size t else VALIST_MIN_CAP);
        if al = 0 then Some (VCOL_NULL, s)
        else do { s \<leftarrow> vtree_inorder_values s (t_root t) (t_nil t) al; Some (al, s) }
      })"

section \<open>The exported operations of \<^verbatim>\<open>VestaTreeSet\<close>\<close>

definition VTSET_PRESENT :: u64 where
  "VTSET_PRESENT = 0xFFFFFFFFFFFFFFFF - 3"

definition vcol_tset_new :: "store \<Rightarrow> (u64 \<times> store) option" where
  "vcol_tset_new s = vcol_tmap_new s"

definition vcol_tset_free :: "store \<Rightarrow> u64 \<Rightarrow> store option" where
  "vcol_tset_free s h = vcol_tmap_free s h"

definition vcol_tset_add :: "store \<Rightarrow> u64 \<Rightarrow> u64 \<Rightarrow> (u64 \<times> store) option" where
  "vcol_tset_add s h e =
     do {
       c \<leftarrow> vcol_tmap_contains s h e;
       if c \<noteq> 0 then Some (0, s) else do { s \<leftarrow> vcol_tmap_put s h e VTSET_PRESENT; Some (1, s) }
     }"

definition vcol_tset_contains :: "store \<Rightarrow> u64 \<Rightarrow> u64 \<Rightarrow> u64 option" where
  "vcol_tset_contains s h e = vcol_tmap_contains s h e"

definition vcol_tset_remove :: "store \<Rightarrow> u64 \<Rightarrow> u64 \<Rightarrow> (u64 \<times> store) option" where
  "vcol_tset_remove s h e =
     do { (r, s) \<leftarrow> vcol_tmap_remove s h e; Some (if r \<noteq> VCOL_NOT_FOUND then 1 else 0, s) }"

definition vcol_tset_size :: "store \<Rightarrow> u64 \<Rightarrow> u64 option" where
  "vcol_tset_size s h = vcol_tmap_size s h"

definition vcol_tset_clear :: "store \<Rightarrow> u64 \<Rightarrow> store option" where
  "vcol_tset_clear s h = vcol_tmap_clear s h"

definition vcol_tset_first :: "store \<Rightarrow> u64 \<Rightarrow> u64 option" where
  "vcol_tset_first s h = vcol_tmap_first_key s h"

definition vcol_tset_last :: "store \<Rightarrow> u64 \<Rightarrow> u64 option" where
  "vcol_tset_last s h = vcol_tmap_last_key s h"

definition vcol_tset_to_list :: "store \<Rightarrow> u64 \<Rightarrow> (u64 \<times> store) option" where
  "vcol_tset_to_list s h = vcol_tmap_keys s h"

end
