(* ===== verification/Vcol_TreeHeap.thy ===== *)
theory Vcol_TreeHeap
  imports Vcol_Tree
begin

text \<open>
  The node heap as a tree.  A tree of addresses determines what every one of its nodes holds; a
  context is the path from a subtree to the root, so that a loop that climbs along parent pointers
  moves a focus.  Each step of the pointer code is stated as a step on the tree at the focus.
\<close>

datatype ptree = PLeaf | PNode u64 VTreeColor u64 u64 ptree ptree

datatype crumb = CL u64 VTreeColor u64 u64 ptree | CR u64 VTreeColor u64 u64 ptree

fun plug :: "ptree \<Rightarrow> crumb list \<Rightarrow> ptree" where
  "plug t [] = t"
| "plug t (CL a c k v r # cs) = plug (PNode a c k v t r) cs"
| "plug t (CR a c k v l # cs) = plug (PNode a c k v l t) cs"

fun addrs :: "ptree \<Rightarrow> u64 list" where
  "addrs PLeaf = []"
| "addrs (PNode a c k v l r) = addrs l @ a # addrs r"

fun inorder :: "ptree \<Rightarrow> (u64 \<times> u64 \<times> u64) list" where
  "inorder PLeaf = []"
| "inorder (PNode a c k v l r) = inorder l @ (a, k, v) # inorder r"

fun addr :: "u64 \<Rightarrow> ptree \<Rightarrow> u64" where
  "addr nl PLeaf = nl"
| "addr nl (PNode a c k v l r) = a"

fun crumb_addr :: "crumb \<Rightarrow> u64" where
  "crumb_addr (CL a c k v r) = a"
| "crumb_addr (CR a c k v l) = a"

fun crumb_tree :: "crumb \<Rightarrow> ptree" where
  "crumb_tree (CL a c k v r) = r"
| "crumb_tree (CR a c k v l) = l"

definition up :: "u64 \<Rightarrow> crumb list \<Rightarrow> u64" where
  "up nl cs = (if cs = [] then nl else crumb_addr (hd cs))"

definition ctx_addrs :: "crumb list \<Rightarrow> u64 list" where
  "ctx_addrs cs = concat (map (\<lambda>c. crumb_addr c # addrs (crumb_tree c)) cs)"

fun tree_at :: "node_heap \<Rightarrow> u64 \<Rightarrow> u64 \<Rightarrow> ptree \<Rightarrow> bool" where
  "tree_at H nl p PLeaf = True"
| "tree_at H nl p (PNode a c k v l r) =
     (H a = Some \<lparr>n_key = k, n_value = v, n_color = c, n_left = addr nl l, n_right = addr nl r, n_parent = p\<rparr>
      \<and> tree_at H nl a l \<and> tree_at H nl a r)"

fun ctx_at :: "node_heap \<Rightarrow> u64 \<Rightarrow> u64 \<Rightarrow> crumb list \<Rightarrow> bool" where
  "ctx_at H nl q [] = True"
| "ctx_at H nl q (CL a c k v r # cs) =
     (H a = Some \<lparr>n_key = k, n_value = v, n_color = c, n_left = q, n_right = addr nl r, n_parent = up nl cs\<rparr>
      \<and> tree_at H nl a r \<and> ctx_at H nl a cs)"
| "ctx_at H nl q (CR a c k v l # cs) =
     (H a = Some \<lparr>n_key = k, n_value = v, n_color = c, n_left = addr nl l, n_right = q, n_parent = up nl cs\<rparr>
      \<and> tree_at H nl a l \<and> ctx_at H nl a cs)"

text \<open>
  The state of a tree: the struct points at the root and the sentinel, the nodes of \<open>t\<close> are in the
  heap at distinct addresses, the sentinel holds \<open>N\<close>, and every other address holds what \<open>F\<close> says.
\<close>

definition tree_in :: "node_heap \<Rightarrow> VTreeNode \<Rightarrow> tree_state \<Rightarrow> ptree \<Rightarrow> bool" where
  "tree_in F N tH t \<longleftrightarrow>
     (let nl = t_nil (fst tH)
      in t_root (fst tH) = addr nl t \<and> snd tH nl = Some N \<and> tree_at (snd tH) nl nl t
         \<and> distinct (0 # nl # addrs t) \<and> (\<forall>a. a \<notin> insert nl (set (addrs t)) \<longrightarrow> snd tH a = F a))"

section \<open>Focus\<close>

lemma up_simps [simp]: "up nl [] = nl" "up nl (c # cs) = crumb_addr c"
  by (simp_all add: up_def)

lemma ctx_addrs_simps [simp]: "ctx_addrs [] = []"
  "ctx_addrs (c # cs) = crumb_addr c # addrs (crumb_tree c) @ ctx_addrs cs"
  by (simp_all add: ctx_addrs_def)

lemma addrs_inorder: "addrs t = map fst (inorder t)"
  by (induction t) auto

lemma addrs_plug: "mset (addrs (plug t cs)) = mset (addrs t) + mset (ctx_addrs cs)"
  by (induction t cs rule: plug.induct) auto

lemma set_addrs_plug: "set (addrs (plug t cs)) = set (addrs t) \<union> set (ctx_addrs cs)"
  by (metis addrs_plug set_mset_mset set_mset_union)

lemma distinct_plug: "distinct (addrs (plug t cs)) \<longleftrightarrow> distinct (addrs t @ ctx_addrs cs)"
  by (metis addrs_plug mset_append mset_eq_imp_distinct_iff)

lemma tree_at_plug: "tree_at H nl nl (plug t cs) \<longleftrightarrow> tree_at H nl (up nl cs) t \<and> ctx_at H nl (addr nl t) cs"
  by (induction t cs rule: plug.induct) auto

definition root_addr :: "u64 \<Rightarrow> crumb list \<Rightarrow> u64" where
  "root_addr q cs = (if cs = [] then q else crumb_addr (last cs))"

lemma root_addr_simps [simp]: "root_addr q [] = q" "root_addr q (c # cs) = root_addr (crumb_addr c) cs"
  by (simp_all add: root_addr_def)

lemma addr_plug: "addr nl (plug t cs) = root_addr (addr nl t) cs"
  by (induction t cs rule: plug.induct) auto

lemma root_addr_in: "cs \<noteq> [] \<Longrightarrow> root_addr q cs \<in> set (ctx_addrs cs)"
  by (force simp: root_addr_def ctx_addrs_def)

lemma ctx_cases:
  obtains "cs = []" | a c k v r cs' where "cs = CL a c k v r # cs'" | a c k v l cs' where "cs = CR a c k v l # cs'"
  by (cases cs) (simp, metis crumb.exhaust)

lemma tree_in_plug:
  "tree_in F N (t, H) (plug x cs) \<longleftrightarrow>
     (let nl = t_nil t
      in t_root t = root_addr (addr nl x) cs \<and> H nl = Some N \<and> tree_at H nl (up nl cs) x \<and> ctx_at H nl (addr nl x) cs
         \<and> distinct (0 # nl # addrs x @ ctx_addrs cs)
         \<and> (\<forall>a. a \<notin> insert nl (set (addrs x) \<union> set (ctx_addrs cs)) \<longrightarrow> H a = F a))"
  by (simp add: tree_in_def Let_def addr_plug tree_at_plug distinct_plug set_addrs_plug)

lemma tree_at_upd [simp]: "b \<notin> set (addrs t) \<Longrightarrow> tree_at (H(b := n)) nl p t = tree_at H nl p t"
  by (induction t arbitrary: p) auto

lemma ctx_at_upd [simp]: "b \<notin> set (ctx_addrs cs) \<Longrightarrow> ctx_at (H(b := n)) nl q cs = ctx_at H nl q cs"
  by (induction H nl q cs rule: ctx_at.induct) auto

lemma addr_in: "addr nl t = nl \<or> addr nl t \<in> set (addrs t)"
  by (cases t) auto

section \<open>Steps at the focus\<close>

lemma ld_node [simp]: "H a = Some n \<Longrightarrow> ld f H a = Some (f n)"
  by (simp add: ld_def)

lemma upd_node [simp]: "H a = Some n \<Longrightarrow> upd f H a = Some (H(a \<mapsto> f n))"
  by (simp add: upd_def)

lemma tree_in_node:
  assumes "tree_in F N (t, H) (plug (PNode a c k v l r) cs)"
  shows "H a = Some \<lparr>n_key = k, n_value = v, n_color = c, n_left = addr (t_nil t) l, n_right = addr (t_nil t) r,
    n_parent = up (t_nil t) cs\<rparr>" "a \<noteq> t_nil t" "a \<noteq> 0"
  using assms by (auto simp: tree_in_plug Let_def)

lemma tree_in_color:
  assumes "tree_in F N (t, H) (plug (PNode a c k v l r) cs)"
  shows "\<exists>H'. set_color H a c' = Some H' \<and> tree_in F N (t, H') (plug (PNode a c' k v l r) cs)"
  using assms by (auto simp: tree_in_plug Let_def upd_def)

lemma tree_in_value:
  assumes "tree_in F N (t, H) (plug (PNode a c k v l r) cs)"
  shows "\<exists>H'. upd (n_value_update (\<lambda>_. v')) H a = Some H' \<and> tree_in F N (t, H') (plug (PNode a c k v' l r) cs)"
  using assms by (auto simp: tree_in_plug Let_def upd_def)

lemma tree_at_cong: "(\<And>a. a \<in> set (addrs t) \<Longrightarrow> H' a = H a) \<Longrightarrow> tree_at H' nl p t = tree_at H nl p t"
  by (induction t arbitrary: p) auto

lemma ctx_at_cong: "(\<And>a. a \<in> set (ctx_addrs cs) \<Longrightarrow> H' a = H a) \<Longrightarrow> ctx_at H' nl q cs = ctx_at H nl q cs"
  by (induction H nl q cs rule: ctx_at.induct) (auto cong: tree_at_cong)

text \<open>The hole of a context is repointed.\<close>

lemma replace_child_step:
  assumes ctx: "ctx_at H (t_nil t) x cs" and p: "ld n_parent H x = Some (up (t_nil t) cs)"
    and root: "t_root t = root_addr x cs" and d: "distinct (t_nil t # ctx_addrs cs)" "x \<notin> set (ctx_addrs cs)" "x \<noteq> t_nil t"
  obtains t' H' where "replace_child (t, H) x y = Some (t', H')" "t_nil t' = t_nil t" "t_size t' = t_size t"
    "t_root t' = root_addr y cs" "ctx_at H' (t_nil t) y cs" "\<forall>a. a \<notin> set (ctx_addrs cs) \<longrightarrow> H' a = H a"
proof (cases cs rule: ctx_cases)
  case 1
  then show ?thesis using p by (intro that [of "t\<lparr>t_root := y\<rparr>" H]) (auto simp: replace_child_def)
next
  case (2 a c k v r cs')
  then show ?thesis using 2 d ctx p root by (intro that) (auto simp: replace_child_def)
next
  case (3 a c k v l cs')
  then have "x \<noteq> addr (t_nil t) l" using d addr_in [of "t_nil t" l] by auto
  then show ?thesis using 3 d ctx p root by (intro that) (auto simp: replace_child_def)
qed

lemma replace_child_right_step:
  assumes ctx: "ctx_at H (t_nil t) x cs" and p: "ld n_parent H x = Some (up (t_nil t) cs)"
    and root: "t_root t = root_addr x cs" and d: "distinct (t_nil t # ctx_addrs cs)" "x \<notin> set (ctx_addrs cs)" "x \<noteq> t_nil t"
  obtains t' H' where "replace_child_right (t, H) x y = Some (t', H')" "t_nil t' = t_nil t" "t_size t' = t_size t"
    "t_root t' = root_addr y cs" "ctx_at H' (t_nil t) y cs" "\<forall>a. a \<notin> set (ctx_addrs cs) \<longrightarrow> H' a = H a"
proof (cases cs rule: ctx_cases)
  case 1
  then show ?thesis using p by (intro that [of "t\<lparr>t_root := y\<rparr>" H]) (auto simp: replace_child_right_def)
next
  case (2 a c k v r cs')
  then have "x \<noteq> addr (t_nil t) r" using d addr_in [of "t_nil t" r] by auto
  then show ?thesis using 2 d ctx p root by (intro that) (auto simp: replace_child_right_def)
next
  case (3 a c k v l cs')
  then show ?thesis using 3 d ctx p root by (intro that) (auto simp: replace_child_right_def)
qed


text \<open>\<^verbatim>\<open>if (b != t->nil) b->parent = x;\<close>\<close>

lemma set_parent_step:
  assumes "tree_at H nl p m" "distinct (nl # addrs m)"
  obtains H' where "(if addr nl m \<noteq> nl then set_parent H (addr nl m) x else Some H) = Some H'"
    "tree_at H' nl x m" "\<forall>a. a \<notin> set (addrs m) \<longrightarrow> H' a = H a"
  using assms by (cases m) (auto simp: fun_upd_other)

lemma left_rotate_step:
  assumes tree: "tree_in F N (t, H) (plug (PNode x c k v l (PNode y c' k' v' m r)) cs)"
  obtains t' H' where "vtree_left_rotate (t, H) x = Some (t', H')" "t_nil t' = t_nil t" "t_size t' = t_size t"
    "tree_in F N (t', H') (plug (PNode y c' k' v' (PNode x c k v l m) r) cs)"
proof -
  let ?nl = "t_nil t"
  let ?rest = "{x, y} \<union> set (addrs m)"
  note facts = tree [unfolded tree_in_plug Let_def, simplified]
  obtain X Y where X: "H x = Some X" "n_right X = y" "n_parent X = up ?nl cs" and Y: "H y = Some Y" "n_left Y = addr ?nl m"
    using facts by simp
  have ne: "x \<noteq> y" "x \<notin> set (addrs m)" "y \<notin> set (addrs m)" using facts by auto
  have disj: "a \<notin> ?rest" if "a \<in> insert ?nl (set (addrs l) \<union> set (addrs r) \<union> set (ctx_addrs cs))" for a
    using facts that by auto
  define H1 where "H1 = H(x \<mapsto> X\<lparr>n_right := addr ?nl m\<rparr>)"
  have m: "tree_at H1 ?nl y m" "distinct (?nl # addrs m)" using facts by (auto simp: H1_def)
  obtain H2 where H2: "(if addr ?nl m \<noteq> ?nl then set_parent H1 (addr ?nl m) x else Some H1) = Some H2"
      "tree_at H2 ?nl x m" "\<forall>a. a \<notin> set (addrs m) \<longrightarrow> H2 a = H1 a"
    using set_parent_step [OF m] by blast
  define H3 where "H3 = H2(y \<mapsto> Y\<lparr>n_parent := up ?nl cs\<rparr>)"
  have H2xy: "H2 x = Some (X\<lparr>n_right := addr ?nl m\<rparr>)" "H2 y = Some Y"
    using H2(3) ne Y by (simp_all add: H1_def)
  have frame: "H3 a = H a" if "a \<notin> ?rest" for a using H2(3) that by (simp add: H3_def H1_def)
  have H3: "H3 x = Some (X\<lparr>n_right := addr ?nl m\<rparr>)" "H3 y = Some (Y\<lparr>n_parent := up ?nl cs\<rparr>)" "tree_at H3 ?nl x m"
    using H2(2) H2xy ne by (simp_all add: H3_def)
  have "ctx_at H3 ?nl x cs = ctx_at H ?nl x cs" using disj frame by (intro ctx_at_cong) simp
  then obtain t' H4 where H4: "replace_child (t, H3) x y = Some (t', H4)" "t_nil t' = ?nl" "t_size t' = t_size t"
    "t_root t' = root_addr y cs" "ctx_at H4 ?nl y cs" "\<forall>a. a \<notin> set (ctx_addrs cs) \<longrightarrow> H4 a = H3 a"
    using facts H3 X by (elim replace_child_step [where x = x and t = t and cs = cs and H = H3 and y = y, rotated -1]) auto
  have off: "x \<notin> set (ctx_addrs cs)" "y \<notin> set (ctx_addrs cs)" "a \<in> set (addrs m) \<Longrightarrow> a \<notin> set (ctx_addrs cs)" for a
    using disj by blast+
  define H5 where "H5 = H4(y \<mapsto> Y\<lparr>n_parent := up ?nl cs, n_left := x\<rparr>, x \<mapsto> X\<lparr>n_right := addr ?nl m, n_parent := y\<rparr>)"
  have H4xy: "H4 x = Some (X\<lparr>n_right := addr ?nl m\<rparr>)" "H4 y = Some (Y\<lparr>n_parent := up ?nl cs\<rparr>)"
    using H4(6) H3 off by simp_all
  have run: "vtree_left_rotate (t, H) x = Some (t', H5)"
    using X Y H2xy H2(1) [unfolded H1_def] H4(1) H4xy ne
    by (simp add: vtree_left_rotate_def H3_def H5_def split del: if_split)
  have tr: "tree_at H5 ?nl p s = tree_at H3 ?nl p s" if "set (addrs s) \<inter> ({x, y} \<union> set (ctx_addrs cs)) = {}" for p s
    using that H4(6) by (intro tree_at_cong) (auto simp: H5_def)
  have tr0: "tree_at H3 ?nl p s = tree_at H ?nl p s" if "set (addrs s) \<inter> ?rest = {}" for p s
    using that by (intro tree_at_cong frame) blast
  have "tree_at H5 ?nl x m" using tr [of m] H3(3) ne off(3) by auto
  moreover have "set (addrs l) \<inter> (?rest \<union> set (ctx_addrs cs)) = {}" "set (addrs r) \<inter> (?rest \<union> set (ctx_addrs cs)) = {}"
    using facts by auto
  then have "tree_at H5 ?nl p l = tree_at H ?nl p l" "tree_at H5 ?nl p r = tree_at H ?nl p r" for p
    using tr [of l p] tr0 [of l p] tr [of r p] tr0 [of r p] by blast+
  moreover have "ctx_at H5 ?nl y cs" using H4(5) off by (simp add: H5_def)
  moreover have "H5 a = H a" if "a \<notin> ?rest" "a \<notin> set (ctx_addrs cs)" for a using that H4(6) frame by (simp add: H5_def)
  ultimately have "tree_in F N (t', H5) (plug (PNode y c' k' v' (PNode x c k v l m) r) cs)"
    using facts H4(2,4) disj X Y by (auto simp: tree_in_plug H5_def)
  then show ?thesis using that run H4(2,3) by blast
qed

lemma right_rotate_step:
  assumes tree: "tree_in F N (t, H) (plug (PNode x c k v (PNode y c' k' v' l m) r) cs)"
  obtains t' H' where "vtree_right_rotate (t, H) x = Some (t', H')" "t_nil t' = t_nil t" "t_size t' = t_size t"
    "tree_in F N (t', H') (plug (PNode y c' k' v' l (PNode x c k v m r)) cs)"
proof -
  let ?nl = "t_nil t"
  let ?rest = "{x, y} \<union> set (addrs m)"
  note facts = tree [unfolded tree_in_plug Let_def, simplified]
  obtain X Y where X: "H x = Some X" "n_left X = y" "n_parent X = up ?nl cs" and Y: "H y = Some Y" "n_right Y = addr ?nl m"
    using facts by simp
  have ne: "x \<noteq> y" "x \<notin> set (addrs m)" "y \<notin> set (addrs m)" using facts by auto
  have disj: "a \<notin> ?rest" if "a \<in> insert ?nl (set (addrs l) \<union> set (addrs r) \<union> set (ctx_addrs cs))" for a
    using facts that by auto
  define H1 where "H1 = H(x \<mapsto> X\<lparr>n_left := addr ?nl m\<rparr>)"
  have m: "tree_at H1 ?nl y m" "distinct (?nl # addrs m)" using facts by (auto simp: H1_def)
  obtain H2 where H2: "(if addr ?nl m \<noteq> ?nl then set_parent H1 (addr ?nl m) x else Some H1) = Some H2"
      "tree_at H2 ?nl x m" "\<forall>a. a \<notin> set (addrs m) \<longrightarrow> H2 a = H1 a"
    using set_parent_step [OF m] by blast
  define H3 where "H3 = H2(y \<mapsto> Y\<lparr>n_parent := up ?nl cs\<rparr>)"
  have H2xy: "H2 x = Some (X\<lparr>n_left := addr ?nl m\<rparr>)" "H2 y = Some Y"
    using H2(3) ne Y by (simp_all add: H1_def)
  have frame: "H3 a = H a" if "a \<notin> ?rest" for a using H2(3) that by (simp add: H3_def H1_def)
  have H3: "H3 x = Some (X\<lparr>n_left := addr ?nl m\<rparr>)" "H3 y = Some (Y\<lparr>n_parent := up ?nl cs\<rparr>)" "tree_at H3 ?nl x m"
    using H2(2) H2xy ne by (simp_all add: H3_def)
  have "ctx_at H3 ?nl x cs = ctx_at H ?nl x cs" using disj frame by (intro ctx_at_cong) simp
  then obtain t' H4 where H4: "replace_child_right (t, H3) x y = Some (t', H4)" "t_nil t' = ?nl" "t_size t' = t_size t"
    "t_root t' = root_addr y cs" "ctx_at H4 ?nl y cs" "\<forall>a. a \<notin> set (ctx_addrs cs) \<longrightarrow> H4 a = H3 a"
    using facts H3 X by (elim replace_child_right_step [where x = x and t = t and cs = cs and H = H3 and y = y, rotated -1]) auto
  have off: "x \<notin> set (ctx_addrs cs)" "y \<notin> set (ctx_addrs cs)" "a \<in> set (addrs m) \<Longrightarrow> a \<notin> set (ctx_addrs cs)" for a
    using disj by blast+
  define H5 where "H5 = H4(y \<mapsto> Y\<lparr>n_parent := up ?nl cs, n_right := x\<rparr>, x \<mapsto> X\<lparr>n_left := addr ?nl m, n_parent := y\<rparr>)"
  have H4xy: "H4 x = Some (X\<lparr>n_left := addr ?nl m\<rparr>)" "H4 y = Some (Y\<lparr>n_parent := up ?nl cs\<rparr>)"
    using H4(6) H3 off by simp_all
  have run: "vtree_right_rotate (t, H) x = Some (t', H5)"
    using X Y H2xy H2(1) [unfolded H1_def] H4(1) H4xy ne
    by (simp add: vtree_right_rotate_def H3_def H5_def split del: if_split)
  have tr: "tree_at H5 ?nl p s = tree_at H3 ?nl p s" if "set (addrs s) \<inter> ({x, y} \<union> set (ctx_addrs cs)) = {}" for p s
    using that H4(6) by (intro tree_at_cong) (auto simp: H5_def)
  have tr0: "tree_at H3 ?nl p s = tree_at H ?nl p s" if "set (addrs s) \<inter> ?rest = {}" for p s
    using that by (intro tree_at_cong frame) blast
  have "tree_at H5 ?nl x m" using tr [of m] H3(3) ne off(3) by auto
  moreover have "set (addrs l) \<inter> (?rest \<union> set (ctx_addrs cs)) = {}" "set (addrs r) \<inter> (?rest \<union> set (ctx_addrs cs)) = {}"
    using facts by auto
  then have "tree_at H5 ?nl p l = tree_at H ?nl p l" "tree_at H5 ?nl p r = tree_at H ?nl p r" for p
    using tr [of l p] tr0 [of l p] tr [of r p] tr0 [of r p] by blast+
  moreover have "ctx_at H5 ?nl y cs" using H4(5) off by (simp add: H5_def)
  moreover have "H5 a = H a" if "a \<notin> ?rest" "a \<notin> set (ctx_addrs cs)" for a using that H4(6) frame by (simp add: H5_def)
  ultimately have "tree_in F N (t', H5) (plug (PNode y c' k' v' l (PNode x c k v m r)) cs)"
    using facts H4(2,4) disj X Y by (auto simp: tree_in_plug H5_def)
  then show ?thesis using that run H4(2,3) by blast
qed

end
