(* ===== verification/Vcol_TreeInsert.thy ===== *)
theory Vcol_TreeInsert
  imports Vcol_TreeHeap
begin

text \<open>
  The red-black invariant of a tree and of a context, and the repair after an insertion: the loop of
  \<^verbatim>\<open>vtree_insert_fixup\<close> ends and leaves a red-black tree with the same entries.
\<close>

section \<open>The red-black invariant\<close>

fun color_of :: "ptree \<Rightarrow> VTreeColor" where
  "color_of PLeaf = VTREE_BLACK"
| "color_of (PNode a c k v l r) = c"

fun crumb_color :: "crumb \<Rightarrow> VTreeColor" where
  "crumb_color (CL a c k v r) = c"
| "crumb_color (CR a c k v l) = c"

fun paint :: "VTreeColor \<Rightarrow> ptree \<Rightarrow> ptree" where
  "paint c' PLeaf = PLeaf"
| "paint c' (PNode a c k v l r) = PNode a c' k v l r"

text \<open>The subtrees below a red node are black; every path to a leaf meets \<open>n\<close> black nodes.\<close>

fun rb :: "nat \<Rightarrow> ptree \<Rightarrow> bool" where
  "rb n PLeaf \<longleftrightarrow> n = 0"
| "rb n (PNode a VTREE_RED k v l r) \<longleftrightarrow> color_of l = VTREE_BLACK \<and> color_of r = VTREE_BLACK \<and> rb n l \<and> rb n r"
| "rb 0 (PNode a VTREE_BLACK k v l r) \<longleftrightarrow> False"
| "rb (Suc n) (PNode a VTREE_BLACK k v l r) \<longleftrightarrow> rb n l \<and> rb n r"

definition black_above :: "crumb list \<Rightarrow> bool" where
  "black_above cs \<longleftrightarrow> cs \<noteq> [] \<and> crumb_color (hd cs) = VTREE_BLACK"

text \<open>A context that takes subtrees of black height \<open>n\<close>, with a black root.\<close>

fun ctx_rb :: "nat \<Rightarrow> crumb list \<Rightarrow> bool" where
  "ctx_rb n [] \<longleftrightarrow> True"
| "ctx_rb n (c # cs) \<longleftrightarrow> rb n (crumb_tree c) \<and>
     (if crumb_color c = VTREE_RED then color_of (crumb_tree c) = VTREE_BLACK \<and> black_above cs \<and> ctx_rb n cs
      else ctx_rb (Suc n) cs)"

definition rbt :: "ptree \<Rightarrow> bool" where
  "rbt t \<longleftrightarrow> color_of t = VTREE_BLACK \<and> (\<exists>n. rb n t)"

lemma black_above_simps [simp]: "black_above [] = False" "black_above (c # cs) \<longleftrightarrow> crumb_color c = VTREE_BLACK"
  by (simp_all add: black_above_def)

lemma rb_Black: "rb n (PNode a VTREE_BLACK k v l r) \<longleftrightarrow> (\<exists>m. n = Suc m \<and> rb m l \<and> rb m r)"
  by (cases n) auto

lemma rb_0_cases: "rb n t \<Longrightarrow> n = 0 \<Longrightarrow> color_of t = VTREE_BLACK \<Longrightarrow> t = PLeaf"
  by (induction n t rule: rb.induct) auto

lemma not_red [simp]: "c \<noteq> VTREE_RED \<longleftrightarrow> c = VTREE_BLACK" "c \<noteq> VTREE_BLACK \<longleftrightarrow> c = VTREE_RED"
  by (cases c; simp)+

lemma rb_unique: "rb n t \<Longrightarrow> rb m t \<Longrightarrow> n = m"
  by (induction n t arbitrary: m rule: rb.induct) (auto simp: rb_Black)

lemma rbt_plug:
  "rbt (plug t cs) \<longleftrightarrow> (\<exists>n. rb n t \<and> ctx_rb n cs \<and> (color_of t = VTREE_RED \<longrightarrow> black_above cs))"
proof (induction t cs rule: plug.induct)
  case (2 t a c k v r cs)
  then show ?case by (cases c) (auto simp: rb_Black)
next
  case (3 t a c k v l cs)
  then show ?case by (cases c) (auto simp: rb_Black)
qed (auto simp: rbt_def)

lemma rb_paint: "rb n t \<Longrightarrow> rbt (paint VTREE_BLACK t)"
  by (induction n t rule: rb.induct) (auto simp: rbt_def rb_Black)

fun before :: "crumb list \<Rightarrow> (u64 \<times> u64 \<times> u64) list" where
  "before [] = []"
| "before (CL a c k v r # cs) = before cs"
| "before (CR a c k v l # cs) = before cs @ inorder l @ [(a, k, v)]"

fun after :: "crumb list \<Rightarrow> (u64 \<times> u64 \<times> u64) list" where
  "after [] = []"
| "after (CL a c k v r # cs) = (a, k, v) # inorder r @ after cs"
| "after (CR a c k v l # cs) = after cs"

lemma inorder_plug: "inorder (plug t cs) = before cs @ inorder t @ after cs"
  by (induction t cs rule: plug.induct) auto

lemma inorder_paint [simp]: "inorder (paint c t) = inorder t"
  by (cases t) auto

section \<open>The loop of \<^verbatim>\<open>vtree_insert_fixup\<close>\<close>

text \<open>What the loop keeps: a red focus below a context that it breaks only through a red parent.\<close>

definition ins_state :: "node_heap \<Rightarrow> VTreeNode \<Rightarrow> (u64 \<times> u64 \<times> u64) list \<Rightarrow> VestaTreeMap \<Rightarrow> tree_state \<Rightarrow> u64 \<Rightarrow> nat \<Rightarrow> bool" where
  "ins_state F N xs t0 tH z d \<longleftrightarrow>
     t_nil (fst tH) = t_nil t0 \<and> t_size (fst tH) = t_size t0 \<and>
     (\<exists>k v l r cs n. tree_in F N tH (plug (PNode z VTREE_RED k v l r) cs)
        \<and> inorder (plug (PNode z VTREE_RED k v l r) cs) = xs
        \<and> rb n (PNode z VTREE_RED k v l r) \<and> ctx_rb n cs \<and> length cs = d)"

text \<open>Crumbs with another colour or another sibling, and the same node seen from the sibling.\<close>

fun recolor :: "VTreeColor \<Rightarrow> crumb \<Rightarrow> crumb" where
  "recolor c' (CL a c k v r) = CL a c' k v r"
| "recolor c' (CR a c k v l) = CR a c' k v l"

fun with_sib :: "ptree \<Rightarrow> crumb \<Rightarrow> crumb" where
  "with_sib s (CL a c k v r) = CL a c k v s"
| "with_sib s (CR a c k v l) = CR a c k v s"

fun flip :: "crumb \<Rightarrow> ptree \<Rightarrow> crumb" where
  "flip (CL a c k v r) s = CR a c k v s"
| "flip (CR a c k v l) s = CL a c k v s"

fun fill :: "crumb \<Rightarrow> ptree \<Rightarrow> ptree" where
  "fill (CL a c k v r) s = PNode a c k v s r"
| "fill (CR a c k v l) s = PNode a c k v l s"

lemma plug_fill: "plug t (c # cs) = plug (fill c t) cs"
  by (cases c) simp_all

lemma plug_flip: "plug t (c # cs) = plug (crumb_tree c) (flip c t # cs)"
  by (cases c) simp_all

lemma plug_with_sib: "plug s (flip c t # cs) = plug t (with_sib s c # cs)"
  by (cases c) simp_all

lemma tree_in_crumb_color:
  assumes "tree_in F N (t, H) (plug s (c # cs))"
  obtains H' where "set_color H (crumb_addr c) c' = Some H'" "tree_in F N (t, H') (plug s (recolor c' c # cs))"
  using assms tree_in_color [where cs = cs] by (cases c) (simp, blast)+

lemma tree_in_sib_color:
  assumes "tree_in F N (t, H) (plug s (c # cs))" and "crumb_tree c = PNode u uc uk uv ul ur"
  obtains H' where "set_color H u c' = Some H'" "tree_in F N (t, H') (plug s (with_sib (PNode u c' uk uv ul ur) c # cs))"
  using assms tree_in_color [where cs = "flip c s # cs"] unfolding plug_with_sib [symmetric] plug_flip [of s] by metis

lemma crumb_simps [simp]: "crumb_addr (recolor c' c) = crumb_addr c" "crumb_addr (with_sib s c) = crumb_addr c"
  "crumb_tree (recolor c' c) = crumb_tree c" "crumb_tree (with_sib s c) = s"
  "crumb_color (recolor c' c) = c'" "crumb_color (with_sib s c) = crumb_color c"
  by (cases c; simp)+

lemma insert_recolor_step:
  assumes tree: "tree_in F N (t, H) (plug (PNode p pc pk pv pl pr) (c # cs))" and u: "crumb_tree c = PNode u uc uk uv ul ur"
    and zp: "ld n_parent H z = Some p"
  obtains H' where "insert_recolor (t, H) z u = Some ((t, H'), crumb_addr c)"
    "tree_in F N (t, H') (plug (PNode p VTREE_BLACK pk pv pl pr) (recolor VTREE_RED (with_sib (PNode u VTREE_BLACK uk uv ul ur) c) # cs))"
proof -
  obtain H1 where H1: "set_color H p VTREE_BLACK = Some H1" "tree_in F N (t, H1) (plug (PNode p VTREE_BLACK pk pv pl pr) (c # cs))"
    using tree_in_color [OF tree] by blast
  obtain H2 where H2: "set_color H1 u VTREE_BLACK = Some H2"
      "tree_in F N (t, H2) (plug (PNode p VTREE_BLACK pk pv pl pr) (with_sib (PNode u VTREE_BLACK uk uv ul ur) c # cs))"
    using tree_in_sib_color [OF H1(2) u] by blast
  then have g: "ld n_parent H2 p = Some (crumb_addr c)" using tree_in_node(1) [OF H2(2)] by simp
  obtain H3 where "set_color H2 (crumb_addr c) VTREE_RED = Some H3" "tree_in F N (t, H3)
      (plug (PNode p VTREE_BLACK pk pv pl pr) (recolor VTREE_RED (with_sib (PNode u VTREE_BLACK uk uv ul ur) c) # cs))"
    using tree_in_crumb_color [OF H2(2)] by (metis crumb_simps(2))
  then show ?thesis using that H1(1) H2(1) g zp by (simp add: insert_recolor_def)
qed

lemma insert_left_left_step:
  assumes tree: "tree_in F N (t, H) (plug z (CL p pc pk pv s # CL g gc gk gv u # cs))" and z: "z = PNode a ac ak av al ar"
    and ne: "a \<noteq> addr (t_nil t) s"
  obtains t' H' where "insert_rotate_left_case (t, H) a = Some ((t', H'), a)" "t_nil t' = t_nil t" "t_size t' = t_size t"
    "tree_in F N (t', H') (plug z (CL p VTREE_BLACK pk pv (PNode g VTREE_RED gk gv s u) # cs))"
proof -
  have p: "tree_in F N (t, H) (plug (PNode p pc pk pv z s) (CL g gc gk gv u # cs))" using tree by simp
  obtain H1 where H1: "set_color H p VTREE_BLACK = Some H1" "tree_in F N (t, H1) (plug (PNode p VTREE_BLACK pk pv z s) (CL g gc gk gv u # cs))"
    using tree_in_color [OF p] by blast
  then have g: "tree_in F N (t, H1) (plug (PNode g gc gk gv (PNode p VTREE_BLACK pk pv z s) u) cs)" by simp
  obtain H2 where H2: "set_color H1 g VTREE_RED = Some H2" "tree_in F N (t, H2) (plug (PNode g VTREE_RED gk gv (PNode p VTREE_BLACK pk pv z s) u) cs)"
    using tree_in_color [OF g] by blast
  obtain t' H3 where H3: "vtree_right_rotate (t, H2) g = Some (t', H3)" "t_nil t' = t_nil t" "t_size t' = t_size t"
      "tree_in F N (t', H3) (plug (PNode p VTREE_BLACK pk pv z (PNode g VTREE_RED gk gv s u)) cs)"
    using right_rotate_step [OF H2(2)] by blast
  show ?thesis
    using that [OF _ H3(2,3)] H3 H1(1) H2(1) tree_in_node(1) [OF tree [unfolded z]] tree_in_node(1) [OF p] tree_in_node(1) [OF H1(2)] ne
    by (simp add: insert_rotate_left_case_def)
qed

lemma insert_left_right_step:
  assumes tree: "tree_in F N (t, H) (plug (PNode a ac ak av al ar) (CR p pc pk pv s # CL g gc gk gv u # cs))"
    and ne: "p \<noteq> addr (t_nil t) ar"
  obtains t' H' where "insert_rotate_left_case (t, H) a = Some ((t', H'), p)" "t_nil t' = t_nil t" "t_size t' = t_size t"
    "tree_in F N (t', H') (plug (PNode p pc pk pv s al) (CL a VTREE_BLACK ak av (PNode g VTREE_RED gk gv ar u) # cs))"
proof -
  have p: "tree_in F N (t, H) (plug (PNode p pc pk pv s (PNode a ac ak av al ar)) (CL g gc gk gv u # cs))" using tree by simp
  obtain t1 H1 where H1: "vtree_left_rotate (t, H) p = Some (t1, H1)" "t_nil t1 = t_nil t" "t_size t1 = t_size t"
      "tree_in F N (t1, H1) (plug (PNode a ac ak av (PNode p pc pk pv s al) ar) (CL g gc gk gv u # cs))"
    using left_rotate_step [OF p] by blast
  then have tree1: "tree_in F N (t1, H1) (plug (PNode p pc pk pv s al) (CL a ac ak av ar # CL g gc gk gv u # cs))" by simp
  obtain t' H2 where H2: "insert_rotate_left_case (t1, H1) p = Some ((t', H2), p)" "t_nil t' = t_nil t1" "t_size t' = t_size t1"
    "tree_in F N (t', H2) (plug (PNode p pc pk pv s al) (CL a VTREE_BLACK ak av (PNode g VTREE_RED gk gv ar u) # cs))"
    using insert_left_left_step [OF tree1 refl] ne H1(2) by metis
  have "insert_rotate_left_case (t, H) a = insert_rotate_left_case (t1, H1) p"
    using H1(1) tree_in_node(1) [OF tree] tree_in_node(1) [OF p] tree_in_node(1) [OF tree1] tree_in_node(1) [OF H1(4)] ne H1(2)
    by (simp add: insert_rotate_left_case_def)
  then show ?thesis using that H1(2,3) H2 by simp
qed

lemma insert_right_right_step:
  assumes tree: "tree_in F N (t, H) (plug z (CR p pc pk pv s # CR g gc gk gv u # cs))" and z: "z = PNode a ac ak av al ar"
    and ne: "a \<noteq> addr (t_nil t) s"
  obtains t' H' where "insert_rotate_right_case (t, H) a = Some ((t', H'), a)" "t_nil t' = t_nil t" "t_size t' = t_size t"
    "tree_in F N (t', H') (plug z (CR p VTREE_BLACK pk pv (PNode g VTREE_RED gk gv u s) # cs))"
proof -
  have p: "tree_in F N (t, H) (plug (PNode p pc pk pv s z) (CR g gc gk gv u # cs))" using tree by simp
  obtain H1 where H1: "set_color H p VTREE_BLACK = Some H1" "tree_in F N (t, H1) (plug (PNode p VTREE_BLACK pk pv s z) (CR g gc gk gv u # cs))"
    using tree_in_color [OF p] by blast
  then have g: "tree_in F N (t, H1) (plug (PNode g gc gk gv u (PNode p VTREE_BLACK pk pv s z)) cs)" by simp
  obtain H2 where H2: "set_color H1 g VTREE_RED = Some H2" "tree_in F N (t, H2) (plug (PNode g VTREE_RED gk gv u (PNode p VTREE_BLACK pk pv s z)) cs)"
    using tree_in_color [OF g] by blast
  obtain t' H3 where H3: "vtree_left_rotate (t, H2) g = Some (t', H3)" "t_nil t' = t_nil t" "t_size t' = t_size t"
      "tree_in F N (t', H3) (plug (PNode p VTREE_BLACK pk pv (PNode g VTREE_RED gk gv u s) z) cs)"
    using left_rotate_step [OF H2(2)] by blast
  show ?thesis
    using that [OF _ H3(2,3)] H3 H1(1) H2(1) tree_in_node(1) [OF tree [unfolded z]] tree_in_node(1) [OF p] tree_in_node(1) [OF H1(2)] ne
    by (simp add: insert_rotate_right_case_def)
qed

lemma insert_right_left_step:
  assumes tree: "tree_in F N (t, H) (plug (PNode a ac ak av ar al) (CL p pc pk pv s # CR g gc gk gv u # cs))"
    and ne: "p \<noteq> addr (t_nil t) ar"
  obtains t' H' where "insert_rotate_right_case (t, H) a = Some ((t', H'), p)" "t_nil t' = t_nil t" "t_size t' = t_size t"
    "tree_in F N (t', H') (plug (PNode p pc pk pv al s) (CR a VTREE_BLACK ak av (PNode g VTREE_RED gk gv u ar) # cs))"
proof -
  have p: "tree_in F N (t, H) (plug (PNode p pc pk pv (PNode a ac ak av ar al) s) (CR g gc gk gv u # cs))" using tree by simp
  obtain t1 H1 where H1: "vtree_right_rotate (t, H) p = Some (t1, H1)" "t_nil t1 = t_nil t" "t_size t1 = t_size t"
      "tree_in F N (t1, H1) (plug (PNode a ac ak av ar (PNode p pc pk pv al s)) (CR g gc gk gv u # cs))"
    using right_rotate_step [OF p] by blast
  then have tree1: "tree_in F N (t1, H1) (plug (PNode p pc pk pv al s) (CR a ac ak av ar # CR g gc gk gv u # cs))" by simp
  obtain t' H2 where H2: "insert_rotate_right_case (t1, H1) p = Some ((t', H2), p)" "t_nil t' = t_nil t1" "t_size t' = t_size t1"
    "tree_in F N (t', H2) (plug (PNode p pc pk pv al s) (CR a VTREE_BLACK ak av (PNode g VTREE_RED gk gv u ar) # cs))"
    using insert_right_right_step [OF tree1 refl] ne H1(2) by metis
  have "insert_rotate_right_case (t, H) a = insert_rotate_right_case (t1, H1) p"
    using H1(1) tree_in_node(1) [OF tree] tree_in_node(1) [OF p] tree_in_node(1) [OF tree1] tree_in_node(1) [OF H1(4)] ne H1(2)
    by (simp add: insert_rotate_right_case_def)
  then show ?thesis using that H1(2,3) H2 by simp
qed
text \<open>A red parent has a black grandparent: the focus lies below two crumbs.\<close>

lemma red_parent:
  assumes tree: "tree_in F N (t, H) (plug (PNode z zc k v l r) cs)" and N: "n_color N = VTREE_BLACK" and cs: "ctx_rb n cs"
    and red: "ld n_parent H z = Some p" "ld n_color H p = Some VTREE_RED"
  obtains c1 c2 cs' where "cs = c1 # c2 # cs'" "crumb_color c1 = VTREE_RED" "crumb_color c2 = VTREE_BLACK" "p = crumb_addr c1"
    "color_of (crumb_tree c1) = VTREE_BLACK" "rb n (crumb_tree c1)" "rb n (crumb_tree c2)" "ctx_rb (Suc n) cs'"
proof (cases cs)
  case Nil
  then show ?thesis using red tree_in_node(1) [OF tree] tree N by (simp add: tree_in_def Let_def)
next
  case (Cons c1 cs1)
  have p: "p = crumb_addr c1" using red(1) tree_in_node(1) [OF tree] Cons by simp
  have "ld n_color H p = Some (crumb_color c1)"
    using tree_in_node(1) [where cs = cs1] tree Cons p by (cases c1) force+
  then have "crumb_color c1 = VTREE_RED" using red(2) by simp
  moreover from this obtain c2 cs' where "cs1 = c2 # cs'" "crumb_color c2 = VTREE_BLACK"
    using cs Cons by (cases cs1) auto
  ultimately show ?thesis using cs Cons p by (intro that) auto
qed

lemma sibling_color:
  assumes "tree_in F N (t, H) (plug s (c # cs))" and "n_color N = VTREE_BLACK"
  shows "ld n_color H (addr (t_nil t) (crumb_tree c)) = Some (color_of (crumb_tree c))"
proof (cases "crumb_tree c")
  case PLeaf
  then show ?thesis using assms by (simp add: tree_in_def Let_def)
next
  case (PNode a c' k v l r)
  then have "tree_in F N (t, H) (plug (PNode a c' k v l r) (flip c s # cs))" using assms(1) by (simp add: plug_flip [of s])
  then show ?thesis using tree_in_node(1) PNode by fastforce
qed

lemma sibling_addr:
  assumes "tree_in F N (t, H) (plug (PNode a c' k v l r) (c # cs))"
  shows "a \<noteq> addr (t_nil t) (crumb_tree c)" "crumb_addr c \<noteq> addr (t_nil t) l" "crumb_addr c \<noteq> addr (t_nil t) r"
    "crumb_addr c \<noteq> a" "crumb_addr c \<noteq> t_nil t"
  using assms addr_in [of "t_nil t" "crumb_tree c"] addr_in [of "t_nil t" l] addr_in [of "t_nil t" r]
  by (auto simp: tree_in_plug Let_def)

lemma crumb_node:
  assumes "tree_in F N (t, H) (plug s (c # cs))"
  shows "ld n_parent H (crumb_addr c) = Some (up (t_nil t) cs)" "ld n_color H (crumb_addr c) = Some (crumb_color c)"
    "case c of CL a c k v r \<Rightarrow> ld n_left H a = Some (addr (t_nil t) s) \<and> ld n_right H a = Some (addr (t_nil t) r)
     | CR a c k v l \<Rightarrow> ld n_left H a = Some (addr (t_nil t) l) \<and> ld n_right H a = Some (addr (t_nil t) s)"
  using assms tree_in_node(1) [where cs = cs] by (cases c; fastforce)+

lemma insert_red_uncle:
  assumes tree: "tree_in F N (t, H) (plug (PNode z VTREE_RED k v l r) (c1 # c2 # cs))" and rb: "rb n (PNode z VTREE_RED k v l r)"
    and c: "crumb_color c1 = VTREE_RED" "crumb_color c2 = VTREE_BLACK" "rb n (crumb_tree c1)" "rb n (crumb_tree c2)" "ctx_rb (Suc n) cs"
    and u: "color_of (crumb_tree c2) = VTREE_RED"
  shows "\<exists>H'. insert_recolor (t, H) z (addr (t_nil t) (crumb_tree c2)) = Some ((t, H'), crumb_addr c2)
    \<and> ins_state F N (inorder (plug (PNode z VTREE_RED k v l r) (c1 # c2 # cs))) t (t, H') (crumb_addr c2) (length cs)"
proof -
  obtain p pc pk pv pl pr where P: "fill c1 (PNode z VTREE_RED k v l r) = PNode p pc pk pv pl pr" "p = crumb_addr c1" "rb n pl" "rb n pr"
    using c(3) rb by (cases c1) auto
  obtain u uc uk uv ul ur where U: "crumb_tree c2 = PNode u uc uk uv ul ur" using u by (cases "crumb_tree c2") auto
  have tree': "tree_in F N (t, H) (plug (PNode p pc pk pv pl pr) (c2 # cs))" using tree unfolding plug_fill [of _ c1] P(1) .
  have zp: "ld n_parent H z = Some p" using tree_in_node(1) [OF tree] P(2) by simp
  let ?c = "recolor VTREE_RED (with_sib (PNode u VTREE_BLACK uk uv ul ur) c2)"
  obtain H' where H': "insert_recolor (t, H) z u = Some ((t, H'), crumb_addr c2)"
    "tree_in F N (t, H') (plug (PNode p VTREE_BLACK pk pv pl pr) (?c # cs))"
    by (rule insert_recolor_step [OF tree' U zp])
  obtain gk gv gl gr where G: "fill ?c (PNode p VTREE_BLACK pk pv pl pr) = PNode (crumb_addr c2) VTREE_RED gk gv gl gr"
      "rb (Suc n) (PNode (crumb_addr c2) VTREE_RED gk gv gl gr)"
      "inorder (PNode (crumb_addr c2) VTREE_RED gk gv gl gr) = inorder (fill c2 (PNode p pc pk pv pl pr))"
    using P(3,4) U c(4) u by (cases c2) auto
  have "inorder (plug (PNode z VTREE_RED k v l r) (c1 # c2 # cs)) = inorder (plug (PNode (crumb_addr c2) VTREE_RED gk gv gl gr) cs)"
    using G(3) by (simp only: plug_fill P(1) inorder_plug)
  then have "ins_state F N (inorder (plug (PNode z VTREE_RED k v l r) (c1 # c2 # cs))) t (t, H') (crumb_addr c2) (length cs)"
    unfolding ins_state_def using H'(2) [unfolded plug_fill G(1)] G(2) c(5) by fastforce
  then show ?thesis using H'(1) U by simp
qed

lemma insert_black_uncle_left:
  assumes tree: "tree_in F N (t, H) (plug (PNode z VTREE_RED k v l r) (c1 # CL g gc gk gv u # cs))" and rb: "rb n (PNode z VTREE_RED k v l r)"
    and c: "crumb_color c1 = VTREE_RED" "rb n (crumb_tree c1)" "color_of (crumb_tree c1) = VTREE_BLACK" "rb n u" "ctx_rb (Suc n) cs"
    and u: "color_of u = VTREE_BLACK"
  shows "\<exists>t' H' z'. insert_rotate_left_case (t, H) z = Some ((t', H'), z')
    \<and> ins_state F N (inorder (plug (PNode z VTREE_RED k v l r) (c1 # CL g gc gk gv u # cs))) t (t', H') z' (Suc (length cs))"
proof (cases c1)
  case (CL p pc pk pv s)
  note T = tree [unfolded CL]
  have ne: "z \<noteq> addr (t_nil t) s" using sibling_addr(1) [OF T] by simp
  obtain t' H' where H': "insert_rotate_left_case (t, H) z = Some ((t', H'), z)" "t_nil t' = t_nil t" "t_size t' = t_size t"
    "tree_in F N (t', H') (plug (PNode z VTREE_RED k v l r) (CL p VTREE_BLACK pk pv (PNode g VTREE_RED gk gv s u) # cs))"
    using insert_left_left_step [OF T refl ne] by metis
  moreover have "ctx_rb n (CL p VTREE_BLACK pk pv (PNode g VTREE_RED gk gv s u) # cs)" using c u CL by simp
  moreover have "inorder (plug (PNode z VTREE_RED k v l r) (c1 # CL g gc gk gv u # cs))
      = inorder (plug (PNode z VTREE_RED k v l r) (CL p VTREE_BLACK pk pv (PNode g VTREE_RED gk gv s u) # cs))"
    using CL by (simp add: inorder_plug)
  ultimately show ?thesis unfolding ins_state_def using rb by fastforce
next
  case (CR p pc pk pv s)
  note T = tree [unfolded CR]
  have ne: "p \<noteq> addr (t_nil t) r" using sibling_addr(3) [OF T] by simp
  obtain t' H' where H': "insert_rotate_left_case (t, H) z = Some ((t', H'), p)" "t_nil t' = t_nil t" "t_size t' = t_size t"
    "tree_in F N (t', H') (plug (PNode p pc pk pv s l) (CL z VTREE_BLACK k v (PNode g VTREE_RED gk gv r u) # cs))"
    using insert_left_right_step [OF T ne] by metis
  moreover have "ctx_rb n (CL z VTREE_BLACK k v (PNode g VTREE_RED gk gv r u) # cs)" "rb n (PNode p VTREE_RED pk pv s l)" "pc = VTREE_RED"
    using c u rb CR by simp_all
  moreover have "inorder (plug (PNode z VTREE_RED k v l r) (c1 # CL g gc gk gv u # cs))
      = inorder (plug (PNode p pc pk pv s l) (CL z VTREE_BLACK k v (PNode g VTREE_RED gk gv r u) # cs))"
    using CR by (simp add: inorder_plug)
  ultimately show ?thesis unfolding ins_state_def by fastforce
qed

lemma insert_black_uncle_right:
  assumes tree: "tree_in F N (t, H) (plug (PNode z VTREE_RED k v l r) (c1 # CR g gc gk gv u # cs))" and rb: "rb n (PNode z VTREE_RED k v l r)"
    and c: "crumb_color c1 = VTREE_RED" "rb n (crumb_tree c1)" "color_of (crumb_tree c1) = VTREE_BLACK" "rb n u" "ctx_rb (Suc n) cs"
    and u: "color_of u = VTREE_BLACK"
  shows "\<exists>t' H' z'. insert_rotate_right_case (t, H) z = Some ((t', H'), z')
    \<and> ins_state F N (inorder (plug (PNode z VTREE_RED k v l r) (c1 # CR g gc gk gv u # cs))) t (t', H') z' (Suc (length cs))"
proof (cases c1)
  case (CR p pc pk pv s)
  note T = tree [unfolded CR]
  have ne: "z \<noteq> addr (t_nil t) s" using sibling_addr(1) [OF T] by simp
  obtain t' H' where H': "insert_rotate_right_case (t, H) z = Some ((t', H'), z)" "t_nil t' = t_nil t" "t_size t' = t_size t"
    "tree_in F N (t', H') (plug (PNode z VTREE_RED k v l r) (CR p VTREE_BLACK pk pv (PNode g VTREE_RED gk gv u s) # cs))"
    using insert_right_right_step [OF T refl ne] by metis
  moreover have "ctx_rb n (CR p VTREE_BLACK pk pv (PNode g VTREE_RED gk gv u s) # cs)" using c u CR by simp
  moreover have "inorder (plug (PNode z VTREE_RED k v l r) (c1 # CR g gc gk gv u # cs))
      = inorder (plug (PNode z VTREE_RED k v l r) (CR p VTREE_BLACK pk pv (PNode g VTREE_RED gk gv u s) # cs))"
    using CR by (simp add: inorder_plug)
  ultimately show ?thesis unfolding ins_state_def using rb by fastforce
next
  case (CL p pc pk pv s)
  note T = tree [unfolded CL]
  have ne: "p \<noteq> addr (t_nil t) l" using sibling_addr(2) [OF T] by simp
  obtain t' H' where H': "insert_rotate_right_case (t, H) z = Some ((t', H'), p)" "t_nil t' = t_nil t" "t_size t' = t_size t"
    "tree_in F N (t', H') (plug (PNode p pc pk pv r s) (CR z VTREE_BLACK k v (PNode g VTREE_RED gk gv u l) # cs))"
    using insert_right_left_step [OF T ne] by metis
  moreover have "ctx_rb n (CR z VTREE_BLACK k v (PNode g VTREE_RED gk gv u l) # cs)" "rb n (PNode p VTREE_RED pk pv r s)" "pc = VTREE_RED"
    using c u rb CL by simp_all
  moreover have "inorder (plug (PNode z VTREE_RED k v l r) (c1 # CR g gc gk gv u # cs))
      = inorder (plug (PNode p pc pk pv r s) (CR z VTREE_BLACK k v (PNode g VTREE_RED gk gv u l) # cs))"
    using CL by (simp add: inorder_plug)
  ultimately show ?thesis unfolding ins_state_def by fastforce
qed

lemma ins_state_base: "ins_state F N xs t tH z d \<Longrightarrow> t_nil t = t_nil t0 \<Longrightarrow> t_size t = t_size t0 \<Longrightarrow> ins_state F N xs t0 tH z d"
  by (simp add: ins_state_def)

lemma insert_fixup_body_step:
  assumes inv: "ins_state F N xs t0 (t, H) z d" and N: "n_color N = VTREE_BLACK"
    and red: "ld n_parent H z = Some p" "ld n_color H p = Some VTREE_RED"
  shows "\<exists>tH' z' d'. insert_fixup_body (t, H) z = Some (tH', z') \<and> ins_state F N xs t0 tH' z' d' \<and> d' < d"
proof -
  obtain k v l r cs n where base: "t_nil t = t_nil t0" "t_size t = t_size t0" and tree: "tree_in F N (t, H) (plug (PNode z VTREE_RED k v l r) cs)"
      and xs: "xs = inorder (plug (PNode z VTREE_RED k v l r) cs)" and rb: "rb n (PNode z VTREE_RED k v l r)" "ctx_rb n cs"
      and d: "length cs = d"
    using inv unfolding ins_state_def by auto
  obtain c1 c2 cs' where cs: "cs = c1 # c2 # cs'" and c: "crumb_color c1 = VTREE_RED" "crumb_color c2 = VTREE_BLACK" "p = crumb_addr c1"
    "color_of (crumb_tree c1) = VTREE_BLACK" "rb n (crumb_tree c1)" "rb n (crumb_tree c2)" "ctx_rb (Suc n) cs'"
    using red_parent [OF tree N rb(2) red] by metis
  note tree = tree [unfolded cs] and xs = xs [unfolded cs]
  have up: "tree_in F N (t, H) (plug (fill c1 (PNode z VTREE_RED k v l r)) (c2 # cs'))" using tree by (simp only: plug_fill [of _ c1])
  have par: "ld n_parent H p = Some (crumb_addr c2)" using crumb_node(1) [OF tree] c(3) by simp
  have p: "addr (t_nil t) (fill c1 (PNode z VTREE_RED k v l r)) = p" using c(3) by (cases c1) auto
  have p_ne: "p \<noteq> addr (t_nil t) (crumb_tree c2)"
  proof -
    obtain pc pk pv pl pr where P: "fill c1 (PNode z VTREE_RED k v l r) = PNode p pc pk pv pl pr" using c(3) by (cases c1) auto
    show ?thesis by (rule sibling_addr(1) [OF up [unfolded P]])
  qed
  have yc: "ld n_color H (addr (t_nil t) (crumb_tree c2)) = Some (color_of (crumb_tree c2))" by (rule sibling_color [OF up N])
  show ?thesis
  proof (cases "color_of (crumb_tree c2)")
    case VTREE_RED
    then obtain H' where H': "insert_recolor (t, H) z (addr (t_nil t) (crumb_tree c2)) = Some ((t, H'), crumb_addr c2)"
        "ins_state F N xs t (t, H') (crumb_addr c2) (length cs')"
      using insert_red_uncle [OF tree rb(1) c(1,2,5,6,7)] xs by blast
    then have "insert_fixup_body (t, H) z = Some ((t, H'), crumb_addr c2)"
      using red(1) par crumb_node(3) [OF up] p p_ne yc VTREE_RED by (cases c2) (auto simp: insert_fixup_body_def)
    then show ?thesis using ins_state_base [OF H'(2) base] d cs by (auto intro!: exI [of _ "length cs'"])
  next
    case VTREE_BLACK
    have "\<exists>t' H' z'. insert_fixup_body (t, H) z = Some ((t', H'), z') \<and> ins_state F N xs t (t', H') z' (Suc (length cs'))"
    proof (cases c2)
      case (CL g gc gk gv u)
      then show ?thesis
        using insert_black_uncle_left [OF tree [unfolded CL] rb(1) c(1,5,4)] c(6,7) VTREE_BLACK xs
          red(1) par crumb_node(3) [OF up] p p_ne yc by (auto simp: insert_fixup_body_def)
    next
      case (CR g gc gk gv u)
      then show ?thesis
        using insert_black_uncle_right [OF tree [unfolded CR] rb(1) c(1,5,4)] c(6,7) VTREE_BLACK xs
          red(1) par crumb_node(3) [OF up] p p_ne yc by (auto simp: insert_fixup_body_def)
    qed
    then show ?thesis using ins_state_base [OF _ base] d cs by (metis length_Cons lessI)
  qed
qed

lemma insert_fixup_loop_ok:
  assumes "ins_state F N xs t0 (t, H) z d" and N: "n_color N = VTREE_BLACK"
  shows "\<exists>t' H' s n. insert_fixup_loop (t, H) z = Some (t', H') \<and> t_nil t' = t_nil t0 \<and> t_size t' = t_size t0
    \<and> tree_in F N (t', H') s \<and> inorder s = xs \<and> rb n s"
  using assms(1)
proof (induction d arbitrary: t H z rule: less_induct)
  case (less d)
  obtain k v l r cs n where base: "t_nil t = t_nil t0" "t_size t = t_size t0" and tree: "tree_in F N (t, H) (plug (PNode z VTREE_RED k v l r) cs)"
      and xs: "inorder (plug (PNode z VTREE_RED k v l r) cs) = xs" and rb: "rb n (PNode z VTREE_RED k v l r)" "ctx_rb n cs"
    using less.prems unfolding ins_state_def by auto
  have par: "ld n_parent H z = Some (up (t_nil t) cs)" using tree_in_node(1) [OF tree] by simp
  have col: "ld n_color H (up (t_nil t) cs) = Some (if cs = [] then VTREE_BLACK else crumb_color (hd cs))"
  proof (cases cs)
    case Nil
    then show ?thesis using tree N by (simp add: tree_in_def Let_def)
  next
    case (Cons c cs')
    then show ?thesis using crumb_node(2) [OF tree [unfolded Cons]] by simp
  qed
  show ?case
  proof (cases "cs \<noteq> [] \<and> crumb_color (hd cs) = VTREE_RED")
    case True
    then have "ld n_color H (up (t_nil t) cs) = Some VTREE_RED" using col by simp
    from insert_fixup_body_step [OF less.prems N par this] obtain t1 H1 z1 d1
      where body: "insert_fixup_body (t, H) z = Some ((t1, H1), z1)" "ins_state F N xs t0 (t1, H1) z1 d1" "d1 < d" by auto
    then show ?thesis using less.IH [OF body(3,2)] par col True by (subst insert_fixup_loop.simps) simp
  next
    case False
    have "\<exists>m. rb m (plug (PNode z VTREE_RED k v l r) cs)"
    proof (cases "cs = []")
      case True
      then show ?thesis using rb by auto
    next
      case ne: False
      then have "rbt (plug (PNode z VTREE_RED k v l r) cs)" using False rb by (auto simp: rbt_plug black_above_def)
      then show ?thesis by (auto simp: rbt_def)
    qed
    then show ?thesis using False par col tree xs base by (subst insert_fixup_loop.simps) auto
  qed
qed

text \<open>The repair turns a red node below a valid context into a red-black tree with the same entries.\<close>

lemma insert_fixup_ok:
  assumes tree: "tree_in F N (t, H) (plug (PNode z VTREE_RED k v PLeaf PLeaf) cs)" and cs: "ctx_rb 0 cs" and N: "n_color N = VTREE_BLACK"
  shows "\<exists>t' H' s. vtree_insert_fixup (t, H) z = Some (t', H') \<and> t_nil t' = t_nil t \<and> t_size t' = t_size t
    \<and> tree_in F N (t', H') s \<and> rbt s \<and> inorder s = before cs @ (z, k, v) # after cs"
proof -
  have "ins_state F N (before cs @ (z, k, v) # after cs) t (t, H) z (length cs)"
  proof -
    have "inorder (plug (PNode z VTREE_RED k v PLeaf PLeaf) cs) = before cs @ (z, k, v) # after cs"
        "rb 0 (PNode z VTREE_RED k v PLeaf PLeaf)"
      by (simp_all add: inorder_plug)
    then show ?thesis unfolding ins_state_def fst_conv using tree cs by blast
  qed
  from insert_fixup_loop_ok [OF this N] obtain t' H' s n where loop: "insert_fixup_loop (t, H) z = Some (t', H')"
      "t_nil t' = t_nil t" "t_size t' = t_size t" "tree_in F N (t', H') s" "inorder s = before cs @ (z, k, v) # after cs" "rb n s"
    by auto
  obtain a c k' v' l r where s: "s = PNode a c k' v' l r" using loop(5) by (cases s) auto
  have "tree_in F N (t', H') (plug s [])" using loop(4) by simp
  from tree_in_color [OF this [unfolded s]] obtain H'' where "set_color H' a VTREE_BLACK = Some H''"
      "tree_in F N (t', H'') (paint VTREE_BLACK s)" using s by auto
  moreover have "t_root t' = a" using loop(4) s by (simp add: tree_in_def Let_def)
  ultimately show ?thesis
    using loop rb_paint [OF loop(6)] by (auto simp: vtree_insert_fixup_def)
qed

end
