(* ===== verification/Vcol_TreeDelete.thy ===== *)
theory Vcol_TreeDelete
  imports Vcol_TreeInsert
begin

text \<open>
  The repair after a removal: the loop of \<^verbatim>\<open>vtree_delete_fixup\<close> ends and leaves a red-black tree with the
  same entries, whichever node moved into the gap, the sentinel included.
\<close>

section \<open>A subtree that lacks one black node\<close>

text \<open>The root of the subtree may be red above red children: the loop ends there and paints it black.\<close>

fun almost :: "nat \<Rightarrow> ptree \<Rightarrow> bool" where
  "almost n PLeaf \<longleftrightarrow> n = 0"
| "almost n (PNode a VTREE_RED k v l r) \<longleftrightarrow> rb n l \<and> rb n r"
| "almost n (PNode a VTREE_BLACK k v l r) \<longleftrightarrow> rb n (PNode a VTREE_BLACK k v l r)"

lemma rb_almost: "rb n s \<Longrightarrow> almost n s"
  by (induction n s rule: rb.induct) auto

lemma almost_black: "almost n s \<Longrightarrow> color_of s = VTREE_BLACK \<Longrightarrow> rb n s"
  by (induction n s rule: almost.induct) auto

lemma almost_red: "almost n s \<Longrightarrow> color_of s = VTREE_RED \<Longrightarrow> rb (Suc n) (paint VTREE_BLACK s)"
  by (induction n s rule: almost.induct) auto

lemma color_paint [simp]: "color_of (paint VTREE_BLACK s) = VTREE_BLACK"
  by (cases s) auto

lemma paint_same: "color_of s = c \<Longrightarrow> paint c s = s"
  by (cases s) auto

lemma plug_PLeaf: "plug s cs = PLeaf \<longleftrightarrow> s = PLeaf \<and> cs = []"
  by (induction s cs rule: plug.induct) auto

text \<open>The sentinel's parent field is that of the gap when the sentinel moved into it.\<close>

definition gap :: "VTreeNode \<Rightarrow> u64 \<Rightarrow> ptree \<Rightarrow> crumb list \<Rightarrow> bool" where
  "gap N nl s cs \<longleftrightarrow> n_color N = VTREE_BLACK \<and> (s = PLeaf \<longrightarrow> n_parent N = up nl cs)"

lemma tree_in_nil: "tree_in F N (t, H) s \<Longrightarrow> H (t_nil t) = Some N"
  by (simp add: tree_in_def Let_def)

lemma focus_color:
  assumes "tree_in F N (t, H) (plug s cs)" "n_color N = VTREE_BLACK"
  shows "ld n_color H (addr (t_nil t) s) = Some (color_of s)"
proof (cases s)
  case PLeaf
  then show ?thesis using tree_in_nil [OF assms(1)] assms(2) by simp
next
  case (PNode a c k v l r)
  then show ?thesis using tree_in_node(1) [OF assms(1) [unfolded PNode]] by simp
qed

lemma focus_parent:
  assumes "tree_in F N (t, H) (plug s cs)" "gap N (t_nil t) s cs"
  shows "ld n_parent H (addr (t_nil t) s) = Some (up (t_nil t) cs)"
proof (cases s)
  case PLeaf
  then show ?thesis using tree_in_nil [OF assms(1)] assms(2) by (simp add: gap_def)
next
  case (PNode a c k v l r)
  then show ?thesis using tree_in_node(1) [OF assms(1) [unfolded PNode]] by simp
qed

section \<open>The cases of the loop body on the left\<close>

lemma delete_left_sibling_step:
  assumes tree: "tree_in F N (t, H) (plug s (CL p pc pk pv W # cs))" and gap: "gap N (t_nil t) s (CL p pc pk pv W # cs)"
    and ctx: "ctx_rb (Suc n) (CL p pc pk pv W # cs)"
  obtains t' H' w pc' wk wv wa wb cs' where "delete_left_sibling (t, H) (addr (t_nil t) s) = Some ((t', H'), w)"
    "t_nil t' = t_nil t" "t_size t' = t_size t"
    "tree_in F N (t', H') (plug s (CL p pc' pk pv (PNode w VTREE_BLACK wk wv wa wb) # cs'))"
    "ctx_rb (Suc n) (CL p pc' pk pv (PNode w VTREE_BLACK wk wv wa wb) # cs')"
    "inorder (plug s (CL p pc' pk pv (PNode w VTREE_BLACK wk wv wa wb) # cs')) = inorder (plug s (CL p pc pk pv W # cs))"
    "length cs' = length cs \<or> pc' = VTREE_RED"
proof -
  obtain w wc wk wv wa wb where W: "W = PNode w wc wk wv wa wb" using ctx by (cases W) auto
  note reads = focus_parent [OF tree gap] crumb_node(3) [OF tree] sibling_color [OF tree]
  have wcol: "ld n_color H w = Some wc" using reads(3) gap W by (simp add: gap_def)
  show ?thesis
  proof (cases wc)
    case VTREE_BLACK
    then show ?thesis
      using that [of t H w pc wk wv wa wb cs] reads W tree ctx wcol by (simp add: delete_left_sibling_def)
  next
    case VTREE_RED
    have pc: "pc = VTREE_BLACK" using ctx VTREE_RED W by (cases pc) auto
    obtain H1 where H1: "set_color H w VTREE_BLACK = Some H1"
        "tree_in F N (t, H1) (plug s (CL p pc pk pv (PNode w VTREE_BLACK wk wv wa wb) # cs))"
      using tree_in_sib_color [OF tree] W by (metis crumb_tree.simps(1) with_sib.simps(1))
    obtain H2 where H2: "set_color H1 p VTREE_RED = Some H2"
        "tree_in F N (t, H2) (plug s (CL p VTREE_RED pk pv (PNode w VTREE_BLACK wk wv wa wb) # cs))"
      using tree_in_crumb_color [OF H1(2)] by (metis crumb_addr.simps(1) recolor.simps(1))
    have "tree_in F N (t, H2) (plug (PNode p VTREE_RED pk pv s (PNode w VTREE_BLACK wk wv wa wb)) cs)" using H2(2) by simp
    then obtain t' H3 where H3: "vtree_left_rotate (t, H2) p = Some (t', H3)" "t_nil t' = t_nil t" "t_size t' = t_size t"
        "tree_in F N (t', H3) (plug (PNode w VTREE_BLACK wk wv (PNode p VTREE_RED pk pv s wa) wb) cs)"
      by (rule left_rotate_step)
    let ?cs = "CL w VTREE_BLACK wk wv wb # cs"
    have T: "tree_in F N (t', H3) (plug s (CL p VTREE_RED pk pv wa # ?cs))" using H3(4) by simp
    have g: "gap N (t_nil t') s (CL p VTREE_RED pk pv wa # ?cs)" using gap H3(2) by (simp add: gap_def)
    have wa: "color_of wa = VTREE_BLACK" "rb (Suc n) wa" "rb (Suc n) wb" "ctx_rb (Suc (Suc n)) cs"
      using ctx W VTREE_RED pc by auto
    then obtain w' wk' wv' wa' wb' where W': "wa = PNode w' VTREE_BLACK wk' wv' wa' wb'" by (cases wa) auto
    have "delete_left_sibling (t, H) (addr (t_nil t) s) = Some ((t', H3), w')"
      using reads(1,2) W wcol VTREE_RED H1(1) H2(1) H3(1,2) focus_parent [OF T g] crumb_node(3) [OF T] W'
      by (simp add: delete_left_sibling_def)
    then show ?thesis
      using that [of t' H3 w' VTREE_RED wk' wv' wa' wb' ?cs] H3(2,3) T wa W W' by (simp add: inorder_plug)
  qed
qed

lemma delete_left_rotate_outer:
  assumes tree: "tree_in F N (t, H) (plug s (CL p pc pk pv (PNode w wc wk wv wa (PNode r VTREE_RED rk rv rl rr)) # cs))"
    and gap: "gap N (t_nil t) s (CL p pc pk pv (PNode w wc wk wv wa (PNode r VTREE_RED rk rv rl rr)) # cs)"
  obtains t' H' where "delete_left_rotate (t, H) (addr (t_nil t) s) w = Some ((t', H'), t_root t')"
    "t_nil t' = t_nil t" "t_size t' = t_size t"
    "tree_in F N (t', H') (plug (PNode w pc wk wv (PNode p VTREE_BLACK pk pv s wa) (PNode r VTREE_BLACK rk rv rl rr)) cs)"
proof -
  let ?R = "PNode r VTREE_RED rk rv rl rr"
  have W: "tree_in F N (t, H) (plug (PNode w wc wk wv wa ?R) (CR p pc pk pv s # cs))" using tree by simp
  have R: "tree_in F N (t, H) (plug ?R (CR w wc wk wv wa # CR p pc pk pv s # cs))" using tree by simp
  note reads = focus_parent [OF tree gap] crumb_node [OF tree] tree_in_node(1) [OF W] tree_in_node(1) [OF R]
  obtain H1 where H1: "set_color H w pc = Some H1" "tree_in F N (t, H1) (plug (PNode w pc wk wv wa ?R) (CR p pc pk pv s # cs))"
    using tree_in_color [OF W] by blast
  obtain H2 where H2: "set_color H1 p VTREE_BLACK = Some H2"
      "tree_in F N (t, H2) (plug (PNode w pc wk wv wa ?R) (CR p VTREE_BLACK pk pv s # cs))"
    using tree_in_crumb_color [OF H1(2)] by (metis crumb_addr.simps(2) recolor.simps(2))
  have R2: "tree_in F N (t, H2) (plug ?R (CR w pc wk wv wa # CR p VTREE_BLACK pk pv s # cs))" using H2(2) by simp
  obtain H3 where H3: "set_color H2 r VTREE_BLACK = Some H3"
      "tree_in F N (t, H3) (plug (PNode r VTREE_BLACK rk rv rl rr) (CR w pc wk wv wa # CR p VTREE_BLACK pk pv s # cs))"
    using tree_in_color [OF R2] by blast
  have "tree_in F N (t, H3) (plug (PNode p VTREE_BLACK pk pv s (PNode w pc wk wv wa (PNode r VTREE_BLACK rk rv rl rr))) cs)"
    using H3(2) by simp
  then obtain t' H4 where H4: "vtree_left_rotate (t, H3) p = Some (t', H4)" "t_nil t' = t_nil t" "t_size t' = t_size t"
      "tree_in F N (t', H4) (plug (PNode w pc wk wv (PNode p VTREE_BLACK pk pv s wa) (PNode r VTREE_BLACK rk rv rl rr)) cs)"
    by (rule left_rotate_step)
  have "delete_left_rotate (t, H) (addr (t_nil t) s) w = Some ((t', H4), t_root t')"
    using reads H1(1) H2(1) H3(1) H4(1) tree_in_node(1) [OF H2(2)] by (simp add: delete_left_rotate_def)
  then show ?thesis using that H4(2-4) by blast
qed

lemma delete_left_rotate_inner:
  assumes tree: "tree_in F N (t, H) (plug s (CL p pc pk pv (PNode w wc wk wv (PNode l lc lk lv ll lr) wb) # cs))"
    and gap: "gap N (t_nil t) s (CL p pc pk pv (PNode w wc wk wv (PNode l lc lk lv ll lr) wb) # cs)"
    and wb: "color_of wb = VTREE_BLACK"
  obtains t' H' where "delete_left_rotate (t, H) (addr (t_nil t) s) w = delete_left_rotate (t', H') (addr (t_nil t) s) l"
    "t_nil t' = t_nil t" "t_size t' = t_size t"
    "tree_in F N (t', H') (plug s (CL p pc pk pv (PNode l VTREE_BLACK lk lv ll (PNode w VTREE_RED wk wv lr wb)) # cs))"
proof -
  have W: "tree_in F N (t, H) (plug (PNode w wc wk wv (PNode l lc lk lv ll lr) wb) (CR p pc pk pv s # cs))" using tree by simp
  have L: "tree_in F N (t, H) (plug (PNode l lc lk lv ll lr) (CL w wc wk wv wb # CR p pc pk pv s # cs))" using tree by simp
  have rc: "ld n_color H (addr (t_nil t) wb) = Some VTREE_BLACK" using sibling_color [OF L] gap wb by (simp add: gap_def)
  obtain H1 where H1: "set_color H l VTREE_BLACK = Some H1"
      "tree_in F N (t, H1) (plug (PNode l VTREE_BLACK lk lv ll lr) (CL w wc wk wv wb # CR p pc pk pv s # cs))"
    using tree_in_color [OF L] by blast
  obtain H2 where H2: "set_color H1 w VTREE_RED = Some H2"
      "tree_in F N (t, H2) (plug (PNode l VTREE_BLACK lk lv ll lr) (CL w VTREE_RED wk wv wb # CR p pc pk pv s # cs))"
    using tree_in_crumb_color [OF H1(2)] by (metis crumb_addr.simps(1) recolor.simps(1))
  have "tree_in F N (t, H2) (plug (PNode w VTREE_RED wk wv (PNode l VTREE_BLACK lk lv ll lr) wb) (CR p pc pk pv s # cs))"
    using H2(2) by simp
  then obtain t' H3 where H3: "vtree_right_rotate (t, H2) w = Some (t', H3)" "t_nil t' = t_nil t" "t_size t' = t_size t"
      "tree_in F N (t', H3) (plug (PNode l VTREE_BLACK lk lv ll (PNode w VTREE_RED wk wv lr wb)) (CR p pc pk pv s # cs))"
    by (rule right_rotate_step)
  have T: "tree_in F N (t', H3) (plug s (CL p pc pk pv (PNode l VTREE_BLACK lk lv ll (PNode w VTREE_RED wk wv lr wb)) # cs))"
    using H3(4) by simp
  have g: "gap N (t_nil t') s (CL p pc pk pv (PNode l VTREE_BLACK lk lv ll (PNode w VTREE_RED wk wv lr wb)) # cs)"
    using gap H3(2) by (simp add: gap_def)
  have Wn: "tree_in F N (t', H3) (plug (PNode w VTREE_RED wk wv lr wb) (CR l VTREE_BLACK lk lv ll # CR p pc pk pv s # cs))" using T by simp
  have "delete_left_rotate (t, H) (addr (t_nil t) s) w = delete_left_rotate (t', H3) (addr (t_nil t) s) l"
    using tree_in_node(1) [OF W] rc H1(1) H2(1) H3(1,2) focus_parent [OF T g] crumb_node(3) [OF T]
      tree_in_node(1) [OF H3(4)] tree_in_node(1) [OF Wn]
    by (simp add: delete_left_rotate_def)
  then show ?thesis using that H3(2,3) T by blast
qed

section \<open>The cases of the loop body on the right\<close>

lemma delete_right_sibling_step:
  assumes tree: "tree_in F N (t, H) (plug s (CR p pc pk pv W # cs))" and gap: "gap N (t_nil t) s (CR p pc pk pv W # cs)"
    and ctx: "ctx_rb (Suc n) (CR p pc pk pv W # cs)"
  obtains t' H' w pc' wk wv wa wb cs' where "delete_right_sibling (t, H) (addr (t_nil t) s) = Some ((t', H'), w)"
    "t_nil t' = t_nil t" "t_size t' = t_size t"
    "tree_in F N (t', H') (plug s (CR p pc' pk pv (PNode w VTREE_BLACK wk wv wb wa) # cs'))"
    "ctx_rb (Suc n) (CR p pc' pk pv (PNode w VTREE_BLACK wk wv wb wa) # cs')"
    "inorder (plug s (CR p pc' pk pv (PNode w VTREE_BLACK wk wv wb wa) # cs')) = inorder (plug s (CR p pc pk pv W # cs))"
    "length cs' = length cs \<or> pc' = VTREE_RED"
proof -
  obtain w wc wk wv wa wb where W: "W = PNode w wc wk wv wb wa" using ctx by (cases W) auto
  note reads = focus_parent [OF tree gap] crumb_node(3) [OF tree] sibling_color [OF tree]
  have wcol: "ld n_color H w = Some wc" using reads(3) gap W by (simp add: gap_def)
  show ?thesis
  proof (cases wc)
    case VTREE_BLACK
    then show ?thesis
      using that [of t H w pc wk wv wb wa cs] reads W tree ctx wcol by (simp add: delete_right_sibling_def)
  next
    case VTREE_RED
    have pc: "pc = VTREE_BLACK" using ctx VTREE_RED W by (cases pc) auto
    obtain H1 where H1: "set_color H w VTREE_BLACK = Some H1"
        "tree_in F N (t, H1) (plug s (CR p pc pk pv (PNode w VTREE_BLACK wk wv wb wa) # cs))"
      using tree_in_sib_color [OF tree] W by (metis crumb_tree.simps(2) with_sib.simps(2))
    obtain H2 where H2: "set_color H1 p VTREE_RED = Some H2"
        "tree_in F N (t, H2) (plug s (CR p VTREE_RED pk pv (PNode w VTREE_BLACK wk wv wb wa) # cs))"
      using tree_in_crumb_color [OF H1(2)] by (metis crumb_addr.simps(2) recolor.simps(2))
    have "tree_in F N (t, H2) (plug (PNode p VTREE_RED pk pv (PNode w VTREE_BLACK wk wv wb wa) s) cs)" using H2(2) by simp
    then obtain t' H3 where H3: "vtree_right_rotate (t, H2) p = Some (t', H3)" "t_nil t' = t_nil t" "t_size t' = t_size t"
        "tree_in F N (t', H3) (plug (PNode w VTREE_BLACK wk wv wb (PNode p VTREE_RED pk pv wa s)) cs)"
      by (rule right_rotate_step)
    let ?cs = "CR w VTREE_BLACK wk wv wb # cs"
    have T: "tree_in F N (t', H3) (plug s (CR p VTREE_RED pk pv wa # ?cs))" using H3(4) by simp
    have g: "gap N (t_nil t') s (CR p VTREE_RED pk pv wa # ?cs)" using gap H3(2) by (simp add: gap_def)
    have wa: "color_of wa = VTREE_BLACK" "rb (Suc n) wa" "rb (Suc n) wb" "ctx_rb (Suc (Suc n)) cs"
      using ctx W VTREE_RED pc by auto
    then obtain w' wk' wv' wa' wb' where W': "wa = PNode w' VTREE_BLACK wk' wv' wb' wa'" by (cases wa) auto
    have "delete_right_sibling (t, H) (addr (t_nil t) s) = Some ((t', H3), w')"
      using reads(1,2) W wcol VTREE_RED H1(1) H2(1) H3(1,2) focus_parent [OF T g] crumb_node(3) [OF T] W'
      by (simp add: delete_right_sibling_def)
    then show ?thesis
      using that [of t' H3 w' VTREE_RED wk' wv' wb' wa' ?cs] H3(2,3) T wa W W' by (simp add: inorder_plug)
  qed
qed

lemma delete_right_rotate_outer:
  assumes tree: "tree_in F N (t, H) (plug s (CR p pc pk pv (PNode w wc wk wv (PNode r VTREE_RED rk rv rr rl) wa) # cs))"
    and gap: "gap N (t_nil t) s (CR p pc pk pv (PNode w wc wk wv (PNode r VTREE_RED rk rv rr rl) wa) # cs)"
  obtains t' H' where "delete_right_rotate (t, H) (addr (t_nil t) s) w = Some ((t', H'), t_root t')"
    "t_nil t' = t_nil t" "t_size t' = t_size t"
    "tree_in F N (t', H') (plug (PNode w pc wk wv (PNode r VTREE_BLACK rk rv rr rl) (PNode p VTREE_BLACK pk pv wa s)) cs)"
proof -
  let ?R = "PNode r VTREE_RED rk rv rr rl"
  have W: "tree_in F N (t, H) (plug (PNode w wc wk wv ?R wa) (CL p pc pk pv s # cs))" using tree by simp
  have R: "tree_in F N (t, H) (plug ?R (CL w wc wk wv wa # CL p pc pk pv s # cs))" using tree by simp
  note reads = focus_parent [OF tree gap] crumb_node [OF tree] tree_in_node(1) [OF W] tree_in_node(1) [OF R]
  obtain H1 where H1: "set_color H w pc = Some H1" "tree_in F N (t, H1) (plug (PNode w pc wk wv ?R wa) (CL p pc pk pv s # cs))"
    using tree_in_color [OF W] by blast
  obtain H2 where H2: "set_color H1 p VTREE_BLACK = Some H2"
      "tree_in F N (t, H2) (plug (PNode w pc wk wv ?R wa) (CL p VTREE_BLACK pk pv s # cs))"
    using tree_in_crumb_color [OF H1(2)] by (metis crumb_addr.simps(1) recolor.simps(1))
  have R2: "tree_in F N (t, H2) (plug ?R (CL w pc wk wv wa # CL p VTREE_BLACK pk pv s # cs))" using H2(2) by simp
  obtain H3 where H3: "set_color H2 r VTREE_BLACK = Some H3"
      "tree_in F N (t, H3) (plug (PNode r VTREE_BLACK rk rv rr rl) (CL w pc wk wv wa # CL p VTREE_BLACK pk pv s # cs))"
    using tree_in_color [OF R2] by blast
  have "tree_in F N (t, H3) (plug (PNode p VTREE_BLACK pk pv (PNode w pc wk wv (PNode r VTREE_BLACK rk rv rr rl) wa) s) cs)"
    using H3(2) by simp
  then obtain t' H4 where H4: "vtree_right_rotate (t, H3) p = Some (t', H4)" "t_nil t' = t_nil t" "t_size t' = t_size t"
      "tree_in F N (t', H4) (plug (PNode w pc wk wv (PNode r VTREE_BLACK rk rv rr rl) (PNode p VTREE_BLACK pk pv wa s)) cs)"
    by (rule right_rotate_step)
  have "delete_right_rotate (t, H) (addr (t_nil t) s) w = Some ((t', H4), t_root t')"
    using reads H1(1) H2(1) H3(1) H4(1) tree_in_node(1) [OF H2(2)] by (simp add: delete_right_rotate_def)
  then show ?thesis using that H4(2-4) by blast
qed

lemma delete_right_rotate_inner:
  assumes tree: "tree_in F N (t, H) (plug s (CR p pc pk pv (PNode w wc wk wv wb (PNode l lc lk lv lr ll)) # cs))"
    and gap: "gap N (t_nil t) s (CR p pc pk pv (PNode w wc wk wv wb (PNode l lc lk lv lr ll)) # cs)"
    and wb: "color_of wb = VTREE_BLACK"
  obtains t' H' where "delete_right_rotate (t, H) (addr (t_nil t) s) w = delete_right_rotate (t', H') (addr (t_nil t) s) l"
    "t_nil t' = t_nil t" "t_size t' = t_size t"
    "tree_in F N (t', H') (plug s (CR p pc pk pv (PNode l VTREE_BLACK lk lv (PNode w VTREE_RED wk wv wb lr) ll) # cs))"
proof -
  have W: "tree_in F N (t, H) (plug (PNode w wc wk wv wb (PNode l lc lk lv lr ll)) (CL p pc pk pv s # cs))" using tree by simp
  have L: "tree_in F N (t, H) (plug (PNode l lc lk lv lr ll) (CR w wc wk wv wb # CL p pc pk pv s # cs))" using tree by simp
  have rc: "ld n_color H (addr (t_nil t) wb) = Some VTREE_BLACK" using sibling_color [OF L] gap wb by (simp add: gap_def)
  obtain H1 where H1: "set_color H l VTREE_BLACK = Some H1"
      "tree_in F N (t, H1) (plug (PNode l VTREE_BLACK lk lv lr ll) (CR w wc wk wv wb # CL p pc pk pv s # cs))"
    using tree_in_color [OF L] by blast
  obtain H2 where H2: "set_color H1 w VTREE_RED = Some H2"
      "tree_in F N (t, H2) (plug (PNode l VTREE_BLACK lk lv lr ll) (CR w VTREE_RED wk wv wb # CL p pc pk pv s # cs))"
    using tree_in_crumb_color [OF H1(2)] by (metis crumb_addr.simps(2) recolor.simps(2))
  have "tree_in F N (t, H2) (plug (PNode w VTREE_RED wk wv wb (PNode l VTREE_BLACK lk lv lr ll)) (CL p pc pk pv s # cs))"
    using H2(2) by simp
  then obtain t' H3 where H3: "vtree_left_rotate (t, H2) w = Some (t', H3)" "t_nil t' = t_nil t" "t_size t' = t_size t"
      "tree_in F N (t', H3) (plug (PNode l VTREE_BLACK lk lv (PNode w VTREE_RED wk wv wb lr) ll) (CL p pc pk pv s # cs))"
    by (rule left_rotate_step)
  have T: "tree_in F N (t', H3) (plug s (CR p pc pk pv (PNode l VTREE_BLACK lk lv (PNode w VTREE_RED wk wv wb lr) ll) # cs))"
    using H3(4) by simp
  have g: "gap N (t_nil t') s (CR p pc pk pv (PNode l VTREE_BLACK lk lv (PNode w VTREE_RED wk wv wb lr) ll) # cs)"
    using gap H3(2) by (simp add: gap_def)
  have Wn: "tree_in F N (t', H3) (plug (PNode w VTREE_RED wk wv wb lr) (CL l VTREE_BLACK lk lv ll # CL p pc pk pv s # cs))" using T by simp
  have "delete_right_rotate (t, H) (addr (t_nil t) s) w = delete_right_rotate (t', H3) (addr (t_nil t) s) l"
    using tree_in_node(1) [OF W] rc H1(1) H2(1) H3(1,2) focus_parent [OF T g] crumb_node(3) [OF T]
      tree_in_node(1) [OF H3(4)] tree_in_node(1) [OF Wn]
    by (simp add: delete_right_rotate_def)
  then show ?thesis using that H3(2,3) T by blast
qed

section \<open>The loop of \<^verbatim>\<open>vtree_delete_fixup\<close>\<close>

definition del_state :: "node_heap \<Rightarrow> VTreeNode \<Rightarrow> (u64 \<times> u64 \<times> u64) list \<Rightarrow> VestaTreeMap \<Rightarrow> tree_state \<Rightarrow> u64 \<Rightarrow> nat \<Rightarrow> bool" where
  "del_state F N xs t0 tH x d \<longleftrightarrow>
     t_nil (fst tH) = t_nil t0 \<and> t_size (fst tH) = t_size t0 \<and>
     (\<exists>s cs n. tree_in F N tH (plug s cs) \<and> gap N (t_nil t0) s cs \<and> x = addr (t_nil t0) s \<and> inorder (plug s cs) = xs
        \<and> almost n s \<and> ctx_rb (Suc n) cs \<and> d = (if color_of s = VTREE_RED then 0 else length cs))"

lemma del_stateI:
  assumes "almost n s" "ctx_rb (Suc n) cs" "tree_in F N (t, H) (plug s cs)" "t_nil t = t_nil t0" "t_size t = t_size t0"
    "gap N (t_nil t0) s cs" "x = addr (t_nil t0) s" "inorder (plug s cs) = xs" "d = (if color_of s = VTREE_RED then 0 else length cs)"
  shows "del_state F N xs t0 (t, H) x d"
  unfolding del_state_def using assms by (intro conjI exI [of _ s] exI [of _ cs] exI [of _ n]) simp_all

lemma del_state_whole:
  assumes "rbt s" "s \<noteq> PLeaf" "tree_in F N (t, H) s" "t_nil t = t_nil t0" "t_size t = t_size t0" "n_color N = VTREE_BLACK"
    "inorder s = xs"
  shows "del_state F N xs t0 (t, H) (t_root t) 0"
proof -
  obtain n where "rb n s" using assms(1) by (auto simp: rbt_def)
  moreover have "t_root t = addr (t_nil t0) s" using assms(3,4) by (simp add: tree_in_def Let_def)
  ultimately show ?thesis using assms by (intro del_stateI [where s = s and cs = "[]" and n = n]) (auto simp: rb_almost gap_def)
qed

lemma addr_sib_ne:
  assumes "tree_in F N (t, H) (plug s (c # cs))" "ctx_rb (Suc n) (c # cs)"
  shows "addr (t_nil t) s \<noteq> addr (t_nil t) (crumb_tree c)"
proof -
  obtain w wc wk wv wa wb where W: "crumb_tree c = PNode w wc wk wv wa wb" using assms(2) by (cases "crumb_tree c") auto
  then show ?thesis using assms(1) addr_in [of "t_nil t" s] by (auto simp: tree_in_plug Let_def)
qed

lemma delete_body_left:
  assumes tree: "tree_in F N (t, H) (plug s (CL p pc pk pv W # cs))" and gap: "gap N (t_nil t) s (CL p pc pk pv W # cs)"
    and ctx: "ctx_rb (Suc n) (CL p pc pk pv W # cs)" and s: "rb n s" "color_of s = VTREE_BLACK"
  shows "\<exists>tH' x' d'. delete_fixup_body (t, H) (addr (t_nil t) s) = Some (tH', x') \<and> d' < Suc (length cs)
    \<and> del_state F N (inorder (plug s (CL p pc pk pv W # cs))) t tH' x' d'"
proof -
  obtain t1 H1 w pc' wk wv wa wb cs1 where sib: "delete_left_sibling (t, H) (addr (t_nil t) s) = Some ((t1, H1), w)"
    and base1: "t_nil t1 = t_nil t" "t_size t1 = t_size t"
    and T1: "tree_in F N (t1, H1) (plug s (CL p pc' pk pv (PNode w VTREE_BLACK wk wv wa wb) # cs1))"
    and ctx1: "ctx_rb (Suc n) (CL p pc' pk pv (PNode w VTREE_BLACK wk wv wa wb) # cs1)"
    and xs: "inorder (plug s (CL p pc pk pv W # cs)) = inorder (plug s (CL p pc' pk pv (PNode w VTREE_BLACK wk wv wa wb) # cs1))"
    and len: "length cs1 = length cs \<or> pc' = VTREE_RED"
    using delete_left_sibling_step [OF tree gap ctx] by metis
  have gap1: "gap N (t_nil t1) s (CL p pc' pk pv W' # cs1)" for W' using gap base1 by (simp add: gap_def)
  have W1: "tree_in F N (t1, H1) (plug (PNode w VTREE_BLACK wk wv wa wb) (CR p pc' pk pv s # cs1))" using T1 by simp
  have black: "ld n_color H1 (addr (t_nil t1) wa) = Some (color_of wa)" "ld n_color H1 (addr (t_nil t1) wb) = Some (color_of wb)"
    using focus_color [of F N t1 H1 wa "CL w VTREE_BLACK wk wv wb # CR p pc' pk pv s # cs1"]
      focus_color [of F N t1 H1 wb "CR w VTREE_BLACK wk wv wa # CR p pc' pk pv s # cs1"] T1 gap by (simp_all add: gap_def)
  have start: "delete_fixup_body (t, H) (addr (t_nil t) s) =
      (if color_of wa = VTREE_BLACK \<and> color_of wb = VTREE_BLACK then delete_recolor (t1, H1) (addr (t_nil t) s) w
       else delete_left_rotate (t1, H1) (addr (t_nil t) s) w)"
    using focus_parent [OF tree gap] crumb_node(3) [OF tree] sib tree_in_node(1) [OF W1] black addr_sib_ne [OF tree ctx]
    by (auto simp: delete_fixup_body_def both_black_def)
  have rbs: "rb n wa" "rb n wb" using ctx1 by simp_all
  show ?thesis
  proof (cases "color_of wa = VTREE_BLACK \<and> color_of wb = VTREE_BLACK")
    case True
    let ?W = "PNode w VTREE_RED wk wv wa wb"
    obtain H2 where H2: "set_color H1 w VTREE_RED = Some H2" "tree_in F N (t1, H2) (plug ?W (CR p pc' pk pv s # cs1))"
      using tree_in_color [OF W1] by blast
    have T2: "tree_in F N (t1, H2) (plug s (CL p pc' pk pv ?W # cs1))" using H2(2) by simp
    have "delete_fixup_body (t, H) (addr (t_nil t) s) = Some ((t1, H2), p)"
      using start True H2(1) focus_parent [OF T2 gap1] base1 by (simp add: delete_recolor_def)
    moreover have "del_state F N (inorder (plug s (CL p pc pk pv W # cs))) t (t1, H2) p (if pc' = VTREE_RED then 0 else length cs1)"
    proof (rule del_stateI [where s = "PNode p pc' pk pv s ?W" and n = "if pc' = VTREE_RED then n else Suc n"])
      show "almost (if pc' = VTREE_RED then n else Suc n) (PNode p pc' pk pv s ?W)"
        using rbs True s by (cases pc') simp_all
      show "ctx_rb (Suc (if pc' = VTREE_RED then n else Suc n)) cs1" using ctx1 by (cases pc') simp_all
    qed (use T2 base1 gap xs in \<open>simp_all add: gap_def inorder_plug\<close>)
    moreover have "(if pc' = VTREE_RED then 0 else length cs1) < Suc (length cs)" using len by auto
    ultimately show ?thesis by blast
  next
    case False
    have "\<exists>t2 H2 w2 wk2 wv2 wa2 r rk rv rl rr. delete_left_rotate (t1, H1) (addr (t_nil t) s) w = delete_left_rotate (t2, H2) (addr (t_nil t) s) w2
        \<and> t_nil t2 = t_nil t \<and> t_size t2 = t_size t \<and> rb n wa2 \<and> rb n (PNode r VTREE_RED rk rv rl rr)
        \<and> tree_in F N (t2, H2) (plug s (CL p pc' pk pv (PNode w2 VTREE_BLACK wk2 wv2 wa2 (PNode r VTREE_RED rk rv rl rr)) # cs1))
        \<and> inorder (PNode w2 VTREE_BLACK wk2 wv2 wa2 (PNode r VTREE_RED rk rv rl rr)) = inorder (PNode w VTREE_BLACK wk wv wa wb)"
    proof (cases "color_of wb")
      case VTREE_RED
      then obtain r rk rv rl rr where "wb = PNode r VTREE_RED rk rv rl rr" by (cases wb) auto
      then show ?thesis using T1 base1 rbs by blast
    next
      case VTREE_BLACK
      then obtain l lk lv ll lr where L: "wa = PNode l VTREE_RED lk lv ll lr" using False by (cases wa) auto
      obtain t2 H2 where "delete_left_rotate (t1, H1) (addr (t_nil t1) s) w = delete_left_rotate (t2, H2) (addr (t_nil t1) s) l"
        "t_nil t2 = t_nil t1" "t_size t2 = t_size t1"
        "tree_in F N (t2, H2) (plug s (CL p pc' pk pv (PNode l VTREE_BLACK lk lv ll (PNode w VTREE_RED wk wv lr wb)) # cs1))"
        by (rule delete_left_rotate_inner [OF T1 [unfolded L] gap1 VTREE_BLACK])
      moreover have "rb n ll" "rb n (PNode w VTREE_RED wk wv lr wb)" using rbs L VTREE_BLACK by simp_all
      moreover have "inorder (PNode l VTREE_BLACK lk lv ll (PNode w VTREE_RED wk wv lr wb)) = inorder (PNode w VTREE_BLACK wk wv wa wb)"
        using L by simp
      ultimately show ?thesis unfolding base1 by blast
    qed
    then obtain t2 H2 w2 wk2 wv2 wa2 r rk rv rl rr where
      rot: "delete_left_rotate (t1, H1) (addr (t_nil t) s) w = delete_left_rotate (t2, H2) (addr (t_nil t) s) w2"
      and base2: "t_nil t2 = t_nil t" "t_size t2 = t_size t" and rb2: "rb n wa2" "rb n (PNode r VTREE_RED rk rv rl rr)"
      and T2: "tree_in F N (t2, H2) (plug s (CL p pc' pk pv (PNode w2 VTREE_BLACK wk2 wv2 wa2 (PNode r VTREE_RED rk rv rl rr)) # cs1))"
      and in2: "inorder (PNode w2 VTREE_BLACK wk2 wv2 wa2 (PNode r VTREE_RED rk rv rl rr)) = inorder (PNode w VTREE_BLACK wk wv wa wb)"
      by blast
    have gap2: "gap N (t_nil t2) s (CL p pc' pk pv W' # cs1)" for W' using gap base2 by (simp add: gap_def)
    let ?S = "PNode w2 pc' wk2 wv2 (PNode p VTREE_BLACK pk pv s wa2) (PNode r VTREE_BLACK rk rv rl rr)"
    obtain t3 H3 where H3: "delete_left_rotate (t2, H2) (addr (t_nil t2) s) w2 = Some ((t3, H3), t_root t3)"
      "t_nil t3 = t_nil t2" "t_size t3 = t_size t2" "tree_in F N (t3, H3) (plug ?S cs1)"
      by (rule delete_left_rotate_outer [OF T2 gap2])
    have "rbt (plug ?S cs1)" unfolding rbt_plug using s rb2 ctx1
      by (intro exI [of _ "if pc' = VTREE_RED then Suc n else Suc (Suc n)"]) (cases pc'; simp)
    moreover have "inorder (plug ?S cs1) = inorder (plug s (CL p pc pk pv W # cs))" using in2 unfolding xs by (simp add: inorder_plug)
    ultimately have "del_state F N (inorder (plug s (CL p pc pk pv W # cs))) t (t3, H3) (t_root t3) 0"
      using H3 base2 gap by (intro del_state_whole [where s = "plug ?S cs1"]) (simp_all add: gap_def plug_PLeaf)
    then show ?thesis using start False rot H3(1) base2 by (auto intro!: exI [of _ 0])
  qed
qed

lemma delete_body_right:
  assumes tree: "tree_in F N (t, H) (plug s (CR p pc pk pv W # cs))" and gap: "gap N (t_nil t) s (CR p pc pk pv W # cs)"
    and ctx: "ctx_rb (Suc n) (CR p pc pk pv W # cs)" and s: "rb n s" "color_of s = VTREE_BLACK"
  shows "\<exists>tH' x' d'. delete_fixup_body (t, H) (addr (t_nil t) s) = Some (tH', x') \<and> d' < Suc (length cs)
    \<and> del_state F N (inorder (plug s (CR p pc pk pv W # cs))) t tH' x' d'"
proof -
  obtain t1 H1 w pc' wk wv wa wb cs1 where sib: "delete_right_sibling (t, H) (addr (t_nil t) s) = Some ((t1, H1), w)"
    and base1: "t_nil t1 = t_nil t" "t_size t1 = t_size t"
    and T1: "tree_in F N (t1, H1) (plug s (CR p pc' pk pv (PNode w VTREE_BLACK wk wv wb wa) # cs1))"
    and ctx1: "ctx_rb (Suc n) (CR p pc' pk pv (PNode w VTREE_BLACK wk wv wb wa) # cs1)"
    and xs: "inorder (plug s (CR p pc pk pv W # cs)) = inorder (plug s (CR p pc' pk pv (PNode w VTREE_BLACK wk wv wb wa) # cs1))"
    and len: "length cs1 = length cs \<or> pc' = VTREE_RED"
    using delete_right_sibling_step [OF tree gap ctx] by metis
  have gap1: "gap N (t_nil t1) s (CR p pc' pk pv W' # cs1)" for W' using gap base1 by (simp add: gap_def)
  have W1: "tree_in F N (t1, H1) (plug (PNode w VTREE_BLACK wk wv wb wa) (CL p pc' pk pv s # cs1))" using T1 by simp
  have black: "ld n_color H1 (addr (t_nil t1) wa) = Some (color_of wa)" "ld n_color H1 (addr (t_nil t1) wb) = Some (color_of wb)"
    using focus_color [of F N t1 H1 wa "CR w VTREE_BLACK wk wv wb # CL p pc' pk pv s # cs1"]
      focus_color [of F N t1 H1 wb "CL w VTREE_BLACK wk wv wa # CL p pc' pk pv s # cs1"] T1 gap by (simp_all add: gap_def)
  have start: "delete_fixup_body (t, H) (addr (t_nil t) s) =
      (if color_of wa = VTREE_BLACK \<and> color_of wb = VTREE_BLACK then delete_recolor (t1, H1) (addr (t_nil t) s) w
       else delete_right_rotate (t1, H1) (addr (t_nil t) s) w)"
    using focus_parent [OF tree gap] crumb_node(3) [OF tree] sib tree_in_node(1) [OF W1] black addr_sib_ne [OF tree ctx]
    by (auto simp: delete_fixup_body_def both_black_def)
  have rbs: "rb n wa" "rb n wb" using ctx1 by simp_all
  show ?thesis
  proof (cases "color_of wa = VTREE_BLACK \<and> color_of wb = VTREE_BLACK")
    case True
    let ?W = "PNode w VTREE_RED wk wv wb wa"
    obtain H2 where H2: "set_color H1 w VTREE_RED = Some H2" "tree_in F N (t1, H2) (plug ?W (CL p pc' pk pv s # cs1))"
      using tree_in_color [OF W1] by blast
    have T2: "tree_in F N (t1, H2) (plug s (CR p pc' pk pv ?W # cs1))" using H2(2) by simp
    have "delete_fixup_body (t, H) (addr (t_nil t) s) = Some ((t1, H2), p)"
      using start True H2(1) focus_parent [OF T2 gap1] base1 by (simp add: delete_recolor_def)
    moreover have "del_state F N (inorder (plug s (CR p pc pk pv W # cs))) t (t1, H2) p (if pc' = VTREE_RED then 0 else length cs1)"
    proof (rule del_stateI [where s = "PNode p pc' pk pv ?W s" and n = "if pc' = VTREE_RED then n else Suc n"])
      show "almost (if pc' = VTREE_RED then n else Suc n) (PNode p pc' pk pv ?W s)"
        using rbs True s by (cases pc') simp_all
      show "ctx_rb (Suc (if pc' = VTREE_RED then n else Suc n)) cs1" using ctx1 by (cases pc') simp_all
    qed (use T2 base1 gap xs in \<open>simp_all add: gap_def inorder_plug\<close>)
    moreover have "(if pc' = VTREE_RED then 0 else length cs1) < Suc (length cs)" using len by auto
    ultimately show ?thesis by blast
  next
    case False
    have "\<exists>t2 H2 w2 wk2 wv2 wa2 r rk rv rl rr. delete_right_rotate (t1, H1) (addr (t_nil t) s) w = delete_right_rotate (t2, H2) (addr (t_nil t) s) w2
        \<and> t_nil t2 = t_nil t \<and> t_size t2 = t_size t \<and> rb n wa2 \<and> rb n (PNode r VTREE_RED rk rv rr rl)
        \<and> tree_in F N (t2, H2) (plug s (CR p pc' pk pv (PNode w2 VTREE_BLACK wk2 wv2 (PNode r VTREE_RED rk rv rr rl) wa2) # cs1))
        \<and> inorder (PNode w2 VTREE_BLACK wk2 wv2 (PNode r VTREE_RED rk rv rr rl) wa2) = inorder (PNode w VTREE_BLACK wk wv wb wa)"
    proof (cases "color_of wb")
      case VTREE_RED
      then obtain r rk rv rl rr where "wb = PNode r VTREE_RED rk rv rr rl" by (cases wb) auto
      then show ?thesis using T1 base1 rbs by blast
    next
      case VTREE_BLACK
      then obtain l lk lv ll lr where L: "wa = PNode l VTREE_RED lk lv lr ll" using False by (cases wa) auto
      obtain t2 H2 where "delete_right_rotate (t1, H1) (addr (t_nil t1) s) w = delete_right_rotate (t2, H2) (addr (t_nil t1) s) l"
        "t_nil t2 = t_nil t1" "t_size t2 = t_size t1"
        "tree_in F N (t2, H2) (plug s (CR p pc' pk pv (PNode l VTREE_BLACK lk lv (PNode w VTREE_RED wk wv wb lr) ll) # cs1))"
        by (rule delete_right_rotate_inner [OF T1 [unfolded L] gap1 VTREE_BLACK])
      moreover have "rb n ll" "rb n (PNode w VTREE_RED wk wv wb lr)" using rbs L VTREE_BLACK by simp_all
      moreover have "inorder (PNode l VTREE_BLACK lk lv (PNode w VTREE_RED wk wv wb lr) ll) = inorder (PNode w VTREE_BLACK wk wv wb wa)"
        using L by simp
      ultimately show ?thesis unfolding base1 by blast
    qed
    then obtain t2 H2 w2 wk2 wv2 wa2 r rk rv rl rr where
      rot: "delete_right_rotate (t1, H1) (addr (t_nil t) s) w = delete_right_rotate (t2, H2) (addr (t_nil t) s) w2"
      and base2: "t_nil t2 = t_nil t" "t_size t2 = t_size t" and rb2: "rb n wa2" "rb n (PNode r VTREE_RED rk rv rr rl)"
      and T2: "tree_in F N (t2, H2) (plug s (CR p pc' pk pv (PNode w2 VTREE_BLACK wk2 wv2 (PNode r VTREE_RED rk rv rr rl) wa2) # cs1))"
      and in2: "inorder (PNode w2 VTREE_BLACK wk2 wv2 (PNode r VTREE_RED rk rv rr rl) wa2) = inorder (PNode w VTREE_BLACK wk wv wb wa)"
      by blast
    have gap2: "gap N (t_nil t2) s (CR p pc' pk pv W' # cs1)" for W' using gap base2 by (simp add: gap_def)
    let ?S = "PNode w2 pc' wk2 wv2 (PNode r VTREE_BLACK rk rv rr rl) (PNode p VTREE_BLACK pk pv wa2 s)"
    obtain t3 H3 where H3: "delete_right_rotate (t2, H2) (addr (t_nil t2) s) w2 = Some ((t3, H3), t_root t3)"
      "t_nil t3 = t_nil t2" "t_size t3 = t_size t2" "tree_in F N (t3, H3) (plug ?S cs1)"
      by (rule delete_right_rotate_outer [OF T2 gap2])
    have "rbt (plug ?S cs1)" unfolding rbt_plug using s rb2 ctx1
      by (intro exI [of _ "if pc' = VTREE_RED then Suc n else Suc (Suc n)"]) (cases pc'; simp)
    moreover have "inorder (plug ?S cs1) = inorder (plug s (CR p pc pk pv W # cs))" using in2 unfolding xs by (simp add: inorder_plug)
    ultimately have "del_state F N (inorder (plug s (CR p pc pk pv W # cs))) t (t3, H3) (t_root t3) 0"
      using H3 base2 gap by (intro del_state_whole [where s = "plug ?S cs1"]) (simp_all add: gap_def plug_PLeaf)
    then show ?thesis using start False rot H3(1) base2 by (auto intro!: exI [of _ 0])
  qed
qed

lemma del_state_base: "del_state F N xs t tH x d \<Longrightarrow> t_nil t = t_nil t0 \<Longrightarrow> t_size t = t_size t0 \<Longrightarrow> del_state F N xs t0 tH x d"
  by (simp add: del_state_def)

lemma focus_not_root:
  assumes "tree_in F N (t, H) (plug s cs)"
  shows "addr (t_nil t) s = t_root t \<longleftrightarrow> cs = []"
  using assms addr_in [of "t_nil t" s] root_addr_in [of cs "addr (t_nil t) s"] by (auto simp: tree_in_plug Let_def)

lemma delete_fixup_loop_ok:
  assumes "del_state F N xs t0 (t, H) x d"
  shows "\<exists>t' H' x'. delete_fixup_loop (t, H) x = Some ((t', H'), x') \<and> del_state F N xs t0 (t', H') x' 0"
  using assms
proof (induction d arbitrary: t H x rule: less_induct)
  case (less d)
  obtain s cs n where base: "t_nil t = t_nil t0" "t_size t = t_size t0" and tree: "tree_in F N (t, H) (plug s cs)"
      and gap: "gap N (t_nil t) s cs" and x: "x = addr (t_nil t) s" and xs: "xs = inorder (plug s cs)"
      and rb: "almost n s" "ctx_rb (Suc n) cs" and d: "d = (if color_of s = VTREE_RED then 0 else length cs)"
    using less.prems unfolding del_state_def by auto
  have col: "ld n_color H x = Some (color_of s)" using focus_color [OF tree] gap x by (simp add: gap_def)
  have root: "x = t_root t \<longleftrightarrow> cs = []" using focus_not_root [OF tree] x by simp
  show ?case
  proof (cases "cs = [] \<or> color_of s = VTREE_RED")
    case True
    then have "d = 0" using d by auto
    then show ?thesis using True root col less.prems by (subst delete_fixup_loop.simps) auto
  next
    case False
    then obtain c cs' where cs: "cs = c # cs'" and black: "color_of s = VTREE_BLACK" by (cases cs) auto
    note body_left = delete_body_left [of F N t H s _ _ _ _ _ cs' n] and body_right = delete_body_right [of F N t H s _ _ _ _ _ cs' n]
    have "\<exists>tH' x' d'. delete_fixup_body (t, H) x = Some (tH', x') \<and> d' < d \<and> del_state F N xs t tH' x' d'"
      using body_left body_right tree gap rb(2) almost_black [OF rb(1) black] black d unfolding cs x xs
      by (cases c) auto
    then obtain t1 H1 x1 d1 where b: "delete_fixup_body (t, H) x = Some ((t1, H1), x1)" "d1 < d" "del_state F N xs t (t1, H1) x1 d1"
      by auto
    show ?thesis using less.IH [OF b(2) del_state_base [OF b(3) base]] b(1) False root col black
      by (subst delete_fixup_loop.simps) auto
  qed
qed

text \<open>The repair restores the red-black invariant and keeps the entries.\<close>

lemma delete_fixup_ok:
  assumes "tree_in F N (t, H) (plug s cs)" "gap N (t_nil t) s cs" "almost n s" "ctx_rb (Suc n) cs"
  shows "\<exists>t' H' s'. vtree_delete_fixup (t, H) (addr (t_nil t) s) = Some (t', H') \<and> t_nil t' = t_nil t \<and> t_size t' = t_size t
    \<and> tree_in F N (t', H') s' \<and> rbt s' \<and> inorder s' = inorder (plug s cs)"
proof -
  have "del_state F N (inorder (plug s cs)) t (t, H) (addr (t_nil t) s) (if color_of s = VTREE_RED then 0 else length cs)"
    using assms by (intro del_stateI [where s = s and cs = cs and n = n]) simp_all
  from delete_fixup_loop_ok [OF this] obtain t' H' x' where loop: "delete_fixup_loop (t, H) (addr (t_nil t) s) = Some ((t', H'), x')"
      "del_state F N (inorder (plug s cs)) t (t', H') x' 0" by blast
  then obtain s' cs' m where base: "t_nil t' = t_nil t" "t_size t' = t_size t" and tree: "tree_in F N (t', H') (plug s' cs')"
      and gap: "gap N (t_nil t') s' cs'" and x: "x' = addr (t_nil t') s'" and xs: "inorder (plug s' cs') = inorder (plug s cs)"
      and rb: "almost m s'" "ctx_rb (Suc m) cs'" and d: "color_of s' = VTREE_RED \<or> cs' = []"
    unfolding del_state_def by (auto split: if_splits)
  have "\<exists>H''. set_color H' x' VTREE_BLACK = Some H'' \<and> tree_in F N (t', H'') (plug (paint VTREE_BLACK s') cs')"
  proof (cases s')
    case PLeaf
    then have "H' x' = Some N" "N\<lparr>n_color := VTREE_BLACK\<rparr> = N" using tree_in_nil [OF tree] x gap by (simp_all add: gap_def)
    then show ?thesis using PLeaf tree by (simp add: fun_upd_idem)
  next
    case (PNode a c k v l r)
    then show ?thesis using tree_in_color [OF tree [unfolded PNode]] x by simp
  qed
  moreover have "rbt (plug (paint VTREE_BLACK s') cs')"
  proof (cases "color_of s'")
    case VTREE_RED
    then show ?thesis using almost_red [OF rb(1)] rb(2) by (auto simp: rbt_plug)
  next
    case VTREE_BLACK
    then show ?thesis using d almost_black [OF rb(1)] by (auto simp: rbt_def paint_same)
  qed
  moreover have "inorder (plug (paint VTREE_BLACK s') cs') = inorder (plug s cs)" using xs by (simp add: inorder_plug)
  ultimately show ?thesis using loop(1) base by (auto simp: vtree_delete_fixup_def)
qed

end
