(* ===== verification/Vcol_TreeUnlink.thy ===== *)
theory Vcol_TreeUnlink
  imports Vcol_TreeDelete
begin

text \<open>
  Taking a node out of the tree, the first half of \<^verbatim>\<open>vcol_tmap_remove\<close>: a node with at most one child is
  replaced by it, a node with two by its successor.  What is left is a tree whose gap
  \<^verbatim>\<open>vtree_delete_fixup\<close> repairs, and the node, no longer part of it.
\<close>

lemma plug_append: "plug s (ds @ cs) = plug (plug s ds) cs"
  by (induction s ds rule: plug.induct) auto

lemma ctx_addrs_append [simp]: "ctx_addrs (ds @ cs) = ctx_addrs ds @ ctx_addrs cs"
  by (simp add: ctx_addrs_def)

lemma up_append: "ds \<noteq> [] \<Longrightarrow> up nl (ds @ cs) = up nl ds"
  by (cases ds) auto

section \<open>Replacing a node by its only child\<close>

lemma transplant_step:
  assumes "ctx_at H (t_nil t) u cs" "ld n_parent H u = Some (up (t_nil t) cs)" "t_root t = root_addr u cs"
    "distinct (t_nil t # ctx_addrs cs)" "u \<notin> set (ctx_addrs cs)" "u \<noteq> t_nil t" and v: "v \<notin> set (ctx_addrs cs)" "H v = Some V"
  obtains t' H' where "vtree_transplant (t, H) u v = Some (t', H')" "t_nil t' = t_nil t" "t_size t' = t_size t"
    "t_root t' = root_addr v cs" "ctx_at H' (t_nil t) v cs" "H' v = Some (V\<lparr>n_parent := up (t_nil t) cs\<rparr>)"
    "\<And>a. a \<noteq> v \<Longrightarrow> a \<notin> set (ctx_addrs cs) \<Longrightarrow> H' a = H a"
proof -
  obtain t' H1 where H1: "replace_child (t, H) u v = Some (t', H1)" "t_nil t' = t_nil t" "t_size t' = t_size t"
    "t_root t' = root_addr v cs" "ctx_at H1 (t_nil t) v cs" "\<forall>a. a \<notin> set (ctx_addrs cs) \<longrightarrow> H1 a = H a"
    using replace_child_step [OF assms(1-6)] by metis
  then have "ld n_parent H1 u = Some (up (t_nil t) cs)" "H1 v = Some V" using assms by (auto simp: ld_def)
  then have "vtree_transplant (t, H) u v = Some (t', H1(v \<mapsto> V\<lparr>n_parent := up (t_nil t) cs\<rparr>))"
    using H1(1) by (simp add: vtree_transplant_def)
  then show ?thesis using that H1 v(1) by simp
qed

lemma splice_step:
  assumes tree: "tree_in F N (t, H) (plug (PNode u c k v a b) cs)" and s: "a = PLeaf \<and> b = s \<or> b = PLeaf \<and> a = s"
    and N: "n_color N = VTREE_BLACK"
  obtains t' H' N' where "vtree_transplant (t, H) u (addr (t_nil t) s) = Some (t', H')" "t_nil t' = t_nil t" "t_size t' = t_size t"
    "tree_in (F(u := H u)) N' (t', H') (plug s cs)" "gap N' (t_nil t) s cs" "H' u = H u"
proof -
  let ?nl = "t_nil t"
  note facts = tree [unfolded tree_in_plug Let_def, simplified]
  have d: "distinct (0 # ?nl # u # addrs s @ ctx_addrs cs)" and up: "ld n_parent H u = Some (up ?nl cs)"
    and fr: "\<forall>x. x \<notin> insert ?nl (insert u (set (addrs s) \<union> set (ctx_addrs cs))) \<longrightarrow> H x = F x"
    and ts: "tree_at H ?nl u s"
    using facts s by auto
  have v: "addr ?nl s \<notin> set (ctx_addrs cs)" "addr ?nl s \<noteq> u" using d addr_in [of ?nl s] by auto
  obtain V where V: "H (addr ?nl s) = Some V" using ts facts by (cases s) auto
  obtain t' H' where H': "vtree_transplant (t, H) u (addr ?nl s) = Some (t', H')" "t_nil t' = ?nl" "t_size t' = t_size t"
    "t_root t' = root_addr (addr ?nl s) cs" "ctx_at H' ?nl (addr ?nl s) cs" "H' (addr ?nl s) = Some (V\<lparr>n_parent := up ?nl cs\<rparr>)"
    "\<And>a. a \<noteq> addr ?nl s \<Longrightarrow> a \<notin> set (ctx_addrs cs) \<Longrightarrow> H' a = H a"
    using transplant_step [of H t u cs "addr ?nl s" V] up v V facts by auto
  have hu: "H' u = H u" using H'(7) [of u] v(2) d by auto
  have tr: "tree_at H' ?nl (up ?nl cs) s"
  proof (cases s)
    case (PNode sa sc sk sv sl sr)
    have "tree_at H' ?nl sa sl = tree_at H ?nl sa sl" "tree_at H' ?nl sa sr = tree_at H ?nl sa sr"
      using d PNode by (auto intro!: tree_at_cong H'(7))
    then show ?thesis using PNode ts V H'(6) by auto
  qed simp
  define N' where "N' = the (H' ?nl)"
  have "H' ?nl = Some N' \<and> gap N' ?nl s cs"
  proof (cases s)
    case PLeaf
    then show ?thesis using H'(6) V facts N by (simp add: N'_def gap_def)
  next
    case (PNode sa sc sk sv sl sr)
    then have "H' ?nl = H ?nl" using H'(7) [of ?nl] d by auto
    then show ?thesis using facts N PNode by (simp add: N'_def gap_def)
  qed
  then have nil: "H' ?nl = Some N'" "gap N' ?nl s cs" by simp_all
  have "H' x = (F(u := H u)) x" if "x \<notin> insert ?nl (set (addrs s) \<union> set (ctx_addrs cs))" for x
  proof (cases "x = u")
    case False
    have "x \<noteq> addr ?nl s" using that addr_in [of ?nl s] by auto
    then show ?thesis using False that H'(7) [of x] fr by auto
  qed (simp add: hu)
  then have "tree_in (F(u := H u)) N' (t', H') (plug s cs)"
    using tr nil(1) H'(2,4,5) d by (simp add: tree_in_plug Let_def)
  then show ?thesis using that H' nil(2) hu by blast
qed

section \<open>The successor takes the place of the node\<close>

text \<open>
  The node \<open>z\<close> is still linked below its parent, with the left subtree \<open>l\<close>; the node \<open>y\<close> is outside of the
  tree and has the right subtree \<open>R\<close> already.
\<close>

definition beside :: "node_heap \<Rightarrow> VTreeNode \<Rightarrow> tree_state \<Rightarrow> u64 \<Rightarrow> VTreeColor \<Rightarrow> ptree \<Rightarrow> u64 \<Rightarrow> VTreeNode \<Rightarrow> ptree \<Rightarrow> crumb list \<Rightarrow> bool" where
  "beside F N tH z c l y Y R cs \<longleftrightarrow>
     (let (t, H) = tH; nl = t_nil t
      in t_root t = root_addr z cs \<and> H nl = Some N \<and> ctx_at H nl z cs
         \<and> ld n_left H z = Some (addr nl l) \<and> ld n_color H z = Some c \<and> ld n_parent H z = Some (up nl cs)
         \<and> H y = Some Y \<and> n_right Y = addr nl R \<and> tree_at H nl z l \<and> tree_at H nl y R
         \<and> distinct (0 # nl # z # y # addrs l @ addrs R @ ctx_addrs cs)
         \<and> (\<forall>x. x \<notin> {nl, z, y} \<union> set (addrs l) \<union> set (addrs R) \<union> set (ctx_addrs cs) \<longrightarrow> H x = F x))"

lemma tmap_take_place_step:
  assumes st: "beside F N (t, H) z c l y Y R cs" and l: "l \<noteq> PLeaf"
  obtains t' H' where "tmap_take_place (t, H) z y = Some (t', H')" "t_nil t' = t_nil t" "t_size t' = t_size t"
    "tree_in (F(z := H z)) N (t', H') (plug (PNode y c (n_key Y) (n_value Y) l R) cs)"
proof -
  let ?nl = "t_nil t"
  note facts = st [unfolded beside_def Let_def, simplified]
  have d: "distinct (0 # ?nl # z # y # addrs l @ addrs R @ ctx_addrs cs)" using facts by simp
  obtain t' H1 where H1: "vtree_transplant (t, H) z y = Some (t', H1)" "t_nil t' = ?nl" "t_size t' = t_size t"
    "t_root t' = root_addr y cs" "ctx_at H1 ?nl y cs" "H1 y = Some (Y\<lparr>n_parent := up ?nl cs\<rparr>)"
    "\<And>a. a \<noteq> y \<Longrightarrow> a \<notin> set (ctx_addrs cs) \<Longrightarrow> H1 a = H a"
    using transplant_step [of H t z cs y Y] facts by auto
  obtain la lc lk lv ll lr where L: "l = PNode la lc lk lv ll lr" using l by (cases l) auto
  have dl: "la \<noteq> y" "la \<noteq> z" "z \<noteq> y" "la \<notin> set (ctx_addrs cs)" "z \<notin> set (ctx_addrs cs)" using d L by auto
  have h1: "H1 z = H z" "H1 la = H la" using H1(7) dl by simp_all
  obtain LN where LN: "H la = Some LN" "LN = \<lparr>n_key = lk, n_value = lv, n_color = lc, n_left = addr ?nl ll, n_right = addr ?nl lr, n_parent = z\<rparr>"
    using facts L by simp
  define H2 where "H2 = H1(y \<mapsto> Y\<lparr>n_parent := up ?nl cs, n_left := la, n_color := c\<rparr>, la \<mapsto> LN\<lparr>n_parent := y\<rparr>)"
  have zl: "ld f H1 z = ld f H z" for f :: "VTreeNode \<Rightarrow> 'x" using h1 by (simp add: ld_def)
  have run: "tmap_take_place (t, H) z y = Some (t', H2)"
    using facts H1(1,6) h1 L LN(1) dl zl [of n_left] zl [of n_color]
    by (auto simp: tmap_take_place_def H2_def ld_def upd_def fun_upd_twist)
  have "tree_at H2 ?nl y R = tree_at H ?nl y R" "tree_at H2 ?nl la ll = tree_at H ?nl la ll" "tree_at H2 ?nl la lr = tree_at H ?nl la lr"
    using d L by (auto simp: H2_def intro!: tree_at_cong H1(7))
  then have sub: "tree_at H2 ?nl y R" "tree_at H2 ?nl y l" using facts L LN(2) dl by (simp_all add: H2_def)
  have "ctx_at H2 ?nl y cs" using H1(5) d L by (auto simp: H2_def)
  moreover have "H2 ?nl = Some N" using H1(7) [of ?nl] facts d L by (auto simp: H2_def)
  moreover have "H2 x = (F(z := H z)) x" if "x \<notin> insert ?nl (insert y (set (addrs l) \<union> set (addrs R) \<union> set (ctx_addrs cs)))" for x
    using that H1(7) [of x] facts L by (auto simp: H2_def)
  ultimately have "tree_in (F(z := H z)) N (t', H2) (plug (PNode y c (n_key Y) (n_value Y) l R) cs)"
    using H1(2,4) d sub facts dl L by (simp add: tree_in_plug Let_def H2_def)
  then show ?thesis using that run H1(2,3) by blast
qed

section \<open>The whole removal of a node\<close>

lemma before_append: "before (ds @ cs) = before cs @ before ds"
  by (induction ds rule: before.induct) auto

lemma after_append: "after (ds @ cs) = after ds @ after cs"
  by (induction ds rule: after.induct) auto

lemma minimum_ok:
  assumes "tree_at H (t_nil t) p r" "r \<noteq> PLeaf" "t_nil t \<notin> set (addrs r)"
  shows "\<exists>y yc yk yv b ds. r = plug (PNode y yc yk yv PLeaf b) ds \<and> before ds = [] \<and> vtree_minimum t H (addr (t_nil t) r) = Some y"
  using assms
proof (induction r arbitrary: p)
  case (PNode a c k v l r)
  show ?case
  proof (cases l)
    case PLeaf
    then have "vtree_minimum t H a = Some a" using PNode.prems by (subst vtree_minimum.simps) auto
    moreover have "PNode a c k v l r = plug (PNode a c k v PLeaf r) []" "before [] = []" using PLeaf by simp_all
    ultimately show ?thesis by (metis addr.simps(2))
  next
    case (PNode la lc lk lv ll lr)
    obtain y yc yk yv b ds where y: "l = plug (PNode y yc yk yv PLeaf b) ds" "before ds = []" "vtree_minimum t H (addr (t_nil t) l) = Some y"
    proof -
      have "tree_at H (t_nil t) a l" "l \<noteq> PLeaf" "t_nil t \<notin> set (addrs l)" using PNode.prems PNode by auto
      from PNode.IH(1) [OF this] show ?thesis using that by blast
    qed
    then have "PNode a c k v l r = plug (PNode y yc yk yv PLeaf b) (ds @ [CL a c k v r])" "before (ds @ [CL a c k v r]) = []"
      by (simp_all add: plug_append before_append)
    moreover have "vtree_minimum t H a = Some y"
      using PNode.prems PNode y(3) by (subst vtree_minimum.simps) auto
    ultimately show ?thesis by (metis addr.simps(2))
  qed
qed simp

text \<open>The black heights do not depend on the keys along the path.\<close>

lemma ctx_rb_rename: "ctx_rb n (ds @ CR a c k v l # cs) = ctx_rb n (ds @ CR a' c k' v' l # cs)"
proof (induction ds arbitrary: n)
  case (Cons d ds)
  have "black_above (ds @ CR a c k v l # cs) = black_above (ds @ CR a' c k' v' l # cs)" by (cases ds) auto
  then show ?case using Cons by simp
qed simp

lemma black_above_rename: "black_above (ds @ CR a c k v l # cs) = black_above (ds @ CR a' c k' v' l # cs)"
  by (cases ds) auto

text \<open>Without a red node the tree is still one; without a black node the child in its place lacks one.\<close>

definition repairable :: "VTreeColor \<Rightarrow> ptree \<Rightarrow> crumb list \<Rightarrow> bool" where
  "repairable c s cs \<longleftrightarrow> (if c = VTREE_RED then rbt (plug s cs) else \<exists>n. almost n s \<and> ctx_rb (Suc n) cs)"

lemma splice_repairable:
  assumes "rb n (PNode u c k v a b)" "ctx_rb n cs" "a = PLeaf \<and> b = s \<or> b = PLeaf \<and> a = s"
  shows "repairable c s cs"
proof (cases c)
  case VTREE_RED
  then have "n = 0" "rb 0 s" "color_of s = VTREE_BLACK" using assms by auto
  then show ?thesis using assms(2) VTREE_RED by (auto simp: repairable_def rbt_plug)
next
  case VTREE_BLACK
  then obtain m where "n = Suc m" "rb m s" using assms by (auto simp: rb_Black)
  then show ?thesis using assms(2) VTREE_BLACK by (auto simp: repairable_def intro: rb_almost)
qed

lemma reparent_step:
  assumes "tree_at H nl y b" "H nl = Some N" "nl \<notin> set (addrs b)"
  obtains B N' where "set_parent H (addr nl b) y = Some B" "B nl = Some N'" "tree_at B nl y b" "\<And>x. x \<noteq> nl \<Longrightarrow> B x = H x"
    "n_color N' = n_color N" "b = PLeaf \<longrightarrow> n_parent N' = y"
proof (cases b)
  case PLeaf
  then show ?thesis using assms that [of "H(nl \<mapsto> N\<lparr>n_parent := y\<rparr>)"] by simp
next
  case (PNode a c k v l r)
  then have "set_parent H (addr nl b) y = Some H" using assms by (simp add: fun_upd_idem)
  then show ?thesis using assms that [of H N] PNode by simp
qed

lemma beside_reads:
  assumes "tree_in F N (t, H) (plug (PNode z c k v l r) cs)"
  shows "ld n_left H z = Some (addr (t_nil t) l)" "ld n_right H z = Some (addr (t_nil t) r)" "ld n_color H z = Some c"
    "ld n_parent H z = Some (up (t_nil t) cs)"
  using tree_in_node(1) [OF assms] by simp_all

lemma addr_nonleaf:
  assumes "tree_in F N (t, H) (plug (PNode z c k v l r) cs)"
  shows "l \<noteq> PLeaf \<Longrightarrow> addr (t_nil t) l \<noteq> t_nil t" "r \<noteq> PLeaf \<Longrightarrow> addr (t_nil t) r \<noteq> t_nil t"
  using assms by (cases l; cases r; auto simp: tree_in_plug Let_def)+

lemma unlink_near:
  assumes tree: "tree_in F N (t, H) (plug (PNode z c k v l (PNode y yc yk yv PLeaf b)) cs)" and N: "n_color N = VTREE_BLACK" and l: "l \<noteq> PLeaf"
    and min: "vtree_minimum t H y = Some y"
  obtains t' H' N' Z where "tmap_unlink (t, H) z = Some ((t', H'), addr (t_nil t) b, yc)" "t_nil t' = t_nil t" "t_size t' = t_size t"
    "tree_in (F(z := Some Z)) N' (t', H') (plug b (CR y c yk yv l # cs))" "gap N' (t_nil t) b (CR y c yk yv l # cs)"
proof -
  let ?nl = "t_nil t"
  let ?Y = "\<lparr>n_key = yk, n_value = yv, n_color = yc, n_left = ?nl, n_right = addr ?nl b, n_parent = z\<rparr>"
  have facts: "tree_at H ?nl y b" "H ?nl = Some N" "ctx_at H ?nl z cs" "tree_at H ?nl z l" "t_root t = root_addr z cs" "H y = Some ?Y"
      "distinct (0 # ?nl # z # y # addrs l @ addrs b @ ctx_addrs cs)"
      "\<forall>x. x \<notin> {?nl, z, y} \<union> set (addrs l) \<union> set (addrs b) \<union> set (ctx_addrs cs) \<longrightarrow> H x = F x"
    using tree by (auto simp: tree_in_plug Let_def)
  obtain B N1 where B: "set_parent H (addr ?nl b) y = Some B" "B ?nl = Some N1" "tree_at B ?nl y b" "\<And>x. x \<noteq> ?nl \<Longrightarrow> B x = H x"
      "n_color N1 = n_color N" "b = PLeaf \<longrightarrow> n_parent N1 = y"
    using reparent_step [OF facts(1,2)] facts(7) by auto
  have "ctx_at B ?nl z cs = ctx_at H ?nl z cs" "tree_at B ?nl z l = tree_at H ?nl z l"
    using facts(7) by (auto intro!: ctx_at_cong tree_at_cong B(4))
  then have same: "ctx_at B ?nl z cs" "tree_at B ?nl z l" using facts(3,4) by simp_all
  have same': "ld n_left B z = ld n_left H z" "ld n_color B z = ld n_color H z" "ld n_parent B z = ld n_parent H z"
    using B(4) [of z] facts(7) by (auto simp: ld_def)
  have yy: "B y = H y" using B(4) [of y] facts(7) by auto
  have "beside F N1 (t, B) z c l y ?Y b cs"
    unfolding beside_def Let_def prod.case using facts same(1,2) same' yy beside_reads [OF tree] B(2-4) by simp
  from tmap_take_place_step [OF this l] obtain t' H' where H': "tmap_take_place (t, B) z y = Some (t', H')" "t_nil t' = ?nl" "t_size t' = t_size t"
    "tree_in (F(z := B z)) N1 (t', H') (plug (PNode y c yk yv l b) cs)" by auto
  have "tmap_unlink (t, H) z = Some ((t', H'), addr ?nl b, yc)"
    using beside_reads [OF tree] addr_nonleaf [OF tree] l min facts(6) B(1) H'(1) by (simp add: tmap_unlink_def)
  moreover obtain Z where "B z = Some Z" using B(4) [of z] facts(7) tree_in_node(1) [OF tree] by auto
  ultimately show ?thesis using that H'(2-4) B(5,6) N by (simp add: gap_def)
qed

lemma unlink_far:
  assumes tree: "tree_in F N (t, H) (plug (PNode z c k v l (plug (PNode y yc yk yv PLeaf b) ds)) cs)" and N: "n_color N = VTREE_BLACK"
    and l: "l \<noteq> PLeaf" and ds: "ds \<noteq> []" and min: "vtree_minimum t H (addr (t_nil t) (plug (PNode y yc yk yv PLeaf b) ds)) = Some y"
  obtains t' H' N' Z where "tmap_unlink (t, H) z = Some ((t', H'), addr (t_nil t) b, yc)" "t_nil t' = t_nil t" "t_size t' = t_size t"
    "tree_in (F(z := Some Z)) N' (t', H') (plug b (ds @ CR y c yk yv l # cs))" "gap N' (t_nil t) b (ds @ CR y c yk yv l # cs)"
proof -
  let ?nl = "t_nil t"
  let ?cs = "ds @ CR z c k v l # cs"
  have Y: "tree_in F N (t, H) (plug (PNode y yc yk yv PLeaf b) ?cs)" using tree by (simp add: plug_append)
  have "distinct (ctx_addrs ?cs)" using Y by (simp add: tree_in_plug Let_def)
  then have up: "up ?nl ?cs = up ?nl ds" "up ?nl ds \<noteq> z"
    using ds by (simp add: up_append, cases ds) auto
  obtain t1 H1 N1 where H1: "vtree_transplant (t, H) y (addr ?nl b) = Some (t1, H1)" "t_nil t1 = ?nl" "t_size t1 = t_size t"
      "tree_in (F(y := H y)) N1 (t1, H1) (plug b ?cs)" "gap N1 ?nl b ?cs" "H1 y = H y"
    using splice_step [OF Y _ N, of b] by auto
  let ?R = "plug b ds"
  have T1: "tree_in (F(y := H y)) N1 (t1, H1) (plug (PNode z c k v l ?R) cs)" using H1(4) by (simp add: plug_append)
  have R: "?R \<noteq> PLeaf" using ds by (simp add: plug_PLeaf)
  obtain ra rc rk rv rl rr where RN: "?R = PNode ra rc rk rv rl rr" using R by (cases ?R) auto
  define Y0 where "Y0 = \<lparr>n_key = yk, n_value = yv, n_color = yc, n_left = ?nl, n_right = ra, n_parent = up ?nl ds\<rparr>"
  define R0 where "R0 = \<lparr>n_key = rk, n_value = rv, n_color = rc, n_left = addr ?nl rl, n_right = addr ?nl rr, n_parent = y\<rparr>"
  define H3 where "H3 = H1(y \<mapsto> Y0, ra \<mapsto> R0)"
  have facts: "H1 ?nl = Some N1" "ctx_at H1 ?nl z cs" "tree_at H1 ?nl z l" "tree_at H1 ?nl z ?R" "t_root t1 = root_addr z cs"
      "distinct (0 # ?nl # z # addrs l @ addrs ?R @ ctx_addrs cs)"
      "\<forall>x. x \<notin> {?nl, z, y} \<union> set (addrs l) \<union> set (addrs ?R) \<union> set (ctx_addrs cs) \<longrightarrow> H1 x = F x"
    using T1 H1(2) by (auto simp: tree_in_plug Let_def)
  have y: "y \<notin> {0, ?nl, z} \<union> set (addrs l) \<union> set (addrs ?R) \<union> set (ctx_addrs cs)"
    using Y by (auto simp: tree_in_plug Let_def set_addrs_plug ctx_addrs_def)
  have yn: "H1 y = Some \<lparr>n_key = yk, n_value = yv, n_color = yc, n_left = ?nl, n_right = addr ?nl b, n_parent = up ?nl ds\<rparr>"
    using tree_in_node(1) [OF Y] H1(6) up by simp
  have ra: "ra \<notin> {0, ?nl, z, y} \<union> set (addrs l) \<union> set (addrs rl) \<union> set (addrs rr) \<union> set (ctx_addrs cs)" using facts(6) y RN by auto
  have H3: "H3 ?nl = Some N1" "H3 y = Some Y0" "H3 z = H1 z" "ctx_at H3 ?nl z cs" "tree_at H3 ?nl z l" "tree_at H3 ?nl y ?R"
    using facts y ra RN by (auto simp: H3_def R0_def)
  have "beside F N1 (t1, H3) z c l y Y0 ?R cs"
    unfolding beside_def Let_def prod.case H1(2) using facts H3 y ra RN beside_reads [OF T1] H1(2)
    by (auto simp: Y0_def H3_def ld_def)
  from tmap_take_place_step [OF this l] obtain t' H' where H': "tmap_take_place (t1, H3) z y = Some (t', H')" "t_nil t' = ?nl" "t_size t' = t_size t"
    "tree_in (F(z := H3 z)) N1 (t', H') (plug (PNode y c yk yv l ?R) cs)" using H1(2,3) by (auto simp: Y0_def)
  have rn: "H1 ra = Some (R0\<lparr>n_parent := z\<rparr>)" using facts(4) RN by (simp add: R0_def)
  have "tmap_unlink (t, H) z = Some ((t', H'), addr ?nl b, yc)"
    using beside_reads [OF tree] addr_nonleaf [OF tree] l min tree_in_node(1) [OF Y] up H1(1) H'(1) beside_reads(2) [OF T1] H1(2) RN yn rn ra
    by (auto simp: tmap_unlink_def plug_PLeaf H3_def Y0_def R0_def)
  moreover obtain Z where "H3 z = Some Z" using H3(3) tree_in_node(1) [OF T1] by auto
  ultimately show ?thesis using that H'(2-4) H1(5) up_append [OF ds, of ?nl] by (simp add: gap_def plug_append)
qed

text \<open>What removal of a node leaves for \<^verbatim>\<open>vtree_delete_fixup\<close>.\<close>

definition unlinked :: "node_heap \<Rightarrow> u64 \<Rightarrow> tree_state \<Rightarrow> (u64 \<times> u64 \<times> u64) list \<Rightarrow> tree_state \<times> u64 \<times> VTreeColor \<Rightarrow> bool" where
  "unlinked F z tH xs res \<longleftrightarrow>
     (\<exists>t' H' N' Z s cs yc. res = ((t', H'), addr (t_nil t') s, yc) \<and> t_nil t' = t_nil (fst tH) \<and> t_size t' = t_size (fst tH)
        \<and> tree_in (F(z := Some Z)) N' (t', H') (plug s cs) \<and> gap N' (t_nil t') s cs \<and> repairable yc s cs
        \<and> inorder (plug s cs) = xs \<and> z \<notin> set (addrs (plug s cs)) \<and> z \<noteq> t_nil t')"

lemma unlink_one_child:
  assumes tree: "tree_in F N (t, H) (plug (PNode z c k v l r) cs)" and N: "n_color N = VTREE_BLACK"
    and rb: "rb n (PNode z c k v l r)" "ctx_rb n cs" and s: "l = PLeaf \<and> r = s \<or> r = PLeaf \<and> l = s"
  shows "\<exists>res. tmap_unlink (t, H) z = Some res \<and> unlinked F z (t, H) (before cs @ inorder s @ after cs) res"
proof -
  obtain t' H' N' where tr: "vtree_transplant (t, H) z (addr (t_nil t) s) = Some (t', H')" "t_nil t' = t_nil t" "t_size t' = t_size t"
    "tree_in (F(z := H z)) N' (t', H') (plug s cs)" "gap N' (t_nil t) s cs"
    using splice_step [OF tree s N] by metis
  have "tmap_unlink (t, H) z = Some ((t', H'), addr (t_nil t) s, c)"
    using beside_reads [OF tree] addr_nonleaf [OF tree] s tr(1) by (auto simp: tmap_unlink_def)
  moreover have "z \<notin> set (addrs (plug s cs))" "z \<noteq> t_nil t" using tree s by (auto simp: tree_in_plug Let_def set_addrs_plug)
  moreover obtain Z where "H z = Some Z" using tree_in_node(1) [OF tree] by simp
  ultimately show ?thesis
    unfolding unlinked_def using tr splice_repairable [OF rb s] by (fastforce simp: inorder_plug)
qed

lemma unlink_ok:
  assumes tree: "tree_in F N (t, H) (plug (PNode z c k v l r) cs)" and N: "n_color N = VTREE_BLACK" and rbt: "rbt (plug (PNode z c k v l r) cs)"
  shows "\<exists>res. tmap_unlink (t, H) z = Some res \<and> unlinked F z (t, H) (before cs @ inorder l @ inorder r @ after cs) res"
proof -
  obtain n where rb: "rb n (PNode z c k v l r)" "ctx_rb n cs" using rbt unfolding rbt_plug by blast
  show ?thesis
  proof (cases "l = PLeaf \<or> r = PLeaf")
    case True
    then show ?thesis
      using unlink_one_child [OF tree N rb, of r] unlink_one_child [OF tree N rb, of l] by auto
  next
    case False
    then have ne: "l \<noteq> PLeaf" "r \<noteq> PLeaf" by simp_all
    have "tree_at H (t_nil t) z r" "t_nil t \<notin> set (addrs r)" using tree by (auto simp: tree_in_plug Let_def)
    from minimum_ok [OF this(1) ne(2) this(2)] obtain y yc yk yv b ds where
      r: "r = plug (PNode y yc yk yv PLeaf b) ds" "before ds = []" "vtree_minimum t H (addr (t_nil t) r) = Some y" by blast
    let ?cs = "ds @ CR y c yk yv l # cs"
    obtain t' H' N' Z where u: "tmap_unlink (t, H) z = Some ((t', H'), addr (t_nil t) b, yc)" "t_nil t' = t_nil t" "t_size t' = t_size t"
      "tree_in (F(z := Some Z)) N' (t', H') (plug b ?cs)" "gap N' (t_nil t) b ?cs"
    proof (cases "ds = []")
      case True
      have r': "r = PNode y yc yk yv PLeaf b" "vtree_minimum t H y = Some y" using r(1,3) True by simp_all
      show ?thesis using unlink_near [OF tree [unfolded r'(1)] N ne(1) r'(2)] that True by (metis append_Nil)
    next
      case False
      then show ?thesis using unlink_far [OF tree [unfolded r(1)] N ne(1) False r(3) [unfolded r(1)]] that by metis
    qed
    have "rbt (plug (PNode y yc yk yv PLeaf b) (ds @ CR z c k v l # cs))" using rbt r(1) by (simp add: plug_append)
    then obtain m where "rb m (PNode y yc yk yv PLeaf b)" "ctx_rb m (ds @ CR z c k v l # cs)" unfolding rbt_plug by blast
    then have rep: "repairable yc b ?cs" using splice_repairable ctx_rb_rename by blast
    have "z \<notin> set (addrs (plug b ?cs))" "z \<noteq> t_nil t"
      using tree r(1) by (auto simp: tree_in_plug Let_def set_addrs_plug distinct_plug)
    moreover have "inorder (plug b ?cs) = before cs @ inorder l @ inorder r @ after cs"
      using r(1,2) by (simp add: inorder_plug before_append after_append)
    ultimately show ?thesis unfolding unlinked_def using u rep by fastforce
  qed
qed

text \<open>\<^verbatim>\<open>free(z)\<close> and, when a black node is gone, the repair.\<close>

lemma free_at_step:
  assumes "tree_in (F(z := Some Z)) N (t, H) s" "z \<notin> set (addrs s)" "z \<noteq> t_nil t"
  shows "free_at H z = Some (H(z := None)) \<and> tree_in (F(z := None)) N (t, H(z := None)) s"
  using assms by (auto simp: free_at_def tree_in_def Let_def)

lemma unlink_repair:
  assumes un: "unlinked F z (t, H) xs res"
  shows "\<exists>t' H' N' s. do { ((t, H), x, y_orig) \<leftarrow> Some res; H \<leftarrow> free_at H z;
      if y_orig = VTREE_BLACK then vtree_delete_fixup (t, H) x else Some (t, H) } = Some (t', H')
    \<and> t_nil t' = t_nil t \<and> t_size t' = t_size t \<and> tree_in (F(z := None)) N' (t', H') s \<and> n_color N' = VTREE_BLACK
    \<and> rbt s \<and> inorder s = xs"
proof -
  obtain t1 H1 N' Z s cs yc where res: "res = ((t1, H1), addr (t_nil t1) s, yc)" "t_nil t1 = t_nil t" "t_size t1 = t_size t"
      and tree: "tree_in (F(z := Some Z)) N' (t1, H1) (plug s cs)" and gap: "gap N' (t_nil t1) s cs" and rep: "repairable yc s cs"
      and xs: "inorder (plug s cs) = xs" and z: "z \<notin> set (addrs (plug s cs))" "z \<noteq> t_nil t1"
    using un unfolding unlinked_def by auto
  have fr: "free_at H1 z = Some (H1(z := None))" "tree_in (F(z := None)) N' (t1, H1(z := None)) (plug s cs)"
    using free_at_step [OF tree z] by simp_all
  show ?thesis
  proof (cases yc)
    case VTREE_RED
    then show ?thesis using res fr rep xs gap by (auto simp: repairable_def gap_def)
  next
    case VTREE_BLACK
    then obtain n where "almost n s" "ctx_rb (Suc n) cs" using rep by (auto simp: repairable_def)
    from delete_fixup_ok [OF fr(2) gap this] show ?thesis
      using res fr(1) VTREE_BLACK xs gap by (fastforce simp: gap_def)
  qed
qed

end
