(* ===== verification/Vcol_TreeMap.thy ===== *)
theory Vcol_TreeMap
  imports Vcol_TreeUnlink
begin

text \<open>
  \<^verbatim>\<open>VestaTreeMap\<close> and \<^verbatim>\<open>VestaTreeSet\<close> as ordered maps: what a handle denotes, and that every exported
  operation refines the operation on the denoted map, keeps the red-black tree and touches nothing
  outside of it.
\<close>

section \<open>Searching\<close>

abbreviation keys_of :: "(u64 \<times> u64 \<times> u64) list \<Rightarrow> u64 list" where
  "keys_of xs \<equiv> map (\<lambda>(a, k, v). k) xs"

lemma tree_find_ok:
  assumes "tree_at H (t_nil t) p tr" "sorted_wrt (<) (keys_of (inorder tr))" "t_nil t \<notin> set (addrs tr)"
  shows "vtree_find_loop t H key (addr (t_nil t) tr) = Some 0 \<and> key \<notin> set (keys_of (inorder tr))
    \<or> (\<exists>a c v l r cs. vtree_find_loop t H key (addr (t_nil t) tr) = Some a \<and> tr = plug (PNode a c key v l r) cs)"
  using assms
proof (induction tr arbitrary: p)
  case PLeaf
  then show ?case by (subst vtree_find_loop.simps) simp
next
  case (PNode a c k v l r)
  have step: "vtree_find_loop t H key a = (if key = k then Some a
      else vtree_find_loop t H key (addr (t_nil t) (if key < k then l else r)))"
    using PNode.prems by (subst vtree_find_loop.simps) auto
  consider "key = k" | "key < k" | "k < key" by fastforce
  then show ?case
  proof cases
    case 1
    then show ?thesis using step by (metis addr.simps(2) plug.simps(1))
  next
    case 2
    then have no: "key \<notin> set (keys_of (inorder r))" using PNode.prems(2) by (fastforce simp: sorted_wrt_append)
    have sub: "tree_at H (t_nil t) a l" "sorted_wrt (<) (keys_of (inorder l))" "t_nil t \<notin> set (addrs l)"
      using PNode.prems by (auto simp: sorted_wrt_append)
    show ?thesis
      using PNode.IH(1) [OF sub] step 2 no
    proof (elim disjE exE conjE)
      fix b bc bv bl br cs
      assume f: "vtree_find_loop t H key (addr (t_nil t) l) = Some b" "l = plug (PNode b bc key bv bl br) cs"
      then have "PNode a c k v l r = plug (PNode b bc key bv bl br) (cs @ [CL a c k v r])" by (simp add: plug_append)
      moreover have "vtree_find_loop t H key (addr (t_nil t) (PNode a c k v l r)) = Some b" using f(1) step 2 by auto
      ultimately show ?thesis by blast
    qed auto
  next
    case 3
    then have no: "key \<notin> set (keys_of (inorder l))" using PNode.prems(2) by (fastforce simp: sorted_wrt_append)
    have sub: "tree_at H (t_nil t) a r" "sorted_wrt (<) (keys_of (inorder r))" "t_nil t \<notin> set (addrs r)"
      using PNode.prems by (auto simp: sorted_wrt_append)
    show ?thesis
      using PNode.IH(2) [OF sub] step 3 no
    proof (elim disjE exE conjE)
      fix b bc bv bl br cs
      assume f: "vtree_find_loop t H key (addr (t_nil t) r) = Some b" "r = plug (PNode b bc key bv bl br) cs"
      then have "PNode a c k v l r = plug (PNode b bc key bv bl br) (cs @ [CR a c k v l])" by (simp add: plug_append)
      moreover have "vtree_find_loop t H key (addr (t_nil t) (PNode a c k v l r)) = Some b" using f(1) step 3 by auto
      ultimately show ?thesis by blast
    qed auto
  qed
qed

lemma put_loop_ok:
  assumes "tree_at H (t_nil t) p tr" "ld n_key H z = Some key" "t_nil t \<notin> set (addrs tr)"
    "sorted_wrt (<) (keys_of (inorder tr))"
  shows "\<exists>cs. tr = plug PLeaf cs \<and> tmap_put_loop t H z y (addr (t_nil t) tr) = Some (up y cs)
    \<and> (\<forall>k \<in> set (keys_of (before cs)). k \<le> key) \<and> (\<forall>k \<in> set (keys_of (after cs)). key < k)"
  using assms
proof (induction tr arbitrary: p y)
  case PLeaf
  then show ?case by (subst tmap_put_loop.simps) (auto intro!: exI [of _ "[]"])
next
  case (PNode a c k v l r)
  have step: "tmap_put_loop t H z y a = tmap_put_loop t H z a (addr (t_nil t) (if key < k then l else r))"
    using PNode.prems by (subst tmap_put_loop.simps) auto
  show ?case
  proof (cases "key < k")
    case True
    have sub: "tree_at H (t_nil t) a l" "t_nil t \<notin> set (addrs l)" "sorted_wrt (<) (keys_of (inorder l))"
      using PNode.prems by (auto simp: sorted_wrt_append)
    obtain cs where cs: "l = plug PLeaf cs" "tmap_put_loop t H z a (addr (t_nil t) l) = Some (up a cs)"
        "\<forall>k \<in> set (keys_of (before cs)). k \<le> key" "\<forall>k \<in> set (keys_of (after cs)). key < k"
      using PNode.IH(1) [OF sub(1) PNode.prems(2) sub(2,3), of a] by blast
    have "\<forall>k' \<in> set (keys_of (inorder r)). key < k'" using PNode.prems(4) True by (fastforce simp: sorted_wrt_append)
    then show ?thesis using cs step True
      by (intro exI [of _ "cs @ [CL a c k v r]"]) (auto simp: plug_append before_append after_append up_def hd_append)
  next
    case False
    have sub: "tree_at H (t_nil t) a r" "t_nil t \<notin> set (addrs r)" "sorted_wrt (<) (keys_of (inorder r))"
      using PNode.prems by (auto simp: sorted_wrt_append)
    obtain cs where cs: "r = plug PLeaf cs" "tmap_put_loop t H z a (addr (t_nil t) r) = Some (up a cs)"
        "\<forall>k \<in> set (keys_of (before cs)). k \<le> key" "\<forall>k \<in> set (keys_of (after cs)). key < k"
      using PNode.IH(2) [OF sub(1) PNode.prems(2) sub(2,3), of a] by blast
    have "\<forall>k' \<in> set (keys_of (inorder l)). k' \<le> key" using PNode.prems(4) False by (fastforce simp: sorted_wrt_append)
    then show ?thesis using cs step False
      by (intro exI [of _ "cs @ [CR a c k v l]"]) (auto simp: plug_append before_append after_append up_def hd_append)
  qed
qed

lemma link_step:
  assumes tree: "tree_in F N (t, H) (plug PLeaf cs)" and z: "z \<notin> set (addrs (plug PLeaf cs))" "z \<noteq> t_nil t" "z \<noteq> 0"
    and zn: "H z = Some \<lparr>n_key = key, n_value = value, n_color = c, n_left = t_nil t, n_right = t_nil t, n_parent = q\<rparr>"
    and side: "\<forall>k \<in> set (keys_of (before cs)). k \<le> key" "\<forall>k \<in> set (keys_of (after cs)). key < k"
  shows "\<exists>t' H'. tmap_link (t, H) z (up (t_nil t) cs) = Some (t', H') \<and> t_nil t' = t_nil t \<and> t_size t' = t_size t
    \<and> tree_in F N (t', H') (plug (PNode z c key value PLeaf PLeaf) cs)"
proof (cases cs rule: ctx_cases)
  case 1
  then show ?thesis using tree z zn by (auto simp: tmap_link_def tree_in_def Let_def)
next
  case (2 a ac ak av r cs')
  then have "key < ak" using side by simp
  then show ?thesis using tree z zn 2 by (auto simp: tmap_link_def tree_in_plug Let_def set_addrs_plug)
next
  case (3 a ac ak av l cs')
  then have "\<not> key < ak" using side by auto
  then show ?thesis using tree z zn 3 by (auto simp: tmap_link_def tree_in_plug Let_def set_addrs_plug)
qed

section \<open>What a handle denotes\<close>

text \<open>The handle \<open>h\<close> is live, its tree has the nodes \<open>xs\<close> (address, key, value) in order, and occupies the addresses \<open>A\<close>.\<close>

definition tmap_rep :: "store \<Rightarrow> u64 \<Rightarrow> u64 set \<Rightarrow> (u64 \<times> u64 \<times> u64) list \<Rightarrow> bool" where
  "tmap_rep s h A xs \<longleftrightarrow> h \<noteq> 0 \<and> (\<exists>t N tr. deref as_tmap s h = Some t \<and> tree_in (nodes s) N (t, nodes s) tr
     \<and> n_color N = VTREE_BLACK \<and> rbt tr \<and> inorder tr = xs \<and> sorted_wrt (<) (keys_of xs) \<and> t_size t = of_nat (length xs)
     \<and> A = insert (t_nil t) (set (map fst xs)))"

definition entries_of :: "(u64 \<times> u64 \<times> u64) list \<Rightarrow> u64 \<rightharpoonup> u64" where
  "entries_of xs = map_of (map snd xs)"

definition tmap_has :: "store \<Rightarrow> u64 \<Rightarrow> u64 set \<Rightarrow> (u64 \<rightharpoonup> u64) \<Rightarrow> bool" where
  "tmap_has s h A mp \<longleftrightarrow> (\<exists>xs. tmap_rep s h A xs \<and> mp = entries_of xs)"

text \<open>Nothing but the struct at \<open>h\<close>, the nodes in \<open>A\<close> and fresh ones has changed.\<close>

definition tmap_frame :: "u64 set \<Rightarrow> u64 \<Rightarrow> store \<Rightarrow> store \<Rightarrow> bool" where
  "tmap_frame A h s s' \<longleftrightarrow>
     (\<forall>k. k \<noteq> h \<longrightarrow> objs s' k = objs s k) \<and> (\<forall>a. a \<notin> A \<longrightarrow> nodes s a \<noteq> None \<longrightarrow> nodes s' a = nodes s a)
     \<and> grant s' = grant s \<and> g_api s' = g_api s \<and> extrefs s' = extrefs s"

lemma tmap_frame_refl [simp]: "tmap_frame A h s s"
  by (simp add: tmap_frame_def)

lemma tmap_repD:
  assumes "tmap_rep s h A xs"
  obtains t N tr where "h \<noteq> 0" "deref as_tmap s h = Some t" "tree_in (nodes s) N (t, nodes s) tr" "n_color N = VTREE_BLACK" "rbt tr"
    "inorder tr = xs" "sorted_wrt (<) (keys_of xs)" "t_size t = of_nat (length xs)" "A = insert (t_nil t) (set (addrs tr))"
  using assms unfolding tmap_rep_def by (auto simp: addrs_inorder)

lemma tmap_repI:
  assumes "h \<noteq> 0" "tree_in F N (t, H) tr" "n_color N = VTREE_BLACK" "rbt tr" "inorder tr = xs" "sorted_wrt (<) (keys_of xs)"
    "n = of_nat (length xs)" "A = insert (t_nil t) (set (map fst xs))"
  shows "tmap_rep (put OTreeMap (s\<lparr>nodes := H\<rparr>) h (t\<lparr>t_size := n\<rparr>)) h A xs"
proof -
  have "tree_in H N (t\<lparr>t_size := n\<rparr>, H) tr" using assms(2) by (simp add: tree_in_def Let_def)
  then show ?thesis using assms unfolding tmap_rep_def by (auto simp: deref_def)
qed

lemma tmap_rep_nodes: "tmap_rep s h A xs \<Longrightarrow> a \<in> A \<Longrightarrow> nodes s a \<noteq> None"
proof (erule tmap_repD)
  fix t N tr
  assume "tree_in (nodes s) N (t, nodes s) tr" "A = insert (t_nil t) (set (addrs tr))" "a \<in> A"
  moreover have "b \<in> set (addrs tr) \<Longrightarrow> tree_at H nl p tr \<Longrightarrow> H b \<noteq> None" for b H nl p by (induction tr arbitrary: p) auto
  ultimately show ?thesis by (auto simp: tree_in_def Let_def)
qed

text \<open>A tree at other addresses is still there.\<close>

lemma tmap_rep_other:
  assumes rep: "tmap_rep s k B ys" and fr: "tmap_frame A h s s'" and "k \<noteq> h" "A \<inter> B = {}"
  shows "tmap_rep s' k B ys"
proof -
  obtain t N tr where r: "k \<noteq> 0" "deref as_tmap s k = Some t" "tree_in (nodes s) N (t, nodes s) tr" "n_color N = VTREE_BLACK" "rbt tr"
    "inorder tr = ys" "sorted_wrt (<) (keys_of ys)" "t_size t = of_nat (length ys)" "B = insert (t_nil t) (set (addrs tr))"
    using tmap_repD [OF rep] by blast
  have eq: "nodes s' a = nodes s a" if "a \<in> B" for a
    using that fr assms(4) tmap_rep_nodes [OF rep that] by (auto simp: tmap_frame_def)
  have "tree_in (nodes s') N (t, nodes s') tr"
    using r(3) eq r(9) tree_at_cong [of tr "nodes s'" "nodes s"] by (auto simp: tree_in_def Let_def)
  moreover have "deref as_tmap s' k = Some t" using r(2) fr assms(3) by (simp add: tmap_frame_def deref_def)
  ultimately show ?thesis using r unfolding tmap_rep_def by (auto simp: addrs_inorder)
qed

section \<open>Ordered association lists\<close>

lemma sorted_keys_distinct: "sorted_wrt (<) (ks :: u64 list) \<Longrightarrow> distinct ks"
  by (induction ks) auto

lemma dom_entries: "dom (entries_of xs) = set (keys_of xs)"
  by (auto simp: entries_of_def dom_map_of_conv_image_fst image_image case_prod_beta)

lemma entries_mid:
  assumes "k \<notin> set (keys_of bs)"
  shows "entries_of (bs @ (a, k, v) # cs) = (entries_of (bs @ cs))(k \<mapsto> v)"
proof -
  have "map_of (map snd bs) k = None" using assms by (force simp: map_of_eq_None_iff)
  then show ?thesis by (auto simp: entries_of_def map_add_def fun_eq_iff split: option.splits)
qed

lemma entries_mid_less: "\<forall>k' \<in> set (keys_of bs). k' < k \<Longrightarrow> entries_of (bs @ (a, k, v) # cs) = (entries_of (bs @ cs))(k \<mapsto> v)"
  by (rule entries_mid) blast

lemma tree_entries_remove:
  assumes "sorted_wrt (<) (keys_of (bs @ (a, k, v) # cs))"
  shows "entries_of (bs @ cs) = (entries_of (bs @ (a, k, v) # cs))(k := None)"
proof -
  have k: "k \<notin> set (keys_of bs)" "k \<notin> set (keys_of cs)" using assms by (force simp: sorted_wrt_append)+
  then have "entries_of (bs @ cs) k = None" using dom_entries [of "bs @ cs"] by (auto simp: domIff)
  then show ?thesis using entries_mid [OF k(1)] by (simp add: fun_upd_idem)
qed

lemma sorted_mid:
  "sorted_wrt (<) (keys_of (bs @ (a, k, v) # cs)) \<longleftrightarrow> sorted_wrt (<) (keys_of (bs @ cs))
     \<and> (\<forall>k' \<in> set (keys_of bs). k' < k) \<and> (\<forall>k' \<in> set (keys_of cs). k < k')"
  by (auto simp: sorted_wrt_append)

lemma sorted_upd: "sorted_wrt (<) (keys_of (bs @ (a, k, v) # cs)) \<longleftrightarrow> sorted_wrt (<) (keys_of (bs @ (a, k, v') # cs))"
  by (simp add: sorted_wrt_append)

lemma entries_keys:
  assumes "sorted_wrt (<) (keys_of xs)"
  shows "keys_of xs = sorted_list_of_set (dom (entries_of xs))"
proof -
  have "sorted_list_of_set (set (keys_of xs)) = keys_of xs"
    using assms sorted_keys_distinct strict_sorted_imp_sorted [OF assms] by (simp only: sorted_list_of_set.idem_if_sorted_distinct)
  then show ?thesis by (simp only: dom_entries)
qed

lemma entries_card: "sorted_wrt (<) (keys_of xs) \<Longrightarrow> card (dom (entries_of xs)) = length xs"
  using distinct_card [OF sorted_keys_distinct] by (metis dom_entries length_map)

section \<open>Lookups\<close>

lemma tmap_find:
  assumes "tree_in F N (t, H) tr" "sorted_wrt (<) (keys_of (inorder tr))"
  shows "vtree_find t H key = Some 0 \<and> key \<notin> set (keys_of (inorder tr))
    \<or> (\<exists>a c v l r cs. vtree_find t H key = Some a \<and> a \<noteq> 0 \<and> ld n_value H a = Some v \<and> tr = plug (PNode a c key v l r) cs)"
proof -
  have "tree_at H (t_nil t) (t_nil t) tr" "t_nil t \<notin> set (addrs tr)" "t_root t = addr (t_nil t) tr"
    using assms(1) by (simp_all add: tree_in_def Let_def)
  from tree_find_ok [OF this(1) assms(2) this(2), of key] show ?thesis
  proof (elim disjE exE conjE)
    fix a c v l r cs
    assume f: "vtree_find_loop t H key (addr (t_nil t) tr) = Some a" "tr = plug (PNode a c key v l r) cs"
    then show ?thesis
      using tree_in_node [OF assms(1) [unfolded f(2)]] \<open>t_root t = _\<close> unfolding vtree_find_def by fastforce
  qed (simp add: vtree_find_def \<open>t_root t = _\<close>)
qed

lemma tmap_lookups:
  assumes "tmap_has s h A mp"
  shows "vcol_tmap_get s h key = Some (case mp key of None \<Rightarrow> 0 | Some v \<Rightarrow> v)"
    and "vcol_tmap_contains s h key = Some (if key \<in> dom mp then 1 else 0)"
    and "vcol_tmap_size s h = Some (of_nat (card (dom mp)))"
proof -
  obtain xs where rep: "tmap_rep s h A xs" and mp: "mp = entries_of xs" using assms by (auto simp: tmap_has_def)
  obtain t N tr where r: "h \<noteq> 0" "deref as_tmap s h = Some t" "tree_in (nodes s) N (t, nodes s) tr" "inorder tr = xs"
    "sorted_wrt (<) (keys_of xs)" "t_size t = of_nat (length xs)"
    using tmap_repD [OF rep] by metis
  have mid: "mp key = Some v" if "tr = plug (PNode a c key v l r') cs" for a c v l r' cs
  proof -
    have xs: "xs = (before cs @ inorder l) @ (a, key, v) # inorder r' @ after cs" using that r(4) by (simp add: inorder_plug)
    then have "\<forall>k' \<in> set (keys_of (before cs @ inorder l)). k' < key" using r(5) unfolding xs sorted_mid by blast
    from entries_mid_less [OF this] show ?thesis unfolding mp xs by simp
  qed
  have none: "mp key = None" if "key \<notin> set (keys_of xs)" using that dom_entries [of xs] by (auto simp: mp domIff)
  show "vcol_tmap_get s h key = Some (case mp key of None \<Rightarrow> 0 | Some v \<Rightarrow> v)"
      "vcol_tmap_contains s h key = Some (if key \<in> dom mp then 1 else 0)"
    using tmap_find [OF r(3), of key] r mid none by (auto simp: vcol_tmap_get_def vcol_tmap_contains_def)
  show "vcol_tmap_size s h = Some (of_nat (card (dom mp)))"
    using r entries_card [OF r(5)] by (simp add: vcol_tmap_size_def mp)
qed

section \<open>Puts\<close>

lemma rbt_value: "rbt (plug (PNode a c k v l r) cs) \<Longrightarrow> rbt (plug (PNode a c k v' l r) cs)"
  unfolding rbt_plug by (cases c) (auto simp: rb_Black)

definition tmap_refused :: "store \<Rightarrow> u64 \<Rightarrow> (u64 \<rightharpoonup> u64) \<Rightarrow> bool" where
  "tmap_refused s key mp \<longleftrightarrow> key \<notin> dom mp \<and> fst (malloc s 48) = 0"

lemma put_update:
  assumes rep: "tmap_rep s h A xs" and k: "key \<in> set (keys_of xs)"
  shows "\<exists>s' ys. vcol_tmap_put s h key v = Some s' \<and> tmap_rep s' h A ys \<and> entries_of ys = (entries_of xs)(key \<mapsto> v) \<and> tmap_frame A h s s'"
proof -
  obtain t N tr where r: "h \<noteq> 0" "deref as_tmap s h = Some t" "tree_in (nodes s) N (t, nodes s) tr" "n_color N = VTREE_BLACK" "rbt tr"
    "inorder tr = xs" "sorted_wrt (<) (keys_of xs)" "t_size t = of_nat (length xs)" "A = insert (t_nil t) (set (addrs tr))"
    using tmap_repD [OF rep] by blast
  obtain a c v0 l r' cs where f: "vtree_find t (nodes s) key = Some a" "a \<noteq> 0" "tr = plug (PNode a c key v0 l r') cs"
    using tmap_find [OF r(3), of key] r(6,7) k by auto
  obtain H' where H': "upd (n_value_update (\<lambda>_. v)) (nodes s) a = Some H'" "tree_in (nodes s) N (t, H') (plug (PNode a c key v l r') cs)"
    using tree_in_value [OF r(3) [unfolded f(3)]] by blast
  define ys where "ys = (before cs @ inorder l) @ (a, key, v) # inorder r' @ after cs"
  have xs: "xs = (before cs @ inorder l) @ (a, key, v0) # inorder r' @ after cs" using f(3) r(6) by (simp add: inorder_plug)
  have sorted: "sorted_wrt (<) (keys_of ys)" using r(7) sorted_upd unfolding xs ys_def by blast
  have "tmap_rep (s\<lparr>nodes := H'\<rparr>) h A ys"
    unfolding tmap_rep_def
  proof (intro conjI exI)
    show "deref as_tmap (s\<lparr>nodes := H'\<rparr>) h = Some t" using r(2) by (simp add: deref_def)
    show "tree_in (nodes (s\<lparr>nodes := H'\<rparr>)) N (t, nodes (s\<lparr>nodes := H'\<rparr>)) (plug (PNode a c key v l r') cs)"
      using H'(2) by (simp add: tree_in_def Let_def)
    show "rbt (plug (PNode a c key v l r') cs)" using r(5) f(3) rbt_value by blast
    show "inorder (plug (PNode a c key v l r') cs) = ys" by (simp add: inorder_plug ys_def)
    show "A = insert (t_nil t) (set (map fst ys))" using r(6,9) by (simp add: addrs_inorder xs ys_def)
  qed (use r sorted in \<open>simp_all add: xs ys_def\<close>)
  moreover have "\<forall>k' \<in> set (keys_of (before cs @ inorder l)). k' < key" using r(7) unfolding xs sorted_mid by blast
  from entries_mid_less [OF this] have "entries_of ys = (entries_of xs)(key \<mapsto> v)" unfolding xs ys_def by simp
  moreover have "a \<in> A" using f(3) r(9) by (simp add: set_addrs_plug)
  then have "tmap_frame A h s (s\<lparr>nodes := H'\<rparr>)" using H'(1) by (auto simp: tmap_frame_def upd_def)
  ultimately show ?thesis using r(1,2) f(1,2) H'(1) by (auto simp: vcol_tmap_put_def)
qed

lemma put_insert:
  assumes rep: "tmap_rep s h A xs" and k: "key \<notin> set (keys_of xs)" and m: "fst (malloc s 48) \<noteq> 0"
  shows "\<exists>s' A' ys. vcol_tmap_put s h key v = Some s' \<and> tmap_rep s' h A' ys \<and> entries_of ys = (entries_of xs)(key \<mapsto> v) \<and> tmap_frame A h s s'"
proof -
  obtain t N tr where r: "h \<noteq> 0" "deref as_tmap s h = Some t" "tree_in (nodes s) N (t, nodes s) tr" "n_color N = VTREE_BLACK" "rbt tr"
    "inorder tr = xs" "sorted_wrt (<) (keys_of xs)" "t_size t = of_nat (length xs)" "A = insert (t_nil t) (set (addrs tr))"
    using tmap_repD [OF rep] by blast
  have f: "vtree_find t (nodes s) key = Some 0"
    using tmap_find [OF r(3), of key] r(6,7) k by (auto simp: inorder_plug)
  define z where "z = fst (malloc s 48)"
  define Z where "Z = \<lparr>n_key = key, n_value = v, n_color = VTREE_RED, n_left = t_nil t, n_right = t_nil t, n_parent = t_nil t\<rparr>"
  define s1 where "s1 = after_malloc s\<lparr>nodes := (nodes s)(z \<mapsto> Z)\<rparr>"
  have fresh: "nodes s z = None" using m by (auto simp: z_def malloc_def Let_def split: if_splits)
  have zA: "z \<notin> A" using tmap_rep_nodes [OF rep, of z] fresh by auto
  have mk: "vtree_make_node s t key v = (z, s1)"
    unfolding vtree_make_node_def by (subst malloc_eq) (use m in \<open>simp add: z_def Z_def s1_def\<close>)
  have tr1: "tree_in (nodes s1) N (t, nodes s1) tr"
    using r(3,9) zA tree_at_upd [of z tr "nodes s"] by (auto simp: tree_in_def Let_def s1_def)
  have zk: "ld n_key (nodes s1) z = Some key" by (simp add: s1_def Z_def)
  obtain cs where cs: "tr = plug PLeaf cs" "tmap_put_loop t (nodes s1) z (t_nil t) (t_root t) = Some (up (t_nil t) cs)"
      "\<forall>k \<in> set (keys_of (before cs)). k \<le> key" "\<forall>k \<in> set (keys_of (after cs)). key < k"
  proof -
    have "tree_at (nodes s1) (t_nil t) (t_nil t) tr" "t_nil t \<notin> set (addrs tr)" "t_root t = addr (t_nil t) tr"
      using tr1 by (simp_all add: tree_in_def Let_def)
    then show ?thesis using put_loop_ok [OF _ zk, of t "t_nil t" tr "t_nil t"] r(6,7) that by metis
  qed
  have zn: "nodes s1 z = Some \<lparr>n_key = key, n_value = v, n_color = VTREE_RED, n_left = t_nil t, n_right = t_nil t, n_parent = t_nil t\<rparr>"
    by (simp add: s1_def Z_def)
  obtain t1 H1 where l1: "tmap_link (t, nodes s1) z (up (t_nil t) cs) = Some (t1, H1)" "t_nil t1 = t_nil t" "t_size t1 = t_size t"
      "tree_in (nodes s1) N (t1, H1) (plug (PNode z VTREE_RED key v PLeaf PLeaf) cs)"
    using link_step [OF tr1 [unfolded cs(1)] _ _ _ zn cs(3,4)] zA m r(9) cs(1) by (auto simp: z_def)
  have "ctx_rb 0 cs" using r(5) unfolding cs(1) rbt_plug by auto
  from insert_fixup_ok [OF l1(4) this r(4)] obtain t2 H2 tr2 where fx: "vtree_insert_fixup (t1, H1) z = Some (t2, H2)"
      "t_nil t2 = t_nil t" "t_size t2 = t_size t" "tree_in (nodes s1) N (t2, H2) tr2" "rbt tr2" "inorder tr2 = before cs @ (z, key, v) # after cs"
    using l1(2,3) by auto
  define ys where "ys = before cs @ (z, key, v) # after cs"
  have xs: "xs = before cs @ after cs" using cs(1) r(6) by (simp add: inorder_plug)
  have lt: "\<forall>k' \<in> set (keys_of (before cs)). k' < key" using cs(3) k xs by (metis Un_iff le_less map_append set_append)
  have sorted: "sorted_wrt (<) (keys_of ys)" unfolding ys_def sorted_mid using r(7) xs lt cs(4) by simp
  let ?s = "put OTreeMap (s1\<lparr>nodes := H2\<rparr>) h (t2\<lparr>t_size := t_size t2 + 1\<rparr>)"
  have "tmap_rep ?s h (insert z A) ys"
    using r(1,4) fx sorted by (intro tmap_repI) (auto simp: ys_def r(8,9) cs(1) addrs_inorder xs inorder_plug)
  moreover have "entries_of ys = (entries_of xs)(key \<mapsto> v)" unfolding xs ys_def by (rule entries_mid_less [OF lt])
  moreover have "tmap_frame A h s ?s"
  proof -
    have "H2 a = nodes s a" if "a \<notin> insert z A" for a
      using fx(4,2) that by (auto simp: tree_in_def Let_def addrs_inorder fx(6) s1_def r(9) cs(1) inorder_plug)
    then have "\<forall>a. a \<notin> A \<longrightarrow> nodes s a \<noteq> None \<longrightarrow> H2 a = nodes s a" using fresh by (metis insertE)
    then show ?thesis by (simp add: tmap_frame_def s1_def)
  qed
  ultimately show ?thesis using r(1,2) f mk cs(2) l1(1) fx(1) m z_def by (fastforce simp: vcol_tmap_put_def)
qed

lemma tmap_put_ok:
  assumes "tmap_has s h A mp" and "\<not> tmap_refused s key mp"
  shows "\<exists>s' A'. vcol_tmap_put s h key v = Some s' \<and> tmap_has s' h A' (mp(key \<mapsto> v)) \<and> tmap_frame A h s s'"
proof -
  obtain xs where rep: "tmap_rep s h A xs" and mp: "mp = entries_of xs" using assms(1) by (auto simp: tmap_has_def)
  show ?thesis
  proof (cases "key \<in> set (keys_of xs)")
    case True
    then show ?thesis using put_update [OF rep True, of v] mp unfolding tmap_has_def by metis
  next
    case False
    then have "fst (malloc s 48) \<noteq> 0" using assms(2) unfolding tmap_refused_def mp dom_entries by blast
    then show ?thesis using put_insert [OF rep False, of v] mp unfolding tmap_has_def by metis
  qed
qed

lemma tmap_put_refused:
  assumes "tmap_has s h A mp" and "tmap_refused s key mp"
  shows "vcol_tmap_put s h key v = Some (after_malloc s) \<and> tmap_has (after_malloc s) h A mp \<and> tmap_frame A h s (after_malloc s)"
proof -
  obtain xs where rep: "tmap_rep s h A xs" and mp: "mp = entries_of xs" using assms(1) by (auto simp: tmap_has_def)
  obtain t N tr where r: "h \<noteq> 0" "deref as_tmap s h = Some t" "tree_in (nodes s) N (t, nodes s) tr" "inorder tr = xs"
    "sorted_wrt (<) (keys_of xs)" using tmap_repD [OF rep] by metis
  have k: "key \<notin> set (keys_of xs)" "fst (malloc s 48) = 0" using assms(2) unfolding tmap_refused_def mp dom_entries by blast+
  then have "vtree_find t (nodes s) key = Some 0" using tmap_find [OF r(3), of key] r(4,5) by (auto simp: inorder_plug)
  moreover have "vtree_make_node s t key v = (0, after_malloc s)" unfolding vtree_make_node_def by (subst malloc_eq) (simp add: k(2))
  moreover have "tmap_rep (after_malloc s) h A xs" using rep by (simp add: tmap_rep_def)
  ultimately show ?thesis using r(1,2) mp by (auto simp: vcol_tmap_put_def tmap_has_def tmap_frame_def)
qed

section \<open>Removals\<close>

lemma remove_found:
  assumes rep: "tmap_rep s h A xs" and k: "key \<in> set (keys_of xs)"
  shows "\<exists>v s' A' ys. entries_of xs key = Some v \<and> vcol_tmap_remove s h key = Some (v, s') \<and> tmap_rep s' h A' ys
    \<and> entries_of ys = (entries_of xs)(key := None) \<and> tmap_frame A h s s'"
proof -
  obtain t N tr where r: "h \<noteq> 0" "deref as_tmap s h = Some t" "tree_in (nodes s) N (t, nodes s) tr" "n_color N = VTREE_BLACK" "rbt tr"
    "inorder tr = xs" "sorted_wrt (<) (keys_of xs)" "t_size t = of_nat (length xs)" "A = insert (t_nil t) (set (addrs tr))"
    using tmap_repD [OF rep] by blast
  obtain z c v l r' cs where f: "vtree_find t (nodes s) key = Some z" "z \<noteq> 0" "ld n_value (nodes s) z = Some v" "tr = plug (PNode z c key v l r') cs"
    using tmap_find [OF r(3), of key] r(6,7) k by auto
  define ys where "ys = (before cs @ inorder l) @ inorder r' @ after cs"
  have xs: "xs = (before cs @ inorder l) @ (z, key, v) # inorder r' @ after cs" using f(4) r(6) by (simp add: inorder_plug)
  obtain res where u: "tmap_unlink (t, nodes s) z = Some res" "unlinked (nodes s) z (t, nodes s) ys res"
    using unlink_ok [OF r(3) [unfolded f(4)] r(4) r(5) [unfolded f(4)]] by (auto simp: ys_def)
  obtain t' H' N' tr' where fx: "do { ((t, H), x, y_orig) \<leftarrow> Some res; H \<leftarrow> free_at H z;
      if y_orig = VTREE_BLACK then vtree_delete_fixup (t, H) x else Some (t, H) } = Some (t', H')"
    "t_nil t' = t_nil t" "t_size t' = t_size t" "tree_in ((nodes s)(z := None)) N' (t', H') tr'" "n_color N' = VTREE_BLACK"
    "rbt tr'" "inorder tr' = ys"
    using unlink_repair [OF u(2)] by auto
  let ?s = "put OTreeMap (s\<lparr>nodes := H'\<rparr>) h (t'\<lparr>t_size := t_size t' - 1\<rparr>)"
  have run: "vcol_tmap_remove s h key = Some (v, ?s)"
    using r(1,2) f(1-3) u(1) fx(1) by (auto simp: vcol_tmap_remove_def bind_eq_Some_conv split: prod.splits if_splits)
  have sorted: "sorted_wrt (<) (keys_of ys)" using r(7) unfolding xs ys_def sorted_mid by blast
  have "tmap_rep ?s h (A - {z}) ys"
  proof (rule tmap_repI [OF r(1) fx(4,5,6,7) sorted])
    show "t_size t' - 1 = of_nat (length ys)" using r(8) fx(3) by (simp add: xs ys_def)
    have "distinct (t_nil t # map fst xs)" using r(3,6) by (auto simp: tree_in_def Let_def addrs_inorder)
    then show "A - {z} = insert (t_nil t') (set (map fst ys))" unfolding r(9) fx(2) addrs_inorder r(6) by (auto simp: xs ys_def)
  qed
  moreover have "entries_of ys = (entries_of xs)(key := None)" unfolding ys_def xs by (rule tree_entries_remove [OF r(7) [unfolded xs]])
  moreover have "\<forall>k' \<in> set (keys_of (before cs @ inorder l)). k' < key" using r(7) unfolding xs sorted_mid by blast
  from entries_mid_less [OF this] have "entries_of xs key = Some v" unfolding xs by simp
  moreover have "tmap_frame A h s ?s"
  proof -
    have zA: "z \<in> A" and sub: "set (map fst ys) \<subseteq> A" unfolding r(9) addrs_inorder r(6) by (auto simp: xs ys_def)
    have "H' a = nodes s a" if "a \<notin> A" for a
    proof -
      have "a \<noteq> z" "a \<noteq> t_nil t'" "a \<notin> set (addrs tr')" using that zA sub r(9) fx(2) by (auto simp: addrs_inorder fx(7))
      then show ?thesis using fx(4) by (auto simp: tree_in_def Let_def)
    qed
    then show ?thesis by (simp add: tmap_frame_def)
  qed
  ultimately show ?thesis using run by blast
qed

lemma tmap_remove_ok:
  assumes "tmap_has s h A mp"
  shows "\<exists>s' A'. vcol_tmap_remove s h key = Some (case mp key of None \<Rightarrow> VCOL_NOT_FOUND | Some v \<Rightarrow> v, s')
    \<and> tmap_has s' h A' (mp(key := None)) \<and> tmap_frame A h s s'"
proof -
  obtain xs where rep: "tmap_rep s h A xs" and mp: "mp = entries_of xs" using assms(1) by (auto simp: tmap_has_def)
  show ?thesis
  proof (cases "key \<in> set (keys_of xs)")
    case True
    then show ?thesis using remove_found [OF rep True] mp unfolding tmap_has_def by (metis option.simps(5))
  next
    case False
    obtain t N tr where r: "h \<noteq> 0" "deref as_tmap s h = Some t" "tree_in (nodes s) N (t, nodes s) tr" "inorder tr = xs"
      "sorted_wrt (<) (keys_of xs)" using tmap_repD [OF rep] by metis
    have "vtree_find t (nodes s) key = Some 0" using tmap_find [OF r(3), of key] r(4,5) False by (auto simp: inorder_plug)
    moreover have "mp key = None" using False dom_entries [of xs] by (auto simp: mp domIff)
    ultimately show ?thesis using r(1,2) assms by (auto simp: vcol_tmap_remove_def fun_upd_idem)
  qed
qed

section \<open>Creation, clearing and release\<close>

lemma free_node_ok:
  assumes "tree_at H nl p tr" "distinct (nl # addrs tr)"
  shows "\<exists>H'. vtree_free_node H (addr nl tr) nl = Some H' \<and> (\<forall>a. H' a = (if a \<in> set (addrs tr) then None else H a))"
  using assms
proof (induction tr arbitrary: H p)
  case PLeaf
  then show ?case by (subst vtree_free_node.simps) simp
next
  case (PNode a c k v l r)
  have "tree_at H nl a l" "distinct (nl # addrs l)" using PNode.prems by auto
  from PNode.IH(1) [OF this] obtain H1 where H1: "vtree_free_node H (addr nl l) nl = Some H1"
    "\<forall>b. H1 b = (if b \<in> set (addrs l) then None else H b)" by blast
  have "tree_at H1 nl a r = tree_at H nl a r" using PNode.prems H1(2) by (intro tree_at_cong) auto
  then have "tree_at H1 nl a r" "distinct (nl # addrs r)" using PNode.prems by auto
  from PNode.IH(2) [OF this] obtain H2 where H2: "vtree_free_node H1 (addr nl r) nl = Some H2"
    "\<forall>b. H2 b = (if b \<in> set (addrs r) then None else H1 b)" by blast
  have a: "H1 a = H a" "H2 a = H a" using PNode.prems H1(2) H2(2) by auto
  have "vtree_free_node H a nl = Some (H2(a := None))"
    using PNode.prems H1(1) H2(1) a by (subst vtree_free_node.simps) (auto simp: free_at_def)
  then show ?case using H1(2) H2(2) by auto
qed

lemma rbt_PLeaf: "rbt PLeaf"
  by (auto simp: rbt_def)

lemma entries_Nil [simp]: "entries_of [] = Map.empty"
  by (simp add: entries_of_def)

lemma tmap_clear_ok:
  assumes "tmap_has s h A mp"
  shows "\<exists>s' A'. vcol_tmap_clear s h = Some s' \<and> tmap_has s' h A' Map.empty \<and> tmap_frame A h s s' \<and> A' \<subseteq> A
    \<and> (\<forall>a \<in> A - A'. nodes s' a = None)"
proof -
  obtain xs where rep: "tmap_rep s h A xs" using assms(1) by (auto simp: tmap_has_def)
  obtain t N tr where r: "h \<noteq> 0" "deref as_tmap s h = Some t" "tree_in (nodes s) N (t, nodes s) tr" "n_color N = VTREE_BLACK"
    "A = insert (t_nil t) (set (addrs tr))" using tmap_repD [OF rep] by metis
  have tr: "tree_at (nodes s) (t_nil t) (t_nil t) tr" "distinct (t_nil t # addrs tr)" "t_root t = addr (t_nil t) tr"
    "t_nil t \<noteq> 0" "nodes s (t_nil t) = Some N" using r(3) by (auto simp: tree_in_def Let_def)
  obtain H' where H': "vtree_free_node (nodes s) (t_root t) (t_nil t) = Some H'"
      "\<forall>a. H' a = (if a \<in> set (addrs tr) then None else nodes s a)" using free_node_ok [OF tr(1,2)] tr(3) by auto
  let ?s = "put OTreeMap (s\<lparr>nodes := H'\<rparr>) h (t\<lparr>t_root := t_nil t, t_size := 0\<rparr>)"
  have "tree_in H' N (t\<lparr>t_root := t_nil t\<rparr>, H') PLeaf" using tr H'(2) by (auto simp: tree_in_def)
  from tmap_repI [OF r(1) this r(4) rbt_PLeaf _ _ _ refl, of "[]" 0 s] have "tmap_rep ?s h {t_nil t} []" by simp
  then have "tmap_has ?s h {t_nil t} Map.empty" by (auto simp: tmap_has_def)
  moreover have "vcol_tmap_clear s h = Some ?s" using r(1,2) H'(1) by (simp add: vcol_tmap_clear_def)
  moreover have "tmap_frame A h s ?s" using H'(2) r(5) by (auto simp: tmap_frame_def)
  ultimately show ?thesis using r(5) H'(2) by fastforce
qed

lemma tmap_free_ok:
  assumes "tmap_has s h A mp"
  shows "\<exists>s'. vcol_tmap_free s h = Some s' \<and> objs s' h = None \<and> (\<forall>a \<in> A. nodes s' a = None) \<and> tmap_frame A h s s'
    \<and> vcol_tmap_free s' h = None"
proof -
  obtain xs where rep: "tmap_rep s h A xs" using assms(1) by (auto simp: tmap_has_def)
  obtain t N tr where r: "h \<noteq> 0" "deref as_tmap s h = Some t" "tree_in (nodes s) N (t, nodes s) tr" "n_color N = VTREE_BLACK"
    "A = insert (t_nil t) (set (addrs tr))" using tmap_repD [OF rep] by metis
  have tr: "tree_at (nodes s) (t_nil t) (t_nil t) tr" "distinct (t_nil t # addrs tr)" "t_root t = addr (t_nil t) tr"
    "nodes s (t_nil t) = Some N" using r(3) by (auto simp: tree_in_def Let_def)
  obtain H' where H': "vtree_free_node (nodes s) (t_root t) (t_nil t) = Some H'"
      "\<forall>a. H' a = (if a \<in> set (addrs tr) then None else nodes s a)" using free_node_ok [OF tr(1,2)] tr(3) by auto
  have o: "objs s h \<noteq> None" using tmap_kind.deref_SomeD [OF r(2)] by simp
  have nl: "H' (t_nil t) = Some N" using H'(2) tr(2,4) by auto
  define s' where "s' = s\<lparr>nodes := H'(t_nil t := None), objs := (objs s)(h := None)\<rparr>"
  have "vcol_tmap_free s h = Some s'"
    using r(1,2) H'(1) nl o by (simp add: vcol_tmap_free_def free_at_def free_obj_def s'_def)
  moreover have "vcol_tmap_free s' h = None" using r(1) by (simp add: vcol_tmap_free_def s'_def deref_def)
  moreover have "objs s' h = None \<and> (\<forall>a \<in> A. nodes s' a = None) \<and> tmap_frame A h s s'"
    using H'(2) r(5) by (auto simp: s'_def tmap_frame_def)
  ultimately show ?thesis by blast
qed

lemma tmap_new_cases:
  shows "\<exists>h s'. vcol_tmap_new s = Some (h, s') \<and> (h = VCOL_NULL \<and> objs s' = objs s \<and> nodes s' = nodes s
    \<or> h \<noteq> 0 \<and> objs s h = None \<and> (\<exists>A. tmap_has s' h A Map.empty) \<and> tmap_frame {} h s s')"
proof -
  define h where "h = fst (malloc s 24)"
  define s1 where "s1 = put OTreeMap (after_malloc s) h \<lparr>t_root = 0, t_nil = 0, t_size = 0\<rparr>"
  define nl where "nl = fst (malloc s1 48)"
  show ?thesis
  proof (cases "h = 0")
    case True
    then have "vcol_tmap_new s = Some (VCOL_NULL, after_malloc s)"
      unfolding vcol_tmap_new_def by (subst malloc_eq) (simp add: h_def)
    then show ?thesis by auto
  next
    case False
    have fresh: "objs s h = None" using malloc_fresh False h_def by simp
    show ?thesis
    proof (cases "nl = 0")
      case True
      have "vcol_tmap_new s = Some (VCOL_NULL, after_malloc s1\<lparr>objs := (objs s1)(h := None)\<rparr>)"
        unfolding vcol_tmap_new_def using False True malloc_eq [of s 24] malloc_eq [of s1 48]
        by (simp add: h_def [symmetric] s1_def [symmetric] nl_def [symmetric] free_obj_def) (simp add: s1_def)
      then show ?thesis using fresh by (auto simp: s1_def fun_upd_idem)
    next
      case nl: False
      let ?N = "\<lparr>n_key = 0, n_value = 0, n_color = VTREE_BLACK, n_left = nl, n_right = nl, n_parent = nl\<rparr>"
      let ?s = "put OTreeMap (after_malloc s1\<lparr>nodes := (nodes s)(nl \<mapsto> ?N)\<rparr>) h \<lparr>t_root = nl, t_nil = nl, t_size = 0\<rparr>"
      have new: "vcol_tmap_new s = Some (h, ?s)"
        unfolding vcol_tmap_new_def using False nl malloc_eq [of s 24] malloc_eq [of s1 48]
        by (simp add: h_def [symmetric] s1_def [symmetric] nl_def [symmetric]) (simp add: s1_def)
      have nlf: "nodes s nl = None" using nl by (auto simp: nl_def malloc_def Let_def s1_def split: if_splits)
      have tin: "tree_in F ?N (\<lparr>t_root = nl, t_nil = nl, t_size = 0\<rparr>, (nodes s)(nl \<mapsto> ?N)) PLeaf" if "F = (nodes s)(nl \<mapsto> ?N)" for F
        using nl that by (simp add: tree_in_def Let_def)
      from tmap_repI [OF False tin [OF refl] _ rbt_PLeaf _ _ _ refl, of "[]" 0 "after_malloc s1"]
      have "tmap_rep ?s h {nl} []" by simp
      then have "tmap_has ?s h {nl} Map.empty" by (auto simp: tmap_has_def)
      moreover have "tmap_frame {} h s ?s" using nlf by (auto simp: tmap_frame_def s1_def)
      ultimately show ?thesis using new False fresh by blast
    qed
  qed
qed

section \<open>Queries by order\<close>

lemma sorted_ends:
  assumes "sorted_wrt (<) (ks :: u64 list)" "ks \<noteq> []"
  shows "hd ks = Min (set ks)" "last ks = Max (set ks)"
proof -
  show "hd ks = Min (set ks)" using assms by (cases ks) (auto intro!: Min_eqI [symmetric] simp: less_imp_le)
  obtain js x where "ks = js @ [x]" using assms(2) by (cases ks rule: rev_cases) auto
  then show "last ks = Max (set ks)" using assms(1) by (auto intro!: Max_eqI [symmetric] simp: sorted_wrt_append less_imp_le)
qed

lemma last_ok:
  assumes "tree_at H (t_nil t) p r" "r \<noteq> PLeaf" "t_nil t \<notin> set (addrs r)"
  shows "\<exists>y v. tmap_last_loop t H (addr (t_nil t) r) = Some y \<and> ld n_key H y = Some v \<and> v = last (keys_of (inorder r))"
  using assms
proof (induction r arbitrary: p)
  case (PNode a c k v l r)
  show ?case
  proof (cases "r = PLeaf")
    case True
    then show ?thesis using PNode.prems by (subst tmap_last_loop.simps) auto
  next
    case False
    moreover have "addr (t_nil t) r \<noteq> t_nil t" using False PNode.prems(3) by (cases r) auto
    moreover have "inorder r \<noteq> []" using False by (cases r) auto
    ultimately show ?thesis using PNode.IH(2) [of a] PNode.prems by (subst tmap_last_loop.simps) auto
  qed
qed simp

lemma floor_ok:
  assumes "tree_at H (t_nil t) p tr" "sorted_wrt (<) (keys_of (inorder tr))" "0 \<notin> set (addrs tr)" "t_nil t \<notin> set (addrs tr)"
  shows "tmap_floor_loop t H key best (addr (t_nil t) tr) =
    (if filter (\<lambda>k. k \<le> key) (keys_of (inorder tr)) = [] then if best \<noteq> 0 then ld n_key H best else Some VCOL_NOT_FOUND
     else Some (last (filter (\<lambda>k. k \<le> key) (keys_of (inorder tr)))))"
  using assms
proof (induction tr arbitrary: p best)
  case PLeaf
  then show ?case by (subst tmap_floor_loop.simps) simp
next
  case (PNode a c k v l r)
  have step: "tmap_floor_loop t H key best a = (if k = key then Some k
      else if k < key then tmap_floor_loop t H key a (addr (t_nil t) r) else tmap_floor_loop t H key best (addr (t_nil t) l))"
    using PNode.prems by (subst tmap_floor_loop.simps) auto
  have sl: "sorted_wrt (<) (keys_of (inorder l))" "sorted_wrt (<) (keys_of (inorder r))"
    and lt: "\<forall>x \<in> set (keys_of (inorder l)). x < k" "\<forall>x \<in> set (keys_of (inorder r)). k < x"
    using PNode.prems(2) by (auto simp: sorted_wrt_append)
  consider "k = key" | "k < key" | "key < k" by fastforce
  then show ?case
  proof cases
    case 1
    then have "filter (\<lambda>k. k \<le> key) (keys_of (inorder r)) = []" using lt(2) by (fastforce simp: filter_empty_conv)
    then show ?thesis using step 1 by simp
  next
    case 2
    then show ?thesis using step PNode.IH(2) [of a a] PNode.prems sl by auto
  next
    case 3
    then have "filter (\<lambda>k. k \<le> key) (keys_of (inorder r)) = []" using lt(2) by (fastforce simp: filter_empty_conv)
    then show ?thesis using 3 step PNode.IH(1) [of a best] PNode.prems sl by auto
  qed
qed

lemma ceiling_ok:
  assumes "tree_at H (t_nil t) p tr" "sorted_wrt (<) (keys_of (inorder tr))" "0 \<notin> set (addrs tr)" "t_nil t \<notin> set (addrs tr)"
  shows "tmap_ceiling_loop t H key best (addr (t_nil t) tr) =
    (if filter (\<lambda>k. key \<le> k) (keys_of (inorder tr)) = [] then if best \<noteq> 0 then ld n_key H best else Some VCOL_NOT_FOUND
     else Some (hd (filter (\<lambda>k. key \<le> k) (keys_of (inorder tr)))))"
  using assms
proof (induction tr arbitrary: p best)
  case PLeaf
  then show ?case by (subst tmap_ceiling_loop.simps) simp
next
  case (PNode a c k v l r)
  have step: "tmap_ceiling_loop t H key best a = (if k = key then Some k
      else if k > key then tmap_ceiling_loop t H key a (addr (t_nil t) l) else tmap_ceiling_loop t H key best (addr (t_nil t) r))"
    using PNode.prems by (subst tmap_ceiling_loop.simps) auto
  have sl: "sorted_wrt (<) (keys_of (inorder l))" "sorted_wrt (<) (keys_of (inorder r))"
    and lt: "\<forall>x \<in> set (keys_of (inorder l)). x < k" "\<forall>x \<in> set (keys_of (inorder r)). k < x"
    using PNode.prems(2) by (auto simp: sorted_wrt_append)
  consider "k = key" | "k > key" | "key > k" by fastforce
  then show ?case
  proof cases
    case 1
    then have "filter (\<lambda>k. key \<le> k) (keys_of (inorder l)) = []" using lt(1) by (fastforce simp: filter_empty_conv)
    then show ?thesis using step 1 by simp
  next
    case 2
    then show ?thesis using step PNode.IH(1) [of a a] PNode.prems sl by auto
  next
    case 3
    then have "filter (\<lambda>k. key \<le> k) (keys_of (inorder l)) = []" using lt(1) by (fastforce simp: filter_empty_conv)
    then show ?thesis using 3 step PNode.IH(2) [of a best] PNode.prems sl by auto
  qed
qed

definition best_key :: "(u64 set \<Rightarrow> u64) \<Rightarrow> u64 set \<Rightarrow> u64" where
  "best_key pick K = (if K = {} then VCOL_NOT_FOUND else pick K)"

lemma tmap_order_queries:
  assumes "tmap_has s h A mp"
  shows "vcol_tmap_first_key s h = Some (best_key Min (dom mp))" and "vcol_tmap_last_key s h = Some (best_key Max (dom mp))"
    and "vcol_tmap_floor_key s h key = Some (best_key Max {k \<in> dom mp. k \<le> key})"
    and "vcol_tmap_ceiling_key s h key = Some (best_key Min {k \<in> dom mp. key \<le> k})"
proof -
  obtain xs where rep: "tmap_rep s h A xs" and mp: "mp = entries_of xs" using assms by (auto simp: tmap_has_def)
  obtain t N tr where r: "h \<noteq> 0" "deref as_tmap s h = Some t" "tree_in (nodes s) N (t, nodes s) tr" "inorder tr = xs"
    "sorted_wrt (<) (keys_of xs)" using tmap_repD [OF rep] by metis
  have tr: "tree_at (nodes s) (t_nil t) (t_nil t) tr" "t_nil t \<notin> set (addrs tr)" "0 \<notin> set (addrs tr)" "t_root t = addr (t_nil t) tr"
    using r(3) by (simp_all add: tree_in_def Let_def)
  have root: "t_root t = t_nil t \<longleftrightarrow> tr = PLeaf" using tr by (cases tr) auto
  have dom: "dom mp = set (keys_of xs)" unfolding mp by (rule dom_entries)
  have "vcol_tmap_first_key s h = Some (best_key Min (dom mp)) \<and> vcol_tmap_last_key s h = Some (best_key Max (dom mp))"
  proof (cases "tr = PLeaf")
    case True
    then have "xs = []" using r(4) by simp
    then show ?thesis using r(1,2) root True dom by (simp add: vcol_tmap_first_key_def vcol_tmap_last_key_def best_key_def)
  next
    case False
    obtain y yc yk yv b ds where y: "tr = plug (PNode y yc yk yv PLeaf b) ds" "before ds = []" "vtree_minimum t (nodes s) (t_root t) = Some y"
      using minimum_ok [OF tr(1) False tr(2)] tr(4) by metis
    have "ld n_key (nodes s) y = Some yk" using tree_in_node(1) [OF r(3) [unfolded y(1)]] by simp
    moreover have "hd (keys_of xs) = yk" "xs \<noteq> []" using y(1,2) r(4) by (auto simp: inorder_plug)
    moreover obtain z where "tmap_last_loop t (nodes s) (t_root t) = Some z" "ld n_key (nodes s) z = Some (last (keys_of xs))"
      using last_ok [OF tr(1) False tr(2)] tr(4) r(4) by auto
    ultimately show ?thesis
      using r(1,2) root False y(3) sorted_ends [OF r(5)] dom by (auto simp: vcol_tmap_first_key_def vcol_tmap_last_key_def best_key_def)
  qed
  then show "vcol_tmap_first_key s h = Some (best_key Min (dom mp))" "vcol_tmap_last_key s h = Some (best_key Max (dom mp))" by simp_all
  have pick: "best_key Max {k \<in> dom mp. P k} = (if filter P (keys_of xs) = [] then VCOL_NOT_FOUND else last (filter P (keys_of xs)))"
      "best_key Min {k \<in> dom mp. P k} = (if filter P (keys_of xs) = [] then VCOL_NOT_FOUND else hd (filter P (keys_of xs)))" for P
  proof -
    have "sorted_wrt (<) (filter P (keys_of xs))" using r(5) by (rule sorted_wrt_filter)
    moreover have "{k \<in> dom mp. P k} = set (filter P (keys_of xs))" unfolding dom by simp
    then have "best_key f {k \<in> dom mp. P k} = (if filter P (keys_of xs) = [] then VCOL_NOT_FOUND else f (set (filter P (keys_of xs))))" for f
      by (simp only: best_key_def set_empty)
    ultimately show "best_key Max {k \<in> dom mp. P k} = (if filter P (keys_of xs) = [] then VCOL_NOT_FOUND else last (filter P (keys_of xs)))"
      "best_key Min {k \<in> dom mp. P k} = (if filter P (keys_of xs) = [] then VCOL_NOT_FOUND else hd (filter P (keys_of xs)))"
      using sorted_ends [of "filter P (keys_of xs)"] by presburger+
  qed
  show "vcol_tmap_floor_key s h key = Some (best_key Max {k \<in> dom mp. k \<le> key})"
    using r(1,2) floor_ok [OF tr(1) _ tr(3,2), of key 0] tr(4) r(4,5) pick [of "\<lambda>k. k \<le> key"] by (simp add: vcol_tmap_floor_key_def)
  show "vcol_tmap_ceiling_key s h key = Some (best_key Min {k \<in> dom mp. key \<le> k})"
    using r(1,2) ceiling_ok [OF tr(1) _ tr(3,2), of key 0] tr(4) r(4,5) pick [of "\<lambda>k. key \<le> k"] by (simp add: vcol_tmap_ceiling_key_def)
qed

section \<open>Listings\<close>

lemma entries_values:
  assumes "sorted_wrt (<) (keys_of xs)"
  shows "map (\<lambda>(a, k, v). v) xs = map (\<lambda>k. the (entries_of xs k)) (sorted_list_of_set (dom (entries_of xs)))"
proof -
  have "map fst (map snd xs) = keys_of xs" by auto
  then have "distinct (map fst (map snd xs))" using sorted_keys_distinct [OF assms] by (simp only:)
  then have "entries_of xs k = Some v" if "(a, k, v) \<in> set xs" for a k v
    using that unfolding entries_of_def by (intro map_of_is_SomeI) force+
  then show ?thesis unfolding entries_keys [OF assms, symmetric] by auto
qed

lemma inorder_keys_ok:
  assumes "alist_cap_has s al c ys" "tree_at (nodes s) nl p tr" "nl \<notin> set (addrs tr)" "length ys + length (inorder tr) \<le> c"
  shows "\<exists>s'. vtree_inorder_keys s (addr nl tr) nl al = Some s' \<and> alist_cap_has s' al c (ys @ map (\<lambda>(a, k, v). k) (inorder tr))
    \<and> only_changes al s s'"
  using assms
proof (induction tr arbitrary: s p ys)
  case PLeaf
  then show ?case by (subst vtree_inorder_keys.simps) simp
next
  case (PNode a c' k v l r)
  obtain s1 where s1: "vtree_inorder_keys s (addr nl l) nl al = Some s1"
      "alist_cap_has s1 al c (ys @ map (\<lambda>(a, k, v). k) (inorder l))" "only_changes al s s1"
    using PNode.IH(1) [OF PNode.prems(1), of a] PNode.prems(2-4) by auto
  obtain s2 n where s2: "vcol_alist_push s1 al k = Some (n, s2)" "alist_cap_has s2 al c (ys @ map (\<lambda>(a, k, v). k) (inorder l) @ [k])"
      "only_changes al s1 s2"
    using alist_push_below [OF s1(2), of k] PNode.prems(4) by auto
  have n: "nodes s1 = nodes s" "nodes s2 = nodes s" using s1(3) s2(3) by (simp_all add: only_changes_def)
  obtain s3 where s3: "vtree_inorder_keys s2 (addr nl r) nl al = Some s3"
      "alist_cap_has s3 al c ((ys @ map (\<lambda>(a, k, v). k) (inorder l) @ [k]) @ map (\<lambda>(a, k, v). k) (inorder r))" "only_changes al s2 s3"
    using PNode.IH(2) [OF s2(2), of a] PNode.prems(2-4) n by auto
  have "vtree_inorder_keys s a nl al = Some s3"
    using PNode.prems(2,3) s1(1) s2(1) s3(1) n by (subst vtree_inorder_keys.simps) auto
  then show ?case using s3(2) only_changes_trans [OF only_changes_trans [OF s1(3) s2(3)] s3(3)] by auto
qed

lemma inorder_values_ok:
  assumes "alist_cap_has s al c ys" "tree_at (nodes s) nl p tr" "nl \<notin> set (addrs tr)" "length ys + length (inorder tr) \<le> c"
  shows "\<exists>s'. vtree_inorder_values s (addr nl tr) nl al = Some s' \<and> alist_cap_has s' al c (ys @ map (\<lambda>(a, k, v). v) (inorder tr))
    \<and> only_changes al s s'"
  using assms
proof (induction tr arbitrary: s p ys)
  case PLeaf
  then show ?case by (subst vtree_inorder_values.simps) simp
next
  case (PNode a c' k v l r)
  obtain s1 where s1: "vtree_inorder_values s (addr nl l) nl al = Some s1"
      "alist_cap_has s1 al c (ys @ map (\<lambda>(a, k, v). v) (inorder l))" "only_changes al s s1"
    using PNode.IH(1) [OF PNode.prems(1), of a] PNode.prems(2-4) by auto
  obtain s2 n where s2: "vcol_alist_push s1 al v = Some (n, s2)" "alist_cap_has s2 al c (ys @ map (\<lambda>(a, k, v). v) (inorder l) @ [v])"
      "only_changes al s1 s2"
    using alist_push_below [OF s1(2), of v] PNode.prems(4) by auto
  have n: "nodes s1 = nodes s" "nodes s2 = nodes s" using s1(3) s2(3) by (simp_all add: only_changes_def)
  obtain s3 where s3: "vtree_inorder_values s2 (addr nl r) nl al = Some s3"
      "alist_cap_has s3 al c ((ys @ map (\<lambda>(a, k, v). v) (inorder l) @ [v]) @ map (\<lambda>(a, k, v). v) (inorder r))" "only_changes al s2 s3"
    using PNode.IH(2) [OF s2(2), of a] PNode.prems(2-4) n by auto
  have "vtree_inorder_values s a nl al = Some s3"
    using PNode.prems(2,3) s1(1) s2(1) s3(1) n by (subst vtree_inorder_values.simps) auto
  then show ?case using s3(2) only_changes_trans [OF only_changes_trans [OF s1(3) s2(3)] s3(3)] by auto
qed

lemma tmap_keys_ok:
  assumes has: "tmap_has s h A mp" and small: "card (dom mp) < 2 ^ 61"
  shows "\<exists>al s'. vcol_tmap_keys s h = Some (al, s') \<and> only_changes al s s' \<and> (al = VCOL_NULL \<and> objs s' = objs s
    \<or> al \<noteq> 0 \<and> objs s al = None \<and> alist_has s' al (sorted_list_of_set (dom mp)) \<and> tmap_has s' h A mp)"
proof -
  obtain xs where rep: "tmap_rep s h A xs" and mp: "mp = entries_of xs" using has by (auto simp: tmap_has_def)
  obtain t N tr where r: "h \<noteq> 0" "deref as_tmap s h = Some t" "tree_in (nodes s) N (t, nodes s) tr" "inorder tr = xs"
    "sorted_wrt (<) (keys_of xs)" "t_size t = of_nat (length xs)" using tmap_repD [OF rep] by metis
  have len: "length xs < 2 ^ 61" using small entries_card [OF r(5)] mp by simp
  then have sz: "unat (t_size t) = length xs" using r(6) by (simp add: unat_of_nat64)
  let ?n = "if t_size t > 0 then t_size t else VALIST_MIN_CAP"
  obtain al s1 where new: "vcol_alist_new s ?n = (al, s1)" by fastforce
  have n: "unat ?n < 2 ^ 61" "length xs \<le> max 8 (unat ?n)" using len sz by (auto simp: VALIST_MIN_CAP_def word_less_nat_alt)
  note cs = alist_new_cases [OF n(1) new]
  show ?thesis
  proof (cases "al = 0")
    case True
    then show ?thesis using cs r(1,2) new by (auto simp: vcol_tmap_keys_def VCOL_NULL_def)
  next
    case False
    have fresh: "objs s al = None" and ne: "al \<noteq> h" using cs(1) False tmap_kind.deref_SomeD [OF r(2)] by (auto simp: VCOL_NULL_def)
    have nd: "nodes s1 = nodes s" using cs(2) by (simp add: only_changes_def)
    have tr: "tree_at (nodes s1) (t_nil t) (t_nil t) tr" "t_nil t \<notin> set (addrs tr)" "t_root t = addr (t_nil t) tr"
      using r(3) nd by (auto simp: tree_in_def Let_def)
    obtain s2 where s2: "vtree_inorder_keys s1 (t_root t) (t_nil t) al = Some s2"
        "alist_cap_has s2 al (max 8 (unat ?n)) (map (\<lambda>(a, k, v). k) xs)" "only_changes al s1 s2"
      using inorder_keys_ok [OF alist_new_cap [OF n(1) new False] tr(1,2)] n(2) r(4) tr(3) by auto
    have all: "only_changes al s s2" using cs(2) s2(3) by (rule only_changes_trans)
    then have "tmap_rep s2 h A xs" using rep ne by (simp add: tmap_rep_def only_changes_def deref_def)
    then have "tmap_has s2 h A mp" using mp by (auto simp: tmap_has_def)
    moreover have "alist_has s2 al (sorted_list_of_set (dom mp))" using alist_cap_hasD [OF s2(2)] entries_keys [OF r(5)] mp by simp
    ultimately show ?thesis using r(1,2) new False s2(1) fresh all by (auto simp: vcol_tmap_keys_def)
  qed
qed

lemma tmap_values_ok:
  assumes has: "tmap_has s h A mp" and small: "card (dom mp) < 2 ^ 61"
  shows "\<exists>al s'. vcol_tmap_values s h = Some (al, s') \<and> only_changes al s s' \<and> (al = VCOL_NULL \<and> objs s' = objs s
    \<or> al \<noteq> 0 \<and> objs s al = None \<and> alist_has s' al (map (\<lambda>k. the (mp k)) (sorted_list_of_set (dom mp))) \<and> tmap_has s' h A mp)"
proof -
  obtain xs where rep: "tmap_rep s h A xs" and mp: "mp = entries_of xs" using has by (auto simp: tmap_has_def)
  obtain t N tr where r: "h \<noteq> 0" "deref as_tmap s h = Some t" "tree_in (nodes s) N (t, nodes s) tr" "inorder tr = xs"
    "sorted_wrt (<) (keys_of xs)" "t_size t = of_nat (length xs)" using tmap_repD [OF rep] by metis
  have len: "length xs < 2 ^ 61" using small entries_card [OF r(5)] mp by simp
  then have sz: "unat (t_size t) = length xs" using r(6) by (simp add: unat_of_nat64)
  let ?n = "if t_size t > 0 then t_size t else VALIST_MIN_CAP"
  obtain al s1 where new: "vcol_alist_new s ?n = (al, s1)" by fastforce
  have n: "unat ?n < 2 ^ 61" "length xs \<le> max 8 (unat ?n)" using len sz by (auto simp: VALIST_MIN_CAP_def word_less_nat_alt)
  note cs = alist_new_cases [OF n(1) new]
  show ?thesis
  proof (cases "al = 0")
    case True
    then show ?thesis using cs r(1,2) new by (auto simp: vcol_tmap_values_def VCOL_NULL_def)
  next
    case False
    have fresh: "objs s al = None" and ne: "al \<noteq> h" using cs(1) False tmap_kind.deref_SomeD [OF r(2)] by (auto simp: VCOL_NULL_def)
    have nd: "nodes s1 = nodes s" using cs(2) by (simp add: only_changes_def)
    have tr: "tree_at (nodes s1) (t_nil t) (t_nil t) tr" "t_nil t \<notin> set (addrs tr)" "t_root t = addr (t_nil t) tr"
      using r(3) nd by (auto simp: tree_in_def Let_def)
    obtain s2 where s2: "vtree_inorder_values s1 (t_root t) (t_nil t) al = Some s2"
        "alist_cap_has s2 al (max 8 (unat ?n)) (map (\<lambda>(a, k, v). v) xs)" "only_changes al s1 s2"
      using inorder_values_ok [OF alist_new_cap [OF n(1) new False] tr(1,2)] n(2) r(4) tr(3) by auto
    have all: "only_changes al s s2" using cs(2) s2(3) by (rule only_changes_trans)
    then have "tmap_rep s2 h A xs" using rep ne by (simp add: tmap_rep_def only_changes_def deref_def)
    then have "tmap_has s2 h A mp" using mp by (auto simp: tmap_has_def)
    moreover have "alist_has s2 al (map (\<lambda>k. the (mp k)) (sorted_list_of_set (dom mp)))" using alist_cap_hasD [OF s2(2)] entries_values [OF r(5)] mp by simp
    ultimately show ?thesis using r(1,2) new False s2(1) fresh all by (auto simp: vcol_tmap_values_def)
  qed
qed

end
