(* ===== verification/Vcol_TreeApi.thy ===== *)
theory Vcol_TreeApi
  imports Vcol_TreeMap
begin

text \<open>
  The tree map as a component: calls on one handle against the operations on finite maps, the bound on
  the length of searches, and \<^verbatim>\<open>VestaTreeSet\<close> over the interface that it shares with the hash set.
\<close>

section \<open>A heap holds one tree per root\<close>

lemma tree_at_unique:
  assumes "tree_at H nl p t1" "tree_at H nl p' t2" "addr nl t1 = addr nl t2" "nl \<notin> set (addrs t1)" "nl \<notin> set (addrs t2)"
  shows "t1 = t2"
  using assms
proof (induction t1 arbitrary: t2 p p')
  case PLeaf
  then show ?case by (cases t2) auto
next
  case (PNode a c k v l r)
  then obtain l2 r2 where "t2 = PNode a c k v l2 r2" "addr nl l = addr nl l2" "addr nl r = addr nl r2" by (cases t2) auto
  then show ?case using PNode.IH(1) [of a a l2] PNode.IH(2) [of a a r2] PNode.prems by auto
qed

lemma tmap_has_unique:
  assumes "tmap_has s h A mp" "tmap_has s h A' mp'"
  shows "A' = A \<and> mp' = mp"
proof -
  obtain xs xs' where x: "tmap_rep s h A xs" "mp = entries_of xs" "tmap_rep s h A' xs'" "mp' = entries_of xs'"
    using assms by (auto simp: tmap_has_def)
  obtain t N tr where r: "deref as_tmap s h = Some t" "tree_in (nodes s) N (t, nodes s) tr" "inorder tr = xs" "A = insert (t_nil t) (set (addrs tr))"
    using tmap_repD [OF x(1)] by metis
  obtain t' N' tr' where r': "deref as_tmap s h = Some t'" "tree_in (nodes s) N' (t', nodes s) tr'" "inorder tr' = xs'"
      "A' = insert (t_nil t') (set (addrs tr'))"
    using tmap_repD [OF x(3)] by metis
  have "tr' = tr" using r(1,2) r'(1,2) by (auto simp: tree_in_def Let_def intro!: tree_at_unique)
  then show ?thesis using x r r' by simp
qed

section \<open>Calls on a handle\<close>

datatype tmap_cmd = TMPut u64 u64 | TMRemove u64 | TMGet u64 | TMContains u64 | TMSize | TMClear
  | TMFirst | TMLast | TMFloor u64 | TMCeiling u64

fun tmap_exec :: "store \<Rightarrow> u64 \<Rightarrow> tmap_cmd \<Rightarrow> (u64 \<times> store) option" where
  "tmap_exec s h (TMPut k v) = map_option (\<lambda>s. (0, s)) (vcol_tmap_put s h k v)"
| "tmap_exec s h (TMRemove k) = vcol_tmap_remove s h k"
| "tmap_exec s h (TMGet k) = map_option (\<lambda>r. (r, s)) (vcol_tmap_get s h k)"
| "tmap_exec s h (TMContains k) = map_option (\<lambda>r. (r, s)) (vcol_tmap_contains s h k)"
| "tmap_exec s h TMSize = map_option (\<lambda>r. (r, s)) (vcol_tmap_size s h)"
| "tmap_exec s h TMClear = map_option (\<lambda>s. (0, s)) (vcol_tmap_clear s h)"
| "tmap_exec s h TMFirst = map_option (\<lambda>r. (r, s)) (vcol_tmap_first_key s h)"
| "tmap_exec s h TMLast = map_option (\<lambda>r. (r, s)) (vcol_tmap_last_key s h)"
| "tmap_exec s h (TMFloor k) = map_option (\<lambda>r. (r, s)) (vcol_tmap_floor_key s h k)"
| "tmap_exec s h (TMCeiling k) = map_option (\<lambda>r. (r, s)) (vcol_tmap_ceiling_key s h k)"

fun tmap_spec :: "(u64 \<rightharpoonup> u64) \<Rightarrow> tmap_cmd \<Rightarrow> u64 \<times> (u64 \<rightharpoonup> u64)" where
  "tmap_spec mp (TMPut k v) = (0, mp(k \<mapsto> v))"
| "tmap_spec mp (TMRemove k) = (case mp k of None \<Rightarrow> VCOL_NOT_FOUND | Some v \<Rightarrow> v, mp(k := None))"
| "tmap_spec mp (TMGet k) = (case mp k of None \<Rightarrow> 0 | Some v \<Rightarrow> v, mp)"
| "tmap_spec mp (TMContains k) = (if k \<in> dom mp then 1 else 0, mp)"
| "tmap_spec mp TMSize = (of_nat (card (dom mp)), mp)"
| "tmap_spec mp TMClear = (0, Map.empty)"
| "tmap_spec mp TMFirst = (best_key Min (dom mp), mp)"
| "tmap_spec mp TMLast = (best_key Max (dom mp), mp)"
| "tmap_spec mp (TMFloor k) = (best_key Max {k' \<in> dom mp. k' \<le> k}, mp)"
| "tmap_spec mp (TMCeiling k) = (best_key Min {k' \<in> dom mp. k \<le> k'}, mp)"

text \<open>A put of a new key for which the allocator refuses the node.\<close>

fun tmap_drops :: "store \<Rightarrow> (u64 \<rightharpoonup> u64) \<Rightarrow> tmap_cmd \<Rightarrow> bool" where
  "tmap_drops s mp (TMPut k v) = tmap_refused s k mp"
| "tmap_drops s mp _ = False"

lemma tmap_exec_ok:
  assumes "tmap_has s h A mp"
  shows "\<exists>s' A'. tmap_exec s h c = Some (fst (tmap_spec mp c), s') \<and> tmap_frame A h s s'
    \<and> tmap_has s' h A' (if tmap_drops s mp c then mp else snd (tmap_spec mp c))"
proof (cases c)
  case (TMPut k v)
  then show ?thesis
    using tmap_put_ok [OF assms, of k v] tmap_put_refused [OF assms, of k v] by (cases "tmap_refused s k mp") auto
next
  case (TMRemove k)
  then show ?thesis using tmap_remove_ok [OF assms, of k] by auto
next
  case TMClear
  then show ?thesis using tmap_clear_ok [OF assms] by auto
qed (use assms tmap_lookups [OF assms] tmap_order_queries [OF assms] in auto)

section \<open>The length of searches\<close>

fun height :: "ptree \<Rightarrow> nat" where
  "height PLeaf = 0"
| "height (PNode a c k v l r) = Suc (max (height l) (height r))"

lemma rb_height: "rb n t \<Longrightarrow> height t \<le> 2 * n + (if color_of t = VTREE_RED then 1 else 0)"
  by (induction n t rule: rb.induct) (auto split: if_splits)

lemma rb_size: "rb n t \<Longrightarrow> 2 ^ n \<le> Suc (length (inorder t))"
  by (induction n t rule: rb.induct) auto

lemma rbt_height: "rbt t \<Longrightarrow> 2 ^ height t \<le> (Suc (length (inorder t)))\<^sup>2"
proof -
  assume "rbt t"
  then obtain n where n: "rb n t" "color_of t = VTREE_BLACK" by (auto simp: rbt_def)
  have "(2 :: nat) ^ height t \<le> 2 ^ (2 * n)" using rb_height [OF n(1)] n(2) by (intro power_increasing) simp_all
  also have "\<dots> = (2 ^ n)\<^sup>2" by (simp add: power_mult [symmetric] mult.commute)
  also have "\<dots> \<le> (Suc (length (inorder t)))\<^sup>2" using rb_size [OF n(1)] by (rule power_mono) simp
  finally show ?thesis .
qed

text \<open>\<^verbatim>\<open>vtree_find\<close> cut off after a number of iterations of its loop.\<close>

fun find_within :: "nat \<Rightarrow> VestaTreeMap \<Rightarrow> node_heap \<Rightarrow> u64 \<Rightarrow> u64 \<Rightarrow> u64 option" where
  "find_within 0 t H key cur = (if cur = t_nil t then Some 0 else None)"
| "find_within (Suc n) t H key cur =
     (if cur = t_nil t then Some 0
      else do {
        k \<leftarrow> ld n_key H cur;
        if key = k then Some cur
        else do {
          next \<leftarrow> (if key < k then ld n_left H cur else ld n_right H cur);
          find_within n t H key next
        }
      })"

lemma find_within_height:
  assumes "tree_at H (t_nil t) p tr" "height tr \<le> n"
  shows "find_within n t H key (addr (t_nil t) tr) = vtree_find_loop t H key (addr (t_nil t) tr)"
  using assms
proof (induction tr arbitrary: p n)
  case PLeaf
  then show ?case by (cases n) (simp_all add: vtree_find_loop.simps [of t H key "t_nil t"])
next
  case (PNode a c k v l r)
  then obtain m where m: "n = Suc m" "height l \<le> m" "height r \<le> m" by (cases n) auto
  then show ?case
    using PNode.IH(1) [of a m] PNode.IH(2) [of a m] PNode.prems(1) by (subst vtree_find_loop.simps) auto
qed

section \<open>The interface that the sets rely on\<close>

definition tmap_denotes :: "store \<Rightarrow> u64 \<Rightarrow> (u64 \<rightharpoonup> u64) \<Rightarrow> bool" where
  "tmap_denotes s h mp \<longleftrightarrow> (\<exists>A. tmap_has s h A mp)"

definition tmap_put_fails :: "store \<Rightarrow> u64 \<Rightarrow> u64 \<Rightarrow> bool" where
  "tmap_put_fails s h k \<longleftrightarrow> (\<exists>A mp. tmap_has s h A mp \<and> tmap_refused s k mp)"

definition tmap_only :: "u64 \<Rightarrow> store \<Rightarrow> store \<Rightarrow> bool" where
  "tmap_only h s s' \<longleftrightarrow> (\<forall>A mp. tmap_has s h A mp \<longrightarrow> tmap_frame A h s s')"

lemma tmap_onlyI: "tmap_has s h A mp \<Longrightarrow> tmap_frame A h s s' \<Longrightarrow> tmap_only h s s'"
  unfolding tmap_only_def using tmap_has_unique by metis

interpretation tree_map: map_provider vcol_tmap_put vcol_tmap_contains vcol_tmap_remove tmap_denotes "\<lambda>s h. True" tmap_put_fails tmap_only
proof unfold_locales
  fix s h mp k v
  show "tmap_denotes s h mp \<Longrightarrow> True \<Longrightarrow> vcol_tmap_contains s h k = Some (if k \<in> dom mp then 1 else 0)"
    unfolding tmap_denotes_def using tmap_lookups(2) by blast
  show "\<exists>s'. vcol_tmap_put s h k v = Some s' \<and> tmap_denotes s' h (mp(k \<mapsto> v)) \<and> tmap_only h s s'"
    if has: "tmap_denotes s h mp" and ok: "\<not> tmap_put_fails s h k"
  proof -
    obtain A where A: "tmap_has s h A mp" using has by (auto simp: tmap_denotes_def)
    then have "\<not> tmap_refused s k mp" using ok by (auto simp: tmap_put_fails_def)
    from tmap_put_ok [OF A this, of v] show ?thesis using tmap_onlyI [OF A] by (auto simp: tmap_denotes_def)
  qed
  show "\<exists>s'. vcol_tmap_put s h k v = Some s' \<and> tmap_denotes s' h mp \<and> tmap_only h s s'"
    if has: "tmap_denotes s h mp" and no: "tmap_put_fails s h k"
  proof -
    obtain A where A: "tmap_has s h A mp" using has by (auto simp: tmap_denotes_def)
    then have "tmap_refused s k mp" using no tmap_has_unique [OF A] unfolding tmap_put_fails_def by blast
    from tmap_put_refused [OF A this, of v] show ?thesis using tmap_onlyI [OF A] by (auto simp: tmap_denotes_def)
  qed
  show "\<exists>s'. vcol_tmap_remove s h k = Some (case mp k of None \<Rightarrow> VCOL_NOT_FOUND | Some v \<Rightarrow> v, s')
      \<and> tmap_denotes s' h (mp(k := None)) \<and> True \<and> tmap_only h s s'" if has: "tmap_denotes s h mp"
  proof -
    obtain A where A: "tmap_has s h A mp" using has by (auto simp: tmap_denotes_def)
    from tmap_remove_ok [OF A, of k] show ?thesis using tmap_onlyI [OF A] by (auto simp: tmap_denotes_def)
  qed
  show "tmap_only h s s" by (simp add: tmap_only_def)
qed

text \<open>A handle denotes a set when every key of its map carries the marker.\<close>

definition tset_has :: "store \<Rightarrow> u64 \<Rightarrow> u64 set \<Rightarrow> bool" where
  "tset_has s h E \<longleftrightarrow> (\<exists>mp. tmap_denotes s h mp \<and> dom mp = E \<and> (\<forall>e \<in> dom mp. mp e = Some VTSET_PRESENT))"

lemma tset_via: "vcol_tset_add s h e = set_add_via vcol_tmap_contains vcol_tmap_put VTSET_PRESENT s h e"
  "vcol_tset_remove s h e = set_remove_via vcol_tmap_remove s h e"
  by (simp_all add: vcol_tset_add_def set_add_via_def vcol_tset_remove_def set_remove_via_def)

lemma tset_ops:
  assumes "tset_has s h E"
  shows "\<exists>s'. vcol_tset_add s h e = Some (if e \<in> E then 0 else 1, s') \<and> tmap_only h s s'
      \<and> tset_has s' h (if e \<in> E \<or> tmap_put_fails s h e then E else insert e E)"
    and "\<exists>s'. vcol_tset_remove s h e = Some (if e \<in> E then 1 else 0, s') \<and> tset_has s' h (E - {e}) \<and> tmap_only h s s'"
    and "vcol_tset_contains s h e = Some (if e \<in> E then 1 else 0)" and "vcol_tset_size s h = Some (of_nat (card E))"
    and "vcol_tset_first s h = Some (best_key Min E)" and "vcol_tset_last s h = Some (best_key Max E)"
    and "\<exists>s'. vcol_tset_clear s h = Some s' \<and> tset_has s' h {}"
proof -
  obtain mp where mp: "tmap_denotes s h mp" "dom mp = E" "\<forall>e \<in> dom mp. mp e = Some VTSET_PRESENT" using assms by (auto simp: tset_has_def)
  obtain A where A: "tmap_has s h A mp" using mp(1) by (auto simp: tmap_denotes_def)
  show "\<exists>s'. vcol_tset_add s h e = Some (if e \<in> E then 0 else 1, s') \<and> tmap_only h s s'
      \<and> tset_has s' h (if e \<in> E \<or> tmap_put_fails s h e then E else insert e E)"
    using tree_map.add_ok [OF mp(1,3) TrueI, of e] mp(2) unfolding tset_via tset_has_def by metis
  have "VTSET_PRESENT \<noteq> VCOL_NOT_FOUND" by (simp add: VTSET_PRESENT_def VCOL_NOT_FOUND_def)
  from tree_map.discard_ok [OF mp(1,3) TrueI this, of e]
  show "\<exists>s'. vcol_tset_remove s h e = Some (if e \<in> E then 1 else 0, s') \<and> tset_has s' h (E - {e}) \<and> tmap_only h s s'"
  proof (elim exE conjE)
    fix s'
    assume s': "set_remove_via vcol_tmap_remove s h e = Some (if e \<in> dom mp then 1 else 0, s')" "tmap_denotes s' h (mp(e := None))" "tmap_only h s s'"
    have "dom (mp(e := None)) = E - {e}" "\<forall>x \<in> dom (mp(e := None)). (mp(e := None)) x = Some VTSET_PRESENT" using mp(2,3) by auto
    then have "tset_has s' h (E - {e})" unfolding tset_has_def using s'(2) by blast
    then show ?thesis using s'(1,3) mp(2) unfolding tset_via by blast
  qed
  show "vcol_tset_contains s h e = Some (if e \<in> E then 1 else 0)" "vcol_tset_size s h = Some (of_nat (card E))"
    using tmap_lookups [OF A] mp(2) by (simp_all add: vcol_tset_contains_def vcol_tset_size_def)
  show "vcol_tset_first s h = Some (best_key Min E)" "vcol_tset_last s h = Some (best_key Max E)"
    using tmap_order_queries [OF A] mp(2) by (simp_all add: vcol_tset_first_def vcol_tset_last_def)
  show "\<exists>s'. vcol_tset_clear s h = Some s' \<and> tset_has s' h {}"
    using tmap_clear_ok [OF A] by (fastforce simp: vcol_tset_clear_def tset_has_def tmap_denotes_def)
qed

section \<open>Properties\<close>

text \<open>An example: a new tree on the concrete host.\<close>

definition tmap_demo :: store where
  "tmap_demo = (case vcol_tmap_new demo_store of Some (h, s) \<Rightarrow> s)"

lemma tmap_demo_new: "vcol_tmap_new demo_store = Some (4096, tmap_demo)" "fst (malloc tmap_demo 48) = 12288"
  by (simp_all add: tmap_demo_def vcol_tmap_new_def malloc_def PTRDIFF_MAX_def VCOL_NULL_def put_def)

lemma tmap_demo_has: obtains A where "tmap_has tmap_demo 4096 A Map.empty"
  using tmap_new_cases [of demo_store] by (auto simp: tmap_demo_new VCOL_NULL_def)

text \<open>C27. Every call on a live tree map returns, with the result of the operation on the denoted map, and leaves a
  red-black tree that denotes the map after it; the one exception is a put of a new key when the allocator
  refuses the node, which is silently dropped.  Nothing outside of the tree changes: neither another struct nor a
  tree at other addresses.\<close>

theorem tree_call_refines:
  assumes "tmap_has s h A mp"
  shows "\<exists>s' A'. tmap_exec s h c = Some (fst (tmap_spec mp c), s')
    \<and> tmap_has s' h A' (if tmap_drops s mp c then mp else snd (tmap_spec mp c))
    \<and> (\<forall>k. k \<noteq> h \<longrightarrow> objs s' k = objs s k)
    \<and> (\<forall>k B mp'. k \<noteq> h \<longrightarrow> A \<inter> B = {} \<longrightarrow> tmap_has s k B mp' \<longrightarrow> tmap_has s' k B mp')"
proof -
  obtain s' A' where c: "tmap_exec s h c = Some (fst (tmap_spec mp c), s')" and fr: "tmap_frame A h s s'"
      and has: "tmap_has s' h A' (if tmap_drops s mp c then mp else snd (tmap_spec mp c))"
    using tmap_exec_ok [OF assms] by blast
  have "tmap_has s' k B mp'" if "k \<noteq> h" "A \<inter> B = {}" "tmap_has s k B mp'" for k B mp'
    using that tmap_rep_other [OF _ fr] unfolding tmap_has_def by blast
  moreover have "\<forall>k. k \<noteq> h \<longrightarrow> objs s' k = objs s k" using fr by (simp add: tmap_frame_def)
  ultimately show ?thesis using c has by blast
qed

theorem tree_call_refines_witness:
  "\<exists>s1 s2 s3. tmap_exec tmap_demo 4096 (TMPut 5 70) = Some (0, s1) \<and> tmap_exec s1 4096 (TMFloor 9) = Some (5, s2)
     \<and> tmap_exec s2 4096 (TMRemove 5) = Some (70, s3)"
proof -
  obtain A where A: "tmap_has tmap_demo 4096 A Map.empty" by (rule tmap_demo_has)
  have "\<not> tmap_drops tmap_demo Map.empty (TMPut 5 70)" by (simp add: tmap_refused_def tmap_demo_new)
  then obtain s1 A1 where 1: "tmap_exec tmap_demo 4096 (TMPut 5 70) = Some (0, s1)" "tmap_has s1 4096 A1 [5 \<mapsto> 70]"
    using tree_call_refines [OF A, of "TMPut 5 70"] by auto
  have "best_key Max {k \<in> dom [5 \<mapsto> (70 :: u64)]. k \<le> 9} = (5 :: u64)"
  proof -
    have "{k \<in> dom [5 \<mapsto> (70 :: u64)]. k \<le> 9} = {5 :: u64}" by auto
    then show ?thesis by (simp add: best_key_def)
  qed
  then obtain s2 A2 where 2: "tmap_exec s1 4096 (TMFloor 9) = Some (5, s2)" "tmap_has s2 4096 A2 [5 \<mapsto> 70]"
    using tree_call_refines [OF 1(2), of "TMFloor 9"] by auto
  then show ?thesis using tree_call_refines [OF 2(2), of "TMRemove 5"] 1(1) 2(1) by auto
qed

text \<open>C28. A search in a tree map of \<open>n\<close> keys ends after at most \<open>2 * log2 (n + 1)\<close> iterations: it is the same when it is cut
  off after any number of iterations \<open>d\<close> with \<open>(n + 1)\<^sup>2 < 2 ^ (d + 1)\<close>.\<close>

theorem tree_search_bound:
  assumes "tmap_has s h A mp" and "deref as_tmap s h = Some t" and "(Suc (card (dom mp)))\<^sup>2 < 2 ^ Suc d"
  shows "find_within d t (nodes s) key (t_root t) = vtree_find t (nodes s) key
    \<and> (\<exists>a. vtree_find t (nodes s) key = Some a \<and> (a = 0 \<longleftrightarrow> key \<notin> dom mp))"
proof -
  obtain xs where rep: "tmap_rep s h A xs" and mp: "mp = entries_of xs" using assms(1) by (auto simp: tmap_has_def)
  obtain N tr where r: "tree_in (nodes s) N (t, nodes s) tr" "rbt tr" "inorder tr = xs" "sorted_wrt (<) (keys_of xs)"
    using tmap_repD [OF rep] assms(2) by (metis option.inject)
  have tr: "tree_at (nodes s) (t_nil t) (t_nil t) tr" "t_root t = addr (t_nil t) tr" using r(1) by (simp_all add: tree_in_def Let_def)
  have "card (dom mp) = length (inorder tr)" using entries_card [OF r(4)] r(3) mp by simp
  then have "2 ^ height tr < (2 :: nat) ^ Suc d" using rbt_height [OF r(2)] assms(3) by (metis le_less_trans)
  then have "height tr \<le> d" using power_less_imp_less_exp [of "2 :: nat"] by (metis less_Suc_eq_le one_less_numeral_iff semiring_norm(76))
  moreover have "key \<in> set (keys_of xs)" if "tr = plug (PNode a c key v l r') cs" for a c v l r' cs
    using that r(3) by (auto simp: inorder_plug)
  then have "\<exists>a. vtree_find t (nodes s) key = Some a \<and> (a = 0 \<longleftrightarrow> key \<notin> dom mp)"
    using tmap_find [OF r(1), of key] r(3,4) unfolding mp dom_entries by metis
  ultimately show ?thesis using find_within_height [OF tr(1), of d key] tr(2) by (simp add: vtree_find_def)
qed

theorem tree_search_bound_witness:
  "\<exists>t. deref as_tmap tmap_demo 4096 = Some t \<and> find_within 0 t (nodes tmap_demo) 7 (t_root t) = Some 0"
proof -
  obtain A where A: "tmap_has tmap_demo 4096 A Map.empty" by (rule tmap_demo_has)
  then obtain t where t: "deref as_tmap tmap_demo 4096 = Some t" by (auto simp: tmap_has_def tmap_rep_def)
  then show ?thesis using tree_search_bound [OF A t, of 0 7] by auto
qed

text \<open>Listing the keys or the values of a tree map either fails with the null handle or returns a fresh list with
  all of them, ordered by key; the tree stays as it is.\<close>

theorem tree_listing_ordered:
  assumes "tmap_has s h A mp" and "card (dom mp) < 2 ^ 61"
  shows "(\<exists>al s'. vcol_tmap_keys s h = Some (al, s') \<and> only_changes al s s' \<and> (al = VCOL_NULL \<and> objs s' = objs s
      \<or> objs s al = None \<and> alist_has s' al (sorted_list_of_set (dom mp)) \<and> tmap_has s' h A mp))
    \<and> (\<exists>al s'. vcol_tmap_values s h = Some (al, s') \<and> only_changes al s s' \<and> (al = VCOL_NULL \<and> objs s' = objs s
      \<or> objs s al = None \<and> alist_has s' al (map (\<lambda>k. the (mp k)) (sorted_list_of_set (dom mp))) \<and> tmap_has s' h A mp))"
  using tmap_keys_ok [OF assms] tmap_values_ok [OF assms] by blast

theorem tree_listing_ordered_witness:
  "\<exists>al s'. vcol_tmap_keys tmap_demo 4096 = Some (al, s') \<and> (al = VCOL_NULL \<or> alist_has s' al [])"
proof -
  obtain A where A: "tmap_has tmap_demo 4096 A Map.empty" by (rule tmap_demo_has)
  show ?thesis using tree_listing_ordered [OF A] by auto
qed

text \<open>The operations of a tree set return and do what they announce on the denoted set, in the order of its
  elements; when the allocator refuses the node, an addition reports success and the element is not in the set.\<close>

theorem tree_set_elements:
  assumes "tset_has s h E"
  shows "(\<exists>s'. vcol_tset_add s h e = Some (if e \<in> E then 0 else 1, s')
         \<and> tset_has s' h (if e \<in> E \<or> tmap_put_fails s h e then E else insert e E))
    \<and> (\<exists>s'. vcol_tset_remove s h e = Some (if e \<in> E then 1 else 0, s') \<and> tset_has s' h (E - {e}))
    \<and> vcol_tset_contains s h e = Some (if e \<in> E then 1 else 0) \<and> vcol_tset_size s h = Some (of_nat (card E))
    \<and> vcol_tset_first s h = Some (best_key Min E) \<and> vcol_tset_last s h = Some (best_key Max E)"
  using tset_ops [OF assms] by blast

theorem tree_set_elements_witness: "\<exists>s'. vcol_tset_add tmap_demo 4096 3 = Some (1, s')"
proof -
  have "tset_has tmap_demo 4096 {}" using tmap_demo_has unfolding tset_has_def tmap_denotes_def by fastforce
  from tree_set_elements [OF this, of 3] show ?thesis by auto
qed

text \<open>Releasing a tree map frees its struct, its sentinel and all of its nodes; a second release has no defined
  result.\<close>

theorem tree_free_complete:
  assumes "tmap_has s h A mp"
  shows "\<exists>s'. vcol_tmap_free s h = Some s' \<and> objs s' h = None \<and> (\<forall>a \<in> A. nodes s' a = None) \<and> tmap_frame A h s s'
    \<and> vcol_tmap_free s' h = None"
  using assms by (rule tmap_free_ok)

theorem tree_free_complete_witness: "\<exists>s'. vcol_tmap_free tmap_demo 4096 = Some s' \<and> objs s' 4096 = None"
proof -
  obtain A where A: "tmap_has tmap_demo 4096 A Map.empty" by (rule tmap_demo_has)
  show ?thesis using tree_free_complete [OF A] by auto
qed

end
