(* ===== verification/Vcol_Gc.thy ===== *)
theory Vcol_Gc
  imports Vcol_Queue Vcol_HashSet Vcol_TreeApi
begin

text \<open>
  The variants of the collections that hold handles of garbage-collected objects.  The collector does
  not see into the collections; each variant therefore counts, per process, how often a handle is
  stored (\<^verbatim>\<open>GcHeap::external_refs_\<close>), and the collector keeps every object whose count is positive.
  The counts are the component \<^const>\<open>extrefs\<close> of the store.
\<close>

section \<open>The counts kept by the collector\<close>

definition GC_NULL_HANDLE :: u32 where
  "GC_NULL_HANDLE = 0xFFFFFFFF"

definition gc_addref :: "(u32 \<rightharpoonup> u32) \<Rightarrow> u32 \<Rightarrow> (u32 \<rightharpoonup> u32)" where
  "gc_addref refs h =
     (if h = GC_NULL_HANDLE then refs else refs(h \<mapsto> (case refs h of None \<Rightarrow> 0 | Some n \<Rightarrow> n) + 1))"

definition gc_release :: "(u32 \<rightharpoonup> u32) \<Rightarrow> u32 \<Rightarrow> (u32 \<rightharpoonup> u32)" where
  "gc_release refs h =
     (if h = GC_NULL_HANDLE then refs
      else case refs h of None \<Rightarrow> refs | Some n \<Rightarrow> if n > 1 then refs(h \<mapsto> n - 1) else refs(h := None))"

text \<open>The two functions the loader hands to the plugin; the handle is cut to 32 bits.\<close>

definition plugin_gc_addref :: "store \<Rightarrow> u64 \<Rightarrow> u64 \<Rightarrow> store" where
  "plugin_gc_addref s proc_ptr gc_handle =
     (if proc_ptr = 0 \<or> gc_handle = 0 then s
      else s\<lparr>extrefs := (extrefs s)(proc_ptr := gc_addref (extrefs s proc_ptr) (ucast gc_handle))\<rparr>)"

definition plugin_gc_release :: "store \<Rightarrow> u64 \<Rightarrow> u64 \<Rightarrow> store" where
  "plugin_gc_release s proc_ptr gc_handle =
     (if proc_ptr = 0 \<or> gc_handle = 0 then s
      else s\<lparr>extrefs := (extrefs s)(proc_ptr := gc_release (extrefs s proc_ptr) (ucast gc_handle))\<rparr>)"

definition vcol_gc_addref :: "store \<Rightarrow> u64 \<Rightarrow> u64 \<Rightarrow> store" where
  "vcol_gc_addref s proc h = (if g_api s \<and> proc \<noteq> 0 \<and> h \<noteq> 0 then plugin_gc_addref s proc h else s)"

definition vcol_gc_release :: "store \<Rightarrow> u64 \<Rightarrow> u64 \<Rightarrow> store" where
  "vcol_gc_release s proc h = (if g_api s \<and> proc \<noteq> 0 \<and> h \<noteq> 0 then plugin_gc_release s proc h else s)"

section \<open>Array lists\<close>

definition vcol_alist_push_gc :: "store \<Rightarrow> u64 \<Rightarrow> u64 \<Rightarrow> u64 \<Rightarrow> (u64 \<times> store) option" where
  "vcol_alist_push_gc s proc handle value = vcol_alist_push (vcol_gc_addref s proc value) handle value"

definition vcol_alist_pop_gc :: "store \<Rightarrow> u64 \<Rightarrow> u64 \<Rightarrow> (u64 \<times> store) option" where
  "vcol_alist_pop_gc s proc handle =
     do {
       (v, s) \<leftarrow> vcol_alist_pop s handle;
       Some (v, if v \<noteq> VCOL_NOT_FOUND then vcol_gc_release s proc v else s)
     }"

definition vcol_alist_set_gc :: "store \<Rightarrow> u64 \<Rightarrow> u64 \<Rightarrow> u64 \<Rightarrow> u64 \<Rightarrow> (u64 \<times> store) option" where
  "vcol_alist_set_gc s proc handle index value =
     do {
       old \<leftarrow> vcol_alist_get s handle index;
       let s = vcol_gc_addref s proc value;
       (r, s) \<leftarrow> vcol_alist_set s handle index value;
       Some (r, if old \<noteq> VCOL_NOT_FOUND then vcol_gc_release s proc old else s)
     }"

definition vcol_alist_remove_at_gc :: "store \<Rightarrow> u64 \<Rightarrow> u64 \<Rightarrow> u64 \<Rightarrow> (u64 \<times> store) option" where
  "vcol_alist_remove_at_gc s proc handle index =
     do {
       (v, s) \<leftarrow> vcol_alist_remove_at s handle index;
       Some (v, if v \<noteq> VCOL_NOT_FOUND then vcol_gc_release s proc v else s)
     }"

definition vcol_alist_insert_gc :: "store \<Rightarrow> u64 \<Rightarrow> u64 \<Rightarrow> u64 \<Rightarrow> u64 \<Rightarrow> (u64 \<times> store) option" where
  "vcol_alist_insert_gc s proc handle index value =
     vcol_alist_insert (vcol_gc_addref s proc value) handle index value"

text \<open>\<^verbatim>\<open>for (i = 0; i < al->size; ++i) vcol_gc_release(proc, al->data[i]);\<close>\<close>

definition alist_release_all :: "store \<Rightarrow> u64 \<Rightarrow> VestaArrayList \<Rightarrow> store option" where
  "alist_release_all s proc al =
     for_each (\<lambda>i s. do { v \<leftarrow> rd (da_data al) (of_nat i); Some (vcol_gc_release s proc v) }) [0..<unat (da_size al)] s"

definition vcol_alist_clear_gc :: "store \<Rightarrow> u64 \<Rightarrow> u64 \<Rightarrow> store option" where
  "vcol_alist_clear_gc s proc handle =
     do {
       s \<leftarrow> (if handle = 0 then Some s else do { al \<leftarrow> deref as_alist s handle; alist_release_all s proc al });
       vcol_alist_clear s handle
     }"

definition vcol_alist_free_gc :: "store \<Rightarrow> u64 \<Rightarrow> u64 \<Rightarrow> store option" where
  "vcol_alist_free_gc s proc handle = do { s \<leftarrow> vcol_alist_clear_gc s proc handle; vcol_alist_free s handle }"

section \<open>Hash maps and hash sets\<close>

definition vcol_map_put_gc :: "store \<Rightarrow> u64 \<Rightarrow> u64 \<Rightarrow> u64 \<Rightarrow> u64 \<Rightarrow> store option" where
  "vcol_map_put_gc s proc handle key value =
     do {
       had \<leftarrow> vcol_map_contains s handle key;
       old \<leftarrow> (if had \<noteq> 0 then vcol_map_get s handle key else Some 0);
       let s = vcol_gc_addref s proc value;
       s \<leftarrow> vcol_map_put s handle key value;
       Some (if had \<noteq> 0 \<and> old \<noteq> 0 then vcol_gc_release s proc old else s)
     }"

definition vcol_map_remove_gc :: "store \<Rightarrow> u64 \<Rightarrow> u64 \<Rightarrow> u64 \<Rightarrow> (u64 \<times> store) option" where
  "vcol_map_remove_gc s proc handle key =
     do {
       (v, s) \<leftarrow> vcol_map_remove s handle key;
       Some (v, if v \<noteq> VCOL_NOT_FOUND then vcol_gc_release s proc v else s)
     }"

text \<open>The walk over the occupied slots; \<open>pick\<close> is the value for a map and the key for a set.\<close>

definition map_release_all :: "(u64 \<times> u64 \<Rightarrow> u64) \<Rightarrow> store \<Rightarrow> u64 \<Rightarrow> VestaHashMap \<Rightarrow> store option" where
  "map_release_all pick s proc m =
     do { es \<leftarrow> vmap_entries m; for_each (\<lambda>e s. Some (vcol_gc_release s proc (pick e))) es s }"

definition vcol_map_clear_gc :: "store \<Rightarrow> u64 \<Rightarrow> u64 \<Rightarrow> store option" where
  "vcol_map_clear_gc s proc handle =
     do {
       s \<leftarrow> (if handle = 0 then Some s else do { m \<leftarrow> deref as_map s handle; map_release_all snd s proc m });
       vcol_map_clear s handle
     }"

definition vcol_map_free_gc :: "store \<Rightarrow> u64 \<Rightarrow> u64 \<Rightarrow> store option" where
  "vcol_map_free_gc s proc handle = do { s \<leftarrow> vcol_map_clear_gc s proc handle; vcol_map_free s handle }"

definition vcol_set_add_gc :: "store \<Rightarrow> u64 \<Rightarrow> u64 \<Rightarrow> u64 \<Rightarrow> (u64 \<times> store) option" where
  "vcol_set_add_gc s proc handle element =
     do {
       had \<leftarrow> vcol_set_contains s handle element;
       (r, s) \<leftarrow> vcol_set_add s handle element;
       Some (r, if had = 0 \<and> r \<noteq> 0 then vcol_gc_addref s proc element else s)
     }"

definition vcol_set_remove_gc :: "store \<Rightarrow> u64 \<Rightarrow> u64 \<Rightarrow> u64 \<Rightarrow> (u64 \<times> store) option" where
  "vcol_set_remove_gc s proc handle element =
     do {
       (r, s) \<leftarrow> vcol_set_remove s handle element;
       Some (r, if r \<noteq> 0 then vcol_gc_release s proc element else s)
     }"

definition vcol_set_clear_gc :: "store \<Rightarrow> u64 \<Rightarrow> u64 \<Rightarrow> store option" where
  "vcol_set_clear_gc s proc handle =
     do {
       s \<leftarrow> (if handle = 0 then Some s else do { m \<leftarrow> deref as_map s handle; map_release_all fst s proc m });
       vcol_set_clear s handle
     }"

definition vcol_set_free_gc :: "store \<Rightarrow> u64 \<Rightarrow> u64 \<Rightarrow> store option" where
  "vcol_set_free_gc s proc handle = do { s \<leftarrow> vcol_set_clear_gc s proc handle; vcol_set_free s handle }"

section \<open>Queues and deques\<close>

definition vcol_queue_push_gc :: "store \<Rightarrow> u64 \<Rightarrow> u64 \<Rightarrow> u64 \<Rightarrow> (u64 \<times> store) option" where
  "vcol_queue_push_gc s proc handle value = vcol_queue_push (vcol_gc_addref s proc value) handle value"

definition vcol_queue_pop_gc :: "store \<Rightarrow> u64 \<Rightarrow> u64 \<Rightarrow> (u64 \<times> store) option" where
  "vcol_queue_pop_gc s proc handle =
     do {
       (v, s) \<leftarrow> vcol_queue_pop s handle;
       Some (v, if v \<noteq> VCOL_NOT_FOUND then vcol_gc_release s proc v else s)
     }"

text \<open>The walk along the ring: \<^verbatim>\<open>vcol_gc_release(proc, q->data[pos]); pos = (pos + 1) & q->mask;\<close>\<close>

definition queue_release_all :: "store \<Rightarrow> u64 \<Rightarrow> VestaQueue \<Rightarrow> store option" where
  "queue_release_all s proc q =
     map_option fst
       (for_each (\<lambda>i (s, pos). do { v \<leftarrow> rd (q_data q) pos; Some (vcol_gc_release s proc v, (pos + 1) AND q_mask q) })
          [0..<unat (q_size q)] (s, q_head q))"

definition vcol_queue_clear_gc :: "store \<Rightarrow> u64 \<Rightarrow> u64 \<Rightarrow> store option" where
  "vcol_queue_clear_gc s proc handle =
     do {
       s \<leftarrow> (if handle = 0 then Some s
             else do { q \<leftarrow> deref as_queue s handle; if q_size q > 0 then queue_release_all s proc q else Some s });
       vcol_queue_clear s handle
     }"

definition vcol_queue_free_gc :: "store \<Rightarrow> u64 \<Rightarrow> u64 \<Rightarrow> store option" where
  "vcol_queue_free_gc s proc handle = do { s \<leftarrow> vcol_queue_clear_gc s proc handle; vcol_queue_free s handle }"

definition vcol_deque_push_back_gc :: "store \<Rightarrow> u64 \<Rightarrow> u64 \<Rightarrow> u64 \<Rightarrow> (u64 \<times> store) option" where
  "vcol_deque_push_back_gc s proc handle value = vcol_deque_push_back (vcol_gc_addref s proc value) handle value"

definition vcol_deque_push_front_gc :: "store \<Rightarrow> u64 \<Rightarrow> u64 \<Rightarrow> u64 \<Rightarrow> (u64 \<times> store) option" where
  "vcol_deque_push_front_gc s proc handle value = vcol_deque_push_front (vcol_gc_addref s proc value) handle value"

definition vcol_deque_pop_back_gc :: "store \<Rightarrow> u64 \<Rightarrow> u64 \<Rightarrow> (u64 \<times> store) option" where
  "vcol_deque_pop_back_gc s proc handle =
     do {
       (v, s) \<leftarrow> vcol_deque_pop_back s handle;
       Some (v, if v \<noteq> VCOL_NOT_FOUND then vcol_gc_release s proc v else s)
     }"

definition vcol_deque_pop_front_gc :: "store \<Rightarrow> u64 \<Rightarrow> u64 \<Rightarrow> (u64 \<times> store) option" where
  "vcol_deque_pop_front_gc s proc handle =
     do {
       (v, s) \<leftarrow> vcol_deque_pop_front s handle;
       Some (v, if v \<noteq> VCOL_NOT_FOUND then vcol_gc_release s proc v else s)
     }"

definition vcol_deque_clear_gc :: "store \<Rightarrow> u64 \<Rightarrow> u64 \<Rightarrow> store option" where
  "vcol_deque_clear_gc s proc handle = vcol_queue_clear_gc s proc handle"

definition vcol_deque_free_gc :: "store \<Rightarrow> u64 \<Rightarrow> u64 \<Rightarrow> store option" where
  "vcol_deque_free_gc s proc handle = do { s \<leftarrow> vcol_deque_clear_gc s proc handle; vcol_deque_free s handle }"

section \<open>Tree maps and tree sets\<close>

partial_function (option) vtree_release_values :: "store \<Rightarrow> u64 \<Rightarrow> u64 \<Rightarrow> u64 \<Rightarrow> store option" where
  "vtree_release_values s proc n nl =
     (if n = nl then Some s
      else do {
        l \<leftarrow> ld n_left (nodes s) n;
        s \<leftarrow> vtree_release_values s proc l nl;
        v \<leftarrow> ld n_value (nodes s) n;
        let s = vcol_gc_release s proc v;
        r \<leftarrow> ld n_right (nodes s) n;
        vtree_release_values s proc r nl
      })"

definition vcol_tmap_put_gc :: "store \<Rightarrow> u64 \<Rightarrow> u64 \<Rightarrow> u64 \<Rightarrow> u64 \<Rightarrow> store option" where
  "vcol_tmap_put_gc s proc handle key value =
     do {
       had \<leftarrow> vcol_tmap_contains s handle key;
       old \<leftarrow> (if had \<noteq> 0 then vcol_tmap_get s handle key else Some 0);
       let s = vcol_gc_addref s proc value;
       s \<leftarrow> vcol_tmap_put s handle key value;
       Some (if had \<noteq> 0 \<and> old \<noteq> 0 then vcol_gc_release s proc old else s)
     }"

definition vcol_tmap_remove_gc :: "store \<Rightarrow> u64 \<Rightarrow> u64 \<Rightarrow> u64 \<Rightarrow> (u64 \<times> store) option" where
  "vcol_tmap_remove_gc s proc handle key =
     do {
       (v, s) \<leftarrow> vcol_tmap_remove s handle key;
       Some (v, if v \<noteq> VCOL_NOT_FOUND then vcol_gc_release s proc v else s)
     }"

definition vcol_tmap_clear_gc :: "store \<Rightarrow> u64 \<Rightarrow> u64 \<Rightarrow> store option" where
  "vcol_tmap_clear_gc s proc handle =
     do {
       s \<leftarrow> (if handle = 0 then Some s
             else do { t \<leftarrow> deref as_tmap s handle; vtree_release_values s proc (t_root t) (t_nil t) });
       vcol_tmap_clear s handle
     }"

definition vcol_tmap_free_gc :: "store \<Rightarrow> u64 \<Rightarrow> u64 \<Rightarrow> store option" where
  "vcol_tmap_free_gc s proc handle = do { s \<leftarrow> vcol_tmap_clear_gc s proc handle; vcol_tmap_free s handle }"

partial_function (option) vtree_release_keys :: "store \<Rightarrow> u64 \<Rightarrow> u64 \<Rightarrow> u64 \<Rightarrow> store option" where
  "vtree_release_keys s proc n nl =
     (if n = nl then Some s
      else do {
        l \<leftarrow> ld n_left (nodes s) n;
        s \<leftarrow> vtree_release_keys s proc l nl;
        k \<leftarrow> ld n_key (nodes s) n;
        let s = vcol_gc_release s proc k;
        r \<leftarrow> ld n_right (nodes s) n;
        vtree_release_keys s proc r nl
      })"

definition vcol_tset_add_gc :: "store \<Rightarrow> u64 \<Rightarrow> u64 \<Rightarrow> u64 \<Rightarrow> (u64 \<times> store) option" where
  "vcol_tset_add_gc s proc handle element =
     do {
       had \<leftarrow> vcol_tset_contains s handle element;
       (r, s) \<leftarrow> vcol_tset_add s handle element;
       Some (r, if had = 0 \<and> r \<noteq> 0 then vcol_gc_addref s proc element else s)
     }"

definition vcol_tset_remove_gc :: "store \<Rightarrow> u64 \<Rightarrow> u64 \<Rightarrow> u64 \<Rightarrow> (u64 \<times> store) option" where
  "vcol_tset_remove_gc s proc handle element =
     do {
       (r, s) \<leftarrow> vcol_tset_remove s handle element;
       Some (r, if r \<noteq> 0 then vcol_gc_release s proc element else s)
     }"

definition vcol_tset_clear_gc :: "store \<Rightarrow> u64 \<Rightarrow> u64 \<Rightarrow> store option" where
  "vcol_tset_clear_gc s proc handle =
     do {
       s \<leftarrow> (if handle = 0 then Some s
             else do { t \<leftarrow> deref as_tmap s handle; vtree_release_keys s proc (t_root t) (t_nil t) });
       vcol_tset_clear s handle
     }"

definition vcol_tset_free_gc :: "store \<Rightarrow> u64 \<Rightarrow> u64 \<Rightarrow> store option" where
  "vcol_tset_free_gc s proc handle = do { s \<leftarrow> vcol_tset_clear_gc s proc handle; vcol_tset_free s handle }"

end
