(* ===== verification/Vcol_GcPins.thy ===== *)
theory Vcol_GcPins
  imports Vcol_Gc
begin

text \<open>
  The counts of stored handles agree with what the collections hold: every call that stores or takes
  a value changes the count of its handle with it.  Where a call stores nothing and still counts,
  the object stays alive for ever; these cases are stated too.
\<close>

section \<open>Counts\<close>

definition pin_count :: "store \<Rightarrow> u64 \<Rightarrow> u32 \<Rightarrow> nat" where
  "pin_count s p k = (case extrefs s p k of None \<Rightarrow> 0 | Some n \<Rightarrow> unat n)"

text \<open>The handle that a stored value stands for: none for 0 and for values that end in the null handle.\<close>

definition handle_of :: "u64 \<Rightarrow> u32 option" where
  "handle_of v = (if v = 0 \<or> (ucast v :: u32) = GC_NULL_HANDLE then None else Some (ucast v))"

definition occ :: "u32 \<Rightarrow> u64 list \<Rightarrow> nat" where
  "occ k xs = size (filter_mset (\<lambda>v. handle_of v = Some k) (mset xs))"

lemma occ_simps [simp]: "occ k [] = 0" "occ k (v # xs) = (if handle_of v = Some k then 1 else 0) + occ k xs"
  "occ k (xs @ ys) = occ k xs + occ k ys"
  by (simp_all add: occ_def)

lemma occ_add: "mset ys = add_mset v (mset xs) \<Longrightarrow> occ k ys = occ k [v] + occ k xs"
  by (simp add: occ_def)

lemma occ_not_found [simp]: "handle_of VCOL_NOT_FOUND = None"
  by (simp add: handle_of_def VCOL_NOT_FOUND_def GC_NULL_HANDLE_def)

text \<open>The collector is reachable, and no count is at its limit.\<close>

definition gc_ready :: "store \<Rightarrow> u64 \<Rightarrow> bool" where
  "gc_ready s p \<longleftrightarrow> g_api s \<and> p \<noteq> 0 \<and> (\<forall>k. pin_count s p k + 1 < 2 ^ 32)"

lemma addref_simps [simp]:
  "objs (vcol_gc_addref s p v) = objs s" "nodes (vcol_gc_addref s p v) = nodes s" "tick (vcol_gc_addref s p v) = tick s"
  "grant (vcol_gc_addref s p v) = grant s" "g_api (vcol_gc_addref s p v) = g_api s"
  by (simp_all add: vcol_gc_addref_def plugin_gc_addref_def)

lemma release_simps [simp]:
  "objs (vcol_gc_release s p v) = objs s" "nodes (vcol_gc_release s p v) = nodes s" "tick (vcol_gc_release s p v) = tick s"
  "grant (vcol_gc_release s p v) = grant s" "g_api (vcol_gc_release s p v) = g_api s"
  by (simp_all add: vcol_gc_release_def plugin_gc_release_def)

lemma addref_is_update: "\<exists>e. vcol_gc_addref s p v = s\<lparr>extrefs := e\<rparr>"
  and release_is_update: "\<exists>e. vcol_gc_release s p v = s\<lparr>extrefs := e\<rparr>"
  by (auto simp: vcol_gc_addref_def plugin_gc_addref_def vcol_gc_release_def plugin_gc_release_def intro: exI [of _ "extrefs s"])

lemma pin_count_addref:
  assumes "gc_ready s p"
  shows "pin_count (vcol_gc_addref s p v) p k = pin_count s p k + occ k [v]"
proof -
  have r: "g_api s" "p \<noteq> 0" and lim: "pin_count s p (ucast v) + 1 < 2 ^ 32" using assms by (auto simp: gc_ready_def)
  have "unat (n + 1) = unat n + 1" if "extrefs s p (ucast v) = Some n" for n :: u32
    using lim that by (simp add: pin_count_def unat_word_ariths)
  then show ?thesis
    using r by (auto simp: vcol_gc_addref_def plugin_gc_addref_def gc_addref_def pin_count_def handle_of_def split: option.splits)
qed

lemma pin_count_release:
  assumes "g_api s" "p \<noteq> 0"
  shows "pin_count (vcol_gc_release s p v) p k = pin_count s p k - occ k [v]"
proof -
  have "unat (n - 1) = unat n - 1" if "\<not> n \<le> 1" for n :: u32
    using that by (simp add: unat_sub word_le_nat_alt)
  moreover have "unat n - 1 = 0" if "n \<le> 1" for n :: u32 using that by (simp add: word_le_nat_alt)
  ultimately show ?thesis
    using assms by (auto simp: vcol_gc_release_def plugin_gc_release_def gc_release_def pin_count_def handle_of_def not_less split: option.splits)
qed

section \<open>Calls that store or take one value\<close>

definition store_gc :: "(store \<Rightarrow> u64 \<Rightarrow> 'c \<Rightarrow> (u64 \<times> store) option) \<Rightarrow> store \<Rightarrow> u64 \<Rightarrow> u64 \<Rightarrow> 'c \<Rightarrow> u64 \<Rightarrow> (u64 \<times> store) option" where
  "store_gc exec s p h c v = exec (vcol_gc_addref s p v) h c"

definition take_gc :: "(store \<Rightarrow> u64 \<Rightarrow> 'c \<Rightarrow> (u64 \<times> store) option) \<Rightarrow> store \<Rightarrow> u64 \<Rightarrow> u64 \<Rightarrow> 'c \<Rightarrow> (u64 \<times> store) option" where
  "take_gc exec s p h c =
     do { (v, s) \<leftarrow> exec s h c; Some (v, if v \<noteq> VCOL_NOT_FOUND then vcol_gc_release s p v else s) }"

text \<open>
  What the counting relies on from a collection, beyond that it refines lists: it neither reads nor
  writes the counts.
\<close>

locale gc_collection = collection_api exec spec has grows refused
  for exec :: "store \<Rightarrow> u64 \<Rightarrow> 'c \<Rightarrow> (u64 \<times> store) option" and spec :: "u64 list \<Rightarrow> 'c \<Rightarrow> u64 \<times> u64 list"
    and has :: "store \<Rightarrow> u64 \<Rightarrow> u64 list \<Rightarrow> bool" and grows :: "'c \<Rightarrow> bool" and refused :: "store \<Rightarrow> u64 \<Rightarrow> 'c \<Rightarrow> bool" +
  assumes has_extrefs: "has (s\<lparr>extrefs := e\<rparr>) h xs = has s h xs"
    and refused_extrefs: "refused (s\<lparr>extrefs := e\<rparr>) h c = refused s h c"
begin

lemma has_addref [simp]: "has (vcol_gc_addref s p v) h xs = has s h xs" "refused (vcol_gc_addref s p v) h c = refused s h c"
  using addref_is_update [of s p v] has_extrefs refused_extrefs by metis+

lemma has_release [simp]: "has (vcol_gc_release s p v) h xs = has s h xs"
  using release_is_update [of s p v] has_extrefs by metis

lemma extrefs_kept: "only_changes h s s' \<Longrightarrow> pin_count s' p k = pin_count s p k"
  by (simp add: only_changes_def pin_count_def)

lemma store_ok:
  assumes "has s h xs" "\<not> refused s h c" "gc_ready s p" "mset (snd (spec xs c)) = add_mset v (mset xs)"
  shows "\<exists>s'. store_gc exec s p h c v = Some (fst (spec xs c), s') \<and> has s' h (snd (spec xs c))
    \<and> (\<forall>k. pin_count s' p k + occ k xs = pin_count s p k + occ k (snd (spec xs c)))"
proof -
  obtain s' where s': "exec (vcol_gc_addref s p v) h c = Some (fst (spec xs c), s')" "has s' h (snd (spec xs c))"
      "only_changes h (vcol_gc_addref s p v) s'"
    using call_ok [of "vcol_gc_addref s p v" h xs c] assms(1,2) by auto
  then show ?thesis
    using extrefs_kept [OF s'(3), of p] pin_count_addref [OF assms(3), of v] occ_add [OF assms(4)] by (simp add: store_gc_def)
qed

lemma store_leaks:
  assumes "has s h xs" "refused s h c" "gc_ready s p"
  shows "\<exists>s'. store_gc exec s p h c v = Some (VCOL_NOT_FOUND, s') \<and> has s' h xs
    \<and> (\<forall>k. pin_count s' p k = pin_count s p k + occ k [v])"
proof -
  obtain s' where s': "exec (vcol_gc_addref s p v) h c = Some (VCOL_NOT_FOUND, s')" "has s' h xs" "only_changes h (vcol_gc_addref s p v) s'"
    using call_refused [of "vcol_gc_addref s p v" h xs c] assms(1,2) by auto
  then show ?thesis
    using extrefs_kept [OF s'(3), of p] pin_count_addref [OF assms(3), of v] by (simp add: store_gc_def)
qed

lemma take_ok:
  assumes "has s h xs" "\<not> refused s h c" "gc_ready s p" "\<forall>k. occ k xs \<le> pin_count s p k"
    and spec: "mset xs = add_mset (fst (spec xs c)) (mset (snd (spec xs c))) \<or> fst (spec xs c) = VCOL_NOT_FOUND \<and> snd (spec xs c) = xs"
  shows "\<exists>s'. take_gc exec s p h c = Some (fst (spec xs c), s') \<and> has s' h (snd (spec xs c))
    \<and> (\<forall>k. pin_count s' p k + occ k xs = pin_count s p k + occ k (snd (spec xs c)))"
proof -
  obtain s' where s': "exec s h c = Some (fst (spec xs c), s')" "has s' h (snd (spec xs c))" "only_changes h s s'"
    using call_ok [OF assms(1,2)] by blast
  let ?v = "fst (spec xs c)"
  let ?t = "if ?v \<noteq> VCOL_NOT_FOUND then vcol_gc_release s' p ?v else s'"
  have ready: "g_api s'" "p \<noteq> 0" using assms(3) s'(3) by (auto simp: gc_ready_def only_changes_def)
  have "pin_count ?t p k + occ k xs = pin_count s p k + occ k (snd (spec xs c))" for k
    using spec occ_add [of xs ?v "snd (spec xs c)" k] pin_count_release [OF ready, of ?v k] extrefs_kept [OF s'(3), of p k] assms(4) [rule_format, of k]
    by auto
  then show ?thesis using s'(1,2) by (auto simp: take_gc_def)
qed

end

interpretation alist_gc: gc_collection alist_exec alist_spec alist_has alist_grows alist_refused
proof unfold_locales
  fix s h c e and xs :: "u64 list"
  show "alist_has (s\<lparr>extrefs := e\<rparr>) h xs = alist_has s h xs" by (simp add: alist_has_def deref_def)
  show "alist_refused (s\<lparr>extrefs := e\<rparr>) h c = alist_refused s h c"
    by (simp add: alist_refused_def deref_def has_room_def malloc_def Let_def)
qed

interpretation queue_gc: gc_collection queue_exec queue_spec queue_has queue_grows queue_refused
proof unfold_locales
  fix s h c e and xs :: "u64 list"
  show "queue_has (s\<lparr>extrefs := e\<rparr>) h xs = queue_has s h xs" by (simp add: queue_has_def deref_def)
  show "queue_refused (s\<lparr>extrefs := e\<rparr>) h c = queue_refused s h c"
    by (simp add: queue_refused_def deref_def q_room_def malloc_def Let_def)
qed

section \<open>Walks that release every element\<close>

definition release_list :: "store \<Rightarrow> u64 \<Rightarrow> u64 list \<Rightarrow> store" where
  "release_list s p xs = fold (\<lambda>v s. vcol_gc_release s p v) xs s"

lemma release_list_simps [simp]:
  "release_list s p [] = s" "release_list s p (v # xs) = release_list (vcol_gc_release s p v) p xs"
  "release_list s p (xs @ ys) = release_list (release_list s p xs) p ys"
  by (simp_all add: release_list_def)

lemma release_list_other [simp]:
  "objs (release_list s p xs) = objs s" "nodes (release_list s p xs) = nodes s" "g_api (release_list s p xs) = g_api s"
  by (induction xs arbitrary: s) simp_all

lemma release_list_is_update: "\<exists>e. release_list s p xs = s\<lparr>extrefs := e\<rparr>"
proof (induction xs arbitrary: s)
  case Nil
  show ?case by (intro exI [of _ "extrefs s"]) simp
next
  case (Cons v xs)
  obtain e where "vcol_gc_release s p v = s\<lparr>extrefs := e\<rparr>" using release_is_update by blast
  then show ?case using Cons.IH [of "s\<lparr>extrefs := e\<rparr>"] by auto
qed

lemma pin_count_release_list:
  assumes "g_api s" "p \<noteq> 0"
  shows "pin_count (release_list s p xs) p k = pin_count s p k - occ k xs"
  using assms by (induction xs arbitrary: s) (auto simp: pin_count_release)

lemma deref_release_list [simp]: "deref prj (release_list s p xs) h = deref prj s h"
  by (simp add: deref_def)

lemma alist_release_all_eq:
  assumes rep: "da_rep 8 l xs"
  shows "alist_release_all s p l = Some (release_list s p xs)"
proof -
  have rd: "rd (da_data l) (of_nat i) = Some (xs ! i)" if "i < length xs" for i
  proof -
    have "unat (of_nat i :: u64) = i" using that da_rep_length63 [OF rep] by (intro unat_of_nat64) simp
    then show ?thesis using da_rep_rd [OF rep, of "of_nat i"] that by simp
  qed
  have "for_each (\<lambda>i s. do { v \<leftarrow> rd (da_data l) (of_nat i); Some (vcol_gc_release s p v) }) is s
      = Some (release_list s p (map ((!) xs) is))" if "\<forall>i \<in> set is. i < length xs" for "is" s
    using that by (induction "is" arbitrary: s) (simp_all add: rd)
  from this [of "[0..<length xs]"] show ?thesis using da_rep_sizeD [OF rep] by (simp add: alist_release_all_def map_nth)
qed

lemma queue_release_all_eq:
  assumes rep: "q_rep q xs"
  shows "queue_release_all s p q = Some (release_list s p xs)"
proof -
  note r = q_repD [OF rep]
  have nxt: "unat ((pos + 1) AND q_mask q) = (unat (q_head q) + Suc i) mod unat (q_cap q)"
    if "unat pos = (unat (q_head q) + i) mod unat (q_cap q)" for pos i
    using that r(1,2) by (simp add: unat_and_mask unat_add_mod mod_simps)
  have "map_option fst (for_each (\<lambda>i (s, pos). do { v \<leftarrow> rd (q_data q) pos; Some (vcol_gc_release s p v, (pos + 1) AND q_mask q) })
      [i..<length xs] (s, pos)) = Some (release_list s p (drop i xs))"
    if "i \<le> length xs" "unat pos = (unat (q_head q) + i) mod unat (q_cap q)" for i s pos
    using that
  proof (induction i arbitrary: s pos rule: inc_induct)
    case base
    then show ?case by simp
  next
    case (step n)
    then show ?case
      using q_rep_rd [OF rep, of n pos] nxt [of pos n] by (simp add: upt_conv_Cons Cons_nth_drop_Suc [symmetric])
  qed
  from this [of 0 "q_head q"] show ?thesis using r(4,5) by (simp add: queue_release_all_def)
qed

section \<open>The calls of each collection\<close>

fun alist_gc_exec :: "store \<Rightarrow> u64 \<Rightarrow> u64 \<Rightarrow> alist_cmd \<Rightarrow> (u64 \<times> store) option" where
  "alist_gc_exec s p h (ALPush e) = vcol_alist_push_gc s p h e"
| "alist_gc_exec s p h ALPop = vcol_alist_pop_gc s p h"
| "alist_gc_exec s p h (ALSet i e) = vcol_alist_set_gc s p h i e"
| "alist_gc_exec s p h (ALRemoveAt i) = vcol_alist_remove_at_gc s p h i"
| "alist_gc_exec s p h (ALInsert i e) = vcol_alist_insert_gc s p h i e"
| "alist_gc_exec s p h ALClear = map_option (\<lambda>s. (0, s)) (vcol_alist_clear_gc s p h)"
| "alist_gc_exec s p h c = alist_exec s h c"

fun queue_gc_exec :: "store \<Rightarrow> u64 \<Rightarrow> u64 \<Rightarrow> queue_cmd \<Rightarrow> (u64 \<times> store) option" where
  "queue_gc_exec s p h (QPush v) = vcol_queue_push_gc s p h v"
| "queue_gc_exec s p h QPop = vcol_queue_pop_gc s p h"
| "queue_gc_exec s p h QClear = map_option (\<lambda>s. (0, s)) (vcol_queue_clear_gc s p h)"
| "queue_gc_exec s p h (DPushBack v) = vcol_deque_push_back_gc s p h v"
| "queue_gc_exec s p h (DPushFront v) = vcol_deque_push_front_gc s p h v"
| "queue_gc_exec s p h DPopFront = vcol_deque_pop_front_gc s p h"
| "queue_gc_exec s p h DPopBack = vcol_deque_pop_back_gc s p h"
| "queue_gc_exec s p h DClear = map_option (\<lambda>s. (0, s)) (vcol_deque_clear_gc s p h)"
| "queue_gc_exec s p h c = queue_exec s h c"

text \<open>The value that a call is to store.\<close>

fun alist_stores :: "alist_cmd \<Rightarrow> u64 option" where
  "alist_stores (ALPush e) = Some e"
| "alist_stores (ALInsert i e) = Some e"
| "alist_stores (ALSet i e) = Some e"
| "alist_stores c = None"

lemma alist_gc_store:
  "alist_gc_exec s p h (ALPush e) = store_gc alist_exec s p h (ALPush e) e"
  "alist_gc_exec s p h (ALInsert i e) = store_gc alist_exec s p h (ALInsert i e) e"
  by (simp_all add: store_gc_def vcol_alist_push_gc_def vcol_alist_insert_gc_def)

lemma alist_gc_take:
  "alist_gc_exec s p h ALPop = take_gc alist_exec s p h ALPop"
  "alist_gc_exec s p h (ALRemoveAt i) = take_gc alist_exec s p h (ALRemoveAt i)"
  by (simp_all add: take_gc_def vcol_alist_pop_gc_def vcol_alist_remove_at_gc_def)

lemma queue_gc_store:
  "queue_gc_exec s p h (QPush v) = store_gc queue_exec s p h (QPush v) v"
  "queue_gc_exec s p h (DPushBack v) = store_gc queue_exec s p h (DPushBack v) v"
  "queue_gc_exec s p h (DPushFront v) = store_gc queue_exec s p h (DPushFront v) v"
  by (simp_all add: store_gc_def vcol_queue_push_gc_def vcol_deque_push_back_gc_def vcol_deque_push_front_gc_def)

lemma queue_gc_take:
  "queue_gc_exec s p h QPop = take_gc queue_exec s p h QPop"
  "queue_gc_exec s p h DPopFront = take_gc queue_exec s p h DPopFront"
  "queue_gc_exec s p h DPopBack = take_gc queue_exec s p h DPopBack"
  by (simp_all add: take_gc_def vcol_queue_pop_gc_def vcol_deque_pop_front_gc_def vcol_deque_pop_back_gc_def)

lemma mset_snoc: "xs \<noteq> [] \<Longrightarrow> mset xs = add_mset (last xs) (mset (butlast xs))"
  by (metis append_butlast_last_id mset.simps(2) mset_append union_mset_add_mset_right add.right_neutral mset.simps(1))

lemma mset_nth_take_drop: "i < length xs \<Longrightarrow> mset xs = add_mset (xs ! i) (mset (take i xs @ drop (Suc i) xs))"
  by (subst id_take_nth_drop [of i xs]) auto

lemma mset_insert_at: "mset (take i xs @ e # drop i xs) = add_mset e (mset xs)"
  by (metis append_take_drop_id mset.simps(2) mset_append union_mset_add_mset_right)

lemma occ_update: "i < length xs \<Longrightarrow> occ k (xs[i := v]) + occ k [xs ! i] = occ k xs + occ k [v]"
  using occ_add [OF mset_nth_take_drop, of i xs k] by (simp add: upd_conv_take_nth_drop)

text \<open>Both walks, followed by the clearing itself.\<close>

lemma clear_balances:
  assumes "gc_ready s p" "\<forall>k. occ k xs \<le> pin_count s p k" "only_changes h (release_list s p xs) s'"
  shows "pin_count s' p k + occ k xs = pin_count s p k + occ k []"
  using assms pin_count_release_list [of s p xs k] alist_gc.extrefs_kept [OF assms(3), of p k] by (auto simp: gc_ready_def)

lemma alist_clear_gc_ok:
  assumes has: "alist_has s h xs" and "gc_ready s p" "\<forall>k. occ k xs \<le> pin_count s p k"
  shows "\<exists>s'. vcol_alist_clear_gc s p h = Some s' \<and> alist_has s' h [] \<and> only_changes h (release_list s p xs) s'
    \<and> (\<forall>k. pin_count s' p k + occ k xs = pin_count s p k + occ k [])"
proof -
  obtain l where l: "h \<noteq> 0" "deref as_alist s h = Some l" "da_rep 8 l xs" using has by (auto simp: alist_has_def)
  then have "alist_has (release_list s p xs) h xs" by (simp add: alist_has_def)
  then obtain s' where "vcol_alist_clear (release_list s p xs) h = Some s'" "alist_has s' h []" "only_changes h (release_list s p xs) s'"
    using alist_clear_ok by blast
  then show ?thesis
    using l clear_balances [OF assms(2,3)] by (simp add: vcol_alist_clear_gc_def alist_release_all_eq)
qed

lemma queue_clear_gc_ok:
  assumes has: "queue_has s h xs" and "gc_ready s p" "\<forall>k. occ k xs \<le> pin_count s p k"
  shows "\<exists>s'. vcol_queue_clear_gc s p h = Some s' \<and> queue_has s' h [] \<and> only_changes h (release_list s p xs) s'
    \<and> (\<forall>k. pin_count s' p k + occ k xs = pin_count s p k + occ k [])"
proof -
  obtain q where q: "h \<noteq> 0" "deref as_queue s h = Some q" "q_rep q xs" using has by (auto simp: queue_has_def)
  have "(if q_size q > 0 then queue_release_all s p q else Some s) = Some (release_list s p xs)"
    using queue_release_all_eq [OF q(3)] q_rep_empty [OF q(3)] by (auto simp: word_gt_0)
  moreover from q have "queue_has (release_list s p xs) h xs" by (simp add: queue_has_def)
  then obtain s' where "vcol_queue_clear (release_list s p xs) h = Some s'" "queue_has s' h []" "only_changes h (release_list s p xs) s'"
    using queue_clear_ok by blast
  ultimately show ?thesis
    using q clear_balances [OF assms(2,3)] by (simp add: vcol_queue_clear_gc_def)
qed

lemma alist_set_gc_ok:
  assumes has: "alist_has s h xs" and "gc_ready s p" "\<forall>k. occ k xs \<le> pin_count s p k" and i: "unat i < length xs"
  shows "\<exists>s'. vcol_alist_set_gc s p h i v = Some (xs ! unat i, s') \<and> alist_has s' h (xs[unat i := v])
    \<and> (\<forall>k. pin_count s' p k + occ k xs = pin_count s p k + occ k (xs[unat i := v]))"
proof -
  let ?s = "vcol_gc_addref s p v" and ?old = "xs ! unat i"
  have "alist_has ?s h xs" using has by simp
  then obtain s' where s': "vcol_alist_set ?s h i v = Some (?old, s')" "alist_has s' h (xs[unat i := v])" "only_changes h ?s s'"
    using alist_set_ok i by blast
  let ?t = "if ?old \<noteq> VCOL_NOT_FOUND then vcol_gc_release s' p ?old else s'"
  have ready: "g_api s'" "p \<noteq> 0" using assms(2) s'(3) by (auto simp: gc_ready_def only_changes_def)
  have "pin_count ?t p k + occ k xs = pin_count s p k + occ k (xs[unat i := v])" for k
    using pin_count_release [OF ready, of ?old k] alist_gc.extrefs_kept [OF s'(3), of p k] pin_count_addref [OF assms(2), of v k]
      occ_update [OF i, of k v] assms(3) [rule_format, of k] occ_add [OF mset_nth_take_drop [OF i], of k]
    by (auto split: if_splits)
  moreover have "vcol_alist_set_gc s p h i v = Some (?old, ?t)"
    using alist_get_eq [OF has, of i] i s'(1) by (simp add: vcol_alist_set_gc_def)
  ultimately show ?thesis using s'(2) by auto
qed

lemma plain_balances:
  assumes "only_changes h s s'"
  shows "pin_count s' p k + occ k xs = pin_count s p k + occ k xs"
  using alist_gc.extrefs_kept [OF assms] by simp

lemma alist_gc_balances:
  assumes has: "alist_has s h xs" "\<not> alist_refused s h c" and gc: "gc_ready s p" "\<forall>k. occ k xs \<le> pin_count s p k"
    and inside: "\<forall>i e. c = ALSet i e \<longrightarrow> unat i < length xs"
  shows "\<exists>s'. alist_gc_exec s p h c = Some (fst (alist_spec xs c), s') \<and> alist_has s' h (snd (alist_spec xs c))
    \<and> (\<forall>k. pin_count s' p k + occ k xs = pin_count s p k + occ k (snd (alist_spec xs c)))"
proof -
  note store = alist_gc.store_ok [OF has gc(1)] and take = alist_gc.take_ok [OF has gc] and plain = alist_api.call_ok [OF has]
  show ?thesis
  proof (cases c)
    case (ALPush e)
    show ?thesis unfolding ALPush alist_gc_store using store [of e] ALPush by simp
  next
    case (ALInsert i e)
    have "mset (snd (alist_spec xs c)) = add_mset e (mset xs)"
      using ALInsert mset_insert_at [of "min (unat i) (length xs)" xs e] by (simp add: Let_def)
    then show ?thesis using store [of e] ALInsert by (simp only: alist_gc_store)
  next
    case ALPop
    show ?thesis unfolding ALPop alist_gc_take using take ALPop by (simp add: mset_snoc)
  next
    case (ALRemoveAt i)
    show ?thesis unfolding ALRemoveAt alist_gc_take using take ALRemoveAt mset_nth_take_drop [of "unat i" xs] by simp
  next
    case (ALSet i e)
    then show ?thesis using alist_set_gc_ok [OF has(1) gc, of i e] inside by simp
  next
    case ALClear
    then show ?thesis using alist_clear_gc_ok [OF has(1) gc] by auto
  next
    case (ALGet i)
    then show ?thesis using plain plain_balances by auto
  next
    case ALSize
    then show ?thesis using plain plain_balances by auto
  next
    case (ALIndexOf e)
    then show ?thesis using plain plain_balances by auto
  qed
qed

lemma queue_gc_balances:
  assumes has: "queue_has s h xs" "\<not> queue_refused s h c" and gc: "gc_ready s p" "\<forall>k. occ k xs \<le> pin_count s p k"
    and counted: "\<forall>v. c \<noteq> QRemoveValue v"
  shows "\<exists>s'. queue_gc_exec s p h c = Some (fst (queue_spec xs c), s') \<and> queue_has s' h (snd (queue_spec xs c))
    \<and> (\<forall>k. pin_count s' p k + occ k xs = pin_count s p k + occ k (snd (queue_spec xs c)))"
proof -
  note store = queue_gc.store_ok [OF has gc(1)] and take = queue_gc.take_ok [OF has gc] and plain = queue_api.call_ok [OF has]
    and clear = queue_clear_gc_ok [OF has(1) gc]
  have front: "mset xs = add_mset (spec_front xs) (mset (tl xs)) \<or> spec_front xs = VCOL_NOT_FOUND \<and> tl xs = xs" by (cases xs) (simp_all add: spec_front_def)
  have rear: "mset xs = add_mset (spec_back xs) (mset (butlast xs)) \<or> spec_back xs = VCOL_NOT_FOUND \<and> butlast xs = xs"
    using mset_snoc [of xs] by (cases xs rule: rev_cases) (simp_all add: spec_back_def)
  show ?thesis
  proof (cases c)
    case (QPush v)
    show ?thesis unfolding QPush queue_gc_store using store [of v] QPush by simp
  next
    case (DPushBack v)
    show ?thesis unfolding DPushBack queue_gc_store using store [of v] DPushBack by simp
  next
    case (DPushFront v)
    show ?thesis unfolding DPushFront queue_gc_store using store [of v] DPushFront by simp
  next
    case QPop
    show ?thesis unfolding QPop queue_gc_take using take front QPop by simp
  next
    case DPopFront
    show ?thesis unfolding DPopFront queue_gc_take using take front DPopFront by simp
  next
    case DPopBack
    show ?thesis unfolding DPopBack queue_gc_take using take rear DPopBack by simp
  next
    case QClear
    then show ?thesis using clear by auto
  next
    case DClear
    then show ?thesis using clear by (auto simp: vcol_deque_clear_gc_def)
  qed (use counted plain plain_balances in auto)
qed

text \<open>A call that stores nothing, after it has counted the value.\<close>

lemma alist_gc_leaks:
  assumes has: "alist_has s h xs" and gc: "gc_ready s p"
    and idle: "alist_refused s h c \<or> (\<exists>i e. c = ALSet i e \<and> length xs \<le> unat i)" and v: "alist_stores c = Some v"
  shows "\<exists>s'. alist_gc_exec s p h c = Some (VCOL_NOT_FOUND, s') \<and> alist_has s' h xs
    \<and> (\<forall>k. pin_count s' p k = pin_count s p k + occ k [v])"
proof (cases c)
  case (ALPush e)
  then show ?thesis using alist_gc.store_leaks [OF has _ gc, of c e] idle v by (simp only: alist_gc_store) simp
next
  case (ALInsert i e)
  then show ?thesis using alist_gc.store_leaks [OF has _ gc, of c e] idle v by (simp only: alist_gc_store) simp
next
  case (ALSet i e)
  then have out: "length xs \<le> unat i" "e = v" using idle v alist_api.call_refused [OF has, of c] by auto
  have "alist_has (vcol_gc_addref s p v) h xs" using has by simp
  then show ?thesis
    using ALSet out alist_get_eq [OF has, of i] alist_set_out [of "vcol_gc_addref s p v" h xs i v] pin_count_addref [OF gc]
    by (simp add: vcol_alist_set_gc_def)
qed (use v in simp_all)

section \<open>Maps\<close>

definition map_occ :: "u32 \<Rightarrow> (u64 \<rightharpoonup> u64) \<Rightarrow> nat" where
  "map_occ k mp = card {x. \<exists>v. mp x = Some v \<and> handle_of v = Some k}"

definition occ_at :: "u32 \<Rightarrow> (u64 \<rightharpoonup> u64) \<Rightarrow> u64 \<Rightarrow> nat" where
  "occ_at k mp x = (case mp x of None \<Rightarrow> 0 | Some v \<Rightarrow> occ k [v])"

lemma map_occ_split: "map_occ k mp = occ_at k mp x + map_occ k (mp(x := None))"
proof -
  let ?S = "{y. \<exists>v. mp y = Some v \<and> handle_of v = Some k}"
  have "{y. \<exists>v. (mp(x := None)) y = Some v \<and> handle_of v = Some k} = ?S - {x}" by auto
  moreover have "occ_at k mp x = (if x \<in> ?S then 1 else 0)" by (auto simp: occ_at_def split: option.split)
  ultimately show ?thesis using card_Suc_Diff1 [of ?S x] by (auto simp: map_occ_def)
qed

lemma map_occ_put: "map_occ k (mp(x \<mapsto> v)) + occ_at k mp x = map_occ k mp + occ k [v]"
  using map_occ_split [of k "mp(x \<mapsto> v)" x] map_occ_split [of k mp x] by (simp add: occ_at_def)

definition put_gc_via where
  "put_gc_via contains_op get_op put_op s proc handle key value =
     do {
       had \<leftarrow> contains_op s handle key;
       old \<leftarrow> (if (had :: u64) \<noteq> 0 then get_op s handle key else Some 0);
       let s = vcol_gc_addref s proc value;
       s \<leftarrow> put_op s handle key value;
       Some (if had \<noteq> 0 \<and> old \<noteq> 0 then vcol_gc_release s proc old else s)
     }"

definition remove_gc_via where
  "remove_gc_via remove_op s proc handle key =
     do { (v, s) \<leftarrow> remove_op s handle key; Some (v, if v \<noteq> VCOL_NOT_FOUND then vcol_gc_release s proc v else s) }"

lemma put_gc_is_via:
  "vcol_map_put_gc = put_gc_via vcol_map_contains vcol_map_get vcol_map_put"
  "vcol_tmap_put_gc = put_gc_via vcol_tmap_contains vcol_tmap_get vcol_tmap_put"
  "vcol_map_remove_gc = remove_gc_via vcol_map_remove"
  "vcol_tmap_remove_gc = remove_gc_via vcol_tmap_remove"
  by (intro ext, simp add: vcol_map_put_gc_def vcol_tmap_put_gc_def vcol_map_remove_gc_def vcol_tmap_remove_gc_def
      put_gc_via_def remove_gc_via_def)+

locale gc_map = map_provider +
  fixes get_op :: "store \<Rightarrow> u64 \<Rightarrow> u64 \<Rightarrow> u64 option"
  assumes get_ok: "denotes s h mp \<Longrightarrow> ready s h \<Longrightarrow> mp k = Some v \<Longrightarrow> get_op s h k = Some v"
    and denotes_extrefs: "denotes (s\<lparr>extrefs := e\<rparr>) h mp = denotes s h mp"
    and ready_extrefs: "ready (s\<lparr>extrefs := e\<rparr>) h = ready s h"
    and refused_extrefs: "refused (s\<lparr>extrefs := e\<rparr>) h k = refused s h k"
    and frame_extrefs: "denotes s h mp \<Longrightarrow> frame h s s' \<Longrightarrow> extrefs s' = extrefs s \<and> g_api s' = g_api s"
begin

lemma addref_kept: "denotes (vcol_gc_addref s p v) h mp = denotes s h mp" "ready (vcol_gc_addref s p v) h = ready s h"
  "refused (vcol_gc_addref s p v) h x = refused s h x"
  using addref_is_update [of s p v] denotes_extrefs ready_extrefs refused_extrefs by metis+

lemma release_kept: "denotes (vcol_gc_release s p v) h mp = denotes s h mp"
  using release_is_update [of s p v] denotes_extrefs by metis

text \<open>The count after a put, whatever became of the put itself: up for the new value, down for the old.\<close>

lemma put_gc_counts:
  assumes d: "denotes s h mp" "ready s h" and gc: "gc_ready s p" and le: "\<forall>k. occ_at k mp x \<le> pin_count s p k"
  shows "\<exists>s'. put_gc_via contains_op get_op put_op s p h x v = Some s'
    \<and> denotes s' h (if refused s h x then mp else mp(x \<mapsto> v))
    \<and> (\<forall>k. pin_count s' p k + occ_at k mp x = pin_count s p k + occ k [v])"
proof -
  let ?s = "vcol_gc_addref s p v"
  have "denotes ?s h mp" "ready ?s h" using d by (simp_all add: addref_kept)
  then obtain s1 where s1: "put_op ?s h x v = Some s1" "denotes s1 h (if refused s h x then mp else mp(x \<mapsto> v))" "frame h ?s s1"
    using put_ok [of ?s h mp x v] put_refused [of ?s h mp x v] by (cases "refused s h x") (auto simp: addref_kept)
  have e: "extrefs s1 = extrefs ?s" "g_api s1" "p \<noteq> 0" using frame_extrefs [OF _ s1(3)] d gc by (auto simp: gc_ready_def addref_kept)
  have up: "pin_count s1 p k = pin_count s p k + occ k [v]" for k
    using pin_count_addref [OF gc, of v k] e(1) by (simp add: pin_count_def)
  show ?thesis
  proof (cases "mp x")
    case None
    then show ?thesis using contains_ok [OF d, of x] s1 up by (auto simp: put_gc_via_def occ_at_def)
  next
    case (Some old)
    have "contains_op s h x = Some 1" "get_op s h x = Some old" using contains_ok [OF d, of x] get_ok [OF d Some] Some by auto
    moreover have "pin_count (if old \<noteq> 0 then vcol_gc_release s1 p old else s1) p k + occ_at k mp x = pin_count s p k + occ k [v]" for k
      using pin_count_release [OF e(2,3), of old k] up le [rule_format, of k] Some by (auto simp: occ_at_def handle_of_def)
    ultimately show ?thesis using s1(1,2) by (auto simp: put_gc_via_def release_kept)
  qed
qed

lemma remove_gc_ok:
  assumes d: "denotes s h mp" "ready s h" and gc: "gc_ready s p" and le: "\<forall>k. map_occ k mp \<le> pin_count s p k"
  shows "\<exists>s'. remove_gc_via remove_op s p h x = Some (case mp x of None \<Rightarrow> VCOL_NOT_FOUND | Some v \<Rightarrow> v, s')
    \<and> denotes s' h (mp(x := None)) \<and> (\<forall>k. pin_count s' p k + map_occ k mp = pin_count s p k + map_occ k (mp(x := None)))"
proof -
  let ?v = "case mp x of None \<Rightarrow> VCOL_NOT_FOUND | Some v \<Rightarrow> v"
  obtain s1 where s1: "remove_op s h x = Some (?v, s1)" "denotes s1 h (mp(x := None))" "frame h s s1"
    using remove_ok [OF d] by blast
  have e: "extrefs s1 = extrefs s" "g_api s1" "p \<noteq> 0" using frame_extrefs [OF d(1) s1(3)] gc by (auto simp: gc_ready_def)
  have "occ_at k mp x = occ k [?v]" for k by (simp add: occ_at_def split: option.split)
  then have "pin_count (if ?v \<noteq> VCOL_NOT_FOUND then vcol_gc_release s1 p ?v else s1) p k + map_occ k mp
      = pin_count s p k + map_occ k (mp(x := None))" for k
    using pin_count_release [OF e(2,3), of ?v k] e(1) map_occ_split [of k mp x] le [rule_format, of k] by (auto simp: pin_count_def)
  then show ?thesis using s1(1,2) by (auto simp: remove_gc_via_def release_kept)
qed

text \<open>The counts follow the map when the put was not refused.\<close>

lemma put_gc_ok:
  assumes d: "denotes s h mp" "ready s h" "\<not> refused s h x" and gc: "gc_ready s p" and le: "\<forall>k. map_occ k mp \<le> pin_count s p k"
  shows "\<exists>s'. put_gc_via contains_op get_op put_op s p h x v = Some s' \<and> denotes s' h (mp(x \<mapsto> v))
    \<and> (\<forall>k. pin_count s' p k + map_occ k mp = pin_count s p k + map_occ k (mp(x \<mapsto> v)))"
proof -
  have "\<forall>k. occ_at k mp x \<le> pin_count s p k" using le map_occ_split [of _ mp x] by (metis add_leD1)
  from put_gc_counts [OF d(1,2) gc this, of v] obtain s' where s': "put_gc_via contains_op get_op put_op s p h x v = Some s'"
    "denotes s' h (mp(x \<mapsto> v))" "\<forall>k. pin_count s' p k + occ_at k mp x = pin_count s p k + occ k [v]" using d(3) by auto
  have "pin_count s' p k + map_occ k mp = pin_count s p k + map_occ k (mp(x \<mapsto> v))" for k
    using map_occ_put [of k mp x v] s'(3) [rule_format, of k] by linarith
  then show ?thesis using s'(1,2) by blast
qed

end

interpretation hash_gc: gc_map vcol_map_put vcol_map_contains vcol_map_remove map_has map_ready map_refused only_changes vcol_map_get
proof unfold_locales
  fix s h mp k v e s'
  show "map_has s h mp \<Longrightarrow> map_ready s h \<Longrightarrow> mp k = Some v \<Longrightarrow> vcol_map_get s h k = Some v" by (simp add: map_lookups(1))
  show "map_has (s\<lparr>extrefs := e\<rparr>) h mp = map_has s h mp" by (simp add: map_has_def deref_def)
  show "map_ready (s\<lparr>extrefs := e\<rparr>) h = map_ready s h" by (simp add: map_ready_def deref_def)
  show "map_refused (s\<lparr>extrefs := e\<rparr>) h k = map_refused s h k" by (simp add: map_refused_def deref_def malloc_def Let_def)
  show "only_changes h s s' \<Longrightarrow> extrefs s' = extrefs s \<and> g_api s' = g_api s" by (simp add: only_changes_def)
qed

lemma tmap_has_extrefs: "tmap_has (s\<lparr>extrefs := e\<rparr>) h A mp = tmap_has s h A mp"
  by (simp add: tmap_has_def tmap_rep_def deref_def)

interpretation tree_gc: gc_map vcol_tmap_put vcol_tmap_contains vcol_tmap_remove tmap_denotes "\<lambda>s h. True" tmap_put_fails tmap_only vcol_tmap_get
proof unfold_locales
  fix s h mp k v e s'
  show "tmap_denotes s h mp \<Longrightarrow> True \<Longrightarrow> mp k = Some v \<Longrightarrow> vcol_tmap_get s h k = Some v"
    using tmap_lookups(1) [of s h _ mp k] by (auto simp: tmap_denotes_def)
  show "tmap_denotes (s\<lparr>extrefs := e\<rparr>) h mp = tmap_denotes s h mp" by (simp add: tmap_denotes_def tmap_has_extrefs)
  show "tmap_put_fails (s\<lparr>extrefs := e\<rparr>) h k = tmap_put_fails s h k"
    by (simp add: tmap_put_fails_def tmap_has_extrefs tmap_refused_def malloc_def Let_def)
  show "tmap_denotes s h mp \<Longrightarrow> tmap_only h s s' \<Longrightarrow> extrefs s' = extrefs s \<and> g_api s' = g_api s"
    by (auto simp: tmap_denotes_def tmap_only_def tmap_frame_def)
qed simp_all

section \<open>Clearing a map\<close>

lemma map_occ_entries: "distinct (map fst es) \<Longrightarrow> map_occ k (map_of es) = occ k (map snd es)"
proof (induction es)
  case Nil
  show ?case by (simp add: map_occ_def)
next
  case (Cons e es)
  have "map_of es (fst e) = None" using Cons.prems by (simp add: map_of_eq_None_iff)
  then have "occ_at k (map_of es) (fst e) = 0" by (simp add: occ_at_def)
  then show ?case using map_occ_put [of k "map_of es" "fst e" "snd e"] Cons by (simp del: fun_upd_apply)
qed

lemma for_each_release: "for_each (\<lambda>e s. Some (vcol_gc_release s p (pick e))) es s = Some (release_list s p (map pick es))"
  by (induction es arbitrary: s) simp_all

lemma release_values_eq:
  assumes "tree_at (nodes s) nl q tr" "nl \<notin> set (addrs tr)"
  shows "vtree_release_values s p (addr nl tr) nl = Some (release_list s p (map (\<lambda>(a, k, v). v) (inorder tr)))"
  using assms
proof (induction tr arbitrary: s q)
  case PLeaf
  then show ?case by (subst vtree_release_values.simps) simp
next
  case (PNode a c k v l r)
  then show ?case by (subst vtree_release_values.simps) auto
qed

lemma release_keys_eq:
  assumes "tree_at (nodes s) nl q tr" "nl \<notin> set (addrs tr)"
  shows "vtree_release_keys s p (addr nl tr) nl = Some (release_list s p (map (\<lambda>(a, k, v). k) (inorder tr)))"
  using assms
proof (induction tr arbitrary: s q)
  case PLeaf
  then show ?case by (subst vtree_release_keys.simps) simp
next
  case (PNode a c k v l r)
  then show ?case by (subst vtree_release_keys.simps) auto
qed

lemma map_clear_gc_ok:
  assumes has: "map_has s h mp" and gc: "gc_ready s p"
  shows "\<exists>s'. vcol_map_clear_gc s p h = Some s' \<and> map_has s' h Map.empty \<and> (\<forall>k. pin_count s' p k = pin_count s p k - map_occ k mp)"
proof -
  obtain m where m: "h \<noteq> 0" "deref as_map s h = Some m" "map_rep m mp" using has by (auto simp: map_has_def)
  let ?vs = "map snd (entries (m_groups m))"
  have "map_has (release_list s p ?vs) h mp" using m by (auto simp: map_has_def)
  then obtain s' where s': "vcol_map_clear (release_list s p ?vs) h = Some s'" "map_has s' h Map.empty" "only_changes h (release_list s p ?vs) s'"
    using map_clear_ok by blast
  have "map_release_all snd s p m = Some (release_list s p ?vs)"
    using vmap_entries_eq [OF table_okD(2) [OF map_repD(1) [OF m(3)]]] by (simp add: map_release_all_def for_each_release)
  moreover have "pin_count s' p k = pin_count s p k - map_occ k mp" for k
    using alist_gc.extrefs_kept [OF s'(3), of p k] pin_count_release_list [of s p ?vs k] gc map_occ_entries [OF map_repD(2) [OF m(3)], of k]
      map_repD(3) [OF m(3)] by (simp add: gc_ready_def)
  ultimately show ?thesis using m s'(1,2) by (simp add: vcol_map_clear_gc_def)
qed

lemma tmap_clear_gc_ok:
  assumes has: "tmap_has s h A mp" and gc: "gc_ready s p"
  shows "\<exists>s' A'. vcol_tmap_clear_gc s p h = Some s' \<and> tmap_has s' h A' Map.empty \<and> (\<forall>k. pin_count s' p k = pin_count s p k - map_occ k mp)"
proof -
  obtain xs where rep: "tmap_rep s h A xs" and mp: "mp = entries_of xs" using has by (auto simp: tmap_has_def)
  obtain t N tr where r: "h \<noteq> 0" "deref as_tmap s h = Some t" "tree_in (nodes s) N (t, nodes s) tr" "inorder tr = xs" "sorted_wrt (<) (keys_of xs)"
    using tmap_repD [OF rep] by metis
  let ?vs = "map (\<lambda>(a, k, v). v) xs"
  have walk: "vtree_release_values s p (t_root t) (t_nil t) = Some (release_list s p ?vs)"
    using release_values_eq [of s "t_nil t" "t_nil t" tr p] r(3,4) by (auto simp: tree_in_def Let_def)
  have "tmap_has (release_list s p ?vs) h A mp" using has release_list_is_update [of s p ?vs] tmap_has_extrefs by metis
  then obtain s' A' where s': "vcol_tmap_clear (release_list s p ?vs) h = Some s'" "tmap_has s' h A' Map.empty"
      "tmap_frame A h (release_list s p ?vs) s'" using tmap_clear_ok by metis
  have "distinct (map fst (map snd xs))"
    using strict_sorted_iff [of "keys_of xs"] r(5) by (simp add: comp_def case_prod_beta')
  then have "map_occ k mp = occ k (map snd (map snd xs))" for k using mp map_occ_entries by (simp add: entries_of_def)
  moreover have "map snd (map snd xs) = ?vs" by (simp add: case_prod_beta')
  ultimately have occ: "map_occ k mp = occ k ?vs" for k by metis
  have "pin_count s' p k = pin_count s p k - map_occ k mp" for k
    using s'(3) pin_count_release_list [of s p ?vs k] gc by (simp add: gc_ready_def tmap_frame_def pin_count_def occ)
  then show ?thesis using r(1,2) walk s'(1,2) by (auto simp: vcol_tmap_clear_gc_def)
qed

section \<open>A table at its limit\<close>

text \<open>The map of the first \<open>n\<close> keys to one value; puts reach it, up to the threshold.\<close>

definition first_keys :: "nat \<Rightarrow> u64 \<Rightarrow> u64 \<rightharpoonup> u64" where
  "first_keys n v x = (if unat x < n then Some v else None)"

lemma first_keys_Suc:
  assumes "n \<le> 255"
  shows "first_keys (Suc n) v = (first_keys n v)(of_nat n \<mapsto> v)" and "of_nat n \<notin> dom (first_keys n v)"
proof -
  have n: "unat (of_nat n :: u64) = n" by (rule unat_of_nat64) (use assms in simp)
  then have "x = of_nat n \<longleftrightarrow> unat x = n" for x :: u64 by (metis word_of_nat_eq_iff unat_eq_iff64)
  then show "first_keys (Suc n) v = (first_keys n v)(of_nat n \<mapsto> v)" by (intro ext) (simp add: first_keys_def less_Suc_eq)
  show "of_nat n \<notin> dom (first_keys n v)" using n by (simp add: first_keys_def dom_def)
qed

lemma first_keys_card: "n \<le> 255 \<Longrightarrow> card (dom (first_keys n v)) = n"
proof (induction n)
  case 0
  then show ?case by (simp add: first_keys_def dom_def)
next
  case (Suc n)
  have "dom (first_keys (Suc n) v) = insert (of_nat n) (dom (first_keys n v))"
    using Suc.prems by (subst first_keys_Suc(1)) simp_all
  then show ?case using Suc first_keys_Suc(2) [of n v] by simp
qed

lemma map_fill:
  assumes "map_has s h Map.empty" "map_clean s h" "n \<le> map_thr s h" "n \<le> 255"
  shows "\<exists>s'. map_has s' h (first_keys n v) \<and> map_clean s' h \<and> map_thr s' h = map_thr s h \<and> only_changes h s s'"
  using assms(3,4)
proof (induction n)
  case 0
  have "first_keys 0 v = Map.empty" by (rule ext) (simp add: first_keys_def)
  then show ?case using assms(1,2) by auto
next
  case (Suc n)
  then obtain s' where s': "map_has s' h (first_keys n v)" "map_clean s' h" "map_thr s' h = map_thr s h" "only_changes h s s'" by auto
  moreover have "card (dom (first_keys n v)) < map_thr s' h" using first_keys_card [of n v] Suc.prems s'(3) by simp
  ultimately obtain t where "map_has t h ((first_keys n v)(of_nat n \<mapsto> v))" "only_changes h s' t" "map_clean t h" "map_thr t h = map_thr s h"
    using map_put_below [OF s'(1) map_clean_ready [OF s'(1,2)], of "of_nat n" v] by auto
  then show ?case
    using s'(4) Suc.prems(2) by (subst first_keys_Suc(1)) (auto intro: only_changes_trans)
qed

lemma demo_map_thr: "map_thr (snd (vcol_map_new demo_store 16)) 4096 = 14"
proof -
  have np: "next_pow2 16 = 16" by (simp add: next_pow2_def Let_def word_le_nat_alt)
  show ?thesis
    by (simp add: map_new_eq Let_def np VMAP_MIN_CAP_def VMAP_GROUP_W_def malloc_def PTRDIFF_MAX_def map_thr_def unat_div)
qed

section \<open>Properties\<close>

text \<open>C29. The counts follow the list: every call on a list of handles of the collector that is carried out gives the result
  of the plain call and changes the count of each handle by exactly as much as its number of occurrences
  in the list changes.\<close>

theorem gc_list_pins_balance:
  assumes "alist_has s h xs" and "\<not> alist_refused s h c" and "gc_ready s p" and "\<forall>k. occ k xs \<le> pin_count s p k"
    and "\<forall>i e. c = ALSet i e \<longrightarrow> unat i < length xs"
  shows "\<exists>s'. alist_gc_exec s p h c = Some (fst (alist_spec xs c), s') \<and> alist_has s' h (snd (alist_spec xs c))
    \<and> (\<forall>k. pin_count s' p k + occ k xs = pin_count s p k + occ k (snd (alist_spec xs c)))"
  using assms by (rule alist_gc_balances)

definition gc_demo :: store where
  "gc_demo = alist_demo\<lparr>extrefs := (\<lambda>_. [7 \<mapsto> 1, 9 \<mapsto> 1])\<rparr>"

lemma gc_demo_facts:
  "alist_has gc_demo 4096 [7, 9]" "\<not> alist_refused gc_demo 4096 c" "gc_ready gc_demo 1" "occ k [7, 9] = pin_count gc_demo 1 k"
proof -
  show "alist_has gc_demo 4096 [7, 9]" "\<not> alist_refused gc_demo 4096 c"
    using alist_demo_has alist_demo_room [of c] by (simp_all add: gc_demo_def alist_gc.has_extrefs alist_gc.refused_extrefs)
  show "occ k [7, 9] = pin_count gc_demo 1 k" by (auto simp: handle_of_def GC_NULL_HANDLE_def pin_count_def gc_demo_def)
  show "gc_ready gc_demo 1" by (auto simp: gc_ready_def gc_demo_def pin_count_def alist_demo_def)
qed

theorem gc_list_pins_balance_witness:
  "\<exists>s'. alist_gc_exec gc_demo 1 4096 (ALSet 1 7) = Some (9, s') \<and> alist_has s' 4096 [7, 7]
    \<and> pin_count s' 1 7 = 2 \<and> pin_count s' 1 9 = 0"
proof -
  have le: "\<forall>k. occ k [7, 9] \<le> pin_count gc_demo 1 k" using gc_demo_facts(4) by simp
  have i: "\<forall>i e. ALSet 1 7 = ALSet i e \<longrightarrow> unat i < length [7, 9 :: u64]" by simp
  obtain s' where s': "alist_gc_exec gc_demo 1 4096 (ALSet 1 7) = Some (9, s')" "alist_has s' 4096 [7, 7]"
      "\<forall>k. pin_count s' 1 k + occ k [7, 9] = pin_count gc_demo 1 k + occ k [7, 7]"
    using gc_list_pins_balance [OF gc_demo_facts(1,2,3) le i] by auto
  have "pin_count s' 1 k = occ k [7, 7]" for k using s'(3) [rule_format, of k] gc_demo_facts(4) [of k] by simp
  then show ?thesis using s' by (auto simp: handle_of_def GC_NULL_HANDLE_def)
qed

text \<open>A push or an insertion that is refused for lack of memory, and a set beyond the end, leave the list as it
  was and still raise the count of the value: the object is kept alive although no collection holds it.\<close>

theorem gc_store_leaks:
  assumes "alist_has s h xs" and "gc_ready s p" and "alist_stores c = Some v"
    and "alist_refused s h c \<or> (\<exists>i e. c = ALSet i e \<and> length xs \<le> unat i)"
  shows "\<exists>s'. alist_gc_exec s p h c = Some (VCOL_NOT_FOUND, s') \<and> alist_has s' h xs
    \<and> (\<forall>k. pin_count s' p k = pin_count s p k + occ k [v])"
  using alist_gc_leaks assms by blast

theorem gc_store_leaks_witness:
  "\<exists>s'. alist_gc_exec gc_demo 1 4096 (ALSet 2 5) = Some (VCOL_NOT_FOUND, s') \<and> alist_has s' 4096 [7, 9]
    \<and> pin_count gc_demo 1 5 = 0 \<and> pin_count s' 1 5 = 1"
proof -
  have v: "alist_stores (ALSet 2 5) = Some 5" by simp
  have "\<exists>i e. ALSet 2 5 = ALSet i e \<and> length [7, 9 :: u64] \<le> unat i" by (intro exI [of _ 2] exI [of _ 5]) simp
  then have idle: "alist_refused gc_demo 4096 (ALSet 2 5) \<or> (\<exists>i e. ALSet 2 5 = ALSet i e \<and> length [7, 9 :: u64] \<le> unat i)" ..
  have "pin_count gc_demo 1 5 = 0" "occ 5 [5] = 1" by (simp_all add: pin_count_def gc_demo_def handle_of_def GC_NULL_HANDLE_def)
  then show ?thesis using gc_store_leaks [OF gc_demo_facts(1,3) v idle] by auto
qed

text \<open>The same for the queues and the deques, for every call that has a counting variant.\<close>

theorem gc_queue_pins_balance:
  assumes "queue_has s h xs" and "\<not> queue_refused s h c" and "gc_ready s p" and "\<forall>k. occ k xs \<le> pin_count s p k"
    and "\<forall>v. c \<noteq> QRemoveValue v"
  shows "\<exists>s'. queue_gc_exec s p h c = Some (fst (queue_spec xs c), s') \<and> queue_has s' h (snd (queue_spec xs c))
    \<and> (\<forall>k. pin_count s' p k + occ k xs = pin_count s p k + occ k (snd (queue_spec xs c)))"
  using assms by (rule queue_gc_balances)

text \<open>C30. The counts follow the map: on a hash map of handles of the collector a put that is not refused and every removal
  act as the plain call and change the count of each handle by exactly as much as its number of occurrences among the
  values changes.\<close>

theorem gc_map_pins_balance:
  assumes "map_has s h mp" and "map_ready s h" and "gc_ready s p" and "\<forall>k. map_occ k mp \<le> pin_count s p k"
  shows "(map_refused s h x \<or> (\<exists>s'. vcol_map_put_gc s p h x v = Some s' \<and> map_has s' h (mp(x \<mapsto> v))
      \<and> (\<forall>k. pin_count s' p k + map_occ k mp = pin_count s p k + map_occ k (mp(x \<mapsto> v)))))
    \<and> (\<exists>s'. vcol_map_remove_gc s p h x = Some (case mp x of None \<Rightarrow> VCOL_NOT_FOUND | Some v \<Rightarrow> v, s') \<and> map_has s' h (mp(x := None))
      \<and> (\<forall>k. pin_count s' p k + map_occ k mp = pin_count s p k + map_occ k (mp(x := None))))"
  using hash_gc.put_gc_ok [OF assms(1,2) _ assms(3,4)] hash_gc.remove_gc_ok [OF assms] by (auto simp: put_gc_is_via)

text \<open>The same for the tree map.\<close>

theorem gc_tree_pins_balance:
  assumes "tmap_has s h A mp" and "gc_ready s p" and "\<forall>k. map_occ k mp \<le> pin_count s p k"
  shows "(tmap_refused s x mp \<or> (\<exists>s' A'. vcol_tmap_put_gc s p h x v = Some s' \<and> tmap_has s' h A' (mp(x \<mapsto> v))
      \<and> (\<forall>k. pin_count s' p k + map_occ k mp = pin_count s p k + map_occ k (mp(x \<mapsto> v)))))
    \<and> (\<exists>s' A'. vcol_tmap_remove_gc s p h x = Some (case mp x of None \<Rightarrow> VCOL_NOT_FOUND | Some v \<Rightarrow> v, s') \<and> tmap_has s' h A' (mp(x := None))
      \<and> (\<forall>k. pin_count s' p k + map_occ k mp = pin_count s p k + map_occ k (mp(x := None))))"
proof -
  have d: "tmap_denotes s h mp" using assms(1) by (auto simp: tmap_denotes_def)
  have "tmap_put_fails s h x \<longleftrightarrow> tmap_refused s x mp"
    unfolding tmap_put_fails_def using assms(1) tmap_has_unique by metis
  then show ?thesis
    using tree_gc.put_gc_ok [OF d TrueI _ assms(2,3)] tree_gc.remove_gc_ok [OF d TrueI assms(2,3)]
    by (auto simp: put_gc_is_via tmap_denotes_def)
qed

text \<open>C31. A put of a hash map that is refused, on a key that is present, releases the value that stays in the map: counts that
  agreed with the map before are too low after it, so the collector may free an object the map still holds.\<close>

theorem gc_put_releases_live:
  assumes "map_has s h mp" and "map_ready s h" and "map_refused s h x" and "gc_ready s p"
    and "\<forall>k. pin_count s p k = map_occ k mp" and "mp x = Some old" and "handle_of old = Some k" and "handle_of v \<noteq> Some k"
  shows "\<exists>s'. vcol_map_put_gc s p h x v = Some s' \<and> map_has s' h mp \<and> pin_count s' p k < map_occ k mp"
proof -
  have le: "\<forall>k. occ_at k mp x \<le> pin_count s p k" using assms(5) map_occ_split [of _ mp x] by (metis le_add1)
  have "occ_at k mp x = 1" "occ k [v] = 0" using assms(6-8) by (simp_all add: occ_at_def)
  moreover obtain s' where s': "vcol_map_put_gc s p h x v = Some s'" "map_has s' h mp"
      "\<forall>k. pin_count s' p k + occ_at k mp x = map_occ k mp + occ k [v]"
    using hash_gc.put_gc_counts [OF assms(1,2,4) le, of v] assms(3,5) by (auto simp: put_gc_is_via)
  ultimately show ?thesis using s'(3) [rule_format, of k] by auto
qed

text \<open>A table of 14 entries, the last before its doubling, on a host that grants no more memory.\<close>

lemma gc_full_map:
  "\<exists>s. map_has s 4096 (first_keys 14 7) \<and> map_ready s 4096 \<and> map_refused s 4096 0 \<and> gc_ready s 1
    \<and> (\<forall>k. pin_count s 1 k = map_occ k (first_keys 14 7))"
proof -
  let ?d = "snd (vcol_map_new demo_store 16)"
  obtain s where s: "map_has s 4096 (first_keys 14 7)" "map_clean s 4096" "map_thr s 4096 = 14" "only_changes 4096 ?d s"
    using map_fill [OF demo_map_has, of 14 7] demo_map_thr by auto
  let ?t = "s\<lparr>extrefs := (\<lambda>_. [7 \<mapsto> 14]), grant := (\<lambda>_ _. 0)\<rparr>"
  have deref: "deref prj ?t a = deref prj s a" for prj a by (simp add: deref_def)
  have has: "map_has ?t 4096 (first_keys 14 7)" "map_clean ?t 4096" using s(1,2) by (simp_all add: map_has_def map_clean_def deref)
  obtain m where m: "deref as_map s 4096 = Some m" using s(1) by (auto simp: map_has_def)
  have "unat (m_size m) = 14" "unat (m_threshold m) = 14"
    using map_has_card [OF s(1) m] first_keys_card [of 14 7] s(3) m by (simp_all add: map_thr_def)
  then have "m_size m + 1 > m_threshold m" by (simp add: word_less_nat_alt unat_word_ariths)
  moreover have "fst (malloc ?t b) = 0" for b by (simp add: malloc_def Let_def)
  ultimately have "map_refused ?t 4096 0" using m by (auto simp: map_refused_def deref)
  moreover have "{x. \<exists>v. first_keys 14 7 x = Some v \<and> handle_of v = Some k} = (if k = 7 then dom (first_keys 14 7) else {})" for k
    by (auto simp: first_keys_def handle_of_def GC_NULL_HANDLE_def dom_def split: if_splits)
  then have "pin_count ?t 1 k = map_occ k (first_keys 14 7)" for k
    using first_keys_card [of 14 7] by (simp add: map_occ_def pin_count_def)
  moreover have "gc_ready ?t 1"
    using s(4) by (auto simp: gc_ready_def pin_count_def only_changes_def map_new_eq Let_def)
  ultimately show ?thesis using has map_clean_ready [OF has] by blast
qed

theorem gc_put_releases_live_witness:
  "\<exists>s s'. map_has s 4096 (first_keys 14 7) \<and> (\<forall>k. pin_count s 1 k = map_occ k (first_keys 14 7))
    \<and> vcol_map_put_gc s 1 4096 0 9 = Some s' \<and> map_has s' 4096 (first_keys 14 7) \<and> pin_count s' 1 7 < map_occ 7 (first_keys 14 7)"
proof -
  obtain s where s: "map_has s 4096 (first_keys 14 7)" "map_ready s 4096" "map_refused s 4096 0" "gc_ready s 1"
      "\<forall>k. pin_count s 1 k = map_occ k (first_keys 14 7)"
    using gc_full_map by blast
  have "first_keys 14 7 0 = Some 7" "handle_of 7 = Some 7" "handle_of 9 \<noteq> Some 7"
    by (simp_all add: first_keys_def handle_of_def GC_NULL_HANDLE_def)
  from gc_put_releases_live [OF s this] show ?thesis using s(1,5) by blast
qed

theorem gc_map_pins_balance_witness:
  "\<exists>s s'. map_has s 4096 (first_keys 14 7) \<and> vcol_map_remove_gc s 1 4096 0 = Some (7, s')
    \<and> (\<forall>k. pin_count s' 1 k = map_occ k ((first_keys 14 7)(0 := None)))"
proof -
  obtain s where s: "map_has s 4096 (first_keys 14 7)" "map_ready s 4096" "gc_ready s 1"
      "\<forall>k. pin_count s 1 k = map_occ k (first_keys 14 7)"
    using gc_full_map by blast
  then have "\<forall>k. map_occ k (first_keys 14 7) \<le> pin_count s 1 k" by simp
  from gc_map_pins_balance [OF s(1-3) this, of 0] obtain s' where s': "vcol_map_remove_gc s 1 4096 0 = Some (case first_keys 14 7 0 of None \<Rightarrow> VCOL_NOT_FOUND | Some v \<Rightarrow> v, s')"
      "\<forall>k. pin_count s' 1 k + map_occ k (first_keys 14 7) = pin_count s 1 k + map_occ k ((first_keys 14 7)(0 := None))"
    by blast
  moreover have "first_keys 14 7 0 = Some 7" by (simp add: first_keys_def)
  ultimately show ?thesis using s(1,4) by (auto simp del: fun_upd_apply)
qed

end
