(* ===== verification/Spec2Isabelle.thy ===== *)
theory Spec2Isabelle
  imports Vcol_List Vcol_Queue Vcol_Arr Vcol_Str Vcol_HashSet Vcol_MapHang Vm_Calls Vm_Throw Vm_Rounds Vm_Quantum
    Vm_Wakeup Vcol_GcPins
begin

text \<open>
  A verification development for VestaVM, a virtual machine in C and C++ with 64-bit registers,
  paged virtual memory, lightweight processes under cooperative schedulers, exceptions and a
  native standard library.

  \<^bold>\<open>Parts of the program and the theories that model them.\<close>  The virtual machine runs a process by
  decoding the bytes at its program counter through two opcode tables, caching the decoded
  instruction, and calling the handler the table names; the handlers act on registers, flags and
  virtual memory.  Native code of the standard library works on its own host structures.

  \<^item> \<^verbatim>\<open>CPrelude\<close>: fixed-width integers, buffers with bounds, word and list lemmas that all share.
  \<^item> \<^verbatim>\<open>Vm_Flags\<close>, \<^verbatim>\<open>Vm_Alu\<close>: \<^verbatim>\<open>include/runtime/rflags.h\<close> and the operations of
    \<^verbatim>\<open>src/runtime/exec_instruction_alu.cpp\<close> at every operand width, with their flags.
  \<^item> \<^verbatim>\<open>Vm_Host\<close>, \<^verbatim>\<open>Vm_TLB\<close>, \<^verbatim>\<open>Vm_Memory\<close>: \<^verbatim>\<open>arena.h\<close>, \<^verbatim>\<open>arena_manager.cpp\<close>, \<^verbatim>\<open>TLB.cpp\<close> and
    \<^verbatim>\<open>VirtualMemory.cpp\<close>.  The host is the pages it has granted and a function that decides each
    further grant, so that refusals are part of the state.  \<^verbatim>\<open>Vm_MemSpec\<close> relates the memory to a map
    from virtual addresses to bytes, \<^verbatim>\<open>Vm_MemProps\<close> holds its properties.
  \<^item> \<^verbatim>\<open>Vm_Fsm\<close>, \<^verbatim>\<open>Vm_Process\<close>: states, events and transition table of \<^verbatim>\<open>Scheduler::init_fsm\<close>; the process
    \<^verbatim>\<open>ProcessVM\<close> with registers, decoded instructions, call frames and exception frames.
  \<^item> \<^verbatim>\<open>Vm_Exc\<close>, \<^verbatim>\<open>Vm_Exec\<close>, \<^verbatim>\<open>Vm_Stack\<close>: the instruction handlers: exceptions, arithmetic and moves, stack,
    calls and jumps.
  \<^item> \<^verbatim>\<open>Vm_Table\<close>, \<^verbatim>\<open>Vm_Decode\<close>: the 512 rows of \<^verbatim>\<open>decode_table.cpp\<close>, the 32 operand decoders and the cached
    decoding of \<^verbatim>\<open>decode_instruction.cpp\<close>.
  \<^item> \<^verbatim>\<open>Vm_Interp\<close>: \<^verbatim>\<open>execute_instruction\<close>, \<^verbatim>\<open>on_event\<close>, \<^verbatim>\<open>run_fsm_step\<close> and the handlers inlined in
    the threaded dispatch of \<^verbatim>\<open>Scheduler::run_loop\<close>.
  \<^item> \<^verbatim>\<open>Vm_Returns\<close>, \<^verbatim>\<open>Vm_Wf\<close>, \<^verbatim>\<open>Vm_Sched\<close>, \<^verbatim>\<open>Vm_Rounds\<close>, \<^verbatim>\<open>Vm_Quantum\<close>: computations that return and
    well-formed processes; the operations of \<^verbatim>\<open>Scheduler\<close> and a round of its loop: a quantum on the
    threaded dispatch or through the state machine, and what becomes of the process after it; their
    invariant and properties.
  \<^item> \<^verbatim>\<open>Vm_Wakeup\<close>: the accesses of a process that falls asleep and of \<^verbatim>\<open>Scheduler::make_ready\<close>, interleaved.
  \<^item> \<^verbatim>\<open>Vcol_*\<close>: \<^verbatim>\<open>stdlib/native/collections/vesta_collections.c\<close>: lists, array lists, ring-buffer queues and
    deques, the group-probing hash map, hash sets, red-black tree maps and sets, string search and
    splitting, array search, and the variants of the collections for handles of collected objects.
    \<^verbatim>\<open>Vcol_Store\<close> is the host heap of these structures with an allocator that may refuse;
    \<^verbatim>\<open>Vcol_Api\<close>, \<^verbatim>\<open>Vcol_DArr\<close>, \<^verbatim>\<open>Vcol_Bits\<close>, \<^verbatim>\<open>Vcol_Probe\<close>, \<^verbatim>\<open>Vcol_HashTable\<close> and \<^verbatim>\<open>Vcol_MapApi\<close> hold the interfaces
    and invariants that the structures share, as locales interpreted on the modelled operations.
  \<^item> \<^verbatim>\<open>Vcol_Tree\<close>: the operations of \<^verbatim>\<open>VestaTreeMap\<close> and \<^verbatim>\<open>VestaTreeSet\<close> on a heap of nodes with parent pointers
    and a sentinel.  \<^verbatim>\<open>Vcol_TreeHeap\<close> relates the heap to trees and contexts, \<^verbatim>\<open>Vcol_TreeInsert\<close>, \<^verbatim>\<open>Vcol_TreeDelete\<close>
    and \<^verbatim>\<open>Vcol_TreeUnlink\<close> verify the two repair loops and the unlinking of a node, \<^verbatim>\<open>Vcol_TreeMap\<close> and
    \<^verbatim>\<open>Vcol_TreeApi\<close> the exported operations.
  \<^item> \<^verbatim>\<open>Vcol_Gc\<close>, \<^verbatim>\<open>Vcol_GcPins\<close>: the counting variants \<^verbatim>\<open>vcol_*_gc\<close> with \<^verbatim>\<open>GcHeap::gc_addref\<close> and
    \<^verbatim>\<open>GcHeap::gc_release\<close> behind the functions the loader hands out, and what the counts say.

  \<^bold>\<open>Correspondence.\<close>  A C structure is a record with the fields the operations read, a union of operand
  bytes the list of its bytes, a pointer a 64-bit address into an explicit store.  Integers keep
  their width.  A result of type \<^verbatim>\<open>res\<close> stops with the reason (a host fault, behaviour the language leaves
  undefined, an exit of the process, a loop that does not end) or carries a value; a loop without an
  evident bound is a partial function in the option type, with \<^verbatim>\<open>None\<close> for not returning, so that no
  fuel is needed.  Handlers of instruction families outside the development are the parameter
  \<^verbatim>\<open>other\<close> of the interpreter.

  \<^bold>\<open>What is shown.\<close>  Memory: the accessors refine the byte map over mapped pages and over pages they
  allocate on first touch, as long as the host grants them, cached and uncached accesses agree,
  the TLB is a page map (\<^verbatim>\<open>Vm_MemProps\<close>).  Arithmetic: flags,
  conditions, overflow tests, division, shifts (\<^verbatim>\<open>Vm_Alu\<close>).  Interpreter: the inlined handlers agree
  with the decoded ones (\<^verbatim>\<open>Vm_Fast\<close>), fused and three-operand instructions agree with the sequences
  they replace, but for the flags and the overflow of the three-operand multiplications
  (\<^verbatim>\<open>Vm_Fused\<close>), calls return and masked pushes are undone (\<^verbatim>\<open>Vm_Calls\<close>), a throw
  returns to the state of its handler (\<^verbatim>\<open>Vm_Throw\<close>), every instruction keeps processes well-formed
  (\<^verbatim>\<open>Vm_Wf\<close>).  Scheduler: index, vector and queue agree through every sequence of operations that
  removes no queued process, and the counter of live processes is off by the number of processes
  that died in a batch without hooks (\<^verbatim>\<open>Vm_Rounds\<close>); a quantum without \<^verbatim>\<open>yield\<close> ends, and outside of
  method frames no instruction of it hangs (\<^verbatim>\<open>Vm_Quantum\<close>); no interleaving in program order loses a
  wake-up (\<^verbatim>\<open>Vm_Wakeup\<close>).  Both scheduler statements assume of the handlers outside the development
  what \<^verbatim>\<open>other_ok\<close> and \<^verbatim>\<open>next_plain\<close> say.  Collections: every call refines the operation on the abstract list, queue, map or set it
  names, searches find the first occurrence, lookups return whenever the table has an empty slot, trees
  stay red-black trees with searches of logarithmic length (\<^verbatim>\<open>Vcol_TreeApi\<close>), and the counts of collected
  handles follow what the collections hold (\<^verbatim>\<open>Vcol_GcPins\<close>).
  Theorems named after a defect state what the code does where that differs from its comments:
  stale page cache, aliased arenas, inverted conditions, doubly released frames, clobbered handler
  registers, dead processes counted alive, queue entries of freed processes, a \<^verbatim>\<open>yield\<close> that never yields,
  wake-ups lost in store buffers or delivered twice, endless lookups, objects counted although not stored or
  released although still stored.

  \<^bold>\<open>Not modelled.\<close>  The just-in-time and ahead-of-time compilers (the interpreter is modelled with them
  switched off) and the semantics of native code; the Vex compiler, assembler, linker and loader;
  the garbage-collected heap but for its counts of external references, and the instruction families that act on it (objects, strings,
  closures, generics, reflection, weak references), floating point; futures, monitors, messages and
  distribution; debugger hooks, profiling counters and the recovery from host signals by
  \<^verbatim>\<open>setjmp\<close>; servers, command line, package manager; the other native libraries; vendored code.  Text output and
  diagnostics are left out throughout.
\<close>

end
